(* ===== verification/Prelude.thy ===== *)
theory Prelude
  imports Main "HOL-Library.Word"
begin

text \<open>
  Shared vocabulary of the development: the byte and integer types the code uses, little- and
  big-endian coding of numbers as the code's \<^verbatim>\<open>memcpy\<close> and \<^verbatim>\<open>WriteLE/WriteBE\<close> helpers do it
  (\<^verbatim>\<open>src/src/crypto/common.h\<close>), error-sum plumbing, and the generic list lemmas that several
  components use. The collection \<open>byte_simps\<close> gathers the coding facts.
\<close>

unbundle bit_operations_syntax

type_synonym byte = "8 word"
type_synonym bytes = "8 word list"
type_synonym u32 = "32 word"
type_synonym u64 = "64 word"
type_synonym CAmount = int

named_theorems byte_simps

section \<open>Errors as sums\<close>

definition sbind :: "'e + 'a \<Rightarrow> ('a \<Rightarrow> 'e + 'b) \<Rightarrow> 'e + 'b" where
  "sbind m f = (case m of Inl e \<Rightarrow> Inl e | Inr x \<Rightarrow> f x)"

lemma sbind_simps [simp]:
  "sbind (Inl e) f = Inl e"
  "sbind (Inr x) f = f x"
  by (simp_all add: sbind_def)

lemma sbind_eq_Inr: "sbind m f = Inr y \<longleftrightarrow> (\<exists>x. m = Inr x \<and> f x = Inr y)"
  by (cases m) auto

section \<open>Numbers as byte strings\<close>

primrec le_bytes :: "nat \<Rightarrow> nat \<Rightarrow> bytes" where
  "le_bytes 0 x = []"
| "le_bytes (Suc n) x = word_of_nat (x mod 256) # le_bytes n (x div 256)"

fun le_val :: "bytes \<Rightarrow> nat" where
  "le_val [] = 0"
| "le_val (b # bs) = unat b + 256 * le_val bs"

definition be_bytes :: "nat \<Rightarrow> nat \<Rightarrow> bytes" where
  "be_bytes n x = rev (le_bytes n x)"

definition be_val :: "bytes \<Rightarrow> nat" where
  "be_val bs = le_val (rev bs)"

lemma length_le_bytes [simp, byte_simps]: "length (le_bytes n x) = n"
  by (induction n arbitrary: x) auto

lemma length_be_bytes [simp, byte_simps]: "length (be_bytes n x) = n"
  by (simp add: be_bytes_def)

lemma unat_byte_lt [simp]: "unat (b :: byte) < 256"
  by (rule order_less_le_trans [OF unsigned_less]) simp

lemma unat_byte_of_nat [simp]: "unat (word_of_nat x :: byte) = x mod 256"
  by (simp add: unat_of_nat)

lemma le_val_lt: "le_val bs < 256 ^ length bs"
proof (induction bs)
  case (Cons b bs)
  have "unat b + 256 * le_val bs < 256 + 256 * le_val bs" by simp
  also have "\<dots> = 256 * Suc (le_val bs)" by simp
  also have "\<dots> \<le> 256 * 256 ^ length bs"
    using Cons.IH by (simp only: mult_le_mono2 Suc_leI)
  finally show ?case by simp
qed simp

lemma le_val_le_bytes [byte_simps]: "le_val (le_bytes n x) = x mod 256 ^ n"
proof (induction n arbitrary: x)
  case (Suc n)
  have "x mod (256 * 256 ^ n) = 256 * (x div 256 mod 256 ^ n) + x mod 256"
    by (rule mod_mult2_eq)
  with Suc show ?case by simp
qed simp

lemma le_bytes_le_val [byte_simps]: "le_bytes (length bs) (le_val bs) = bs"
proof (induction bs)
  case (Cons b bs)
  have "(unat b + 256 * le_val bs) mod 256 = unat b" by simp
  moreover have "(unat b + 256 * le_val bs) div 256 = le_val bs" by simp
  ultimately show ?case using Cons.IH by simp
qed simp

lemma be_val_be_bytes [byte_simps]: "be_val (be_bytes n x) = x mod 256 ^ n"
  by (simp add: be_val_def be_bytes_def le_val_le_bytes)

lemma le_val_append: "le_val (xs @ ys) = le_val xs + 256 ^ length xs * le_val ys"
  by (induction xs) (auto simp: algebra_simps)

lemma le_bytes_inj: "x < 256 ^ n \<Longrightarrow> y < 256 ^ n \<Longrightarrow> le_bytes n x = le_bytes n y \<Longrightarrow> x = y"
  by (metis le_val_le_bytes mod_less)

section \<open>Bits of bytes\<close>

lemma concat_bit_add: "0 \<le> r \<Longrightarrow> r < 2 ^ n \<Longrightarrow> r OR push_bit n x = r + 2 ^ n * (x::int)"
  by (metis concat_bit_def concat_bit_eq mult.commute push_bit_eq_mult take_bit_int_eq_self)

lemma bit_below: "0 \<le> x \<Longrightarrow> x < 2 ^ n \<Longrightarrow> bit (x::int) k \<Longrightarrow> k < n"
  by (metis bit_take_bit_iff take_bit_int_eq_self)

lemma clear_top: "0 \<le> x \<Longrightarrow> x < 2 ^ n \<Longrightarrow> (x + 2 ^ n) AND NOT (push_bit n 1) = (x::int)"
proof -
  assume a: "0 \<le> x" "x < 2 ^ n"
  then have e: "x + 2 ^ n = x OR push_bit n 1" using concat_bit_add [of x n 1] by simp
  show ?thesis unfolding e
    using a by (auto simp: bit_eq_iff bit_simps simp del: push_bit_of_1 dest: bit_below)
qed

lemma unat_and_7f: "unat (b AND 0x7f :: byte) = unat b mod 128"
proof -
  have "(0x7f::byte) = mask 7" by (simp add: mask_eq_exp_minus_1)
  then have "b AND 0x7f = take_bit 7 b" by (simp add: take_bit_eq_mask)
  then show ?thesis by (simp only: unsigned_take_bit_eq) (simp add: take_bit_eq_mod)
qed

lemma byte_high_iff: "b AND 0x80 \<noteq> 0 \<longleftrightarrow> 128 \<le> unat b" for b :: byte
proof -
  have 1: "(0x80::byte) = push_bit 7 1" by simp
  have "b AND 0x80 \<noteq> 0 \<longleftrightarrow> bit b 7"
    unfolding 1 by (metis and_exp_eq_0_iff_not_bit push_bit_of_1)
  also have "\<dots> \<longleftrightarrow> odd (unat b div 128)"
    using bit_unsigned_iff [of b 7, where ?'a = nat] by (simp add: bit_iff_odd)
  also have "\<dots> \<longleftrightarrow> 128 \<le> unat b"
  proof -
    have "unat b div 128 < 2" using unat_byte_lt [of b] by (simp add: less_mult_imp_div_less)
    then have "odd (unat b div 128) \<longleftrightarrow> unat b div 128 \<noteq> 0" by (cases "unat b div 128") auto
    then show ?thesis by (simp add: div_eq_0_iff not_less)
  qed
  finally show ?thesis .
qed

lemma unat_or_80: "unat b < 128 \<Longrightarrow> unat (b OR 0x80 :: byte) = unat b + 128"
proof -
  assume a: "unat b < 128"
  have u: "uint x = int (unat x)" for x :: byte by simp
  have "int (unat b) < 128" using a by linarith
  then have "uint b < 2 ^ 7" by simp
  then have "uint b OR push_bit 7 1 = uint b + 2 ^ 7 * 1"
    by (intro concat_bit_add) simp_all
  moreover have "uint (b OR 0x80) = uint b OR push_bit 7 1" by (simp add: uint_or)
  ultimately have "int (unat (b OR 0x80)) = int (unat b) + 128" by simp
  then show ?thesis unfolding u by linarith
qed

lemma mod_128: "n < 256 \<Longrightarrow> n mod 128 = (if 128 \<le> n then n - 128 else n)" for n :: nat
  using le_mod_geq [of 128 n] by auto

lemma unat_of_nat_7bit:
  "n < 128 \<Longrightarrow> (word_of_nat n OR 0x80 :: byte) AND 0x80 \<noteq> 0"
  "n < 128 \<Longrightarrow> unat ((word_of_nat n OR 0x80 :: byte) AND 0x7F) = n"
  "n < 128 \<Longrightarrow> (word_of_nat n :: byte) AND 0x80 = 0"
  "n < 128 \<Longrightarrow> unat ((word_of_nat n :: byte) AND 0x7F) = n"
  using byte_high_iff [of "word_of_nat n OR 0x80"] byte_high_iff [of "word_of_nat n"]
  by (auto simp: unat_and_7f unat_or_80)

text \<open>Setting bits of a byte in a loop.\<close>

lemma bit_set_loop:
  fixes w :: byte
  shows "bit (foldl (\<lambda>w i. if Q i then w OR push_bit i 1 else w) w is) p \<longleftrightarrow> bit w p \<or> (p < 8 \<and> p \<in> set is \<and> Q p)"
  by (induction "is" arbitrary: w) (auto simp: bit_simps)

section \<open>Lists\<close>

text \<open>\<^verbatim>\<open>memcpy(buf + k, src, n)\<close> into a buffer of fixed size.\<close>

definition memcpy :: "'a list \<Rightarrow> nat \<Rightarrow> 'a list \<Rightarrow> 'a list" where
  "memcpy buf k src = take k buf @ src @ drop (k + length src) buf"

lemma length_memcpy [simp]:
  "k + length src \<le> length buf \<Longrightarrow> length (memcpy buf k src) = length buf"
  by (simp add: memcpy_def)

lemma take_memcpy [simp]:
  "k \<le> length buf \<Longrightarrow> take (k + length src) (memcpy buf k src) = take k buf @ src"
  by (simp add: memcpy_def)

lemma take_eq_prefix: "take n xs = ys \<Longrightarrow> k \<le> n \<Longrightarrow> take k xs = take k ys"
  by (metis min.absorb2 take_take min.commute)

end
