(* ===== verification/HashStream.thy ===== *)
theory HashStream
  imports Prelude
begin

text \<open>
  The streaming part of the hash classes \<^verbatim>\<open>CSHA1\<close>, \<^verbatim>\<open>CSHA256\<close> and \<^verbatim>\<open>CRIPEMD160\<close>
  (\<^verbatim>\<open>src/src/crypto\<close>): the object holds the chaining value \<^verbatim>\<open>s\<close>, a 64-byte buffer \<^verbatim>\<open>buf\<close>
  whose first \<^verbatim>\<open>bytes % 64\<close> entries are pending input, and the byte count. \<^verbatim>\<open>Write\<close> is the same
  text in the three classes up to \<^verbatim>\<open>Transform\<close>, so it is modelled once with the transform as an
  argument and instantiated in the theories of the classes. The buffer keeps its stale bytes, as
  the code's does; \<open>md_rep\<close> says which message an object stands for.

  The locale \<open>hasher\<close> is the contract the rest of the program uses: an object represents a
  message, writing appends, finalising gives the digest of the message.
\<close>

record 's hash_state =
  h_s :: 's
  h_buf :: bytes
  h_bytes :: nat

section \<open>The code\<close>

text \<open>\<^verbatim>\<open>while (end >= data + 64) { Transform(s, data); data += 64; }\<close>\<close>

function md_chunks :: "('s \<Rightarrow> bytes \<Rightarrow> 's) \<Rightarrow> 's \<Rightarrow> bytes \<Rightarrow> 's \<times> bytes" where
  "md_chunks T s data =
     (if 64 \<le> length data then md_chunks T (T s (take 64 data)) (drop 64 data) else (s, data))"
  by pat_completeness auto
termination by (relation "measure (\<lambda>(T, s, data). length data)") auto

declare md_chunks.simps [simp del]

definition md_write :: "('s \<Rightarrow> bytes \<Rightarrow> 's) \<Rightarrow> 's hash_state \<Rightarrow> bytes \<Rightarrow> 's hash_state" where
  "md_write T h data =
     (let bufsize = h_bytes h mod 64;
          (h1, data1, bufsize1) =
            (if bufsize \<noteq> 0 \<and> 64 \<le> bufsize + length data
             then let buf' = memcpy (h_buf h) bufsize (take (64 - bufsize) data)
                  in (\<lparr>h_s = T (h_s h) buf', h_buf = buf', h_bytes = h_bytes h + (64 - bufsize)\<rparr>,
                      drop (64 - bufsize) data, 0)
             else (h, data, bufsize));
          (s2, data2) = md_chunks T (h_s h1) data1;
          done = length data1 - length data2
      in if data2 \<noteq> []
         then \<lparr>h_s = s2, h_buf = memcpy (h_buf h1) bufsize1 data2,
               h_bytes = h_bytes h1 + done + length data2\<rparr>
         else \<lparr>h_s = s2, h_buf = h_buf h1, h_bytes = h_bytes h1 + done\<rparr>)"

text \<open>
  \<^verbatim>\<open>Finalize\<close> writes \<^verbatim>\<open>0x80\<close> and zeros up to 56 modulo 64, then the 8-byte bit count captured
  before the padding, in the class's byte order.
\<close>

definition md_pad :: "nat \<Rightarrow> bytes" where
  "md_pad n = take (1 + (119 - n mod 64) mod 64) (0x80 # replicate 63 0)"

definition md_finalize ::
  "('s \<Rightarrow> bytes \<Rightarrow> 's) \<Rightarrow> (nat \<Rightarrow> bytes) \<Rightarrow> ('s \<Rightarrow> bytes) \<Rightarrow> 's hash_state \<Rightarrow> bytes" where
  "md_finalize T enc out h =
     (let sizedesc = enc (h_bytes h * 8 mod 2 ^ 64);
          h1 = md_write T h (md_pad (h_bytes h));
          h2 = md_write T h1 sizedesc
      in out (h_s h2))"

definition md_new :: "'s \<Rightarrow> 's hash_state" where
  "md_new s0 = \<lparr>h_s = s0, h_buf = replicate 64 0, h_bytes = 0\<rparr>"

section \<open>The message an object stands for\<close>

definition md_fold :: "('s \<Rightarrow> bytes \<Rightarrow> 's) \<Rightarrow> 's \<Rightarrow> bytes \<Rightarrow> 's" where
  "md_fold T s m = fst (md_chunks T s m)"

definition md_rest :: "bytes \<Rightarrow> bytes" where
  "md_rest m = drop (64 * (length m div 64)) m"

definition md_rep :: "('s \<Rightarrow> bytes \<Rightarrow> 's) \<Rightarrow> 's \<Rightarrow> 's hash_state \<Rightarrow> bytes \<Rightarrow> bool" where
  "md_rep T s0 h m \<longleftrightarrow>
     h_s h = md_fold T s0 m \<and> h_bytes h = length m \<and> length (h_buf h) = 64 \<and>
     take (length m mod 64) (h_buf h) = md_rest m"

text \<open>The digest as a function of the whole message, with no buffering.\<close>

definition md_digest ::
  "('s \<Rightarrow> bytes \<Rightarrow> 's) \<Rightarrow> 's \<Rightarrow> (nat \<Rightarrow> bytes) \<Rightarrow> ('s \<Rightarrow> bytes) \<Rightarrow> bytes \<Rightarrow> bytes" where
  "md_digest T s0 enc out m =
     out (md_fold T s0 (m @ md_pad (length m) @ enc (length m * 8 mod 2 ^ 64)))"

lemma length_md_rest [simp]: "length (md_rest m) = length m mod 64"
  by (simp add: md_rest_def minus_mult_div_eq_mod)

lemma md_chunks_snd: "snd (md_chunks T s m) = md_rest m"
proof (induction T s m rule: md_chunks.induct)
  case (1 T s m)
  show ?case
  proof (cases "64 \<le> length m")
    case True
    then have "64 * ((length m - 64) div 64) + 64 = 64 * (length m div 64)"
      by (simp add: le_div_geq)
    then show ?thesis
      using True 1 by (simp add: md_chunks.simps [of T s m] md_rest_def)
  next
    case False
    then show ?thesis by (simp add: md_chunks.simps [of T s m] md_rest_def)
  qed
qed

lemma md_chunks_eq: "md_chunks T s m = (md_fold T s m, md_rest m)"
  by (metis md_fold_def md_chunks_snd prod.collapse)

lemma md_fold_small [simp]: "length m < 64 \<Longrightarrow> md_fold T s m = s"
  by (simp add: md_fold_def md_chunks.simps [of T s m])

lemma md_fold_step: "64 \<le> length m \<Longrightarrow> md_fold T s m = md_fold T (T s (take 64 m)) (drop 64 m)"
  by (simp add: md_fold_def md_chunks.simps [of T s m])

lemma md_rest_step: "64 \<le> length m \<Longrightarrow> md_rest m = md_rest (drop 64 m)"
  using md_chunks_snd [of _ _ m] md_chunks_snd [of _ _ "drop 64 m"]
  by (metis md_chunks.simps)

lemma md_fold_append: "md_fold T s (m @ d) = md_fold T (md_fold T s m) (md_rest m @ d)"
proof (induction T s m rule: md_chunks.induct)
  case (1 T s m)
  show ?case
  proof (cases "64 \<le> length m")
    case True
    then show ?thesis
      using 1 by (simp add: md_fold_step [of "m @ d"] md_fold_step [of m] md_rest_step [of m])
  next
    case False
    then show ?thesis by (simp add: md_rest_def)
  qed
qed

lemma md_rest_append: "md_rest (m @ d) = md_rest (md_rest m @ d)"
proof (induction "\<lambda>(s::unit) (_::bytes). s" "()" m rule: md_chunks.induct)
  case (1 m)
  show ?case
  proof (cases "64 \<le> length m")
    case True
    then show ?thesis
      using 1 by (simp add: md_rest_step [of "m @ d"] md_rest_step [of m])
  next
    case False
    then show ?thesis by (simp add: md_rest_def)
  qed
qed


lemma md_rep_new: "md_rep T s0 (md_new s0) []"
  by (simp add: md_rep_def md_new_def md_rest_def)

lemma md_rest_small [simp]: "length m < 64 \<Longrightarrow> md_rest m = m"
  by (simp add: md_rest_def)

lemma md_rest_aligned: "length m mod 64 = 0 \<Longrightarrow> md_rest m = []"
  using length_md_rest [of m] by (metis length_0_conv)

lemma md_rest_nil: "md_rest m = [] \<Longrightarrow> length m mod 64 = 0"
  using length_md_rest [of m] by simp

lemma md_rest_full: "length m mod 64 + length d = 64 \<Longrightarrow> md_rest (md_rest m @ d) = []"
  by (rule md_rest_aligned) simp

lemma md_fold_full: "length m = 64 \<Longrightarrow> md_fold T s m = T s m"
  by (simp add: md_fold_step)

text \<open>Writing into the buffer without filling it.\<close>

lemma md_write_rep_small:
  assumes "md_rep T s0 h m" and "length m mod 64 + length d < 64"
  shows "md_rep T s0 (md_write T h d) (m @ d)"
proof -
  have rest: "md_rest (m @ d) = md_rest m @ d" and "md_fold T s0 (m @ d) = md_fold T s0 m"
    using assms(2) by (simp_all add: md_rest_append [of m] md_fold_append [of T s0 m])
  moreover have "(length m + length d) mod 64 = length m mod 64 + length d"
    using assms(2) by (metis mod_add_left_eq mod_less)
  ultimately show ?thesis
    using assms by (cases "d = []") (auto simp: md_rep_def md_write_def Let_def md_chunks_eq memcpy_def)
qed

text \<open>Writing when the pending bytes are none: whole chunks go straight to \<^verbatim>\<open>Transform\<close>.\<close>

lemma md_write_rep_aligned:
  assumes "md_rep T s0 h m" and "length m mod 64 = 0"
  shows "md_rep T s0 (md_write T h d) (m @ d)"
proof -
  have "md_rest m = []" using assms(2) by (rule md_rest_aligned)
  then have rest: "md_rest (m @ d) = md_rest d"
    and fold: "md_fold T s0 (m @ d) = md_fold T (md_fold T s0 m) d"
    by (simp_all add: md_rest_append [of m] md_fold_append [of T s0 m])
  have "(length m + length d) mod 64 = length d mod 64"
    using assms(2) by (metis add_0 mod_add_left_eq)
  moreover have "length d - length d mod 64 + length d mod 64 = length d" by simp
  moreover have "length d mod 64 < 64" by simp
  moreover have "memcpy b 0 (md_rest d) = md_rest d @ drop (length d mod 64) b" for b
    by (simp add: memcpy_def)
  ultimately show ?thesis
    using assms rest fold
    by (cases "md_rest d = []")
       (simp_all add: md_rep_def md_write_def Let_def md_chunks_eq md_rest_nil)
qed

text \<open>Filling the buffer first is one \<^verbatim>\<open>Write\<close> of the filling part, then an aligned one.\<close>

lemma md_write_rep_fill:
  assumes "md_rep T s0 h m" and "length m mod 64 \<noteq> 0" and "64 \<le> length m mod 64 + length d"
  shows "md_rep T s0 (md_write T h d) (m @ d)"
proof -
  define k where "k = 64 - length m mod 64"
  define d1 where "d1 = take k d"
  define d2 where "d2 = drop k d"
  have k: "k \<le> length d" "length m mod 64 + k = 64" "length d1 = k"
    using assms(3) by (auto simp: k_def d1_def)
  have full: "memcpy (h_buf h) (length m mod 64) d1 = md_rest m @ d1"
    using assms(1) k by (simp add: memcpy_def md_rep_def)
  define h1 where "h1 = \<lparr>h_s = T (h_s h) (md_rest m @ d1), h_buf = md_rest m @ d1,
    h_bytes = h_bytes h + k\<rparr>"
  have aligned: "(length m + k) mod 64 = 0"
    using k(2) by (metis mod_add_left_eq mod_self)
  have "md_rep T s0 h1 (m @ d1)"
    using assms(1) k aligned
    by (simp add: md_rep_def h1_def md_fold_append [of T s0 m] md_fold_full
        md_rest_append [of m] md_rest_full)
  moreover have "length (m @ d1) mod 64 = 0" using aligned k by simp
  ultimately have "md_rep T s0 (md_write T h1 d2) ((m @ d1) @ d2)"
    by (rule md_write_rep_aligned)
  moreover have "md_write T h d = md_write T h1 d2"
    using assms k full aligned
    by (simp add: md_write_def Let_def h1_def md_rep_def k_def [symmetric] d1_def [symmetric]
        d2_def [symmetric])
  ultimately show ?thesis by (simp add: d1_def d2_def)
qed

lemma md_rep_write: "md_rep T s0 h m \<Longrightarrow> md_rep T s0 (md_write T h d) (m @ d)"
  by (meson md_write_rep_aligned md_write_rep_fill md_write_rep_small not_less)

lemma md_rep_finalize:
  assumes "md_rep T s0 h m"
  shows "md_finalize T enc out h = md_digest T s0 enc out m"
proof -
  have "h_bytes h = length m" using assms by (simp add: md_rep_def)
  moreover have "md_rep T s0 (md_write T (md_write T h p) q) (m @ p @ q)" for p q
    using assms by (metis append_assoc md_rep_write)
  ultimately show ?thesis by (simp add: md_finalize_def md_digest_def md_rep_def)
qed

lemma length_md_pad: "(n + length (md_pad n)) mod 64 = 56"
proof -
  define r where "r = n mod 64"
  have r: "r < 64" by (simp add: r_def)
  have "length (md_pad n) = 1 + (119 - r) mod 64" by (simp add: md_pad_def min_def r_def)
  then have "(n + length (md_pad n)) mod 64 = (r + (1 + (119 - r) mod 64)) mod 64"
    by (metis mod_add_left_eq r_def)
  also have "\<dots> = 56"
  proof (cases "r \<le> 55")
    case True
    then have "119 - r = 64 + (55 - r)" by simp
    then have "(119 - r) mod 64 = (55 - r) mod 64" by (metis mod_add_self1)
    with True show ?thesis by simp
  next
    case False
    with r have "(119 - r) mod 64 = 119 - r" and "r + (1 + (119 - r)) = 120" by simp_all
    then show ?thesis by simp
  qed
  finally show ?thesis .
qed

section \<open>The contract of a hasher\<close>

locale hasher =
  fixes new :: 'h
    and wr :: "'h \<Rightarrow> bytes \<Rightarrow> 'h"
    and final :: "'h \<Rightarrow> bytes"
    and rep :: "'h \<Rightarrow> bytes \<Rightarrow> bool"
    and digest :: "bytes \<Rightarrow> bytes"
  assumes rep_new: "rep new []"
    and rep_write: "rep h m \<Longrightarrow> rep (wr h d) (m @ d)"
    and rep_final: "rep h m \<Longrightarrow> final h = digest m"
begin

lemma rep_foldl: "rep h m \<Longrightarrow> rep (foldl wr h cs) (m @ concat cs)"
proof (induction cs arbitrary: h m)
  case (Cons c cs)
  from Cons.IH [OF rep_write [OF Cons.prems]] show ?case by simp
qed simp

text \<open>However the input is cut into calls of \<^verbatim>\<open>Write\<close>, the digest is that of the whole.\<close>

lemma final_chunks: "final (foldl wr new cs) = digest (concat cs)"
  using rep_foldl [OF rep_new] by (simp add: rep_final)

lemma final_write: "final (wr new m) = digest m"
  using final_chunks [of "[m]"] by simp

lemma final_write2: "final (wr (wr new a) b) = digest (a @ b)"
  using final_chunks [of "[a, b]"] by simp

end

lemma md_hasher: "hasher (md_new s0) (md_write T) (md_finalize T enc out) (md_rep T s0)
    (md_digest T s0 enc out)"
  by unfold_locales (auto intro: md_rep_new md_rep_write md_rep_finalize)

end
