(* ===== verification/Sha256.thy ===== *)
theory Sha256
  imports HashStream
begin

text \<open>
  SHA-256 as \<^verbatim>\<open>src/src/crypto/sha256.cpp\<close> computes it. The 64 unrolled calls of \<^verbatim>\<open>Round\<close> in
  \<^verbatim>\<open>Transform\<close> are kept in the code's order with its register renaming; each call returns the two
  registers it assigns. They are cut into the four paragraphs of 16 calls that the source has.
  The file also holds the readers and writers of \<^verbatim>\<open>crypto/common.h\<close>.
\<close>

section \<open>Readers and writers of crypto/common.h\<close>

definition ReadBE32 :: "bytes \<Rightarrow> nat \<Rightarrow> u32" where
  "ReadBE32 p i = word_of_nat (be_val (take 4 (drop i p)))"

definition ReadLE32 :: "bytes \<Rightarrow> nat \<Rightarrow> u32" where
  "ReadLE32 p i = word_of_nat (le_val (take 4 (drop i p)))"

definition WriteBE32 :: "u32 \<Rightarrow> bytes" where
  "WriteBE32 x = be_bytes 4 (unat x)"

definition WriteLE32 :: "u32 \<Rightarrow> bytes" where
  "WriteLE32 x = le_bytes 4 (unat x)"

definition WriteBE64 :: "nat \<Rightarrow> bytes" where
  "WriteBE64 x = be_bytes 8 x"

definition WriteLE64 :: "nat \<Rightarrow> bytes" where
  "WriteLE64 x = le_bytes 8 x"

section \<open>The compression function\<close>

type_synonym sha256_regs = "u32 \<times> u32 \<times> u32 \<times> u32 \<times> u32 \<times> u32 \<times> u32 \<times> u32"
type_synonym block_words =
  "u32 \<times> u32 \<times> u32 \<times> u32 \<times> u32 \<times> u32 \<times> u32 \<times> u32 \<times>
   u32 \<times> u32 \<times> u32 \<times> u32 \<times> u32 \<times> u32 \<times> u32 \<times> u32"

definition sha256_Ch :: "u32 \<Rightarrow> u32 \<Rightarrow> u32 \<Rightarrow> u32" where
  "sha256_Ch x y z = z XOR (x AND (y XOR z))"

definition sha256_Maj :: "u32 \<Rightarrow> u32 \<Rightarrow> u32 \<Rightarrow> u32" where
  "sha256_Maj x y z = (x AND y) OR (z AND (x OR y))"

definition sha256_Sigma0 :: "u32 \<Rightarrow> u32" where
  "sha256_Sigma0 x = (drop_bit 2 x OR push_bit 30 x) XOR (drop_bit 13 x OR push_bit 19 x) XOR
     (drop_bit 22 x OR push_bit 10 x)"

definition sha256_Sigma1 :: "u32 \<Rightarrow> u32" where
  "sha256_Sigma1 x = (drop_bit 6 x OR push_bit 26 x) XOR (drop_bit 11 x OR push_bit 21 x) XOR
     (drop_bit 25 x OR push_bit 7 x)"

definition sha256_sigma0 :: "u32 \<Rightarrow> u32" where
  "sha256_sigma0 x = (drop_bit 7 x OR push_bit 25 x) XOR (drop_bit 18 x OR push_bit 14 x) XOR
     drop_bit 3 x"

definition sha256_sigma1 :: "u32 \<Rightarrow> u32" where
  "sha256_sigma1 x = (drop_bit 17 x OR push_bit 15 x) XOR (drop_bit 19 x OR push_bit 13 x) XOR
     drop_bit 10 x"

text \<open>\<^verbatim>\<open>Round\<close> assigns its reference arguments \<^verbatim>\<open>d\<close> and \<^verbatim>\<open>h\<close>: they are the result.\<close>

definition sha256_Round ::
  "u32 \<Rightarrow> u32 \<Rightarrow> u32 \<Rightarrow> u32 \<Rightarrow> u32 \<Rightarrow> u32 \<Rightarrow> u32 \<Rightarrow> u32 \<Rightarrow> u32 \<Rightarrow> u32 \<Rightarrow> u32 \<times> u32" where
  "sha256_Round a b c d e f g h k w =
     (let t1 = h + sha256_Sigma1 e + sha256_Ch e f g + k + w;
          t2 = sha256_Sigma0 a + sha256_Maj a b c
      in (d + t1, t1 + t2))"

definition sha256_Initialize :: sha256_regs where
  "sha256_Initialize =
     (0x6a09e667, 0xbb67ae85, 0x3c6ef372, 0xa54ff53a,
      0x510e527f, 0x9b05688c, 0x1f83d9ab, 0x5be0cd19)"

definition sha256_rounds0 :: "sha256_regs \<Rightarrow> bytes \<Rightarrow> sha256_regs \<times> block_words" where
  "sha256_rounds0 rs chunk =
     (case rs of (a, b, c, d, e, f, g, h) \<Rightarrow>
      let w0 = ReadBE32 chunk 0;
          (d, h) = sha256_Round a b c d e f g h 0x428a2f98 w0 in
      let w1 = ReadBE32 chunk 4;
          (c, g) = sha256_Round h a b c d e f g 0x71374491 w1 in
      let w2 = ReadBE32 chunk 8;
          (b, f) = sha256_Round g h a b c d e f 0xb5c0fbcf w2 in
      let w3 = ReadBE32 chunk 12;
          (a, e) = sha256_Round f g h a b c d e 0xe9b5dba5 w3 in
      let w4 = ReadBE32 chunk 16;
          (h, d) = sha256_Round e f g h a b c d 0x3956c25b w4 in
      let w5 = ReadBE32 chunk 20;
          (g, c) = sha256_Round d e f g h a b c 0x59f111f1 w5 in
      let w6 = ReadBE32 chunk 24;
          (f, b) = sha256_Round c d e f g h a b 0x923f82a4 w6 in
      let w7 = ReadBE32 chunk 28;
          (e, a) = sha256_Round b c d e f g h a 0xab1c5ed5 w7 in
      let w8 = ReadBE32 chunk 32;
          (d, h) = sha256_Round a b c d e f g h 0xd807aa98 w8 in
      let w9 = ReadBE32 chunk 36;
          (c, g) = sha256_Round h a b c d e f g 0x12835b01 w9 in
      let w10 = ReadBE32 chunk 40;
          (b, f) = sha256_Round g h a b c d e f 0x243185be w10 in
      let w11 = ReadBE32 chunk 44;
          (a, e) = sha256_Round f g h a b c d e 0x550c7dc3 w11 in
      let w12 = ReadBE32 chunk 48;
          (h, d) = sha256_Round e f g h a b c d 0x72be5d74 w12 in
      let w13 = ReadBE32 chunk 52;
          (g, c) = sha256_Round d e f g h a b c 0x80deb1fe w13 in
      let w14 = ReadBE32 chunk 56;
          (f, b) = sha256_Round c d e f g h a b 0x9bdc06a7 w14 in
      let w15 = ReadBE32 chunk 60;
          (e, a) = sha256_Round b c d e f g h a 0xc19bf174 w15 in
      ((a, b, c, d, e, f, g, h), (w0, w1, w2, w3, w4, w5, w6, w7, w8, w9, w10, w11, w12, w13, w14, w15)))"

definition sha256_rounds1 :: "sha256_regs \<Rightarrow> block_words \<Rightarrow> sha256_regs \<times> block_words" where
  "sha256_rounds1 rs ws =
     (case rs of (a, b, c, d, e, f, g, h) \<Rightarrow>
      case ws of (w0, w1, w2, w3, w4, w5, w6, w7, w8, w9, w10, w11, w12, w13, w14, w15) \<Rightarrow>
      let w0 = w0 + (sha256_sigma1 w14 + w9 + sha256_sigma0 w1);
          (d, h) = sha256_Round a b c d e f g h 0xe49b69c1 w0 in
      let w1 = w1 + (sha256_sigma1 w15 + w10 + sha256_sigma0 w2);
          (c, g) = sha256_Round h a b c d e f g 0xefbe4786 w1 in
      let w2 = w2 + (sha256_sigma1 w0 + w11 + sha256_sigma0 w3);
          (b, f) = sha256_Round g h a b c d e f 0x0fc19dc6 w2 in
      let w3 = w3 + (sha256_sigma1 w1 + w12 + sha256_sigma0 w4);
          (a, e) = sha256_Round f g h a b c d e 0x240ca1cc w3 in
      let w4 = w4 + (sha256_sigma1 w2 + w13 + sha256_sigma0 w5);
          (h, d) = sha256_Round e f g h a b c d 0x2de92c6f w4 in
      let w5 = w5 + (sha256_sigma1 w3 + w14 + sha256_sigma0 w6);
          (g, c) = sha256_Round d e f g h a b c 0x4a7484aa w5 in
      let w6 = w6 + (sha256_sigma1 w4 + w15 + sha256_sigma0 w7);
          (f, b) = sha256_Round c d e f g h a b 0x5cb0a9dc w6 in
      let w7 = w7 + (sha256_sigma1 w5 + w0 + sha256_sigma0 w8);
          (e, a) = sha256_Round b c d e f g h a 0x76f988da w7 in
      let w8 = w8 + (sha256_sigma1 w6 + w1 + sha256_sigma0 w9);
          (d, h) = sha256_Round a b c d e f g h 0x983e5152 w8 in
      let w9 = w9 + (sha256_sigma1 w7 + w2 + sha256_sigma0 w10);
          (c, g) = sha256_Round h a b c d e f g 0xa831c66d w9 in
      let w10 = w10 + (sha256_sigma1 w8 + w3 + sha256_sigma0 w11);
          (b, f) = sha256_Round g h a b c d e f 0xb00327c8 w10 in
      let w11 = w11 + (sha256_sigma1 w9 + w4 + sha256_sigma0 w12);
          (a, e) = sha256_Round f g h a b c d e 0xbf597fc7 w11 in
      let w12 = w12 + (sha256_sigma1 w10 + w5 + sha256_sigma0 w13);
          (h, d) = sha256_Round e f g h a b c d 0xc6e00bf3 w12 in
      let w13 = w13 + (sha256_sigma1 w11 + w6 + sha256_sigma0 w14);
          (g, c) = sha256_Round d e f g h a b c 0xd5a79147 w13 in
      let w14 = w14 + (sha256_sigma1 w12 + w7 + sha256_sigma0 w15);
          (f, b) = sha256_Round c d e f g h a b 0x06ca6351 w14 in
      let w15 = w15 + (sha256_sigma1 w13 + w8 + sha256_sigma0 w0);
          (e, a) = sha256_Round b c d e f g h a 0x14292967 w15 in
      ((a, b, c, d, e, f, g, h), (w0, w1, w2, w3, w4, w5, w6, w7, w8, w9, w10, w11, w12, w13, w14, w15)))"

definition sha256_rounds2 :: "sha256_regs \<Rightarrow> block_words \<Rightarrow> sha256_regs \<times> block_words" where
  "sha256_rounds2 rs ws =
     (case rs of (a, b, c, d, e, f, g, h) \<Rightarrow>
      case ws of (w0, w1, w2, w3, w4, w5, w6, w7, w8, w9, w10, w11, w12, w13, w14, w15) \<Rightarrow>
      let w0 = w0 + (sha256_sigma1 w14 + w9 + sha256_sigma0 w1);
          (d, h) = sha256_Round a b c d e f g h 0x27b70a85 w0 in
      let w1 = w1 + (sha256_sigma1 w15 + w10 + sha256_sigma0 w2);
          (c, g) = sha256_Round h a b c d e f g 0x2e1b2138 w1 in
      let w2 = w2 + (sha256_sigma1 w0 + w11 + sha256_sigma0 w3);
          (b, f) = sha256_Round g h a b c d e f 0x4d2c6dfc w2 in
      let w3 = w3 + (sha256_sigma1 w1 + w12 + sha256_sigma0 w4);
          (a, e) = sha256_Round f g h a b c d e 0x53380d13 w3 in
      let w4 = w4 + (sha256_sigma1 w2 + w13 + sha256_sigma0 w5);
          (h, d) = sha256_Round e f g h a b c d 0x650a7354 w4 in
      let w5 = w5 + (sha256_sigma1 w3 + w14 + sha256_sigma0 w6);
          (g, c) = sha256_Round d e f g h a b c 0x766a0abb w5 in
      let w6 = w6 + (sha256_sigma1 w4 + w15 + sha256_sigma0 w7);
          (f, b) = sha256_Round c d e f g h a b 0x81c2c92e w6 in
      let w7 = w7 + (sha256_sigma1 w5 + w0 + sha256_sigma0 w8);
          (e, a) = sha256_Round b c d e f g h a 0x92722c85 w7 in
      let w8 = w8 + (sha256_sigma1 w6 + w1 + sha256_sigma0 w9);
          (d, h) = sha256_Round a b c d e f g h 0xa2bfe8a1 w8 in
      let w9 = w9 + (sha256_sigma1 w7 + w2 + sha256_sigma0 w10);
          (c, g) = sha256_Round h a b c d e f g 0xa81a664b w9 in
      let w10 = w10 + (sha256_sigma1 w8 + w3 + sha256_sigma0 w11);
          (b, f) = sha256_Round g h a b c d e f 0xc24b8b70 w10 in
      let w11 = w11 + (sha256_sigma1 w9 + w4 + sha256_sigma0 w12);
          (a, e) = sha256_Round f g h a b c d e 0xc76c51a3 w11 in
      let w12 = w12 + (sha256_sigma1 w10 + w5 + sha256_sigma0 w13);
          (h, d) = sha256_Round e f g h a b c d 0xd192e819 w12 in
      let w13 = w13 + (sha256_sigma1 w11 + w6 + sha256_sigma0 w14);
          (g, c) = sha256_Round d e f g h a b c 0xd6990624 w13 in
      let w14 = w14 + (sha256_sigma1 w12 + w7 + sha256_sigma0 w15);
          (f, b) = sha256_Round c d e f g h a b 0xf40e3585 w14 in
      let w15 = w15 + (sha256_sigma1 w13 + w8 + sha256_sigma0 w0);
          (e, a) = sha256_Round b c d e f g h a 0x106aa070 w15 in
      ((a, b, c, d, e, f, g, h), (w0, w1, w2, w3, w4, w5, w6, w7, w8, w9, w10, w11, w12, w13, w14, w15)))"

definition sha256_rounds3 :: "sha256_regs \<Rightarrow> block_words \<Rightarrow> sha256_regs" where
  "sha256_rounds3 rs ws =
     (case rs of (a, b, c, d, e, f, g, h) \<Rightarrow>
      case ws of (w0, w1, w2, w3, w4, w5, w6, w7, w8, w9, w10, w11, w12, w13, w14, w15) \<Rightarrow>
      let w0 = w0 + (sha256_sigma1 w14 + w9 + sha256_sigma0 w1);
          (d, h) = sha256_Round a b c d e f g h 0x19a4c116 w0 in
      let w1 = w1 + (sha256_sigma1 w15 + w10 + sha256_sigma0 w2);
          (c, g) = sha256_Round h a b c d e f g 0x1e376c08 w1 in
      let w2 = w2 + (sha256_sigma1 w0 + w11 + sha256_sigma0 w3);
          (b, f) = sha256_Round g h a b c d e f 0x2748774c w2 in
      let w3 = w3 + (sha256_sigma1 w1 + w12 + sha256_sigma0 w4);
          (a, e) = sha256_Round f g h a b c d e 0x34b0bcb5 w3 in
      let w4 = w4 + (sha256_sigma1 w2 + w13 + sha256_sigma0 w5);
          (h, d) = sha256_Round e f g h a b c d 0x391c0cb3 w4 in
      let w5 = w5 + (sha256_sigma1 w3 + w14 + sha256_sigma0 w6);
          (g, c) = sha256_Round d e f g h a b c 0x4ed8aa4a w5 in
      let w6 = w6 + (sha256_sigma1 w4 + w15 + sha256_sigma0 w7);
          (f, b) = sha256_Round c d e f g h a b 0x5b9cca4f w6 in
      let w7 = w7 + (sha256_sigma1 w5 + w0 + sha256_sigma0 w8);
          (e, a) = sha256_Round b c d e f g h a 0x682e6ff3 w7 in
      let w8 = w8 + (sha256_sigma1 w6 + w1 + sha256_sigma0 w9);
          (d, h) = sha256_Round a b c d e f g h 0x748f82ee w8 in
      let w9 = w9 + (sha256_sigma1 w7 + w2 + sha256_sigma0 w10);
          (c, g) = sha256_Round h a b c d e f g 0x78a5636f w9 in
      let w10 = w10 + (sha256_sigma1 w8 + w3 + sha256_sigma0 w11);
          (b, f) = sha256_Round g h a b c d e f 0x84c87814 w10 in
      let w11 = w11 + (sha256_sigma1 w9 + w4 + sha256_sigma0 w12);
          (a, e) = sha256_Round f g h a b c d e 0x8cc70208 w11 in
      let w12 = w12 + (sha256_sigma1 w10 + w5 + sha256_sigma0 w13);
          (h, d) = sha256_Round e f g h a b c d 0x90befffa w12 in
      let w13 = w13 + (sha256_sigma1 w11 + w6 + sha256_sigma0 w14);
          (g, c) = sha256_Round d e f g h a b c 0xa4506ceb w13 in
      let         (f, b) = sha256_Round c d e f g h a b 0xbef9a3f7 (w14 + sha256_sigma1 w12 + w7 + sha256_sigma0 w15) in
      let         (e, a) = sha256_Round b c d e f g h a 0xc67178f2 (w15 + sha256_sigma1 w13 + w8 + sha256_sigma0 w0) in
      (a, b, c, d, e, f, g, h))"


fun sha256_Transform :: "sha256_regs \<Rightarrow> bytes \<Rightarrow> sha256_regs" where
  "sha256_Transform (s0, s1, s2, s3, s4, s5, s6, s7) chunk =
     (let (r0, w) = sha256_rounds0 (s0, s1, s2, s3, s4, s5, s6, s7) chunk;
          (r1, w) = sha256_rounds1 r0 w;
          (r2, w) = sha256_rounds2 r1 w;
          (a, b, c, d, e, f, g, h) = sha256_rounds3 r2 w
      in (s0 + a, s1 + b, s2 + c, s3 + d, s4 + e, s5 + f, s6 + g, s7 + h))"

fun sha256_output :: "sha256_regs \<Rightarrow> bytes" where
  "sha256_output (s0, s1, s2, s3, s4, s5, s6, s7) =
     WriteBE32 s0 @ WriteBE32 s1 @ WriteBE32 s2 @ WriteBE32 s3 @
     WriteBE32 s4 @ WriteBE32 s5 @ WriteBE32 s6 @ WriteBE32 s7"

section \<open>The class CSHA256\<close>

type_synonym CSHA256 = "sha256_regs hash_state"

definition CSHA256_new :: CSHA256 where
  "CSHA256_new = md_new sha256_Initialize"

definition CSHA256_Write :: "CSHA256 \<Rightarrow> bytes \<Rightarrow> CSHA256" where
  "CSHA256_Write = md_write sha256_Transform"

definition CSHA256_Finalize :: "CSHA256 \<Rightarrow> bytes" where
  "CSHA256_Finalize = md_finalize sha256_Transform WriteBE64 sha256_output"

text \<open>\<^verbatim>\<open>Reset\<close> leaves the buffer as it is.\<close>

definition CSHA256_Reset :: "CSHA256 \<Rightarrow> CSHA256" where
  "CSHA256_Reset h = h\<lparr>h_bytes := 0, h_s := sha256_Initialize\<rparr>"

definition sha256 :: "bytes \<Rightarrow> bytes" where
  "sha256 m = md_digest sha256_Transform sha256_Initialize WriteBE64 sha256_output m"

definition sha256_rep :: "CSHA256 \<Rightarrow> bytes \<Rightarrow> bool" where
  "sha256_rep = md_rep sha256_Transform sha256_Initialize"

interpretation sha256h: hasher CSHA256_new CSHA256_Write CSHA256_Finalize sha256_rep sha256
  using md_hasher [of sha256_Initialize sha256_Transform WriteBE64 sha256_output]
  by (simp add: CSHA256_new_def CSHA256_Write_def CSHA256_Finalize_def sha256_rep_def
      sha256_def [abs_def])

lemma length_sha256 [simp]: "length (sha256 m) = 32"
  by (cases "md_fold sha256_Transform sha256_Initialize
        (m @ md_pad (length m) @ WriteBE64 (length m * 8 mod 2 ^ 64))" rule: sha256_output.cases)
     (simp add: sha256_def md_digest_def WriteBE32_def)

lemma CSHA256_Reset_rep: "sha256_rep h m \<Longrightarrow> sha256_rep (CSHA256_Reset h) []"
  by (simp add: sha256_rep_def md_rep_def CSHA256_Reset_def)

end
