(* ===== verification/Sha1.thy ===== *)
theory Sha1
  imports Sha256
begin

text \<open>
  SHA-1 as \<^verbatim>\<open>src/src/crypto/sha1.cpp\<close> computes it, with the 80 calls of \<^verbatim>\<open>Round\<close> in the code's
  order and register renaming, in five paragraphs of 16 calls.
\<close>

type_synonym sha1_regs = "u32 \<times> u32 \<times> u32 \<times> u32 \<times> u32"

text \<open>\<^verbatim>\<open>Round\<close> assigns \<^verbatim>\<open>e\<close> and \<^verbatim>\<open>b\<close>; the result is \<open>(b, e)\<close>.\<close>

definition sha1_Round ::
  "u32 \<Rightarrow> u32 \<Rightarrow> u32 \<Rightarrow> u32 \<Rightarrow> u32 \<Rightarrow> u32 \<Rightarrow> u32 \<Rightarrow> u32 \<Rightarrow> u32 \<times> u32" where
  "sha1_Round a b c d e f k w =
     (push_bit 30 b OR drop_bit 2 b, e + ((push_bit 5 a OR drop_bit 27 a) + f + k + w))"

definition sha1_f1 :: "u32 \<Rightarrow> u32 \<Rightarrow> u32 \<Rightarrow> u32" where
  "sha1_f1 b c d = d XOR (b AND (c XOR d))"

definition sha1_f2 :: "u32 \<Rightarrow> u32 \<Rightarrow> u32 \<Rightarrow> u32" where
  "sha1_f2 b c d = b XOR c XOR d"

definition sha1_f3 :: "u32 \<Rightarrow> u32 \<Rightarrow> u32 \<Rightarrow> u32" where
  "sha1_f3 b c d = (b AND c) OR (d AND (b OR c))"

definition sha1_left :: "u32 \<Rightarrow> u32" where
  "sha1_left x = push_bit 1 x OR drop_bit 31 x"

definition sha1_Initialize :: sha1_regs where
  "sha1_Initialize = (0x67452301, 0xEFCDAB89, 0x98BADCFE, 0x10325476, 0xC3D2E1F0)"

definition sha1_k1 :: u32 where "sha1_k1 = 0x5A827999"
definition sha1_k2 :: u32 where "sha1_k2 = 0x6ED9EBA1"
definition sha1_k3 :: u32 where "sha1_k3 = 0x8F1BBCDC"
definition sha1_k4 :: u32 where "sha1_k4 = 0xCA62C1D6"

definition sha1_rounds0 :: "sha1_regs \<Rightarrow> bytes \<Rightarrow> sha1_regs \<times> block_words" where
  "sha1_rounds0 rs chunk =
     (case rs of (a, b, c, d, e) \<Rightarrow>
      let w0 = ReadBE32 chunk 0;
          (b, e) = sha1_Round a b c d e (sha1_f1 b c d) sha1_k1 w0 in
      let w1 = ReadBE32 chunk 4;
          (a, d) = sha1_Round e a b c d (sha1_f1 a b c) sha1_k1 w1 in
      let w2 = ReadBE32 chunk 8;
          (e, c) = sha1_Round d e a b c (sha1_f1 e a b) sha1_k1 w2 in
      let w3 = ReadBE32 chunk 12;
          (d, b) = sha1_Round c d e a b (sha1_f1 d e a) sha1_k1 w3 in
      let w4 = ReadBE32 chunk 16;
          (c, a) = sha1_Round b c d e a (sha1_f1 c d e) sha1_k1 w4 in
      let w5 = ReadBE32 chunk 20;
          (b, e) = sha1_Round a b c d e (sha1_f1 b c d) sha1_k1 w5 in
      let w6 = ReadBE32 chunk 24;
          (a, d) = sha1_Round e a b c d (sha1_f1 a b c) sha1_k1 w6 in
      let w7 = ReadBE32 chunk 28;
          (e, c) = sha1_Round d e a b c (sha1_f1 e a b) sha1_k1 w7 in
      let w8 = ReadBE32 chunk 32;
          (d, b) = sha1_Round c d e a b (sha1_f1 d e a) sha1_k1 w8 in
      let w9 = ReadBE32 chunk 36;
          (c, a) = sha1_Round b c d e a (sha1_f1 c d e) sha1_k1 w9 in
      let w10 = ReadBE32 chunk 40;
          (b, e) = sha1_Round a b c d e (sha1_f1 b c d) sha1_k1 w10 in
      let w11 = ReadBE32 chunk 44;
          (a, d) = sha1_Round e a b c d (sha1_f1 a b c) sha1_k1 w11 in
      let w12 = ReadBE32 chunk 48;
          (e, c) = sha1_Round d e a b c (sha1_f1 e a b) sha1_k1 w12 in
      let w13 = ReadBE32 chunk 52;
          (d, b) = sha1_Round c d e a b (sha1_f1 d e a) sha1_k1 w13 in
      let w14 = ReadBE32 chunk 56;
          (c, a) = sha1_Round b c d e a (sha1_f1 c d e) sha1_k1 w14 in
      let w15 = ReadBE32 chunk 60;
          (b, e) = sha1_Round a b c d e (sha1_f1 b c d) sha1_k1 w15 in
      ((a, b, c, d, e), (w0, w1, w2, w3, w4, w5, w6, w7, w8, w9, w10, w11, w12, w13, w14, w15)))"

definition sha1_rounds1 :: "sha1_regs \<Rightarrow> block_words \<Rightarrow> sha1_regs \<times> block_words" where
  "sha1_rounds1 rs ws =
     (case rs of (a, b, c, d, e) \<Rightarrow>
      case ws of (w0, w1, w2, w3, w4, w5, w6, w7, w8, w9, w10, w11, w12, w13, w14, w15) \<Rightarrow>
      let w0 = sha1_left (w0 XOR w13 XOR w8 XOR w2);
          (a, d) = sha1_Round e a b c d (sha1_f1 a b c) sha1_k1 w0 in
      let w1 = sha1_left (w1 XOR w14 XOR w9 XOR w3);
          (e, c) = sha1_Round d e a b c (sha1_f1 e a b) sha1_k1 w1 in
      let w2 = sha1_left (w2 XOR w15 XOR w10 XOR w4);
          (d, b) = sha1_Round c d e a b (sha1_f1 d e a) sha1_k1 w2 in
      let w3 = sha1_left (w3 XOR w0 XOR w11 XOR w5);
          (c, a) = sha1_Round b c d e a (sha1_f1 c d e) sha1_k1 w3 in
      let w4 = sha1_left (w4 XOR w1 XOR w12 XOR w6);
          (b, e) = sha1_Round a b c d e (sha1_f2 b c d) sha1_k2 w4 in
      let w5 = sha1_left (w5 XOR w2 XOR w13 XOR w7);
          (a, d) = sha1_Round e a b c d (sha1_f2 a b c) sha1_k2 w5 in
      let w6 = sha1_left (w6 XOR w3 XOR w14 XOR w8);
          (e, c) = sha1_Round d e a b c (sha1_f2 e a b) sha1_k2 w6 in
      let w7 = sha1_left (w7 XOR w4 XOR w15 XOR w9);
          (d, b) = sha1_Round c d e a b (sha1_f2 d e a) sha1_k2 w7 in
      let w8 = sha1_left (w8 XOR w5 XOR w0 XOR w10);
          (c, a) = sha1_Round b c d e a (sha1_f2 c d e) sha1_k2 w8 in
      let w9 = sha1_left (w9 XOR w6 XOR w1 XOR w11);
          (b, e) = sha1_Round a b c d e (sha1_f2 b c d) sha1_k2 w9 in
      let w10 = sha1_left (w10 XOR w7 XOR w2 XOR w12);
          (a, d) = sha1_Round e a b c d (sha1_f2 a b c) sha1_k2 w10 in
      let w11 = sha1_left (w11 XOR w8 XOR w3 XOR w13);
          (e, c) = sha1_Round d e a b c (sha1_f2 e a b) sha1_k2 w11 in
      let w12 = sha1_left (w12 XOR w9 XOR w4 XOR w14);
          (d, b) = sha1_Round c d e a b (sha1_f2 d e a) sha1_k2 w12 in
      let w13 = sha1_left (w13 XOR w10 XOR w5 XOR w15);
          (c, a) = sha1_Round b c d e a (sha1_f2 c d e) sha1_k2 w13 in
      let w14 = sha1_left (w14 XOR w11 XOR w6 XOR w0);
          (b, e) = sha1_Round a b c d e (sha1_f2 b c d) sha1_k2 w14 in
      let w15 = sha1_left (w15 XOR w12 XOR w7 XOR w1);
          (a, d) = sha1_Round e a b c d (sha1_f2 a b c) sha1_k2 w15 in
      ((a, b, c, d, e), (w0, w1, w2, w3, w4, w5, w6, w7, w8, w9, w10, w11, w12, w13, w14, w15)))"

definition sha1_rounds2 :: "sha1_regs \<Rightarrow> block_words \<Rightarrow> sha1_regs \<times> block_words" where
  "sha1_rounds2 rs ws =
     (case rs of (a, b, c, d, e) \<Rightarrow>
      case ws of (w0, w1, w2, w3, w4, w5, w6, w7, w8, w9, w10, w11, w12, w13, w14, w15) \<Rightarrow>
      let w0 = sha1_left (w0 XOR w13 XOR w8 XOR w2);
          (e, c) = sha1_Round d e a b c (sha1_f2 e a b) sha1_k2 w0 in
      let w1 = sha1_left (w1 XOR w14 XOR w9 XOR w3);
          (d, b) = sha1_Round c d e a b (sha1_f2 d e a) sha1_k2 w1 in
      let w2 = sha1_left (w2 XOR w15 XOR w10 XOR w4);
          (c, a) = sha1_Round b c d e a (sha1_f2 c d e) sha1_k2 w2 in
      let w3 = sha1_left (w3 XOR w0 XOR w11 XOR w5);
          (b, e) = sha1_Round a b c d e (sha1_f2 b c d) sha1_k2 w3 in
      let w4 = sha1_left (w4 XOR w1 XOR w12 XOR w6);
          (a, d) = sha1_Round e a b c d (sha1_f2 a b c) sha1_k2 w4 in
      let w5 = sha1_left (w5 XOR w2 XOR w13 XOR w7);
          (e, c) = sha1_Round d e a b c (sha1_f2 e a b) sha1_k2 w5 in
      let w6 = sha1_left (w6 XOR w3 XOR w14 XOR w8);
          (d, b) = sha1_Round c d e a b (sha1_f2 d e a) sha1_k2 w6 in
      let w7 = sha1_left (w7 XOR w4 XOR w15 XOR w9);
          (c, a) = sha1_Round b c d e a (sha1_f2 c d e) sha1_k2 w7 in
      let w8 = sha1_left (w8 XOR w5 XOR w0 XOR w10);
          (b, e) = sha1_Round a b c d e (sha1_f3 b c d) sha1_k3 w8 in
      let w9 = sha1_left (w9 XOR w6 XOR w1 XOR w11);
          (a, d) = sha1_Round e a b c d (sha1_f3 a b c) sha1_k3 w9 in
      let w10 = sha1_left (w10 XOR w7 XOR w2 XOR w12);
          (e, c) = sha1_Round d e a b c (sha1_f3 e a b) sha1_k3 w10 in
      let w11 = sha1_left (w11 XOR w8 XOR w3 XOR w13);
          (d, b) = sha1_Round c d e a b (sha1_f3 d e a) sha1_k3 w11 in
      let w12 = sha1_left (w12 XOR w9 XOR w4 XOR w14);
          (c, a) = sha1_Round b c d e a (sha1_f3 c d e) sha1_k3 w12 in
      let w13 = sha1_left (w13 XOR w10 XOR w5 XOR w15);
          (b, e) = sha1_Round a b c d e (sha1_f3 b c d) sha1_k3 w13 in
      let w14 = sha1_left (w14 XOR w11 XOR w6 XOR w0);
          (a, d) = sha1_Round e a b c d (sha1_f3 a b c) sha1_k3 w14 in
      let w15 = sha1_left (w15 XOR w12 XOR w7 XOR w1);
          (e, c) = sha1_Round d e a b c (sha1_f3 e a b) sha1_k3 w15 in
      ((a, b, c, d, e), (w0, w1, w2, w3, w4, w5, w6, w7, w8, w9, w10, w11, w12, w13, w14, w15)))"

definition sha1_rounds3 :: "sha1_regs \<Rightarrow> block_words \<Rightarrow> sha1_regs \<times> block_words" where
  "sha1_rounds3 rs ws =
     (case rs of (a, b, c, d, e) \<Rightarrow>
      case ws of (w0, w1, w2, w3, w4, w5, w6, w7, w8, w9, w10, w11, w12, w13, w14, w15) \<Rightarrow>
      let w0 = sha1_left (w0 XOR w13 XOR w8 XOR w2);
          (d, b) = sha1_Round c d e a b (sha1_f3 d e a) sha1_k3 w0 in
      let w1 = sha1_left (w1 XOR w14 XOR w9 XOR w3);
          (c, a) = sha1_Round b c d e a (sha1_f3 c d e) sha1_k3 w1 in
      let w2 = sha1_left (w2 XOR w15 XOR w10 XOR w4);
          (b, e) = sha1_Round a b c d e (sha1_f3 b c d) sha1_k3 w2 in
      let w3 = sha1_left (w3 XOR w0 XOR w11 XOR w5);
          (a, d) = sha1_Round e a b c d (sha1_f3 a b c) sha1_k3 w3 in
      let w4 = sha1_left (w4 XOR w1 XOR w12 XOR w6);
          (e, c) = sha1_Round d e a b c (sha1_f3 e a b) sha1_k3 w4 in
      let w5 = sha1_left (w5 XOR w2 XOR w13 XOR w7);
          (d, b) = sha1_Round c d e a b (sha1_f3 d e a) sha1_k3 w5 in
      let w6 = sha1_left (w6 XOR w3 XOR w14 XOR w8);
          (c, a) = sha1_Round b c d e a (sha1_f3 c d e) sha1_k3 w6 in
      let w7 = sha1_left (w7 XOR w4 XOR w15 XOR w9);
          (b, e) = sha1_Round a b c d e (sha1_f3 b c d) sha1_k3 w7 in
      let w8 = sha1_left (w8 XOR w5 XOR w0 XOR w10);
          (a, d) = sha1_Round e a b c d (sha1_f3 a b c) sha1_k3 w8 in
      let w9 = sha1_left (w9 XOR w6 XOR w1 XOR w11);
          (e, c) = sha1_Round d e a b c (sha1_f3 e a b) sha1_k3 w9 in
      let w10 = sha1_left (w10 XOR w7 XOR w2 XOR w12);
          (d, b) = sha1_Round c d e a b (sha1_f3 d e a) sha1_k3 w10 in
      let w11 = sha1_left (w11 XOR w8 XOR w3 XOR w13);
          (c, a) = sha1_Round b c d e a (sha1_f3 c d e) sha1_k3 w11 in
      let w12 = sha1_left (w12 XOR w9 XOR w4 XOR w14);
          (b, e) = sha1_Round a b c d e (sha1_f2 b c d) sha1_k4 w12 in
      let w13 = sha1_left (w13 XOR w10 XOR w5 XOR w15);
          (a, d) = sha1_Round e a b c d (sha1_f2 a b c) sha1_k4 w13 in
      let w14 = sha1_left (w14 XOR w11 XOR w6 XOR w0);
          (e, c) = sha1_Round d e a b c (sha1_f2 e a b) sha1_k4 w14 in
      let w15 = sha1_left (w15 XOR w12 XOR w7 XOR w1);
          (d, b) = sha1_Round c d e a b (sha1_f2 d e a) sha1_k4 w15 in
      ((a, b, c, d, e), (w0, w1, w2, w3, w4, w5, w6, w7, w8, w9, w10, w11, w12, w13, w14, w15)))"

definition sha1_rounds4 :: "sha1_regs \<Rightarrow> block_words \<Rightarrow> sha1_regs" where
  "sha1_rounds4 rs ws =
     (case rs of (a, b, c, d, e) \<Rightarrow>
      case ws of (w0, w1, w2, w3, w4, w5, w6, w7, w8, w9, w10, w11, w12, w13, w14, w15) \<Rightarrow>
      let w0 = sha1_left (w0 XOR w13 XOR w8 XOR w2);
          (c, a) = sha1_Round b c d e a (sha1_f2 c d e) sha1_k4 w0 in
      let w1 = sha1_left (w1 XOR w14 XOR w9 XOR w3);
          (b, e) = sha1_Round a b c d e (sha1_f2 b c d) sha1_k4 w1 in
      let w2 = sha1_left (w2 XOR w15 XOR w10 XOR w4);
          (a, d) = sha1_Round e a b c d (sha1_f2 a b c) sha1_k4 w2 in
      let w3 = sha1_left (w3 XOR w0 XOR w11 XOR w5);
          (e, c) = sha1_Round d e a b c (sha1_f2 e a b) sha1_k4 w3 in
      let w4 = sha1_left (w4 XOR w1 XOR w12 XOR w6);
          (d, b) = sha1_Round c d e a b (sha1_f2 d e a) sha1_k4 w4 in
      let w5 = sha1_left (w5 XOR w2 XOR w13 XOR w7);
          (c, a) = sha1_Round b c d e a (sha1_f2 c d e) sha1_k4 w5 in
      let w6 = sha1_left (w6 XOR w3 XOR w14 XOR w8);
          (b, e) = sha1_Round a b c d e (sha1_f2 b c d) sha1_k4 w6 in
      let w7 = sha1_left (w7 XOR w4 XOR w15 XOR w9);
          (a, d) = sha1_Round e a b c d (sha1_f2 a b c) sha1_k4 w7 in
      let w8 = sha1_left (w8 XOR w5 XOR w0 XOR w10);
          (e, c) = sha1_Round d e a b c (sha1_f2 e a b) sha1_k4 w8 in
      let w9 = sha1_left (w9 XOR w6 XOR w1 XOR w11);
          (d, b) = sha1_Round c d e a b (sha1_f2 d e a) sha1_k4 w9 in
      let w10 = sha1_left (w10 XOR w7 XOR w2 XOR w12);
          (c, a) = sha1_Round b c d e a (sha1_f2 c d e) sha1_k4 w10 in
      let w11 = sha1_left (w11 XOR w8 XOR w3 XOR w13);
          (b, e) = sha1_Round a b c d e (sha1_f2 b c d) sha1_k4 w11 in
      let w12 = sha1_left (w12 XOR w9 XOR w4 XOR w14);
          (a, d) = sha1_Round e a b c d (sha1_f2 a b c) sha1_k4 w12 in
      let (e, c) = sha1_Round d e a b c (sha1_f2 e a b) sha1_k4 (sha1_left (w13 XOR w10 XOR w5 XOR w15)) in
      let (d, b) = sha1_Round c d e a b (sha1_f2 d e a) sha1_k4 (sha1_left (w14 XOR w11 XOR w6 XOR w0)) in
      let (c, a) = sha1_Round b c d e a (sha1_f2 c d e) sha1_k4 (sha1_left (w15 XOR w12 XOR w7 XOR w1)) in
      (a, b, c, d, e))"


fun sha1_Transform :: "sha1_regs \<Rightarrow> bytes \<Rightarrow> sha1_regs" where
  "sha1_Transform (s0, s1, s2, s3, s4) chunk =
     (let (r0, w) = sha1_rounds0 (s0, s1, s2, s3, s4) chunk;
          (r1, w) = sha1_rounds1 r0 w;
          (r2, w) = sha1_rounds2 r1 w;
          (r3, w) = sha1_rounds3 r2 w;
          (a, b, c, d, e) = sha1_rounds4 r3 w
      in (s0 + a, s1 + b, s2 + c, s3 + d, s4 + e))"

fun sha1_output :: "sha1_regs \<Rightarrow> bytes" where
  "sha1_output (s0, s1, s2, s3, s4) =
     WriteBE32 s0 @ WriteBE32 s1 @ WriteBE32 s2 @ WriteBE32 s3 @ WriteBE32 s4"

type_synonym CSHA1 = "sha1_regs hash_state"

definition CSHA1_new :: CSHA1 where
  "CSHA1_new = md_new sha1_Initialize"

definition CSHA1_Write :: "CSHA1 \<Rightarrow> bytes \<Rightarrow> CSHA1" where
  "CSHA1_Write = md_write sha1_Transform"

definition CSHA1_Finalize :: "CSHA1 \<Rightarrow> bytes" where
  "CSHA1_Finalize = md_finalize sha1_Transform WriteBE64 sha1_output"

definition CSHA1_Reset :: "CSHA1 \<Rightarrow> CSHA1" where
  "CSHA1_Reset h = h\<lparr>h_bytes := 0, h_s := sha1_Initialize\<rparr>"

definition sha1 :: "bytes \<Rightarrow> bytes" where
  "sha1 m = md_digest sha1_Transform sha1_Initialize WriteBE64 sha1_output m"

definition sha1_rep :: "CSHA1 \<Rightarrow> bytes \<Rightarrow> bool" where
  "sha1_rep = md_rep sha1_Transform sha1_Initialize"

interpretation sha1h: hasher CSHA1_new CSHA1_Write CSHA1_Finalize sha1_rep sha1
  using md_hasher [of sha1_Initialize sha1_Transform WriteBE64 sha1_output]
  by (simp add: CSHA1_new_def CSHA1_Write_def CSHA1_Finalize_def sha1_rep_def sha1_def [abs_def])

lemma length_sha1 [simp]: "length (sha1 m) = 20"
  by (cases "md_fold sha1_Transform sha1_Initialize
        (m @ md_pad (length m) @ WriteBE64 (length m * 8 mod 2 ^ 64))" rule: sha1_output.cases)
     (simp add: sha1_def md_digest_def WriteBE32_def)

lemma CSHA1_Reset_rep: "sha1_rep h m \<Longrightarrow> sha1_rep (CSHA1_Reset h) []"
  by (simp add: sha1_rep_def md_rep_def CSHA1_Reset_def)

end
