(* ===== verification/Ripemd160.thy ===== *)
theory Ripemd160
  imports Sha256
begin

text \<open>
  RIPEMD-160 as \<^verbatim>\<open>src/src/crypto/ripemd160.cpp\<close> computes it: the two lines of 80 steps,
  interleaved as in the code, in five paragraphs of 32 calls. A step assigns its first and third
  reference arguments, which are its result.
\<close>

type_synonym rmd_regs =
  "u32 \<times> u32 \<times> u32 \<times> u32 \<times> u32 \<times> u32 \<times> u32 \<times> u32 \<times> u32 \<times> u32"

type_synonym rmd_state = "u32 \<times> u32 \<times> u32 \<times> u32 \<times> u32"

definition rmd_f1 :: "u32 \<Rightarrow> u32 \<Rightarrow> u32 \<Rightarrow> u32" where
  "rmd_f1 x y z = x XOR y XOR z"

definition rmd_f2 :: "u32 \<Rightarrow> u32 \<Rightarrow> u32 \<Rightarrow> u32" where
  "rmd_f2 x y z = (x AND y) OR (NOT x AND z)"

definition rmd_f3 :: "u32 \<Rightarrow> u32 \<Rightarrow> u32 \<Rightarrow> u32" where
  "rmd_f3 x y z = (x OR NOT y) XOR z"

definition rmd_f4 :: "u32 \<Rightarrow> u32 \<Rightarrow> u32 \<Rightarrow> u32" where
  "rmd_f4 x y z = (x AND z) OR (y AND NOT z)"

definition rmd_f5 :: "u32 \<Rightarrow> u32 \<Rightarrow> u32 \<Rightarrow> u32" where
  "rmd_f5 x y z = x XOR (y OR NOT z)"

definition rmd_Initialize :: rmd_state where
  "rmd_Initialize = (0x67452301, 0xEFCDAB89, 0x98BADCFE, 0x10325476, 0xC3D2E1F0)"

definition rmd_rol :: "u32 \<Rightarrow> nat \<Rightarrow> u32" where
  "rmd_rol x i = push_bit i x OR drop_bit (32 - i) x"

definition rmd_Round ::
  "u32 \<Rightarrow> u32 \<Rightarrow> u32 \<Rightarrow> u32 \<Rightarrow> u32 \<Rightarrow> u32 \<Rightarrow> u32 \<Rightarrow> u32 \<Rightarrow> nat \<Rightarrow> u32 \<times> u32" where
  "rmd_Round a b c d e f x k r = (rmd_rol (a + f + x + k) r + e, rmd_rol c 10)"

definition R11 :: "u32 \<Rightarrow> u32 \<Rightarrow> u32 \<Rightarrow> u32 \<Rightarrow> u32 \<Rightarrow> u32 \<Rightarrow> nat \<Rightarrow> u32 \<times> u32" where
  "R11 a b c d e x r = rmd_Round a b c d e (rmd_f1 b c d) x 0 r"

definition R21 :: "u32 \<Rightarrow> u32 \<Rightarrow> u32 \<Rightarrow> u32 \<Rightarrow> u32 \<Rightarrow> u32 \<Rightarrow> nat \<Rightarrow> u32 \<times> u32" where
  "R21 a b c d e x r = rmd_Round a b c d e (rmd_f2 b c d) x 0x5A827999 r"

definition R31 :: "u32 \<Rightarrow> u32 \<Rightarrow> u32 \<Rightarrow> u32 \<Rightarrow> u32 \<Rightarrow> u32 \<Rightarrow> nat \<Rightarrow> u32 \<times> u32" where
  "R31 a b c d e x r = rmd_Round a b c d e (rmd_f3 b c d) x 0x6ED9EBA1 r"

definition R41 :: "u32 \<Rightarrow> u32 \<Rightarrow> u32 \<Rightarrow> u32 \<Rightarrow> u32 \<Rightarrow> u32 \<Rightarrow> nat \<Rightarrow> u32 \<times> u32" where
  "R41 a b c d e x r = rmd_Round a b c d e (rmd_f4 b c d) x 0x8F1BBCDC r"

definition R51 :: "u32 \<Rightarrow> u32 \<Rightarrow> u32 \<Rightarrow> u32 \<Rightarrow> u32 \<Rightarrow> u32 \<Rightarrow> nat \<Rightarrow> u32 \<times> u32" where
  "R51 a b c d e x r = rmd_Round a b c d e (rmd_f5 b c d) x 0xA953FD4E r"

definition R12 :: "u32 \<Rightarrow> u32 \<Rightarrow> u32 \<Rightarrow> u32 \<Rightarrow> u32 \<Rightarrow> u32 \<Rightarrow> nat \<Rightarrow> u32 \<times> u32" where
  "R12 a b c d e x r = rmd_Round a b c d e (rmd_f5 b c d) x 0x50A28BE6 r"

definition R22 :: "u32 \<Rightarrow> u32 \<Rightarrow> u32 \<Rightarrow> u32 \<Rightarrow> u32 \<Rightarrow> u32 \<Rightarrow> nat \<Rightarrow> u32 \<times> u32" where
  "R22 a b c d e x r = rmd_Round a b c d e (rmd_f4 b c d) x 0x5C4DD124 r"

definition R32 :: "u32 \<Rightarrow> u32 \<Rightarrow> u32 \<Rightarrow> u32 \<Rightarrow> u32 \<Rightarrow> u32 \<Rightarrow> nat \<Rightarrow> u32 \<times> u32" where
  "R32 a b c d e x r = rmd_Round a b c d e (rmd_f3 b c d) x 0x6D703EF3 r"

definition R42 :: "u32 \<Rightarrow> u32 \<Rightarrow> u32 \<Rightarrow> u32 \<Rightarrow> u32 \<Rightarrow> u32 \<Rightarrow> nat \<Rightarrow> u32 \<times> u32" where
  "R42 a b c d e x r = rmd_Round a b c d e (rmd_f2 b c d) x 0x7A6D76E9 r"

definition R52 :: "u32 \<Rightarrow> u32 \<Rightarrow> u32 \<Rightarrow> u32 \<Rightarrow> u32 \<Rightarrow> u32 \<Rightarrow> nat \<Rightarrow> u32 \<times> u32" where
  "R52 a b c d e x r = rmd_Round a b c d e (rmd_f1 b c d) x 0 r"

definition rmd_rounds0 :: "rmd_regs \<Rightarrow> block_words \<Rightarrow> rmd_regs" where
  "rmd_rounds0 rs ws =
     (case rs of (a1, b1, c1, d1, e1, a2, b2, c2, d2, e2) \<Rightarrow>
      case ws of (w0, w1, w2, w3, w4, w5, w6, w7, w8, w9, w10, w11, w12, w13, w14, w15) \<Rightarrow>
      let (a1, c1) = R11 a1 b1 c1 d1 e1 w0 11 in
      let (a2, c2) = R12 a2 b2 c2 d2 e2 w5 8 in
      let (e1, b1) = R11 e1 a1 b1 c1 d1 w1 14 in
      let (e2, b2) = R12 e2 a2 b2 c2 d2 w14 9 in
      let (d1, a1) = R11 d1 e1 a1 b1 c1 w2 15 in
      let (d2, a2) = R12 d2 e2 a2 b2 c2 w7 9 in
      let (c1, e1) = R11 c1 d1 e1 a1 b1 w3 12 in
      let (c2, e2) = R12 c2 d2 e2 a2 b2 w0 11 in
      let (b1, d1) = R11 b1 c1 d1 e1 a1 w4 5 in
      let (b2, d2) = R12 b2 c2 d2 e2 a2 w9 13 in
      let (a1, c1) = R11 a1 b1 c1 d1 e1 w5 8 in
      let (a2, c2) = R12 a2 b2 c2 d2 e2 w2 15 in
      let (e1, b1) = R11 e1 a1 b1 c1 d1 w6 7 in
      let (e2, b2) = R12 e2 a2 b2 c2 d2 w11 15 in
      let (d1, a1) = R11 d1 e1 a1 b1 c1 w7 9 in
      let (d2, a2) = R12 d2 e2 a2 b2 c2 w4 5 in
      let (c1, e1) = R11 c1 d1 e1 a1 b1 w8 11 in
      let (c2, e2) = R12 c2 d2 e2 a2 b2 w13 7 in
      let (b1, d1) = R11 b1 c1 d1 e1 a1 w9 13 in
      let (b2, d2) = R12 b2 c2 d2 e2 a2 w6 7 in
      let (a1, c1) = R11 a1 b1 c1 d1 e1 w10 14 in
      let (a2, c2) = R12 a2 b2 c2 d2 e2 w15 8 in
      let (e1, b1) = R11 e1 a1 b1 c1 d1 w11 15 in
      let (e2, b2) = R12 e2 a2 b2 c2 d2 w8 11 in
      let (d1, a1) = R11 d1 e1 a1 b1 c1 w12 6 in
      let (d2, a2) = R12 d2 e2 a2 b2 c2 w1 14 in
      let (c1, e1) = R11 c1 d1 e1 a1 b1 w13 7 in
      let (c2, e2) = R12 c2 d2 e2 a2 b2 w10 14 in
      let (b1, d1) = R11 b1 c1 d1 e1 a1 w14 9 in
      let (b2, d2) = R12 b2 c2 d2 e2 a2 w3 12 in
      let (a1, c1) = R11 a1 b1 c1 d1 e1 w15 8 in
      let (a2, c2) = R12 a2 b2 c2 d2 e2 w12 6 in
      (a1, b1, c1, d1, e1, a2, b2, c2, d2, e2))"

definition rmd_rounds1 :: "rmd_regs \<Rightarrow> block_words \<Rightarrow> rmd_regs" where
  "rmd_rounds1 rs ws =
     (case rs of (a1, b1, c1, d1, e1, a2, b2, c2, d2, e2) \<Rightarrow>
      case ws of (w0, w1, w2, w3, w4, w5, w6, w7, w8, w9, w10, w11, w12, w13, w14, w15) \<Rightarrow>
      let (e1, b1) = R21 e1 a1 b1 c1 d1 w7 7 in
      let (e2, b2) = R22 e2 a2 b2 c2 d2 w6 9 in
      let (d1, a1) = R21 d1 e1 a1 b1 c1 w4 6 in
      let (d2, a2) = R22 d2 e2 a2 b2 c2 w11 13 in
      let (c1, e1) = R21 c1 d1 e1 a1 b1 w13 8 in
      let (c2, e2) = R22 c2 d2 e2 a2 b2 w3 15 in
      let (b1, d1) = R21 b1 c1 d1 e1 a1 w1 13 in
      let (b2, d2) = R22 b2 c2 d2 e2 a2 w7 7 in
      let (a1, c1) = R21 a1 b1 c1 d1 e1 w10 11 in
      let (a2, c2) = R22 a2 b2 c2 d2 e2 w0 12 in
      let (e1, b1) = R21 e1 a1 b1 c1 d1 w6 9 in
      let (e2, b2) = R22 e2 a2 b2 c2 d2 w13 8 in
      let (d1, a1) = R21 d1 e1 a1 b1 c1 w15 7 in
      let (d2, a2) = R22 d2 e2 a2 b2 c2 w5 9 in
      let (c1, e1) = R21 c1 d1 e1 a1 b1 w3 15 in
      let (c2, e2) = R22 c2 d2 e2 a2 b2 w10 11 in
      let (b1, d1) = R21 b1 c1 d1 e1 a1 w12 7 in
      let (b2, d2) = R22 b2 c2 d2 e2 a2 w14 7 in
      let (a1, c1) = R21 a1 b1 c1 d1 e1 w0 12 in
      let (a2, c2) = R22 a2 b2 c2 d2 e2 w15 7 in
      let (e1, b1) = R21 e1 a1 b1 c1 d1 w9 15 in
      let (e2, b2) = R22 e2 a2 b2 c2 d2 w8 12 in
      let (d1, a1) = R21 d1 e1 a1 b1 c1 w5 9 in
      let (d2, a2) = R22 d2 e2 a2 b2 c2 w12 7 in
      let (c1, e1) = R21 c1 d1 e1 a1 b1 w2 11 in
      let (c2, e2) = R22 c2 d2 e2 a2 b2 w4 6 in
      let (b1, d1) = R21 b1 c1 d1 e1 a1 w14 7 in
      let (b2, d2) = R22 b2 c2 d2 e2 a2 w9 15 in
      let (a1, c1) = R21 a1 b1 c1 d1 e1 w11 13 in
      let (a2, c2) = R22 a2 b2 c2 d2 e2 w1 13 in
      let (e1, b1) = R21 e1 a1 b1 c1 d1 w8 12 in
      let (e2, b2) = R22 e2 a2 b2 c2 d2 w2 11 in
      (a1, b1, c1, d1, e1, a2, b2, c2, d2, e2))"

definition rmd_rounds2 :: "rmd_regs \<Rightarrow> block_words \<Rightarrow> rmd_regs" where
  "rmd_rounds2 rs ws =
     (case rs of (a1, b1, c1, d1, e1, a2, b2, c2, d2, e2) \<Rightarrow>
      case ws of (w0, w1, w2, w3, w4, w5, w6, w7, w8, w9, w10, w11, w12, w13, w14, w15) \<Rightarrow>
      let (d1, a1) = R31 d1 e1 a1 b1 c1 w3 11 in
      let (d2, a2) = R32 d2 e2 a2 b2 c2 w15 9 in
      let (c1, e1) = R31 c1 d1 e1 a1 b1 w10 13 in
      let (c2, e2) = R32 c2 d2 e2 a2 b2 w5 7 in
      let (b1, d1) = R31 b1 c1 d1 e1 a1 w14 6 in
      let (b2, d2) = R32 b2 c2 d2 e2 a2 w1 15 in
      let (a1, c1) = R31 a1 b1 c1 d1 e1 w4 7 in
      let (a2, c2) = R32 a2 b2 c2 d2 e2 w3 11 in
      let (e1, b1) = R31 e1 a1 b1 c1 d1 w9 14 in
      let (e2, b2) = R32 e2 a2 b2 c2 d2 w7 8 in
      let (d1, a1) = R31 d1 e1 a1 b1 c1 w15 9 in
      let (d2, a2) = R32 d2 e2 a2 b2 c2 w14 6 in
      let (c1, e1) = R31 c1 d1 e1 a1 b1 w8 13 in
      let (c2, e2) = R32 c2 d2 e2 a2 b2 w6 6 in
      let (b1, d1) = R31 b1 c1 d1 e1 a1 w1 15 in
      let (b2, d2) = R32 b2 c2 d2 e2 a2 w9 14 in
      let (a1, c1) = R31 a1 b1 c1 d1 e1 w2 14 in
      let (a2, c2) = R32 a2 b2 c2 d2 e2 w11 12 in
      let (e1, b1) = R31 e1 a1 b1 c1 d1 w7 8 in
      let (e2, b2) = R32 e2 a2 b2 c2 d2 w8 13 in
      let (d1, a1) = R31 d1 e1 a1 b1 c1 w0 13 in
      let (d2, a2) = R32 d2 e2 a2 b2 c2 w12 5 in
      let (c1, e1) = R31 c1 d1 e1 a1 b1 w6 6 in
      let (c2, e2) = R32 c2 d2 e2 a2 b2 w2 14 in
      let (b1, d1) = R31 b1 c1 d1 e1 a1 w13 5 in
      let (b2, d2) = R32 b2 c2 d2 e2 a2 w10 13 in
      let (a1, c1) = R31 a1 b1 c1 d1 e1 w11 12 in
      let (a2, c2) = R32 a2 b2 c2 d2 e2 w0 13 in
      let (e1, b1) = R31 e1 a1 b1 c1 d1 w5 7 in
      let (e2, b2) = R32 e2 a2 b2 c2 d2 w4 7 in
      let (d1, a1) = R31 d1 e1 a1 b1 c1 w12 5 in
      let (d2, a2) = R32 d2 e2 a2 b2 c2 w13 5 in
      (a1, b1, c1, d1, e1, a2, b2, c2, d2, e2))"

definition rmd_rounds3 :: "rmd_regs \<Rightarrow> block_words \<Rightarrow> rmd_regs" where
  "rmd_rounds3 rs ws =
     (case rs of (a1, b1, c1, d1, e1, a2, b2, c2, d2, e2) \<Rightarrow>
      case ws of (w0, w1, w2, w3, w4, w5, w6, w7, w8, w9, w10, w11, w12, w13, w14, w15) \<Rightarrow>
      let (c1, e1) = R41 c1 d1 e1 a1 b1 w1 11 in
      let (c2, e2) = R42 c2 d2 e2 a2 b2 w8 15 in
      let (b1, d1) = R41 b1 c1 d1 e1 a1 w9 12 in
      let (b2, d2) = R42 b2 c2 d2 e2 a2 w6 5 in
      let (a1, c1) = R41 a1 b1 c1 d1 e1 w11 14 in
      let (a2, c2) = R42 a2 b2 c2 d2 e2 w4 8 in
      let (e1, b1) = R41 e1 a1 b1 c1 d1 w10 15 in
      let (e2, b2) = R42 e2 a2 b2 c2 d2 w1 11 in
      let (d1, a1) = R41 d1 e1 a1 b1 c1 w0 14 in
      let (d2, a2) = R42 d2 e2 a2 b2 c2 w3 14 in
      let (c1, e1) = R41 c1 d1 e1 a1 b1 w8 15 in
      let (c2, e2) = R42 c2 d2 e2 a2 b2 w11 14 in
      let (b1, d1) = R41 b1 c1 d1 e1 a1 w12 9 in
      let (b2, d2) = R42 b2 c2 d2 e2 a2 w15 6 in
      let (a1, c1) = R41 a1 b1 c1 d1 e1 w4 8 in
      let (a2, c2) = R42 a2 b2 c2 d2 e2 w0 14 in
      let (e1, b1) = R41 e1 a1 b1 c1 d1 w13 9 in
      let (e2, b2) = R42 e2 a2 b2 c2 d2 w5 6 in
      let (d1, a1) = R41 d1 e1 a1 b1 c1 w3 14 in
      let (d2, a2) = R42 d2 e2 a2 b2 c2 w12 9 in
      let (c1, e1) = R41 c1 d1 e1 a1 b1 w7 5 in
      let (c2, e2) = R42 c2 d2 e2 a2 b2 w2 12 in
      let (b1, d1) = R41 b1 c1 d1 e1 a1 w15 6 in
      let (b2, d2) = R42 b2 c2 d2 e2 a2 w13 9 in
      let (a1, c1) = R41 a1 b1 c1 d1 e1 w14 8 in
      let (a2, c2) = R42 a2 b2 c2 d2 e2 w9 12 in
      let (e1, b1) = R41 e1 a1 b1 c1 d1 w5 6 in
      let (e2, b2) = R42 e2 a2 b2 c2 d2 w7 5 in
      let (d1, a1) = R41 d1 e1 a1 b1 c1 w6 5 in
      let (d2, a2) = R42 d2 e2 a2 b2 c2 w10 15 in
      let (c1, e1) = R41 c1 d1 e1 a1 b1 w2 12 in
      let (c2, e2) = R42 c2 d2 e2 a2 b2 w14 8 in
      (a1, b1, c1, d1, e1, a2, b2, c2, d2, e2))"

definition rmd_rounds4 :: "rmd_regs \<Rightarrow> block_words \<Rightarrow> rmd_regs" where
  "rmd_rounds4 rs ws =
     (case rs of (a1, b1, c1, d1, e1, a2, b2, c2, d2, e2) \<Rightarrow>
      case ws of (w0, w1, w2, w3, w4, w5, w6, w7, w8, w9, w10, w11, w12, w13, w14, w15) \<Rightarrow>
      let (b1, d1) = R51 b1 c1 d1 e1 a1 w4 9 in
      let (b2, d2) = R52 b2 c2 d2 e2 a2 w12 8 in
      let (a1, c1) = R51 a1 b1 c1 d1 e1 w0 15 in
      let (a2, c2) = R52 a2 b2 c2 d2 e2 w15 5 in
      let (e1, b1) = R51 e1 a1 b1 c1 d1 w5 5 in
      let (e2, b2) = R52 e2 a2 b2 c2 d2 w10 12 in
      let (d1, a1) = R51 d1 e1 a1 b1 c1 w9 11 in
      let (d2, a2) = R52 d2 e2 a2 b2 c2 w4 9 in
      let (c1, e1) = R51 c1 d1 e1 a1 b1 w7 6 in
      let (c2, e2) = R52 c2 d2 e2 a2 b2 w1 12 in
      let (b1, d1) = R51 b1 c1 d1 e1 a1 w12 8 in
      let (b2, d2) = R52 b2 c2 d2 e2 a2 w5 5 in
      let (a1, c1) = R51 a1 b1 c1 d1 e1 w2 13 in
      let (a2, c2) = R52 a2 b2 c2 d2 e2 w8 14 in
      let (e1, b1) = R51 e1 a1 b1 c1 d1 w10 12 in
      let (e2, b2) = R52 e2 a2 b2 c2 d2 w7 6 in
      let (d1, a1) = R51 d1 e1 a1 b1 c1 w14 5 in
      let (d2, a2) = R52 d2 e2 a2 b2 c2 w6 8 in
      let (c1, e1) = R51 c1 d1 e1 a1 b1 w1 12 in
      let (c2, e2) = R52 c2 d2 e2 a2 b2 w2 13 in
      let (b1, d1) = R51 b1 c1 d1 e1 a1 w3 13 in
      let (b2, d2) = R52 b2 c2 d2 e2 a2 w13 6 in
      let (a1, c1) = R51 a1 b1 c1 d1 e1 w8 14 in
      let (a2, c2) = R52 a2 b2 c2 d2 e2 w14 5 in
      let (e1, b1) = R51 e1 a1 b1 c1 d1 w11 11 in
      let (e2, b2) = R52 e2 a2 b2 c2 d2 w0 15 in
      let (d1, a1) = R51 d1 e1 a1 b1 c1 w6 8 in
      let (d2, a2) = R52 d2 e2 a2 b2 c2 w3 13 in
      let (c1, e1) = R51 c1 d1 e1 a1 b1 w15 5 in
      let (c2, e2) = R52 c2 d2 e2 a2 b2 w9 11 in
      let (b1, d1) = R51 b1 c1 d1 e1 a1 w13 6 in
      let (b2, d2) = R52 b2 c2 d2 e2 a2 w11 11 in
      (a1, b1, c1, d1, e1, a2, b2, c2, d2, e2))"


fun rmd_Transform :: "rmd_state \<Rightarrow> bytes \<Rightarrow> rmd_state" where
  "rmd_Transform (s0, s1, s2, s3, s4) chunk =
     (let w = (ReadLE32 chunk 0, ReadLE32 chunk 4, ReadLE32 chunk 8, ReadLE32 chunk 12,
               ReadLE32 chunk 16, ReadLE32 chunk 20, ReadLE32 chunk 24, ReadLE32 chunk 28,
               ReadLE32 chunk 32, ReadLE32 chunk 36, ReadLE32 chunk 40, ReadLE32 chunk 44,
               ReadLE32 chunk 48, ReadLE32 chunk 52, ReadLE32 chunk 56, ReadLE32 chunk 60);
          r0 = rmd_rounds0 (s0, s1, s2, s3, s4, s0, s1, s2, s3, s4) w;
          r1 = rmd_rounds1 r0 w;
          r2 = rmd_rounds2 r1 w;
          r3 = rmd_rounds3 r2 w;
          (a1, b1, c1, d1, e1, a2, b2, c2, d2, e2) = rmd_rounds4 r3 w
      in (s1 + c1 + d2, s2 + d1 + e2, s3 + e1 + a2, s4 + a1 + b2, s0 + b1 + c2))"

fun rmd_output :: "rmd_state \<Rightarrow> bytes" where
  "rmd_output (s0, s1, s2, s3, s4) =
     WriteLE32 s0 @ WriteLE32 s1 @ WriteLE32 s2 @ WriteLE32 s3 @ WriteLE32 s4"

type_synonym CRIPEMD160 = "rmd_state hash_state"

definition CRIPEMD160_new :: CRIPEMD160 where
  "CRIPEMD160_new = md_new rmd_Initialize"

definition CRIPEMD160_Write :: "CRIPEMD160 \<Rightarrow> bytes \<Rightarrow> CRIPEMD160" where
  "CRIPEMD160_Write = md_write rmd_Transform"

definition CRIPEMD160_Finalize :: "CRIPEMD160 \<Rightarrow> bytes" where
  "CRIPEMD160_Finalize = md_finalize rmd_Transform WriteLE64 rmd_output"

definition CRIPEMD160_Reset :: "CRIPEMD160 \<Rightarrow> CRIPEMD160" where
  "CRIPEMD160_Reset h = h\<lparr>h_bytes := 0, h_s := rmd_Initialize\<rparr>"

definition ripemd160 :: "bytes \<Rightarrow> bytes" where
  "ripemd160 m = md_digest rmd_Transform rmd_Initialize WriteLE64 rmd_output m"

definition rmd_rep :: "CRIPEMD160 \<Rightarrow> bytes \<Rightarrow> bool" where
  "rmd_rep = md_rep rmd_Transform rmd_Initialize"

interpretation rmdh: hasher CRIPEMD160_new CRIPEMD160_Write CRIPEMD160_Finalize rmd_rep ripemd160
  using md_hasher [of rmd_Initialize rmd_Transform WriteLE64 rmd_output]
  by (simp add: CRIPEMD160_new_def CRIPEMD160_Write_def CRIPEMD160_Finalize_def rmd_rep_def
      ripemd160_def [abs_def])

lemma length_ripemd160 [simp]: "length (ripemd160 m) = 20"
  by (cases "md_fold rmd_Transform rmd_Initialize
        (m @ md_pad (length m) @ WriteLE64 (length m * 8 mod 2 ^ 64))" rule: rmd_output.cases)
     (simp add: ripemd160_def md_digest_def WriteLE32_def)

lemma CRIPEMD160_Reset_rep: "rmd_rep h m \<Longrightarrow> rmd_rep (CRIPEMD160_Reset h) []"
  by (simp add: rmd_rep_def md_rep_def CRIPEMD160_Reset_def)

end
