(* ===== verification/Hash.thy ===== *)
theory Hash
  imports Sha1 Ripemd160
begin

text \<open>
  The composed hashers of \<^verbatim>\<open>src/src/hash.h\<close>: \<^verbatim>\<open>CHash256\<close> (double SHA-256), \<^verbatim>\<open>CHash160\<close>
  (RIPEMD-160 of SHA-256), the \<^verbatim>\<open>Hash\<close> and \<^verbatim>\<open>Hash160\<close> templates and \<^verbatim>\<open>CHashWriter\<close>, which the
  transaction and block identifiers go through; and \<^verbatim>\<open>MurmurHash3\<close> and the HMAC of
  \<^verbatim>\<open>crypto/hmac_sha256.cpp\<close>. Each hasher is an interpretation of the contract \<open>hasher\<close>, derived
  from those of the hashers it is made of.
\<close>

definition CHash256_Write :: "CSHA256 \<Rightarrow> bytes \<Rightarrow> CSHA256" where
  "CHash256_Write sha data = CSHA256_Write sha data"

definition CHash256_Reset :: "CSHA256 \<Rightarrow> CSHA256" where
  "CHash256_Reset sha = CSHA256_Reset sha"

definition CHash256_Finalize :: "CSHA256 \<Rightarrow> bytes" where
  "CHash256_Finalize sha =
     (let buf = CSHA256_Finalize sha
      in CSHA256_Finalize (CSHA256_Write CSHA256_new buf))"

definition CHash160_Write :: "CSHA256 \<Rightarrow> bytes \<Rightarrow> CSHA256" where
  "CHash160_Write sha data = CSHA256_Write sha data"

definition CHash160_Reset :: "CSHA256 \<Rightarrow> CSHA256" where
  "CHash160_Reset sha = CSHA256_Reset sha"

definition CHash160_Finalize :: "CSHA256 \<Rightarrow> bytes" where
  "CHash160_Finalize sha =
     (let buf = CSHA256_Finalize sha
      in CRIPEMD160_Finalize (CRIPEMD160_Write CRIPEMD160_new buf))"

definition hash256 :: "bytes \<Rightarrow> bytes" where
  "hash256 m = sha256 (sha256 m)"

definition hash160 :: "bytes \<Rightarrow> bytes" where
  "hash160 m = ripemd160 (sha256 m)"

interpretation h256: hasher CSHA256_new CHash256_Write CHash256_Finalize sha256_rep hash256
  by unfold_locales
     (auto simp: CHash256_Write_def CHash256_Finalize_def hash256_def sha256h.rep_new
        sha256h.rep_final sha256h.final_write intro: sha256h.rep_write)

interpretation h160: hasher CSHA256_new CHash160_Write CHash160_Finalize sha256_rep hash160
  by unfold_locales
     (auto simp: CHash160_Write_def CHash160_Finalize_def hash160_def sha256h.rep_new
        sha256h.rep_final rmdh.final_write intro: sha256h.rep_write)

text \<open>
  The \<^verbatim>\<open>Hash\<close> templates take one to six ranges and write them one after the other; the model
  takes the list of ranges. The result is the 32 bytes of the \<^verbatim>\<open>uint256\<close>.
\<close>

definition Hash_ranges :: "bytes list \<Rightarrow> bytes" where
  "Hash_ranges ranges = CHash256_Finalize (foldl CHash256_Write CSHA256_new ranges)"

definition Hash160 :: "bytes \<Rightarrow> bytes" where
  "Hash160 vch = CHash160_Finalize (CHash160_Write CSHA256_new vch)"

text \<open>
  \<^verbatim>\<open>CHashWriter\<close> is a serialisation stream over a \<^verbatim>\<open>CHash256\<close>; \<open>SerializeHash\<close> runs the
  writes an object's serialisation makes.
\<close>

definition CHashWriter_write :: "CSHA256 \<Rightarrow> bytes \<Rightarrow> CSHA256" where
  "CHashWriter_write ctx pch = CHash256_Write ctx pch"

definition CHashWriter_GetHash :: "CSHA256 \<Rightarrow> bytes" where
  "CHashWriter_GetHash ctx = CHash256_Finalize ctx"

definition SerializeHash :: "bytes list \<Rightarrow> bytes" where
  "SerializeHash writes = CHashWriter_GetHash (foldl CHashWriter_write CSHA256_new writes)"

lemma length_hash256 [simp]: "length (hash256 m) = 32"
  by (simp add: hash256_def)

lemma length_hash160 [simp]: "length (hash160 m) = 20"
  by (simp add: hash160_def)

lemma Hash_ranges_eq: "Hash_ranges rs = hash256 (concat rs)"
  by (simp add: Hash_ranges_def h256.final_chunks)

lemma Hash160_eq: "Hash160 m = hash160 m"
  by (simp add: Hash160_def h160.final_write)

lemma SerializeHash_eq: "SerializeHash ws = hash256 (concat ws)"
proof -
  have "foldl CHashWriter_write h ws = foldl CHash256_Write h ws" for h
    by (induction ws arbitrary: h) (auto simp: CHashWriter_write_def)
  then show ?thesis
    by (simp add: SerializeHash_def CHashWriter_GetHash_def h256.final_chunks)
qed

section \<open>HMAC-SHA256 (crypto/hmac_sha256.cpp)\<close>

record CHMAC_SHA256 =
  hm_outer :: CSHA256
  hm_inner :: CSHA256

definition CHMAC_SHA256_new :: "bytes \<Rightarrow> CHMAC_SHA256" where
  "CHMAC_SHA256_new key =
     (let rkey = (if length key \<le> 64 then key @ replicate (64 - length key) 0
                  else CSHA256_Finalize (CSHA256_Write CSHA256_new key) @ replicate 32 0);
          rkey1 = map (\<lambda>b. b XOR 0x5c) rkey;
          outer = CSHA256_Write CSHA256_new rkey1;
          rkey2 = map (\<lambda>b. b XOR (0x5c XOR 0x36)) rkey1;
          inner = CSHA256_Write CSHA256_new rkey2
      in \<lparr>hm_outer = outer, hm_inner = inner\<rparr>)"

definition CHMAC_SHA256_Write :: "CHMAC_SHA256 \<Rightarrow> bytes \<Rightarrow> CHMAC_SHA256" where
  "CHMAC_SHA256_Write h data = h\<lparr>hm_inner := CSHA256_Write (hm_inner h) data\<rparr>"

definition CHMAC_SHA256_Finalize :: "CHMAC_SHA256 \<Rightarrow> bytes" where
  "CHMAC_SHA256_Finalize h =
     (let temp = CSHA256_Finalize (hm_inner h)
      in CSHA256_Finalize (CSHA256_Write (hm_outer h) temp))"

text \<open>The definition of HMAC in RFC 2104, over whole strings.\<close>

definition hmac_key :: "bytes \<Rightarrow> bytes" where
  "hmac_key key = (let k = (if length key \<le> 64 then key else sha256 key)
     in k @ replicate (64 - length k) 0)"

definition hmac_sha256 :: "bytes \<Rightarrow> bytes \<Rightarrow> bytes" where
  "hmac_sha256 key m =
     sha256 (map (\<lambda>b. b XOR 0x5c) (hmac_key key) @
       sha256 (map (\<lambda>b. b XOR 0x36) (hmac_key key) @ m))"

lemma xor_5c_36: "(b XOR 0x5c) XOR 0x6a = b XOR (0x36 :: byte)"
  by (simp add: xor.assoc)

lemma hmac_key_code:
  "(if length key \<le> 64 then key @ replicate (64 - length key) 0
    else CSHA256_Finalize (CSHA256_Write CSHA256_new key) @ replicate 32 0) = hmac_key key"
  by (simp add: hmac_key_def sha256h.final_write)

definition hmac_rep :: "bytes \<Rightarrow> CHMAC_SHA256 \<Rightarrow> bytes \<Rightarrow> bool" where
  "hmac_rep key h m \<longleftrightarrow>
     sha256_rep (hm_outer h) (map (\<lambda>b. b XOR 0x5c) (hmac_key key)) \<and>
     sha256_rep (hm_inner h) (map (\<lambda>b. b XOR 0x36) (hmac_key key) @ m)"

interpretation hmac: hasher "CHMAC_SHA256_new key" CHMAC_SHA256_Write CHMAC_SHA256_Finalize
    "hmac_rep key" "hmac_sha256 key"
proof
  have "sha256_rep (CSHA256_Write CSHA256_new x) x" for x
    using sha256h.rep_write [OF sha256h.rep_new] by simp
  then show "hmac_rep key (CHMAC_SHA256_new key) []"
    by (simp add: hmac_rep_def CHMAC_SHA256_new_def hmac_key_code Let_def comp_def xor_5c_36)
next
  fix h m d assume "hmac_rep key h m"
  then show "hmac_rep key (CHMAC_SHA256_Write h d) (m @ d)"
    using sha256h.rep_write [of "hm_inner h" "map (\<lambda>b. b XOR 0x36) (hmac_key key) @ m" d]
    by (simp add: hmac_rep_def CHMAC_SHA256_Write_def)
next
  fix h m assume "hmac_rep key h m"
  then show "CHMAC_SHA256_Finalize h = hmac_sha256 key m"
    by (auto simp: hmac_rep_def CHMAC_SHA256_Finalize_def hmac_sha256_def Let_def
        dest!: sha256h.rep_final [of "hm_inner h"] intro!: sha256h.rep_final sha256h.rep_write)
qed

section \<open>MurmurHash3 (hash.cpp)\<close>

definition ROTL32 :: "u32 \<Rightarrow> nat \<Rightarrow> u32" where
  "ROTL32 x r = push_bit r x OR drop_bit (32 - r) x"

definition murmur_k :: "u32 \<Rightarrow> u32" where
  "murmur_k k1 = ROTL32 (k1 * 0xcc9e2d51) 15 * 0x1b873593"

fun murmur_body :: "nat \<Rightarrow> bytes \<Rightarrow> u32 \<Rightarrow> u32" where
  "murmur_body 0 data h1 = h1"
| "murmur_body (Suc n) data h1 =
     murmur_body n (drop 4 data)
       (ROTL32 (h1 XOR murmur_k (ReadLE32 data 0)) 13 * 5 + 0xe6546b64)"

text \<open>The tail \<^verbatim>\<open>switch\<close> falls through from case 3 to case 1.\<close>

definition murmur_tail :: "bytes \<Rightarrow> u32 \<Rightarrow> u32" where
  "murmur_tail tail h1 =
     (let n = length tail;
          k0 = 0 :: u32;
          k3 = (if n = 3 then k0 XOR push_bit 16 (ucast (tail ! 2)) else k0);
          k2 = (if 2 \<le> n then k3 XOR push_bit 8 (ucast (tail ! 1)) else k3)
      in if 1 \<le> n then h1 XOR murmur_k (k2 XOR ucast (tail ! 0)) else h1)"

definition MurmurHash3 :: "u32 \<Rightarrow> bytes \<Rightarrow> u32" where
  "MurmurHash3 nHashSeed vDataToHash =
     (let nblocks = length vDataToHash div 4;
          h1 = (if vDataToHash \<noteq> []
                then murmur_tail (drop (nblocks * 4) vDataToHash)
                       (murmur_body nblocks vDataToHash nHashSeed)
                else nHashSeed);
          h2 = h1 XOR word_of_nat (length vDataToHash);
          h3 = (h2 XOR drop_bit 16 h2) * 0x85ebca6b;
          h4 = (h3 XOR drop_bit 13 h3) * 0xc2b2ae35
      in h4 XOR drop_bit 16 h4)"

end
