(* ===== verification/Script.thy ===== *)
theory Script
  imports Hash
begin

text \<open>
  Scripts as byte strings: \<^verbatim>\<open>src/src/script/script.h\<close> and \<^verbatim>\<open>script.cpp\<close>. The opcodes are the
  numbers of \<^verbatim>\<open>enum opcodetype\<close>; an opcode read from a script is any number below 256, as the
  cast in \<^verbatim>\<open>GetOp2\<close> allows. A \<^verbatim>\<open>const_iterator\<close> into a script is the suffix it points at. The
  two- and four-byte push sizes are read and written in the host's order, which is little endian
  on every platform the program supports. \<^verbatim>\<open>CScriptNum\<close> holds an \<^verbatim>\<open>int64_t\<close>; the model holds the
  integer, and the lemmas on operand sizes show that no operation of the interpreter leaves the
  range of \<^verbatim>\<open>int64_t\<close>.
\<close>

type_synonym opcodetype = nat
type_synonym valtype = bytes
type_synonym script = bytes

section \<open>enum opcodetype\<close>

abbreviation (input) OP_0 :: opcodetype where "OP_0 \<equiv> 0x00"
abbreviation (input) OP_FALSE :: opcodetype where "OP_FALSE \<equiv> OP_0"
abbreviation (input) OP_PUSHDATA1 :: opcodetype where "OP_PUSHDATA1 \<equiv> 0x4c"
abbreviation (input) OP_PUSHDATA2 :: opcodetype where "OP_PUSHDATA2 \<equiv> 0x4d"
abbreviation (input) OP_PUSHDATA4 :: opcodetype where "OP_PUSHDATA4 \<equiv> 0x4e"
abbreviation (input) OP_1NEGATE :: opcodetype where "OP_1NEGATE \<equiv> 0x4f"
abbreviation (input) OP_RESERVED :: opcodetype where "OP_RESERVED \<equiv> 0x50"
abbreviation (input) OP_1 :: opcodetype where "OP_1 \<equiv> 0x51"
abbreviation (input) OP_TRUE :: opcodetype where "OP_TRUE \<equiv> OP_1"
abbreviation (input) OP_2 :: opcodetype where "OP_2 \<equiv> 0x52"
abbreviation (input) OP_3 :: opcodetype where "OP_3 \<equiv> 0x53"
abbreviation (input) OP_4 :: opcodetype where "OP_4 \<equiv> 0x54"
abbreviation (input) OP_5 :: opcodetype where "OP_5 \<equiv> 0x55"
abbreviation (input) OP_6 :: opcodetype where "OP_6 \<equiv> 0x56"
abbreviation (input) OP_7 :: opcodetype where "OP_7 \<equiv> 0x57"
abbreviation (input) OP_8 :: opcodetype where "OP_8 \<equiv> 0x58"
abbreviation (input) OP_9 :: opcodetype where "OP_9 \<equiv> 0x59"
abbreviation (input) OP_10 :: opcodetype where "OP_10 \<equiv> 0x5a"
abbreviation (input) OP_11 :: opcodetype where "OP_11 \<equiv> 0x5b"
abbreviation (input) OP_12 :: opcodetype where "OP_12 \<equiv> 0x5c"
abbreviation (input) OP_13 :: opcodetype where "OP_13 \<equiv> 0x5d"
abbreviation (input) OP_14 :: opcodetype where "OP_14 \<equiv> 0x5e"
abbreviation (input) OP_15 :: opcodetype where "OP_15 \<equiv> 0x5f"
abbreviation (input) OP_16 :: opcodetype where "OP_16 \<equiv> 0x60"
abbreviation (input) OP_NOP :: opcodetype where "OP_NOP \<equiv> 0x61"
abbreviation (input) OP_VER :: opcodetype where "OP_VER \<equiv> 0x62"
abbreviation (input) OP_IF :: opcodetype where "OP_IF \<equiv> 0x63"
abbreviation (input) OP_NOTIF :: opcodetype where "OP_NOTIF \<equiv> 0x64"
abbreviation (input) OP_VERIF :: opcodetype where "OP_VERIF \<equiv> 0x65"
abbreviation (input) OP_VERNOTIF :: opcodetype where "OP_VERNOTIF \<equiv> 0x66"
abbreviation (input) OP_ELSE :: opcodetype where "OP_ELSE \<equiv> 0x67"
abbreviation (input) OP_ENDIF :: opcodetype where "OP_ENDIF \<equiv> 0x68"
abbreviation (input) OP_VERIFY :: opcodetype where "OP_VERIFY \<equiv> 0x69"
abbreviation (input) OP_RETURN :: opcodetype where "OP_RETURN \<equiv> 0x6a"
abbreviation (input) OP_TOALTSTACK :: opcodetype where "OP_TOALTSTACK \<equiv> 0x6b"
abbreviation (input) OP_FROMALTSTACK :: opcodetype where "OP_FROMALTSTACK \<equiv> 0x6c"
abbreviation (input) OP_2DROP :: opcodetype where "OP_2DROP \<equiv> 0x6d"
abbreviation (input) OP_2DUP :: opcodetype where "OP_2DUP \<equiv> 0x6e"
abbreviation (input) OP_3DUP :: opcodetype where "OP_3DUP \<equiv> 0x6f"
abbreviation (input) OP_2OVER :: opcodetype where "OP_2OVER \<equiv> 0x70"
abbreviation (input) OP_2ROT :: opcodetype where "OP_2ROT \<equiv> 0x71"
abbreviation (input) OP_2SWAP :: opcodetype where "OP_2SWAP \<equiv> 0x72"
abbreviation (input) OP_IFDUP :: opcodetype where "OP_IFDUP \<equiv> 0x73"
abbreviation (input) OP_DEPTH :: opcodetype where "OP_DEPTH \<equiv> 0x74"
abbreviation (input) OP_DROP :: opcodetype where "OP_DROP \<equiv> 0x75"
abbreviation (input) OP_DUP :: opcodetype where "OP_DUP \<equiv> 0x76"
abbreviation (input) OP_NIP :: opcodetype where "OP_NIP \<equiv> 0x77"
abbreviation (input) OP_OVER :: opcodetype where "OP_OVER \<equiv> 0x78"
abbreviation (input) OP_PICK :: opcodetype where "OP_PICK \<equiv> 0x79"
abbreviation (input) OP_ROLL :: opcodetype where "OP_ROLL \<equiv> 0x7a"
abbreviation (input) OP_ROT :: opcodetype where "OP_ROT \<equiv> 0x7b"
abbreviation (input) OP_SWAP :: opcodetype where "OP_SWAP \<equiv> 0x7c"
abbreviation (input) OP_TUCK :: opcodetype where "OP_TUCK \<equiv> 0x7d"
abbreviation (input) OP_CAT :: opcodetype where "OP_CAT \<equiv> 0x7e"
abbreviation (input) OP_SUBSTR :: opcodetype where "OP_SUBSTR \<equiv> 0x7f"
abbreviation (input) OP_LEFT :: opcodetype where "OP_LEFT \<equiv> 0x80"
abbreviation (input) OP_RIGHT :: opcodetype where "OP_RIGHT \<equiv> 0x81"
abbreviation (input) OP_SIZE :: opcodetype where "OP_SIZE \<equiv> 0x82"
abbreviation (input) OP_INVERT :: opcodetype where "OP_INVERT \<equiv> 0x83"
abbreviation (input) OP_AND :: opcodetype where "OP_AND \<equiv> 0x84"
abbreviation (input) OP_OR :: opcodetype where "OP_OR \<equiv> 0x85"
abbreviation (input) OP_XOR :: opcodetype where "OP_XOR \<equiv> 0x86"
abbreviation (input) OP_EQUAL :: opcodetype where "OP_EQUAL \<equiv> 0x87"
abbreviation (input) OP_EQUALVERIFY :: opcodetype where "OP_EQUALVERIFY \<equiv> 0x88"
abbreviation (input) OP_RESERVED1 :: opcodetype where "OP_RESERVED1 \<equiv> 0x89"
abbreviation (input) OP_RESERVED2 :: opcodetype where "OP_RESERVED2 \<equiv> 0x8a"
abbreviation (input) OP_1ADD :: opcodetype where "OP_1ADD \<equiv> 0x8b"
abbreviation (input) OP_1SUB :: opcodetype where "OP_1SUB \<equiv> 0x8c"
abbreviation (input) OP_2MUL :: opcodetype where "OP_2MUL \<equiv> 0x8d"
abbreviation (input) OP_2DIV :: opcodetype where "OP_2DIV \<equiv> 0x8e"
abbreviation (input) OP_NEGATE :: opcodetype where "OP_NEGATE \<equiv> 0x8f"
abbreviation (input) OP_ABS :: opcodetype where "OP_ABS \<equiv> 0x90"
abbreviation (input) OP_NOT :: opcodetype where "OP_NOT \<equiv> 0x91"
abbreviation (input) OP_0NOTEQUAL :: opcodetype where "OP_0NOTEQUAL \<equiv> 0x92"
abbreviation (input) OP_ADD :: opcodetype where "OP_ADD \<equiv> 0x93"
abbreviation (input) OP_SUB :: opcodetype where "OP_SUB \<equiv> 0x94"
abbreviation (input) OP_MUL :: opcodetype where "OP_MUL \<equiv> 0x95"
abbreviation (input) OP_DIV :: opcodetype where "OP_DIV \<equiv> 0x96"
abbreviation (input) OP_MOD :: opcodetype where "OP_MOD \<equiv> 0x97"
abbreviation (input) OP_LSHIFT :: opcodetype where "OP_LSHIFT \<equiv> 0x98"
abbreviation (input) OP_RSHIFT :: opcodetype where "OP_RSHIFT \<equiv> 0x99"
abbreviation (input) OP_BOOLAND :: opcodetype where "OP_BOOLAND \<equiv> 0x9a"
abbreviation (input) OP_BOOLOR :: opcodetype where "OP_BOOLOR \<equiv> 0x9b"
abbreviation (input) OP_NUMEQUAL :: opcodetype where "OP_NUMEQUAL \<equiv> 0x9c"
abbreviation (input) OP_NUMEQUALVERIFY :: opcodetype where "OP_NUMEQUALVERIFY \<equiv> 0x9d"
abbreviation (input) OP_NUMNOTEQUAL :: opcodetype where "OP_NUMNOTEQUAL \<equiv> 0x9e"
abbreviation (input) OP_LESSTHAN :: opcodetype where "OP_LESSTHAN \<equiv> 0x9f"
abbreviation (input) OP_GREATERTHAN :: opcodetype where "OP_GREATERTHAN \<equiv> 0xa0"
abbreviation (input) OP_LESSTHANOREQUAL :: opcodetype where "OP_LESSTHANOREQUAL \<equiv> 0xa1"
abbreviation (input) OP_GREATERTHANOREQUAL :: opcodetype where "OP_GREATERTHANOREQUAL \<equiv> 0xa2"
abbreviation (input) OP_MIN :: opcodetype where "OP_MIN \<equiv> 0xa3"
abbreviation (input) OP_MAX :: opcodetype where "OP_MAX \<equiv> 0xa4"
abbreviation (input) OP_WITHIN :: opcodetype where "OP_WITHIN \<equiv> 0xa5"
abbreviation (input) OP_RIPEMD160 :: opcodetype where "OP_RIPEMD160 \<equiv> 0xa6"
abbreviation (input) OP_SHA1 :: opcodetype where "OP_SHA1 \<equiv> 0xa7"
abbreviation (input) OP_SHA256 :: opcodetype where "OP_SHA256 \<equiv> 0xa8"
abbreviation (input) OP_HASH160 :: opcodetype where "OP_HASH160 \<equiv> 0xa9"
abbreviation (input) OP_HASH256 :: opcodetype where "OP_HASH256 \<equiv> 0xaa"
abbreviation (input) OP_CODESEPARATOR :: opcodetype where "OP_CODESEPARATOR \<equiv> 0xab"
abbreviation (input) OP_CHECKSIG :: opcodetype where "OP_CHECKSIG \<equiv> 0xac"
abbreviation (input) OP_CHECKSIGVERIFY :: opcodetype where "OP_CHECKSIGVERIFY \<equiv> 0xad"
abbreviation (input) OP_CHECKMULTISIG :: opcodetype where "OP_CHECKMULTISIG \<equiv> 0xae"
abbreviation (input) OP_CHECKMULTISIGVERIFY :: opcodetype where "OP_CHECKMULTISIGVERIFY \<equiv> 0xaf"
abbreviation (input) OP_NOP1 :: opcodetype where "OP_NOP1 \<equiv> 0xb0"
abbreviation (input) OP_NOP2 :: opcodetype where "OP_NOP2 \<equiv> 0xb1"
abbreviation (input) OP_CHECKLOCKTIMEVERIFY :: opcodetype where "OP_CHECKLOCKTIMEVERIFY \<equiv> OP_NOP2"
abbreviation (input) OP_NOP3 :: opcodetype where "OP_NOP3 \<equiv> 0xb2"
abbreviation (input) OP_NOP4 :: opcodetype where "OP_NOP4 \<equiv> 0xb3"
abbreviation (input) OP_NOP5 :: opcodetype where "OP_NOP5 \<equiv> 0xb4"
abbreviation (input) OP_NOP6 :: opcodetype where "OP_NOP6 \<equiv> 0xb5"
abbreviation (input) OP_NOP7 :: opcodetype where "OP_NOP7 \<equiv> 0xb6"
abbreviation (input) OP_NOP8 :: opcodetype where "OP_NOP8 \<equiv> 0xb7"
abbreviation (input) OP_NOP9 :: opcodetype where "OP_NOP9 \<equiv> 0xb8"
abbreviation (input) OP_NOP10 :: opcodetype where "OP_NOP10 \<equiv> 0xb9"
abbreviation (input) OP_ZEROCOINMINT :: opcodetype where "OP_ZEROCOINMINT \<equiv> 0xc1"
abbreviation (input) OP_ZEROCOINSPEND :: opcodetype where "OP_ZEROCOINSPEND \<equiv> 0xc2"
abbreviation (input) OP_SMALLINTEGER :: opcodetype where "OP_SMALLINTEGER \<equiv> 0xfa"
abbreviation (input) OP_PUBKEYS :: opcodetype where "OP_PUBKEYS \<equiv> 0xfb"
abbreviation (input) OP_PUBKEYHASH :: opcodetype where "OP_PUBKEYHASH \<equiv> 0xfd"
abbreviation (input) OP_PUBKEY :: opcodetype where "OP_PUBKEY \<equiv> 0xfe"
abbreviation (input) OP_INVALIDOPCODE :: opcodetype where "OP_INVALIDOPCODE \<equiv> 0xff"

abbreviation (input) MAX_SCRIPT_ELEMENT_SIZE :: nat where "MAX_SCRIPT_ELEMENT_SIZE \<equiv> 520"
abbreviation (input) LOCKTIME_THRESHOLD :: int where "LOCKTIME_THRESHOLD \<equiv> 500000000"

section \<open>CScriptNum\<close>

text \<open>\<^verbatim>\<open>while (absvalue) { result.push_back(absvalue & 0xff); absvalue >>= 8; }\<close>\<close>

fun le_digits :: "nat \<Rightarrow> bytes" where
  "le_digits n = (if n = 0 then [] else word_of_nat (n mod 256) # le_digits (n div 256))"

declare le_digits.simps [simp del]

definition serialize :: "int \<Rightarrow> valtype" where
  "serialize value =
     (if value = 0 then []
      else let neg = value < 0;
               absvalue = nat (if neg then - value else value);
               result = le_digits absvalue
           in if last result AND 0x80 \<noteq> 0 then result @ [if neg then 0x80 else 0]
              else if neg then butlast result @ [last result OR 0x80]
              else result)"

primrec set_vch_loop :: "nat \<Rightarrow> int \<Rightarrow> valtype \<Rightarrow> int" where
  "set_vch_loop i result [] = result"
| "set_vch_loop i result (b # bs) = set_vch_loop (Suc i) (result OR push_bit (8 * i) (uint b)) bs"

definition set_vch :: "valtype \<Rightarrow> int" where
  "set_vch vch =
     (if vch = [] then 0
      else let result = set_vch_loop 0 0 vch
           in if last vch AND 0x80 \<noteq> 0
              then - (result AND NOT (push_bit (8 * (length vch - 1)) 0x80))
              else result)"

text \<open>The constructor from bytes; \<open>None\<close> is the \<^verbatim>\<open>scriptnum_error\<close> it throws.\<close>

definition CScriptNum :: "valtype \<Rightarrow> bool \<Rightarrow> nat \<Rightarrow> int option" where
  "CScriptNum vch fRequireMinimal nMaxNumSize =
     (if nMaxNumSize < length vch then None
      else if fRequireMinimal \<and> 0 < length vch \<and> last vch AND 0x7f = 0 \<and>
              (length vch \<le> 1 \<or> vch ! (length vch - 2) AND 0x80 = 0) then None
      else Some (set_vch vch))"

definition getint :: "int \<Rightarrow> int" where
  "getint v = (if 2 ^ 31 - 1 < v then 2 ^ 31 - 1 else if v < - (2 ^ 31) then - (2 ^ 31) else v)"

section \<open>Writing a script\<close>

definition push_opcode :: "opcodetype \<Rightarrow> script" where
  "push_opcode opcode = [word_of_nat opcode]"

definition push_data :: "valtype \<Rightarrow> script" where
  "push_data b =
     (if length b < OP_PUSHDATA1 then [word_of_nat (length b)] @ b
      else if length b \<le> 0xff then [word_of_nat OP_PUSHDATA1, word_of_nat (length b)] @ b
      else if length b \<le> 0xffff then [word_of_nat OP_PUSHDATA2] @ le_bytes 2 (length b) @ b
      else [word_of_nat OP_PUSHDATA4] @ le_bytes 4 (length b) @ b)"

definition push_int64 :: "int \<Rightarrow> script" where
  "push_int64 n =
     (if n = -1 \<or> (1 \<le> n \<and> n \<le> 16) then [word_of_int (n + (int OP_1 - 1))]
      else if n = 0 then [word_of_nat OP_0]
      else push_data (serialize n))"

text \<open>\<^verbatim>\<open>DecodeOP_N\<close> and \<^verbatim>\<open>EncodeOP_N\<close>; \<open>None\<close> is the failing assertion.\<close>

definition DecodeOP_N :: "opcodetype \<Rightarrow> nat option" where
  "DecodeOP_N opcode =
     (if opcode = OP_0 then Some 0
      else if OP_1 \<le> opcode \<and> opcode \<le> OP_16 then Some (opcode - (OP_1 - 1)) else None)"

definition EncodeOP_N :: "int \<Rightarrow> opcodetype option" where
  "EncodeOP_N n =
     (if 0 \<le> n \<and> n \<le> 16 then (if n = 0 then Some OP_0 else Some (OP_1 + nat n - 1)) else None)"

section \<open>Reading a script\<close>

definition push_size :: "opcodetype \<Rightarrow> bytes \<Rightarrow> (nat \<times> bytes) option" where
  "push_size opcode pc =
     (if opcode < OP_PUSHDATA1 then Some (opcode, pc)
      else if opcode = OP_PUSHDATA1
      then (if length pc < 1 then None else Some (unat (hd pc), tl pc))
      else if opcode = OP_PUSHDATA2
      then (if length pc < 2 then None else Some (le_val (take 2 pc), drop 2 pc))
      else (if length pc < 4 then None else Some (le_val (take 4 pc), drop 4 pc)))"

text \<open>
  \<^verbatim>\<open>GetOp2\<close>: whether it succeeded, the opcode, the data pushed and the iterator it leaves. On
  failure the opcode is \<^verbatim>\<open>OP_INVALIDOPCODE\<close>, the data are empty and the iterator stands where the
  code stopped reading.
\<close>

fun GetOp2 :: "bytes \<Rightarrow> bool \<times> opcodetype \<times> valtype \<times> bytes" where
  "GetOp2 [] = (False, OP_INVALIDOPCODE, [], [])"
| "GetOp2 (b # pc) =
     (let opcode = unat b
      in if opcode \<le> OP_PUSHDATA4
         then (case push_size opcode pc of
                 None \<Rightarrow> (False, OP_INVALIDOPCODE, [], pc)
               | Some (nSize, pc1) \<Rightarrow>
                   if length pc1 < nSize then (False, OP_INVALIDOPCODE, [], pc1)
                   else (True, opcode, take nSize pc1, drop nSize pc1))
         else (True, opcode, [], pc))"

lemma push_size_length: "push_size opcode pc = Some (n, pc1) \<Longrightarrow> length pc1 \<le> length pc"
  by (auto simp: push_size_def split: if_splits)

lemma GetOp2_shrinks: "GetOp2 s = (ok, opcode, data, rest) \<Longrightarrow> s \<noteq> [] \<Longrightarrow> length rest < length s"
  by (cases s) (auto simp: Let_def split: if_splits option.splits dest!: push_size_length)

lemma GetOp2_True_nonempty: "GetOp2 s = (True, opcode, data, rest) \<Longrightarrow> s \<noteq> []"
  by auto

lemma GetOp2_ok_shrinks: "GetOp2 s = (True, opcode, data, rest) \<Longrightarrow> length rest < length s"
  using GetOp2_shrinks GetOp2_True_nonempty by metis

section \<open>Searching and counting\<close>

text \<open>The inner loop of \<^verbatim>\<open>FindAndDelete\<close>: erase \<^verbatim>\<open>b\<close> as long as it stands at the iterator.\<close>

function fad_strip :: "bytes \<Rightarrow> bytes \<Rightarrow> nat \<times> bytes" where
  "fad_strip b pc =
     (if b \<noteq> [] \<and> length b \<le> length pc \<and> take (length b) pc = b
      then (case fad_strip b (drop (length b) pc) of (n, out) \<Rightarrow> (Suc n, out))
      else (0, pc))"
  by pat_completeness auto
termination
proof (relation "measure (\<lambda>(b, pc). length pc)")
  fix b pc :: bytes
  assume "b \<noteq> [] \<and> length b \<le> length pc \<and> take (length b) pc = b"
  then have "0 < length b" and "length b \<le> length pc" by auto
  then have "length pc - length b < length pc" by linarith
  then show "((b, drop (length b) pc), (b, pc)) \<in> measure (\<lambda>(b, pc). length pc)" by simp
qed simp

declare fad_strip.simps [simp del]

lemma fad_strip_length: "length (snd (fad_strip b pc)) \<le> length pc"
proof (induction b pc rule: fad_strip.induct)
  case (1 b pc)
  then show ?case by (subst fad_strip.simps) (auto split: prod.splits)
qed

text \<open>The \<^verbatim>\<open>do .. while (GetOp(pc, opcode))\<close> loop; the bytes already passed are kept.\<close>

function fad_loop :: "bytes \<Rightarrow> bytes \<Rightarrow> nat \<times> bytes" where
  "fad_loop b pc =
     (case fad_strip b pc of (n, pc1) \<Rightarrow>
       (case GetOp2 pc1 of (ok, opcode, data, rest) \<Rightarrow>
         if ok
         then (case fad_loop b rest of (m, out) \<Rightarrow>
                 (n + m, take (length pc1 - length rest) pc1 @ out))
         else (n, pc1)))"
  by pat_completeness auto
termination
proof (relation "measure (\<lambda>(b, pc). length pc)")
  fix b pc n and pc1 :: bytes and ok z opcode w data rest
  assume *: "(n, pc1) = fad_strip b pc" "(ok, z) = GetOp2 pc1" "(opcode, w) = z"
    "(data, rest) = w" "ok"
  then have "GetOp2 pc1 = (True, opcode, data, rest)" by (metis (full_types))
  then have "length rest < length pc1" by (rule GetOp2_ok_shrinks)
  moreover have "length pc1 \<le> length pc"
    using fad_strip_length [of b pc] *(1) by (metis snd_conv)
  ultimately show "((b, rest), (b, pc)) \<in> measure (\<lambda>(b, pc). length pc)" by simp
qed simp

declare fad_loop.simps [simp del]

definition FindAndDelete :: "script \<Rightarrow> script \<Rightarrow> nat \<times> script" where
  "FindAndDelete s b = (if b = [] then (0, s) else fad_loop b s)"

function Find :: "script \<Rightarrow> opcodetype \<Rightarrow> nat" where
  "Find pc op =
     (if pc = [] then 0
      else case GetOp2 pc of (ok, opcode, data, rest) \<Rightarrow>
        if \<not> ok then 0 else (if opcode = op then 1 else 0) + Find rest op)"
  by pat_completeness auto
termination by (relation "measure (\<lambda>(pc, op). length pc)") (auto dest: GetOp2_shrinks [OF sym])

declare Find.simps [simp del]

function sigops_loop :: "bool \<Rightarrow> bytes \<Rightarrow> opcodetype \<Rightarrow> nat \<Rightarrow> nat" where
  "sigops_loop fAccurate pc lastOpcode n =
     (if pc = [] then n
      else case GetOp2 pc of (ok, opcode, data, rest) \<Rightarrow>
        if \<not> ok then n
        else sigops_loop fAccurate rest opcode
          (if opcode = OP_CHECKSIG \<or> opcode = OP_CHECKSIGVERIFY then n + 1
           else if opcode = OP_CHECKMULTISIG \<or> opcode = OP_CHECKMULTISIGVERIFY
           then (if fAccurate \<and> OP_1 \<le> lastOpcode \<and> lastOpcode \<le> OP_16
                 then n + the (DecodeOP_N lastOpcode) else n + 20)
           else n))"
  by pat_completeness auto
termination
  by (relation "measure (\<lambda>(f, pc, l, n). length pc)") (auto dest: GetOp2_shrinks [OF sym])

declare sigops_loop.simps [simp del]

definition GetSigOpCount :: "script \<Rightarrow> bool \<Rightarrow> nat" where
  "GetSigOpCount s fAccurate = sigops_loop fAccurate s OP_INVALIDOPCODE 0"

section \<open>Recognising scripts\<close>

text \<open>
  \<^verbatim>\<open>IsNormalPaymentScript\<close> ignores the result of \<^verbatim>\<open>GetOp\<close>: after a failed read the opcode is
  \<^verbatim>\<open>OP_INVALIDOPCODE\<close> and the loop goes on from where the read stopped.
\<close>

function normal_loop :: "bytes \<Rightarrow> nat \<Rightarrow> bool" where
  "normal_loop pc i =
     (if pc = [] then True
      else case GetOp2 pc of (ok, opcode, data, rest) \<Rightarrow>
        if i = 0 \<and> opcode \<noteq> OP_DUP then False
        else if i = 1 \<and> opcode \<noteq> OP_HASH160 then False
        else if i = 3 \<and> opcode \<noteq> OP_EQUALVERIFY then False
        else if i = 4 \<and> opcode \<noteq> OP_CHECKSIG then False
        else if i = 5 then False
        else normal_loop rest (i + 1))"
  by pat_completeness auto
termination by (relation "measure (\<lambda>(pc, i). length pc)") (auto dest: GetOp2_shrinks [OF sym])

declare normal_loop.simps [simp del]

definition IsNormalPaymentScript :: "script \<Rightarrow> bool" where
  "IsNormalPaymentScript s = (if length s \<noteq> 25 then False else normal_loop s 0)"

definition IsPayToScriptHash :: "script \<Rightarrow> bool" where
  "IsPayToScriptHash s \<longleftrightarrow>
     length s = 23 \<and> unat (s ! 0) = OP_HASH160 \<and> s ! 1 = 0x14 \<and> unat (s ! 22) = OP_EQUAL"

definition IsZerocoinMint :: "script \<Rightarrow> bool" where
  "IsZerocoinMint s \<longleftrightarrow> 0 < length s \<and> unat (s ! 0) = OP_ZEROCOINMINT"

definition IsZerocoinSpend :: "script \<Rightarrow> bool" where
  "IsZerocoinSpend s = (if s = [] then False else unat (s ! 0) = OP_ZEROCOINSPEND)"

function IsPushOnly :: "bytes \<Rightarrow> bool" where
  "IsPushOnly pc =
     (if pc = [] then True
      else case GetOp2 pc of (ok, opcode, data, rest) \<Rightarrow>
        if \<not> ok then False else if OP_16 < opcode then False else IsPushOnly rest)"
  by pat_completeness auto
termination by (relation "measure length") (auto dest: GetOp2_shrinks [OF sym])

declare IsPushOnly.simps [simp del]

definition IsUnspendable :: "script \<Rightarrow> bool" where
  "IsUnspendable s \<longleftrightarrow> 0 < length s \<and> unat (hd s) = OP_RETURN"

text \<open>The last data a push-only script pushes; \<open>None\<close> where the loop returns 0.\<close>

function last_push :: "bytes \<Rightarrow> valtype \<Rightarrow> valtype option" where
  "last_push pc data =
     (if pc = [] then Some data
      else case GetOp2 pc of (ok, opcode, data', rest) \<Rightarrow>
        if \<not> ok then None else if OP_16 < opcode then None else last_push rest data')"
  by pat_completeness auto
termination by (relation "measure (\<lambda>(pc, data). length pc)") (auto dest: GetOp2_shrinks [OF sym])

declare last_push.simps [simp del]

definition GetSigOpCount_P2SH :: "script \<Rightarrow> script \<Rightarrow> nat" where
  "GetSigOpCount_P2SH s scriptSig =
     (if \<not> IsPayToScriptHash s then GetSigOpCount s True
      else case last_push scriptSig [] of
             None \<Rightarrow> 0
           | Some data \<Rightarrow> GetSigOpCount data True)"

end
