(* ===== verification/ScriptText.thy ===== *)
theory ScriptText
  imports Script
begin

text \<open>
  Names of the opcodes and the text of a script (\<^verbatim>\<open>src/src/script/script.cpp\<close>): the table of
  \<^verbatim>\<open>GetOpName\<close> and \<^verbatim>\<open>CScript::ToString\<close>, with the decimal and hexadecimal printing it uses.
\<close>

definition op_names :: "(opcodetype \<times> string) list" where
  "op_names =
  [
   (OP_0, ''0''), (OP_PUSHDATA1, ''OP_PUSHDATA1''),
   (OP_PUSHDATA2, ''OP_PUSHDATA2''), (OP_PUSHDATA4, ''OP_PUSHDATA4''),
   (OP_1NEGATE, ''-1''), (OP_RESERVED, ''OP_RESERVED''),
   (OP_1, ''1''), (OP_2, ''2''),
   (OP_3, ''3''), (OP_4, ''4''),
   (OP_5, ''5''), (OP_6, ''6''),
   (OP_7, ''7''), (OP_8, ''8''),
   (OP_9, ''9''), (OP_10, ''10''),
   (OP_11, ''11''), (OP_12, ''12''),
   (OP_13, ''13''), (OP_14, ''14''),
   (OP_15, ''15''), (OP_16, ''16''),
   (OP_NOP, ''OP_NOP''), (OP_VER, ''OP_VER''),
   (OP_IF, ''OP_IF''), (OP_NOTIF, ''OP_NOTIF''),
   (OP_VERIF, ''OP_VERIF''), (OP_VERNOTIF, ''OP_VERNOTIF''),
   (OP_ELSE, ''OP_ELSE''), (OP_ENDIF, ''OP_ENDIF''),
   (OP_VERIFY, ''OP_VERIFY''), (OP_RETURN, ''OP_RETURN''),
   (OP_TOALTSTACK, ''OP_TOALTSTACK''), (OP_FROMALTSTACK, ''OP_FROMALTSTACK''),
   (OP_2DROP, ''OP_2DROP''), (OP_2DUP, ''OP_2DUP''),
   (OP_3DUP, ''OP_3DUP''), (OP_2OVER, ''OP_2OVER''),
   (OP_2ROT, ''OP_2ROT''), (OP_2SWAP, ''OP_2SWAP''),
   (OP_IFDUP, ''OP_IFDUP''), (OP_DEPTH, ''OP_DEPTH''),
   (OP_DROP, ''OP_DROP''), (OP_DUP, ''OP_DUP''),
   (OP_NIP, ''OP_NIP''), (OP_OVER, ''OP_OVER''),
   (OP_PICK, ''OP_PICK''), (OP_ROLL, ''OP_ROLL''),
   (OP_ROT, ''OP_ROT''), (OP_SWAP, ''OP_SWAP''),
   (OP_TUCK, ''OP_TUCK''), (OP_CAT, ''OP_CAT''),
   (OP_SUBSTR, ''OP_SUBSTR''), (OP_LEFT, ''OP_LEFT''),
   (OP_RIGHT, ''OP_RIGHT''), (OP_SIZE, ''OP_SIZE''),
   (OP_INVERT, ''OP_INVERT''), (OP_AND, ''OP_AND''),
   (OP_OR, ''OP_OR''), (OP_XOR, ''OP_XOR''),
   (OP_EQUAL, ''OP_EQUAL''), (OP_EQUALVERIFY, ''OP_EQUALVERIFY''),
   (OP_RESERVED1, ''OP_RESERVED1''), (OP_RESERVED2, ''OP_RESERVED2''),
   (OP_1ADD, ''OP_1ADD''), (OP_1SUB, ''OP_1SUB''),
   (OP_2MUL, ''OP_2MUL''), (OP_2DIV, ''OP_2DIV''),
   (OP_NEGATE, ''OP_NEGATE''), (OP_ABS, ''OP_ABS''),
   (OP_NOT, ''OP_NOT''), (OP_0NOTEQUAL, ''OP_0NOTEQUAL''),
   (OP_ADD, ''OP_ADD''), (OP_SUB, ''OP_SUB''),
   (OP_MUL, ''OP_MUL''), (OP_DIV, ''OP_DIV''),
   (OP_MOD, ''OP_MOD''), (OP_LSHIFT, ''OP_LSHIFT''),
   (OP_RSHIFT, ''OP_RSHIFT''), (OP_BOOLAND, ''OP_BOOLAND''),
   (OP_BOOLOR, ''OP_BOOLOR''), (OP_NUMEQUAL, ''OP_NUMEQUAL''),
   (OP_NUMEQUALVERIFY, ''OP_NUMEQUALVERIFY''), (OP_NUMNOTEQUAL, ''OP_NUMNOTEQUAL''),
   (OP_LESSTHAN, ''OP_LESSTHAN''), (OP_GREATERTHAN, ''OP_GREATERTHAN''),
   (OP_LESSTHANOREQUAL, ''OP_LESSTHANOREQUAL''), (OP_GREATERTHANOREQUAL, ''OP_GREATERTHANOREQUAL''),
   (OP_MIN, ''OP_MIN''), (OP_MAX, ''OP_MAX''),
   (OP_WITHIN, ''OP_WITHIN''), (OP_RIPEMD160, ''OP_RIPEMD160''),
   (OP_SHA1, ''OP_SHA1''), (OP_SHA256, ''OP_SHA256''),
   (OP_HASH160, ''OP_HASH160''), (OP_HASH256, ''OP_HASH256''),
   (OP_CODESEPARATOR, ''OP_CODESEPARATOR''), (OP_CHECKSIG, ''OP_CHECKSIG''),
   (OP_CHECKSIGVERIFY, ''OP_CHECKSIGVERIFY''), (OP_CHECKMULTISIG, ''OP_CHECKMULTISIG''),
   (OP_CHECKMULTISIGVERIFY, ''OP_CHECKMULTISIGVERIFY''), (OP_NOP1, ''OP_NOP1''),
   (OP_NOP2, ''OP_NOP2''), (OP_NOP3, ''OP_NOP3''),
   (OP_NOP4, ''OP_NOP4''), (OP_NOP5, ''OP_NOP5''),
   (OP_NOP6, ''OP_NOP6''), (OP_NOP7, ''OP_NOP7''),
   (OP_NOP8, ''OP_NOP8''), (OP_NOP9, ''OP_NOP9''),
   (OP_NOP10, ''OP_NOP10''), (OP_ZEROCOINMINT, ''OP_ZEROCOINMINT''),
   (OP_ZEROCOINSPEND, ''OP_ZEROCOINSPEND''), (OP_INVALIDOPCODE, ''OP_INVALIDOPCODE'')]"

text \<open>The \<^verbatim>\<open>switch\<close> of \<^verbatim>\<open>GetOpName\<close>; an opcode it does not list is the default case.\<close>

definition GetOpName :: "opcodetype \<Rightarrow> string" where
  "GetOpName opcode = (case map_of op_names opcode of Some s \<Rightarrow> s | None \<Rightarrow> ''OP_UNKNOWN'')"

text \<open>\<^verbatim>\<open>%d\<close> of an \<^verbatim>\<open>int\<close>, and \<^verbatim>\<open>HexStr\<close>.\<close>

fun dec_digits :: "nat \<Rightarrow> string" where
  "dec_digits n = (if n < 10 then [char_of (48 + n)] else dec_digits (n div 10) @ [char_of (48 + n mod 10)])"

declare dec_digits.simps [simp del]

definition print_int :: "int \<Rightarrow> string" where
  "print_int i = (if i < 0 then CHR ''-'' # dec_digits (nat (- i)) else dec_digits (nat i))"

definition hexmap :: string where
  "hexmap = ''0123456789abcdef''"

definition HexStr :: "bytes \<Rightarrow> string" where
  "HexStr vch = concat (map (\<lambda>val. [hexmap ! unat (drop_bit 4 val), hexmap ! unat (val AND 15)]) vch)"

definition ValueString :: "valtype \<Rightarrow> string" where
  "ValueString vch =
     (if length vch \<le> 4
      then (case CScriptNum vch False 4 of Some n \<Rightarrow> print_int (getint n) | None \<Rightarrow> [])
      else HexStr vch)"

function ToString_loop :: "bytes \<Rightarrow> string \<Rightarrow> string" where
  "ToString_loop pc str =
     (if pc = [] then str
      else let str1 = (if str \<noteq> [] then str @ '' '' else str)
           in case GetOp2 pc of (ok, opcode, vch, rest) \<Rightarrow>
                if \<not> ok then str1 @ ''[error]''
                else if opcode \<le> OP_PUSHDATA4 then ToString_loop rest (str1 @ ValueString vch)
                else if opcode = OP_ZEROCOINSPEND then str1 @ GetOpName opcode
                else ToString_loop rest (str1 @ GetOpName opcode))"
  by pat_completeness auto
termination
  by (relation "measure (\<lambda>(pc, str). length pc)") (auto dest: GetOp2_shrinks [OF sym])

declare ToString_loop.simps [simp del]

definition ToString :: "script \<Rightarrow> string" where
  "ToString s = ToString_loop s []"

end
