(* ===== verification/ScriptNum.thy ===== *)
theory ScriptNum
  imports Script
begin

text \<open>
  The number coding of scripts: \<^verbatim>\<open>CScriptNum::serialize\<close> and \<^verbatim>\<open>set_vch\<close>
  (\<^verbatim>\<open>src/src/script/script.h\<close>) as sign and magnitude. \<open>vch_mag\<close> is the magnitude a byte string
  stands for, \<open>minimal_vch\<close> the minimality the constructor checks; serialising always gives a
  minimal string, and the two functions are inverse to each other between the integers and the
  minimal strings.
\<close>

lemma le_val_snoc: "le_val (xs @ [b]) = le_val xs + 256 ^ length xs * unat b"
  by (simp add: le_val_append)

lemma set_vch_loop_val:
  "0 \<le> r \<Longrightarrow> r < 2 ^ (8 * i) \<Longrightarrow> set_vch_loop i r bs = r + 2 ^ (8 * i) * int (le_val bs)"
proof (induction bs arbitrary: i r)
  case (Cons b bs)
  have e: "r OR push_bit (8 * i) (uint b) = r + 2 ^ (8 * i) * uint b"
    using Cons.prems by (simp add: concat_bit_add)
  have "uint b \<le> 255" using unsigned_less [of b, where ?'a = int] by simp
  then have "2 ^ (8 * i) * uint b \<le> 2 ^ (8 * i) * (255::int)" by (rule mult_left_mono) simp
  moreover have p: "2 ^ (8 * Suc i) = 256 * (2::int) ^ (8 * i)" by (simp add: power_add)
  ultimately have "r + 2 ^ (8 * i) * uint b < 2 ^ (8 * Suc i)"
    using Cons.prems by linarith
  then have "set_vch_loop (Suc i) (r + 2 ^ (8 * i) * uint b) bs
    = r + 2 ^ (8 * i) * uint b + 2 ^ (8 * Suc i) * int (le_val bs)"
    using Cons.prems by (intro Cons.IH) simp
  then show ?case by (simp only: set_vch_loop.simps e p le_val.simps) (simp add: algebra_simps)
qed simp

definition vch_mag :: "valtype \<Rightarrow> nat" where
  "vch_mag vch = le_val (butlast vch @ [last vch AND 0x7f])"

lemma set_vch_eq: "vch \<noteq> [] \<Longrightarrow>
  set_vch vch = (if 128 \<le> unat (last vch) then - int (vch_mag vch) else int (vch_mag vch))"
proof -
  assume ne: "vch \<noteq> []"
  define low where "low = butlast vch"
  define b where "b = last vch"
  define n where "n = length low"
  have v: "vch = low @ [b]" using ne by (simp add: low_def b_def)
  have 1: "set_vch_loop 0 0 vch = int (le_val low + 256 ^ n * unat b)"
    using set_vch_loop_val [of 0 0 vch] by (simp add: v le_val_snoc n_def)
  have p: "(256::nat) ^ n = 2 ^ (8 * n)" by (simp add: power_mult)
  show ?thesis
  proof (cases "128 \<le> unat b")
    case False
    then show ?thesis using 1
      by (simp add: set_vch_def v byte_high_iff vch_mag_def unat_and_7f le_val_snoc n_def [symmetric])
  next
    case True
    have "unat b mod 128 = unat b - 128" using True unat_byte_lt [of b]
      by (subst le_mod_geq) (simp_all add: less_diff_conv2)
    then have b: "unat b = unat b mod 128 + 128" using True by simp
    define x where "x = le_val low + 256 ^ n * (unat b mod 128)"
    have "le_val low < 256 ^ n" using le_val_lt by (simp add: n_def)
    moreover have "256 ^ n * (unat b mod 128) \<le> 256 ^ n * (127 :: nat)"
      by (intro mult_le_mono2) (simp add: less_Suc_eq_le [symmetric])
    ultimately have "x < 256 ^ n * 128" unfolding x_def by linarith
    then have "x < 2 ^ (8 * n + 7)" by (simp add: p power_add)
    then have lt: "int x < 2 ^ (8 * n + 7)" by (metis of_nat_less_numeral_power_cancel_iff)
    have "int (le_val low + 256 ^ n * unat b) = int x + 2 ^ (8 * n + 7)"
      by (subst b) (simp add: x_def p power_add algebra_simps)
    moreover have "push_bit (8 * n) 0x80 = push_bit (8 * n + 7) (1::int)"
      by (simp add: push_bit_eq_mult power_add)
    ultimately have "set_vch_loop 0 0 vch AND NOT (push_bit (8 * n) 0x80) = int x"
      using 1 lt clear_top [of "int x" "8 * n + 7"] by simp
    then show ?thesis using True
      by (simp add: set_vch_def v byte_high_iff vch_mag_def unat_and_7f le_val_snoc n_def [symmetric] x_def)
  qed
qed

lemma le_val_le_digits: "le_val (le_digits n) = n"
proof (induction n rule: less_induct)
  case (less n)
  show ?case using less [of "n div 256"] le_digits.simps [of n] by (cases "n = 0") simp_all
qed

lemma le_digits_Nil_iff [simp]: "le_digits n = [] \<longleftrightarrow> n = 0"
  by (simp add: le_digits.simps [of n])

lemma last_le_digits: "n \<noteq> 0 \<Longrightarrow> last (le_digits n) \<noteq> 0"
proof (induction n rule: less_induct)
  case (less n)
  show ?case
  proof (cases "n div 256 = 0")
    case True
    then have "n < 256" by (simp add: div_eq_0_iff)
    then have "word_of_nat n \<noteq> (0::byte)" using less.prems
      by (metis unat_byte_of_nat mod_less unsigned_0)
    then show ?thesis using True less.prems \<open>n < 256\<close> le_digits.simps [of n] by simp
  next
    case False
    then show ?thesis using less.IH [of "n div 256"] less.prems le_digits.simps [of n] by simp
  qed
qed

lemma le_val_nonzero: "xs \<noteq> [] \<Longrightarrow> last xs \<noteq> 0 \<Longrightarrow> le_val xs \<noteq> 0"
  by (induction xs) (auto simp: unat_eq_0 split: if_splits)

lemma le_digits_le_val: "(xs \<noteq> [] \<Longrightarrow> last xs \<noteq> 0) \<Longrightarrow> le_digits (le_val xs) = xs"
proof (induction xs)
  case Nil
  then show ?case by simp
next
  case (Cons b bs)
  then have "le_digits (le_val bs) = bs" by (auto split: if_splits)
  moreover have "le_val (b # bs) \<noteq> 0" using Cons.prems le_val_nonzero [of "b # bs"] by simp
  ultimately show ?case by (subst le_digits.simps) simp
qed


lemma vch_cases:
  assumes "vch \<noteq> []"
  obtains low b where "vch = low @ [b]"
  using assms by (metis append_butlast_last_id)

lemma unat_word_80 [simp]: "unat (0x80::byte) = 128" by simp

lemma serialize_pos: "0 < n \<Longrightarrow> serialize (int n) =
   (if 128 \<le> unat (last (le_digits n)) then le_digits n @ [0] else le_digits n)"
  by (simp add: serialize_def Let_def byte_high_iff)

lemma serialize_neg: "0 < n \<Longrightarrow> serialize (- int n) =
   (if 128 \<le> unat (last (le_digits n)) then le_digits n @ [0x80]
    else butlast (le_digits n) @ [last (le_digits n) OR 0x80])"
  by (simp add: serialize_def Let_def byte_high_iff)

definition minimal_vch :: "valtype \<Rightarrow> bool" where
  "minimal_vch vch \<longleftrightarrow>
     vch = [] \<or> last vch AND 0x7f \<noteq> 0 \<or> (1 < length vch \<and> 128 \<le> unat (vch ! (length vch - 2)))"

lemma CScriptNum_True: "CScriptNum vch True n = Some v \<longleftrightarrow> length vch \<le> n \<and> minimal_vch vch \<and> v = set_vch vch"
  using byte_high_iff [of "vch ! (length vch - 2)"]
  by (auto simp: CScriptNum_def minimal_vch_def)

lemma nth_penult: "xs \<noteq> [] \<Longrightarrow> (xs @ [b]) ! (length (xs @ [b]) - 2) = last xs"
  by (simp add: nth_append last_conv_nth)

lemma serialize_minimal: "minimal_vch (serialize v)"
proof (cases "v = 0")
  case True then show ?thesis by (simp add: minimal_vch_def serialize_def)
next
  case False
  define n where "n = nat \<bar>v\<bar>"
  define ds where "ds = le_digits n"
  have n: "0 < n" "v = int n \<or> v = - int n" using False by (auto simp: n_def)
  have ds: "ds \<noteq> []" "last ds \<noteq> 0" using n last_le_digits by (auto simp: ds_def)
  have 1: "last ds AND 0x7f \<noteq> 0" if "unat (last ds) < 128"
  proof -
    have "unat (last ds AND 0x7f) = unat (last ds)" using that by (simp add: unat_and_7f)
    then show ?thesis using ds(2) by (metis unat_0 word_unat_eq_iff)
  qed
  have 2: "(b OR 0x80) AND 0x7f \<noteq> 0" if "unat b < 128" "b \<noteq> 0" for b :: byte
  proof -
    have "unat ((b OR 0x80) AND 0x7f) = unat b" using that by (simp add: unat_and_7f unat_or_80)
    then show ?thesis using that(2) by (metis unat_0 word_unat_eq_iff)
  qed
  from n(2) show ?thesis
    using n(1) ds 1 2 [of "last ds"] nth_penult [OF ds(1)]
    by (elim disjE) (simp_all add: serialize_pos serialize_neg minimal_vch_def ds_def [symmetric])
qed

lemma set_vch_serialize: "set_vch (serialize v) = v"
proof (cases "v = 0")
  case True then show ?thesis by (simp add: set_vch_def serialize_def)
next
  case False
  define n where "n = nat \<bar>v\<bar>"
  define ds where "ds = le_digits n"
  have n: "0 < n" "v = int n \<or> v = - int n" using False by (auto simp: n_def)
  have ds: "ds \<noteq> []" using n by (auto simp: ds_def)
  have val: "le_val ds = n" by (simp add: ds_def le_val_le_digits)
  obtain low b where lb: "ds = low @ [b]" using ds by (rule vch_cases)
  have 1: "vch_mag ds = n" if "unat b < 128"
    using val that by (simp add: vch_mag_def lb le_val_snoc unat_and_7f)
  have 2: "vch_mag (low @ [b OR 0x80]) = n" if "unat b < 128"
    using val that by (simp add: vch_mag_def lb le_val_snoc unat_and_7f unat_or_80)
  have 3: "vch_mag (ds @ [0]) = n" "vch_mag (ds @ [0x80]) = n"
    using val by (simp_all add: vch_mag_def le_val_snoc unat_and_7f)
  from n(2) show ?thesis
    using n(1) ds 1 2 3
    by (elim disjE) (auto simp: serialize_pos serialize_neg set_vch_eq ds_def [symmetric] lb unat_or_80)
qed

lemma serialize_set_vch: "minimal_vch vch \<Longrightarrow> serialize (set_vch vch) = vch"
proof (cases "vch = []")
  case True then show ?thesis by (simp add: set_vch_def serialize_def)
next
  case False
  assume m: "minimal_vch vch"
  obtain low b where lb: "vch = low @ [b]" using False by (rule vch_cases)
  show ?thesis
  proof (cases "b AND 0x7f = 0")
    case True
    then have "low \<noteq> []" and hi: "128 \<le> unat (last low)"
      using m nth_penult [of low b] by (auto simp: minimal_vch_def lb) 
    then have d: "le_digits (le_val low) = low" by (auto intro!: le_digits_le_val)
    have "last low \<noteq> 0" using hi by auto
    then have pos: "0 < le_val low" using \<open>low \<noteq> []\<close> le_val_nonzero [of low] by simp
    have "vch_mag vch = le_val low" using True by (simp add: vch_mag_def lb le_val_snoc)
    moreover have "b = (if 128 \<le> unat b then 0x80 else 0)"
    proof -
      have "unat b mod 128 = 0" using True by (metis unat_and_7f unat_0)
      then have "unat b = 0 \<or> unat b = 128" using unat_byte_lt [of b] by presburger
      then show ?thesis by (metis unat_0 unat_word_80 word_unat_eq_iff not_numeral_le_zero le_refl)
    qed
    ultimately show ?thesis using pos hi d
      by (auto simp: set_vch_eq lb serialize_pos serialize_neg)
  next
    case False
    define t where "t = b AND 0x7f"
    have t: "unat t < 128" "t \<noteq> 0" using False by (simp_all add: t_def unat_and_7f)
    have d: "le_digits (le_val (low @ [t])) = low @ [t]" using t by (intro le_digits_le_val) simp
    have pos: "0 < le_val (low @ [t])" using t le_val_nonzero [of "low @ [t]"] by simp
    have mag: "vch_mag vch = le_val (low @ [t])" by (simp add: vch_mag_def lb t_def)
    have tb: "unat t = (if 128 \<le> unat b then unat b - 128 else unat b)"
      using mod_128 [OF unat_byte_lt [of b]] by (simp only: t_def unat_and_7f)
    then have hi: "unat t + 128 = unat b" if "128 \<le> unat b" using that by simp
    have lo: "unat t = unat b" if "unat b < 128" using that tb by simp
    show ?thesis
    proof (cases "128 \<le> unat b")
      case True
      then have "t OR 0x80 = b" using hi t(1) by (metis unat_or_80 word_unat_eq_iff)
      then show ?thesis using True t pos d mag by (simp add: set_vch_eq lb serialize_neg)
    next
      case False
      then have "t = b" using lo by (metis not_less word_unat_eq_iff)
      then show ?thesis using False t pos d mag by (simp add: set_vch_eq lb serialize_pos)
    qed
  qed
qed

section \<open>Sizes\<close>

lemma length_le_digits: "n < 256 ^ k \<Longrightarrow> length (le_digits n) \<le> k"
proof (induction k arbitrary: n)
  case (Suc k)
  then have "length (le_digits (n div 256)) \<le> k" by (simp add: less_mult_imp_div_less mult.commute)
  then show ?case using le_digits.simps [of n] by (cases "n = 0") simp_all
qed (simp add: le_digits.simps)

lemma length_serialize: "\<bar>v\<bar> < 256 ^ k \<Longrightarrow> length (serialize v) \<le> Suc k"
proof -
  assume a: "\<bar>v\<bar> < 256 ^ k"
  have "nat \<bar>v\<bar> < 256 ^ k" using a by (simp add: nat_less_iff)
  then have "length (le_digits (nat \<bar>v\<bar>)) \<le> k" by (rule length_le_digits)
  then show ?thesis by (auto simp: serialize_def Let_def abs_if split: if_splits)
qed

lemma abs_set_vch_less: "\<bar>set_vch vch\<bar> < 256 ^ length vch"
proof (cases "vch = []")
  case False
  then have "length (butlast vch @ [last vch AND 0x7f]) = length vch" by simp
  then have "vch_mag vch < 256 ^ length vch" by (metis le_val_lt vch_mag_def)
  then have "int (vch_mag vch) < 256 ^ length vch" by (metis of_nat_less_iff of_nat_numeral of_nat_power)
  then show ?thesis using False by (auto simp: set_vch_eq)
qed (simp add: set_vch_def)

lemma abs_CScriptNum_less: "CScriptNum vch m n = Some v \<Longrightarrow> \<bar>v\<bar> < 256 ^ n"
proof -
  assume "CScriptNum vch m n = Some v"
  then have "v = set_vch vch" and "length vch \<le> n" by (auto simp: CScriptNum_def split: if_splits)
  then have "\<bar>v\<bar> < 256 ^ length vch" and "(256::int) ^ length vch \<le> 256 ^ n"
    using abs_set_vch_less by simp_all
  then show ?thesis by linarith
qed

end
