(* ===== verification/ScriptOps.thy ===== *)
theory ScriptOps
  imports ScriptNum
begin

text \<open>
  What the readers and editors of scripts in \<^verbatim>\<open>src/src/script/script.h\<close> and \<^verbatim>\<open>script.cpp\<close> do, over
  the list of a script's operations: \<^verbatim>\<open>GetOp\<close> reads back what \<^verbatim>\<open>operator<<\<close> wrote,
  \<^verbatim>\<open>FindAndDelete\<close> removes the operations equal to a data push and nothing else, signature
  operations are counted less or equally when counted accurately, and the template test for
  pay-to-script-hash recognises exactly its form.
\<close>

section \<open>One operation\<close>

lemma push_size_append:
  assumes "push_size opcode pc = Some (n, pc1)"
  shows "push_size opcode (pc @ x) = Some (n, pc1 @ x)"
proof -
  have "\<not> length pc < 1 \<Longrightarrow> hd (pc @ x) = hd pc \<and> tl (pc @ x) = tl pc @ x" by (cases pc) auto
  then show ?thesis using assms by (auto simp: push_size_def simp del: One_nat_def split: if_splits)
qed

lemma GetOp2_append: "GetOp2 s = (True, opcode, data, rest) \<Longrightarrow> GetOp2 (s @ x) = (True, opcode, data, rest @ x)"
  by (cases s) (auto simp: Let_def split: if_splits option.splits dest: push_size_append [of _ _ _ _ x])

lemma push_size_drop:
  assumes "push_size opcode pc = Some (n, pc1)"
  shows "\<exists>c. pc = c @ pc1 \<and> push_size opcode c = Some (n, [])"
proof -
  define k where "k = length pc - length pc1"
  have "pc = take k pc @ pc1 \<and> push_size opcode (take k pc) = Some (n, [])"
  proof (cases "opcode = OP_PUSHDATA1")
    case True
    then show ?thesis using assms by (cases pc) (auto simp: push_size_def k_def)
  next
    case False
    then have "pc1 = drop k pc \<and> k = length pc - length pc1"
      using assms by (auto simp: push_size_def k_def split: if_splits)
    then show ?thesis using assms False
      by (auto simp: push_size_def k_def split: if_splits)
  qed
  then show ?thesis by blast
qed

lemma GetOp2_split: "GetOp2 s = (True, opcode, data, rest) \<Longrightarrow>
  \<exists>c. c \<noteq> [] \<and> s = c @ rest \<and> GetOp2 c = (True, opcode, data, [])"
proof (cases s)
  case (Cons b pc)
  assume a: "GetOp2 s = (True, opcode, data, rest)"
  show ?thesis
  proof (cases "unat b \<le> OP_PUSHDATA4")
    case True
    then obtain n pc1 where p: "push_size (unat b) pc = Some (n, pc1)" "n \<le> length pc1"
        and r: "opcode = unat b" "data = take n pc1" "rest = drop n pc1"
      using a Cons by (auto simp: Let_def split: option.splits if_splits)
    obtain c where c: "pc = c @ pc1" "push_size (unat b) c = Some (n, [])"
      using push_size_drop [OF p(1)] by auto
    then have "push_size (unat b) (c @ take n pc1) = Some (n, take n pc1)"
      using push_size_append [of _ c n "[]"] by simp
    then have "GetOp2 (b # c @ take n pc1) = (True, opcode, data, [])"
      using True p r by (simp add: Let_def)
    moreover have "s = (b # c @ take n pc1) @ rest" using Cons c r by simp
    ultimately show ?thesis by blast
  next
    case False
    then show ?thesis using a Cons by (intro exI [of _ "[b]"]) (auto simp: Let_def)
  qed
qed simp

lemma unat_push [simp]: "n < 256 \<Longrightarrow> unat (word_of_nat n :: byte) = n" by simp

lemma GetOp2_push_data:
  assumes "length v < 2 ^ 32"
  shows "\<exists>opcode \<le> OP_PUSHDATA4. GetOp2 (push_data v @ rest) = (True, opcode, v, rest)"
proof -
  have 2: "le_val (le_bytes 2 (length v)) = length v" if "length v \<le> 0xffff"
    using that by (simp add: le_val_le_bytes)
  have 4: "le_val (le_bytes 4 (length v)) = length v"
    using assms by (simp add: le_val_le_bytes)
  consider "length v < OP_PUSHDATA1" | "OP_PUSHDATA1 \<le> length v" "length v \<le> 0xff"
    | "0xff < length v" "length v \<le> 0xffff" | "0xffff < length v" by linarith
  then show ?thesis
    by cases (auto simp: push_data_def push_size_def Let_def 2 4)
qed

section \<open>The operations of a script\<close>

function ops_of :: "script \<Rightarrow> script list \<times> bytes" where
  "ops_of pc =
     (case GetOp2 pc of (ok, opcode, data, rest) \<Rightarrow>
        if ok then (case ops_of rest of (cs, t) \<Rightarrow> (take (length pc - length rest) pc # cs, t))
        else ([], pc))"
  by pat_completeness auto
termination
  by (relation "measure length") (auto dest: GetOp2_ok_shrinks [OF sym])

declare ops_of.simps [simp del]

lemma ops_of_step: "GetOp2 c = (True, opcode, data, []) \<Longrightarrow>
  ops_of (c @ rest) = (c # fst (ops_of rest), snd (ops_of rest))"
  using GetOp2_append [of c opcode data "[]" rest]
  by (subst ops_of.simps) (simp split: prod.splits)

lemma ops_of_fail: "\<not> fst (GetOp2 pc) \<Longrightarrow> ops_of pc = ([], pc)"
  by (subst ops_of.simps) (auto split: prod.splits)

lemma fad_strip_ops:
  assumes "GetOp2 b = (True, opcode, v, [])" and "fad_strip b pc = (n, pc1)"
  shows "ops_of pc = (replicate n b @ fst (ops_of pc1), snd (ops_of pc1)) \<and>
    take (length b) pc1 \<noteq> b"
  using assms
proof (induction b pc arbitrary: n pc1 rule: fad_strip.induct)
  case (1 b pc)
  have "b \<noteq> []" using "1.prems"(1) by auto
  show ?case
  proof (cases "length b \<le> length pc \<and> take (length b) pc = b")
    case True
    then obtain m where m: "fad_strip b (drop (length b) pc) = (m, pc1)" "n = Suc m"
      using "1.prems"(2) \<open>b \<noteq> []\<close> by (simp add: fad_strip.simps [of b pc] split: prod.splits)
    have IH: "ops_of (drop (length b) pc) = (replicate m b @ fst (ops_of pc1), snd (ops_of pc1)) \<and>
        take (length b) pc1 \<noteq> b"
      using "1.IH" True \<open>b \<noteq> []\<close> "1.prems"(1) m(1) by simp
    have "ops_of (b @ drop (length b) pc)
        = (b # fst (ops_of (drop (length b) pc)), snd (ops_of (drop (length b) pc)))"
      using "1.prems"(1) by (rule ops_of_step)
    moreover have "b @ drop (length b) pc = pc" using True by (metis append_take_drop_id)
    ultimately show ?thesis using IH m(2) by simp
  next
    case False
    then have "take (length b) pc \<noteq> b" by auto
    then show ?thesis using False "1.prems"(2) by (auto simp: fad_strip.simps [of b pc])
  qed
qed

lemma fad_loop_ops:
  assumes "GetOp2 b = (True, opcode, v, [])"
  shows "fad_loop b pc = (count_list (fst (ops_of pc)) b,
    concat (filter (\<lambda>c. c \<noteq> b) (fst (ops_of pc))) @ snd (ops_of pc))"
  using assms
proof (induction b pc rule: fad_loop.induct)
  case (1 b pc)
  obtain n pc1 where st: "fad_strip b pc = (n, pc1)" by fastforce
  obtain ok op d rest where g: "GetOp2 pc1 = (ok, op, d, rest)" by (cases "GetOp2 pc1") auto
  note ops = fad_strip_ops [OF "1.prems" st]
  have cnt: "count_list (replicate n b) b = n" by (induction n) auto
  show ?case
  proof (cases ok)
    case True
    then obtain c where c: "pc1 = c @ rest" "GetOp2 c = (True, op, d, [])"
      using GetOp2_split [of pc1 op d rest] g by auto
    then have step: "ops_of pc1 = (c # fst (ops_of rest), snd (ops_of rest))"
      by (simp add: ops_of_step)
    have "c \<noteq> b" using ops c(1) by auto
    have "fad_loop b rest = (count_list (fst (ops_of rest)) b,
      concat (filter (\<lambda>c. c \<noteq> b) (fst (ops_of rest))) @ snd (ops_of rest))"
      using "1.IH" [OF st [symmetric] g [symmetric] refl refl] True "1.prems" by simp
    then show ?thesis
      using ops step \<open>c \<noteq> b\<close> cnt g [unfolded c(1)] True
      by (simp add: fad_loop.simps [of b pc] st c(1))
  next
    case False
    then show ?thesis
      using ops ops_of_fail [of pc1] cnt by (simp add: fad_loop.simps [of b pc] st g)
  qed
qed

text \<open>Deleting a data push deletes exactly the operations that are that push, byte for byte.\<close>

lemma FindAndDelete_ops:
  assumes "length v < 2 ^ 32"
  shows "FindAndDelete s (push_data v) = (count_list (fst (ops_of s)) (push_data v),
    concat (filter (\<lambda>c. c \<noteq> push_data v) (fst (ops_of s))) @ snd (ops_of s))"
proof -
  obtain opcode where "GetOp2 (push_data v) = (True, opcode, v, [])"
    using GetOp2_push_data [OF assms, of "[]"] by auto
  moreover from this have "push_data v \<noteq> []" by auto
  ultimately show ?thesis by (simp add: FindAndDelete_def fad_loop_ops)
qed

lemma ops_of_concat: "concat (fst (ops_of s)) @ snd (ops_of s) = s"
proof (induction s rule: ops_of.induct)
  case (1 pc)
  obtain ok op d rest where g: "GetOp2 pc = (ok, op, d, rest)" by (cases "GetOp2 pc") auto
  show ?case
  proof (cases ok)
    case True
    then obtain c where c: "pc = c @ rest" "GetOp2 c = (True, op, d, [])"
      using GetOp2_split [of pc op d rest] g by auto
    then show ?thesis using 1 [OF g [symmetric] refl refl] True by (simp add: ops_of_step)
  qed (simp add: ops_of_fail g)
qed

section \<open>Signature operations\<close>

lemma sigops_loop_mono:
  "n \<le> m \<Longrightarrow> sigops_loop True pc l n \<le> sigops_loop False pc l m"
proof (induction True pc l n arbitrary: m rule: sigops_loop.induct)
  case (1 pc l n)
  obtain ok op d rest where g: "GetOp2 pc = (ok, op, d, rest)" by (cases "GetOp2 pc") auto
  show ?case
  proof (cases "pc = [] \<or> \<not> ok")
    case True
    then show ?thesis using g "1.prems"
      by (auto simp: sigops_loop.simps [of True pc] sigops_loop.simps [of False pc])
  next
    case False
    define k where "k f j = (if op = OP_CHECKSIG \<or> op = OP_CHECKSIGVERIFY then j + 1
      else if op = OP_CHECKMULTISIG \<or> op = OP_CHECKMULTISIGVERIFY
      then (if f \<and> OP_1 \<le> l \<and> l \<le> OP_16 then j + the (DecodeOP_N l) else j + 20)
      else j)" for f j
    have "the (DecodeOP_N l) \<le> 20" if "OP_1 \<le> l" "l \<le> OP_16"
      using that by (simp add: DecodeOP_N_def)
    then have "k True n \<le> k False m" using "1.prems" by (auto simp: k_def intro: add_mono)
    then have "sigops_loop True rest op (k True n) \<le> sigops_loop False rest op (k False m)"
      using "1.hyps" [OF _ g [symmetric] refl refl] False unfolding k_def by simp
    moreover have "sigops_loop f pc l j = sigops_loop f rest op (k f j)" for f j
      using False g by (simp add: sigops_loop.simps [of f pc] k_def)
    ultimately show ?thesis by simp
  qed
qed

lemma GetSigOpCount_accurate_le: "GetSigOpCount s True \<le> GetSigOpCount s False"
  by (simp add: GetSigOpCount_def sigops_loop_mono)

lemma IsPushOnly_sigops: "IsPushOnly pc \<Longrightarrow> sigops_loop a pc l n = n"
proof (induction pc arbitrary: l n rule: IsPushOnly.induct)
  case (1 pc)
  obtain ok op d rest where g: "GetOp2 pc = (ok, op, d, rest)" by (cases "GetOp2 pc") auto
  show ?case using 1 g
    by (auto simp: sigops_loop.simps [of a pc] IsPushOnly.simps [of pc] split: if_splits)
qed

section \<open>Pay-to-script-hash\<close>

lemma IsPayToScriptHash_iff:
  "IsPayToScriptHash s \<longleftrightarrow> (\<exists>h. length h = 20 \<and> s = [0xa9, 0x14] @ h @ [0x87])"
proof
  assume a: "IsPayToScriptHash s"
  then have l: "length s = 23" by (simp add: IsPayToScriptHash_def)
  have b: "unat (b::byte) = n \<Longrightarrow> b = word_of_nat n" for b n by auto
  have "s = [s ! 0, s ! 1] @ take 20 (drop 2 s) @ [s ! 22]"
  proof -
    have "drop 22 s = [s ! 22]" using l Cons_nth_drop_Suc [of 22 s] by simp
    moreover have "drop 2 s = take 20 (drop 2 s) @ drop 22 s"
      using append_take_drop_id [of 20 "drop 2 s"] by simp
    moreover have "s = s ! 0 # s ! 1 # drop 2 s"
      using l by (cases s; cases "tl s") auto
    ultimately show ?thesis by simp
  qed
  moreover have "s ! 0 = 0xa9" "s ! 22 = 0x87" "s ! 1 = 0x14"
    using a b [of "s ! 0" "0xa9"] b [of "s ! 22" "0x87"] by (auto simp: IsPayToScriptHash_def)
  moreover have "length (take 20 (drop 2 s)) = 20" using l by simp
  ultimately show "\<exists>h. length h = 20 \<and> s = [0xa9, 0x14] @ h @ [0x87]" by metis
next
  assume "\<exists>h. length h = 20 \<and> s = [0xa9, 0x14] @ h @ [0x87]"
  then show "IsPayToScriptHash s" by (auto simp: IsPayToScriptHash_def nth_append nth_Cons')
qed

end
