(* ===== verification/Interpreter.thy ===== *)
theory Interpreter
  imports ScriptOps
begin

text \<open>
  The script interpreter, \<^verbatim>\<open>src/src/script/interpreter.cpp\<close> and \<^verbatim>\<open>script_error.h\<close>. A stack is
  the list of its elements with the top first, so \<^verbatim>\<open>stacktop(-i)\<close> is the element of index \<open>i - 1\<close>;
  \<^verbatim>\<open>vfExec\<close> likewise. Every \<^verbatim>\<open>return set_error(serror, e)\<close> is \<open>Inl e\<close>; the exception of
  \<^verbatim>\<open>CScriptNum\<close>, caught at the end of \<^verbatim>\<open>EvalScript\<close>, is the error \<^verbatim>\<open>SCRIPT_ERR_UNKNOWN_ERROR\<close>.
  The stack a failing evaluation leaves behind is not part of the result.

  The verification of ECDSA signatures is third-party code (\<^verbatim>\<open>secp256k1\<close>), so the signature
  checker the evaluator is given and the low-S test of \<^verbatim>\<open>CPubKey\<close> are a record of functions.
\<close>

datatype ScriptError =
    SCRIPT_ERR_OK | SCRIPT_ERR_UNKNOWN_ERROR | SCRIPT_ERR_EVAL_FALSE | SCRIPT_ERR_OP_RETURN
  | SCRIPT_ERR_SCRIPT_SIZE | SCRIPT_ERR_PUSH_SIZE | SCRIPT_ERR_OP_COUNT | SCRIPT_ERR_STACK_SIZE
  | SCRIPT_ERR_SIG_COUNT | SCRIPT_ERR_PUBKEY_COUNT
  | SCRIPT_ERR_VERIFY | SCRIPT_ERR_EQUALVERIFY | SCRIPT_ERR_CHECKMULTISIGVERIFY
  | SCRIPT_ERR_CHECKSIGVERIFY | SCRIPT_ERR_NUMEQUALVERIFY
  | SCRIPT_ERR_BAD_OPCODE | SCRIPT_ERR_DISABLED_OPCODE | SCRIPT_ERR_INVALID_STACK_OPERATION
  | SCRIPT_ERR_INVALID_ALTSTACK_OPERATION | SCRIPT_ERR_UNBALANCED_CONDITIONAL
  | SCRIPT_ERR_NEGATIVE_LOCKTIME | SCRIPT_ERR_UNSATISFIED_LOCKTIME
  | SCRIPT_ERR_SIG_HASHTYPE | SCRIPT_ERR_SIG_DER | SCRIPT_ERR_MINIMALDATA
  | SCRIPT_ERR_SIG_PUSHONLY | SCRIPT_ERR_SIG_HIGH_S | SCRIPT_ERR_SIG_NULLDUMMY
  | SCRIPT_ERR_PUBKEYTYPE | SCRIPT_ERR_DISCOURAGE_UPGRADABLE_NOPS | SCRIPT_ERR_ERROR_COUNT

fun ScriptErrorString :: "ScriptError \<Rightarrow> string" where
  "ScriptErrorString SCRIPT_ERR_OK = ''No error''"
| "ScriptErrorString SCRIPT_ERR_EVAL_FALSE = ''Script evaluated without error but finished with a false/empty top stack element''"
| "ScriptErrorString SCRIPT_ERR_VERIFY = ''Script failed an OP_VERIFY operation''"
| "ScriptErrorString SCRIPT_ERR_EQUALVERIFY = ''Script failed an OP_EQUALVERIFY operation''"
| "ScriptErrorString SCRIPT_ERR_CHECKMULTISIGVERIFY = ''Script failed an OP_CHECKMULTISIGVERIFY operation''"
| "ScriptErrorString SCRIPT_ERR_CHECKSIGVERIFY = ''Script failed an OP_CHECKSIGVERIFY operation''"
| "ScriptErrorString SCRIPT_ERR_NUMEQUALVERIFY = ''Script failed an OP_NUMEQUALVERIFY operation''"
| "ScriptErrorString SCRIPT_ERR_SCRIPT_SIZE = ''Script is too big''"
| "ScriptErrorString SCRIPT_ERR_PUSH_SIZE = ''Push value size limit exceeded''"
| "ScriptErrorString SCRIPT_ERR_OP_COUNT = ''Operation limit exceeded''"
| "ScriptErrorString SCRIPT_ERR_STACK_SIZE = ''Stack size limit exceeded''"
| "ScriptErrorString SCRIPT_ERR_SIG_COUNT = ''Signature count negative or greater than pubkey count''"
| "ScriptErrorString SCRIPT_ERR_PUBKEY_COUNT = ''Pubkey count negative or limit exceeded''"
| "ScriptErrorString SCRIPT_ERR_BAD_OPCODE = ''Opcode missing or not understood''"
| "ScriptErrorString SCRIPT_ERR_DISABLED_OPCODE = ''Attempted to use a disabled opcode''"
| "ScriptErrorString SCRIPT_ERR_INVALID_STACK_OPERATION = ''Operation not valid with the current stack size''"
| "ScriptErrorString SCRIPT_ERR_INVALID_ALTSTACK_OPERATION = ''Operation not valid with the current altstack size''"
| "ScriptErrorString SCRIPT_ERR_OP_RETURN = ''OP_RETURN was encountered''"
| "ScriptErrorString SCRIPT_ERR_UNBALANCED_CONDITIONAL = ''Invalid OP_IF construction''"
| "ScriptErrorString SCRIPT_ERR_NEGATIVE_LOCKTIME = ''Negative locktime''"
| "ScriptErrorString SCRIPT_ERR_UNSATISFIED_LOCKTIME = ''Locktime requirement not satisfied''"
| "ScriptErrorString SCRIPT_ERR_SIG_HASHTYPE = ''Signature hash type missing or not understood''"
| "ScriptErrorString SCRIPT_ERR_SIG_DER = ''Non-canonical DER signature''"
| "ScriptErrorString SCRIPT_ERR_MINIMALDATA = ''Data push larger than necessary''"
| "ScriptErrorString SCRIPT_ERR_SIG_PUSHONLY = ''Only non-push operators allowed in signatures''"
| "ScriptErrorString SCRIPT_ERR_SIG_HIGH_S = ''Non-canonical signature: S value is unnecessarily high''"
| "ScriptErrorString SCRIPT_ERR_SIG_NULLDUMMY = ''Dummy CHECKMULTISIG argument must be zero''"
| "ScriptErrorString SCRIPT_ERR_DISCOURAGE_UPGRADABLE_NOPS = ''NOPx reserved for soft-fork upgrades''"
| "ScriptErrorString SCRIPT_ERR_PUBKEYTYPE = ''Public key is neither compressed or uncompressed''"
| "ScriptErrorString SCRIPT_ERR_UNKNOWN_ERROR = ''unknown error''"
| "ScriptErrorString SCRIPT_ERR_ERROR_COUNT = ''unknown error''"

section \<open>Flags (interpreter.h)\<close>

abbreviation (input) SIGHASH_ALL :: nat where "SIGHASH_ALL \<equiv> 1"
abbreviation (input) SIGHASH_NONE :: nat where "SIGHASH_NONE \<equiv> 2"
abbreviation (input) SIGHASH_SINGLE :: nat where "SIGHASH_SINGLE \<equiv> 3"
abbreviation (input) SIGHASH_ANYONECANPAY :: nat where "SIGHASH_ANYONECANPAY \<equiv> 0x80"

abbreviation (input) SCRIPT_VERIFY_NONE :: u32 where "SCRIPT_VERIFY_NONE \<equiv> 0"
abbreviation (input) SCRIPT_VERIFY_P2SH :: u32 where "SCRIPT_VERIFY_P2SH \<equiv> 0x1"
abbreviation (input) SCRIPT_VERIFY_STRICTENC :: u32 where "SCRIPT_VERIFY_STRICTENC \<equiv> 0x2"
abbreviation (input) SCRIPT_VERIFY_DERSIG :: u32 where "SCRIPT_VERIFY_DERSIG \<equiv> 0x4"
abbreviation (input) SCRIPT_VERIFY_LOW_S :: u32 where "SCRIPT_VERIFY_LOW_S \<equiv> 0x8"
abbreviation (input) SCRIPT_VERIFY_NULLDUMMY :: u32 where "SCRIPT_VERIFY_NULLDUMMY \<equiv> 0x10"
abbreviation (input) SCRIPT_VERIFY_SIGPUSHONLY :: u32 where "SCRIPT_VERIFY_SIGPUSHONLY \<equiv> 0x20"
abbreviation (input) SCRIPT_VERIFY_MINIMALDATA :: u32 where "SCRIPT_VERIFY_MINIMALDATA \<equiv> 0x40"
abbreviation (input) SCRIPT_VERIFY_DISCOURAGE_UPGRADABLE_NOPS :: u32 where
  "SCRIPT_VERIFY_DISCOURAGE_UPGRADABLE_NOPS \<equiv> 0x80"
abbreviation (input) SCRIPT_VERIFY_CLEANSTACK :: u32 where "SCRIPT_VERIFY_CLEANSTACK \<equiv> 0x100"
abbreviation (input) SCRIPT_VERIFY_CHECKLOCKTIMEVERIFY :: u32 where
  "SCRIPT_VERIFY_CHECKLOCKTIMEVERIFY \<equiv> 0x200"

text \<open>\<^verbatim>\<open>(flags & f) != 0\<close>\<close>

definition has_flag :: "u32 \<Rightarrow> u32 \<Rightarrow> bool" where
  "has_flag flags f \<longleftrightarrow> flags AND f \<noteq> 0"

record sig_checker =
  ck_CheckSig :: "valtype \<Rightarrow> valtype \<Rightarrow> script \<Rightarrow> bool"
  ck_CheckLockTime :: "int \<Rightarrow> bool"
  ck_CheckLowS :: "valtype \<Rightarrow> bool"

section \<open>Encodings\<close>

fun CastToBool :: "valtype \<Rightarrow> bool" where
  "CastToBool [] = False"
| "CastToBool (b # vch) =
     (if b \<noteq> 0 then (if vch = [] \<and> b = 0x80 then False else True) else CastToBool vch)"

definition IsCompressedOrUncompressedPubKey :: "valtype \<Rightarrow> bool" where
  "IsCompressedOrUncompressedPubKey vchPubKey =
     (if length vchPubKey < 33 then False
      else if vchPubKey ! 0 = 0x04 then (if length vchPubKey \<noteq> 65 then False else True)
      else if vchPubKey ! 0 = 0x02 \<or> vchPubKey ! 0 = 0x03
      then (if length vchPubKey \<noteq> 33 then False else True)
      else False)"

definition IsValidSignatureEncoding :: "valtype \<Rightarrow> bool" where
  "IsValidSignatureEncoding sig =
     (if length sig < 9 then False
      else if length sig > 73 then False
      else if sig ! 0 \<noteq> 0x30 then False
      else if unat (sig ! 1) \<noteq> length sig - 3 then False
      else let lenR = unat (sig ! 3) in
        if 5 + lenR \<ge> length sig then False
        else let lenS = unat (sig ! (5 + lenR)) in
          if lenR + lenS + 7 \<noteq> length sig then False
          else if sig ! 2 \<noteq> 0x02 then False
          else if lenR = 0 then False
          else if sig ! 4 AND 0x80 \<noteq> 0 then False
          else if lenR > 1 \<and> sig ! 4 = 0x00 \<and> \<not> (sig ! 5 AND 0x80 \<noteq> 0) then False
          else if sig ! (lenR + 4) \<noteq> 0x02 then False
          else if lenS = 0 then False
          else if sig ! (lenR + 6) AND 0x80 \<noteq> 0 then False
          else if lenS > 1 \<and> sig ! (lenR + 6) = 0x00 \<and> \<not> (sig ! (lenR + 7) AND 0x80 \<noteq> 0) then False
          else True)"

definition IsLowDERSignature :: "sig_checker \<Rightarrow> valtype \<Rightarrow> ScriptError + unit" where
  "IsLowDERSignature ck vchSig =
     (if \<not> IsValidSignatureEncoding vchSig then Inl SCRIPT_ERR_SIG_DER
      else let vchSigCopy = butlast vchSig
           in if \<not> ck_CheckLowS ck vchSigCopy then Inl SCRIPT_ERR_SIG_HIGH_S else Inr ())"

definition IsDefinedHashtypeSignature :: "valtype \<Rightarrow> bool" where
  "IsDefinedHashtypeSignature vchSig =
     (if length vchSig = 0 then False
      else let nHashType = unat (vchSig ! (length vchSig - 1) AND NOT 0x80)
           in if nHashType < SIGHASH_ALL \<or> nHashType > SIGHASH_SINGLE then False else True)"

definition CheckSignatureEncoding :: "sig_checker \<Rightarrow> valtype \<Rightarrow> u32 \<Rightarrow> ScriptError + unit" where
  "CheckSignatureEncoding ck vchSig flags =
     (if length vchSig = 0 then Inr ()
      else if has_flag flags (SCRIPT_VERIFY_DERSIG OR SCRIPT_VERIFY_LOW_S OR SCRIPT_VERIFY_STRICTENC) \<and>
              \<not> IsValidSignatureEncoding vchSig
      then Inl SCRIPT_ERR_SIG_DER
      else if has_flag flags SCRIPT_VERIFY_LOW_S \<and> IsLowDERSignature ck vchSig \<noteq> Inr ()
      then IsLowDERSignature ck vchSig
      else if has_flag flags SCRIPT_VERIFY_STRICTENC \<and> \<not> IsDefinedHashtypeSignature vchSig
      then Inl SCRIPT_ERR_SIG_HASHTYPE
      else Inr ())"

definition CheckPubKeyEncoding :: "valtype \<Rightarrow> u32 \<Rightarrow> ScriptError + unit" where
  "CheckPubKeyEncoding vchPubKey flags =
     (if has_flag flags SCRIPT_VERIFY_STRICTENC \<and> \<not> IsCompressedOrUncompressedPubKey vchPubKey
      then Inl SCRIPT_ERR_PUBKEYTYPE else Inr ())"

definition CheckMinimalPush :: "valtype \<Rightarrow> opcodetype \<Rightarrow> bool" where
  "CheckMinimalPush data opcode =
     (if length data = 0 then opcode = OP_0
      else if length data = 1 \<and> data ! 0 \<ge> 1 \<and> data ! 0 \<le> 16
      then opcode = OP_1 + (unat (data ! 0) - 1)
      else if length data = 1 \<and> data ! 0 = 0x81 then opcode = OP_1NEGATE
      else if length data \<le> 75 then opcode = length data
      else if length data \<le> 255 then opcode = OP_PUSHDATA1
      else if length data \<le> 65535 then opcode = OP_PUSHDATA2
      else True)"

end
