(* ===== verification/EvalScript.thy ===== *)
theory EvalScript
  imports Interpreter
begin

text \<open>
  \<^verbatim>\<open>EvalScript\<close> and \<^verbatim>\<open>VerifyScript\<close> of \<^verbatim>\<open>src/src/script/interpreter.cpp\<close>: the state of the loop,
  one definition per group of cases of the \<^verbatim>\<open>switch\<close>, the instruction as the loop's body runs it
  (limits, disabled opcodes, pushes, dispatch, stack limit), the loop, and the two functions.
  An iterator into the script is the rest of the script it points at.
\<close>

record eval_state =
  e_stack :: "valtype list"
  e_alt :: "valtype list"
  e_vfExec :: "bool list"
  e_nOpCount :: nat
  e_pbegincodehash :: script

type_synonym eval_result = "ScriptError + eval_state"

definition vchTrue :: valtype where "vchTrue = [1]"
definition vchFalse :: valtype where "vchFalse = []"

definition bool_vch :: "bool \<Rightarrow> valtype" where
  "bool_vch b = (if b then vchTrue else vchFalse)"

text \<open>\<^verbatim>\<open>CScriptNum(v, fRequireMinimal)\<close> with the default operand size, its exception caught.\<close>

definition script_num :: "u32 \<Rightarrow> valtype \<Rightarrow> nat \<Rightarrow> ScriptError + int" where
  "script_num flags v nMaxNumSize =
     (case CScriptNum v (has_flag flags SCRIPT_VERIFY_MINIMALDATA) nMaxNumSize of
        None \<Rightarrow> Inl SCRIPT_ERR_UNKNOWN_ERROR | Some n \<Rightarrow> Inr n)"

section \<open>Groups of opcodes\<close>

definition exec_push_value :: "opcodetype \<Rightarrow> eval_state \<Rightarrow> eval_result" where
  "exec_push_value opcode st =
     Inr (st\<lparr>e_stack := serialize (int opcode - (int OP_1 - 1)) # e_stack st\<rparr>)"

definition exec_cltv :: "u32 \<Rightarrow> sig_checker \<Rightarrow> eval_state \<Rightarrow> eval_result" where
  "exec_cltv flags ck st =
     (if \<not> has_flag flags SCRIPT_VERIFY_CHECKLOCKTIMEVERIFY
      then (if has_flag flags SCRIPT_VERIFY_DISCOURAGE_UPGRADABLE_NOPS
            then Inl SCRIPT_ERR_DISCOURAGE_UPGRADABLE_NOPS else Inr st)
      else case e_stack st of
             [] \<Rightarrow> Inl SCRIPT_ERR_INVALID_STACK_OPERATION
           | x1 # s \<Rightarrow> sbind (script_num flags x1 5) (\<lambda>nLockTime.
               if nLockTime < 0 then Inl SCRIPT_ERR_NEGATIVE_LOCKTIME
               else if \<not> ck_CheckLockTime ck nLockTime then Inl SCRIPT_ERR_UNSATISFIED_LOCKTIME
               else Inr st))"

definition exec_control ::
  "u32 \<Rightarrow> sig_checker \<Rightarrow> bool \<Rightarrow> opcodetype \<Rightarrow> eval_state \<Rightarrow> eval_result" where
  "exec_control flags ck fExec opcode st =
     (if opcode = OP_NOP then Inr st
      else if opcode = OP_CHECKLOCKTIMEVERIFY then exec_cltv flags ck st
      else if opcode = OP_NOP1 \<or> (OP_NOP3 \<le> opcode \<and> opcode \<le> OP_NOP10)
      then (if has_flag flags SCRIPT_VERIFY_DISCOURAGE_UPGRADABLE_NOPS
            then Inl SCRIPT_ERR_DISCOURAGE_UPGRADABLE_NOPS else Inr st)
      else if opcode = OP_IF \<or> opcode = OP_NOTIF
      then (if fExec
            then case e_stack st of
                   [] \<Rightarrow> Inl SCRIPT_ERR_UNBALANCED_CONDITIONAL
                 | vch # s \<Rightarrow>
                     let fValue = (if opcode = OP_NOTIF then \<not> CastToBool vch else CastToBool vch)
                     in Inr (st\<lparr>e_stack := s, e_vfExec := fValue # e_vfExec st\<rparr>)
            else Inr (st\<lparr>e_vfExec := False # e_vfExec st\<rparr>))
      else if opcode = OP_ELSE
      then (case e_vfExec st of
              [] \<Rightarrow> Inl SCRIPT_ERR_UNBALANCED_CONDITIONAL
            | b # bs \<Rightarrow> Inr (st\<lparr>e_vfExec := (\<not> b) # bs\<rparr>))
      else if opcode = OP_ENDIF
      then (case e_vfExec st of
              [] \<Rightarrow> Inl SCRIPT_ERR_UNBALANCED_CONDITIONAL
            | b # bs \<Rightarrow> Inr (st\<lparr>e_vfExec := bs\<rparr>))
      else if opcode = OP_VERIFY
      then (case e_stack st of
              [] \<Rightarrow> Inl SCRIPT_ERR_INVALID_STACK_OPERATION
            | vch # s \<Rightarrow> if CastToBool vch then Inr (st\<lparr>e_stack := s\<rparr>)
                         else Inl SCRIPT_ERR_VERIFY)
      else if opcode = OP_RETURN then Inl SCRIPT_ERR_OP_RETURN
      else Inl SCRIPT_ERR_BAD_OPCODE)"

text \<open>The stack operations that move whole elements, from \<^verbatim>\<open>OP_TOALTSTACK\<close> to \<^verbatim>\<open>OP_2SWAP\<close>.\<close>

definition exec_stack_multi :: "opcodetype \<Rightarrow> eval_state \<Rightarrow> eval_result" where
  "exec_stack_multi opcode st =
     (if opcode = OP_TOALTSTACK
      then (case e_stack st of
              x1 # s \<Rightarrow> Inr (st\<lparr>e_stack := s, e_alt := x1 # e_alt st\<rparr>)
            | _ \<Rightarrow> Inl SCRIPT_ERR_INVALID_STACK_OPERATION)
      else if opcode = OP_FROMALTSTACK
      then (case e_alt st of
              x1 # s \<Rightarrow> Inr (st\<lparr>e_stack := x1 # e_stack st, e_alt := s\<rparr>)
            | _ \<Rightarrow> Inl SCRIPT_ERR_INVALID_ALTSTACK_OPERATION)
      else if opcode = OP_2DROP
      then (case e_stack st of
              x2 # x1 # s \<Rightarrow> Inr (st\<lparr>e_stack := s\<rparr>)
            | _ \<Rightarrow> Inl SCRIPT_ERR_INVALID_STACK_OPERATION)
      else if opcode = OP_2DUP
      then (case e_stack st of
              x2 # x1 # s \<Rightarrow> Inr (st\<lparr>e_stack := x2 # x1 # x2 # x1 # s\<rparr>)
            | _ \<Rightarrow> Inl SCRIPT_ERR_INVALID_STACK_OPERATION)
      else if opcode = OP_3DUP
      then (case e_stack st of
              x3 # x2 # x1 # s \<Rightarrow> Inr (st\<lparr>e_stack := x3 # x2 # x1 # x3 # x2 # x1 # s\<rparr>)
            | _ \<Rightarrow> Inl SCRIPT_ERR_INVALID_STACK_OPERATION)
      else if opcode = OP_2OVER
      then (case e_stack st of
              x4 # x3 # x2 # x1 # s \<Rightarrow> Inr (st\<lparr>e_stack := x2 # x1 # x4 # x3 # x2 # x1 # s\<rparr>)
            | _ \<Rightarrow> Inl SCRIPT_ERR_INVALID_STACK_OPERATION)
      else if opcode = OP_2ROT
      then (case e_stack st of
              x6 # x5 # x4 # x3 # x2 # x1 # s \<Rightarrow>
                Inr (st\<lparr>e_stack := x2 # x1 # x6 # x5 # x4 # x3 # s\<rparr>)
            | _ \<Rightarrow> Inl SCRIPT_ERR_INVALID_STACK_OPERATION)
      else if opcode = OP_2SWAP
      then (case e_stack st of
              x4 # x3 # x2 # x1 # s \<Rightarrow> Inr (st\<lparr>e_stack := x2 # x1 # x4 # x3 # s\<rparr>)
            | _ \<Rightarrow> Inl SCRIPT_ERR_INVALID_STACK_OPERATION)
      else Inl SCRIPT_ERR_BAD_OPCODE)"

text \<open>The remaining stack operations, from \<^verbatim>\<open>OP_IFDUP\<close> to \<^verbatim>\<open>OP_SIZE\<close>.\<close>

definition exec_stack_single :: "u32 \<Rightarrow> opcodetype \<Rightarrow> eval_state \<Rightarrow> eval_result" where
  "exec_stack_single flags opcode st =
     (if opcode = OP_IFDUP
      then (case e_stack st of
              vch # s \<Rightarrow> Inr (st\<lparr>e_stack := (if CastToBool vch then vch # vch # s else vch # s)\<rparr>)
            | _ \<Rightarrow> Inl SCRIPT_ERR_INVALID_STACK_OPERATION)
      else if opcode = OP_DEPTH
      then Inr (st\<lparr>e_stack := serialize (int (length (e_stack st))) # e_stack st\<rparr>)
      else if opcode = OP_DROP
      then (case e_stack st of
              vch # s \<Rightarrow> Inr (st\<lparr>e_stack := s\<rparr>)
            | _ \<Rightarrow> Inl SCRIPT_ERR_INVALID_STACK_OPERATION)
      else if opcode = OP_DUP
      then (case e_stack st of
              vch # s \<Rightarrow> Inr (st\<lparr>e_stack := vch # vch # s\<rparr>)
            | _ \<Rightarrow> Inl SCRIPT_ERR_INVALID_STACK_OPERATION)
      else if opcode = OP_NIP
      then (case e_stack st of
              x2 # x1 # s \<Rightarrow> Inr (st\<lparr>e_stack := x2 # s\<rparr>)
            | _ \<Rightarrow> Inl SCRIPT_ERR_INVALID_STACK_OPERATION)
      else if opcode = OP_OVER
      then (case e_stack st of
              x2 # x1 # s \<Rightarrow> Inr (st\<lparr>e_stack := x1 # x2 # x1 # s\<rparr>)
            | _ \<Rightarrow> Inl SCRIPT_ERR_INVALID_STACK_OPERATION)
      else if opcode = OP_PICK \<or> opcode = OP_ROLL
      then (if length (e_stack st) < 2 then Inl SCRIPT_ERR_INVALID_STACK_OPERATION
            else sbind (script_num flags (e_stack st ! 0) 4) (\<lambda>bn.
              let n = getint bn; s = tl (e_stack st)
              in if n < 0 \<or> n \<ge> int (length s) then Inl SCRIPT_ERR_INVALID_STACK_OPERATION
                 else let vch = s ! nat n;
                          s' = (if opcode = OP_ROLL then take (nat n) s @ drop (nat n + 1) s else s)
                      in Inr (st\<lparr>e_stack := vch # s'\<rparr>)))
      else if opcode = OP_ROT
      then (case e_stack st of
              x3 # x2 # x1 # s \<Rightarrow> Inr (st\<lparr>e_stack := x1 # x3 # x2 # s\<rparr>)
            | _ \<Rightarrow> Inl SCRIPT_ERR_INVALID_STACK_OPERATION)
      else if opcode = OP_SWAP
      then (case e_stack st of
              x2 # x1 # s \<Rightarrow> Inr (st\<lparr>e_stack := x1 # x2 # s\<rparr>)
            | _ \<Rightarrow> Inl SCRIPT_ERR_INVALID_STACK_OPERATION)
      else if opcode = OP_TUCK
      then (case e_stack st of
              x2 # x1 # s \<Rightarrow> Inr (st\<lparr>e_stack := x2 # x1 # x2 # s\<rparr>)
            | _ \<Rightarrow> Inl SCRIPT_ERR_INVALID_STACK_OPERATION)
      else if opcode = OP_SIZE
      then (case e_stack st of
              vch # s \<Rightarrow> Inr (st\<lparr>e_stack := serialize (int (length vch)) # vch # s\<rparr>)
            | _ \<Rightarrow> Inl SCRIPT_ERR_INVALID_STACK_OPERATION)
      else Inl SCRIPT_ERR_BAD_OPCODE)"

text \<open>
  The common end of the \<^verbatim>\<open>...VERIFY\<close> opcodes: the result of the test is pushed, and popped again
  or turned into the opcode's error.
\<close>

definition push_result ::
  "bool \<Rightarrow> bool \<Rightarrow> ScriptError \<Rightarrow> valtype list \<Rightarrow> eval_state \<Rightarrow> eval_result" where
  "push_result verify fSuccess err s st =
     (if verify then (if fSuccess then Inr (st\<lparr>e_stack := s\<rparr>) else Inl err)
      else Inr (st\<lparr>e_stack := bool_vch fSuccess # s\<rparr>))"

definition exec_equal :: "opcodetype \<Rightarrow> eval_state \<Rightarrow> eval_result" where
  "exec_equal opcode st =
     (case e_stack st of
        vch2 # vch1 # s \<Rightarrow>
          let fEqual = (vch1 = vch2)
          in push_result (opcode = OP_EQUALVERIFY) fEqual SCRIPT_ERR_EQUALVERIFY s st
      | _ \<Rightarrow> Inl SCRIPT_ERR_INVALID_STACK_OPERATION)"

section \<open>Numeric opcodes\<close>

definition num_unary :: "opcodetype \<Rightarrow> int \<Rightarrow> int" where
  "num_unary opcode bn =
     (if opcode = OP_1ADD then bn + 1
      else if opcode = OP_1SUB then bn - 1
      else if opcode = OP_NEGATE then - bn
      else if opcode = OP_ABS then (if bn < 0 then - bn else bn)
      else if opcode = OP_NOT then of_bool (bn = 0)
      else of_bool (bn \<noteq> 0))"

definition num_binary :: "opcodetype \<Rightarrow> int \<Rightarrow> int \<Rightarrow> int" where
  "num_binary opcode bn1 bn2 =
     (if opcode = OP_ADD then bn1 + bn2
      else if opcode = OP_SUB then bn1 - bn2
      else if opcode = OP_BOOLAND then of_bool (bn1 \<noteq> 0 \<and> bn2 \<noteq> 0)
      else if opcode = OP_BOOLOR then of_bool (bn1 \<noteq> 0 \<or> bn2 \<noteq> 0)
      else if opcode = OP_NUMEQUAL then of_bool (bn1 = bn2)
      else if opcode = OP_NUMEQUALVERIFY then of_bool (bn1 = bn2)
      else if opcode = OP_NUMNOTEQUAL then of_bool (bn1 \<noteq> bn2)
      else if opcode = OP_LESSTHAN then of_bool (bn1 < bn2)
      else if opcode = OP_GREATERTHAN then of_bool (bn1 > bn2)
      else if opcode = OP_LESSTHANOREQUAL then of_bool (bn1 \<le> bn2)
      else if opcode = OP_GREATERTHANOREQUAL then of_bool (bn1 \<ge> bn2)
      else if opcode = OP_MIN then (if bn1 < bn2 then bn1 else bn2)
      else (if bn1 > bn2 then bn1 else bn2))"

definition exec_numeric :: "u32 \<Rightarrow> opcodetype \<Rightarrow> eval_state \<Rightarrow> eval_result" where
  "exec_numeric flags opcode st =
     (if opcode \<in> {OP_1ADD, OP_1SUB, OP_NEGATE, OP_ABS, OP_NOT, OP_0NOTEQUAL}
      then (case e_stack st of
              x1 # s \<Rightarrow> sbind (script_num flags x1 4) (\<lambda>bn.
                Inr (st\<lparr>e_stack := serialize (num_unary opcode bn) # s\<rparr>))
            | _ \<Rightarrow> Inl SCRIPT_ERR_INVALID_STACK_OPERATION)
      else if opcode = OP_WITHIN
      then (case e_stack st of
              x3 # x2 # x1 # s \<Rightarrow>
                sbind (script_num flags x1 4) (\<lambda>bn1.
                sbind (script_num flags x2 4) (\<lambda>bn2.
                sbind (script_num flags x3 4) (\<lambda>bn3.
                let fValue = (bn2 \<le> bn1 \<and> bn1 < bn3)
                in Inr (st\<lparr>e_stack := bool_vch fValue # s\<rparr>))))
            | _ \<Rightarrow> Inl SCRIPT_ERR_INVALID_STACK_OPERATION)
      else (case e_stack st of
              x2 # x1 # s \<Rightarrow>
                sbind (script_num flags x1 4) (\<lambda>bn1.
                sbind (script_num flags x2 4) (\<lambda>bn2.
                let vch = serialize (num_binary opcode bn1 bn2)
                in if opcode = OP_NUMEQUALVERIFY
                   then (if CastToBool vch then Inr (st\<lparr>e_stack := s\<rparr>)
                         else Inl SCRIPT_ERR_NUMEQUALVERIFY)
                   else Inr (st\<lparr>e_stack := vch # s\<rparr>)))
            | _ \<Rightarrow> Inl SCRIPT_ERR_INVALID_STACK_OPERATION))"

section \<open>Cryptographic opcodes\<close>

definition exec_hash :: "opcodetype \<Rightarrow> eval_state \<Rightarrow> eval_result" where
  "exec_hash opcode st =
     (case e_stack st of
        vch # s \<Rightarrow>
          let vchHash =
            (if opcode = OP_RIPEMD160 then CRIPEMD160_Finalize (CRIPEMD160_Write CRIPEMD160_new vch)
             else if opcode = OP_SHA1 then CSHA1_Finalize (CSHA1_Write CSHA1_new vch)
             else if opcode = OP_SHA256 then CSHA256_Finalize (CSHA256_Write CSHA256_new vch)
             else if opcode = OP_HASH160 then CHash160_Finalize (CHash160_Write CSHA256_new vch)
             else CHash256_Finalize (CHash256_Write CSHA256_new vch))
          in Inr (st\<lparr>e_stack := vchHash # s\<rparr>)
      | _ \<Rightarrow> Inl SCRIPT_ERR_INVALID_STACK_OPERATION)"

definition check_encodings :: "u32 \<Rightarrow> sig_checker \<Rightarrow> valtype \<Rightarrow> valtype \<Rightarrow> ScriptError + unit" where
  "check_encodings flags ck vchSig vchPubKey =
     sbind (CheckSignatureEncoding ck vchSig flags) (\<lambda>u. CheckPubKeyEncoding vchPubKey flags)"

definition exec_checksig :: "u32 \<Rightarrow> sig_checker \<Rightarrow> opcodetype \<Rightarrow> eval_state \<Rightarrow> eval_result" where
  "exec_checksig flags ck opcode st =
     (case e_stack st of
        vchPubKey # vchSig # s \<Rightarrow>
          let scriptCode = snd (FindAndDelete (e_pbegincodehash st) (push_data vchSig))
          in sbind (check_encodings flags ck vchSig vchPubKey) (\<lambda>u.
               let fSuccess = ck_CheckSig ck vchSig vchPubKey scriptCode
               in push_result (opcode = OP_CHECKSIGVERIFY) fSuccess SCRIPT_ERR_CHECKSIGVERIFY s st)
      | _ \<Rightarrow> Inl SCRIPT_ERR_INVALID_STACK_OPERATION)"

text \<open>
  The \<^verbatim>\<open>while (fSuccess && nSigsCount > 0)\<close> loop, by recursion on the keys left. It is entered with
  \<^verbatim>\<open>nSigsCount <= nKeysCount\<close> and goes on only when that still holds, so with no key left there is
  no signature left.
\<close>

primrec multisig_loop ::
  "u32 \<Rightarrow> sig_checker \<Rightarrow> script \<Rightarrow> valtype list \<Rightarrow> nat \<Rightarrow> nat \<Rightarrow> nat \<Rightarrow> nat \<Rightarrow> ScriptError + bool" where
  "multisig_loop flags ck scriptCode stack 0 isig ikey nSigsCount = Inr (nSigsCount = 0)"
| "multisig_loop flags ck scriptCode stack (Suc nKeysCount) isig ikey nSigsCount =
     (if nSigsCount = 0 then Inr True
      else let vchSig = stack ! (isig - 1);
               vchPubKey = stack ! (ikey - 1)
           in sbind (check_encodings flags ck vchSig vchPubKey) (\<lambda>u.
                let fOk = ck_CheckSig ck vchSig vchPubKey scriptCode;
                    isig' = (if fOk then isig + 1 else isig);
                    nSigsCount' = (if fOk then nSigsCount - 1 else nSigsCount)
                in if nSigsCount' > nKeysCount then Inr False
                   else multisig_loop flags ck scriptCode stack nKeysCount isig' (ikey + 1)
                          nSigsCount'))"

text \<open>\<^verbatim>\<open>for (k = 0; k < nSigsCount; k++) scriptCode.FindAndDelete(CScript(stacktop(-isig-k)))\<close>\<close>

definition drop_sigs :: "script \<Rightarrow> valtype list \<Rightarrow> script" where
  "drop_sigs scriptCode sigs = foldl (\<lambda>sc vchSig. snd (FindAndDelete sc (push_data vchSig))) scriptCode sigs"

definition exec_multisig :: "u32 \<Rightarrow> sig_checker \<Rightarrow> opcodetype \<Rightarrow> eval_state \<Rightarrow> eval_result" where
  "exec_multisig flags ck opcode st =
     (let stack = e_stack st in
      if length stack < 1 then Inl SCRIPT_ERR_INVALID_STACK_OPERATION
      else sbind (script_num flags (stack ! 0) 4) (\<lambda>bnKeys.
      let nKeysCount = getint bnKeys in
      if nKeysCount < 0 \<or> nKeysCount > 20 then Inl SCRIPT_ERR_PUBKEY_COUNT
      else let nKeys = nat nKeysCount;
               st1 = st\<lparr>e_nOpCount := e_nOpCount st + nKeys\<rparr> in
      if e_nOpCount st1 > 201 then Inl SCRIPT_ERR_OP_COUNT
      else let ikey = 2; i = 2 + nKeys in
      if length stack < i then Inl SCRIPT_ERR_INVALID_STACK_OPERATION
      else sbind (script_num flags (stack ! (i - 1)) 4) (\<lambda>bnSigs.
      let nSigsCount = getint bnSigs in
      if nSigsCount < 0 \<or> nSigsCount > nKeysCount then Inl SCRIPT_ERR_SIG_COUNT
      else let nSigs = nat nSigsCount; isig = i + 1; i1 = isig + nSigs in
      if length stack < i1 then Inl SCRIPT_ERR_INVALID_STACK_OPERATION
      else let scriptCode = drop_sigs (e_pbegincodehash st)
                 (map (\<lambda>k. stack ! (isig + k - 1)) [0..<nSigs])
      in sbind (multisig_loop flags ck scriptCode stack nKeys isig ikey nSigs) (\<lambda>fSuccess.
      case drop (i1 - 1) stack of
        [] \<Rightarrow> Inl SCRIPT_ERR_INVALID_STACK_OPERATION
      | dummy # s \<Rightarrow>
          if has_flag flags SCRIPT_VERIFY_NULLDUMMY \<and> length dummy \<noteq> 0
          then Inl SCRIPT_ERR_SIG_NULLDUMMY
          else push_result (opcode = OP_CHECKMULTISIGVERIFY) fSuccess
                 SCRIPT_ERR_CHECKMULTISIGVERIFY s st1))))"

section \<open>One instruction\<close>

definition disabled_opcode :: "opcodetype \<Rightarrow> bool" where
  "disabled_opcode opcode \<longleftrightarrow>
     opcode = OP_CAT \<or> opcode = OP_SUBSTR \<or> opcode = OP_LEFT \<or> opcode = OP_RIGHT \<or>
     opcode = OP_INVERT \<or> opcode = OP_AND \<or> opcode = OP_OR \<or> opcode = OP_XOR \<or>
     opcode = OP_2MUL \<or> opcode = OP_2DIV \<or> opcode = OP_MUL \<or> opcode = OP_DIV \<or>
     opcode = OP_MOD \<or> opcode = OP_LSHIFT \<or> opcode = OP_RSHIFT"

text \<open>The \<^verbatim>\<open>switch\<close>; \<open>rest\<close> is the script after the instruction.\<close>

definition exec_switch ::
  "u32 \<Rightarrow> sig_checker \<Rightarrow> bool \<Rightarrow> script \<Rightarrow> opcodetype \<Rightarrow> eval_state \<Rightarrow> eval_result" where
  "exec_switch flags ck fExec rest opcode st =
     (if opcode = OP_1NEGATE \<or> (OP_1 \<le> opcode \<and> opcode \<le> OP_16) then exec_push_value opcode st
      else if opcode \<in> {OP_NOP, OP_NOP1, OP_NOP2, OP_NOP3, OP_NOP4, OP_NOP5, OP_NOP6, OP_NOP7,
                        OP_NOP8, OP_NOP9, OP_NOP10, OP_IF, OP_NOTIF, OP_ELSE, OP_ENDIF,
                        OP_VERIFY, OP_RETURN}
      then exec_control flags ck fExec opcode st
      else if OP_TOALTSTACK \<le> opcode \<and> opcode \<le> OP_2SWAP then exec_stack_multi opcode st
      else if (OP_IFDUP \<le> opcode \<and> opcode \<le> OP_TUCK) \<or> opcode = OP_SIZE
      then exec_stack_single flags opcode st
      else if opcode = OP_EQUAL \<or> opcode = OP_EQUALVERIFY then exec_equal opcode st
      else if opcode \<in> {OP_1ADD, OP_1SUB, OP_NEGATE, OP_ABS, OP_NOT, OP_0NOTEQUAL, OP_ADD, OP_SUB,
                        OP_BOOLAND, OP_BOOLOR, OP_NUMEQUAL, OP_NUMEQUALVERIFY, OP_NUMNOTEQUAL,
                        OP_LESSTHAN, OP_GREATERTHAN, OP_LESSTHANOREQUAL, OP_GREATERTHANOREQUAL,
                        OP_MIN, OP_MAX, OP_WITHIN}
      then exec_numeric flags opcode st
      else if OP_RIPEMD160 \<le> opcode \<and> opcode \<le> OP_HASH256 then exec_hash opcode st
      else if opcode = OP_CODESEPARATOR then Inr (st\<lparr>e_pbegincodehash := rest\<rparr>)
      else if opcode = OP_CHECKSIG \<or> opcode = OP_CHECKSIGVERIFY then exec_checksig flags ck opcode st
      else if opcode = OP_CHECKMULTISIG \<or> opcode = OP_CHECKMULTISIGVERIFY
      then exec_multisig flags ck opcode st
      else Inl SCRIPT_ERR_BAD_OPCODE)"

definition exec_instr ::
  "u32 \<Rightarrow> sig_checker \<Rightarrow> opcodetype \<Rightarrow> valtype \<Rightarrow> script \<Rightarrow> eval_state \<Rightarrow> eval_result" where
  "exec_instr flags ck opcode vchPushValue rest st =
     (let fExec = (False \<notin> set (e_vfExec st)) in
      if length vchPushValue > MAX_SCRIPT_ELEMENT_SIZE then Inl SCRIPT_ERR_PUSH_SIZE
      else let st1 = (if opcode > OP_16 then st\<lparr>e_nOpCount := e_nOpCount st + 1\<rparr> else st) in
      if opcode > OP_16 \<and> e_nOpCount st1 > 201 then Inl SCRIPT_ERR_OP_COUNT
      else if disabled_opcode opcode then Inl SCRIPT_ERR_DISABLED_OPCODE
      else sbind
        (if fExec \<and> opcode \<le> OP_PUSHDATA4
         then (if has_flag flags SCRIPT_VERIFY_MINIMALDATA \<and> \<not> CheckMinimalPush vchPushValue opcode
               then Inl SCRIPT_ERR_MINIMALDATA
               else Inr (st1\<lparr>e_stack := vchPushValue # e_stack st1\<rparr>))
         else if fExec \<or> (OP_IF \<le> opcode \<and> opcode \<le> OP_ENDIF)
         then exec_switch flags ck fExec rest opcode st1
         else Inr st1)
        (\<lambda>st2. if length (e_stack st2) + length (e_alt st2) > 1000
               then Inl SCRIPT_ERR_STACK_SIZE else Inr st2))"

section \<open>EvalScript and VerifyScript\<close>

function eval_loop :: "u32 \<Rightarrow> sig_checker \<Rightarrow> script \<Rightarrow> eval_state \<Rightarrow> eval_result" where
  "eval_loop flags ck pc st =
     (if pc = [] then Inr st
      else case GetOp2 pc of (ok, opcode, vchPushValue, rest) \<Rightarrow>
        if \<not> ok then Inl SCRIPT_ERR_BAD_OPCODE
        else case exec_instr flags ck opcode vchPushValue rest st of
               Inl e \<Rightarrow> Inl e
             | Inr st' \<Rightarrow> eval_loop flags ck rest st')"
  by pat_completeness auto
termination
  by (relation "measure (\<lambda>(f, c, pc, st). length pc)") (auto dest: GetOp2_shrinks [OF sym])

declare eval_loop.simps [simp del]

definition eval_init :: "valtype list \<Rightarrow> script \<Rightarrow> eval_state" where
  "eval_init stack script =
     \<lparr>e_stack = stack, e_alt = [], e_vfExec = [], e_nOpCount = 0, e_pbegincodehash = script\<rparr>"

definition EvalScript ::
  "valtype list \<Rightarrow> script \<Rightarrow> u32 \<Rightarrow> sig_checker \<Rightarrow> ScriptError + valtype list" where
  "EvalScript stack script flags ck =
     (if length script > 10000 then Inl SCRIPT_ERR_SCRIPT_SIZE
      else sbind (eval_loop flags ck script (eval_init stack script)) (\<lambda>st.
        if e_vfExec st \<noteq> [] then Inl SCRIPT_ERR_UNBALANCED_CONDITIONAL else Inr (e_stack st)))"

text \<open>\<open>None\<close> is the failure of \<^verbatim>\<open>assert(!stackCopy.empty())\<close>.\<close>

definition VerifyScript ::
  "script \<Rightarrow> script \<Rightarrow> u32 \<Rightarrow> sig_checker \<Rightarrow> (ScriptError + unit) option" where
  "VerifyScript scriptSig scriptPubKey flags ck =
     (if has_flag flags SCRIPT_VERIFY_SIGPUSHONLY \<and> \<not> IsPushOnly scriptSig
      then Some (Inl SCRIPT_ERR_SIG_PUSHONLY)
      else case EvalScript [] scriptSig flags ck of
        Inl e \<Rightarrow> Some (Inl e)
      | Inr stackCopy \<Rightarrow>
      (case EvalScript stackCopy scriptPubKey flags ck of
        Inl e \<Rightarrow> Some (Inl e)
      | Inr [] \<Rightarrow> Some (Inl SCRIPT_ERR_EVAL_FALSE)
      | Inr (vch # stack) \<Rightarrow>
          if \<not> CastToBool vch then Some (Inl SCRIPT_ERR_EVAL_FALSE)
          else if has_flag flags SCRIPT_VERIFY_P2SH \<and> IsPayToScriptHash scriptPubKey
          then (if \<not> IsPushOnly scriptSig then Some (Inl SCRIPT_ERR_SIG_PUSHONLY)
                else case stackCopy of
                       [] \<Rightarrow> None
                     | pubKeySerialized # stackCopy' \<Rightarrow>
                     (case EvalScript stackCopy' pubKeySerialized flags ck of
                        Inl e \<Rightarrow> Some (Inl e)
                      | Inr [] \<Rightarrow> Some (Inl SCRIPT_ERR_EVAL_FALSE)
                      | Inr (vch' # _) \<Rightarrow>
                          if \<not> CastToBool vch' then Some (Inl SCRIPT_ERR_EVAL_FALSE)
                          else Some (Inr ())))
          else Some (Inr ())))"

end
