(* ===== verification/EvalLemmas.thy ===== *)
theory EvalLemmas
  imports EvalScript "HOL-Library.Sublist"
begin

text \<open>
  What the interpreter promises: no instruction leaves the limits (a thousand elements on both
  stacks, 520 bytes in each, 201 counted operations), a disabled opcode anywhere makes a script
  fail, and the loop of \<^verbatim>\<open>OP_CHECKMULTISIG\<close> accepts exactly when the signatures match a
  subsequence of the keys. The locale \<open>eval_invariant\<close> lifts what each instruction keeps to the
  whole evaluation.
\<close>

lemma sbind_InrE: "sbind m f = Inr y \<Longrightarrow> (\<And>x. m = Inr x \<Longrightarrow> f x = Inr y \<Longrightarrow> P) \<Longrightarrow> P"
  by (auto simp: sbind_eq_Inr)

section \<open>Limits\<close>

definition elems_ok :: "eval_state \<Rightarrow> bool" where
  "elems_ok st \<longleftrightarrow> (\<forall>v \<in> set (e_stack st) \<union> set (e_alt st). length v \<le> MAX_SCRIPT_ELEMENT_SIZE)"

definition limits_ok :: "eval_state \<Rightarrow> bool" where
  "limits_ok st \<longleftrightarrow> elems_ok st \<and> length (e_stack st) + length (e_alt st) \<le> 1000 \<and> e_nOpCount st \<le> 201"

lemma length_serialize_520: "\<bar>v\<bar> < 256 ^ 5 \<Longrightarrow> length (serialize v) \<le> 520"
  using length_serialize [of v 5] by simp

lemma script_num_bound: "script_num flags v 4 = Inr n \<Longrightarrow> \<bar>n\<bar> < 256 ^ 4"
  by (auto simp: script_num_def split: option.splits dest: abs_CScriptNum_less)

lemma length_bool_vch: "length (bool_vch b) \<le> 520"
  by (simp add: bool_vch_def vchTrue_def vchFalse_def)

lemma num_unary_bound: "\<bar>n\<bar> < 256 ^ 4 \<Longrightarrow> \<bar>num_unary opcode n\<bar> < 256 ^ 5"
  by (auto simp: num_unary_def abs_if split: if_splits)

lemma abs_if_le: "\<bar>a\<bar> < k \<Longrightarrow> \<bar>b\<bar> < k \<Longrightarrow> \<bar>if c then a else b\<bar> < (k::int)"
  by simp

lemma num_binary_bound: "\<bar>n\<bar> < 256 ^ 4 \<Longrightarrow> \<bar>m\<bar> < 256 ^ 4 \<Longrightarrow> \<bar>num_binary opcode n m\<bar> < 256 ^ 5"
  unfolding num_binary_def by (intro abs_if_le) simp_all

definition op_keeps :: "eval_state \<Rightarrow> eval_state \<Rightarrow> bool" where
  "op_keeps st st' \<longleftrightarrow> elems_ok st' \<and> (e_nOpCount st \<le> 201 \<longrightarrow> e_nOpCount st' \<le> 201)"

lemma push_result_keeps:
  "push_result v b e s st = Inr st' \<Longrightarrow> elems_ok (st\<lparr>e_stack := s\<rparr>) \<Longrightarrow> op_keeps st st'"
  using length_bool_vch by (auto simp: push_result_def op_keeps_def elems_ok_def split: if_splits)

definition stack_ok :: "eval_state \<Rightarrow> bool" where
  "stack_ok st \<longleftrightarrow> elems_ok st \<and> length (e_stack st) \<le> 1000"

lemma push_value_keeps: "exec_push_value opcode st = Inr st' \<Longrightarrow> stack_ok st \<Longrightarrow> opcode < 256 \<Longrightarrow> op_keeps st st'"
  using length_serialize_520 [of "int opcode - 80"]
  by (auto simp: exec_push_value_def op_keeps_def elems_ok_def stack_ok_def)

lemma control_keeps: "exec_control flags ck fExec opcode st = Inr st' \<Longrightarrow> stack_ok st \<Longrightarrow> op_keeps st st'"
  by (auto simp: exec_control_def exec_cltv_def op_keeps_def elems_ok_def stack_ok_def Let_def sbind_eq_Inr
      split: if_splits list.splits)

lemma stack_multi_keeps: "exec_stack_multi opcode st = Inr st' \<Longrightarrow> stack_ok st \<Longrightarrow> op_keeps st st'"
  by (auto simp: exec_stack_multi_def op_keeps_def elems_ok_def stack_ok_def split: if_splits list.splits)

lemma stack_single_keeps:
  assumes "exec_stack_single flags opcode st = Inr st'" and "stack_ok st"
  shows "op_keeps st st'"
proof (cases "opcode = OP_DEPTH \<or> opcode = OP_SIZE \<or> opcode = OP_PICK \<or> opcode = OP_ROLL")
  case True
  then consider "opcode = OP_DEPTH" | "opcode = OP_SIZE" | "opcode = OP_PICK \<or> opcode = OP_ROLL" by blast
  then show ?thesis
  proof cases
    case 1
    then show ?thesis using assms length_serialize_520 [of "int (length (e_stack st))"]
      by (auto simp: exec_stack_single_def op_keeps_def elems_ok_def stack_ok_def)
  next
    case 2
    then show ?thesis using assms length_serialize_520
      by (auto simp: exec_stack_single_def op_keeps_def elems_ok_def stack_ok_def split: list.split_asm)
  next
    case 3
    then show ?thesis using assms
      by (cases "e_stack st")
         (auto simp: exec_stack_single_def op_keeps_def elems_ok_def stack_ok_def Let_def sbind_eq_Inr
           split: if_split_asm dest!: in_set_takeD in_set_dropD)
  qed
next
  case False
  then show ?thesis using assms
    by (auto simp: exec_stack_single_def op_keeps_def elems_ok_def stack_ok_def
        split: if_split_asm list.split_asm)
qed

lemma equal_keeps: "exec_equal opcode st = Inr st' \<Longrightarrow> stack_ok st \<Longrightarrow> op_keeps st st'"
  by (auto simp: exec_equal_def elems_ok_def stack_ok_def Let_def split: list.splits elim!: push_result_keeps)

lemma numeric_keeps: "exec_numeric flags opcode st = Inr st' \<Longrightarrow> stack_ok st \<Longrightarrow> op_keeps st st'"
  using length_bool_vch
  by (auto simp: exec_numeric_def op_keeps_def elems_ok_def stack_ok_def Let_def sbind_eq_Inr split: if_splits list.splits
     intro!: length_serialize_520 num_unary_bound num_binary_bound dest: script_num_bound)

lemma hash_keeps: "exec_hash opcode st = Inr st' \<Longrightarrow> stack_ok st \<Longrightarrow> op_keeps st st'"
  by (auto simp: exec_hash_def op_keeps_def elems_ok_def stack_ok_def Let_def rmdh.final_write sha1h.final_write
     sha256h.final_write h160.final_write h256.final_write split: if_splits list.splits)

lemma checksig_keeps: "exec_checksig flags ck opcode st = Inr st' \<Longrightarrow> stack_ok st \<Longrightarrow> op_keeps st st'"
  by (auto simp: exec_checksig_def elems_ok_def stack_ok_def Let_def sbind_eq_Inr split: list.splits elim!: push_result_keeps)

lemma multisig_keeps:
  assumes "exec_multisig flags ck opcode st = Inr st'" and "stack_ok st"
  shows "op_keeps st st'"
proof -
  obtain n k v b s dummy where r: "push_result v b SCRIPT_ERR_CHECKMULTISIGVERIFY s
      (st\<lparr>e_nOpCount := e_nOpCount st + n\<rparr>) = Inr st'" and d: "drop k (e_stack st) = dummy # s"
      and n: "e_nOpCount st + n \<le> 201"
    using assms(1)
    by (auto simp: exec_multisig_def Let_def not_less elim!: sbind_InrE
        split: if_split_asm list.split_asm)
  have "set s \<subseteq> set (e_stack st)" using d by (metis set_drop_subset set_subset_Cons subset_trans)
  then have "op_keeps (st\<lparr>e_nOpCount := e_nOpCount st + n\<rparr>) st'"
    using assms(2) by (intro push_result_keeps [OF r]) (auto simp: elems_ok_def stack_ok_def)
  then show ?thesis using n by (simp add: op_keeps_def)
qed

lemmas exec_group_keeps = push_value_keeps control_keeps stack_multi_keeps stack_single_keeps
  equal_keeps numeric_keeps hash_keeps checksig_keeps multisig_keeps

definition res_keeps :: "eval_state \<Rightarrow> eval_result \<Rightarrow> bool" where
  "res_keeps st r \<longleftrightarrow> (\<forall>st'. r = Inr st' \<longrightarrow> op_keeps st st')"

lemma res_keeps_if: "(c \<Longrightarrow> res_keeps st a) \<Longrightarrow> res_keeps st b \<Longrightarrow> res_keeps st (if c then a else b)"
  by simp

lemma res_keeps_groups:
  assumes "stack_ok st"
  shows "opcode = OP_1NEGATE \<or> (OP_1 \<le> opcode \<and> opcode \<le> OP_16) \<Longrightarrow> res_keeps st (exec_push_value opcode st)"
    and "res_keeps st (exec_control flags ck fExec opcode st)"
    and "res_keeps st (exec_stack_multi opcode st)" and "res_keeps st (exec_stack_single flags opcode st)"
    and "res_keeps st (exec_equal opcode st)" and "res_keeps st (exec_numeric flags opcode st)"
    and "res_keeps st (exec_hash opcode st)" and "res_keeps st (exec_checksig flags ck opcode st)"
    and "res_keeps st (exec_multisig flags ck opcode st)"
    and "res_keeps st (Inl e)" and "res_keeps st (Inr (st\<lparr>e_pbegincodehash := rest\<rparr>))"
  using exec_group_keeps [OF _ assms] assms
  by (auto simp: res_keeps_def) (auto simp: op_keeps_def elems_ok_def stack_ok_def)

lemma exec_switch_keeps:
  assumes "exec_switch flags ck fExec rest opcode st = Inr st'" and "stack_ok st"
  shows "op_keeps st st'"
proof -
  have "res_keeps st (exec_switch flags ck fExec rest opcode st)"
    unfolding exec_switch_def by (intro res_keeps_if res_keeps_groups [OF assms(2)]) assumption
  then show ?thesis using assms(1) by (simp add: res_keeps_def)
qed

lemma exec_instr_limits:
  assumes "exec_instr flags ck opcode v rest st = Inr st'" and "limits_ok st"
  shows "limits_ok st'"
proof -
  define st1 where "st1 = (if opcode > OP_16 then st\<lparr>e_nOpCount := e_nOpCount st + 1\<rparr> else st)"
  obtain st2 where
    r: "(if False \<notin> set (e_vfExec st) \<and> opcode \<le> OP_PUSHDATA4
         then (if has_flag flags SCRIPT_VERIFY_MINIMALDATA \<and> \<not> CheckMinimalPush v opcode
               then Inl SCRIPT_ERR_MINIMALDATA
               else Inr (st1\<lparr>e_stack := v # e_stack st1\<rparr>))
         else if False \<notin> set (e_vfExec st) \<or> (OP_IF \<le> opcode \<and> opcode \<le> OP_ENDIF)
         then exec_switch flags ck (False \<notin> set (e_vfExec st)) rest opcode st1
         else Inr st1) = Inr st2"
    and v: "length v \<le> MAX_SCRIPT_ELEMENT_SIZE" and n: "opcode > OP_16 \<Longrightarrow> e_nOpCount st1 \<le> 201"
    and st': "st' = st2" "length (e_stack st2) + length (e_alt st2) \<le> 1000"
    using assms(1) by (auto simp: exec_instr_def Let_def st1_def elim!: sbind_InrE split: if_split_asm)
  have ok1: "stack_ok st1" "e_nOpCount st1 \<le> 201"
    using assms(2) n by (auto simp: st1_def limits_ok_def stack_ok_def elems_ok_def)
  have "op_keeps st1 st2"
  proof (cases "st2 = st1 \<or> st2 = st1\<lparr>e_stack := v # e_stack st1\<rparr>")
    case True
    then show ?thesis using ok1 v by (auto simp: op_keeps_def stack_ok_def elems_ok_def)
  next
    case False
    then show ?thesis using r ok1 exec_switch_keeps by (auto split: if_split_asm)
  qed
  then show ?thesis using st' ok1 by (simp add: op_keeps_def limits_ok_def)
qed

section \<open>Invariants of the loop\<close>

lemma eval_loop_Nil [simp]: "eval_loop flags ck [] st = Inr st"
  by (simp add: eval_loop.simps)

lemma eval_loop_step:
  "GetOp2 pc = (True, opcode, v, rest) \<Longrightarrow>
   eval_loop flags ck pc st = sbind (exec_instr flags ck opcode v rest st) (eval_loop flags ck rest)"
  by (frule GetOp2_True_nonempty) (subst eval_loop.simps, simp split: sum.splits)

lemma eval_loop_bad: "pc \<noteq> [] \<Longrightarrow> \<not> fst (GetOp2 pc) \<Longrightarrow> eval_loop flags ck pc st = Inl SCRIPT_ERR_BAD_OPCODE"
  by (subst eval_loop.simps) (auto split: prod.splits)

text \<open>What one instruction keeps, the loop keeps.\<close>

locale eval_invariant =
  fixes flags :: u32 and ck :: sig_checker and I :: "eval_state \<Rightarrow> bool"
  assumes instr: "exec_instr flags ck opcode v rest st = Inr st' \<Longrightarrow> I st \<Longrightarrow> I st'"
begin

lemma loop: "eval_loop flags ck pc st = Inr st' \<Longrightarrow> I st \<Longrightarrow> I st'"
proof (induction pc arbitrary: st rule: length_induct)
  case (1 pc)
  obtain ok opcode v rest where g: "GetOp2 pc = (ok, opcode, v, rest)" by (cases "GetOp2 pc") auto
  show ?case
  proof (cases "pc = []")
    case True
    then show ?thesis using "1.prems" by simp
  next
    case False
    then have g: "GetOp2 pc = (True, opcode, v, rest)"
      using "1.prems"(1) g eval_loop_bad [of pc flags ck st] by (cases ok) auto
    then obtain st1 where "exec_instr flags ck opcode v rest st = Inr st1"
        and "eval_loop flags ck rest st1 = Inr st'"
      using "1.prems"(1) eval_loop_step [OF g] by (auto simp: sbind_eq_Inr)
    then show ?thesis using "1.IH" "1.prems"(2) GetOp2_ok_shrinks [OF g] instr by blast
  qed
qed

end

interpretation limits: eval_invariant flags ck limits_ok
  by unfold_locales (rule exec_instr_limits)

lemma EvalScript_limits:
  assumes "EvalScript stack script flags ck = Inr stack'" and "length stack \<le> 1000"
    and "\<forall>v \<in> set stack. length v \<le> MAX_SCRIPT_ELEMENT_SIZE"
  shows "length stack' \<le> 1000 \<and> (\<forall>v \<in> set stack'. length v \<le> MAX_SCRIPT_ELEMENT_SIZE)"
proof -
  obtain st where "eval_loop flags ck script (eval_init stack script) = Inr st" "stack' = e_stack st"
    using assms(1) by (auto simp: EvalScript_def sbind_eq_Inr split: if_split_asm)
  moreover have "limits_ok (eval_init stack script)"
    using assms by (simp add: limits_ok_def elems_ok_def eval_init_def)
  ultimately have "limits_ok st" using limits.loop by blast
  then show ?thesis using \<open>stack' = _\<close> by (auto simp: limits_ok_def elems_ok_def)
qed

section \<open>Disabled opcodes\<close>

lemma exec_instr_disabled:
  "disabled_opcode opcode \<Longrightarrow> exec_instr flags ck opcode v rest st \<noteq> Inr st'"
  by (auto simp: exec_instr_def Let_def)

text \<open>
  An instruction of the script, executed or not, is one of the operations it splits into; a script
  that holds a disabled opcode anywhere fails.
\<close>

lemma eval_loop_disabled:
  "c \<in> set (fst (ops_of pc)) \<Longrightarrow> disabled_opcode (unat (hd c)) \<Longrightarrow> eval_loop flags ck pc st \<noteq> Inr st'"
proof (induction pc arbitrary: st rule: length_induct)
  case (1 pc)
  obtain ok opcode v rest where g: "GetOp2 pc = (ok, opcode, v, rest)" by (cases "GetOp2 pc") auto
  then have ok using "1.prems"(1) ops_of_fail [of pc] by (cases ok) auto
  then have g: "GetOp2 pc = (True, opcode, v, rest)" using g by simp
  obtain c1 where c1: "pc = c1 @ rest" "GetOp2 c1 = (True, opcode, v, [])" "c1 \<noteq> []"
    using GetOp2_split [OF g] by auto
  then have op: "opcode = unat (hd c1)" by (cases c1) (auto simp: Let_def split: if_splits option.splits)
  have "ops_of pc = (c1 # fst (ops_of rest), snd (ops_of rest))"
    using c1 by (simp add: ops_of_step)
  then consider "c = c1" | "c \<in> set (fst (ops_of rest))" using "1.prems"(1) by auto
  then show ?case
  proof cases
    case 1
    then show ?thesis using op "1.prems"(2) exec_instr_disabled eval_loop_step [OF g]
      by (auto simp: sbind_eq_Inr)
  next
    case 2
    then show ?thesis using "1.IH" "1.prems"(2) GetOp2_ok_shrinks [OF g] eval_loop_step [OF g]
      by (auto simp: sbind_eq_Inr)
  qed
qed

section \<open>Multisignatures\<close>

text \<open>
  The greedy matching of signatures against keys, and its specification: the signatures are
  accepted when they match, in order, some of the keys, in order.
\<close>

fun greedy_match :: "('a \<Rightarrow> 'b \<Rightarrow> bool) \<Rightarrow> 'a list \<Rightarrow> 'b list \<Rightarrow> bool" where
  "greedy_match P [] ks = True"
| "greedy_match P (s # ss) [] = False"
| "greedy_match P (s # ss) (k # ks) =
     (if P s k then greedy_match P ss ks else greedy_match P (s # ss) ks)"

lemma greedy_match_iff: "greedy_match P ss ks \<longleftrightarrow> (\<exists>ys. subseq ys ks \<and> list_all2 P ss ys)"
proof (induction P ss ks rule: greedy_match.induct)
  case (3 P s ss k ks)
  have mono: "\<exists>ys. subseq ys ks \<and> list_all2 P ss ys" if a: "subseq ys (k # ks)" "list_all2 P (s # ss) ys" for ys
  proof -
    obtain y zs where "ys = y # zs" "list_all2 P ss zs" using a(2) by (cases ys) auto
    moreover from this a(1) have "subseq zs ks" by (auto split: if_splits dest: subseq_Cons')
    ultimately show ?thesis by blast
  qed
  show ?case
  proof (cases "P s k")
    case True
    have "\<exists>ys. subseq ys (k # ks) \<and> list_all2 P (s # ss) ys" if "subseq ys ks" "list_all2 P ss ys" for ys
      using that True by (intro exI [of _ "k # ys"]) simp
    then show ?thesis using True 3 mono by auto
  next
    case False
    have "subseq ys ks" if "subseq ys (k # ks)" "list_all2 P (s # ss) ys" for ys
      using that False by (cases ys) (auto split: if_splits)
    then show ?thesis using False 3 by (auto intro: subseq_order.trans)
  qed
next
  case (2 P s ss)
  have "ys = []" if "subseq ys []" for ys :: "'b list" using that by (cases ys) auto
  then show ?case by fastforce
qed auto

lemma greedy_match_length: "greedy_match P ss ks \<Longrightarrow> length ss \<le> length ks"
  by (induction P ss ks rule: greedy_match.induct) (auto split: if_splits)

text \<open>The slices of the stack the loop's two indices run over.\<close>

definition slice :: "'a list \<Rightarrow> nat \<Rightarrow> nat \<Rightarrow> 'a list" where
  "slice stack i n = map (\<lambda>k. stack ! (i + k - 1)) [0..<n]"

lemma slice_Suc: "slice stack i (Suc n) = stack ! (i - 1) # slice stack (Suc i) n"
  by (simp add: slice_def upt_conv_Cons map_Suc_upt [symmetric] comp_def del: upt_Suc)

lemma length_slice [simp]: "length (slice stack i n) = n"
  by (simp add: slice_def)

lemma slice_append: "length xs = i - 1 \<Longrightarrow> 0 < i \<Longrightarrow> length ys = n \<Longrightarrow> slice (xs @ ys @ zs) i n = ys"
  by (rule nth_equalityI) (auto simp: slice_def nth_append)

lemma multisig_loop_greedy:
  assumes "\<And>s k. s \<in> set (slice stack isig nSigs) \<Longrightarrow> k \<in> set (slice stack ikey nKeys) \<Longrightarrow>
      check_encodings flags ck s k = Inr ()"
    and "nSigs \<le> nKeys" and "0 < isig" and "0 < ikey"
  shows "multisig_loop flags ck scriptCode stack nKeys isig ikey nSigs =
    Inr (greedy_match (\<lambda>s k. ck_CheckSig ck s k scriptCode)
      (slice stack isig nSigs) (slice stack ikey nKeys))"
  using assms
proof (induction nKeys arbitrary: isig ikey nSigs)
  case 0
  then show ?case by (simp add: slice_def)
next
  case (Suc n)
  let ?P = "\<lambda>s k. ck_CheckSig ck s k scriptCode"
  show ?case
  proof (cases nSigs)
    case 0
    then show ?thesis by (simp add: slice_def)
  next
    case (Suc m)
    define s where "s = stack ! (isig - Suc 0)"
    define k where "k = stack ! (ikey - Suc 0)"
    have sl: "slice stack isig nSigs = s # slice stack (Suc isig) m"
      "slice stack ikey (Suc n) = k # slice stack (Suc ikey) n"
      using Suc by (simp_all add: slice_Suc s_def k_def)
    have enc: "check_encodings flags ck s k = Inr ()" using Suc.prems(1) sl by simp
    show ?thesis
    proof (cases "?P s k")
      case True
      have "multisig_loop flags ck scriptCode stack n (Suc isig) (Suc ikey) m
        = Inr (greedy_match ?P (slice stack (Suc isig) m) (slice stack (Suc ikey) n))"
        using Suc.prems sl Suc by (intro Suc.IH) auto
      then show ?thesis using True enc Suc Suc.prems(2) sl
        by (simp add: Let_def s_def [symmetric] k_def [symmetric])
    next
      case False
      have "\<not> greedy_match ?P (slice stack isig nSigs) (slice stack (Suc ikey) n)" if "n < nSigs"
        using that greedy_match_length [of ?P "slice stack isig nSigs" "slice stack (Suc ikey) n"] by auto
      moreover have "multisig_loop flags ck scriptCode stack n isig (Suc ikey) nSigs
        = Inr (greedy_match ?P (slice stack isig nSigs) (slice stack (Suc ikey) n))" if "nSigs \<le> n"
        using Suc.prems sl that by (intro Suc.IH) auto
      ultimately show ?thesis using False enc Suc sl
        by (simp add: Let_def s_def [symmetric] k_def [symmetric] not_less)
    qed
  qed
qed

lemma script_num_serialize: "\<bar>n\<bar> < 256 ^ 3 \<Longrightarrow> script_num flags (serialize n) 4 = Inr n"
  using length_serialize [of n 3] serialize_minimal [of n]
  by (auto simp: script_num_def CScriptNum_def minimal_vch_def set_vch_serialize
      byte_high_iff not_le split: option.split)

lemma exec_multisig_spec:
  assumes st: "e_stack st = serialize (int (length keys)) # keys @ serialize (int (length sigs)) # sigs @ dummy # s"
    and n: "length sigs \<le> length keys" "length keys \<le> 20" "e_nOpCount st + length keys \<le> 201"
    and enc: "\<And>v k. v \<in> set sigs \<Longrightarrow> k \<in> set keys \<Longrightarrow> check_encodings flags ck v k = Inr ()"
    and d: "has_flag flags SCRIPT_VERIFY_NULLDUMMY \<Longrightarrow> dummy = []"
  defines "code \<equiv> drop_sigs (e_pbegincodehash st) sigs"
  shows "exec_multisig flags ck OP_CHECKMULTISIG st = Inr (st\<lparr>
    e_stack := bool_vch (\<exists>ys. subseq ys keys \<and> list_all2 (\<lambda>v k. ck_CheckSig ck v k code) sigs ys) # s,
    e_nOpCount := e_nOpCount st + length keys\<rparr>)"
proof -
  let ?n = "length keys" and ?m = "length sigs" and ?stk = "e_stack st"
  have g: "getint (int ?n) = int ?n" "getint (int ?m) = int ?m" using n by (simp_all add: getint_def)
  have k: "slice ?stk 2 ?n = keys" "slice ?stk (Suc (Suc (Suc ?n))) ?m = sigs"
    using slice_append [of "[serialize (int ?n)]" 2 keys ?n]
      slice_append [of "serialize (int ?n) # keys @ [serialize (int ?m)]" "Suc (Suc (Suc ?n))" sigs ?m]
    by (simp_all add: st)
  have sn: "script_num flags (?stk ! 0) 4 = Inr (int ?n)" "script_num flags (?stk ! Suc ?n) 4 = Inr (int ?m)"
    using n by (simp_all add: st script_num_serialize nth_append)
  have len: "length ?stk \<ge> 3 + ?n + ?m" by (simp add: st)
  have dr: "drop (Suc (Suc (?n + ?m))) ?stk = dummy # s" by (simp add: st)
  have "multisig_loop flags ck code ?stk ?n (Suc (Suc (Suc ?n))) 2 ?m = Inr (greedy_match (\<lambda>v k. ck_CheckSig ck v k code) sigs keys)"
    using multisig_loop_greedy [of ?stk "Suc (Suc (Suc ?n))" ?m 2 ?n flags ck code] enc n(1) by (simp add: k)
  moreover have "map (\<lambda>k. ?stk ! Suc (Suc (?n + k))) [0..<?m] = sigs"
    using k(2) by (simp add: slice_def)
  ultimately show ?thesis
    using len n d dr
    by (auto simp: exec_multisig_def Let_def sn g push_result_def greedy_match_iff code_def)
qed

end
