(* ===== verification/VerifyLemmas.thy ===== *)
theory VerifyLemmas
  imports EvalLemmas
begin

text \<open>
  Whole scripts: running known code instruction by instruction, the evaluation of a
  pay-to-public-key-hash output, the assertion of \<^verbatim>\<open>VerifyScript\<close>, and the byte layout
  \<^verbatim>\<open>IsValidSignatureEncoding\<close> accepts.
\<close>

section \<open>Running known code\<close>

definition executing :: "eval_state \<Rightarrow> bool" where
  "executing st \<longleftrightarrow> False \<notin> set (e_vfExec st)"

lemma eval_push:
  assumes "length v \<le> 520" and "executing st"
    and "length (e_stack st) + length (e_alt st) < 1000"
    and "\<And>opcode. has_flag flags SCRIPT_VERIFY_MINIMALDATA \<Longrightarrow>
      GetOp2 (push_data v @ rest) = (True, opcode, v, rest) \<Longrightarrow> CheckMinimalPush v opcode"
  shows "eval_loop flags ck (push_data v @ rest) st = eval_loop flags ck rest (st\<lparr>e_stack := v # e_stack st\<rparr>)"
proof -
  obtain opcode where o: "opcode \<le> OP_PUSHDATA4" "GetOp2 (push_data v @ rest) = (True, opcode, v, rest)"
    using GetOp2_push_data [of v rest] assms(1) by auto
  then have "exec_instr flags ck opcode v rest st = Inr (st\<lparr>e_stack := v # e_stack st\<rparr>)"
    using assms by (auto simp: exec_instr_def executing_def disabled_opcode_def)
  then show ?thesis using eval_loop_step [OF o(2)] by simp
qed

lemma CheckMinimalPush_push_data:
  assumes "2 \<le> length v" "length v \<le> 520" "GetOp2 (push_data v @ rest) = (True, opcode, v, rest)"
  shows "CheckMinimalPush v opcode"
proof -
  have "le_val (le_bytes 2 (length v)) = length v" using assms(2) by (simp add: le_val_le_bytes)
  then show ?thesis using assms
    by (auto simp: CheckMinimalPush_def push_data_def push_size_def Let_def split: if_splits)
qed

lemma eval_op:
  assumes "OP_PUSHDATA4 < unat b"
  shows "eval_loop flags ck (b # rest) st = sbind (exec_instr flags ck (unat b) [] rest st) (eval_loop flags ck rest)"
  using assms by (intro eval_loop_step) simp

text \<open>One counted, enabled opcode on a state that is executing.\<close>

lemma eval_op_ok:
  assumes "OP_16 < unat b" "e_nOpCount st < 201" "\<not> disabled_opcode (unat b)" "executing st"
    and "exec_switch flags ck True rest (unat b) (st\<lparr>e_nOpCount := e_nOpCount st + 1\<rparr>) = Inr st'"
    and "length (e_stack st') + length (e_alt st') \<le> 1000"
  shows "eval_loop flags ck (b # rest) st = eval_loop flags ck rest st'"
  using assms by (simp add: eval_op exec_instr_def executing_def)

lemma eval_op_err:
  assumes "OP_16 < unat b" "e_nOpCount st < 201" "\<not> disabled_opcode (unat b)" "executing st"
    and "exec_switch flags ck True rest (unat b) (st\<lparr>e_nOpCount := e_nOpCount st + 1\<rparr>) = Inl e"
  shows "eval_loop flags ck (b # rest) st = Inl e"
  using assms by (simp add: eval_op exec_instr_def executing_def)

section \<open>Pay to public-key hash\<close>

definition p2pkh :: "bytes \<Rightarrow> script" where
  "p2pkh h = [0x76, 0xa9] @ push_data h @ [0x88, 0xac]"

lemma EvalScript_pushes2:
  assumes "2 \<le> length a" "length a \<le> 520" "2 \<le> length b" "length b \<le> 520"
  shows "EvalScript [] (push_data a @ push_data b) flags ck = Inr [b, a]"
proof -
  let ?i = "eval_init [] (push_data a @ push_data b)"
  have "length (push_data v) \<le> 525" if "length v \<le> 520" for v
    using that by (auto simp: push_data_def)
  then have "length (push_data a) \<le> 525" and "length (push_data b) \<le> 525" using assms by simp_all
  then have "length (push_data a @ push_data b) \<le> 10000" by simp
  moreover have "eval_loop flags ck (push_data a @ push_data b) ?i
      = eval_loop flags ck (push_data b) (?i\<lparr>e_stack := [a]\<rparr>)"
    using assms CheckMinimalPush_push_data [of a "push_data b"] eval_push [of a ?i flags "push_data b" ck]
    by (simp add: executing_def eval_init_def)
  moreover have "eval_loop flags ck (push_data b) (?i\<lparr>e_stack := [a]\<rparr>) = Inr (?i\<lparr>e_stack := [b, a]\<rparr>)"
    using assms CheckMinimalPush_push_data [of b "[]"] eval_push [of b "?i\<lparr>e_stack := [a]\<rparr>" flags "[]" ck]
    by (simp add: executing_def eval_init_def)
  ultimately show ?thesis by (simp add: EvalScript_def eval_init_def)
qed


lemma EvalScript_p2pkh:
  assumes h: "length h = 20"
  shows "EvalScript [pk, sig] (p2pkh h) flags ck =
    (if Hash160 pk = h
     then sbind (check_encodings flags ck sig pk) (\<lambda>u.
       Inr [bool_vch (ck_CheckSig ck sig pk (snd (FindAndDelete (p2pkh h) (push_data sig))))])
     else Inl SCRIPT_ERR_EQUALVERIFY)"
proof -
  define s :: "valtype list \<Rightarrow> nat \<Rightarrow> eval_state" where
    "s stk n = \<lparr>e_stack = stk, e_alt = [], e_vfExec = [], e_nOpCount = n, e_pbegincodehash = p2pkh h\<rparr>" for stk n
  let ?E = "eval_loop flags ck"
  have p: "p2pkh h = 0x76 # 0xa9 # push_data h @ [0x88, 0xac]" by (simp add: p2pkh_def)
  have 1: "?E (p2pkh h) (s [pk, sig] 0) = ?E (0xa9 # push_data h @ [0x88, 0xac]) (s [pk, pk, sig] 1)"
    unfolding p by (rule eval_op_ok) (auto simp: disabled_opcode_def executing_def exec_switch_def exec_stack_single_def s_def)
  have 2: "?E (0xa9 # push_data h @ [0x88, 0xac]) (s [pk, pk, sig] 1)
      = ?E (push_data h @ [0x88, 0xac]) (s [Hash160 pk, pk, sig] 2)"
    by (rule eval_op_ok) (auto simp: disabled_opcode_def executing_def exec_switch_def exec_hash_def s_def Hash160_def)
  have 3: "?E (push_data h @ [0x88, 0xac]) (s [Hash160 pk, pk, sig] 2)
      = ?E [0x88, 0xac] (s [h, Hash160 pk, pk, sig] 2)"
    using h CheckMinimalPush_push_data [of h "[0x88, 0xac]"]
    by (subst eval_push) (auto simp: executing_def s_def)
  have 4: "?E [0x88, 0xac] (s [h, Hash160 pk, pk, sig] 2)
      = (if Hash160 pk = h then ?E [0xac] (s [pk, sig] 3) else Inl SCRIPT_ERR_EQUALVERIFY)"
  proof (cases "Hash160 pk = h")
    case True
    then show ?thesis
      by (simp, intro eval_op_ok) (auto simp: disabled_opcode_def executing_def exec_switch_def exec_equal_def push_result_def s_def)
  next
    case False
    then show ?thesis
      by (simp, intro eval_op_err) (auto simp: disabled_opcode_def executing_def exec_switch_def exec_equal_def push_result_def s_def)
  qed
  have 5: "?E [0xac] (s [pk, sig] 3) = sbind (check_encodings flags ck sig pk) (\<lambda>u.
      Inr (s [bool_vch (ck_CheckSig ck sig pk (snd (FindAndDelete (p2pkh h) (push_data sig))))] 4))"
  proof (cases "check_encodings flags ck sig pk")
    case (Inl e)
    then show ?thesis
      by (simp, intro eval_op_err) (auto simp: disabled_opcode_def executing_def exec_switch_def exec_checksig_def Let_def s_def)
  next
    case (Inr u)
    have "?E [0xac] (s [pk, sig] 3) = ?E []
       (s [bool_vch (ck_CheckSig ck sig pk (snd (FindAndDelete (p2pkh h) (push_data sig))))] 4)"
      by (rule eval_op_ok) (auto simp: disabled_opcode_def executing_def exec_switch_def exec_checksig_def Let_def s_def
        push_result_def Inr)
    then show ?thesis using Inr by simp
  qed
  have "length (p2pkh h) \<le> 10000" using h by (simp add: p2pkh_def push_data_def)
  moreover have "eval_init [pk, sig] (p2pkh h) = s [pk, sig] 0" by (simp add: eval_init_def s_def)
  moreover have "?E (p2pkh h) (s [pk, sig] 0) = (if Hash160 pk = h
     then sbind (check_encodings flags ck sig pk) (\<lambda>u.
      Inr (s [bool_vch (ck_CheckSig ck sig pk (snd (FindAndDelete (p2pkh h) (push_data sig))))] 4))
     else Inl SCRIPT_ERR_EQUALVERIFY)"
    by (simp only: 1 2 3 4 5)
  ultimately show ?thesis
    by (cases "check_encodings flags ck sig pk") (simp_all add: EvalScript_def s_def)
qed

lemma FindAndDelete_p2pkh:
  assumes "length h = 20" "length sig \<noteq> 20" "length sig < 2 ^ 32" "sig \<noteq> []"
  shows "snd (FindAndDelete (p2pkh h) (push_data sig)) = p2pkh h"
proof -
  have "GetOp2 (push_data h) = (True, 20, h, [])" using assms(1) by (simp add: push_data_def push_size_def Let_def)
  moreover have "GetOp2 [b] = (True, unat b, [], [])" if "OP_PUSHDATA4 < unat b" for b
    using that by simp
  ultimately have ops: "ops_of (push_data h @ r) = (push_data h # fst (ops_of r), snd (ops_of r))"
      "OP_PUSHDATA4 < unat b \<Longrightarrow> ops_of (b # r) = ([b] # fst (ops_of r), snd (ops_of r))" for b r
    using ops_of_step [of "push_data h" 20 h r] ops_of_step [of "[b]" "unat b" "[]" r] by auto
  have "ops_of [] = ([], [])" by (rule ops_of_fail) simp
  then have "ops_of (p2pkh h) = ([[0x76], [0xa9], push_data h, [0x88], [0xac]], [])"
    by (simp add: p2pkh_def ops)
  moreover have "push_data sig \<noteq> push_data h"
  proof
    assume "push_data sig = push_data h"
    then have "sig = h"
      using GetOp2_push_data [of sig "[]"] GetOp2_push_data [of h "[]"] assms(1,3) by fastforce
    then show False using assms(1,2) by simp
  qed
  moreover have "length (push_data sig) > 1" using assms(4) by (cases sig) (auto simp: push_data_def)
  then have sg: "push_data sig \<noteq> [b]" for b by auto
  moreover have "[b] \<noteq> push_data sig" for b using sg [of b] by metis
  ultimately show ?thesis using FindAndDelete_ops [OF assms(3), of "p2pkh h"]
    by (auto simp: p2pkh_def) 
qed

section \<open>The assertion of VerifyScript\<close>

lemma EvalScript_P2SH_empty:
  assumes "IsPayToScriptHash s" shows "EvalScript [] s flags ck = Inl SCRIPT_ERR_INVALID_STACK_OPERATION"
proof -
  obtain h where h: "length h = 20" "s = 0xa9 # [0x14] @ h @ [0x87]" using assms IsPayToScriptHash_iff by auto
  have "eval_loop flags ck s (eval_init [] s) = Inl SCRIPT_ERR_INVALID_STACK_OPERATION"
    unfolding h(2)
    by (rule eval_op_err) (auto simp: disabled_opcode_def executing_def exec_switch_def exec_hash_def eval_init_def)
  then show ?thesis using h by (simp add: EvalScript_def)
qed

lemma VerifyScript_no_assert: "VerifyScript scriptSig scriptPubKey flags ck \<noteq> None"
  using EvalScript_P2SH_empty [of scriptPubKey flags ck]
  by (auto simp: VerifyScript_def split: sum.splits list.splits)

lemma VerifyScript_p2pkh:
  assumes "length h = 20" "20 < length sig" "length sig \<le> 520" "2 \<le> length pk" "length pk \<le> 520"
  shows "VerifyScript (push_data sig @ push_data pk) (p2pkh h) flags ck = Some (Inr ()) \<longleftrightarrow>
    Hash160 pk = h \<and> check_encodings flags ck sig pk = Inr () \<and> ck_CheckSig ck sig pk (p2pkh h)"
proof -
  have push: "IsPushOnly (push_data sig @ push_data pk)"
  proof -
    obtain o1 o2 where "o1 \<le> OP_PUSHDATA4" "o2 \<le> OP_PUSHDATA4"
      "GetOp2 (push_data sig @ push_data pk) = (True, o1, sig, push_data pk)"
      "GetOp2 (push_data pk) = (True, o2, pk, [])"
      using GetOp2_push_data [of sig "push_data pk"] GetOp2_push_data [of pk "[]"] assms by fastforce
    then show ?thesis by (simp add: IsPushOnly.simps [of "push_data sig @ push_data pk"]
        IsPushOnly.simps [of "push_data pk"] IsPushOnly.simps [of "[]"])
  qed
  have "\<not> IsPayToScriptHash (p2pkh h)" by (simp add: IsPayToScriptHash_def p2pkh_def)
  moreover have "EvalScript [] (push_data sig @ push_data pk) flags ck = Inr [pk, sig]"
    using assms by (intro EvalScript_pushes2) auto
  moreover have "CastToBool (bool_vch b) = b" for b by (simp add: bool_vch_def vchTrue_def vchFalse_def)
  moreover have "snd (FindAndDelete (p2pkh h) (push_data sig)) = p2pkh h"
    using assms by (intro FindAndDelete_p2pkh) auto
  ultimately show ?thesis
    using push EvalScript_p2pkh [OF assms(1), of pk sig flags ck]
    by (cases "check_encodings flags ck sig pk") (auto simp: VerifyScript_def)
qed

section \<open>DER\<close>

definition der_int :: "bytes \<Rightarrow> bool" where
  "der_int xs \<longleftrightarrow> xs \<noteq> [] \<and> hd xs AND 0x80 = 0 \<and> (1 < length xs \<and> hd xs = 0 \<longrightarrow> xs ! 1 AND 0x80 \<noteq> 0)"

definition der_sig :: "bytes \<Rightarrow> bytes \<Rightarrow> byte \<Rightarrow> valtype" where
  "der_sig R S h = [0x30, word_of_nat (length R + length S + 4), 0x02, word_of_nat (length R)] @ R @
     [0x02, word_of_nat (length S)] @ S @ [h]"

lemma der_sig_valid:
  assumes "der_int R" "der_int S" "length R + length S \<le> 66"
  shows "IsValidSignatureEncoding (der_sig R S h)"
proof -
  let ?sig = "der_sig R S h"
  obtain r R' s S' where RS: "R = r # R'" "S = s # S'"
    using assms(1,2) by (cases R; cases S) (auto simp: der_int_def)
  have len: "length ?sig = length R + length S + 7" by (simp add: der_sig_def)
  have n: "?sig ! 0 = 0x30" "unat (?sig ! 1) = length ?sig - 3" "?sig ! 2 = 2" "unat (?sig ! 3) = length R"
    using assms(3) unat_byte_of_nat [of "length R + length S + 4"] unat_byte_of_nat [of "length R"]
    by (simp_all add: der_sig_def del: of_nat_add unat_byte_of_nat)
  have m: "unat (?sig ! (5 + length R)) = length S" "?sig ! (length R + 4) = 2"
      "?sig ! 4 = r" "?sig ! (length R + 6) = s"
      "R' \<noteq> [] \<Longrightarrow> ?sig ! 5 = R ! 1" "S' \<noteq> [] \<Longrightarrow> ?sig ! (length R + 7) = S ! 1"
    using assms(3) by (auto simp: der_sig_def RS nth_append nth_Cons' neq_Nil_conv simp del: of_nat_Suc)
  show ?thesis
    using assms len n m
    by (auto simp: IsValidSignatureEncoding_def Let_def RS der_int_def)
qed

lemma valid_der_sig:
  assumes "IsValidSignatureEncoding sig"
  shows "\<exists>R S h. sig = der_sig R S h \<and> der_int R \<and> der_int S \<and> length R + length S \<le> 66"
proof -
  define r where "r = unat (sig ! 3)"
  define t where "t = unat (sig ! (5 + r))"
  have v: "9 \<le> length sig" "length sig \<le> 73" "sig ! 0 = 0x30" "unat (sig ! 1) = length sig - 3"
      "5 + r < length sig" "r + t + 7 = length sig" "sig ! 2 = 0x02" "r \<noteq> 0" "sig ! 4 AND 0x80 = 0"
      "1 < r \<Longrightarrow> sig ! 4 = 0 \<Longrightarrow> sig ! 5 AND 0x80 \<noteq> 0" "sig ! (r + 4) = 0x02" "t \<noteq> 0"
      "sig ! (r + 6) AND 0x80 = 0" "1 < t \<Longrightarrow> sig ! (r + 6) = 0 \<Longrightarrow> sig ! (r + 7) AND 0x80 \<noteq> 0"
    using assms unfolding IsValidSignatureEncoding_def Let_def r_def [symmetric] t_def [symmetric]
    by (auto split: if_split_asm)
  define R where "R = take r (drop 4 sig)"
  define S where "S = take t (drop (r + 6) sig)"
  have l: "length R = r" "length S = t" using v by (simp_all add: R_def S_def)
  have dr: "k < length sig \<Longrightarrow> j = Suc k \<Longrightarrow> drop k sig = sig ! k # drop j sig" for k j
    by (simp add: Cons_nth_drop_Suc)
  have "sig = [sig ! 0, sig ! 1, sig ! 2, sig ! 3] @ drop 4 sig"
    using dr [of 0 1] dr [of 1 2] dr [of 2 3] dr [of 3 4] v(1) by (cases "sig = []") simp_all
  also have "drop 4 sig = R @ drop (r + 4) sig"
    using append_take_drop_id [of r "drop 4 sig"] by (simp add: R_def)
  also have "drop (r + 4) sig = [sig ! (r + 4), sig ! (r + 5)] @ drop (r + 6) sig"
    using dr [of "r + 4" "r + 5"] dr [of "r + 5" "r + 6"] v(5,6) by simp
  also have "drop (r + 6) sig = S @ drop (t + (r + 6)) sig"
    using append_take_drop_id [of t "drop (r + 6) sig"] by (simp add: S_def)
  also have "drop (t + (r + 6)) sig = [sig ! (t + (r + 6))]"
    using dr [of "t + (r + 6)" "t + (r + 7)"] v(6) by simp
  finally have "sig = [sig ! 0, sig ! 1, sig ! 2, sig ! 3] @ R @ [sig ! (r + 4), sig ! (r + 5)] @ S
      @ [sig ! (t + (r + 6))]" by simp
  moreover have "sig ! 1 = word_of_nat (length R + length S + 4)" "sig ! 3 = word_of_nat (length R)"
      "sig ! (r + 5) = word_of_nat (length S)"
  proof -
    have e: "b = word_of_nat n" if "unat b = n" for b :: byte and n using that by auto
    have "unat (sig ! 3) = r" "unat (sig ! (r + 5)) = t" "unat (sig ! 1) = r + t + 4"
      using v(4,6) by (simp_all add: r_def t_def add.commute)
    then show "sig ! 1 = word_of_nat (length R + length S + 4)" "sig ! 3 = word_of_nat (length R)"
      "sig ! (r + 5) = word_of_nat (length S)" unfolding l by (simp_all only: e)
  qed
  ultimately have "sig = der_sig R S (sig ! (t + (r + 6)))" using v by (simp add: der_sig_def)
  moreover have "der_int R" "der_int S"
    using v l by (auto simp: der_int_def R_def S_def hd_drop_conv_nth hd_take add.commute)
  moreover have "length R + length S \<le> 66" using v(2,6) l by simp
  ultimately show ?thesis by blast
qed

lemma IsValidSignatureEncoding_iff: "IsValidSignatureEncoding sig \<longleftrightarrow>
    (\<exists>R S h. sig = der_sig R S h \<and> der_int R \<and> der_int S \<and> length R + length S \<le> 66)"
  using valid_der_sig der_sig_valid by blast

end
