(* ===== verification/Serialize.thy ===== *)
theory Serialize
  imports Prelude
begin

text \<open>
  The wire format, \<^verbatim>\<open>src/src/serialize.h\<close>: integers as their little-endian bytes (the host's order
  on the supported platforms), compact sizes, variable-length integers, byte vectors and vectors
  of objects. Writing is the string of bytes a stream receives; reading takes the bytes left in
  the stream and gives the value and the rest, or \<open>None\<close> for the \<^verbatim>\<open>ios_base::failure\<close> it throws.

  The locale \<open>codec\<close> is the contract of a serialisable type: what is written is read back whatever
  follows it, and \<^verbatim>\<open>GetSerializeSize\<close> is the number of bytes written. Vectors of a serialisable type
  are serialisable.
\<close>

type_synonym 'a reader = "bytes \<Rightarrow> ('a \<times> bytes) option"

definition rbind :: "'a reader \<Rightarrow> ('a \<Rightarrow> 'b reader) \<Rightarrow> 'b reader" where
  "rbind r f s = (case r s of None \<Rightarrow> None | Some (x, s') \<Rightarrow> f x s')"

definition rret :: "'a \<Rightarrow> 'a reader" where
  "rret x s = Some (x, s)"

definition rfail :: "'a reader" where
  "rfail s = None"

lemma rbind_Some [simp]: "r s = Some (x, s') \<Longrightarrow> rbind r f s = f x s'"
  by (simp add: rbind_def)

lemma rret_app [simp]: "rret x s = Some (x, s)"
  by (simp add: rret_def)

section \<open>Flat data\<close>

text \<open>\<^verbatim>\<open>s.read(p, n)\<close>: fails when fewer bytes are left.\<close>

definition READDATA :: "nat \<Rightarrow> bytes reader" where
  "READDATA n s = (if n \<le> length s then Some (take n s, drop n s) else None)"

definition WRITEDATA :: "bytes \<Rightarrow> bytes" where
  "WRITEDATA x = x"

lemma READDATA_append [simp]: "length x = n \<Longrightarrow> READDATA n (x @ s) = Some (x, s)"
  by (simp add: READDATA_def)

definition ser_u32 :: "u32 \<Rightarrow> bytes" where
  "ser_u32 a = WRITEDATA (le_bytes 4 (unat a))"

definition unser_u32 :: "u32 reader" where
  "unser_u32 = rbind (READDATA 4) (\<lambda>x. rret (word_of_nat (le_val x)))"

text \<open>Signed integers of 4 and 8 bytes, in two's complement.\<close>

definition ser_int :: "nat \<Rightarrow> int \<Rightarrow> bytes" where
  "ser_int n a = WRITEDATA (le_bytes n (nat (a mod 2 ^ (8 * n))))"

definition unser_int :: "nat \<Rightarrow> int reader" where
  "unser_int n = rbind (READDATA n) (\<lambda>x.
     let v = int (le_val x) in rret (if v < 2 ^ (8 * n - 1) then v else v - 2 ^ (8 * n)))"

section \<open>Compact sizes\<close>

definition MAX_SIZE :: nat where "MAX_SIZE = 0x02000000"

definition GetSizeOfCompactSize :: "nat \<Rightarrow> nat" where
  "GetSizeOfCompactSize nSize =
     (if nSize < 253 then 1
      else if nSize \<le> 0xffff then 1 + 2
      else if nSize \<le> 0xffffffff then 1 + 4
      else 1 + 8)"

definition WriteCompactSize :: "nat \<Rightarrow> bytes" where
  "WriteCompactSize nSize =
     (if nSize < 253 then WRITEDATA [word_of_nat nSize]
      else if nSize \<le> 0xffff then WRITEDATA [253] @ WRITEDATA (le_bytes 2 nSize)
      else if nSize \<le> 0xffffffff then WRITEDATA [254] @ WRITEDATA (le_bytes 4 nSize)
      else WRITEDATA [255] @ WRITEDATA (le_bytes 8 nSize))"

definition ReadCompactSize :: "nat reader" where
  "ReadCompactSize =
     rbind (READDATA 1) (\<lambda>ch.
     rbind (if unat (hd ch) < 253 then rret (unat (hd ch))
            else if unat (hd ch) = 253
            then rbind (READDATA 2) (\<lambda>x. if le_val x < 253 then rfail else rret (le_val x))
            else if unat (hd ch) = 254
            then rbind (READDATA 4) (\<lambda>x. if le_val x < 0x10000 then rfail else rret (le_val x))
            else rbind (READDATA 8) (\<lambda>x. if le_val x < 0x100000000 then rfail else rret (le_val x)))
     (\<lambda>nSizeRet. if nSizeRet > MAX_SIZE then rfail else rret nSizeRet))"

section \<open>Variable-length integers\<close>

fun GetSizeOfVarInt :: "nat \<Rightarrow> nat" where
  "GetSizeOfVarInt n = 1 + (if n \<le> 0x7F then 0 else GetSizeOfVarInt (n div 128 - 1))"

declare GetSizeOfVarInt.simps [simp del]

text \<open>The array \<^verbatim>\<open>tmp\<close> that \<^verbatim>\<open>WriteVarInt\<close> fills, least significant group first.\<close>

fun varint_tmp :: "nat \<Rightarrow> nat \<Rightarrow> bytes" where
  "varint_tmp len n =
     (word_of_nat (n mod 128) OR (if len \<noteq> 0 then 0x80 else 0x00)) #
     (if n \<le> 0x7F then [] else varint_tmp (len + 1) (n div 128 - 1))"

declare varint_tmp.simps [simp del]

definition WriteVarInt :: "nat \<Rightarrow> bytes" where
  "WriteVarInt n = rev (varint_tmp 0 n)"

text \<open>\<^verbatim>\<open>ReadVarInt\<close> for an unsigned type of \<open>w\<close> bits.\<close>

fun varint_read :: "nat \<Rightarrow> nat \<Rightarrow> nat reader" where
  "varint_read w n [] = None"
| "varint_read w n (chData # s) =
     (let n1 = (n * 128) mod 2 ^ w + unat (chData AND 0x7F)
      in if chData AND 0x80 \<noteq> 0 then varint_read w ((n1 + 1) mod 2 ^ w) s
         else Some (n1, s))"

definition ReadVarInt :: "nat \<Rightarrow> nat reader" where
  "ReadVarInt w = varint_read w 0"

section \<open>Vectors\<close>

definition ser_bytes :: "bytes \<Rightarrow> bytes" where
  "ser_bytes v = WriteCompactSize (length v) @ (if v \<noteq> [] then WRITEDATA v else [])"

definition size_bytes :: "bytes \<Rightarrow> nat" where
  "size_bytes v = GetSizeOfCompactSize (length v) + length v"

text \<open>A byte vector is read in blocks of at most 5000000 bytes.\<close>

function unser_blocks :: "nat \<Rightarrow> nat \<Rightarrow> bytes \<Rightarrow> bytes reader" where
  "unser_blocks nSize i v s =
     (if i < nSize
      then let blk = min (nSize - i) (1 + 4999999)
           in rbind (READDATA blk) (\<lambda>x. unser_blocks nSize (i + blk) (v @ x)) s
      else Some (v, s))"
  by pat_completeness auto
termination by (relation "measure (\<lambda>(nSize, i, v, s). nSize - i)") auto

declare unser_blocks.simps [simp del]

definition unser_bytes :: "bytes reader" where
  "unser_bytes = rbind ReadCompactSize (\<lambda>nSize. unser_blocks nSize 0 [])"

definition ser_vector :: "('a \<Rightarrow> bytes) \<Rightarrow> 'a list \<Rightarrow> bytes" where
  "ser_vector ser v = WriteCompactSize (length v) @ concat (map ser v)"

definition size_vector :: "('a \<Rightarrow> nat) \<Rightarrow> 'a list \<Rightarrow> nat" where
  "size_vector sz v = GetSizeOfCompactSize (length v) + sum_list (map sz v)"

primrec unser_items :: "'a reader \<Rightarrow> nat \<Rightarrow> 'a list reader" where
  "unser_items unser 0 = rret []"
| "unser_items unser (Suc n) = rbind unser (\<lambda>x. rbind (unser_items unser n) (\<lambda>xs. rret (x # xs)))"

definition unser_vector :: "'a reader \<Rightarrow> 'a list reader" where
  "unser_vector unser = rbind ReadCompactSize (unser_items unser)"

section \<open>The contract\<close>

locale codec =
  fixes ser :: "'a \<Rightarrow> bytes" and unser :: "'a reader" and sz :: "'a \<Rightarrow> nat" and ok :: "'a \<Rightarrow> bool"
  assumes unser_ser: "ok x \<Longrightarrow> unser (ser x @ s) = Some (x, s)"
    and size_ser: "ok x \<Longrightarrow> sz x = length (ser x)"
begin

text \<open>No encoding is a proper prefix of another, and different values have different encodings.\<close>

lemma ser_prefix_free: "ok x \<Longrightarrow> ok y \<Longrightarrow> ser x @ s = ser y @ t \<Longrightarrow> x = y \<and> s = t"
  by (metis unser_ser option.inject prod.inject)

lemma ser_inj: "ok x \<Longrightarrow> ok y \<Longrightarrow> ser x = ser y \<Longrightarrow> x = y"
  using ser_prefix_free [of x y "[]" "[]"] by simp

lemma unser_items_ser:
  "list_all ok xs \<Longrightarrow> unser_items unser (length xs) (concat (map ser xs) @ s) = Some (xs, s)"
  by (induction xs) (auto simp: unser_ser)

end

lemma rbind_append [simp]: "length x = n \<Longrightarrow> rbind (READDATA n) f (x @ s) = f x s"
  by (simp add: rbind_def)

lemma rbind_READDATA_Cons [simp]: "rbind (READDATA (Suc 0)) f (b # s) = f [b] s"
  using rbind_append [of "[b]" 1 f s] by simp

lemma rbind_assoc [simp]: "rbind (rbind r f) g = rbind r (\<lambda>x. rbind (f x) g)"
  by (rule ext) (simp add: rbind_def split: option.splits)

lemma rbind_rret [simp]: "rbind (rret x) f = f x"
  by (rule ext) (simp add: rbind_def)

lemma unat_word_byte [simp]: "n < 256 \<Longrightarrow> unat (word_of_nat n :: byte) = n"
  by simp

lemma CompactSize_codec: "codec WriteCompactSize ReadCompactSize GetSizeOfCompactSize (\<lambda>n. n \<le> MAX_SIZE)"
proof
  fix n :: nat and s :: bytes
  assume n: "n \<le> MAX_SIZE"
  have 2: "n \<le> 0xffff \<Longrightarrow> le_val (le_bytes 2 n) = n" by (simp add: le_val_le_bytes)
  have 4: "le_val (le_bytes 4 n) = n" using n by (simp add: le_val_le_bytes MAX_SIZE_def)
  have m: "n \<le> 0xffffffff" using n by (simp add: MAX_SIZE_def)
  show "ReadCompactSize (WriteCompactSize n @ s) = Some (n, s)"
    using n m 2 4
    by (auto simp: ReadCompactSize_def WriteCompactSize_def WRITEDATA_def)
  show "GetSizeOfCompactSize n = length (WriteCompactSize n)"
    by (simp add: GetSizeOfCompactSize_def WriteCompactSize_def WRITEDATA_def)
qed

interpretation compact: codec WriteCompactSize ReadCompactSize GetSizeOfCompactSize "\<lambda>n. n \<le> MAX_SIZE"
  by (rule CompactSize_codec)

interpretation u32: codec ser_u32 unser_u32 "\<lambda>_. 4" "\<lambda>_. True"
proof
  fix x :: u32 and s
  have "unat x < 256 ^ 4" using unsigned_less [of x, where ?'a = nat] by simp
  then show "unser_u32 (ser_u32 x @ s) = Some (x, s)"
    by (simp add: unser_u32_def ser_u32_def WRITEDATA_def le_val_le_bytes)
qed (simp add: ser_u32_def WRITEDATA_def)

lemma int_codec:
  assumes "0 < n"
  shows "codec (ser_int n) (unser_int n) (\<lambda>_. n) (\<lambda>a. - (2 ^ (8 * n - 1)) \<le> a \<and> a < 2 ^ (8 * n - 1))"
proof
  fix a :: int and s
  let ?M = "2 ^ (8 * n) :: int" and ?H = "2 ^ (8 * n - 1) :: int"
  assume a: "- ?H \<le> a \<and> a < ?H"
  have M: "?M = 2 * ?H" using assms by (simp flip: power_Suc)
  have p: "(256::nat) ^ n = 2 ^ (8 * n)" by (simp add: power_mult)
  have "nat (a mod ?M) < 2 ^ (8 * n)" by (simp add: nat_less_iff)
  then have v: "int (le_val (le_bytes n (nat (a mod ?M)))) = a mod ?M"
    by (simp add: le_val_le_bytes p)
  have "a mod ?M = (if 0 \<le> a then a else a + ?M)"
  proof (cases "0 \<le> a")
    case True then show ?thesis using a M by simp
  next
    case False
    then have "(a + ?M) mod ?M = a + ?M" using a M by (intro mod_pos_pos_trivial) auto
    then show ?thesis using False by simp
  qed
  moreover have "unser_int n (ser_int n a @ s) =
      Some (if a mod ?M < ?H then a mod ?M else a mod ?M - ?M, s)"
  proof -
    have "unser_int n (ser_int n a @ s) = (let v = int (le_val (le_bytes n (nat (a mod ?M))))
        in Some (if v < ?H then v else v - ?M, s))"
      by (simp add: unser_int_def ser_int_def WRITEDATA_def Let_def)
    then show ?thesis unfolding v Let_def .
  qed
  ultimately show "unser_int n (ser_int n a @ s) = Some (a, s)" using a M by auto
qed (simp add: ser_int_def WRITEDATA_def)

interpretation int32: codec "ser_int 4" "unser_int 4" "\<lambda>_. 4" "\<lambda>a. - (2 ^ 31) \<le> a \<and> a < 2 ^ 31"
  using int_codec [of 4] by simp

interpretation int64: codec "ser_int 8" "unser_int 8" "\<lambda>_. 8" "\<lambda>a. - (2 ^ 63) \<le> a \<and> a < 2 ^ 63"
  using int_codec [of 8] by simp

section \<open>Variable-length integers read back\<close>

lemma varint_read_high:
  assumes "0 < len" "n + 1 < 2 ^ w" "7 < w"
  shows "varint_read w 0 (rev (varint_tmp len n) @ s) = varint_read w (n + 1) s"
  using assms
proof (induction len n arbitrary: s rule: varint_tmp.induct)
  case (1 len n)
  show ?case
  proof (cases "n \<le> 0x7F")
    case True
    then show ?thesis using "1.prems" by (simp add: varint_tmp.simps [of len n] unat_of_nat_7bit Let_def)
  next
    case False
    define m where "m = n div 128 - 1"
    have m: "m + 1 = n div 128" "(m + 1) * 128 + n mod 128 = n" using False by (simp_all add: m_def)
    then have lt: "(m + 1) * 128 < 2 ^ w" "m + 1 < 2 ^ w" using "1.prems" by linarith+
    have "varint_read w 0 (rev (varint_tmp (len + 1) m) @ [word_of_nat (n mod 128) OR 0x80] @ s)
        = varint_read w (m + 1) ([word_of_nat (n mod 128) OR 0x80] @ s)"
      using "1.IH" False "1.prems" lt unfolding m_def by (intro "1.IH") auto
    also have "\<dots> = varint_read w (n + 1) s"
      using lt m(2) "1.prems" by (simp add: unat_of_nat_7bit Let_def)
    finally show ?thesis using False "1.prems"(1) by (simp add: varint_tmp.simps [of len n] m_def)
  qed
qed

lemma varint_read_write:
  assumes "n < 2 ^ w" "7 < w" shows "ReadVarInt w (WriteVarInt n @ s) = Some (n, s)"
proof (cases "n \<le> 0x7F")
  case True
  then show ?thesis using assms
    by (simp add: ReadVarInt_def WriteVarInt_def varint_tmp.simps [of 0 n] unat_of_nat_7bit Let_def)
next
  case False
  define m where "m = n div 128 - 1"
  have m: "m + 1 = n div 128" "(m + 1) * 128 + n mod 128 = n" using False by (simp_all add: m_def)
  then have lt: "(m + 1) * 128 < 2 ^ w" "m + 1 < 2 ^ w" using assms by linarith+
  have "varint_read w 0 (rev (varint_tmp 1 m) @ [word_of_nat (n mod 128)] @ s)
      = varint_read w (m + 1) ([word_of_nat (n mod 128)] @ s)"
    using lt assms by (intro varint_read_high) auto
  also have "\<dots> = Some (n, s)" using lt m(2) by (simp add: unat_of_nat_7bit Let_def)
  finally show ?thesis using False
    by (simp add: ReadVarInt_def WriteVarInt_def varint_tmp.simps [of 0 n] m_def)
qed

lemma length_varint_tmp: "length (varint_tmp len n) = GetSizeOfVarInt n"
proof (induction len n rule: varint_tmp.induct)
  case (1 len n)
  then show ?case by (simp add: varint_tmp.simps [of len n] GetSizeOfVarInt.simps [of n])
qed

interpretation varint32: codec WriteVarInt "ReadVarInt 32" GetSizeOfVarInt "\<lambda>n. n < 2 ^ 32"
  by unfold_locales (rule varint_read_write, simp_all add: WriteVarInt_def length_varint_tmp)

interpretation varint64: codec WriteVarInt "ReadVarInt 64" GetSizeOfVarInt "\<lambda>n. n < 2 ^ 64"
  by unfold_locales (rule varint_read_write, simp_all add: WriteVarInt_def length_varint_tmp)

section \<open>Vectors read back\<close>

lemma unser_blocks_read:
  "length x = nSize - i \<Longrightarrow> unser_blocks nSize i v (x @ s) = Some (v @ x, s)"
proof (induction "nSize - i" arbitrary: i v x rule: less_induct)
  case less
  show ?case
  proof (cases "i < nSize")
    case True
    define blk where "blk = min (nSize - i) 5000000"
    have b: "0 < blk" "blk \<le> length x" using True less.prems by (auto simp: blk_def)
    have "unser_blocks nSize (i + blk) (v @ take blk x) (drop blk x @ s) = Some ((v @ take blk x) @ drop blk x, s)"
      using b True less.prems by (intro less.hyps) auto
    moreover have "rbind (READDATA blk) f (x @ s) = f (take blk x) (drop blk x @ s)" for f :: "bytes \<Rightarrow> bytes reader"
      using b by (simp add: rbind_def READDATA_def)
    ultimately show ?thesis using True
      by (subst unser_blocks.simps) (simp add: Let_def blk_def [symmetric] del: One_nat_def)
  next
    case False
    then show ?thesis using less.prems by (subst unser_blocks.simps) simp
  qed
qed

lemma unser_bytes_ser: "length v \<le> MAX_SIZE \<Longrightarrow> unser_bytes (ser_bytes v @ s) = Some (v, s)"
proof -
  assume "length v \<le> MAX_SIZE"
  then have "unser_bytes (ser_bytes v @ s) = unser_blocks (length v) 0 [] (v @ s)"
    by (cases "v = []") (simp_all add: unser_bytes_def ser_bytes_def WRITEDATA_def compact.unser_ser)
  then show ?thesis by (simp add: unser_blocks_read)
qed

interpretation blob: codec ser_bytes unser_bytes size_bytes "\<lambda>v. length v \<le> MAX_SIZE"
  by unfold_locales
     (rule unser_bytes_ser, auto simp: size_bytes_def ser_bytes_def WRITEDATA_def compact.size_ser)

context codec
begin

lemma vector_unser_ser:
  "length xs \<le> MAX_SIZE \<Longrightarrow> list_all ok xs \<Longrightarrow> unser_vector unser (ser_vector ser xs @ s) = Some (xs, s)"
  by (simp add: unser_vector_def ser_vector_def compact.unser_ser unser_items_ser)

lemma vector_size:
  "length xs \<le> MAX_SIZE \<Longrightarrow> list_all ok xs \<Longrightarrow> size_vector sz xs = length (ser_vector ser xs)"
  by (induction xs) (auto simp: size_vector_def ser_vector_def compact.size_ser size_ser
      length_concat comp_def intro!: arg_cong [where f = sum_list])

lemma vector_codec: "codec (ser_vector ser) (unser_vector unser) (size_vector sz)
    (\<lambda>xs. length xs \<le> MAX_SIZE \<and> list_all ok xs)"
  by unfold_locales (auto simp: vector_unser_ser vector_size)

end

end
