(* ===== verification/Doubles.thy ===== *)
theory Doubles
  imports Complex_Main "HOL-Library.Log_Nat"
begin

text \<open>
  The \<^verbatim>\<open>double\<close> arithmetic of the reward computations in \<^verbatim>\<open>src/src/main.cpp\<close>: a double is the
  rational it stands for, an operation is the exact one followed by rounding to 53 bits, ties to
  even (IEEE 754 binary64, the only rounding mode the program uses). The values that occur are 0
  or lie between \<^verbatim>\<open>2^-10\<close> and \<^verbatim>\<open>2^80\<close>, so overflow and subnormal numbers are left out. A
  conversion to an integer truncates.

  \<open>dround\<close> is monotone and exact on the integers below \<open>2^53\<close>; these two facts are all that the
  bounds on rewards need.
\<close>

definition rnd_even :: "rat \<Rightarrow> int" where
  "rnd_even y =
     (let f = \<lfloor>y\<rfloor>; r = y - of_int f
      in if r < 1 / 2 then f else if r > 1 / 2 then f + 1 else if even f then f else f + 1)"

definition dexp :: "rat \<Rightarrow> int" where
  "dexp x =
     (case quotient_of x of (n, d) \<Rightarrow>
        let k = bitlen n - bitlen d
        in if x < 2 powi k then k - 53 else k - 52)"

definition dround :: "rat \<Rightarrow> rat" where
  "dround x =
     (if x = 0 then 0
      else if x < 0 then - (2 powi dexp (- x) * of_int (rnd_even (- x / 2 powi dexp (- x))))
      else 2 powi dexp x * of_int (rnd_even (x / 2 powi dexp x)))"

definition dtrunc :: "rat \<Rightarrow> int" where
  "dtrunc x = (if x < 0 then - \<lfloor>- x\<rfloor> else \<lfloor>x\<rfloor>)"


lemma rnd_even_mono: "x \<le> y \<Longrightarrow> rnd_even x \<le> rnd_even y"
proof -
  assume xy: "x \<le> y"
  then have f: "\<lfloor>x\<rfloor> \<le> \<lfloor>y\<rfloor>" by (rule floor_mono)
  have b: "\<lfloor>z\<rfloor> \<le> rnd_even z \<and> rnd_even z \<le> \<lfloor>z\<rfloor> + 1" for z by (simp add: rnd_even_def Let_def)
  show ?thesis
  proof (cases "\<lfloor>x\<rfloor> = \<lfloor>y\<rfloor>")
    case True
    then show ?thesis using xy by (auto simp: rnd_even_def Let_def)
  next
    case False
    then have "\<lfloor>x\<rfloor> + 1 \<le> \<lfloor>y\<rfloor>" using f by simp
    then show ?thesis using b [of x] b [of y] by linarith
  qed
qed

lemma rnd_even_of_int [simp]: "rnd_even (of_int n) = n"
  by (simp add: rnd_even_def)

lemma bitlen_rat: "0 < n \<Longrightarrow> 2 powi (bitlen n - 1) \<le> (of_int n :: rat) \<and> of_int n < (2 powi bitlen n :: rat)"
proof -
  assume n: "0 < n"
  then have b: "2 ^ nat (bitlen n - 1) \<le> n \<and> n < 2 ^ nat (bitlen n)" by (rule bitlen_bounds)
  have pos: "0 < bitlen n" using n using bitlen_eq_zero_iff [of n] bitlen_nonneg [of n] by simp 
  then have e: "(2 powi bitlen n :: rat) = 2 ^ nat (bitlen n)" "(2 powi (bitlen n - 1) :: rat) = 2 ^ nat (bitlen n - 1)"
    by (simp_all add: power_int_def)
  show ?thesis unfolding e using b by (metis of_int_le_iff of_int_less_iff of_int_numeral of_int_power)
qed

lemma dexp_bounds:
  assumes "0 < x" shows "2 ^ 52 \<le> x / 2 powi dexp x" "x / 2 powi dexp x < 2 ^ 53"
proof -
  obtain n d where q: "quotient_of x = (n, d)" by (cases "quotient_of x")
  then have d: "0 < d" "x = of_int n / of_int d" using quotient_of_denom_pos quotient_of_div by auto
  then have n: "0 < n" using assms by (simp add: zero_less_divide_iff)
  define k where "k = bitlen n - bitlen d"
  have 1: "x < 2 powi (k + 1)"
  proof -
    have "x < 2 powi bitlen n / of_int d" using d bitlen_rat [OF n] by (simp add: divide_strict_right_mono)
    also have "\<dots> \<le> 2 powi bitlen n / 2 powi (bitlen d - 1)"
      using bitlen_rat [OF d(1)] d by (intro divide_left_mono) simp_all
    also have "\<dots> = 2 powi (k + 1)" by (simp add: k_def power_int_diff power_int_add)
    finally show ?thesis .
  qed
  have 2: "2 powi (k - 1) \<le> x"
  proof -
    have "2 powi (k - 1) = 2 powi (bitlen n - 1) / (2 powi bitlen d :: rat)" by (simp add: k_def power_int_diff)
    also have "\<dots> \<le> of_int n / 2 powi bitlen d" using bitlen_rat [OF n] by (simp add: divide_right_mono)
    also have "\<dots> \<le> of_int n / of_int d" using bitlen_rat [OF d(1)] d n by (intro divide_left_mono) simp_all
    finally show ?thesis using d by simp
  qed
  have e: "dexp x = (if x < 2 powi k then k - 53 else k - 52)" by (simp add: dexp_def q k_def)
  have p: "(2 powi (k - 53) :: rat) * 2 ^ 52 = 2 powi (k - 1)" "(2 powi (k - 53) :: rat) * 2 ^ 53 = 2 powi k"
    "(2 powi (k - 52) :: rat) * 2 ^ 52 = 2 powi k" "(2 powi (k - 52) :: rat) * 2 ^ 53 = 2 powi (k + 1)"
    by (simp_all add: power_int_diff power_int_add)
  show "2 ^ 52 \<le> x / 2 powi dexp x" "x / 2 powi dexp x < 2 ^ 53"
    using 1 2 p by (auto simp: e pos_le_divide_eq pos_divide_less_eq mult.commute)
qed

lemma dround_pos: "0 < x \<Longrightarrow> dround x = 2 powi dexp x * of_int (rnd_even (x / 2 powi dexp x))"
  by (simp add: dround_def)

lemma dround_0 [simp]: "dround 0 = 0"
  by (simp add: dround_def)

lemma dround_minus: "dround (- x) = - dround x"
  by (simp add: dround_def)

lemma rnd_even_bounds: "of_int a \<le> y \<Longrightarrow> a \<le> rnd_even y" "y \<le> of_int b \<Longrightarrow> rnd_even y \<le> b"
  using rnd_even_mono by fastforce+

lemma dround_bounds:
  assumes "0 < x"
  shows "2 powi (dexp x + 52) \<le> dround x" "dround x \<le> 2 powi (dexp x + 53)"
proof -
  have "2 ^ 52 \<le> rnd_even (x / 2 powi dexp x)"
    using dexp_bounds(1) [OF assms] by (intro rnd_even_bounds(1)) simp
  then have "(of_int (2 ^ 52) :: rat) \<le> of_int (rnd_even (x / 2 powi dexp x))" by (simp only: of_int_le_iff)
  moreover have "rnd_even (x / 2 powi dexp x) \<le> 2 ^ 53"
    using dexp_bounds(2) [OF assms] by (intro rnd_even_bounds(2)) simp
  then have "of_int (rnd_even (x / 2 powi dexp x)) \<le> (of_int (2 ^ 53) :: rat)" by (simp only: of_int_le_iff)
  ultimately show "2 powi (dexp x + 52) \<le> dround x" "dround x \<le> 2 powi (dexp x + 53)"
    using assms by (simp_all add: dround_pos power_int_add)
qed

lemma dround_mono_pos:
  assumes "0 < x" "x \<le> y" shows "dround x \<le> dround y"
proof -
  have y: "0 < y" using assms by simp
  consider "dexp x = dexp y" | "dexp x < dexp y" | "dexp y < dexp x" by linarith
  then show ?thesis
  proof cases
    case 1
    have "rnd_even (x / 2 powi dexp y) \<le> rnd_even (y / 2 powi dexp y)"
      using assms by (intro rnd_even_mono divide_right_mono) simp_all
    then show ?thesis using assms y 1 by (simp add: dround_pos)
  next
    case 2
    then have "(2::rat) powi (dexp x + 53) \<le> 2 powi (dexp y + 52)" by (intro power_int_increasing) auto
    then show ?thesis using dround_bounds [OF assms(1)] dround_bounds [OF y] by linarith
  next
    case 3
    have "y < 2 powi (dexp y + 53)" "2 powi (dexp x + 52) \<le> x"
      using dexp_bounds [OF assms(1)] dexp_bounds [OF y]
      by (simp_all add: power_int_add pos_le_divide_eq pos_divide_less_eq mult.commute)
    moreover have "(2::rat) powi (dexp y + 53) \<le> 2 powi (dexp x + 52)"
      using 3 by (intro power_int_increasing) auto
    ultimately show ?thesis using assms(2) by linarith
  qed
qed

lemma dround_nonneg: "0 \<le> x \<Longrightarrow> 0 \<le> dround x"
proof (cases "x = 0")
  case False
  assume "0 \<le> x"
  then have "0 < x" using False by simp
  then have "0 < (2::rat) powi (dexp x + 52)" by simp
  then show ?thesis using dround_bounds(1) [OF \<open>0 < x\<close>] by linarith
qed simp

lemma dround_mono: "x \<le> y \<Longrightarrow> dround x \<le> dround y"
proof -
  assume xy: "x \<le> y"
  consider "0 < x" | "x \<le> 0" "0 \<le> y" | "y < 0" by linarith
  then show ?thesis
  proof cases
    case 1 then show ?thesis using xy by (rule dround_mono_pos)
  next
    case 2
    have "0 \<le> dround (- x)" using 2 by (intro dround_nonneg) simp
    then show ?thesis using dround_nonneg [of y] 2 by (simp add: dround_minus)
  next
    case 3
    then have "dround (- y) \<le> dround (- x)" using xy by (intro dround_mono_pos) simp_all
    then show ?thesis by (simp add: dround_minus)
  qed
qed

lemma dround_of_int_pos:
  assumes "0 < n" "n < 2 ^ 53" shows "dround (of_int n) = of_int n"
proof -
  define e where "e = dexp (of_int n)"
  have "2 ^ 52 \<le> (of_int n :: rat) / 2 powi e" using assms dexp_bounds(1) by (simp add: e_def)
  then have "2 powi e * 2 ^ 52 \<le> (of_int n :: rat)" by (simp add: pos_le_divide_eq mult.commute)
  also have "\<dots> < 2 ^ 53" using assms(2) by (metis of_int_less_iff of_int_numeral of_int_power)
  finally have "(2::rat) powi e < 2 powi 1" by simp
  then have "e < 1" using power_int_increasing [of 1 e "2::rat"] by (cases "e < 1") auto
  then have p: "(2::rat) powi (- e) = of_int (2 ^ nat (- e))" by (simp add: power_int_def)
  have "(of_int n :: rat) / 2 powi e = of_int n * 2 powi (- e)" by (simp add: power_int_minus divide_inverse)
  also have "\<dots> = of_int (n * 2 ^ nat (- e))" unfolding p by simp
  finally have "rnd_even ((of_int n :: rat) / 2 powi e) = n * 2 ^ nat (- e)"
    by (simp only: rnd_even_of_int)
  then have "dround (of_int n) = 2 powi e * (of_int n * 2 powi (- e))"
    using assms p by (simp add: dround_pos e_def [symmetric])
  then show ?thesis by (simp add: power_int_minus)
qed

lemma dround_of_int: "\<bar>n\<bar> < 2 ^ 53 \<Longrightarrow> dround (of_int n) = of_int n"
  using dround_of_int_pos [of n] dround_of_int_pos [of "- n"] dround_minus [of "of_int n"]
  by (cases n "0::int" rule: linorder_cases) auto

lemma dtrunc_mono:
  assumes "x \<le> y" shows "dtrunc x \<le> dtrunc y"
proof -
  consider "0 \<le> x" | "x < 0" "0 \<le> y" | "y < 0" by linarith
  then show ?thesis
  proof cases
    case 1
    then show ?thesis using assms floor_mono [OF assms] by (simp add: dtrunc_def)
  next
    case 2
    then have "0 \<le> \<lfloor>- x\<rfloor>" "0 \<le> \<lfloor>y\<rfloor>" by simp_all
    then have "- \<lfloor>- x\<rfloor> \<le> \<lfloor>y\<rfloor>" by linarith
    moreover have "\<not> y < 0" using 2 by simp
    ultimately show ?thesis using 2 by (simp only: dtrunc_def if_True if_False)
  next
    case 3
    then show ?thesis using assms floor_mono [of "- y" "- x"] by (simp add: dtrunc_def)
  qed
qed

lemma dtrunc_of_int [simp]: "dtrunc (of_int n) = n"
  by (simp add: dtrunc_def flip: of_int_minus)

lemma dtrunc_le: "x \<le> of_int n \<Longrightarrow> dtrunc x \<le> n"
  using dtrunc_mono by fastforce

lemma dtrunc_nonneg: "0 \<le> x \<Longrightarrow> 0 \<le> dtrunc x"
  by (simp add: dtrunc_def)
end
