(* ===== verification/Rewards.thy ===== *)
theory Rewards
  imports Prelude Doubles "HOL-Library.Signed_Division"
begin

text \<open>
  Block rewards and their distribution, \<^verbatim>\<open>src/src/main.cpp\<close> (\<^verbatim>\<open>GetBlockValue\<close>, \<^verbatim>\<open>GetSeeSaw\<close>,
  \<^verbatim>\<open>GetProsperitynodePayment\<close>, \<^verbatim>\<open>GetMasternodePayment\<close>) and the fee rate of \<^verbatim>\<open>amount.cpp\<close>. What the
  functions read of the rest of the node (network, sporks, the masternode manager's count by
  protocol version, the money supply at the tip) is the record \<open>reward_env\<close>. The two chains of
  \<^verbatim>\<open>else if\<close> of the seesaw are tables of rows (upper threshold, share of the block value); the lower
  threshold a row tests is the upper one of the row before it. Amounts are integers: the
  products with \<^verbatim>\<open>COIN\<close> stay inside \<^verbatim>\<open>int64_t\<close> for any masternode count below \<open>2^31 / 5000\<close>.
\<close>

definition COIN :: CAmount where "COIN = 100000000"
definition CENT :: CAmount where "CENT = 1000000"

record reward_env =
  re_testnet :: bool
  re_spork14 :: bool
  re_spork22 :: int
  re_mnCount :: "int \<Rightarrow> int"
  re_moneySupply :: CAmount

definition MIN_PEER_PROTO_VERSION_BEFORE_ENFORCEMENT :: int where
  "MIN_PEER_PROTO_VERSION_BEFORE_ENFORCEMENT = 71010"
definition MIN_PEER_PROTO_VERSION_AFTER_ENFORCEMENT :: int where
  "MIN_PEER_PROTO_VERSION_AFTER_ENFORCEMENT = 71024"

section \<open>GetBlockValue\<close>

definition GetBlockValue :: "bool \<Rightarrow> int \<Rightarrow> CAmount" where
  "GetBlockValue testnet nHeight =
     (let nSubsidy = 30 * COIN
      in if nHeight = 1 then 22000000 * COIN
         else if nHeight \<ge> 2 \<and> nHeight < 54000 then 1 * COIN
         else if nHeight \<ge> 259200 \<and> nHeight < 518400 then 20 * COIN
         else if nHeight \<ge> 518400 \<and> nHeight < 777600 then 15 * COIN
         else if nHeight \<ge> 777600 \<and> nHeight < 1036800 then 10 * COIN
         else if nHeight \<ge> 1036800 then 5 * COIN
         else if testnet \<and> nHeight < 200 \<and> nHeight > 0 then 250000 * COIN
         else nSubsidy)"

section \<open>GetSeeSaw\<close>

text \<open>Doubles: the conversion of an integer, a decimal literal, a product.\<close>

definition d_int :: "int \<Rightarrow> rat" where "d_int n = dround (of_int n)"
definition d_lit :: "rat \<Rightarrow> rat" where "d_lit q = dround q"
definition d_mul :: "rat \<Rightarrow> rat \<Rightarrow> rat" where "d_mul a b = dround (a * b)"

text \<open>\<^verbatim>\<open>ret = blockValue * q\<close>: a double product converted back to \<^verbatim>\<open>int64_t\<close>.\<close>

definition share :: "CAmount \<Rightarrow> rat \<Rightarrow> CAmount" where
  "share blockValue q = dtrunc (d_mul (d_int blockValue) (d_lit q))"

text \<open>The table before block 325000.\<close>

definition seesaw_old :: "(rat \<times> rat) list" where
  "seesaw_old =
  [
   (5 / 100, 85 / 100), (1 / 10, 8 / 10), (15 / 100, 75 / 100), (2 / 10, 7 / 10),
   (25 / 100, 65 / 100), (3 / 10, 6 / 10), (35 / 100, 55 / 100), (4 / 10, 5 / 10),
   (45 / 100, 45 / 100), (5 / 10, 4 / 10), (55 / 100, 35 / 100), (6 / 10, 3 / 10),
   (65 / 100, 25 / 100), (7 / 10, 2 / 10), (75 / 100, 15 / 100)]"

text \<open>The table after block 325000.\<close>

definition seesaw_new :: "(rat \<times> rat) list" where
  "seesaw_new =
  [
   (1 / 100, 90 / 100), (2 / 100, 88 / 100), (3 / 100, 87 / 100), (4 / 100, 86 / 100),
   (5 / 100, 85 / 100), (6 / 100, 84 / 100), (7 / 100, 83 / 100), (8 / 100, 82 / 100),
   (9 / 100, 81 / 100), (10 / 100, 80 / 100), (11 / 100, 79 / 100), (12 / 100, 78 / 100),
   (13 / 100, 77 / 100), (14 / 100, 76 / 100), (15 / 100, 75 / 100), (16 / 100, 74 / 100),
   (17 / 100, 73 / 100), (18 / 100, 72 / 100), (19 / 100, 71 / 100), (20 / 100, 70 / 100),
   (21 / 100, 69 / 100), (22 / 100, 68 / 100), (23 / 100, 67 / 100), (24 / 100, 66 / 100),
   (25 / 100, 65 / 100), (26 / 100, 64 / 100), (27 / 100, 63 / 100), (28 / 100, 62 / 100),
   (29 / 100, 61 / 100), (30 / 100, 60 / 100), (31 / 100, 59 / 100), (32 / 100, 58 / 100),
   (33 / 100, 57 / 100), (34 / 100, 56 / 100), (35 / 100, 55 / 100), (363 / 1000, 54 / 100),
   (376 / 1000, 53 / 100), (389 / 1000, 52 / 100), (402 / 1000, 51 / 100), (415 / 1000, 50 / 100),
   (428 / 1000, 49 / 100), (441 / 1000, 48 / 100), (454 / 1000, 47 / 100), (467 / 1000, 46 / 100),
   (48 / 100, 45 / 100), (493 / 1000, 44 / 100), (506 / 1000, 43 / 100), (519 / 1000, 42 / 100),
   (532 / 1000, 41 / 100), (545 / 1000, 40 / 100), (558 / 1000, 39 / 100), (571 / 1000, 38 / 100),
   (584 / 1000, 37 / 100), (597 / 1000, 36 / 100), (61 / 100, 35 / 100), (623 / 1000, 34 / 100),
   (636 / 1000, 33 / 100), (649 / 1000, 32 / 100), (662 / 1000, 31 / 100), (675 / 1000, 30 / 100),
   (688 / 1000, 29 / 100), (701 / 1000, 28 / 100), (714 / 1000, 27 / 100), (727 / 1000, 26 / 100),
   (74 / 100, 25 / 100), (753 / 1000, 24 / 100), (766 / 1000, 23 / 100), (779 / 1000, 22 / 100),
   (792 / 1000, 21 / 100), (805 / 1000, 20 / 100), (818 / 1000, 19 / 100), (831 / 1000, 18 / 100),
   (844 / 1000, 17 / 100), (857 / 1000, 16 / 100), (87 / 100, 15 / 100), (883 / 1000, 14 / 100),
   (896 / 1000, 13 / 100), (909 / 1000, 12 / 100), (922 / 1000, 11 / 100), (935 / 1000, 10 / 100),
   (945 / 1000, 9 / 100), (961 / 1000, 8 / 100), (974 / 1000, 7 / 100), (987 / 1000, 6 / 100),
   (99 / 100, 5 / 100)]"

fun seesaw_band :: "CAmount \<Rightarrow> CAmount \<Rightarrow> CAmount \<Rightarrow> rat \<Rightarrow> (rat \<times> rat) list \<Rightarrow> rat \<Rightarrow> CAmount" where
  "seesaw_band mNodeCoins nMoneySupply blockValue lo [] rest = share blockValue rest"
| "seesaw_band mNodeCoins nMoneySupply blockValue lo ((hi, q) # rows) rest =
     (let h = d_mul (d_int nMoneySupply) (d_lit hi)
      in if d_int mNodeCoins \<le> h \<and> d_int mNodeCoins > lo then share blockValue q
         else seesaw_band mNodeCoins nMoneySupply blockValue h rows rest)"

definition GetSeeSaw :: "reward_env \<Rightarrow> int \<Rightarrow> CAmount \<Rightarrow> CAmount" where
  "GetSeeSaw env nHeight blockValue =
     (let nMasternodeCount =
            (if re_spork14 env then re_mnCount env MIN_PEER_PROTO_VERSION_AFTER_ENFORCEMENT
             else re_mnCount env MIN_PEER_PROTO_VERSION_BEFORE_ENFORCEMENT);
          nMoneySupply = re_moneySupply env;
          mNodeCoins = (if nMasternodeCount \<noteq> 0 then nMasternodeCount * 5000 * COIN else 0);
          ret = blockValue
      in if mNodeCoins = 0 then 0
         else if nHeight < 325000
         then seesaw_band mNodeCoins nMoneySupply blockValue 0 seesaw_old (1 / 10)
         else if nHeight > 325000
         then seesaw_band mNodeCoins nMoneySupply blockValue 0 seesaw_new (1 / 100)
         else ret)"

section \<open>Payments\<close>

definition GetProsperitynodePayment :: "reward_env \<Rightarrow> int \<Rightarrow> CAmount \<Rightarrow> CAmount" where
  "GetProsperitynodePayment env nHeight blockValue =
     (if re_testnet env \<and> nHeight < 200 then 0
      else if nHeight < 209467 then (blockValue * 3) sdiv 10
      else (blockValue * 3) sdiv 10)"

definition GetMasternodePayment :: "reward_env \<Rightarrow> int \<Rightarrow> CAmount \<Rightarrow> CAmount" where
  "GetMasternodePayment env nHeight blockValue =
     (if re_testnet env \<and> nHeight < 200 then 0
      else if nHeight < 209467 then share blockValue (6 / 10)
      else if nHeight < re_spork22 env
      then let blockValue' = share blockValue (6 / 10) in GetSeeSaw env nHeight blockValue'
      else (blockValue * 6) sdiv 10)"

section \<open>CFeeRate (amount.cpp)\<close>

text \<open>\<^verbatim>\<open>nFeePaid * 1000 / nSize\<close> and \<^verbatim>\<open>nSatoshisPerK * nSize / 1000\<close> mix \<^verbatim>\<open>int64_t\<close> with \<^verbatim>\<open>size_t\<close>, so
  the division is that of unsigned 64-bit numbers.\<close>

definition CFeeRate :: "CAmount \<Rightarrow> nat \<Rightarrow> CAmount" where
  "CFeeRate nFeePaid nSize =
     (if nSize > 0 then sint ((word_of_int (nFeePaid * 1000) :: u64) div word_of_nat nSize) else 0)"

definition GetFee :: "CAmount \<Rightarrow> nat \<Rightarrow> CAmount" where
  "GetFee nSatoshisPerK nSize =
     (let nFee = sint ((word_of_int nSatoshisPerK * word_of_nat nSize :: u64) div 1000)
      in if nFee = 0 \<and> nSatoshisPerK > 0 then nSatoshisPerK else nFee)"

definition GetFeePerK :: "CAmount \<Rightarrow> CAmount" where
  "GetFeePerK nSatoshisPerK = GetFee nSatoshisPerK 1000"

section \<open>Bounds\<close>

lemma share_mono: "0 \<le> v \<Longrightarrow> p \<le> q \<Longrightarrow> share v p \<le> share v q"
  unfolding share_def d_mul_def d_lit_def d_int_def
  by (intro dtrunc_mono dround_mono mult_left_mono dround_nonneg) simp_all

lemma share_nonneg: "0 \<le> v \<Longrightarrow> 0 \<le> q \<Longrightarrow> 0 \<le> share v q"
  unfolding share_def d_mul_def d_lit_def d_int_def
  by (intro dtrunc_nonneg dround_nonneg mult_nonneg_nonneg) simp_all

lemma share_le:
  assumes "0 \<le> v" "v < 2 ^ 53" "of_int v * d_lit q \<le> of_int m" "0 \<le> m" "m < 2 ^ 53"
  shows "share v q \<le> m"
proof -
  have "d_mul (d_int v) (d_lit q) \<le> dround (of_int m)"
    using assms unfolding d_mul_def d_int_def by (intro dround_mono) (simp add: dround_of_int)
  also have "\<dots> = of_int m" using assms by (simp add: dround_of_int)
  finally show ?thesis unfolding share_def by (rule dtrunc_le)
qed

lemma share_le_self:
  assumes "0 \<le> v" "v < 2 ^ 53" "0 \<le> q" "q \<le> 1" shows "share v q \<le> v"
proof (rule share_le [OF assms(1,2) _ assms(1,2)])
  have "d_lit q \<le> dround (of_int 1)" unfolding d_lit_def using assms by (intro dround_mono) simp
  also have "\<dots> = 1" by (subst dround_of_int) simp_all
  finally show "of_int v * d_lit q \<le> of_int v" using assms by (simp add: mult_left_le)
qed

text \<open>A table is well formed when its thresholds rise and its shares fall.\<close>

definition shares_fall :: "(rat \<times> rat) list \<Rightarrow> rat \<Rightarrow> bool" where
  "shares_fall rows rest \<longleftrightarrow> successively (\<ge>) (map snd rows @ [rest])"

lemma seesaw_old_ok: "shares_fall seesaw_old (1 / 10)"
  by (simp add: shares_fall_def seesaw_old_def)

lemma seesaw_new_ok: "shares_fall seesaw_new (1 / 100)"
  by (simp add: shares_fall_def seesaw_new_def)


lemma shares_fall_sorted: "shares_fall rows rest \<Longrightarrow> sorted_wrt (\<ge>) (map snd rows @ [rest])"
  unfolding shares_fall_def by (subst (asm) successively_conv_sorted_wrt) (auto intro: transpI)

lemma seesaw_band_in:
  "\<exists>q \<in> set (map snd rows @ [rest]). seesaw_band c m v lo rows rest = share v q"
  by (induction c m v lo rows rest rule: seesaw_band.induct) (auto simp: Let_def)

lemma seesaw_shares_unit:
  "\<forall>q \<in> set (map snd seesaw_old @ [1 / 10]). 0 \<le> q \<and> q \<le> 1"
  "\<forall>q \<in> set (map snd seesaw_new @ [1 / 100]). 0 \<le> q \<and> q \<le> 1"
  by (simp_all add: seesaw_old_def seesaw_new_def)

lemma GetSeeSaw_bounds:
  assumes "0 \<le> v" "v < 2 ^ 53" shows "0 \<le> GetSeeSaw env h v" "GetSeeSaw env h v \<le> v"
proof -
  have "0 \<le> seesaw_band c m v lo rows rest \<and> seesaw_band c m v lo rows rest \<le> v"
    if "\<forall>q \<in> set (map snd rows @ [rest]). 0 \<le> q \<and> q \<le> 1" for c m lo rows rest
    using seesaw_band_in [of rows rest c m v lo] that assms share_nonneg share_le_self by metis
  note * = this [OF seesaw_shares_unit(1)] this [OF seesaw_shares_unit(2)]
  show "0 \<le> GetSeeSaw env h v" "GetSeeSaw env h v \<le> v"
    using assms * by (simp_all add: GetSeeSaw_def Let_def)
qed

text \<open>More coins in masternodes never pay more.\<close>

lemma seesaw_band_le:
  assumes "\<forall>q \<in> set (map snd rows @ [rest]). q \<le> p" "0 \<le> v"
  shows "seesaw_band c m v lo rows rest \<le> share v p"
  using seesaw_band_in [of rows rest c m v lo] share_mono [OF assms(2)] assms(1) by metis

lemma seesaw_band_antitone:
  assumes "sorted_wrt (\<ge>) (map snd rows @ [rest])" "0 \<le> v"
    and "d_int a > lo" "d_int a \<le> d_int b"
  shows "seesaw_band b m v lo rows rest \<le> seesaw_band a m v lo rows rest"
  using assms
proof (induction rows arbitrary: lo)
  case (Cons r rows)
  obtain hi q where r: "r = (hi, q)" by fastforce
  define h where "h = d_mul (d_int m) (d_lit hi)"
  have fall: "\<forall>p \<in> set (map snd rows @ [rest]). p \<le> q" using Cons.prems(1) by (auto simp: r)
  consider "d_int b \<le> h" | "d_int a \<le> h" "h < d_int b" | "h < d_int a" by linarith
  then show ?case
  proof cases
    case 1
    then show ?thesis using Cons.prems by (simp add: r h_def [symmetric] Let_def)
  next
    case 2
    then show ?thesis using Cons.prems seesaw_band_le [OF fall Cons.prems(2), of b m h]
      by (simp add: r h_def [symmetric] Let_def)
  next
    case 3
    then have "seesaw_band b m v h rows rest \<le> seesaw_band a m v h rows rest"
      using Cons.prems by (intro Cons.IH) auto
    then show ?thesis using 3 Cons.prems by (simp add: r h_def [symmetric] Let_def)
  qed
qed simp

lemma d_int_mono: "a \<le> b \<Longrightarrow> d_int a \<le> d_int b"
  unfolding d_int_def by (intro dround_mono) simp

lemma d_int_pos: "0 < n \<Longrightarrow> 0 < d_int n"
proof -
  assume "0 < n"
  then have "dround (of_int 1) \<le> d_int n" unfolding d_int_def by (intro dround_mono) simp
  then show ?thesis by (subst (asm) dround_of_int) simp_all
qed

definition adjusted_count :: "reward_env \<Rightarrow> int" where
  "adjusted_count env =
     re_mnCount env (if re_spork14 env then MIN_PEER_PROTO_VERSION_AFTER_ENFORCEMENT
                     else MIN_PEER_PROTO_VERSION_BEFORE_ENFORCEMENT)"

lemma GetSeeSaw_antitone:
  assumes "0 \<le> v" "0 < adjusted_count env1" "adjusted_count env1 \<le> adjusted_count env2"
    and "re_moneySupply env1 = re_moneySupply env2" "h \<noteq> 325000"
  shows "GetSeeSaw env2 h v \<le> GetSeeSaw env1 h v"
proof -
  let ?c = "\<lambda>env. adjusted_count env * 5000 * COIN"
  have c: "d_int (?c env1) \<le> d_int (?c env2)" "0 < d_int (?c env1)"
    using assms by (auto intro!: d_int_mono d_int_pos simp: COIN_def)
  have e: "GetSeeSaw env h v =
      (if h < 325000 then seesaw_band (?c env) (re_moneySupply env) v 0 seesaw_old (1 / 10)
       else seesaw_band (?c env) (re_moneySupply env) v 0 seesaw_new (1 / 100))"
    if "0 < adjusted_count env" for env
    using that assms(5) by (auto simp: GetSeeSaw_def adjusted_count_def COIN_def Let_def split: if_splits)
  have "0 < adjusted_count env2" using assms by linarith
  then show ?thesis
    using assms(2,4) seesaw_band_antitone [OF shares_fall_sorted [OF seesaw_old_ok] assms(1) c(2,1)]
      seesaw_band_antitone [OF shares_fall_sorted [OF seesaw_new_ok] assms(1) c(2,1)]
    by (simp add: e)
qed

lemma lit_six_tenths: "d_lit (6 / 10) \<le> 7 / 10"
proof -
  have "d_lit (6 / 10) = 5404319552844595 / 9007199254740992" by code_simp
  then show ?thesis by simp
qed

lemma sdiv_nonneg: "0 \<le> (a::int) \<Longrightarrow> a sdiv 10 = a div 10"
  by (cases "a = 0") (simp_all add: signed_divide_int_def)

lemma GetMasternodePayment_le:
  assumes "0 \<le> v" "v < 2 ^ 53"
  shows "0 \<le> GetMasternodePayment env h v" "GetMasternodePayment env h v \<le> v - v * 3 div 10"
proof -
  let ?m = "v - v * 3 div 10"
  have m: "0 \<le> ?m" "?m < 2 ^ 53" using assms by linarith+
  have "of_int v * (7 / 10) \<le> (of_int ?m :: rat)"
  proof -
    have "7 * v \<le> 10 * ?m" by presburger
    then have "(of_int (7 * v) :: rat) \<le> of_int (10 * ?m)" by (simp only: of_int_le_iff)
    then show ?thesis by simp
  qed
  moreover have "(of_int v :: rat) * d_lit (6 / 10) \<le> of_int v * (7 / 10)"
    using assms lit_six_tenths by (intro mult_left_mono) simp_all
  ultimately have s: "share v (6 / 10) \<le> ?m"
    using assms m by (intro share_le) auto
  have n: "0 \<le> share v (6 / 10)" using assms by (intro share_nonneg) simp_all
  have g: "0 \<le> GetSeeSaw env h (share v (6 / 10))" "GetSeeSaw env h (share v (6 / 10)) \<le> share v (6 / 10)"
    using n s m by (auto intro!: GetSeeSaw_bounds)
  show "0 \<le> GetMasternodePayment env h v" "GetMasternodePayment env h v \<le> ?m"
    using s n g m assms by (auto simp: GetMasternodePayment_def Let_def sdiv_nonneg)
qed

lemma payments_le_reward:
  assumes "0 \<le> v" "v < 2 ^ 53"
  shows "GetMasternodePayment env h v + GetProsperitynodePayment env h v \<le> v"
  using GetMasternodePayment_le [OF assms, of env h] assms
  by (auto simp: GetProsperitynodePayment_def sdiv_nonneg)

section \<open>Emission and fees\<close>

lemma GetBlockValue_network: "GetBlockValue True h = GetBlockValue False h"
  by (simp add: GetBlockValue_def Let_def)

lemma GetBlockValue_sum:
  assumes "\<And>h. a \<le> h \<Longrightarrow> h < b \<Longrightarrow> GetBlockValue t h = v" "a \<le> b"
  shows "(\<Sum>h \<in> {a..<b}. GetBlockValue t h) = (b - a) * v"
proof -
  have "(\<Sum>h \<in> {a..<b}. GetBlockValue t h) = (\<Sum>h \<in> {a..<b}. v)"
    using assms(1) by (intro sum.cong) auto
  then show ?thesis using assms(2) by simp
qed

text \<open>All the coins created in the blocks from 1 to 1036799.\<close>

lemma emission_before_tail: "(\<Sum>h \<in> {1..<1036800}. GetBlockValue t h) = 39873998 * COIN"
proof -
  let ?S = "\<lambda>a b. \<Sum>h \<in> {a..<b::int}. GetBlockValue t h"
  have split: "?S a c = ?S a b + ?S b c" if "a \<le> b" "b \<le> c" for a b c
    using that by (subst sum.union_disjoint [symmetric]) (auto simp: ivl_disj_un)
  have "?S 1 2 = (2 - 1) * (22000000 * COIN)" by (rule GetBlockValue_sum) (auto simp: GetBlockValue_def Let_def)
  moreover have "?S 2 54000 = (54000 - 2) * COIN" by (rule GetBlockValue_sum) (auto simp: GetBlockValue_def Let_def)
  moreover have "?S 54000 259200 = (259200 - 54000) * (30 * COIN)"
    by (rule GetBlockValue_sum) (auto simp: GetBlockValue_def Let_def)
  moreover have "?S 259200 518400 = (518400 - 259200) * (20 * COIN)"
    by (rule GetBlockValue_sum) (auto simp: GetBlockValue_def Let_def)
  moreover have "?S 518400 777600 = (777600 - 518400) * (15 * COIN)"
    by (rule GetBlockValue_sum) (auto simp: GetBlockValue_def Let_def)
  moreover have "?S 777600 1036800 = (1036800 - 777600) * (10 * COIN)"
    by (rule GetBlockValue_sum) (auto simp: GetBlockValue_def Let_def)
  ultimately show ?thesis
    using split [of 1 2 1036800] split [of 2 54000 1036800] split [of 54000 259200 1036800]
      split [of 259200 518400 1036800] split [of 518400 777600 1036800] by simp
qed

lemma GetSeeSaw_325000: "adjusted_count env \<noteq> 0 \<Longrightarrow> GetSeeSaw env 325000 v = v"
  by (auto simp: GetSeeSaw_def adjusted_count_def COIN_def Let_def split: if_splits)

lemma sint_of_small: "0 \<le> x \<Longrightarrow> x < 2 ^ 63 \<Longrightarrow> sint (word_of_int x :: u64) = x"
  by (simp add: sint_sbintrunc' signed_take_bit_int_eq_self)

lemma GetFee_value:
  assumes "0 \<le> n" "n * int s < 2 ^ 63"
  shows "GetFee n s = (let f = n * int s div 1000 in if f = 0 \<and> 0 < n then n else f)"
proof -
  have p: "0 \<le> n * int s" using assms(1) by simp
  have w: "word_of_int n * word_of_nat s = (word_of_int (n * int s) :: u64)" by simp
  have "uint (word_of_int (n * int s) :: u64) = n * int s"
    using p assms(2) by (simp add: uint_word_of_int take_bit_int_eq_self del: of_int_mult)
  then have "uint ((word_of_int (n * int s) :: u64) div 1000) = n * int s div 1000"
    by (simp add: uint_div_distrib del: of_int_mult)
  then have "(word_of_int (n * int s) :: u64) div 1000 = word_of_int (n * int s div 1000)"
    by (metis word_of_int_uint)
  moreover have "n * int s div 1000 < 2 ^ 63" using p assms(2) by linarith
  ultimately have "sint ((word_of_int (n * int s) :: u64) div 1000) = n * int s div 1000"
    using p by (simp add: sint_of_small pos_imp_zdiv_nonneg_iff del: of_int_mult)
  then show ?thesis by (simp add: GetFee_def w Let_def del: of_int_mult)
qed

lemma GetFee_pos: "0 < n \<Longrightarrow> n * int s < 2 ^ 63 \<Longrightarrow> 0 < GetFee n s"
  by (auto simp: GetFee_value Let_def pos_imp_zdiv_nonneg_iff order_less_le)

lemma GetProsperitynodePayment_nonneg: "0 \<le> v \<Longrightarrow> 0 \<le> GetProsperitynodePayment env h v"
  by (auto simp: GetProsperitynodePayment_def sdiv_nonneg)

end
