(* ===== verification/Transaction.thy ===== *)
theory Transaction
  imports ScriptOps Serialize Rewards
begin

text \<open>
  Transactions, \<^verbatim>\<open>src/src/primitives/transaction.h\<close> and \<^verbatim>\<open>transaction.cpp\<close>, with their context-free
  checks of \<^verbatim>\<open>src/src/main.cpp\<close> (\<^verbatim>\<open>CheckTransaction\<close>, \<^verbatim>\<open>IsFinalTx\<close>, the legacy signature-operation
  count). A \<^verbatim>\<open>uint256\<close> is a 256-bit word. The memory-only fields (the cached hash, \<^verbatim>\<open>prevPubKey\<close>,
  \<^verbatim>\<open>nRounds\<close>) are left out; the hash is computed where the code reads the cached one. Amounts are
  integers, and the additions of \<^verbatim>\<open>GetValueOut\<close>, which tests for a wrap of the 64-bit sum, are done
  modulo \<open>2^64\<close>.

  \<^verbatim>\<open>IsZerocoinSpend\<close> reads \<^verbatim>\<open>scriptSig[0]\<close> without a test for an empty script; the model takes the
  read of a missing byte as one that is not the opcode.
\<close>

type_synonym uint256 = "256 word"

record COutPoint =
  op_hash :: uint256
  op_n :: u32

record CTxIn =
  prevout :: COutPoint
  scriptSig :: script
  nSequence :: u32

record CTxOut =
  nValue :: CAmount
  scriptPubKey :: script

record CTransaction =
  nVersion :: int
  vin :: "CTxIn list"
  vout :: "CTxOut list"
  nLockTime :: u32

section \<open>Outpoints, inputs and outputs\<close>

definition COutPoint_Null :: COutPoint where
  "COutPoint_Null = \<lparr>op_hash = 0, op_n = - 1\<rparr>"

definition COutPoint_IsNull :: "COutPoint \<Rightarrow> bool" where
  "COutPoint_IsNull o1 \<longleftrightarrow> op_hash o1 = 0 \<and> op_n o1 = - 1"

definition COutPoint_less :: "COutPoint \<Rightarrow> COutPoint \<Rightarrow> bool" where
  "COutPoint_less a b \<longleftrightarrow> op_hash a < op_hash b \<or> (op_hash a = op_hash b \<and> op_n a < op_n b)"

definition CTxIn_IsFinal :: "CTxIn \<Rightarrow> bool" where
  "CTxIn_IsFinal txin \<longleftrightarrow> nSequence txin = - 1"

definition CTxOut_Null :: CTxOut where
  "CTxOut_Null = \<lparr>nValue = - 1, scriptPubKey = []\<rparr>"

definition CTxOut_IsNull :: "CTxOut \<Rightarrow> bool" where
  "CTxOut_IsNull txout \<longleftrightarrow> nValue txout = - 1"

definition CTxOut_Empty :: CTxOut where
  "CTxOut_Empty = \<lparr>nValue = 0, scriptPubKey = []\<rparr>"

definition CTxOut_IsEmpty :: "CTxOut \<Rightarrow> bool" where
  "CTxOut_IsEmpty txout \<longleftrightarrow> nValue txout = 0 \<and> scriptPubKey txout = []"

definition CTxOut_IsZerocoinMint :: "CTxOut \<Rightarrow> bool" where
  "CTxOut_IsZerocoinMint txout \<longleftrightarrow> scriptPubKey txout \<noteq> [] \<and> IsZerocoinMint (scriptPubKey txout)"

section \<open>Kinds of transactions\<close>

definition tx_IsZerocoinSpend :: "CTransaction \<Rightarrow> bool" where
  "tx_IsZerocoinSpend tx =
     (case vin tx of
        [] \<Rightarrow> False
      | txin # _ \<Rightarrow> op_hash (prevout txin) = 0 \<and>
          (case scriptSig txin of [] \<Rightarrow> False | b # _ \<Rightarrow> unat b = OP_ZEROCOINSPEND))"

definition tx_IsZerocoinMint :: "CTransaction \<Rightarrow> bool" where
  "tx_IsZerocoinMint tx \<longleftrightarrow> list_ex (\<lambda>txout. IsZerocoinMint (scriptPubKey txout)) (vout tx)"

definition ContainsZerocoins :: "CTransaction \<Rightarrow> bool" where
  "ContainsZerocoins tx \<longleftrightarrow> tx_IsZerocoinSpend tx \<or> tx_IsZerocoinMint tx"

definition IsCoinBase :: "CTransaction \<Rightarrow> bool" where
  "IsCoinBase tx \<longleftrightarrow>
     length (vin tx) = 1 \<and> COutPoint_IsNull (prevout (hd (vin tx))) \<and> \<not> ContainsZerocoins tx"

definition IsCoinStake :: "CTransaction \<Rightarrow> bool" where
  "IsCoinStake tx =
     (case vin tx of
        [] \<Rightarrow> False
      | txin # _ \<Rightarrow>
          let fAllowNull = IsZerocoinSpend (scriptSig txin)
          in if COutPoint_IsNull (prevout txin) \<and> \<not> fAllowNull then False
             else length (vout tx) \<ge> 2 \<and> CTxOut_IsEmpty (hd (vout tx)))"

text \<open>\<^verbatim>\<open>vout[n]\<close> is read only when \<^verbatim>\<open>n\<close> is the last, or last but one, index.\<close>

definition IsProsperitynodeReward :: "COutPoint \<Rightarrow> CTransaction \<Rightarrow> bool" where
  "IsProsperitynodeReward o1 tx =
     (if \<not> IsCoinStake tx then False
      else unat (op_n o1) = length (vout tx) - 1 \<and>
           scriptPubKey (vout tx ! 1) \<noteq> scriptPubKey (vout tx ! unat (op_n o1)))"

definition IsMasternodeReward :: "COutPoint \<Rightarrow> CTransaction \<Rightarrow> bool" where
  "IsMasternodeReward o1 tx =
     (if \<not> IsCoinStake tx then False
      else unat (op_n o1) = length (vout tx) - 2 \<and>
           scriptPubKey (vout tx ! 1) \<noteq> scriptPubKey (vout tx ! unat (op_n o1)))"

section \<open>Amounts\<close>

definition wrap64 :: "int \<Rightarrow> int" where
  "wrap64 x = (x + 2 ^ 63) mod 2 ^ 64 - 2 ^ 63"

text \<open>\<open>None\<close> is the \<^verbatim>\<open>runtime_error\<close> of a negative value or a wrapped sum.\<close>

fun value_out_loop :: "CAmount \<Rightarrow> CTxOut list \<Rightarrow> CAmount option" where
  "value_out_loop nValueOut [] = Some nValueOut"
| "value_out_loop nValueOut (txout # txouts) =
     (if nValue txout < 0 then None
      else if wrap64 (nValueOut + nValue txout) < nValueOut then None
      else value_out_loop (wrap64 (nValueOut + nValue txout)) txouts)"

definition GetValueOut :: "CTransaction \<Rightarrow> CAmount option" where
  "GetValueOut tx = value_out_loop 0 (vout tx)"

fun GetZerocoinMinted :: "CTxOut list \<Rightarrow> CAmount" where
  "GetZerocoinMinted [] = 0"
| "GetZerocoinMinted (txout # txouts) =
     (if \<not> IsZerocoinMint (scriptPubKey txout) then GetZerocoinMinted txouts else nValue txout)"

definition GetZerocoinSpent :: "CTransaction \<Rightarrow> CAmount" where
  "GetZerocoinSpent tx =
     (if \<not> tx_IsZerocoinSpend tx then 0
      else foldl (\<lambda>nValueOut txin.
             if \<not> IsZerocoinSpend (scriptSig txin) then nValueOut
             else wrap64 (nValueOut + uint (nSequence txin) * COIN)) 0 (vin tx))"

definition GetZerocoinMintCount :: "CTransaction \<Rightarrow> nat" where
  "GetZerocoinMintCount tx =
     foldl (\<lambda>nCount txout. if IsZerocoinMint (scriptPubKey txout) then nCount + 1 else nCount) 0 (vout tx)"

definition UsesUTXO :: "CTransaction \<Rightarrow> COutPoint \<Rightarrow> bool" where
  "UsesUTXO tx out \<longleftrightarrow> list_ex (\<lambda>txin. prevout txin = out) (vin tx)"

section \<open>Serialisation\<close>

definition ser_hash :: "uint256 \<Rightarrow> bytes" where
  "ser_hash h = WRITEDATA (le_bytes 32 (unat h))"

definition unser_hash :: "uint256 reader" where
  "unser_hash = rbind (READDATA 32) (\<lambda>x. rret (word_of_nat (le_val x)))"

definition ser_outpoint :: "COutPoint \<Rightarrow> bytes" where
  "ser_outpoint o1 = ser_hash (op_hash o1) @ ser_u32 (op_n o1)"

definition unser_outpoint :: "COutPoint reader" where
  "unser_outpoint = rbind unser_hash (\<lambda>h. rbind unser_u32 (\<lambda>n. rret \<lparr>op_hash = h, op_n = n\<rparr>))"

definition ser_txin :: "CTxIn \<Rightarrow> bytes" where
  "ser_txin i = ser_outpoint (prevout i) @ ser_bytes (scriptSig i) @ ser_u32 (nSequence i)"

definition unser_txin :: "CTxIn reader" where
  "unser_txin = rbind unser_outpoint (\<lambda>p. rbind unser_bytes (\<lambda>s. rbind unser_u32 (\<lambda>q.
     rret \<lparr>prevout = p, scriptSig = s, nSequence = q\<rparr>)))"

definition size_txin :: "CTxIn \<Rightarrow> nat" where
  "size_txin i = 36 + size_bytes (scriptSig i) + 4"

definition ser_txout :: "CTxOut \<Rightarrow> bytes" where
  "ser_txout txout = ser_int 8 (nValue txout) @ ser_bytes (scriptPubKey txout)"

definition unser_txout :: "CTxOut reader" where
  "unser_txout = rbind (unser_int 8) (\<lambda>v. rbind unser_bytes (\<lambda>s. rret \<lparr>nValue = v, scriptPubKey = s\<rparr>))"

definition size_txout :: "CTxOut \<Rightarrow> nat" where
  "size_txout txout = 8 + size_bytes (scriptPubKey txout)"

definition ser_tx :: "CTransaction \<Rightarrow> bytes" where
  "ser_tx tx = ser_int 4 (nVersion tx) @ ser_vector ser_txin (vin tx) @
     ser_vector ser_txout (vout tx) @ ser_u32 (nLockTime tx)"

definition unser_tx :: "CTransaction reader" where
  "unser_tx = rbind (unser_int 4) (\<lambda>ver. rbind (unser_vector unser_txin) (\<lambda>i.
     rbind (unser_vector unser_txout) (\<lambda>o1. rbind unser_u32 (\<lambda>l.
     rret \<lparr>nVersion = ver, vin = i, vout = o1, nLockTime = l\<rparr>))))"

definition size_tx :: "CTransaction \<Rightarrow> nat" where
  "size_tx tx = 4 + size_vector size_txin (vin tx) + size_vector size_txout (vout tx) + 4"

definition uint256_of_bytes :: "bytes \<Rightarrow> uint256" where
  "uint256_of_bytes bs = word_of_nat (le_val bs)"

definition GetHash :: "CTransaction \<Rightarrow> uint256" where
  "GetHash tx = uint256_of_bytes (SerializeHash [ser_tx tx])"

definition GetOutPoints :: "CTransaction \<Rightarrow> COutPoint list" where
  "GetOutPoints tx = map (\<lambda>i. \<lparr>op_hash = GetHash tx, op_n = word_of_nat i\<rparr>) [0..<length (vout tx)]"

definition COutPoint_GetHash :: "COutPoint \<Rightarrow> uint256" where
  "COutPoint_GetHash o1 = uint256_of_bytes (Hash_ranges [ser_hash (op_hash o1), ser_u32 (op_n o1)])"

text \<open>\<^verbatim>\<open>nTxSize\<close> is an \<^verbatim>\<open>unsigned int\<close>, but the test keeps the subtraction from wrapping.\<close>

definition CalculateModifiedSize :: "CTransaction \<Rightarrow> nat \<Rightarrow> nat" where
  "CalculateModifiedSize tx nTxSize =
     foldl (\<lambda>n txin. let offset = 41 + min 110 (length (scriptSig txin))
                     in if n > offset then n - offset else n)
       (if nTxSize = 0 then size_tx tx else nTxSize) (vin tx)"

text \<open>An output is dust when spending it costs more than a third of it.\<close>

definition CTxOut_IsDust :: "CAmount \<Rightarrow> CTxOut \<Rightarrow> bool" where
  "CTxOut_IsDust minRelayTxFee txout =
     (let nSize = size_txout txout + 148 in nValue txout < 3 * GetFee minRelayTxFee nSize)"

section \<open>CheckTransaction (main.cpp)\<close>

definition MAX_STANDARD_TX_SIZE :: nat where "MAX_STANDARD_TX_SIZE = 100000"
definition MAX_ZEROCOIN_TX_SIZE :: nat where "MAX_ZEROCOIN_TX_SIZE = 150000"

text \<open>
  What the checks take from the chain parameters, and the zerocoin verifications, which rest on
  \<^verbatim>\<open>libzerocoin\<close> and its database; whether spend signatures are verified depends on the state of
  the initial download.
\<close>

record check_env =
  ce_MaxMoneyOut :: CAmount
  ce_MaxSpends :: int
  ce_CheckZerocoinMint :: "uint256 \<Rightarrow> CTxOut \<Rightarrow> bool"
  ce_CheckZerocoinSpend :: "CTransaction \<Rightarrow> bool \<Rightarrow> bool"
  ce_fVerifySignature :: bool

definition MoneyRange :: "check_env \<Rightarrow> CAmount \<Rightarrow> bool" where
  "MoneyRange env nValueOut \<longleftrightarrow> nValueOut \<ge> 0 \<and> nValueOut \<le> ce_MaxMoneyOut env"

text \<open>A rejection: the denial-of-service score and the reason sent to the peer.\<close>

type_synonym reject = "nat \<times> string"

fun check_vout :: "check_env \<Rightarrow> CTransaction \<Rightarrow> bool \<Rightarrow> CAmount \<Rightarrow> int \<Rightarrow> CTxOut list \<Rightarrow> reject + int" where
  "check_vout env tx fZerocoinActive nValueOut nZCSpendCount [] = Inr nZCSpendCount"
| "check_vout env tx fZerocoinActive nValueOut nZCSpendCount (txout # txouts) =
     (if CTxOut_IsEmpty txout \<and> \<not> IsCoinBase tx \<and> \<not> IsCoinStake tx then Inl (100, '''')
      else if nValue txout < 0 then Inl (100, ''bad-txns-vout-negative'')
      else if nValue txout > ce_MaxMoneyOut env then Inl (100, ''bad-txns-vout-toolarge'')
      else let nValueOut' = nValueOut + nValue txout
      in if \<not> MoneyRange env nValueOut' then Inl (100, ''bad-txns-txouttotal-toolarge'')
      else if fZerocoinActive \<and> CTxOut_IsZerocoinMint txout \<and>
              \<not> ce_CheckZerocoinMint env (GetHash tx) txout then Inl (100, '''')
      else check_vout env tx fZerocoinActive nValueOut'
             (if fZerocoinActive \<and> IsZerocoinSpend (scriptPubKey txout)
              then nZCSpendCount + 1 else nZCSpendCount) txouts)"

fun check_duplicates :: "COutPoint set \<Rightarrow> CTxIn list \<Rightarrow> reject + unit" where
  "check_duplicates vInOutPoints [] = Inr ()"
| "check_duplicates vInOutPoints (txin # txins) =
     (if prevout txin \<in> vInOutPoints then Inl (100, ''bad-txns-inputs-duplicate'')
      else check_duplicates
             (if \<not> IsZerocoinSpend (scriptSig txin) then insert (prevout txin) vInOutPoints
              else vInOutPoints) txins)"

definition check_zerocoin :: "check_env \<Rightarrow> CTransaction \<Rightarrow> int \<Rightarrow> reject + unit" where
  "check_zerocoin env tx nZCSpendCount =
     (if nZCSpendCount > ce_MaxSpends env then Inl (100, '''')
      else if tx_IsZerocoinSpend tx
      then (if list_ex (\<lambda>txin. \<not> IsZerocoinSpend (scriptSig txin)) (vin tx) then Inl (100, '''')
            else if \<not> ce_CheckZerocoinSpend env tx (ce_fVerifySignature env) then Inl (100, '''')
            else Inr ())
      else Inr ())"

definition CheckTransaction :: "check_env \<Rightarrow> CTransaction \<Rightarrow> bool \<Rightarrow> reject + unit" where
  "CheckTransaction env tx fZerocoinActive =
     (if vin tx = [] then Inl (10, ''bad-txns-vin-empty'')
      else if vout tx = [] then Inl (10, ''bad-txns-vout-empty'')
      else if size_tx tx > MAX_ZEROCOIN_TX_SIZE then Inl (100, ''bad-txns-oversize'')
      else sbind (check_vout env tx fZerocoinActive 0 0 (vout tx)) (\<lambda>nZCSpendCount.
      sbind (if fZerocoinActive then check_zerocoin env tx nZCSpendCount else Inr ()) (\<lambda>u.
      sbind (check_duplicates {} (vin tx)) (\<lambda>u.
      if IsCoinBase tx
      then (if length (scriptSig (hd (vin tx))) < 2 \<or> length (scriptSig (hd (vin tx))) > 150
            then Inl (100, ''bad-cb-length'') else Inr ())
      else if fZerocoinActive \<and> tx_IsZerocoinSpend tx
      then (if length (vin tx) < 1 \<or> int (length (vin tx)) > ce_MaxSpends env
            then Inl (10, ''bad-zerocoinspend'') else Inr ())
      else if list_ex (\<lambda>txin. COutPoint_IsNull (prevout txin) \<and>
                 (fZerocoinActive \<and> \<not> IsZerocoinSpend (scriptSig txin))) (vin tx)
      then Inl (10, ''bad-txns-prevout-null'') else Inr ()))))"

section \<open>Locktime and signature operations (main.cpp)\<close>

text \<open>\<^verbatim>\<open>nBlockHeight = 0\<close> and \<^verbatim>\<open>nBlockTime = 0\<close> stand for the tip's height and the adjusted time.\<close>

definition IsFinalTx :: "int \<Rightarrow> int \<Rightarrow> CTransaction \<Rightarrow> int \<Rightarrow> int \<Rightarrow> bool" where
  "IsFinalTx tipHeight adjustedTime tx nBlockHeight0 nBlockTime0 =
     (if nLockTime tx = 0 then True
      else let nBlockHeight = (if nBlockHeight0 = 0 then tipHeight else nBlockHeight0);
               nBlockTime = (if nBlockTime0 = 0 then adjustedTime else nBlockTime0)
      in if uint (nLockTime tx) <
            (if uint (nLockTime tx) < LOCKTIME_THRESHOLD then nBlockHeight else nBlockTime) then True
         else list_all CTxIn_IsFinal (vin tx))"

definition GetLegacySigOpCount :: "CTransaction \<Rightarrow> nat" where
  "GetLegacySigOpCount tx =
     foldl (\<lambda>n txout. n + GetSigOpCount (scriptPubKey txout) False)
       (foldl (\<lambda>n txin. n + GetSigOpCount (scriptSig txin) False) 0 (vin tx)) (vout tx)"

definition GetP2SHSigOpCount :: "(COutPoint \<Rightarrow> CTxOut) \<Rightarrow> CTransaction \<Rightarrow> nat" where
  "GetP2SHSigOpCount GetOutputFor tx =
     (if IsCoinBase tx \<or> tx_IsZerocoinSpend tx then 0
      else foldl (\<lambda>n txin. let prev = GetOutputFor (prevout txin)
                           in if IsPayToScriptHash (scriptPubKey prev)
                              then n + GetSigOpCount_P2SH (scriptPubKey prev) (scriptSig txin) else n)
             0 (vin tx))"

end
