(* ===== verification/TransactionLemmas.thy ===== *)
theory TransactionLemmas
  imports Transaction
begin

text \<open>
  Transactions are serialisable (interpretations of \<open>codec\<close> up to the whole transaction), so
  equal encodings are equal transactions; the sum of outputs is exact or an error; an accepted
  transaction is well formed.
\<close>

interpretation hash_c: codec ser_hash unser_hash "\<lambda>_. 32" "\<lambda>_. True"
proof
  fix x :: uint256 and s
  have "unat x < 256 ^ 32" using unsigned_less [of x, where ?'a = nat] by simp
  then show "unser_hash (ser_hash x @ s) = Some (x, s)"
    by (simp add: unser_hash_def ser_hash_def WRITEDATA_def le_val_le_bytes)
qed (simp add: ser_hash_def WRITEDATA_def)

interpretation outpoint_c: codec ser_outpoint unser_outpoint "\<lambda>_. 36" "\<lambda>_. True"
  by unfold_locales (simp_all add: unser_outpoint_def ser_outpoint_def hash_c.unser_ser u32.unser_ser
      flip: hash_c.size_ser u32.size_ser)

definition txin_ok :: "CTxIn \<Rightarrow> bool" where
  "txin_ok i \<longleftrightarrow> length (scriptSig i) \<le> MAX_SIZE"

definition txout_ok :: "CTxOut \<Rightarrow> bool" where
  "txout_ok t \<longleftrightarrow> length (scriptPubKey t) \<le> MAX_SIZE \<and> - (2 ^ 63) \<le> nValue t \<and> nValue t < 2 ^ 63"

definition tx_ok :: "CTransaction \<Rightarrow> bool" where
  "tx_ok tx \<longleftrightarrow> length (vin tx) \<le> MAX_SIZE \<and> list_all txin_ok (vin tx) \<and>
     length (vout tx) \<le> MAX_SIZE \<and> list_all txout_ok (vout tx) \<and>
     - (2 ^ 31) \<le> nVersion tx \<and> nVersion tx < 2 ^ 31"

interpretation txin_c: codec ser_txin unser_txin size_txin txin_ok
  by unfold_locales (simp_all add: unser_txin_def ser_txin_def size_txin_def txin_ok_def
      outpoint_c.unser_ser blob.unser_ser u32.unser_ser blob.size_ser
      flip: outpoint_c.size_ser u32.size_ser)

interpretation txout_c: codec ser_txout unser_txout size_txout txout_ok
  by unfold_locales (simp_all add: unser_txout_def ser_txout_def size_txout_def txout_ok_def
      int64.unser_ser blob.unser_ser blob.size_ser flip: int64.size_ser)

interpretation vin_c: codec "ser_vector ser_txin" "unser_vector unser_txin" "size_vector size_txin"
    "\<lambda>xs. length xs \<le> MAX_SIZE \<and> list_all txin_ok xs"
  by (rule txin_c.vector_codec)

interpretation vout_c: codec "ser_vector ser_txout" "unser_vector unser_txout" "size_vector size_txout"
    "\<lambda>xs. length xs \<le> MAX_SIZE \<and> list_all txout_ok xs"
  by (rule txout_c.vector_codec)

interpretation tx_c: codec ser_tx unser_tx size_tx tx_ok
  by unfold_locales (simp_all add: unser_tx_def ser_tx_def size_tx_def tx_ok_def
      int32.unser_ser u32.unser_ser vin_c.unser_ser vout_c.unser_ser vin_c.size_ser vout_c.size_ser
      flip: int32.size_ser u32.size_ser)

lemma GetHash_eq: "GetHash tx = uint256_of_bytes (hash256 (ser_tx tx))"
  by (simp add: GetHash_def SerializeHash_eq)

section \<open>Amounts\<close>

lemma wrap64_id: "- (2 ^ 63) \<le> x \<Longrightarrow> x < 2 ^ 63 \<Longrightarrow> wrap64 x = x"
  by (simp add: wrap64_def)

lemma wrap64_over: "2 ^ 63 \<le> x \<Longrightarrow> x < 2 ^ 64 \<Longrightarrow> wrap64 x = x - 2 ^ 64"
proof -
  assume a: "2 ^ 63 \<le> x" "x < 2 ^ 64"
  have "(x + 2 ^ 63) mod 2 ^ 64 = (x - 2 ^ 63) mod 2 ^ 64"
    using mod_add_self2 [of "x - 2 ^ 63" "2 ^ 64"] by (simp add: algebra_simps)
  then show ?thesis using a by (simp add: wrap64_def)
qed

definition int64_value :: "CTxOut \<Rightarrow> bool" where
  "int64_value t \<longleftrightarrow> - (2 ^ 63) \<le> nValue t \<and> nValue t < 2 ^ 63"

lemma value_out_loop_spec:
  "0 \<le> a \<Longrightarrow> a < 2 ^ 63 \<Longrightarrow> list_all int64_value ts \<Longrightarrow>
   value_out_loop a ts =
     (if list_all (\<lambda>t. 0 \<le> nValue t) ts \<and> a + sum_list (map nValue ts) < 2 ^ 63
      then Some (a + sum_list (map nValue ts)) else None)"
proof (induction ts arbitrary: a)
  case (Cons t ts)
  let ?v = "nValue t"
  have nn: "list_all (\<lambda>t. 0 \<le> nValue t) ts \<Longrightarrow> 0 \<le> sum_list (map nValue ts)"
    by (induction ts) auto
  have t: "?v < 2 ^ 63" using Cons.prems(3) by (simp add: int64_value_def)
  consider "?v < 0" | "0 \<le> ?v" "a + ?v < 2 ^ 63" | "0 \<le> ?v" "2 ^ 63 \<le> a + ?v" by linarith
  then show ?case
  proof cases
    case 2
    then have "wrap64 (a + ?v) = a + ?v" using Cons.prems by (simp add: wrap64_id)
    then show ?thesis using 2 Cons by (simp add: add.assoc)
  next
    case 3
    then have "wrap64 (a + ?v) < a" using Cons.prems t by (simp add: wrap64_over)
    then show ?thesis using 3 nn by auto
  qed simp
qed simp

lemma GetValueOut_spec:
  "list_all int64_value (vout tx) \<Longrightarrow>
   GetValueOut tx = (if list_all (\<lambda>t. 0 \<le> nValue t) (vout tx) \<and> sum_list (map nValue (vout tx)) < 2 ^ 63
     then Some (sum_list (map nValue (vout tx))) else None)"
  using value_out_loop_spec [of 0 "vout tx"] by (simp add: GetValueOut_def)

section \<open>What CheckTransaction establishes\<close>

lemma check_vout_ok:
  assumes "check_vout env tx f a n ts = Inr m" "0 \<le> a" "a \<le> ce_MaxMoneyOut env"
  shows "list_all (\<lambda>t. 0 \<le> nValue t) ts \<and> a + sum_list (map nValue ts) \<le> ce_MaxMoneyOut env"
  using assms
proof (induction ts arbitrary: a n)
  case (Cons t ts)
  then have "0 \<le> nValue t" "MoneyRange env (a + nValue t)"
    and r: "check_vout env tx f (a + nValue t)
      (if f \<and> IsZerocoinSpend (scriptPubKey t) then n + 1 else n) ts = Inr m"
    by (auto simp: Let_def simp del: if_split split: if_split_asm)
  then show ?case using Cons.IH [OF r] by (simp add: MoneyRange_def add.assoc)
qed simp

lemma check_duplicates_ok:
  "check_duplicates S xs = Inr () \<Longrightarrow>
   distinct (map prevout (filter (\<lambda>i. \<not> IsZerocoinSpend (scriptSig i)) xs)) \<and>
   set (map prevout xs) \<inter> S = {}"
proof (induction xs arbitrary: S)
  case (Cons x xs)
  then show ?case by (fastforce split: if_split_asm)
qed simp

text \<open>
  An accepted transaction has inputs and outputs, is not too large, moves amounts in range with a
  sum in range, and spends no outpoint twice.
\<close>

definition tx_sane :: "check_env \<Rightarrow> CTransaction \<Rightarrow> bool" where
  "tx_sane env tx \<longleftrightarrow>
     vin tx \<noteq> [] \<and> vout tx \<noteq> [] \<and> size_tx tx \<le> MAX_ZEROCOIN_TX_SIZE \<and>
     list_all (\<lambda>t. 0 \<le> nValue t) (vout tx) \<and> sum_list (map nValue (vout tx)) \<le> ce_MaxMoneyOut env \<and>
     distinct (map prevout (filter (\<lambda>i. \<not> IsZerocoinSpend (scriptSig i)) (vin tx))) \<and>
     (IsCoinBase tx \<longrightarrow> length (scriptSig (hd (vin tx))) \<in> {2..150})"

lemma CheckTransaction_sane:
  assumes "CheckTransaction env tx f = Inr ()" "0 \<le> ce_MaxMoneyOut env"
  shows "tx_sane env tx"
proof -
  obtain m where v: "check_vout env tx f 0 0 (vout tx) = Inr m"
    and d: "check_duplicates {} (vin tx) = Inr ()"
    and r: "vin tx \<noteq> []" "vout tx \<noteq> []" "size_tx tx \<le> MAX_ZEROCOIN_TX_SIZE"
      "IsCoinBase tx \<Longrightarrow> length (scriptSig (hd (vin tx))) \<in> {2..150}"
    using assms(1) by (auto simp: CheckTransaction_def sbind_eq_Inr split: if_split_asm)
  then show ?thesis
    using check_vout_ok [OF v] check_duplicates_ok [OF d] assms(2) by (auto simp: tx_sane_def)
qed

lemma CheckTransaction_value_out:
  assumes "CheckTransaction env tx f = Inr ()" "0 \<le> ce_MaxMoneyOut env" "ce_MaxMoneyOut env < 2 ^ 63"
  shows "GetValueOut tx = Some (sum_list (map nValue (vout tx)))"
proof -
  have s: "list_all (\<lambda>t. 0 \<le> nValue t) (vout tx)" "sum_list (map nValue (vout tx)) \<le> ce_MaxMoneyOut env"
    using CheckTransaction_sane [OF assms(1,2)] by (auto simp: tx_sane_def)
  have le: "t \<in> set ts \<Longrightarrow> list_all (\<lambda>t. 0 \<le> nValue t) ts \<Longrightarrow> nValue t \<le> sum_list (map nValue ts)" for t ts
  proof (induction ts)
    case (Cons x xs)
    have "0 \<le> sum_list (map nValue xs)" using Cons.prems(2) by (induction xs) auto
    then show ?case using Cons by auto
  qed simp
  have "int64_value t" if "t \<in> set (vout tx)" for t
  proof -
    have "0 \<le> nValue t" using s(1) that by (simp add: list_all_iff)
    moreover have "nValue t < 2 ^ 63" using le [OF that s(1)] s(2) assms(3) by linarith
    ultimately show ?thesis by (simp add: int64_value_def)
  qed
  then have "list_all int64_value (vout tx)" by (simp add: list_all_iff)
  then show ?thesis using s assms(3) by (simp add: GetValueOut_spec)
qed

text \<open>A null outpoint passes when the zerocoin rules are off.\<close>

lemma CheckTransaction_null_prevout:
  assumes "CheckTransaction env tx True = Inr ()" "\<not> IsCoinBase tx" "\<not> tx_IsZerocoinSpend tx"
  shows "list_all (\<lambda>i. \<not> COutPoint_IsNull (prevout i) \<or> IsZerocoinSpend (scriptSig i)) (vin tx)"
  using assms by (auto simp: CheckTransaction_def sbind_eq_Inr list_ex_iff list_all_iff split: if_split_asm)

end
