(* ===== verification/Compressor.thy ===== *)
theory Compressor
  imports TransactionLemmas
begin

text \<open>
  The compact encodings of the coins database, \<^verbatim>\<open>src/src/compressor.h\<close>, \<^verbatim>\<open>compressor.cpp\<close> and
  \<^verbatim>\<open>undo.h\<close>: amounts, scripts and whole outputs. The two operations on public keys that rest on
  the elliptic curve library are fields of a record; what the encoding needs of them is
  \<open>pubkey_ops_ok\<close>: a fully valid uncompressed key is recovered from its first coordinate and
  the parity of the second.
\<close>

section \<open>Amounts\<close>

text \<open>\<open>strip_zeros n e\<close> is the \<^verbatim>\<open>while\<close> loop that drops decimal zeros, at most nine in all.\<close>

function strip_zeros :: "nat \<Rightarrow> nat \<Rightarrow> nat \<times> nat" where
  "strip_zeros n e = (if n mod 10 = 0 \<and> e < 9 then strip_zeros (n div 10) (e + 1) else (n, e))"
  by pat_completeness auto
termination by (relation "measure (\<lambda>(n, e). 9 - e)") auto

declare strip_zeros.simps [simp del]

definition CompressAmount :: "nat \<Rightarrow> nat" where
  "CompressAmount n0 =
     (if n0 = 0 then 0
      else let (n, e) = strip_zeros n0 0
           in if e < 9
              then let d = n mod 10 in (1 + (n div 10 * 9 + d - 1) * 10 + e) mod 2 ^ 64
              else (1 + (n - 1) * 10 + 9) mod 2 ^ 64)"

fun scale_up :: "nat \<Rightarrow> nat \<Rightarrow> nat" where
  "scale_up n e = (if e \<noteq> 0 then scale_up (n * 10 mod 2 ^ 64) (e - 1) else n)"

declare scale_up.simps [simp del]

definition DecompressAmount :: "nat \<Rightarrow> nat" where
  "DecompressAmount x0 =
     (if x0 = 0 then 0
      else let x = x0 - 1; e = x mod 10; y = x div 10
           in if e < 9 then let d = y mod 9 + 1 in scale_up ((y div 9 * 10 + d) mod 2 ^ 64) e
              else scale_up ((y + 1) mod 2 ^ 64) e)"

section \<open>Scripts\<close>

record pubkey_ops =
  pk_IsFullyValid :: "bytes \<Rightarrow> bool"
  pk_Decompress :: "bytes \<Rightarrow> bytes option"

definition nSpecialScripts :: nat where "nSpecialScripts = 6"

definition IsToKeyID :: "script \<Rightarrow> bytes option" where
  "IsToKeyID script =
     (if length script = 25 \<and> unat (script ! 0) = OP_DUP \<and> unat (script ! 1) = OP_HASH160 \<and>
         unat (script ! 2) = 20 \<and> unat (script ! 23) = OP_EQUALVERIFY \<and> unat (script ! 24) = OP_CHECKSIG
      then Some (take 20 (drop 3 script)) else None)"

definition IsToScriptID :: "script \<Rightarrow> bytes option" where
  "IsToScriptID script =
     (if length script = 23 \<and> unat (script ! 0) = OP_HASH160 \<and> unat (script ! 1) = 20 \<and>
         unat (script ! 22) = OP_EQUAL
      then Some (take 20 (drop 2 script)) else None)"

definition IsToPubKey :: "pubkey_ops \<Rightarrow> script \<Rightarrow> bytes option" where
  "IsToPubKey pk script =
     (if length script = 35 \<and> unat (script ! 0) = 33 \<and> unat (script ! 34) = OP_CHECKSIG \<and>
         (script ! 1 = 0x02 \<or> script ! 1 = 0x03)
      then Some (take 33 (drop 1 script))
      else if length script = 67 \<and> unat (script ! 0) = 65 \<and> unat (script ! 66) = OP_CHECKSIG \<and>
         script ! 1 = 0x04
      then (if pk_IsFullyValid pk (take 65 (drop 1 script)) then Some (take 65 (drop 1 script)) else None)
      else None)"

definition Compress :: "pubkey_ops \<Rightarrow> script \<Rightarrow> bytes option" where
  "Compress pk script =
     (case IsToKeyID script of
        Some keyID \<Rightarrow> Some (0x00 # keyID)
      | None \<Rightarrow> case IsToScriptID script of
        Some scriptID \<Rightarrow> Some (0x01 # scriptID)
      | None \<Rightarrow> case IsToPubKey pk script of
        Some pubkey \<Rightarrow>
          if pubkey ! 0 = 0x02 \<or> pubkey ! 0 = 0x03 then Some (pubkey ! 0 # take 32 (drop 1 pubkey))
          else if pubkey ! 0 = 0x04 then Some ((0x04 OR (pubkey ! 64 AND 0x01)) # take 32 (drop 1 pubkey))
          else None
      | None \<Rightarrow> None)"

definition GetSpecialSize :: "nat \<Rightarrow> nat" where
  "GetSpecialSize nSize =
     (if nSize = 0 \<or> nSize = 1 then 20
      else if nSize = 2 \<or> nSize = 3 \<or> nSize = 4 \<or> nSize = 5 then 32 else 0)"

definition op_byte :: "nat \<Rightarrow> byte" where "op_byte opcode = word_of_nat opcode"

definition Decompress :: "pubkey_ops \<Rightarrow> nat \<Rightarrow> bytes \<Rightarrow> script option" where
  "Decompress pk nSize v =
     (if nSize = 0 then Some ([op_byte OP_DUP, op_byte OP_HASH160, 20] @ take 20 v @
                              [op_byte OP_EQUALVERIFY, op_byte OP_CHECKSIG])
      else if nSize = 1 then Some ([op_byte OP_HASH160, 20] @ take 20 v @ [op_byte OP_EQUAL])
      else if nSize = 2 \<or> nSize = 3
      then Some ([33, word_of_nat nSize] @ take 32 v @ [op_byte OP_CHECKSIG])
      else if nSize = 4 \<or> nSize = 5
      then (case pk_Decompress pk (word_of_nat (nSize - 2) # take 32 v) of
              None \<Rightarrow> None
            | Some pubkey \<Rightarrow> Some ([65] @ pubkey @ [op_byte OP_CHECKSIG]))
      else None)"

definition ser_script_c :: "pubkey_ops \<Rightarrow> script \<Rightarrow> bytes" where
  "ser_script_c pk script =
     (case Compress pk script of
        Some compr \<Rightarrow> WRITEDATA compr
      | None \<Rightarrow> WriteVarInt ((length script + nSpecialScripts) mod 2 ^ 32) @ WRITEDATA script)"

definition size_script_c :: "pubkey_ops \<Rightarrow> script \<Rightarrow> nat" where
  "size_script_c pk script =
     (case Compress pk script of
        Some compr \<Rightarrow> length compr
      | None \<Rightarrow> length script + GetSizeOfVarInt ((length script + nSpecialScripts) mod 2 ^ 32))"

text \<open>The script read into is empty; a failed decompression leaves it so.\<close>

definition unser_script_c :: "pubkey_ops \<Rightarrow> script reader" where
  "unser_script_c pk =
     rbind (ReadVarInt 32) (\<lambda>nSize.
       if nSize < nSpecialScripts
       then rbind (READDATA (GetSpecialSize nSize)) (\<lambda>vch.
              rret (case Decompress pk nSize vch of Some script \<Rightarrow> script | None \<Rightarrow> []))
       else READDATA (nSize - nSpecialScripts))"

section \<open>Outputs and undo records\<close>

definition u64_of_int :: "int \<Rightarrow> nat" where "u64_of_int v = nat (v mod 2 ^ 64)"
definition int_of_u64 :: "nat \<Rightarrow> int" where
  "int_of_u64 n = (if n < 2 ^ 63 then int n else int n - 2 ^ 64)"

definition ser_txout_c :: "pubkey_ops \<Rightarrow> CTxOut \<Rightarrow> bytes" where
  "ser_txout_c pk txout =
     WriteVarInt (CompressAmount (u64_of_int (nValue txout))) @ ser_script_c pk (scriptPubKey txout)"

definition unser_txout_c :: "pubkey_ops \<Rightarrow> CTxOut reader" where
  "unser_txout_c pk =
     rbind (ReadVarInt 64) (\<lambda>nVal. rbind (unser_script_c pk) (\<lambda>script.
       rret \<lparr>nValue = int_of_u64 (DecompressAmount nVal), scriptPubKey = script\<rparr>))"

definition size_txout_c :: "pubkey_ops \<Rightarrow> CTxOut \<Rightarrow> nat" where
  "size_txout_c pk txout =
     GetSizeOfVarInt (CompressAmount (u64_of_int (nValue txout))) + size_script_c pk (scriptPubKey txout)"

record CTxInUndo =
  u_txout :: CTxOut
  u_fCoinBase :: bool
  u_fCoinStake :: bool
  u_nHeight :: nat
  u_nVersion :: int

definition undo_code :: "CTxInUndo \<Rightarrow> nat" where
  "undo_code undo = (u_nHeight undo * 4 + (if u_fCoinBase undo then 2 else 0) +
     (if u_fCoinStake undo then 1 else 0)) mod 2 ^ 32"

text \<open>
  \<^verbatim>\<open>VARINT\<close> of an \<^verbatim>\<open>int\<close>: the test \<open>n \<le> 0x7F\<close> stops at once on a negative number, which is
  written as its low seven bits.
\<close>

definition WriteVarInt_int :: "int \<Rightarrow> bytes" where
  "WriteVarInt_int n = (if n < 0 then [word_of_int (n mod 128)] else WriteVarInt (nat n))"

definition GetSizeOfVarInt_int :: "int \<Rightarrow> nat" where
  "GetSizeOfVarInt_int n = (if n < 0 then 1 else GetSizeOfVarInt (nat n))"

definition ReadVarInt_int :: "int reader" where
  "ReadVarInt_int = rbind (ReadVarInt 32) (\<lambda>n. rret (if n < 2 ^ 31 then int n else int n - 2 ^ 32))"

definition ser_undo :: "pubkey_ops \<Rightarrow> CTxInUndo \<Rightarrow> bytes" where
  "ser_undo pk undo =
     WriteVarInt (undo_code undo) @
     (if u_nHeight undo > 0 then WriteVarInt_int (u_nVersion undo) else []) @
     ser_txout_c pk (u_txout undo)"

definition size_undo :: "pubkey_ops \<Rightarrow> CTxInUndo \<Rightarrow> nat" where
  "size_undo pk undo =
     GetSizeOfVarInt (undo_code undo) +
     (if u_nHeight undo > 0 then GetSizeOfVarInt_int (u_nVersion undo) else 0) +
     size_txout_c pk (u_txout undo)"

definition unser_undo :: "pubkey_ops \<Rightarrow> CTxInUndo reader" where
  "unser_undo pk =
     rbind (ReadVarInt 32) (\<lambda>nCode.
     rbind (if nCode div 4 > 0 then ReadVarInt_int else rret 0) (\<lambda>ver.
     rbind (unser_txout_c pk) (\<lambda>txout.
       rret \<lparr>u_txout = txout, u_fCoinBase = odd (nCode div 2), u_fCoinStake = odd nCode,
             u_nHeight = nCode div 4, u_nVersion = ver\<rparr>)))"


section \<open>Round trips\<close>

lemma strip_zeros_spec:
  "strip_zeros n e = (m, k) \<Longrightarrow> e \<le> 9 \<Longrightarrow> 0 < n \<Longrightarrow>
     e \<le> k \<and> k \<le> 9 \<and> n = m * 10 ^ (k - e) \<and> (k < 9 \<longrightarrow> m mod 10 \<noteq> 0) \<and> 0 < m"
proof (induction n e rule: strip_zeros.induct)
  case (1 n e)
  show ?case
  proof (cases "n mod 10 = 0 \<and> e < 9")
    case True
    then have "0 < n div 10" using 1(4) by auto
    moreover have "strip_zeros (n div 10) (e + 1) = (m, k)"
      using 1(2) True by (simp add: strip_zeros.simps [of n e])
    ultimately have *: "e + 1 \<le> k" "k \<le> 9" "n div 10 = m * 10 ^ (k - (e + 1))" "k < 9 \<longrightarrow> m mod 10 \<noteq> 0" "0 < m"
      using 1(1) [OF True] True by auto
    have "n = n div 10 * 10" using True by auto
    also have "\<dots> = m * 10 ^ Suc (k - (e + 1))" using *(3) by simp
    also have "Suc (k - (e + 1)) = k - e" using *(1) by simp
    finally show ?thesis using * by simp
  next
    case False
    then show ?thesis using 1(2-4) by (auto simp: strip_zeros.simps [of n e])
  qed
qed

lemma scale_up_eq: "n * 10 ^ e < 2 ^ 64 \<Longrightarrow> scale_up n e = n * 10 ^ e"
proof (induction n e rule: scale_up.induct)
  case (1 n e)
  show ?case
  proof (cases e)
    case (Suc k)
    have "n * 10 \<le> n * 10 ^ e" using Suc by simp
    then have "n * 10 < 2 ^ 64" using 1(2) by linarith
    then show ?thesis using 1 Suc by (simp add: scale_up.simps [of n "Suc k"] mult.assoc)
  qed (simp add: scale_up.simps)
qed

lemma CompressAmount_bound: "n < 2 ^ 60 \<Longrightarrow> CompressAmount n < 2 ^ 64"
  by (auto simp: CompressAmount_def Let_def split: prod.split)

lemma DecompressAmount_CompressAmount:
  assumes n: "n < 2 ^ 60" shows "DecompressAmount (CompressAmount n) = n"
proof (cases "n = 0")
  case False
  obtain m k where mk: "strip_zeros n 0 = (m, k)" by fastforce
  have m: "k \<le> 9" "n = m * 10 ^ k" "k < 9 \<Longrightarrow> m mod 10 \<noteq> 0" "0 < m"
    using strip_zeros_spec [OF mk] False by auto
  have "m * 1 \<le> m * 10 ^ k" by (intro mult_le_mono2) simp
  then have m60: "m < 2 ^ 60" using m(2) n by linarith
  have up: "scale_up m k = n" using m(2) n by (subst scale_up_eq) auto
  show ?thesis
  proof (cases "k < 9")
    case True
    have "m = m div 10 * 10 + m mod 10" by simp
    then obtain q d where q: "m = q * 10 + d" "0 < d" "d < 10" "m div 10 = q" "m mod 10 = d"
      using m(3) [OF True] by (metis bot_nat_0.not_eq_extremum mod_less_divisor zero_less_numeral)
    have "CompressAmount n = 1 + (q * 9 + d - 1) * 10 + k"
      using False mk True q m60 by (simp add: CompressAmount_def)
    moreover have "(1 + (q * 9 + d - 1) * 10 + k - 1) mod 10 = k" "(1 + (q * 9 + d - 1) * 10 + k - 1) div 10 = q * 9 + d - 1"
      using True by simp_all
    moreover have "(q * 9 + d - 1) mod 9 + 1 = d" "(q * 9 + d - 1) div 9 = q"
    proof -
      obtain d' where d: "d = Suc d'" using q(2) by (cases d) auto
      show "(q * 9 + d - 1) mod 9 + 1 = d" "(q * 9 + d - 1) div 9 = q"
        using q(3) by (simp_all add: d add.commute [of "q * 9"])
    qed
    moreover have "q * 10 + d < 2 ^ 64" using q(1) m60 by simp
    ultimately show ?thesis using True q(1) up by (simp add: DecompressAmount_def Let_def)
  next
    case 9: False
    then have k: "k = 9" using m(1) by simp
    have "CompressAmount n = 1 + (m - 1) * 10 + 9"
      using False mk k m60 by (simp add: CompressAmount_def)
    moreover have "(1 + (m - 1) * 10 + 9 - 1) mod 10 = 9" "(1 + (m - 1) * 10 + 9 - 1) div 10 = m - 1"
      by simp_all
    ultimately show ?thesis using up m(4) m60 k by (simp add: DecompressAmount_def Let_def)
  qed
qed (simp add: CompressAmount_def DecompressAmount_def)


text \<open>What the curve library promises of a valid key, in terms of its encodings.\<close>

definition pubkey_ops_ok :: "pubkey_ops \<Rightarrow> bool" where
  "pubkey_ops_ok pk \<longleftrightarrow>
     (\<forall>x y. length x = 32 \<longrightarrow> length y = 32 \<longrightarrow> pk_IsFullyValid pk (0x04 # x @ y) \<longrightarrow>
        pk_Decompress pk ((if odd (unat (y ! 31)) then 0x03 else 0x02) # x) = Some (0x04 # x @ y))"

lemma drop_Cons2: "length xs = n + 2 \<Longrightarrow> drop n xs = [xs ! n, xs ! (n + 1)]"
  by (simp flip: Cons_nth_drop_Suc)

lemma drop_Cons1: "length xs = n + 1 \<Longrightarrow> drop n xs = [xs ! n]"
  by (simp flip: Cons_nth_drop_Suc)

lemma split_ends:
  assumes "length xs = i + n + j" shows "xs = take i xs @ take n (drop i xs) @ drop (i + n) xs"
  by (metis append_take_drop_id drop_drop add.commute)

lemma byte_eq_op: "unat b = k \<Longrightarrow> b = word_of_nat k" for b :: byte
  by auto

lemma take_nths: "take (Suc 0) xs = (if xs = [] then [] else [xs ! 0])" 
   "2 \<le> length xs \<Longrightarrow> take 2 xs = [xs ! 0, xs ! 1]" "3 \<le> length xs \<Longrightarrow> take 3 xs = [xs ! 0, xs ! 1, xs ! 2]"
  by (cases xs; cases "tl xs"; cases "tl (tl xs)"; simp add: numeral_eq_Suc)+

lemma IsToKeyID_Some:
  "IsToKeyID script = Some h \<Longrightarrow> length h = 20 \<and>
     script = [op_byte OP_DUP, op_byte OP_HASH160, 20] @ h @ [op_byte OP_EQUALVERIFY, op_byte OP_CHECKSIG]"
  using split_ends [of script 3 20 2] drop_Cons2 [of script 23]
  by (auto simp: IsToKeyID_def take_nths op_byte_def dest!: byte_eq_op split: if_split_asm)

lemma IsToScriptID_Some:
  "IsToScriptID script = Some h \<Longrightarrow> length h = 20 \<and>
     script = [op_byte OP_HASH160, 20] @ h @ [op_byte OP_EQUAL]"
  using split_ends [of script 2 20 1] drop_Cons1 [of script 22]
  by (auto simp: IsToScriptID_def take_nths op_byte_def dest!: byte_eq_op split: if_split_asm)

lemma IsToPubKey_Some:
  "IsToPubKey pk script = Some k \<Longrightarrow>
     (length k = 33 \<and> (hd k = 2 \<or> hd k = 3) \<and> script = 33 # k @ [op_byte OP_CHECKSIG]) \<or>
     (length k = 65 \<and> hd k = 4 \<and> pk_IsFullyValid pk k \<and> script = 65 # k @ [op_byte OP_CHECKSIG])"
  using split_ends [of script 1 33 1] drop_Cons1 [of script 34] split_ends [of script 1 65 1] drop_Cons1 [of script 66]
  by (auto simp: IsToPubKey_def take_nths op_byte_def hd_drop_conv_nth hd_take dest!: byte_eq_op split: if_split_asm)

lemma byte_and_1: "b AND 1 = (if odd (unat b) then 1 else 0)" for b :: byte
  by (simp add: and_one_eq mod_2_eq_odd bit_unsigned_iff flip: bit_0)

lemma ReadVarInt_small: "unat b < 128 \<Longrightarrow> ReadVarInt w (b # s) = Some (unat b, s)"
  using byte_high_iff [of b] by (simp add: ReadVarInt_def unat_and_7f)

lemma Compress_Decompress:
  assumes ok: "pubkey_ops_ok pk" and c: "Compress pk script = Some compr"
  obtains b v where "compr = b # v" "unat b < 6" "length v = GetSpecialSize (unat b)"
    "Decompress pk (unat b) v = Some script"
proof -
  consider (key) h where "IsToKeyID script = Some h" "compr = 0 # h"
    | (scr) h where "IsToScriptID script = Some h" "compr = 1 # h"
    | (comp) k where "IsToPubKey pk script = Some k" "hd k = 2 \<or> hd k = 3" "length k = 33" "compr = hd k # take 32 (drop 1 k)"
    | (full) k where "IsToPubKey pk script = Some k" "hd k = 4" "length k = 65" "compr = (4 OR (k ! 64 AND 1)) # take 32 (drop 1 k)"
  proof (cases "IsToKeyID script = None \<and> IsToScriptID script = None")
    case True
    then obtain k where k: "IsToPubKey pk script = Some k" using c by (auto simp: Compress_def split: option.splits)
    consider "length k = 33" "hd k = 2 \<or> hd k = 3" | "length k = 65" "hd k = 4"
      using IsToPubKey_Some [OF k] by auto
    then show ?thesis
    proof cases
      case 1
      then have "k ! 0 = hd k" by (cases k) auto
      then show ?thesis using 1 c True k by (intro that(3) [OF k]) (auto simp: Compress_def)
    next
      case 2
      then have "k ! 0 = hd k" by (cases k) auto
      then show ?thesis using 2 c True k by (intro that(4) [OF k]) (auto simp: Compress_def)
    qed
  next
    case False
    then show ?thesis using c that(1,2) by (auto simp: Compress_def split: option.splits)
  qed
  then show thesis
  proof cases
    case key
    then show thesis using IsToKeyID_Some [OF key(1)]
      by (intro that [of 0 h]) (auto simp: GetSpecialSize_def Decompress_def)
  next
    case scr
    then show thesis using IsToScriptID_Some [OF scr(1)]
      by (intro that [of 1 h]) (auto simp: GetSpecialSize_def Decompress_def)
  next
    case comp
    then obtain x where k: "k = hd k # x" "length x = 32" by (cases k) auto
    have e: "script = 33 # k @ [op_byte OP_CHECKSIG]" using comp IsToPubKey_Some by fastforce
    have "compr = hd k # x" using comp(4) k by (metis drop_0 drop_Suc_Cons One_nat_def order_refl take_all)
    moreover have "unat (hd k) = 2 \<or> unat (hd k) = 3" using comp(2) by auto
    moreover have "Decompress pk (unat (hd k)) x = Some script"
      using comp(2) k e by (auto simp: Decompress_def)
    ultimately show thesis using k(2) by (intro that [of "hd k" x]) (auto simp: GetSpecialSize_def)
  next
    case full
    obtain r where kr: "k = 4 # r" "length r = 64" using full(2,3) by (cases k) auto
    define x where "x = take 32 r"
    define y where "y = drop 32 r"
    have k: "k = 4 # x @ y" "length x = 32" "length y = 32" using kr by (simp_all add: x_def y_def)
    have e: "script = 65 # k @ [op_byte OP_CHECKSIG]" "pk_IsFullyValid pk k"
      using full IsToPubKey_Some by fastforce+
    have "k ! 64 = y ! 31" using k by (simp add: nth_append)
    moreover have "take 32 (drop 1 k) = x" using k by simp
    ultimately have co: "compr = (if odd (unat (y ! 31)) then 5 else 4) # x"
      using full(4) by (simp add: byte_and_1)
    have "pk_Decompress pk ((if odd (unat (y ! 31)) then 3 else 2) # x) = Some k"
      using ok e(2) k unfolding pubkey_ops_ok_def by blast
    then have "Decompress pk (unat ((if odd (unat (y ! 31)) then 5 else 4) :: byte)) x = Some script"
      using k e by (auto simp: Decompress_def)
    then show thesis using co k by (intro that) (auto simp: GetSpecialSize_def)
  qed
qed

lemma script_c_codec:
  assumes "pubkey_ops_ok pk"
  shows "codec (ser_script_c pk) (unser_script_c pk) (size_script_c pk) (\<lambda>s. length s < 2 ^ 32 - 6)"
proof
  fix script :: script and s
  assume l: "length script < 2 ^ 32 - 6"
  have e: "(length script + 6) mod 4294967296 = length script + 6" using l by simp
  show "unser_script_c pk (ser_script_c pk script @ s) = Some (script, s)"
  proof (cases "Compress pk script")
    case None
    have "ReadVarInt 32 (WriteVarInt (length script + 6) @ script @ s) = Some (length script + 6, script @ s)"
      by (rule varint32.unser_ser) (use l in simp)
    then show ?thesis
      by (simp add: unser_script_c_def ser_script_c_def None WRITEDATA_def nSpecialScripts_def e)
  next
    case (Some compr)
    obtain b v where bv: "compr = b # v" "unat b < 6" "length v = GetSpecialSize (unat b)"
      "Decompress pk (unat b) v = Some script" by (rule Compress_Decompress [OF assms Some])
    then have "ReadVarInt 32 (b # v @ s) = Some (unat b, v @ s)" by (intro ReadVarInt_small) simp
    then show ?thesis using bv
      by (simp add: unser_script_c_def ser_script_c_def Some WRITEDATA_def nSpecialScripts_def)
  qed
  show "size_script_c pk script = length (ser_script_c pk script)"
    using l varint32.size_ser [of "length script + 6"]
    by (simp add: size_script_c_def ser_script_c_def WRITEDATA_def nSpecialScripts_def e split: option.split)
qed

text \<open>An output of the database: a positive amount below the bound of the amount encoding.\<close>

definition coin_ok :: "CTxOut \<Rightarrow> bool" where
  "coin_ok txout \<longleftrightarrow> 0 \<le> nValue txout \<and> nValue txout < 2 ^ 60 \<and> length (scriptPubKey txout) < 2 ^ 32 - 6"

lemma txout_c_codec:
  assumes "pubkey_ops_ok pk"
  shows "codec (ser_txout_c pk) (unser_txout_c pk) (size_txout_c pk) coin_ok"
proof
  fix txout :: CTxOut and s
  assume ok: "coin_ok txout"
  let ?n = "u64_of_int (nValue txout)"
  have n: "?n < 2 ^ 60" "int_of_u64 ?n = nValue txout"
    using ok by (auto simp: coin_ok_def u64_of_int_def int_of_u64_def nat_less_iff)
  note c = CompressAmount_bound [OF n(1)]
  show "unser_txout_c pk (ser_txout_c pk txout @ s) = Some (txout, s)"
    using ok varint64.unser_ser [OF c] codec.unser_ser [OF script_c_codec [OF assms]] n
    by (simp add: unser_txout_c_def ser_txout_c_def coin_ok_def DecompressAmount_CompressAmount)
  show "size_txout_c pk txout = length (ser_txout_c pk txout)"
    using ok varint64.size_ser [OF c] codec.size_ser [OF script_c_codec [OF assms]]
    by (simp add: size_txout_c_def ser_txout_c_def coin_ok_def)
qed

lemma varint_int_codec:
  "codec WriteVarInt_int ReadVarInt_int GetSizeOfVarInt_int (\<lambda>n. 0 \<le> n \<and> n < 2 ^ 31)"
proof
  fix n :: int and s :: bytes assume n: "0 \<le> n \<and> n < 2 ^ 31"
  then have "nat n < 2 ^ 32" by (simp add: nat_less_iff)
  note v = varint32.unser_ser [OF this] varint32.size_ser [OF this]
  show "ReadVarInt_int (WriteVarInt_int n @ s) = Some (n, s)" "GetSizeOfVarInt_int n = length (WriteVarInt_int n)"
    using n v by (simp_all add: nat_less_iff ReadVarInt_int_def WriteVarInt_int_def GetSizeOfVarInt_int_def)
qed

interpretation varint_int: codec WriteVarInt_int ReadVarInt_int GetSizeOfVarInt_int "\<lambda>n. 0 \<le> n \<and> n < 2 ^ 31"
  by (rule varint_int_codec)

definition undo_ok :: "CTxInUndo \<Rightarrow> bool" where
  "undo_ok undo \<longleftrightarrow> coin_ok (u_txout undo) \<and> u_nHeight undo < 2 ^ 30 \<and>
     (if u_nHeight undo > 0 then 0 \<le> u_nVersion undo \<and> u_nVersion undo < 2 ^ 31 else u_nVersion undo = 0)"

lemma low_bits4:
  "(r::nat) < 4 \<Longrightarrow> (h * 4 + r) div 4 = h"
  "(r::nat) < 4 \<Longrightarrow> even (h * 4 + r) = even r"
  "(r::nat) < 4 \<Longrightarrow> even ((h * 4 + r) div 2) = even (r div 2)"
  by presburger+

lemma undo_codec:
  assumes "pubkey_ops_ok pk" shows "codec (ser_undo pk) (unser_undo pk) (size_undo pk) undo_ok"
proof
  fix undo :: CTxInUndo and s
  assume ok: "undo_ok undo"
  have u: "undo_code undo = u_nHeight undo * 4 + ((if u_fCoinBase undo then 2 else 0) + (if u_fCoinStake undo then 1 else 0))"
    and "u_nHeight undo < 2 ^ 30"
    using ok by (simp_all add: undo_code_def undo_ok_def)
  then have c: "undo_code undo < 2 ^ 32" "undo_code undo div 4 = u_nHeight undo" "odd (undo_code undo) = u_fCoinStake undo"
    "odd (undo_code undo div 2) = u_fCoinBase undo"
    unfolding u by (simp_all add: low_bits4)
  note t = codec.unser_ser [OF txout_c_codec [OF assms]] codec.size_ser [OF txout_c_codec [OF assms]]
  show "unser_undo pk (ser_undo pk undo @ s) = Some (undo, s)"
    using ok varint32.unser_ser [OF c(1)] varint_int.unser_ser t c(2-)
    by (auto simp: unser_undo_def ser_undo_def undo_ok_def)
  show "size_undo pk undo = length (ser_undo pk undo)"
    using ok varint32.size_ser [OF c(1)] varint_int.size_ser t
    by (auto simp: size_undo_def ser_undo_def undo_ok_def)
qed

end
