(* ===== verification/Coins.thy ===== *)
theory Coins
  imports Compressor "HOL-Library.More_List"
begin

text \<open>
  The unspent outputs of one transaction, class \<^verbatim>\<open>CCoins\<close> of \<^verbatim>\<open>src/src/coins.h\<close> and \<^verbatim>\<open>coins.cpp\<close>:
  creation from a transaction, spending with an undo record, and the encoding of the database,
  a header code, a bit mask of the outputs that remain and the outputs themselves. \<open>None\<close> of an
  encoding is the failed assertion that some output remains.
\<close>

record CCoins =
  fCoinBase :: bool
  fCoinStake :: bool
  c_vout :: "CTxOut list"
  c_nHeight :: int
  c_nVersion :: int

definition CCoins_empty :: CCoins where
  "CCoins_empty = \<lparr>fCoinBase = False, fCoinStake = False, c_vout = [], c_nHeight = 0, c_nVersion = 0\<rparr>"

definition CCoins_Clear :: "CCoins \<Rightarrow> CCoins" where
  "CCoins_Clear c = \<lparr>fCoinBase = False, fCoinStake = False, c_vout = [], c_nHeight = 0, c_nVersion = 0\<rparr>"

text \<open>\<^verbatim>\<open>Cleanup\<close>: drop spent outputs at the end.\<close>

function cleanup_vout :: "CTxOut list \<Rightarrow> CTxOut list" where
  "cleanup_vout outs = (if length outs > 0 \<and> CTxOut_IsNull (last outs) then cleanup_vout (butlast outs) else outs)"
  by pat_completeness auto
termination by (relation "measure length") auto

declare cleanup_vout.simps [simp del]

definition Cleanup :: "CCoins \<Rightarrow> CCoins" where
  "Cleanup c = c\<lparr>c_vout := cleanup_vout (c_vout c)\<rparr>"

definition ClearUnspendable :: "CCoins \<Rightarrow> CCoins" where
  "ClearUnspendable c =
     Cleanup (c\<lparr>c_vout := map (\<lambda>txout. if IsUnspendable (scriptPubKey txout) then CTxOut_Null else txout)
                            (c_vout c)\<rparr>)"

definition FromTx :: "CTransaction \<Rightarrow> int \<Rightarrow> CCoins" where
  "FromTx tx nHeightIn =
     ClearUnspendable \<lparr>fCoinBase = IsCoinBase tx, fCoinStake = IsCoinStake tx, c_vout = vout tx,
                       c_nHeight = nHeightIn, c_nVersion = nVersion tx\<rparr>"

definition IsPruned :: "CCoins \<Rightarrow> bool" where
  "IsPruned c \<longleftrightarrow> list_all CTxOut_IsNull (c_vout c)"

definition CCoins_eq :: "CCoins \<Rightarrow> CCoins \<Rightarrow> bool" where
  "CCoins_eq a b \<longleftrightarrow> (IsPruned a \<and> IsPruned b) \<or>
     (fCoinBase a = fCoinBase b \<and> fCoinStake a = fCoinStake b \<and> c_nHeight a = c_nHeight b \<and>
      c_nVersion a = c_nVersion b \<and> c_vout a = c_vout b)"

definition IsAvailable :: "CCoins \<Rightarrow> nat \<Rightarrow> bool" where
  "IsAvailable c nPos \<longleftrightarrow>
     nPos < length (c_vout c) \<and> \<not> CTxOut_IsNull (c_vout c ! nPos) \<and>
     \<not> IsZerocoinMint (scriptPubKey (c_vout c ! nPos))"

text \<open>\<^verbatim>\<open>Spend\<close>: \<open>None\<close> is the result false.\<close>

definition CTxInUndo :: "CTxOut \<Rightarrow> CTxInUndo" where
  "CTxInUndo txout = \<lparr>u_txout = txout, u_fCoinBase = False, u_fCoinStake = False, u_nHeight = 0, u_nVersion = 0\<rparr>"

definition Spend :: "CCoins \<Rightarrow> nat \<Rightarrow> (CCoins \<times> CTxInUndo) option" where
  "Spend c n =
     (if n \<ge> length (c_vout c) then None
      else if CTxOut_IsNull (c_vout c ! n) then None
      else let undo = CTxInUndo (c_vout c ! n);
               c' = Cleanup (c\<lparr>c_vout := (c_vout c)[n := CTxOut_Null]\<rparr>)
           in Some (c',
                if c_vout c' = []
                then undo\<lparr>u_nHeight := nat (c_nHeight c' mod 2 ^ 32), u_fCoinBase := fCoinBase c',
                          u_fCoinStake := fCoinStake c', u_nVersion := c_nVersion c'\<rparr>
                else undo))"

section \<open>Encoding\<close>

definition out_used :: "CTxOut list \<Rightarrow> nat \<Rightarrow> bool" where
  "out_used outs i \<longleftrightarrow> i < length outs \<and> \<not> CTxOut_IsNull (outs ! i)"

text \<open>\<^verbatim>\<open>CalcMaskSize\<close>: the loop from byte \<open>b\<close> on, with the two counters.\<close>

function mask_loop :: "CTxOut list \<Rightarrow> nat \<Rightarrow> nat \<Rightarrow> nat \<Rightarrow> nat \<times> nat" where
  "mask_loop outs b nLastUsedByte nNonzeroBytes =
     (if 2 + b * 8 < length outs
      then let fZero = \<not> list_ex (\<lambda>i. out_used outs (2 + b * 8 + i)) [0..<8]
           in if \<not> fZero then mask_loop outs (b + 1) (b + 1) (nNonzeroBytes + 1)
              else mask_loop outs (b + 1) nLastUsedByte nNonzeroBytes
      else (nLastUsedByte, nNonzeroBytes))"
  by pat_completeness auto
termination by (relation "measure (\<lambda>(outs, b, _, _). length outs - b)") auto

declare mask_loop.simps [simp del]

definition CalcMaskSize :: "CCoins \<Rightarrow> nat \<times> nat" where
  "CalcMaskSize c = mask_loop (c_vout c) 0 0 0"

definition avail_byte :: "CTxOut list \<Rightarrow> nat \<Rightarrow> byte" where
  "avail_byte outs b =
     foldl (\<lambda>chAvail i. if out_used outs (2 + b * 8 + i) then chAvail OR push_bit i 1 else chAvail) 0 [0..<8]"

definition header_code :: "nat \<Rightarrow> CCoins \<Rightarrow> nat" where
  "header_code k c =
     (let fFirst = out_used (c_vout c) 0; fSecond = out_used (c_vout c) 1; nMaskCode = snd (CalcMaskSize c)
      in (k * (nMaskCode - (if fFirst \<or> fSecond then 0 else 1)) + (if fCoinBase c then 1 else 0) +
          (if fCoinStake c then 2 else 0) + (if fFirst then 4 else 0) + (if fSecond then 8 else 0)) mod 2 ^ 32)"

definition remains :: "CCoins \<Rightarrow> bool" where
  "remains c \<longleftrightarrow> out_used (c_vout c) 0 \<or> out_used (c_vout c) 1 \<or> snd (CalcMaskSize c) \<noteq> 0"

definition CCoins_Serialize :: "pubkey_ops \<Rightarrow> CCoins \<Rightarrow> bytes option" where
  "CCoins_Serialize pk c =
     (if \<not> remains c then None
      else Some (WriteVarInt_int (c_nVersion c) @ WriteVarInt (header_code 16 c) @
             map (avail_byte (c_vout c)) [0..<fst (CalcMaskSize c)] @
             concat (map (\<lambda>txout. if CTxOut_IsNull txout then [] else ser_txout_c pk txout) (c_vout c)) @
             WriteVarInt_int (c_nHeight c)))"

text \<open>\<^verbatim>\<open>GetSerializeSize\<close> multiplies the mask code by 8 where \<^verbatim>\<open>Serialize\<close> multiplies it by 16.\<close>

definition CCoins_GetSerializeSize :: "pubkey_ops \<Rightarrow> CCoins \<Rightarrow> nat option" where
  "CCoins_GetSerializeSize pk c =
     (if \<not> remains c then None
      else Some (GetSizeOfVarInt_int (c_nVersion c) + GetSizeOfVarInt (header_code 8 c) +
             fst (CalcMaskSize c) +
             sum_list (map (\<lambda>txout. if CTxOut_IsNull txout then 0 else size_txout_c pk txout) (c_vout c)) +
             GetSizeOfVarInt_int (c_nHeight c)))"

definition mask_bits :: "byte \<Rightarrow> bool list" where
  "mask_bits chAvail = map (\<lambda>p. chAvail AND push_bit p 1 \<noteq> 0) [0..<8]"

fun read_mask :: "nat \<Rightarrow> bool list \<Rightarrow> bool list reader" where
  "read_mask nMaskCode vAvail s =
     (if nMaskCode > 0
      then (case s of
              [] \<Rightarrow> None
            | chAvail # s' \<Rightarrow>
                read_mask (if chAvail \<noteq> 0 then nMaskCode - 1 else nMaskCode) (vAvail @ mask_bits chAvail) s')
      else Some (vAvail, s))"

declare read_mask.simps [simp del]

primrec read_outs :: "pubkey_ops \<Rightarrow> bool list \<Rightarrow> CTxOut list reader" where
  "read_outs pk [] = rret []"
| "read_outs pk (f # fs) =
     rbind (if f then unser_txout_c pk else rret CTxOut_Null) (\<lambda>txout.
     rbind (read_outs pk fs) (\<lambda>txouts. rret (txout # txouts)))"

definition CCoins_Unserialize :: "pubkey_ops \<Rightarrow> CCoins reader" where
  "CCoins_Unserialize pk =
     rbind ReadVarInt_int (\<lambda>ver.
     rbind (ReadVarInt 32) (\<lambda>nCode.
     rbind (read_mask (nCode div 16 + (if nCode div 4 mod 4 \<noteq> 0 then 0 else 1))
              [nCode div 4 mod 2 \<noteq> 0, nCode div 8 mod 2 \<noteq> 0]) (\<lambda>vAvail.
     rbind (read_outs pk vAvail) (\<lambda>txouts.
     rbind ReadVarInt_int (\<lambda>h.
     rret (Cleanup \<lparr>fCoinBase = nCode mod 2 \<noteq> 0, fCoinStake = nCode div 2 mod 2 \<noteq> 0,
                     c_vout = txouts, c_nHeight = h, c_nVersion = ver\<rparr>))))))"

section \<open>Cleaning up\<close>

lemma cleanup_strip: "cleanup_vout outs = strip_while CTxOut_IsNull outs"
proof (induction outs rule: cleanup_vout.induct)
  case (1 outs)
  then show ?case
    by (subst cleanup_vout.simps) (cases outs rule: rev_cases, auto)
qed

lemma cleanup_idem [simp]: "cleanup_vout (cleanup_vout outs) = cleanup_vout outs"
  by (simp add: cleanup_strip)

lemma Cleanup_idem [simp]: "Cleanup (Cleanup c) = Cleanup c"
  by (simp add: Cleanup_def)

lemma cleanup_Nil_iff: "cleanup_vout outs = [] \<longleftrightarrow> list_all CTxOut_IsNull outs"
  by (simp add: cleanup_strip list_all_iff)

lemma cleanup_prefix: "\<exists>n. outs = cleanup_vout outs @ n \<and> list_all CTxOut_IsNull n"
  unfolding cleanup_strip by (rule split_strip_while_append [of CTxOut_IsNull outs]) (auto simp: list_all_iff)

lemma out_used_cleanup [simp]: "out_used (cleanup_vout outs) i = out_used outs i"
  using cleanup_prefix [of outs]
  by (metis (no_types, lifting) length_append list_all_length add_diff_inverse_nat nat_add_left_cancel_less
      nth_append out_used_def trans_less_add1)

definition clean :: "CCoins \<Rightarrow> bool" where
  "clean c \<longleftrightarrow> Cleanup c = c"

lemma clean_last: "clean c \<longleftrightarrow> (c_vout c \<noteq> [] \<longrightarrow> \<not> CTxOut_IsNull (last (c_vout c)))"
proof -
  have "clean c \<longleftrightarrow> cleanup_vout (c_vout c) = c_vout c"
    by (cases c) (simp add: clean_def Cleanup_def)
  also have "\<dots> \<longleftrightarrow> no_trailing CTxOut_IsNull (c_vout c)"
    by (simp add: cleanup_strip strip_while_idem_iff)
  finally show ?thesis by (simp add: no_trailing_unfold)
qed

lemma clean_Cleanup [simp]: "clean (Cleanup c)" by (simp add: clean_def)

lemma clean_pruned: "clean c \<Longrightarrow> IsPruned c \<longleftrightarrow> c_vout c = []"
  by (cases "c_vout c" rule: rev_cases) (auto simp: clean_last IsPruned_def)

lemma IsPruned_used: "IsPruned c \<longleftrightarrow> (\<forall>i. \<not> out_used (c_vout c) i)"
  by (auto simp: IsPruned_def out_used_def list_all_length)

section \<open>Reading back what was written\<close>

definition used_byte :: "CTxOut list \<Rightarrow> nat \<Rightarrow> bool" where
  "used_byte outs b \<longleftrightarrow> (\<exists>i < 8. out_used outs (2 + b * 8 + i))"

lemma list_ex_used: "list_ex (\<lambda>i. out_used outs (2 + b * 8 + i)) [0..<8] = used_byte outs b"
  by (auto simp: list_ex_iff used_byte_def)

lemma list_ex_used' [simp]: "list_ex (\<lambda>i. out_used outs (Suc (Suc (b * 8 + i)))) [0..<8] = used_byte outs b"
  using list_ex_used [of outs b] by simp

lemma used_byte_beyond: "length outs \<le> 2 + b * 8 \<Longrightarrow> \<not> used_byte outs b"
  by (auto simp: used_byte_def out_used_def)

lemma mask_loop_spec:
  assumes "L \<le> b" "N = length (filter (used_byte outs) [0..<L])" "\<And>j. L \<le> j \<Longrightarrow> j < b \<Longrightarrow> \<not> used_byte outs j"
    "L = 0 \<or> used_byte outs (L - 1)" "mask_loop outs b L N = (n, k)"
  shows "k = length (filter (used_byte outs) [0..<n]) \<and> (n = 0 \<or> used_byte outs (n - 1)) \<and>
    (\<forall>j. used_byte outs j \<longrightarrow> j < n) \<and> n \<le> length outs"
  using assms
proof (induction outs b L N rule: mask_loop.induct)
  case (1 outs b L N)
  show ?case
  proof (cases "2 + b * 8 < length outs")
    case more: True
    show ?thesis
    proof (cases "used_byte outs b")
      case True
      have "[0..<b] = [0..<L] @ [L..<b]"
        using upt_add_eq_append [of 0 L "b - L"] 1(3) by simp
      then have "[0..<b + 1] = [0..<L] @ [L..<b] @ [b]" by simp
      moreover have "filter (used_byte outs) [L..<b] = []" using 1(5) by (auto simp: filter_empty_conv)
      ultimately have "N + 1 = length (filter (used_byte outs) [0..<b + 1])" using 1(4) True by simp
      moreover have "mask_loop outs (b + 1) (b + 1) (N + 1) = (n, k)"
        using 1(7) more True by (subst (asm) mask_loop.simps) (simp add: list_ex_used)
      ultimately show ?thesis using 1(1) [OF more refl] True more by (simp add: list_ex_used)
    next
      case False
      have "\<And>j. L \<le> j \<Longrightarrow> j < b + 1 \<Longrightarrow> \<not> used_byte outs j" using 1(5) False less_Suc_eq by auto
      moreover have "mask_loop outs (b + 1) L N = (n, k)"
        using 1(7) more False by (subst (asm) mask_loop.simps) (simp add: list_ex_used)
      ultimately show ?thesis using 1(2) [OF more refl] 1(3-6) False more by (simp add: list_ex_used)
    qed
  next
    case False
    then have "n = L" "k = N" using 1(7) by (simp_all add: mask_loop.simps [of outs b])
    moreover have "used_byte outs j \<Longrightarrow> j < L" for j
      using False 1(5) [of j] used_byte_beyond [of outs j] by (meson add_le_mono1 le_trans linorder_not_le mult_le_mono1 add_left_mono)
    moreover have "L \<le> length outs"
    proof (cases "L = 0")
      case False
      then have "\<not> length outs \<le> 2 + (L - 1) * 8" using 1(6) used_byte_beyond [of outs "L - 1"] by blast
      then show ?thesis by linarith
    qed simp
    ultimately show ?thesis using 1(4,6) by auto
  qed
qed

lemma bit_avail_byte: "bit (avail_byte outs b) p \<longleftrightarrow> p < 8 \<and> out_used outs (2 + b * 8 + p)"
  by (auto simp: avail_byte_def bit_set_loop)

lemma mask_bits_bit: "mask_bits ch = map (bit ch) [0..<8]"
  by (auto simp: mask_bits_def push_bit_of_1 and_exp_eq_0_iff_not_bit)

lemma avail_byte_0_iff: "avail_byte outs b = 0 \<longleftrightarrow> \<not> used_byte outs b"
  by (auto simp: bit_eq_iff bit_avail_byte used_byte_def)

lemma read_mask_bytes:
  "(bs = [] \<or> last bs \<noteq> 0) \<Longrightarrow>
   read_mask (length (filter (\<lambda>ch. ch \<noteq> 0) bs)) vA (bs @ s) = Some (vA @ concat (map mask_bits bs), s)"
proof (induction bs arbitrary: vA)
  case (Cons b bs)
  have "filter (\<lambda>ch. ch \<noteq> 0) (b # bs) \<noteq> []" using Cons.prems last_in_set [of "b # bs"] by (auto simp: filter_empty_conv)
  moreover have "bs = [] \<or> last bs \<noteq> 0" using Cons.prems by (auto split: if_splits)
  ultimately show ?case using Cons.IH by (subst read_mask.simps) auto
qed (simp add: read_mask.simps)

lemma concat_blocks: "concat (map (\<lambda>b. map (\<lambda>i. f (b * 8 + i)) [0..<8]) [0..<n]) = map f [0..<n * 8]"
proof (induction n)
  case (Suc n)
  have "[0..<Suc n * 8] = [0..<n * 8] @ [n * 8..<n * 8 + 8]"
    using upt_add_eq_append [of 0 "n * 8" 8] by (simp only: mult_Suc add.commute zero_le simp_thms)
  also have "[n * 8..<n * 8 + 8] = map (\<lambda>i. i + n * 8) [0..<8]"
    by (simp only: map_add_upt add.commute)
  finally show ?case using Suc by (simp add: add.commute comp_def)
qed simp

lemma read_outs_used:
  assumes "pubkey_ops_ok pk" "\<And>i. i \<in> set is \<Longrightarrow> out_used outs i \<Longrightarrow> coin_ok (outs ! i)"
  shows "read_outs pk (map (out_used outs) is)
      (concat (map (\<lambda>i. if out_used outs i then ser_txout_c pk (outs ! i) else []) is) @ s)
    = Some (map (\<lambda>i. if out_used outs i then outs ! i else CTxOut_Null) is, s)"
  using assms(2) by (induction "is") (auto simp: codec.unser_ser [OF txout_c_codec [OF assms(1)]])

lemma concat_upt_extend:
  assumes "\<And>i. a \<le> i \<Longrightarrow> i < c \<Longrightarrow> f i = []" "a \<le> c"
  shows "concat (map f [0..<c]) = concat (map f [0..<a])"
proof -
  have "[0..<c] = [0..<a] @ [a..<c]" using upt_add_eq_append [of 0 a "c - a"] assms(2) by simp
  moreover have "concat (map f [a..<c]) = []" using assms(1) by simp
  ultimately show ?thesis by simp
qed

lemma concat_outs:
  assumes "\<And>i. out_used outs i \<Longrightarrow> i < k"
  shows "concat (map (\<lambda>t. if CTxOut_IsNull t then [] else g t) outs)
    = concat (map (\<lambda>i. if out_used outs i then g (outs ! i) else []) [0..<k])" (is "_ = concat (map ?f _)")
proof -
  have "map (\<lambda>t. if CTxOut_IsNull t then [] else g t) outs = map ?f [0..<length outs]"
    by (rule nth_equalityI) (auto simp: out_used_def)
  moreover have "concat (map ?f [0..<max k (length outs)]) = concat (map ?f [0..<k])"
    "concat (map ?f [0..<max k (length outs)]) = concat (map ?f [0..<length outs])"
    using assms by (force intro!: concat_upt_extend simp: out_used_def)+
  ultimately show ?thesis by simp
qed

lemma cleanup_outs:
  assumes "\<And>i. out_used outs i \<Longrightarrow> i < k" "cleanup_vout outs = outs"
    and "\<forall>t \<in> set outs. CTxOut_IsNull t \<longrightarrow> t = CTxOut_Null"
  shows "cleanup_vout (map (\<lambda>i. if out_used outs i then outs ! i else CTxOut_Null) [0..<k]) = outs"
proof -
  let ?f = "\<lambda>i. if out_used outs i then outs ! i else CTxOut_Null"
  have "length outs \<le> k"
  proof (cases "outs = []")
    case False
    then have "out_used outs (length outs - 1)"
      using assms(2) by (simp add: cleanup_strip strip_while_idem_iff no_trailing_unfold out_used_def last_conv_nth)
    then show ?thesis using assms(1) by fastforce
  qed simp
  then obtain d where k: "k = length outs + d" using le_Suc_ex by blast
  have "map ?f [0..<length outs] = outs" using assms(3) by (intro nth_equalityI) (auto simp: out_used_def)
  moreover have "map ?f [length outs..<k] = replicate d CTxOut_Null"
    by (auto simp: k out_used_def intro!: nth_equalityI)
  ultimately have "map ?f [0..<k] = outs @ replicate d CTxOut_Null"
    using upt_add_eq_append [of 0 "length outs" d] by (simp add: k)
  moreover have "strip_while CTxOut_IsNull (outs @ replicate d CTxOut_Null) = outs"
    using assms(2) by (induction d) (auto simp: cleanup_strip CTxOut_IsNull_def CTxOut_Null_def
      replicate_append_same [symmetric] simp flip: append_assoc)
  ultimately show ?thesis by (simp add: cleanup_strip)
qed

text \<open>A record the database can hold.\<close>

definition coins_ok :: "CCoins \<Rightarrow> bool" where
  "coins_ok c \<longleftrightarrow> clean c \<and> \<not> IsPruned c \<and>
     list_all (\<lambda>t. if CTxOut_IsNull t then t = CTxOut_Null else coin_ok t) (c_vout c) \<and>
     length (c_vout c) < 2 ^ 28 \<and> 0 \<le> c_nVersion c \<and> c_nVersion c < 2 ^ 31 \<and>
     0 \<le> c_nHeight c \<and> c_nHeight c < 2 ^ 31"

lemma CalcMaskSize_spec:
  assumes "CalcMaskSize c = (n, k)"
  shows "k = length (filter (used_byte (c_vout c)) [0..<n])" "n = 0 \<or> used_byte (c_vout c) (n - 1)"
    "used_byte (c_vout c) j \<Longrightarrow> j < n" "n \<le> length (c_vout c)"
  using mask_loop_spec [of 0 0 0 "c_vout c" n k] assms by (auto simp: CalcMaskSize_def)

lemma used_in_byte: "out_used outs (2 + j) \<Longrightarrow> used_byte outs (j div 8)"
  unfolding used_byte_def by (intro exI [of _ "j mod 8"]) simp

lemma used_below_mask:
  assumes "CalcMaskSize c = (n, k)" "out_used (c_vout c) i" shows "i < 2 + n * 8"
proof (cases "i < 2")
  case False
  then obtain j where i: "i = 2 + j" by (metis add.commute le_Suc_ex linorder_not_le)
  then have "j div 8 < n" using CalcMaskSize_spec(3) [OF assms(1)] assms(2) used_in_byte by blast
  then show ?thesis using i by auto
qed simp

lemma mask_count_pos:
  assumes "CalcMaskSize c = (n, k)" "out_used (c_vout c) (2 + j)" shows "0 < k"
proof -
  have "used_byte (c_vout c) (j div 8)" using assms(2) by (rule used_in_byte)
  moreover have "j div 8 < n" using CalcMaskSize_spec(3) [OF assms(1) calculation] .
  ultimately have "j div 8 \<in> set (filter (used_byte (c_vout c)) [0..<n])" by simp
  then show ?thesis unfolding CalcMaskSize_spec(1) [OF assms(1)] by (metis length_pos_if_in_set)
qed

lemma remains_iff: "remains c \<longleftrightarrow> \<not> IsPruned c"
proof -
  obtain n k where nk: "CalcMaskSize c = (n, k)" by fastforce
  have "0 < k" if "out_used (c_vout c) i" "i \<noteq> 0" "i \<noteq> 1" for i
  proof -
    obtain j where "i = 2 + j" using \<open>i \<noteq> 0\<close> \<open>i \<noteq> 1\<close> by (metis One_nat_def Suc_1 add_2_eq_Suc not0_implies_Suc)
    then show ?thesis using mask_count_pos [OF nk] that by blast
  qed
  moreover have "\<exists>i. out_used (c_vout c) i" if "0 < k"
  proof -
    have "filter (used_byte (c_vout c)) [0..<n] \<noteq> []" using that CalcMaskSize_spec(1) [OF nk] by auto
    then show ?thesis by (auto simp: filter_empty_conv used_byte_def)
  qed
  ultimately show ?thesis unfolding remains_def IsPruned_used nk snd_conv by fastforce
qed

lemma low_bits16:
  "r < 16 \<Longrightarrow> (16 * m + r) div 16 = m" "(16 * m + r) mod 2 = r mod 2"
  "(16 * m + r) div 2 = 8 * m + r div 2" "(16 * m + r) div 4 = 4 * m + r div 4"
  "(16 * m + r) div 8 = 2 * m + r div 8" "(8 * m + x) mod 2 = x mod 2"
  "(4 * m + x) mod 2 = x mod 2" "(2 * m + x) mod 2 = x mod 2" "(4 * m + x) mod 4 = x mod 4"
  for r m x :: nat
  using div_mult_self4 [of 2 r "8 * m"] div_mult_self4 [of 4 r "4 * m"] div_mult_self4 [of 8 r "2 * m"]
    mod_mult_self4 [of 2 "8 * m" r] mod_mult_self4 [of 2 "4 * m" x] mod_mult_self4 [of 2 "2 * m" x]
  by simp_all

lemma header_bits:
  assumes "r = (if p then 1 else 0) + ((if q then 2 else 0) + ((if f then 4 else 0) + (if g then 8 else 0)))"
  shows "(16 * (m::nat) + r) div 16 = m" "(16 * m + r) mod 2 \<noteq> 0 \<longleftrightarrow> p" "(16 * m + r) div 2 mod 2 \<noteq> 0 \<longleftrightarrow> q"
    "(16 * m + r) div 4 mod 2 \<noteq> 0 \<longleftrightarrow> f" "(16 * m + r) div 8 mod 2 \<noteq> 0 \<longleftrightarrow> g"
    "(16 * m + r) div 4 mod 4 \<noteq> 0 \<longleftrightarrow> f \<or> g"
  unfolding low_bits16(2-) unfolding assms by (simp_all add: low_bits16)

lemma mask_bytes:
  assumes "CalcMaskSize c = (n, k)"
  shows "read_mask k vA (map (avail_byte (c_vout c)) [0..<n] @ s)
    = Some (vA @ map (\<lambda>i. out_used (c_vout c) (2 + i)) [0..<n * 8], s)"
proof -
  let ?bs = "map (avail_byte (c_vout c)) [0..<n]"
  have "length (filter (\<lambda>ch. ch \<noteq> 0) ?bs) = k"
    using CalcMaskSize_spec(1) [OF assms] by (simp add: filter_map comp_def avail_byte_0_iff)
  moreover have "?bs = [] \<or> last ?bs \<noteq> 0"
    using CalcMaskSize_spec(2) [OF assms] by (auto simp: last_map avail_byte_0_iff)
  moreover have "concat (map mask_bits ?bs) = map (\<lambda>i. out_used (c_vout c) (2 + i)) [0..<n * 8]"
    unfolding concat_blocks [symmetric]
    by (intro arg_cong [of _ _ concat]) (auto simp: mask_bits_bit bit_avail_byte)
  ultimately show ?thesis using read_mask_bytes [of ?bs vA s] by simp
qed

lemma CCoins_roundtrip:
  assumes pk: "pubkey_ops_ok pk" and ok: "coins_ok c"
  shows "\<exists>bs. CCoins_Serialize pk c = Some bs \<and> CCoins_Unserialize pk (bs @ s) = Some (c, s)"
proof -
  obtain n k where nk: "CalcMaskSize c = (n, k)" by fastforce
  let ?o = "c_vout c"
  define m where "m = k - (if out_used ?o 0 \<or> out_used ?o 1 then 0 else 1)"
  define r :: nat where "r = (if fCoinBase c then 1 else 0) + ((if fCoinStake c then 2 else 0) +
    ((if out_used ?o 0 then 4 else 0) + (if out_used ?o 1 then 8 else 0)))"
  have "k \<le> n" using CalcMaskSize_spec(1) [OF nk] by (metis length_filter_le length_upt minus_nat.diff_0)
  then have "k \<le> length ?o" using CalcMaskSize_spec(4) [OF nk] by linarith
  then have m28: "m < 2 ^ 28" using ok unfolding m_def coins_ok_def by linarith
  have "r < 16" by (simp add: r_def)
  then have hc: "header_code 16 c = 16 * m + r" and hc32: "16 * m + r < 2 ^ 32"
    using m28 by (simp_all add: header_code_def nk Let_def m_def r_def)
  have rem: "remains c" using ok by (simp add: remains_iff coins_ok_def)
  then have mk: "m + (if out_used ?o 0 \<or> out_used ?o 1 then 0 else 1) = k"
    by (auto simp: remains_def nk m_def)
  have all: "[out_used ?o 0, out_used ?o 1] @ map (\<lambda>i. out_used ?o (2 + i)) [0..<n * 8]
      = map (out_used ?o) [0..<2 + n * 8]"
  proof -
    have "[0..<2 + k] = 0 # 1 # [2..<2 + k]" for k by (simp add: upt_conv_Cons numeral_2_eq_2)
    then have "[0..<2 + n * 8] = 0 # 1 # [2..<2 + n * 8]" .
    also have "[2..<2 + n * 8] = map (\<lambda>i. i + 2) [0..<n * 8]" by (simp only: map_add_upt add.commute)
    finally show ?thesis by (simp add: comp_def add.commute)
  qed
  have outs: "read_outs pk (map (out_used ?o) [0..<2 + n * 8])
      (concat (map (\<lambda>t. if CTxOut_IsNull t then [] else ser_txout_c pk t) ?o) @ t)
    = Some (map (\<lambda>i. if out_used ?o i then ?o ! i else CTxOut_Null) [0..<2 + n * 8], t)" for t
  proof -
    have "concat (map (\<lambda>t. if CTxOut_IsNull t then [] else ser_txout_c pk t) ?o)
        = concat (map (\<lambda>i. if out_used ?o i then ser_txout_c pk (?o ! i) else []) [0..<2 + n * 8])"
      using used_below_mask [OF nk] by (rule concat_outs)
    moreover have "coin_ok (?o ! i)" if "out_used ?o i" for i
      using ok that by (auto simp: coins_ok_def list_all_length out_used_def)
    ultimately show ?thesis using read_outs_used [OF pk, of "[0..<2 + n * 8]" ?o t] by simp
  qed
  have cl: "cleanup_vout (map (\<lambda>i. if out_used ?o i then ?o ! i else CTxOut_Null) [0..<2 + n * 8]) = ?o"
    by (rule cleanup_outs [OF used_below_mask [OF nk]])
      (use ok in \<open>auto simp: coins_ok_def clean_def Cleanup_def list_all_iff dest: arg_cong [of _ _ c_vout]\<close>)
  have v: "0 \<le> c_nVersion c \<and> c_nVersion c < 2 ^ 31" "0 \<le> c_nHeight c \<and> c_nHeight c < 2 ^ 31"
    using ok by (auto simp: coins_ok_def)
  note bits = header_bits [OF r_def, of m]
  obtain bs where bs: "CCoins_Serialize pk c = Some bs" "bs = WriteVarInt_int (c_nVersion c) @
      WriteVarInt (16 * m + r) @ map (avail_byte ?o) [0..<n] @
      concat (map (\<lambda>t. if CTxOut_IsNull t then [] else ser_txout_c pk t) ?o) @ WriteVarInt_int (c_nHeight c)"
    using rem by (simp add: CCoins_Serialize_def hc nk)
  have "CCoins_Unserialize pk (bs @ s) = Some (Cleanup \<lparr>fCoinBase = fCoinBase c, fCoinStake = fCoinStake c,
      c_vout = map (\<lambda>i. if out_used ?o i then ?o ! i else CTxOut_Null) [0..<2 + n * 8],
      c_nHeight = c_nHeight c, c_nVersion = c_nVersion c\<rparr>, s)"
    unfolding CCoins_Unserialize_def bs(2) append_assoc
    by (simp only: rbind_Some varint_int.unser_ser [OF v(1)] varint32.unser_ser [OF hc32] mk
        mask_bytes [OF nk] bits all outs varint_int.unser_ser [OF v(2)] rret_app)
  then show ?thesis using bs(1) cl by (cases c) (simp add: Cleanup_def)
qed

end
