(* ===== verification/CoinsView.thy ===== *)
theory CoinsView
  imports Coins "HOL-Library.AList"
begin

text \<open>
  Views of the unspent outputs, \<^verbatim>\<open>src/src/coins.h\<close>, \<^verbatim>\<open>coins.cpp\<close> and \<^verbatim>\<open>txdb.cpp\<close>: the interface
  \<^verbatim>\<open>CCoinsView\<close> as a record of functions on a state (reading is stateful, because a cache fills
  itself on reads that C++ declares const), the cache \<^verbatim>\<open>CCoinsViewCache\<close> over any view, and the
  database \<^verbatim>\<open>CCoinsViewDB\<close>. The hash table of a cache is an association list with distinct keys;
  its order stands for the iteration order, which the results do not depend on. \<open>None\<close> is a
  failed assertion.

  The locale \<open>coins_view\<close> is the contract: a view represents a map from transaction ids to
  unspent outputs and a best block; reading does not change it, and a batch write overlays the
  dirty entries. A cache over a view that keeps the contract keeps it.
\<close>

record cache_entry =
  e_coins :: CCoins
  e_dirty :: bool
  e_fresh :: bool

type_synonym coins_map = "(uint256 \<times> cache_entry) list"

record 'v view_ops =
  vo_GetCoins :: "uint256 \<Rightarrow> 'v \<Rightarrow> CCoins option \<times> 'v"
  vo_HaveCoins :: "uint256 \<Rightarrow> 'v \<Rightarrow> bool \<times> 'v"
  vo_GetBestBlock :: "'v \<Rightarrow> uint256 \<times> 'v"
  vo_BatchWrite :: "coins_map \<Rightarrow> uint256 \<Rightarrow> 'v \<Rightarrow> (bool \<times> 'v) option"

section \<open>CCoinsViewCache\<close>

record 'v cache =
  c_base :: 'v
  hasModifier :: bool
  hashBlock :: uint256
  cacheCoins :: coins_map

definition CCoinsViewCache :: "'v \<Rightarrow> 'v cache" where
  "CCoinsViewCache b = \<lparr>c_base = b, hasModifier = False, hashBlock = 0, cacheCoins = []\<rparr>"

definition FetchCoins :: "'v view_ops \<Rightarrow> uint256 \<Rightarrow> 'v cache \<Rightarrow> cache_entry option \<times> 'v cache" where
  "FetchCoins ops txid s =
     (case map_of (cacheCoins s) txid of
        Some e \<Rightarrow> (Some e, s)
      | None \<Rightarrow>
          (case vo_GetCoins ops txid (c_base s) of
             (None, b) \<Rightarrow> (None, s\<lparr>c_base := b\<rparr>)
           | (Some tmp, b) \<Rightarrow>
               let e = \<lparr>e_coins = tmp, e_dirty = False, e_fresh = IsPruned tmp\<rparr>
               in (Some e, s\<lparr>c_base := b, cacheCoins := (txid, e) # cacheCoins s\<rparr>)))"

definition cache_GetCoins :: "'v view_ops \<Rightarrow> uint256 \<Rightarrow> 'v cache \<Rightarrow> CCoins option \<times> 'v cache" where
  "cache_GetCoins ops txid s =
     (case FetchCoins ops txid s of
        (Some e, s') \<Rightarrow> (Some (e_coins e), s')
      | (None, s') \<Rightarrow> (None, s'))"

definition AccessCoins :: "'v view_ops \<Rightarrow> uint256 \<Rightarrow> 'v cache \<Rightarrow> CCoins option \<times> 'v cache" where
  "AccessCoins ops txid s =
     (case FetchCoins ops txid s of
        (None, s') \<Rightarrow> (None, s')
      | (Some e, s') \<Rightarrow> (Some (e_coins e), s'))"

definition cache_HaveCoins :: "'v view_ops \<Rightarrow> uint256 \<Rightarrow> 'v cache \<Rightarrow> bool \<times> 'v cache" where
  "cache_HaveCoins ops txid s =
     (case FetchCoins ops txid s of
        (Some e, s') \<Rightarrow> (c_vout (e_coins e) \<noteq> [], s')
      | (None, s') \<Rightarrow> (False, s'))"

definition cache_GetBestBlock :: "'v view_ops \<Rightarrow> 'v cache \<Rightarrow> uint256 \<times> 'v cache" where
  "cache_GetBestBlock ops s =
     (if hashBlock s = 0
      then (case vo_GetBestBlock ops (c_base s) of (h, b) \<Rightarrow> (h, s\<lparr>c_base := b, hashBlock := h\<rparr>))
      else (hashBlock s, s))"

definition SetBestBlock :: "uint256 \<Rightarrow> 'v cache \<Rightarrow> 'v cache" where
  "SetBestBlock h s = s\<lparr>hashBlock := h\<rparr>"

text \<open>One entry of the child in \<^verbatim>\<open>BatchWrite\<close>.\<close>

fun batch_entry :: "uint256 \<times> cache_entry \<Rightarrow> coins_map \<Rightarrow> coins_map option" where
  "batch_entry (txid, e) m =
     (if e_dirty e
      then (case map_of m txid of
              None \<Rightarrow>
                if \<not> IsPruned (e_coins e)
                then (if e_fresh e
                      then Some ((txid, \<lparr>e_coins = e_coins e, e_dirty = True, e_fresh = True\<rparr>) # m)
                      else None)
                else Some m
            | Some us \<Rightarrow>
                if e_fresh us \<and> IsPruned (e_coins e) then Some (AList.delete txid m)
                else Some (AList.update txid (us\<lparr>e_coins := e_coins e, e_dirty := True\<rparr>) m))
      else Some m)"

fun batch_entries :: "coins_map \<Rightarrow> coins_map \<Rightarrow> coins_map option" where
  "batch_entries [] m = Some m"
| "batch_entries (x # xs) m = (case batch_entry x m of None \<Rightarrow> None | Some m' \<Rightarrow> batch_entries xs m')"

definition cache_BatchWrite :: "coins_map \<Rightarrow> uint256 \<Rightarrow> 'v cache \<Rightarrow> (bool \<times> 'v cache) option" where
  "cache_BatchWrite mapCoins h s =
     (if hasModifier s then None
      else case batch_entries mapCoins (cacheCoins s) of
             None \<Rightarrow> None
           | Some m \<Rightarrow> Some (True, s\<lparr>cacheCoins := m, hashBlock := h\<rparr>))"

definition cache_ops :: "'v view_ops \<Rightarrow> 'v cache view_ops" where
  "cache_ops ops = \<lparr>vo_GetCoins = cache_GetCoins ops, vo_HaveCoins = cache_HaveCoins ops,
     vo_GetBestBlock = cache_GetBestBlock ops, vo_BatchWrite = cache_BatchWrite\<rparr>"

definition Flush :: "'v view_ops \<Rightarrow> 'v cache \<Rightarrow> (bool \<times> 'v cache) option" where
  "Flush ops s =
     (case vo_BatchWrite ops (cacheCoins s) (hashBlock s) (c_base s) of
        None \<Rightarrow> None
      | Some (fOk, b) \<Rightarrow> Some (fOk, s\<lparr>c_base := b, cacheCoins := []\<rparr>))"

definition GetCacheSize :: "'v cache \<Rightarrow> nat" where
  "GetCacheSize s = length (cacheCoins s)"

text \<open>
  \<^verbatim>\<open>ModifyCoins\<close> opens a modifier on an entry and returns the coins; the caller changes them; the
  destructor of the modifier cleans them up and drops an empty fresh entry.
\<close>

definition ModifyCoins :: "'v view_ops \<Rightarrow> uint256 \<Rightarrow> 'v cache \<Rightarrow> (CCoins \<times> 'v cache) option" where
  "ModifyCoins ops txid s =
     (if hasModifier s then None
      else let (e, s') =
             (case map_of (cacheCoins s) txid of
                Some e \<Rightarrow> (e, s)
              | None \<Rightarrow>
                  (case vo_GetCoins ops txid (c_base s) of
                     (None, b) \<Rightarrow>
                       (\<lparr>e_coins = CCoins_Clear CCoins_empty, e_dirty = False, e_fresh = True\<rparr>, s\<lparr>c_base := b\<rparr>)
                   | (Some c, b) \<Rightarrow>
                       (\<lparr>e_coins = c, e_dirty = False, e_fresh = IsPruned c\<rparr>, s\<lparr>c_base := b\<rparr>)))
           in Some (e_coins e,
                s'\<lparr>cacheCoins := AList.update txid (e\<lparr>e_dirty := True\<rparr>) (cacheCoins s'), hasModifier := True\<rparr>))"

definition modifier_end :: "uint256 \<Rightarrow> CCoins \<Rightarrow> 'v cache \<Rightarrow> 'v cache option" where
  "modifier_end txid c s =
     (if \<not> hasModifier s then None
      else case map_of (cacheCoins s) txid of
             None \<Rightarrow> None
           | Some e \<Rightarrow>
               let e' = e\<lparr>e_coins := Cleanup c\<rparr>
               in Some (s\<lparr>hasModifier := False,
                    cacheCoins := (if e_fresh e' \<and> IsPruned (e_coins e') then AList.delete txid (cacheCoins s)
                                   else AList.update txid e' (cacheCoins s))\<rparr>))"

text \<open>The statement \<^verbatim>\<open>inputs.ModifyCoins(txid)->f()\<close>, where \<^verbatim>\<open>f\<close> also returns a result.\<close>

definition modify :: "'v view_ops \<Rightarrow> uint256 \<Rightarrow> (CCoins \<Rightarrow> ('r \<times> CCoins) option) \<Rightarrow> 'v cache \<Rightarrow>
    ('r \<times> 'v cache) option" where
  "modify ops txid f s =
     (case ModifyCoins ops txid s of
        None \<Rightarrow> None
      | Some (c, s1) \<Rightarrow>
          (case f c of
             None \<Rightarrow> None
           | Some (r, c') \<Rightarrow> (case modifier_end txid c' s1 of None \<Rightarrow> None | Some s2 \<Rightarrow> Some (r, s2))))"

section \<open>Reading through a cache\<close>

text \<open>\<^verbatim>\<open>GetOutputFor\<close> asserts that the output is there.\<close>

definition GetOutputFor :: "'v view_ops \<Rightarrow> CTxIn \<Rightarrow> 'v cache \<Rightarrow> (CTxOut \<times> 'v cache) option" where
  "GetOutputFor ops input s =
     (case AccessCoins ops (op_hash (prevout input)) s of
        (None, s') \<Rightarrow> None
      | (Some c, s') \<Rightarrow>
          if IsAvailable c (unat (op_n (prevout input)))
          then Some (c_vout c ! unat (op_n (prevout input)), s') else None)"

fun value_in_loop :: "'v view_ops \<Rightarrow> CTxIn list \<Rightarrow> CAmount \<Rightarrow> 'v cache \<Rightarrow> (CAmount \<times> 'v cache) option" where
  "value_in_loop ops [] nResult s = Some (nResult, s)"
| "value_in_loop ops (txin # txins) nResult s =
     (case GetOutputFor ops txin s of
        None \<Rightarrow> None
      | Some (txout, s') \<Rightarrow> value_in_loop ops txins (wrap64 (nResult + nValue txout)) s')"

definition GetValueIn :: "'v view_ops \<Rightarrow> CTransaction \<Rightarrow> 'v cache \<Rightarrow> (CAmount \<times> 'v cache) option" where
  "GetValueIn ops tx s =
     (if IsCoinBase tx then Some (0, s)
      else if tx_IsZerocoinSpend tx then Some (GetZerocoinSpent tx, s)
      else value_in_loop ops (vin tx) 0 s)"

fun have_inputs_loop :: "'v view_ops \<Rightarrow> CTxIn list \<Rightarrow> 'v cache \<Rightarrow> bool \<times> 'v cache" where
  "have_inputs_loop ops [] s = (True, s)"
| "have_inputs_loop ops (txin # txins) s =
     (case AccessCoins ops (op_hash (prevout txin)) s of
        (None, s') \<Rightarrow> (False, s')
      | (Some c, s') \<Rightarrow>
          if \<not> IsAvailable c (unat (op_n (prevout txin))) then (False, s') else have_inputs_loop ops txins s')"

definition HaveInputs :: "'v view_ops \<Rightarrow> CTransaction \<Rightarrow> 'v cache \<Rightarrow> bool \<times> 'v cache" where
  "HaveInputs ops tx s =
     (if \<not> IsCoinBase tx \<and> \<not> tx_IsZerocoinSpend tx then have_inputs_loop ops (vin tx) s else (True, s))"

section \<open>The contract\<close>

definition live :: "CCoins \<Rightarrow> CCoins option" where
  "live c = (if IsPruned c then None else Some c)"

definition live_opt :: "CCoins option \<Rightarrow> CCoins option" where
  "live_opt r = (case r of None \<Rightarrow> None | Some c \<Rightarrow> live c)"

type_synonym utxo_map = "uint256 \<Rightarrow> CCoins option"

definition apply_batch :: "coins_map \<Rightarrow> utxo_map \<Rightarrow> utxo_map" where
  "apply_batch m u t = (case map_of m t of Some e \<Rightarrow> if e_dirty e then live (e_coins e) else u t | None \<Rightarrow> u t)"

text \<open>
  What a parent needs of a batch: clean storable coins, flags that tell the truth, and that an
  entry not marked fresh is one the parent has been asked for (\<open>k\<close>).
\<close>

definition entry_ok :: "(CCoins \<Rightarrow> bool) \<Rightarrow> utxo_map \<Rightarrow> (uint256 \<Rightarrow> bool) \<Rightarrow> uint256 \<times> cache_entry \<Rightarrow> bool" where
  "entry_ok ok u k x \<longleftrightarrow> (case x of (t, e) \<Rightarrow>
     clean (e_coins e) \<and> (\<not> IsPruned (e_coins e) \<longrightarrow> ok (e_coins e)) \<and>
     (e_fresh e \<longrightarrow> u t = None) \<and> (\<not> e_fresh e \<longrightarrow> k t) \<and> (\<not> e_dirty e \<longrightarrow> live (e_coins e) = u t))"

definition batch_ok :: "(CCoins \<Rightarrow> bool) \<Rightarrow> utxo_map \<Rightarrow> (uint256 \<Rightarrow> bool) \<Rightarrow> coins_map \<Rightarrow> bool" where
  "batch_ok ok u k m \<longleftrightarrow> distinct (map fst m) \<and> list_all (entry_ok ok u k) m"

locale coins_view =
  fixes ops :: "'v view_ops" and valid :: "'v \<Rightarrow> bool" and utxo :: "'v \<Rightarrow> utxo_map"
    and best :: "'v \<Rightarrow> uint256" and known :: "'v \<Rightarrow> uint256 \<Rightarrow> bool" and ok :: "CCoins \<Rightarrow> bool"
  assumes get_frame: "valid v \<Longrightarrow> vo_GetCoins ops t v = (r, v') \<Longrightarrow>
      valid v' \<and> utxo v' = utxo v \<and> best v' = best v \<and> (\<forall>x. known v x \<longrightarrow> known v' x)"
    and get_result: "valid v \<Longrightarrow> vo_GetCoins ops t v = (r, v') \<Longrightarrow> live_opt r = utxo v t"
    and get_known: "valid v \<Longrightarrow> vo_GetCoins ops t v = (Some c, v') \<Longrightarrow> known v' t"
    and get_clean: "valid v \<Longrightarrow> vo_GetCoins ops t v = (Some c, v') \<Longrightarrow> clean c"
    and utxo_ok: "valid v \<Longrightarrow> utxo v t = Some c \<Longrightarrow> ok c"
    and have_frame: "valid v \<Longrightarrow> vo_HaveCoins ops t v = (b, v') \<Longrightarrow>
      valid v' \<and> utxo v' = utxo v \<and> best v' = best v"
    and have_result: "valid v \<Longrightarrow> vo_HaveCoins ops t v = (b, v') \<Longrightarrow> b = (utxo v t \<noteq> None)"
    and best_frame: "valid v \<Longrightarrow> vo_GetBestBlock ops v = (h, v') \<Longrightarrow>
      h = best v \<and> valid v' \<and> utxo v' = utxo v \<and> best v' = best v \<and> (\<forall>x. known v x \<longrightarrow> known v' x)"
    and batch: "valid v \<Longrightarrow> batch_ok ok (utxo v) (known v) m \<Longrightarrow> h \<noteq> 0 \<Longrightarrow>
      \<exists>v'. vo_BatchWrite ops m h v = Some (True, v') \<and> valid v' \<and> best v' = h \<and> utxo v' = apply_batch m (utxo v)"

end
