(* ===== verification/CacheLemmas.thy ===== *)
theory CacheLemmas
  imports CoinsView
begin

text \<open>
  A cache over a view that keeps the contract of \<open>coins_view\<close> keeps it too, so caches stack: reading
  fills a cache without changing what it represents, a batch write overlays the dirty entries, a
  flush moves every change to the base and the assertions on the flags never fail.
\<close>

section \<open>What a cache represents\<close>

definition cache_utxo :: "('v \<Rightarrow> utxo_map) \<Rightarrow> 'v cache \<Rightarrow> utxo_map" where
  "cache_utxo utxo s t = (case map_of (cacheCoins s) t of Some e \<Rightarrow> live (e_coins e) | None \<Rightarrow> utxo (c_base s) t)"

definition cache_best :: "('v \<Rightarrow> uint256) \<Rightarrow> 'v cache \<Rightarrow> uint256" where
  "cache_best best s = (if hashBlock s = 0 then best (c_base s) else hashBlock s)"

definition cache_known :: "'v cache \<Rightarrow> uint256 \<Rightarrow> bool" where
  "cache_known s t \<longleftrightarrow> map_of (cacheCoins s) t \<noteq> None"

definition cache_inv :: "('v \<Rightarrow> bool) \<Rightarrow> ('v \<Rightarrow> utxo_map) \<Rightarrow> ('v \<Rightarrow> uint256 \<Rightarrow> bool) \<Rightarrow> (CCoins \<Rightarrow> bool) \<Rightarrow>
    'v cache \<Rightarrow> bool" where
  "cache_inv valid utxo known ok s \<longleftrightarrow>
     valid (c_base s) \<and> \<not> hasModifier s \<and> batch_ok ok (utxo (c_base s)) (known (c_base s)) (cacheCoins s)"

section \<open>Maps as association lists\<close>

lemma map_of_update [simp]: "map_of (AList.update k v m) = (map_of m)(k \<mapsto> v)"
  by (rule update_conv')

lemma map_of_delete [simp]: "map_of (AList.delete k m) = (map_of m)(k := None)"
  by (rule delete_conv')

lemma batch_ok_map: "distinct (map fst m) \<Longrightarrow>
    batch_ok ok u k m \<longleftrightarrow> (\<forall>t e. map_of m t = Some e \<longrightarrow> entry_ok ok u k (t, e))"
  by (auto simp: batch_ok_def list_all_iff)

lemma batch_ok_lookup: "batch_ok ok u k m \<Longrightarrow> map_of m t = Some e \<Longrightarrow> entry_ok ok u k (t, e)"
  by (auto simp: batch_ok_def list_all_iff dest: map_of_SomeD)

lemma batch_ok_cong:
  assumes "batch_ok ok u k m" "\<And>x. k x \<Longrightarrow> k' x" shows "batch_ok ok u k' m"
  using assms by (auto simp: batch_ok_def list_all_iff entry_ok_def)

lemma batch_ok_Cons: "batch_ok ok u k m \<Longrightarrow> map_of m t = None \<Longrightarrow> entry_ok ok u k (t, e) \<Longrightarrow>
    batch_ok ok u k ((t, e) # m)"
  by (auto simp: batch_ok_def map_of_eq_None_iff)

lemma batch_ok_update:
  assumes "batch_ok ok u k m" "entry_ok ok u k (t, e)" shows "batch_ok ok u k (AList.update t e m)"
proof -
  have d: "distinct (map fst m)" using assms(1) by (simp add: batch_ok_def)
  then have "distinct (map fst (AList.update t e m))" by (rule distinct_update)
  then show ?thesis using assms by (auto simp: batch_ok_map [OF d] batch_ok_map)
qed

lemma batch_ok_delete:
  assumes "batch_ok ok u k m" shows "batch_ok ok u k (AList.delete t m)"
proof -
  have d: "distinct (map fst m)" using assms(1) by (simp add: batch_ok_def)
  then have "distinct (map fst (AList.delete t m))" by (rule distinct_delete)
  then show ?thesis using assms by (auto simp: batch_ok_map [OF d] batch_ok_map)
qed

lemma live_pruned [simp]: "IsPruned c \<Longrightarrow> live c = None"
  by (simp add: live_def)

lemma live_None_iff: "live c = None \<longleftrightarrow> IsPruned c"
  by (simp add: live_def)

section \<open>Writing a batch into a cache\<close>

definition overlay :: "utxo_map \<Rightarrow> coins_map \<Rightarrow> utxo_map" where
  "overlay u m t = (case map_of m t of Some e \<Rightarrow> live (e_coins e) | None \<Rightarrow> u t)"

lemma cache_utxo_overlay: "cache_utxo utxo s = overlay (utxo (c_base s)) (cacheCoins s)"
  by (rule ext) (simp add: cache_utxo_def overlay_def)

lemma batch_entry_spec:
  assumes m: "batch_ok ok u k m" and e: "clean (e_coins e)" "\<not> IsPruned (e_coins e) \<longrightarrow> ok (e_coins e)"
    "e_fresh e \<longrightarrow> overlay u m t = None" "\<not> e_fresh e \<longrightarrow> map_of m t \<noteq> None"
  shows "\<exists>m'. batch_entry (t, e) m = Some m' \<and> batch_ok ok u k m' \<and> (\<forall>x. x \<noteq> t \<longrightarrow> map_of m' x = map_of m x) \<and>
    overlay u m' t = (if e_dirty e then live (e_coins e) else overlay u m t)"
proof (cases "e_dirty e")
  case dirty: True
  show ?thesis
  proof (cases "map_of m t")
    case None
    then have f: "e_fresh e" "u t = None" using e(3,4) by (auto simp: overlay_def)
    show ?thesis
    proof (cases "IsPruned (e_coins e)")
      case True
      then show ?thesis using m dirty None f by (simp add: overlay_def)
    next
      case False
      have "entry_ok ok u k (t, \<lparr>e_coins = e_coins e, e_dirty = True, e_fresh = True\<rparr>)"
        using e f False by (simp add: entry_ok_def)
      from batch_ok_Cons [OF m None this] show ?thesis using dirty None f False by (simp add: overlay_def)
    qed
  next
    case (Some us)
    note us = batch_ok_lookup [OF m Some]
    show ?thesis
    proof (cases "e_fresh us \<and> IsPruned (e_coins e)")
      case True
      then show ?thesis using dirty Some us batch_ok_delete [OF m, of t] by (simp add: overlay_def entry_ok_def)
    next
      case False
      have "entry_ok ok u k (t, us\<lparr>e_coins := e_coins e, e_dirty := True\<rparr>)"
        using e us by (simp add: entry_ok_def)
      from batch_ok_update [OF m this] show ?thesis using dirty Some False by (auto simp: overlay_def)
    qed
  qed
next
  case False
  then show ?thesis using m by simp
qed

lemma batch_entries_spec:
  assumes "batch_ok ok u k m" "distinct (map fst xs)"
    "\<And>t e. (t, e) \<in> set xs \<Longrightarrow> clean (e_coins e) \<and> (\<not> IsPruned (e_coins e) \<longrightarrow> ok (e_coins e)) \<and>
       (e_fresh e \<longrightarrow> overlay u m t = None) \<and> (\<not> e_fresh e \<longrightarrow> map_of m t \<noteq> None)"
  shows "\<exists>m'. batch_entries xs m = Some m' \<and> batch_ok ok u k m' \<and> overlay u m' = apply_batch xs (overlay u m)"
  using assms
proof (induction xs arbitrary: m)
  case (Cons x xs)
  obtain t e where x: "x = (t, e)" by fastforce
  obtain m1 where m1: "batch_entry (t, e) m = Some m1" "batch_ok ok u k m1"
    "\<And>x. x \<noteq> t \<Longrightarrow> map_of m1 x = map_of m x" "overlay u m1 t = (if e_dirty e then live (e_coins e) else overlay u m t)"
    using batch_entry_spec [OF Cons.prems(1), of e t] Cons.prems(3) [of t e] by (auto simp: x)
  have other: "overlay u m1 y = overlay u m y" if "y \<noteq> t" for y using m1(3) [OF that] by (simp add: overlay_def)
  have "y \<noteq> t" if "(y, f) \<in> set xs" for y f using Cons.prems(2) that by (force simp: x)
  then have "\<exists>m'. batch_entries xs m1 = Some m' \<and> batch_ok ok u k m' \<and> overlay u m' = apply_batch xs (overlay u m1)"
    using Cons.prems(2,3) m1(3) other by (intro Cons.IH m1(2)) (auto simp: x)
  then obtain m' where m': "batch_entries xs m1 = Some m'" "batch_ok ok u k m'" "overlay u m' = apply_batch xs (overlay u m1)"
    by blast
  have "map_of xs t = None" using Cons.prems(2) by (simp add: x map_of_eq_None_iff)
  then have "apply_batch xs (overlay u m1) = apply_batch (x # xs) (overlay u m)"
    using m1(4) other by (auto simp: fun_eq_iff apply_batch_def x split: option.split)
  then show ?case using m1(1) m' by (simp add: x)
qed (simp add: apply_batch_def fun_eq_iff)

section \<open>Reading\<close>

context coins_view
begin

abbreviation cinv :: "'v cache \<Rightarrow> bool" where "cinv \<equiv> cache_inv valid utxo known ok"

lemma FetchCoins_spec:
  assumes "cinv s" "FetchCoins ops t s = (r, s')"
  shows "cinv s'" "cache_utxo utxo s' = cache_utxo utxo s" "cache_best best s' = cache_best best s"
    "map_of (cacheCoins s') t = r" "cache_known s x \<Longrightarrow> cache_known s' x"
    "cache_utxo utxo s t = (case r of None \<Rightarrow> None | Some e \<Rightarrow> live (e_coins e))"
    "hashBlock s' = hashBlock s"
proof -
  let ?P = "cinv s' \<and> cache_utxo utxo s' = cache_utxo utxo s \<and> cache_best best s' = cache_best best s \<and>
    map_of (cacheCoins s') t = r \<and> (\<forall>x. cache_known s x \<longrightarrow> cache_known s' x) \<and>
    cache_utxo utxo s t = (case r of None \<Rightarrow> None | Some e \<Rightarrow> live (e_coins e)) \<and> hashBlock s' = hashBlock s"
  have ?P
  proof (cases "map_of (cacheCoins s) t")
    case (Some e)
    then have "r = Some e" "s' = s" using assms(2) by (auto simp: FetchCoins_def)
    then show ?thesis using assms(1) Some by (auto simp: cache_utxo_def)
  next
    case None
    obtain g b where g: "vo_GetCoins ops t (c_base s) = (g, b)" by fastforce
    have i: "valid (c_base s)" "\<not> hasModifier s" "batch_ok ok (utxo (c_base s)) (known (c_base s)) (cacheCoins s)"
      using assms(1) by (auto simp: cache_inv_def)
    note f = get_frame [OF i(1) g] get_result [OF i(1) g]
    then have bk: "batch_ok ok (utxo b) (known b) (cacheCoins s)" using batch_ok_cong [OF i(3)] by auto
    show ?thesis
    proof (cases g)
      case gn: None
      then have "r = None" "s' = s\<lparr>c_base := b\<rparr>" using assms(2) None g by (auto simp: FetchCoins_def)
      moreover from this have "cache_utxo utxo s' = cache_utxo utxo s"
        using f by (intro ext) (auto simp: cache_utxo_def split: option.split)
      ultimately show ?thesis using None f i bk gn
        by (auto simp: cache_inv_def cache_best_def cache_known_def cache_utxo_def live_opt_def)
    next
      case (Some c)
      define e where "e = \<lparr>e_coins = c, e_dirty = False, e_fresh = IsPruned c\<rparr>"
      have r: "r = Some e" "s' = s\<lparr>c_base := b, cacheCoins := (t, e) # cacheCoins s\<rparr>"
        using assms(2) None g Some by (auto simp: FetchCoins_def e_def Let_def)
      have u: "live c = utxo b t" using f Some by (simp add: live_opt_def)
      have "ok c" if "\<not> IsPruned c" using that u utxo_ok [of b t c] f by (simp add: live_def)
      then have "entry_ok ok (utxo b) (known b) (t, e)"
        using get_known [OF i(1)] get_clean [OF i(1)] g Some u by (auto simp: entry_ok_def e_def)
      then have "batch_ok ok (utxo b) (known b) ((t, e) # cacheCoins s)"
        using bk None by (intro batch_ok_Cons)
      moreover have "cache_utxo utxo s' = cache_utxo utxo s"
        using None f u r by (intro ext) (auto simp: cache_utxo_def e_def split: option.split)
      ultimately show ?thesis using None f i u r
        by (auto simp: cache_inv_def cache_best_def cache_known_def cache_utxo_def e_def)
    qed
  qed
  then show "cinv s'" "cache_utxo utxo s' = cache_utxo utxo s" "cache_best best s' = cache_best best s"
    "map_of (cacheCoins s') t = r" "cache_known s x \<Longrightarrow> cache_known s' x"
    "cache_utxo utxo s t = (case r of None \<Rightarrow> None | Some e \<Rightarrow> live (e_coins e))"
    "hashBlock s' = hashBlock s"
    by auto
qed

lemma cinv_entry: "cinv s \<Longrightarrow> map_of (cacheCoins s) t = Some e \<Longrightarrow> entry_ok ok (utxo (c_base s)) (known (c_base s)) (t, e)"
  by (auto simp: cache_inv_def intro: batch_ok_lookup)

lemma AccessCoins_spec:
  assumes "cinv s" "AccessCoins ops t s = (r, s')"
  shows "cinv s'" "cache_utxo utxo s' = cache_utxo utxo s" "cache_best best s' = cache_best best s"
    "live_opt r = cache_utxo utxo s t"
  using assms FetchCoins_spec [OF assms(1), of t]
  by (auto simp: AccessCoins_def live_opt_def split: prod.splits option.splits)

lemma cache_BatchWrite_spec:
  assumes "cinv s" "batch_ok ok (cache_utxo utxo s) (cache_known s) m" "h \<noteq> 0"
  shows "\<exists>s'. cache_BatchWrite m h s = Some (True, s') \<and> cinv s' \<and> cache_best best s' = h \<and>
    cache_utxo utxo s' = apply_batch m (cache_utxo utxo s)"
proof -
  let ?u = "utxo (c_base s)" and ?k = "known (c_base s)"
  have i: "valid (c_base s)" "\<not> hasModifier s" "batch_ok ok ?u ?k (cacheCoins s)"
    using assms(1) by (auto simp: cache_inv_def)
  have "distinct (map fst m)" using assms(2) by (simp add: batch_ok_def)
  moreover have "clean (e_coins e) \<and> (\<not> IsPruned (e_coins e) \<longrightarrow> ok (e_coins e)) \<and>
      (e_fresh e \<longrightarrow> overlay ?u (cacheCoins s) t = None) \<and> (\<not> e_fresh e \<longrightarrow> map_of (cacheCoins s) t \<noteq> None)"
    if "(t, e) \<in> set m" for t e
    using assms(2) that by (auto simp: batch_ok_def list_all_iff entry_ok_def cache_known_def cache_utxo_overlay)
  ultimately obtain m' where "batch_entries m (cacheCoins s) = Some m'" "batch_ok ok ?u ?k m'"
    "overlay ?u m' = apply_batch m (overlay ?u (cacheCoins s))"
    using batch_entries_spec [OF i(3)] by blast
  then show ?thesis using i assms(3)
    by (simp add: cache_BatchWrite_def cache_inv_def cache_best_def cache_utxo_overlay)
qed

lemma cache_GetCoins_spec:
  assumes "cinv s" "cache_GetCoins ops t s = (r, s')"
  shows "cinv s'" "cache_utxo utxo s' = cache_utxo utxo s" "cache_best best s' = cache_best best s"
    "cache_known s x \<Longrightarrow> cache_known s' x" "live_opt r = cache_utxo utxo s t"
    "r = Some c \<Longrightarrow> cache_known s' t \<and> clean c"
proof -
  obtain e s1 where f: "FetchCoins ops t s = (e, s1)" by fastforce
  note F = FetchCoins_spec [OF assms(1) f]
  have r: "s' = s1" "r = map_option e_coins e" using assms(2) f by (auto simp: cache_GetCoins_def split: option.splits)
  show "cinv s'" "cache_utxo utxo s' = cache_utxo utxo s" "cache_best best s' = cache_best best s"
    "cache_known s x \<Longrightarrow> cache_known s' x" "live_opt r = cache_utxo utxo s t"
    using F r by (auto simp: live_opt_def split: option.split)
  show "r = Some c \<Longrightarrow> cache_known s' t \<and> clean c"
    using F(1,4) r cinv_entry [of s' t] by (auto simp: cache_known_def entry_ok_def)
qed

lemma cache_HaveCoins_spec:
  assumes "cinv s" "cache_HaveCoins ops t s = (b, s')"
  shows "cinv s' \<and> cache_utxo utxo s' = cache_utxo utxo s \<and> cache_best best s' = cache_best best s \<and>
    b = (cache_utxo utxo s t \<noteq> None)"
proof -
  obtain e s1 where f: "FetchCoins ops t s = (e, s1)" by fastforce
  note F = FetchCoins_spec [OF assms(1) f]
  have "s' = s1" "b = (case e of None \<Rightarrow> False | Some e \<Rightarrow> c_vout (e_coins e) \<noteq> [])"
    using assms(2) f by (auto simp: cache_HaveCoins_def split: option.splits)
  then show ?thesis using F cinv_entry [of s' t]
    by (auto simp: entry_ok_def live_def clean_pruned split: option.splits)
qed

lemma cache_GetBestBlock_spec:
  assumes "cinv s" "cache_GetBestBlock ops s = (h, s')"
  shows "h = cache_best best s \<and> cinv s' \<and> cache_utxo utxo s' = cache_utxo utxo s \<and>
    cache_best best s' = cache_best best s \<and> (\<forall>x. cache_known s x \<longrightarrow> cache_known s' x)"
proof (cases "hashBlock s = 0")
  case True
  obtain g b where g: "vo_GetBestBlock ops (c_base s) = (g, b)" by fastforce
  have i: "valid (c_base s)" "\<not> hasModifier s" "batch_ok ok (utxo (c_base s)) (known (c_base s)) (cacheCoins s)"
    using assms(1) by (auto simp: cache_inv_def)
  note f = best_frame [OF i(1) g]
  have "h = g" "s' = s\<lparr>c_base := b, hashBlock := g\<rparr>" using assms(2) True g by (auto simp: cache_GetBestBlock_def)
  moreover from this have "cache_utxo utxo s' = cache_utxo utxo s"
    using f by (intro ext) (auto simp: cache_utxo_def split: option.split)
  ultimately show ?thesis using f i True batch_ok_cong [OF i(3), of "known b"]
    by (auto simp: cache_inv_def cache_best_def cache_known_def)
next
  case False
  then show ?thesis using assms by (auto simp: cache_GetBestBlock_def cache_best_def)
qed

lemma cache_utxo_ok: "cinv s \<Longrightarrow> cache_utxo utxo s t = Some c \<Longrightarrow> ok c"
  using cinv_entry [of s t] utxo_ok [of "c_base s" t c]
  by (auto simp: cache_utxo_def cache_inv_def entry_ok_def live_def split: option.splits if_split_asm)

lemma cache_view:
  "coins_view (cache_ops ops) (cache_inv valid utxo known ok) (cache_utxo utxo) (cache_best best) cache_known ok"
proof (unfold_locales, goal_cases)
  case (1 v t r v') then show ?case using cache_GetCoins_spec [of v t r v'] by (auto simp: cache_ops_def)
next
  case (2 v t r v') then show ?case using cache_GetCoins_spec [of v t r v'] by (auto simp: cache_ops_def)
next
  case (3 v t c v') then show ?case using cache_GetCoins_spec [of v t "Some c" v'] by (auto simp: cache_ops_def)
next
  case (4 v t c v') then show ?case using cache_GetCoins_spec [of v t "Some c" v'] by (auto simp: cache_ops_def)
next
  case (5 v t c) then show ?case by (rule cache_utxo_ok)
next
  case (6 v t b v') then show ?case using cache_HaveCoins_spec [of v t b v'] by (auto simp: cache_ops_def)
next
  case (7 v t b v') then show ?case using cache_HaveCoins_spec [of v t b v'] by (auto simp: cache_ops_def)
next
  case (8 v h v') then show ?case using cache_GetBestBlock_spec [of v h v'] by (auto simp: cache_ops_def)
next
  case (9 v m h) then show ?case using cache_BatchWrite_spec [of v m h] by (auto simp: cache_ops_def)
qed

text \<open>A flush moves everything to the base and leaves what the cache represents unchanged.\<close>

lemma Flush_spec:
  assumes "cinv s" "hashBlock s \<noteq> 0"
  shows "\<exists>s'. Flush ops s = Some (True, s') \<and> cinv s' \<and> cacheCoins s' = [] \<and>
    cache_utxo utxo s' = cache_utxo utxo s \<and> utxo (c_base s') = cache_utxo utxo s \<and>
    best (c_base s') = hashBlock s \<and> cache_best best s' = cache_best best s"
proof -
  have i: "valid (c_base s)" "\<not> hasModifier s" "batch_ok ok (utxo (c_base s)) (known (c_base s)) (cacheCoins s)"
    using assms(1) by (auto simp: cache_inv_def)
  obtain b where b: "vo_BatchWrite ops (cacheCoins s) (hashBlock s) (c_base s) = Some (True, b)" "valid b"
    "best b = hashBlock s" "utxo b = apply_batch (cacheCoins s) (utxo (c_base s))"
    using batch [OF i(1,3) assms(2)] by blast
  have "apply_batch (cacheCoins s) (utxo (c_base s)) = cache_utxo utxo s"
    using cinv_entry [OF assms(1)]
    by (auto simp: fun_eq_iff apply_batch_def cache_utxo_def entry_ok_def split: option.split)
  then have "utxo b = cache_utxo utxo s" using b(4) by simp
  moreover have "cache_utxo utxo (s\<lparr>c_base := b, cacheCoins := []\<rparr>) = utxo b"
    by (intro ext) (simp add: cache_utxo_def)
  ultimately show ?thesis using b i assms(2)
    by (simp add: Flush_def cache_inv_def batch_ok_def cache_best_def)
qed

end

end
