(* ===== verification/UtxoLemmas.thy ===== *)
theory UtxoLemmas
  imports CacheLemmas
begin

text \<open>
  Reading and modifying coins through a cache, in terms of the map it represents.
\<close>

text \<open>The unspent output an outpoint names.\<close>

definition utxo_out :: "utxo_map \<Rightarrow> COutPoint \<Rightarrow> CTxOut option" where
  "utxo_out u o1 =
     (case u (op_hash o1) of
        None \<Rightarrow> None
      | Some c \<Rightarrow> if IsAvailable c (unat (op_n o1)) then Some (c_vout c ! unat (op_n o1)) else None)"

lemma IsAvailable_live: "IsAvailable c n \<Longrightarrow> live c = Some c"
  by (auto simp: IsAvailable_def live_def IsPruned_def list_all_length)

lemma utxo_out_live_opt:
  assumes "u (op_hash o1) = live_opt r"
  shows "utxo_out u o1 =
     (case r of None \<Rightarrow> None
      | Some c \<Rightarrow> if IsAvailable c (unat (op_n o1)) then Some (c_vout c ! unat (op_n o1)) else None)"
proof (cases r)
  case None
  then show ?thesis using assms by (simp add: utxo_out_def live_opt_def)
next
  case (Some c)
  then have "u (op_hash o1) = live c" using assms by (simp add: live_opt_def)
  then show ?thesis using Some IsAvailable_live [of c "unat (op_n o1)"]
    by (cases "IsPruned c") (auto simp: utxo_out_def live_def)
qed

context coins_view
begin

text \<open>Two states of a cache represent the same thing.\<close>

definition same :: "'v cache \<Rightarrow> 'v cache \<Rightarrow> bool" where
  "same s s' \<longleftrightarrow> cinv s' \<and> cache_utxo utxo s' = cache_utxo utxo s \<and> cache_best best s' = cache_best best s"

lemma same_trans: "same s s' \<Longrightarrow> same s' s'' \<Longrightarrow> same s s''" by (simp add: same_def)
lemma same_refl: "cinv s \<Longrightarrow> same s s" by (simp add: same_def)
lemma same_cinv: "same s s' \<Longrightarrow> cinv s'" by (simp add: same_def)
lemma same_utxo: "same s s' \<Longrightarrow> cache_utxo utxo s' = cache_utxo utxo s" by (simp add: same_def)

lemma AccessCoins_same:
  assumes "cinv s" obtains r s' where "AccessCoins ops t s = (r, s')" "same s s'" "cache_utxo utxo s t = live_opt r"
  using AccessCoins_spec [OF assms, of t] by (cases "AccessCoins ops t s") (auto simp: same_def)

lemma GetOutputFor_spec:
  assumes "cinv s"
  shows "\<exists>s'. same s s' \<and> GetOutputFor ops i s =
    map_option (\<lambda>txout. (txout, s')) (utxo_out (cache_utxo utxo s) (prevout i))"
proof -
  obtain r s' where r: "AccessCoins ops (op_hash (prevout i)) s = (r, s')" "same s s'"
    "cache_utxo utxo s (op_hash (prevout i)) = live_opt r" by (rule AccessCoins_same [OF assms])
  then show ?thesis using utxo_out_live_opt [of "cache_utxo utxo s", OF r(3)] by (auto simp: GetOutputFor_def split: option.split)
qed

lemma have_inputs_loop_spec:
  assumes "cinv s"
  shows "\<exists>s'. same s s' \<and> have_inputs_loop ops txins s =
    (list_all (\<lambda>i. utxo_out (cache_utxo utxo s) (prevout i) \<noteq> None) txins, s')"
  using assms
proof (induction txins arbitrary: s)
  case Nil
  then show ?case using same_refl by auto
next
  case (Cons i txins)
  obtain r s1 where r: "AccessCoins ops (op_hash (prevout i)) s = (r, s1)" "same s s1"
    "cache_utxo utxo s (op_hash (prevout i)) = live_opt r" by (rule AccessCoins_same [OF Cons.prems])
  note u = utxo_out_live_opt [of "cache_utxo utxo s", OF r(3)]
  show ?case
  proof (cases "utxo_out (cache_utxo utxo s) (prevout i)")
    case None
    then show ?thesis using r u by (auto split: option.splits if_split_asm)
  next
    case (Some txout)
    obtain s2 where "same s1 s2" "have_inputs_loop ops txins s1 =
        (list_all (\<lambda>i. utxo_out (cache_utxo utxo s1) (prevout i) \<noteq> None) txins, s2)"
      using Cons.IH [OF same_cinv [OF r(2)]] by blast
    then show ?thesis using r u Some same_utxo [OF r(2)]
      by (auto intro!: exI [of _ s2] same_trans [OF r(2)] split: option.splits if_split_asm)
  qed
qed

lemma HaveInputs_spec:
  assumes "cinv s"
  shows "\<exists>s'. same s s' \<and> HaveInputs ops tx s =
    (IsCoinBase tx \<or> tx_IsZerocoinSpend tx \<or>
      list_all (\<lambda>i. utxo_out (cache_utxo utxo s) (prevout i) \<noteq> None) (vin tx), s')"
  using have_inputs_loop_spec [OF assms, of "vin tx"] same_refl [OF assms]
  by (auto simp: HaveInputs_def)

lemma value_in_loop_spec:
  assumes "cinv s" "list_all (\<lambda>i. utxo_out (cache_utxo utxo s) (prevout i) \<noteq> None) txins"
  shows "\<exists>s'. same s s' \<and> value_in_loop ops txins n s =
    Some (foldl (\<lambda>r i. wrap64 (r + nValue (the (utxo_out (cache_utxo utxo s) (prevout i))))) n txins, s')"
  using assms
proof (induction txins arbitrary: n s)
  case Nil
  then show ?case using same_refl by auto
next
  case (Cons i txins)
  obtain txout where o: "utxo_out (cache_utxo utxo s) (prevout i) = Some txout" using Cons.prems by auto
  obtain s1 where s1: "same s s1" "GetOutputFor ops i s = Some (txout, s1)"
    using GetOutputFor_spec [OF Cons.prems(1), of i] o by auto
  note e = same_utxo [OF s1(1)]
  obtain s2 where "same s1 s2" "value_in_loop ops txins (wrap64 (n + nValue txout)) s1 = Some
      (foldl (\<lambda>r i. wrap64 (r + nValue (the (utxo_out (cache_utxo utxo s1) (prevout i))))) (wrap64 (n + nValue txout)) txins, s2)"
    using Cons.IH [OF same_cinv [OF s1(1)]] Cons.prems(2) e by auto
  then show ?case using s1 o e by (auto intro!: exI [of _ s2] same_trans [OF s1(1)])
qed

section \<open>Modifying\<close>

lemma ModifyCoins_spec:
  assumes "cinv s"
  obtains e b where "ModifyCoins ops t s = Some (e_coins e, s\<lparr>c_base := b,
      cacheCoins := AList.update t (e\<lparr>e_dirty := True\<rparr>) (cacheCoins s), hasModifier := True\<rparr>)"
    "valid b" "utxo b = utxo (c_base s)" "best b = best (c_base s)" "batch_ok ok (utxo b) (known b) (cacheCoins s)"
    "entry_ok ok (utxo b) (known b) (t, e)" "live (e_coins e) = cache_utxo utxo s t"
proof (cases "map_of (cacheCoins s) t")
  have i: "valid (c_base s)" "\<not> hasModifier s" "batch_ok ok (utxo (c_base s)) (known (c_base s)) (cacheCoins s)"
    using assms by (auto simp: cache_inv_def)
  {
    case (Some e)
    then show thesis using i cinv_entry [OF assms Some]
      by (intro that [of e "c_base s"]) (auto simp: ModifyCoins_def cache_utxo_def)
  next
    case None
    obtain g b where g: "vo_GetCoins ops t (c_base s) = (g, b)" by fastforce
    note f = get_frame [OF i(1) g] get_result [OF i(1) g]
    have bk: "batch_ok ok (utxo b) (known b) (cacheCoins s)" using batch_ok_cong [OF i(3)] f by auto
    define e where "e = (case g of
        None \<Rightarrow> \<lparr>e_coins = CCoins_Clear CCoins_empty, e_dirty = False, e_fresh = True\<rparr>
      | Some c \<Rightarrow> \<lparr>e_coins = c, e_dirty = False, e_fresh = IsPruned c\<rparr>)"
    have l: "live (e_coins e) = utxo b t"
      using f by (auto simp: e_def live_opt_def CCoins_Clear_def IsPruned_def split: option.splits)
    then have "ok (e_coins e)" if "\<not> IsPruned (e_coins e)"
      using that utxo_ok [of b t "e_coins e"] f by (simp add: live_def)
    moreover have "clean (e_coins e)"
      using get_clean [OF i(1)] g by (auto simp: e_def CCoins_Clear_def clean_last split: option.split)
    moreover have "e_fresh e = IsPruned (e_coins e)" "\<not> e_dirty e"
      by (auto simp: e_def CCoins_Clear_def IsPruned_def split: option.split)
    moreover have "known b t" if "\<not> e_fresh e"
      using that get_known [OF i(1)] g by (auto simp: e_def split: option.splits)
    ultimately have "entry_ok ok (utxo b) (known b) (t, e)"
      using l by (auto simp: entry_ok_def live_def)
    moreover have "ModifyCoins ops t s = Some (e_coins e, s\<lparr>c_base := b,
      cacheCoins := AList.update t (e\<lparr>e_dirty := True\<rparr>) (cacheCoins s), hasModifier := True\<rparr>)"
      using None g i(2) by (simp add: ModifyCoins_def e_def split: option.split)
    moreover have "cache_utxo utxo s t = utxo b t" using None f by (simp add: cache_utxo_def)
    ultimately show thesis using f bk l by (intro that [of e b]) auto
  }
qed

lemma update_twice: "map_of (AList.update t x (AList.update t y m)) = map_of (AList.update t x m)"
  by simp

lemma modify_spec:
  assumes "cinv s"
  obtains c where "live c = cache_utxo utxo s t" "clean c" "f c = None \<Longrightarrow> modify ops t f s = None"
    "\<And>r c'. f c = Some (r, c') \<Longrightarrow> (\<not> IsPruned c' \<Longrightarrow> ok (Cleanup c')) \<Longrightarrow>
      \<exists>s'. modify ops t f s = Some (r, s') \<and> cinv s' \<and> cache_best best s' = cache_best best s \<and>
        cache_utxo utxo s' = (cache_utxo utxo s)(t := live (Cleanup c'))"
proof -
  obtain e b where m: "ModifyCoins ops t s = Some (e_coins e, s\<lparr>c_base := b,
      cacheCoins := AList.update t (e\<lparr>e_dirty := True\<rparr>) (cacheCoins s), hasModifier := True\<rparr>)"
    "valid b" "utxo b = utxo (c_base s)" "best b = best (c_base s)" "batch_ok ok (utxo b) (known b) (cacheCoins s)"
    "entry_ok ok (utxo b) (known b) (t, e)" "live (e_coins e) = cache_utxo utxo s t"
    by (rule ModifyCoins_spec [OF assms])
  let ?m1 = "AList.update t (e\<lparr>e_dirty := True\<rparr>) (cacheCoins s)"
  show thesis
  proof (rule that [of "e_coins e"])
    fix r c' assume f: "f (e_coins e) = Some (r, c')" and okc: "\<not> IsPruned c' \<Longrightarrow> ok (Cleanup c')"
    define e' where "e' = e\<lparr>e_dirty := True, e_coins := Cleanup c'\<rparr>"
    define m' where "m' = (if e_fresh e' \<and> IsPruned (e_coins e') then AList.delete t ?m1 else AList.update t e' ?m1)"
    define s' where "s' = s\<lparr>c_base := b, cacheCoins := m'\<rparr>"
    have pr: "IsPruned (Cleanup c') = IsPruned c'" by (simp add: IsPruned_used Cleanup_def)
    have eo: "entry_ok ok (utxo b) (known b) (t, e')"
      using m(6) okc pr by (auto simp: entry_ok_def e'_def)
    have e1: "entry_ok ok (utxo b) (known b) (t, e\<lparr>e_dirty := True\<rparr>)" using m(6) by (auto simp: entry_ok_def)
    have bo: "batch_ok ok (utxo b) (known b) m'"
      using batch_ok_update [OF batch_ok_update [OF m(5) e1] eo] batch_ok_delete [OF batch_ok_update [OF m(5) e1]]
      by (simp add: m'_def)
    have nm: "\<not> hasModifier s" using assms by (simp add: cache_inv_def)
    have "modify ops t f s = Some (r, s')"
      using m(1) f nm by (simp add: modify_def modifier_end_def s'_def m'_def e'_def Let_def)
    moreover have "cache_utxo utxo s' = (cache_utxo utxo s)(t := live (Cleanup c'))"
      using eo m(3) by (intro ext) (auto simp: cache_utxo_def s'_def m'_def e'_def entry_ok_def pr split: option.split)
    moreover have "cinv s'" "cache_best best s' = cache_best best s"
      using bo m(2,4) nm by (auto simp: cache_inv_def cache_best_def s'_def)
    ultimately show "\<exists>s'. modify ops t f s = Some (r, s') \<and> cinv s' \<and> cache_best best s' = cache_best best s \<and>
        cache_utxo utxo s' = (cache_utxo utxo s)(t := live (Cleanup c'))" by blast
  qed (use m in \<open>auto simp: modify_def entry_ok_def\<close>)
qed

end

end
