(* ===== verification/CoinsDB.thy ===== *)
theory CoinsDB
  imports UtxoLemmas
begin

text \<open>
  The coins database \<^verbatim>\<open>CCoinsViewDB\<close>, \<^verbatim>\<open>src/src/txdb.cpp\<close> over \<^verbatim>\<open>leveldbwrapper.h\<close>. LevelDB is a map
  from byte strings to byte strings on which a batch acts in order; keys and values are the
  serialisations the code writes. The database keeps the contract of \<open>coins_view\<close> when the curve
  library does what the script encoding needs, and so does a cache over it.
\<close>

type_synonym store = "bytes \<Rightarrow> bytes option"

datatype db_op = DbWrite bytes bytes | DbErase bytes

primrec db_apply :: "db_op \<Rightarrow> store \<Rightarrow> store" where
  "db_apply (DbWrite k v) d = d(k \<mapsto> v)"
| "db_apply (DbErase k) d = d(k := None)"

definition db_WriteBatch :: "db_op list \<Rightarrow> store \<Rightarrow> store" where
  "db_WriteBatch batch d = foldl (\<lambda>d b. db_apply b d) d batch"

text \<open>A value that does not parse reads as absent.\<close>

definition db_Read :: "'a reader \<Rightarrow> bytes \<Rightarrow> store \<Rightarrow> 'a option" where
  "db_Read unser key d = (case d key of None \<Rightarrow> None | Some v \<Rightarrow> map_option fst (unser v))"

definition db_Exists :: "bytes \<Rightarrow> store \<Rightarrow> bool" where
  "db_Exists key d \<longleftrightarrow> d key \<noteq> None"

definition coins_key :: "uint256 \<Rightarrow> bytes" where
  "coins_key hash = 0x63 # ser_hash hash"

definition best_key :: bytes where "best_key = [0x42]"

definition BatchWriteCoins :: "pubkey_ops \<Rightarrow> uint256 \<Rightarrow> CCoins \<Rightarrow> db_op option" where
  "BatchWriteCoins pk hash c =
     (if IsPruned c then Some (DbErase (coins_key hash))
      else map_option (DbWrite (coins_key hash)) (CCoins_Serialize pk c))"

definition BatchWriteHashBestChain :: "uint256 \<Rightarrow> db_op" where
  "BatchWriteHashBestChain h = DbWrite best_key (ser_hash h)"

definition db_GetCoins :: "pubkey_ops \<Rightarrow> uint256 \<Rightarrow> store \<Rightarrow> CCoins option \<times> store" where
  "db_GetCoins pk txid d = (db_Read (CCoins_Unserialize pk) (coins_key txid) d, d)"

definition db_HaveCoins :: "uint256 \<Rightarrow> store \<Rightarrow> bool \<times> store" where
  "db_HaveCoins txid d = (db_Exists (coins_key txid) d, d)"

definition db_GetBestBlock :: "store \<Rightarrow> uint256 \<times> store" where
  "db_GetBestBlock d = (case db_Read unser_hash best_key d of None \<Rightarrow> 0 | Some h \<Rightarrow> h, d)"

fun coins_batch :: "pubkey_ops \<Rightarrow> coins_map \<Rightarrow> db_op list option" where
  "coins_batch pk [] = Some []"
| "coins_batch pk ((t, e) # m) =
     (if e_dirty e
      then (case BatchWriteCoins pk t (e_coins e) of
              None \<Rightarrow> None
            | Some b \<Rightarrow> map_option (\<lambda>bs. b # bs) (coins_batch pk m))
      else coins_batch pk m)"

definition db_BatchWrite :: "pubkey_ops \<Rightarrow> coins_map \<Rightarrow> uint256 \<Rightarrow> store \<Rightarrow> (bool \<times> store) option" where
  "db_BatchWrite pk mapCoins h d =
     (case coins_batch pk mapCoins of
        None \<Rightarrow> None
      | Some batch \<Rightarrow>
          Some (True, db_WriteBatch (if h \<noteq> 0 then batch @ [BatchWriteHashBestChain h] else batch) d))"

definition db_ops :: "pubkey_ops \<Rightarrow> store view_ops" where
  "db_ops pk = \<lparr>vo_GetCoins = db_GetCoins pk, vo_HaveCoins = db_HaveCoins,
     vo_GetBestBlock = db_GetBestBlock, vo_BatchWrite = db_BatchWrite pk\<rparr>"

section \<open>The database keeps the contract\<close>

definition db_valid :: "pubkey_ops \<Rightarrow> store \<Rightarrow> bool" where
  "db_valid pk d \<longleftrightarrow> (\<forall>t v. d (coins_key t) = Some v \<longrightarrow> (\<exists>c. coins_ok c \<and> CCoins_Serialize pk c = Some v))"

definition db_utxo :: "pubkey_ops \<Rightarrow> store \<Rightarrow> utxo_map" where
  "db_utxo pk d t = db_Read (CCoins_Unserialize pk) (coins_key t) d"

definition db_best :: "store \<Rightarrow> uint256" where
  "db_best d = fst (db_GetBestBlock d)"

lemma coins_key_inj [simp]: "coins_key a = coins_key b \<longleftrightarrow> a = b"
  using hash_c.ser_inj [of a b] by (auto simp: coins_key_def)

lemma coins_key_best [simp]: "coins_key a \<noteq> best_key" "best_key \<noteq> coins_key a"
  by (simp_all add: coins_key_def best_key_def)

lemma WriteBatch_simps [simp]:
  "db_WriteBatch [] d = d" "db_WriteBatch (b # bs) d = db_WriteBatch bs (db_apply b d)"
  "db_WriteBatch (bs @ cs) d = db_WriteBatch cs (db_WriteBatch bs d)"
  by (simp_all add: db_WriteBatch_def)

lemma read_coins:
  assumes "pubkey_ops_ok pk" "coins_ok c" "CCoins_Serialize pk c = Some v" "d (coins_key t) = Some v"
  shows "db_utxo pk d t = Some c"
  using CCoins_roundtrip [OF assms(1,2), of "[]"] assms(3,4) by (auto simp: db_utxo_def db_Read_def)

lemma db_utxo_cases:
  assumes "pubkey_ops_ok pk" "db_valid pk d"
  obtains "d (coins_key t) = None" "db_utxo pk d t = None"
    | c where "d (coins_key t) \<noteq> None" "db_utxo pk d t = Some c" "coins_ok c"
proof (cases "d (coins_key t)")
  case None
  then show thesis by (intro that(1)) (simp_all add: db_utxo_def db_Read_def)
next
  case (Some v)
  then obtain c where "coins_ok c" "CCoins_Serialize pk c = Some v" using assms(2) by (auto simp: db_valid_def)
  then show thesis using Some read_coins [OF assms(1)] by (intro that(2)) auto
qed

lemma coins_batch_spec:
  assumes pk: "pubkey_ops_ok pk" and m: "distinct (map fst m)"
    "\<And>t e. (t, e) \<in> set m \<Longrightarrow> \<not> IsPruned (e_coins e) \<longrightarrow> coins_ok (e_coins e)" and d: "db_valid pk d"
  shows "\<exists>bs. coins_batch pk m = Some bs \<and> db_valid pk (db_WriteBatch bs d) \<and>
    db_utxo pk (db_WriteBatch bs d) = apply_batch m (db_utxo pk d) \<and>
    db_WriteBatch bs d best_key = d best_key"
  using m d
proof (induction m arbitrary: d)
  case Nil
  then show ?case by (simp add: apply_batch_def fun_eq_iff)
next
  case (Cons x m)
  obtain t e where x: "x = (t, e)" by fastforce
  have mt: "map_of m t = None" using Cons.prems(1) by (simp add: x map_of_eq_None_iff)
  have IH: "\<exists>bs. coins_batch pk m = Some bs \<and> db_valid pk (db_WriteBatch bs d') \<and>
    db_utxo pk (db_WriteBatch bs d') = apply_batch m (db_utxo pk d') \<and>
    db_WriteBatch bs d' best_key = d' best_key" if "db_valid pk d'" for d'
    using that Cons.prems(1,2) by (intro Cons.IH) (auto simp: x)
  show ?case
  proof (cases "e_dirty e")
    case False
    have "apply_batch ((t, e) # m) u = apply_batch m u" for u
      using False mt by (auto simp: fun_eq_iff apply_batch_def)
    then show ?thesis using IH [OF Cons.prems(3)] False by (simp add: x)
  next
    case True
    obtain b where b: "BatchWriteCoins pk t (e_coins e) = Some b" "db_valid pk (db_apply b d)"
      "db_utxo pk (db_apply b d) = (db_utxo pk d)(t := live (e_coins e))" "db_apply b d best_key = d best_key"
    proof (cases "IsPruned (e_coins e)")
      case True
      then show thesis using Cons.prems(3)
        by (intro that [of "DbErase (coins_key t)"])
          (auto simp: BatchWriteCoins_def db_valid_def db_utxo_def db_Read_def fun_eq_iff live_def)
    next
      case False
      then have ok: "coins_ok (e_coins e)" using Cons.prems(2) [of t e] by (simp add: x)
      then obtain v where v: "CCoins_Serialize pk (e_coins e) = Some v" using CCoins_roundtrip [OF pk] by blast
      show thesis
      proof (rule that [of "DbWrite (coins_key t) v"])
        show "db_valid pk (db_apply (DbWrite (coins_key t) v) d)"
          using Cons.prems(3) ok v by (auto simp: db_valid_def)
        have "db_utxo pk (d(coins_key t \<mapsto> v)) t = Some (e_coins e)"
          using read_coins [OF pk ok v, of "d(coins_key t \<mapsto> v)" t] by simp
        then show "db_utxo pk (db_apply (DbWrite (coins_key t) v) d) = (db_utxo pk d)(t := live (e_coins e))"
          using False by (auto simp: fun_eq_iff live_def db_utxo_def db_Read_def)
      qed (use False v in \<open>simp_all add: BatchWriteCoins_def\<close>)
    qed
    obtain bs where bs: "coins_batch pk m = Some bs" "db_valid pk (db_WriteBatch bs (db_apply b d))"
      "db_utxo pk (db_WriteBatch bs (db_apply b d)) = apply_batch m (db_utxo pk (db_apply b d))"
      "db_WriteBatch bs (db_apply b d) best_key = d best_key"
      using IH [OF b(2)] b(4) by auto
    have "apply_batch m ((db_utxo pk d)(t := live (e_coins e))) = apply_batch ((t, e) # m) (db_utxo pk d)"
      using True mt by (auto simp: fun_eq_iff apply_batch_def split: option.split)
    then show ?thesis using bs b True by (simp add: x)
  qed
qed

lemma db_best_eq: "db_best d = (case d best_key of None \<Rightarrow> 0 | Some v \<Rightarrow>
    (case unser_hash v of None \<Rightarrow> 0 | Some x \<Rightarrow> fst x))"
  by (auto simp: db_best_def db_GetBestBlock_def db_Read_def split: option.split)

lemma read_best [simp]: "db_best (d(best_key \<mapsto> ser_hash h)) = h"
  using hash_c.unser_ser [of h "[]"] by (simp add: db_best_eq)

lemma db_view:
  assumes pk: "pubkey_ops_ok pk"
  shows "coins_view (db_ops pk) (db_valid pk) (db_utxo pk) db_best (\<lambda>d t. True) coins_ok"
proof (unfold_locales, goal_cases)
  case (1 v t r v') then show ?case by (auto simp: db_ops_def db_GetCoins_def)
next
  case (2 v t r v')
  then have r: "r = db_utxo pk v t" by (auto simp: db_ops_def db_GetCoins_def db_utxo_def)
  show ?case
    by (rule db_utxo_cases [OF pk 2(1), of t]) (auto simp: r live_opt_def live_def coins_ok_def)
next
  case (3 v t c v') then show ?case by simp
next
  case (4 v t c v')
  then have "db_utxo pk v t = Some c" by (auto simp add: db_ops_def db_GetCoins_def db_utxo_def)
  then show ?case using db_utxo_cases [OF pk 4(1), of t] by (auto simp: coins_ok_def)
next
  case (5 v t c) then show ?case using db_utxo_cases [OF pk 5(1), of t] by auto
next
  case (6 v t b v') then show ?case by (auto simp: db_ops_def db_HaveCoins_def)
next
  case (7 v t b v')
  have "b = (v (coins_key t) \<noteq> None)" using 7(2) by (auto simp: db_ops_def db_HaveCoins_def db_Exists_def)
  then show ?case by (cases rule: db_utxo_cases [OF pk 7(1), of t]) simp_all
next
  case (8 v h v') then show ?case by (auto simp: db_ops_def db_best_def db_GetBestBlock_def)
next
  case (9 v m h)
  have "distinct (map fst m)" "\<And>t e. (t, e) \<in> set m \<Longrightarrow> \<not> IsPruned (e_coins e) \<longrightarrow> coins_ok (e_coins e)"
    using 9(2) by (auto simp: batch_ok_def list_all_iff entry_ok_def)
  then obtain bs where "coins_batch pk m = Some bs" "db_valid pk (db_WriteBatch bs v)"
    "db_utxo pk (db_WriteBatch bs v) = apply_batch m (db_utxo pk v)"
    using coins_batch_spec [OF pk _ _ 9(1)] by blast
  moreover define d where "d = (db_WriteBatch bs v)(best_key \<mapsto> ser_hash h)"
  moreover have "db_valid pk d = db_valid pk (db_WriteBatch bs v)" by (auto simp: d_def db_valid_def)
  moreover have "db_utxo pk d = db_utxo pk (db_WriteBatch bs v)"
    by (auto simp: d_def db_utxo_def db_Read_def fun_eq_iff)
  moreover have "vo_BatchWrite (db_ops pk) m h v = Some (True, d)"
    using 9(3) \<open>coins_batch pk m = Some bs\<close>
    by (simp add: db_ops_def db_BatchWrite_def BatchWriteHashBestChain_def d_def)
  moreover have "db_best d = h" unfolding d_def by (rule read_best)
  ultimately show ?case by metis
qed

text \<open>
  The contract holds for every curve library that is \<open>pubkey_ops_ok\<close>; in particular when scripts
  of uncompressed keys are stored in full. On that library: the database, the cache over it
  (\<^verbatim>\<open>pcoinsTip\<close>), and the cache a block is connected in.
\<close>

definition raw_keys :: pubkey_ops where
  "raw_keys = \<lparr>pk_IsFullyValid = (\<lambda>k. False), pk_Decompress = (\<lambda>k. None)\<rparr>"

lemma raw_keys_ok: "pubkey_ops_ok raw_keys"
  by (simp add: pubkey_ops_ok_def raw_keys_def)

interpretation db: coins_view "db_ops raw_keys" "db_valid raw_keys" "db_utxo raw_keys" db_best "\<lambda>d t. True" coins_ok
  by (rule db_view [OF raw_keys_ok])

interpretation tip: coins_view "cache_ops (db_ops raw_keys)"
  "cache_inv (db_valid raw_keys) (db_utxo raw_keys) (\<lambda>d t. True) coins_ok" "cache_utxo (db_utxo raw_keys)"
  "cache_best db_best" cache_known coins_ok
  by (rule db.cache_view)

end
