(* ===== verification/Connect.thy ===== *)
theory Connect
  imports CoinsDB VerifyLemmas
begin

text \<open>
  How a block changes the coins, \<^verbatim>\<open>src/src/main.cpp\<close>: \<^verbatim>\<open>CheckInputs\<close>, \<^verbatim>\<open>UpdateCoins\<close>, the loop over the
  transactions in \<^verbatim>\<open>ConnectBlock\<close> and \<^verbatim>\<open>DisconnectBlock\<close>, on a cache over any view. What they take
  from the chain parameters, the block index and the signature checker are fields of records of
  parameters, and so are the zerocoin verifications and their database. Script checks run in the
  same thread (\<^verbatim>\<open>nScriptCheckThreads = 0\<close>). Amounts are integers.
\<close>

text \<open>
  Why a function stops: a rejection with its score, one where the data may be corrupted, one without
  a score, a failure that says nothing of the block, an exception, an assertion.
\<close>

datatype conn_error = DoS nat string | Corrupt nat string | Invalid string | Failed string | Thrown | Asserted

definition opt_sum :: "conn_error \<Rightarrow> 'a option \<Rightarrow> conn_error + 'a" where
  "opt_sum err x = (case x of None \<Rightarrow> Inl err | Some y \<Rightarrow> Inr y)"

section \<open>UpdateCoins\<close>

text \<open>Spending one input, with the assertion that it could be spent.\<close>

definition spend_input :: "'v view_ops \<Rightarrow> CTxIn \<Rightarrow> 'v cache \<Rightarrow> (CTxInUndo \<times> 'v cache) option" where
  "spend_input ops txin s =
     modify ops (op_hash (prevout txin))
       (\<lambda>c. map_option (\<lambda>(c', undo). (undo, c')) (Spend c (unat (op_n (prevout txin))))) s"

fun spend_inputs :: "'v view_ops \<Rightarrow> CTxIn list \<Rightarrow> 'v cache \<Rightarrow> (CTxInUndo list \<times> 'v cache) option" where
  "spend_inputs ops [] s = Some ([], s)"
| "spend_inputs ops (txin # txins) s =
     (case spend_input ops txin s of
        None \<Rightarrow> None
      | Some (undo, s') \<Rightarrow> map_option (\<lambda>(us, s''). (undo # us, s'')) (spend_inputs ops txins s'))"

definition UpdateCoins :: "'v view_ops \<Rightarrow> CTransaction \<Rightarrow> int \<Rightarrow> 'v cache \<Rightarrow>
    (CTxInUndo list \<times> 'v cache) option" where
  "UpdateCoins ops tx nHeight s =
     (case (if \<not> IsCoinBase tx \<and> \<not> tx_IsZerocoinSpend tx then spend_inputs ops (vin tx) s else Some ([], s)) of
        None \<Rightarrow> None
      | Some (txundo, s') \<Rightarrow>
          map_option (\<lambda>(u, s''). (txundo, s''))
            (modify ops (GetHash tx) (\<lambda>c. Some ((), FromTx tx nHeight)) s'))"

section \<open>DisconnectBlock\<close>

text \<open>Removing the outputs of a transaction: whether they were the ones it created.\<close>

definition remove_outs :: "CTransaction \<Rightarrow> int \<Rightarrow> CCoins \<Rightarrow> bool \<times> CCoins" where
  "remove_outs tx nHeight c =
     (let outs = ClearUnspendable c;
          outsBlock = FromTx tx nHeight;
          outs' = (if c_nVersion outsBlock < 0 then outs\<lparr>c_nVersion := c_nVersion outsBlock\<rparr> else outs)
      in (CCoins_eq outs' outsBlock, CCoins_Clear outs'))"

text \<open>
  Restoring one input. The flag \<^verbatim>\<open>fCoinStake\<close>, which the undo record holds, is not copied back.
\<close>

definition restore_input :: "CTxInUndo \<Rightarrow> nat \<Rightarrow> CCoins \<Rightarrow> bool \<times> CCoins" where
  "restore_input undo n c =
     (let (clean1, c1) =
            (if u_nHeight undo \<noteq> 0
             then (IsPruned c, (CCoins_Clear c)\<lparr>fCoinBase := u_fCoinBase undo, c_nHeight := int (u_nHeight undo),
                                                  c_nVersion := u_nVersion undo\<rparr>)
             else (\<not> IsPruned c, c));
          clean2 = (\<not> IsAvailable c1 n);
          outs = (if length (c_vout c1) < n + 1
                  then c_vout c1 @ replicate (n + 1 - length (c_vout c1)) CTxOut_Null else c_vout c1)
      in (clean1 \<and> clean2, c1\<lparr>c_vout := outs[n := u_txout undo]\<rparr>))"

type_synonym stake_spent = "COutPoint \<Rightarrow> int option"

text \<open>The inputs of a transaction, the last first; \<^verbatim>\<open>mapStakeSpent\<close> forgets them.\<close>

fun restore_inputs :: "'v view_ops \<Rightarrow> (CTxIn \<times> CTxInUndo) list \<Rightarrow> bool \<Rightarrow> stake_spent \<Rightarrow> 'v cache \<Rightarrow>
    (bool \<times> stake_spent \<times> 'v cache) option" where
  "restore_inputs ops [] fClean m s = Some (fClean, m, s)"
| "restore_inputs ops ((txin, undo) # rest) fClean m s =
     (case modify ops (op_hash (prevout txin)) (\<lambda>c. Some (restore_input undo (unat (op_n (prevout txin))) c)) s of
        None \<Rightarrow> None
      | Some (ok, s') \<Rightarrow> restore_inputs ops rest (fClean \<and> ok) (m(prevout txin := None)) s')"

text \<open>\<open>Inl Thrown\<close> stands for the result false with an error message.\<close>

definition disconnect_tx :: "'v view_ops \<Rightarrow> int \<Rightarrow> CTransaction \<times> CTxInUndo list \<Rightarrow> bool \<Rightarrow> stake_spent \<Rightarrow> 'v cache \<Rightarrow>
    conn_error + bool \<times> stake_spent \<times> 'v cache" where
  "disconnect_tx ops nHeight x fClean m s =
     (case x of (tx, txundo) \<Rightarrow>
        sbind (opt_sum Asserted (modify ops (GetHash tx) (\<lambda>c. Some (remove_outs tx nHeight c)) s)) (\<lambda>(ok, s1).
        if \<not> IsCoinBase tx \<and> \<not> tx_IsZerocoinSpend tx
        then (if length txundo \<noteq> length (vin tx) then Inl (Failed ''transaction and undo data inconsistent'')
              else opt_sum Asserted (restore_inputs ops (rev (zip (vin tx) txundo)) (fClean \<and> ok) m s1))
        else Inr (fClean \<and> ok, m, s1)))"

fun disconnect_txs :: "'v view_ops \<Rightarrow> int \<Rightarrow> (CTransaction \<Rightarrow> bool) \<Rightarrow> (CTransaction \<times> CTxInUndo list) list \<Rightarrow> bool \<Rightarrow>
    stake_spent \<Rightarrow> 'v cache \<Rightarrow> conn_error + bool \<times> stake_spent \<times> 'v cache" where
  "disconnect_txs ops nHeight erase [] fClean m s = Inr (fClean, m, s)"
| "disconnect_txs ops nHeight erase (x # xs) fClean m s =
     (if \<not> erase (fst x) then Inl (Failed ''zerocoin database'')
      else sbind (disconnect_tx ops nHeight x fClean m s) (\<lambda>(fClean', m', s').
           disconnect_txs ops nHeight erase xs fClean' m' s'))"

text \<open>
  The block as the two functions see it: its index entry (hash, previous hash, height), the
  transactions, the undo data read from disk (\<open>None\<close> when it cannot be), the outcomes of the
  zerocoin database (\<open>xb_erase\<close> for a transaction, \<open>xb_checkpoint\<close> for the accumulators).
\<close>

record block_data =
  xb_hash :: uint256
  xb_prev :: uint256
  xb_nHeight :: int
  xb_vtx :: "CTransaction list"
  xb_undo :: "CTxInUndo list list option"
  xb_erase :: "CTransaction \<Rightarrow> bool"
  xb_checkpoint :: bool

definition DisconnectBlock :: "'v view_ops \<Rightarrow> block_data \<Rightarrow> stake_spent \<Rightarrow> 'v cache \<Rightarrow>
    conn_error + bool \<times> stake_spent \<times> 'v cache" where
  "DisconnectBlock ops b m s =
     (case cache_GetBestBlock ops s of (h, s1) \<Rightarrow>
        if xb_hash b \<noteq> h then Inl Asserted
        else case xb_undo b of
          None \<Rightarrow> Inl (Failed ''no undo data'')
        | Some vtxundo \<Rightarrow>
            if length vtxundo + 1 \<noteq> length (xb_vtx b) then Inl (Failed ''block and undo data inconsistent'')
            else sbind (disconnect_txs ops (xb_nHeight b) (xb_erase b) (rev (zip (xb_vtx b) ([] # vtxundo))) True m s1)
                   (\<lambda>(fClean, m', s2).
                 let s3 = SetBestBlock (xb_prev b) s2
                 in if \<not> xb_checkpoint b then Inl (Failed ''checkpoint'') else Inr (fClean, m', s3)))"

section \<open>CheckInputs\<close>

definition MANDATORY_SCRIPT_VERIFY_FLAGS :: u32 where
  "MANDATORY_SCRIPT_VERIFY_FLAGS = SCRIPT_VERIFY_P2SH"

definition STANDARD_SCRIPT_VERIFY_FLAGS :: u32 where
  "STANDARD_SCRIPT_VERIFY_FLAGS = MANDATORY_SCRIPT_VERIFY_FLAGS OR SCRIPT_VERIFY_DERSIG OR
     SCRIPT_VERIFY_STRICTENC OR SCRIPT_VERIFY_MINIMALDATA OR SCRIPT_VERIFY_NULLDUMMY OR
     SCRIPT_VERIFY_DISCOURAGE_UPGRADABLE_NOPS"

definition STANDARD_NOT_MANDATORY_VERIFY_FLAGS :: u32 where
  "STANDARD_NOT_MANDATORY_VERIFY_FLAGS = STANDARD_SCRIPT_VERIFY_FLAGS AND NOT MANDATORY_SCRIPT_VERIFY_FLAGS"

definition PROSPERITYNODE_AMOUNT :: CAmount where "PROSPERITYNODE_AMOUNT = 2500 * COIN"

record inputs_env =
  ie_MaxMoneyOut :: CAmount
  ie_maturity :: int
  ie_height :: "uint256 \<Rightarrow> int"
  ie_checker :: "CTransaction \<Rightarrow> nat \<Rightarrow> sig_checker"

definition money_range :: "inputs_env \<Rightarrow> CAmount \<Rightarrow> bool" where
  "money_range env v \<longleftrightarrow> v \<ge> 0 \<and> v \<le> ie_MaxMoneyOut env"

text \<open>The first loop: maturity and values. The coins are asserted to be there.\<close>

fun check_values :: "'v view_ops \<Rightarrow> inputs_env \<Rightarrow> int \<Rightarrow> CTxIn list \<Rightarrow> CAmount \<Rightarrow> 'v cache \<Rightarrow>
    conn_error + CAmount \<times> 'v cache" where
  "check_values ops env nSpendHeight [] nValueIn s = Inr (nValueIn, s)"
| "check_values ops env nSpendHeight (txin # txins) nValueIn s =
     (case AccessCoins ops (op_hash (prevout txin)) s of
        (None, s') \<Rightarrow> Inl Asserted
      | (Some c, s') \<Rightarrow>
          if (fCoinBase c \<or> fCoinStake c) \<and> nSpendHeight - c_nHeight c < ie_maturity env
          then Inl (Invalid ''bad-txns-premature-spend-of-coinbase'')
          else let v = nValue (c_vout c ! unat (op_n (prevout txin)));
                   nValueIn' = nValueIn + v
               in if \<not> money_range env v \<or> \<not> money_range env nValueIn'
                  then Inl (DoS 100 ''bad-txns-inputvalues-outofrange'')
                  else check_values ops env nSpendHeight txins nValueIn' s')"

definition check_fee :: "inputs_env \<Rightarrow> CTransaction \<Rightarrow> CAmount \<Rightarrow> conn_error + unit" where
  "check_fee env tx nValueIn =
     (if IsCoinStake tx then Inr ()
      else case GetValueOut tx of
        None \<Rightarrow> Inl Thrown
      | Some nValueOut \<Rightarrow>
          if nValueIn < nValueOut then Inl (DoS 100 ''bad-txns-in-belowout'')
          else let nTxFee0 = nValueIn - nValueOut;
                   nTxFee = (if nTxFee0 > PROSPERITYNODE_AMOUNT then nTxFee0 - PROSPERITYNODE_AMOUNT else nTxFee0)
               in if nTxFee < 0 then Inl (DoS 100 ''bad-txns-fee-negative'')
                  else if \<not> money_range env nTxFee then Inl (DoS 100 ''bad-txns-fee-outofrange'')
                  else Inr ())"

definition script_check :: "inputs_env \<Rightarrow> CTransaction \<Rightarrow> nat \<Rightarrow> CTxIn \<Rightarrow> script \<Rightarrow> u32 \<Rightarrow> bool" where
  "script_check env tx nIn txin spk flags \<longleftrightarrow>
     VerifyScript (scriptSig txin) spk flags (ie_checker env tx nIn) = Some (Inr ())"

fun check_scripts :: "'v view_ops \<Rightarrow> inputs_env \<Rightarrow> CTransaction \<Rightarrow> u32 \<Rightarrow> nat \<Rightarrow> CTxIn list \<Rightarrow> 'v cache \<Rightarrow>
    conn_error + 'v cache" where
  "check_scripts ops env tx flags i [] s = Inr s"
| "check_scripts ops env tx flags i (txin # txins) s =
     (case AccessCoins ops (op_hash (prevout txin)) s of
        (None, s') \<Rightarrow> Inl Asserted
      | (Some c, s') \<Rightarrow>
          let spk = scriptPubKey (c_vout c ! unat (op_n (prevout txin)))
          in if script_check env tx i txin spk flags then check_scripts ops env tx flags (i + 1) txins s'
             else if flags AND STANDARD_NOT_MANDATORY_VERIFY_FLAGS \<noteq> 0 \<and>
                     script_check env tx i txin spk (flags AND NOT STANDARD_NOT_MANDATORY_VERIFY_FLAGS)
             then Inl (Invalid ''non-mandatory-script-verify-flag'')
             else Inl (DoS 100 ''mandatory-script-verify-flag-failed''))"

definition CheckInputs :: "'v view_ops \<Rightarrow> inputs_env \<Rightarrow> CTransaction \<Rightarrow> bool \<Rightarrow> u32 \<Rightarrow> 'v cache \<Rightarrow>
    conn_error + 'v cache" where
  "CheckInputs ops env tx fScriptChecks flags s =
     (if \<not> IsCoinBase tx \<and> \<not> tx_IsZerocoinSpend tx
      then (case HaveInputs ops tx s of (have_all, s1) \<Rightarrow>
              if \<not> have_all then Inl (Invalid '''')
              else case cache_GetBestBlock ops s1 of (h, s2) \<Rightarrow>
                sbind (check_values ops env (ie_height env h + 1) (vin tx) 0 s2) (\<lambda>(nValueIn, s3).
                sbind (check_fee env tx nValueIn) (\<lambda>u.
                if fScriptChecks then check_scripts ops env tx flags 0 (vin tx) s3 else Inr s3)))
      else Inr s)"

end
