(* ===== verification/ConnectLemmas.thy ===== *)
theory ConnectLemmas
  imports Connect
begin

text \<open>
  What connecting transactions does to the map of unspent outputs, and that disconnecting them
  undoes it. The operations on a cache are related to operations on the map it represents, which
  are then shown to be inverse to each other. The one thing lost is the coinstake flag of a record
  whose last output was spent.
\<close>

section \<open>The change of the map\<close>

definition u_spend :: "utxo_map \<Rightarrow> COutPoint \<Rightarrow> (CTxInUndo \<times> utxo_map) option" where
  "u_spend u o1 =
     (case u (op_hash o1) of
        None \<Rightarrow> None
      | Some c \<Rightarrow> map_option (\<lambda>(c', undo). (undo, u(op_hash o1 := live c'))) (Spend c (unat (op_n o1))))"

fun u_spends :: "utxo_map \<Rightarrow> CTxIn list \<Rightarrow> (CTxInUndo list \<times> utxo_map) option" where
  "u_spends u [] = Some ([], u)"
| "u_spends u (i # is) =
     (case u_spend u (prevout i) of
        None \<Rightarrow> None
      | Some (undo, u') \<Rightarrow> map_option (\<lambda>(us, u''). (undo # us, u'')) (u_spends u' is))"

definition spends_inputs :: "CTransaction \<Rightarrow> bool" where
  "spends_inputs tx \<longleftrightarrow> \<not> IsCoinBase tx \<and> \<not> tx_IsZerocoinSpend tx"

definition u_update :: "utxo_map \<Rightarrow> CTransaction \<Rightarrow> int \<Rightarrow> (CTxInUndo list \<times> utxo_map) option" where
  "u_update u tx h =
     map_option (\<lambda>(us, u'). (us, u'(GetHash tx := live (FromTx tx h))))
       (if spends_inputs tx then u_spends u (vin tx) else Some ([], u))"

text \<open>A transaction whose outputs the database can hold.\<close>

definition tx_storable :: "CTransaction \<Rightarrow> bool" where
  "tx_storable tx \<longleftrightarrow> list_all coin_ok (vout tx) \<and> length (vout tx) < 2 ^ 28 \<and>
     0 \<le> nVersion tx \<and> nVersion tx < 2 ^ 31"

lemma clean_ClearUnspendable [simp]: "clean (ClearUnspendable c)"
  by (simp add: ClearUnspendable_def)

lemma clean_FromTx [simp]: "clean (FromTx tx h)"
  by (simp add: FromTx_def)

lemma Cleanup_clean [simp]: "clean c \<Longrightarrow> Cleanup c = c"
  by (simp add: clean_def)

lemma clean_empty: "c_vout c = [] \<Longrightarrow> clean c"
  by (simp add: clean_last)

lemma cleanup_subset: "set (cleanup_vout outs) \<subseteq> set outs"
  using cleanup_prefix [of outs] by (metis Un_upper1 set_append)

lemma cleanup_length: "length (cleanup_vout outs) \<le> length outs"
  by (metis cleanup_prefix le_add1 length_append)

lemma IsPruned_Cleanup [simp]: "IsPruned (Cleanup c) = IsPruned c"
  by (simp add: IsPruned_used Cleanup_def)

lemma CTxOut_Null_IsNull [simp]: "CTxOut_IsNull CTxOut_Null"
  by (simp add: CTxOut_IsNull_def CTxOut_Null_def)

lemma FromTx_ok:
  assumes "tx_storable tx" "0 \<le> h" "h < 2 ^ 31" "\<not> IsPruned (FromTx tx h)"
  shows "coins_ok (FromTx tx h)"
proof -
  let ?o = "map (\<lambda>txout. if IsUnspendable (scriptPubKey txout) then CTxOut_Null else txout) (vout tx)"
  have v: "c_vout (FromTx tx h) = cleanup_vout ?o" "c_nVersion (FromTx tx h) = nVersion tx"
    "c_nHeight (FromTx tx h) = h"
    by (simp_all add: FromTx_def ClearUnspendable_def Cleanup_def)
  have "list_all (\<lambda>t. if CTxOut_IsNull t then t = CTxOut_Null else coin_ok t) ?o"
    using assms(1) unfolding list_all_iff by (fastforce simp: tx_storable_def list_all_iff coin_ok_def CTxOut_IsNull_def CTxOut_Null_def)
  then have "list_all (\<lambda>t. if CTxOut_IsNull t then t = CTxOut_Null else coin_ok t) (cleanup_vout ?o)"
    using cleanup_subset [of ?o] by (auto simp: list_all_iff)
  moreover have "length (cleanup_vout ?o) < 2 ^ 28"
    using cleanup_length [of ?o] assms(1) by (simp add: tx_storable_def)
  ultimately show ?thesis using assms by (simp add: coins_ok_def v tx_storable_def)
qed

lemma Spend_cases:
  assumes "Spend c n = Some (c', undo)"
  shows "n < length (c_vout c)" "\<not> CTxOut_IsNull (c_vout c ! n)" "u_txout undo = c_vout c ! n"
    "c' = Cleanup (c\<lparr>c_vout := (c_vout c)[n := CTxOut_Null]\<rparr>)" "clean c'"
    "c_vout c' \<noteq> [] \<Longrightarrow> undo = CTxInUndo (c_vout c ! n)"
    "c_vout c' = [] \<Longrightarrow> undo = \<lparr>u_txout = c_vout c ! n, u_fCoinBase = fCoinBase c, u_fCoinStake = fCoinStake c,
        u_nHeight = nat (c_nHeight c mod 2 ^ 32), u_nVersion = c_nVersion c\<rparr>"
  using assms by (auto simp: Spend_def CTxInUndo_def Let_def split: if_splits) (simp_all add: Cleanup_def)

lemma Spend_pruned: "IsPruned c \<Longrightarrow> Spend c n = None"
  by (auto simp: Spend_def IsPruned_def list_all_length)

lemma Spend_ok:
  assumes "coins_ok c" "Spend c n = Some (c', undo)" "\<not> IsPruned c'" shows "coins_ok c'"
proof -
  let ?o = "(c_vout c)[n := CTxOut_Null]"
  note sp = Spend_cases [OF assms(2)]
  have "list_all (\<lambda>t. if CTxOut_IsNull t then t = CTxOut_Null else coin_ok t) ?o"
    using assms(1) set_update_subset_insert [of "c_vout c" n CTxOut_Null]
    unfolding list_all_iff coins_ok_def by (metis (no_types, lifting) CTxOut_Null_IsNull insertE subsetD)
  then have "list_all (\<lambda>t. if CTxOut_IsNull t then t = CTxOut_Null else coin_ok t) (cleanup_vout ?o)"
    using cleanup_subset [of ?o] by (auto simp: list_all_iff)
  moreover have "length (cleanup_vout ?o) < 2 ^ 28"
    using cleanup_length [of ?o] assms(1) by (simp add: coins_ok_def)
  ultimately show ?thesis using assms(1,3) sp(4,5) by (simp add: coins_ok_def Cleanup_def)
qed

section \<open>Connecting refines the change of the map\<close>

text \<open>The contract when the records are those the database can hold.\<close>

locale utxo_view = coins_view ops valid utxo best known coins_ok
  for ops :: "'v view_ops" and valid :: "'v \<Rightarrow> bool" and utxo :: "'v \<Rightarrow> utxo_map"
    and best :: "'v \<Rightarrow> uint256" and known :: "'v \<Rightarrow> uint256 \<Rightarrow> bool"
begin

definition steps :: "'v cache \<Rightarrow> utxo_map \<Rightarrow> 'v cache \<Rightarrow> bool" where
  "steps s u s' \<longleftrightarrow> cinv s' \<and> cache_utxo utxo s' = u \<and> cache_best best s' = cache_best best s"

lemma steps_trans: "steps s u s' \<Longrightarrow> steps s' u' s'' \<Longrightarrow> steps s u' s''" by (simp add: steps_def)
lemma steps_refl: "cinv s \<Longrightarrow> steps s (cache_utxo utxo s) s" by (simp add: steps_def)

lemma spend_input_spec:
  assumes "cinv s"
  shows "case u_spend (cache_utxo utxo s) (prevout i) of
      None \<Rightarrow> spend_input ops i s = None
    | Some (undo, u) \<Rightarrow> \<exists>s'. spend_input ops i s = Some (undo, s') \<and> steps s u s'"
proof -
  let ?t = "op_hash (prevout i)" and ?n = "unat (op_n (prevout i))"
  let ?f = "\<lambda>c. map_option (\<lambda>(c', undo). (undo, c')) (Spend c ?n)"
  obtain c where c: "live c = cache_utxo utxo s ?t" "clean c" "?f c = None \<Longrightarrow> modify ops ?t ?f s = None"
    "\<And>r c'. ?f c = Some (r, c') \<Longrightarrow> (\<not> IsPruned c' \<Longrightarrow> coins_ok (Cleanup c')) \<Longrightarrow>
      \<exists>s'. modify ops ?t ?f s = Some (r, s') \<and> cinv s' \<and> cache_best best s' = cache_best best s \<and>
        cache_utxo utxo s' = (cache_utxo utxo s)(?t := live (Cleanup c'))"
    using modify_spec [OF assms, of ?t ?f] by blast
  show ?thesis
  proof (cases "Spend c ?n")
    case None
    then have "u_spend (cache_utxo utxo s) (prevout i) = None"
      using c(1) by (cases "IsPruned c") (auto simp: u_spend_def live_def split: option.split)
    then show ?thesis using c(3) None by (simp add: spend_input_def)
  next
    case (Some x)
    obtain c' undo where x: "x = (c', undo)" by fastforce
    have np: "\<not> IsPruned c" using Some Spend_pruned [of c] by auto
    then have l: "cache_utxo utxo s ?t = Some c" using c(1) by (simp add: live_def)
    then have "coins_ok c" using cache_utxo_ok [OF assms] by blast
    then have okc: "\<not> IsPruned c' \<Longrightarrow> coins_ok (Cleanup c')" "Cleanup c' = c'"
      using Some Spend_ok [of c ?n c' undo] Spend_cases(5) [of c ?n c' undo] x by auto
    have "u_spend (cache_utxo utxo s) (prevout i) = Some (undo, (cache_utxo utxo s)(?t := live c'))"
      using l Some x by (simp add: u_spend_def)
    then show ?thesis using c(4) [of undo c'] Some x okc by (simp add: spend_input_def steps_def) blast
  qed
qed

lemma spend_inputs_spec:
  assumes "cinv s"
  shows "case u_spends (cache_utxo utxo s) is of
      None \<Rightarrow> spend_inputs ops is s = None
    | Some (us, u) \<Rightarrow> \<exists>s'. spend_inputs ops is s = Some (us, s') \<and> steps s u s'"
  using assms
proof (induction "is" arbitrary: s)
  case Nil
  then show ?case using steps_refl by auto
next
  case (Cons i "is")
  show ?case
  proof (cases "u_spend (cache_utxo utxo s) (prevout i)")
    case None
    then show ?thesis using spend_input_spec [OF Cons.prems, of i] by simp
  next
    case (Some x)
    obtain undo u where x: "x = (undo, u)" by fastforce
    obtain s1 where s1: "spend_input ops i s = Some (undo, s1)" "steps s u s1"
      using spend_input_spec [OF Cons.prems, of i] Some x by auto
    show ?thesis using Cons.IH [of s1] s1 Some x
      by (auto simp: steps_def split: option.splits)
  qed
qed

lemma UpdateCoins_spec:
  assumes "cinv s" "tx_storable tx" "0 \<le> h" "h < 2 ^ 31"
  shows "case u_update (cache_utxo utxo s) tx h of
      None \<Rightarrow> UpdateCoins ops tx h s = None
    | Some (us, u) \<Rightarrow> \<exists>s'. UpdateCoins ops tx h s = Some (us, s') \<and> steps s u s'"
proof -
  have out: "\<exists>s2. modify ops (GetHash tx) (\<lambda>c. Some ((), FromTx tx h)) s1 = Some ((), s2) \<and>
      steps s1 ((cache_utxo utxo s1)(GetHash tx := live (FromTx tx h))) s2" if "cinv s1" for s1
    using modify_spec [OF that, of "GetHash tx" "\<lambda>c. Some ((), FromTx tx h)"] FromTx_ok [OF assms(2-)]
    by (auto simp: steps_def)
  show ?thesis
  proof (cases "if spends_inputs tx then u_spends (cache_utxo utxo s) (vin tx) else Some ([], cache_utxo utxo s)")
    case None
    then show ?thesis using spend_inputs_spec [OF assms(1), of "vin tx"]
      by (auto simp: u_update_def UpdateCoins_def spends_inputs_def split: if_splits)
  next
    case (Some x)
    obtain us u where x: "x = (us, u)" by fastforce
    have "\<exists>s1. (if \<not> IsCoinBase tx \<and> \<not> tx_IsZerocoinSpend tx then spend_inputs ops (vin tx) s else Some ([], s))
        = Some (us, s1) \<and> steps s u s1"
      using spend_inputs_spec [OF assms(1), of "vin tx"] Some x steps_refl [OF assms(1)]
      by (auto simp: spends_inputs_def split: if_splits)
    then obtain s1 where s1: "(if \<not> IsCoinBase tx \<and> \<not> tx_IsZerocoinSpend tx then spend_inputs ops (vin tx) s
        else Some ([], s)) = Some (us, s1)" "steps s u s1" by blast
    obtain s2 where "modify ops (GetHash tx) (\<lambda>c. Some ((), FromTx tx h)) s1 = Some ((), s2)"
      "steps s1 ((cache_utxo utxo s1)(GetHash tx := live (FromTx tx h))) s2"
      using out [of s1] s1(2) by (auto simp: steps_def)
    then show ?thesis using s1 Some x steps_trans [OF s1(2)]
      by (simp add: u_update_def UpdateCoins_def steps_def)
  qed
qed

end

section \<open>Restoring a spent output\<close>

abbreviation unstake :: "CCoins \<Rightarrow> CCoins" where "unstake c \<equiv> c\<lparr>fCoinStake := False\<rparr>"

text \<open>The outputs after a spend, extended again as far as the output that was spent.\<close>

lemma cleanup_extend:
  assumes "n < length outs" "outs \<noteq> [] \<Longrightarrow> \<not> CTxOut_IsNull (last outs)"
    "\<And>t. t \<in> set outs \<Longrightarrow> CTxOut_IsNull t \<Longrightarrow> t = CTxOut_Null"
    and "xs = cleanup_vout (outs[n := CTxOut_Null])"
  shows "(if length xs < n + 1 then xs @ replicate (n + 1 - length xs) CTxOut_Null else xs)[n := outs ! n] = outs"
proof -
  let ?o = "outs[n := CTxOut_Null]"
  have "(if length xs < n + 1 then xs @ replicate (n + 1 - length xs) CTxOut_Null else xs) = ?o"
  proof (cases "n = length outs - 1")
    case True
    then have last: "last ?o = CTxOut_Null" using assms(1) last_conv_nth [of ?o] by (cases "outs = []") auto
    obtain ns where ns: "?o = xs @ ns" "list_all CTxOut_IsNull ns" using cleanup_prefix [of ?o] assms(4) by blast
    have "ns \<noteq> []"
    proof
      assume "ns = []"
      then have "xs = ?o" using ns by simp
      then have "strip_while CTxOut_IsNull ?o = ?o" using assms(4) by (simp add: cleanup_strip)
      moreover have "?o \<noteq> []" using assms(1) by auto
      ultimately show False using last by (simp add: strip_while_idem_iff no_trailing_unfold)
    qed
    moreover have "set ns \<subseteq> {CTxOut_Null}"
    proof
      fix t assume t: "t \<in> set ns"
      then have "t \<in> set ?o" by (simp add: ns(1))
      then have "t \<in> insert CTxOut_Null (set outs)" using set_update_subset_insert by fastforce
      then show "t \<in> {CTxOut_Null}" using assms(3) ns(2) t by (auto simp: list_all_iff)
    qed
    then have "ns = replicate (length ns) CTxOut_Null" by (auto intro: replicate_eqI)
    moreover have "length ns = n + 1 - length xs" "length xs < n + 1"
      using arg_cong [OF ns(1), of length] True assms(1) \<open>ns \<noteq> []\<close> by auto
    ultimately show ?thesis using ns(1) by simp
  next
    case False
    then have "last ?o = last outs" using assms(1) last_conv_nth [of ?o] last_conv_nth [of outs]
      by (cases "outs = []") auto
    then have "cleanup_vout ?o = ?o" using assms(1,2)
      by (auto simp: cleanup_strip strip_while_idem_iff no_trailing_unfold)
    then show ?thesis using assms(1,4) False by auto
  qed
  then show ?thesis by simp
qed

lemma restore_after_spend:
  assumes c: "coins_ok c" "0 < c_nHeight c" and sp: "Spend c n = Some (c', undo)"
    and d: "clean d" "live d = map_option (\<lambda>c. c\<lparr>fCoinStake := b\<rparr>) (live c')"
  shows "restore_input undo n d =
    (True, c\<lparr>fCoinStake := (if IsPruned c' then False else b)\<rparr>)"
proof -
  note s = Spend_cases [OF sp]
  have xs: "c_vout c' = cleanup_vout ((c_vout c)[n := CTxOut_Null])" by (simp add: s(4) Cleanup_def)
  have ext: "(if length (c_vout c') < n + 1 then c_vout c' @ replicate (n + 1 - length (c_vout c')) CTxOut_Null
      else c_vout c')[n := c_vout c ! n] = c_vout c"
    using c(1) by (intro cleanup_extend [OF s(1) _ _ xs]) (auto simp: coins_ok_def clean_last list_all_iff)
  have fields: "fCoinBase c' = fCoinBase c" "c_nHeight c' = c_nHeight c" "c_nVersion c' = c_nVersion c"
    by (simp_all add: s(4) Cleanup_def)
  show ?thesis
  proof (cases "IsPruned c'")
    case True
    then have e: "c_vout c' = []" using s(5) clean_pruned by blast
    have "live d = None" using d(2) True by simp
    then have p: "IsPruned d" by (simp add: live_None_iff)
    have "nat (c_nHeight c mod 2 ^ 32) = nat (c_nHeight c)" using c by (simp add: coins_ok_def)
    then have u: "undo = \<lparr>u_txout = c_vout c ! n, u_fCoinBase = fCoinBase c, u_fCoinStake = fCoinStake c,
        u_nHeight = nat (c_nHeight c), u_nVersion = c_nVersion c\<rparr>" using s(7) [OF e] by simp
    show ?thesis using u p c(2) ext e True
      by (simp add: restore_input_def CCoins_Clear_def IsAvailable_def Let_def)
  next
    case False
    then have e: "c_vout c' \<noteq> []" using s(5) clean_pruned by blast
    have "live d = Some (c'\<lparr>fCoinStake := b\<rparr>)" using d(2) False by (simp add: live_def)
    then have dd: "d = c'\<lparr>fCoinStake := b\<rparr>" "\<not> IsPruned d" by (auto simp: live_def split: if_splits)
    have "\<not> out_used (c_vout c') n" unfolding xs out_used_cleanup using s(1) by (simp add: out_used_def)
    then have "\<not> IsAvailable d n" using dd(1) by (auto simp: IsAvailable_def out_used_def)
    moreover have "u_nHeight undo = 0" "u_txout undo = c_vout c ! n" using s(6) [OF e] by (simp_all add: CTxInUndo_def)
    moreover have "c'\<lparr>fCoinStake := b, c_vout := c_vout c\<rparr> = c\<lparr>fCoinStake := b\<rparr>"
      using fields by (cases c; cases c') simp
    ultimately show ?thesis using dd ext False
      by (cases "length (c_vout c') < n + 1") (simp_all add: restore_input_def Let_def del: One_nat_def)
  qed
qed

lemma remove_created:
  assumes "live d = live (FromTx tx h)" "0 \<le> nVersion tx"
  shows "remove_outs tx h d = (True, CCoins_Clear d)"
proof -
  have v: "c_nVersion (FromTx tx h) = nVersion tx" by (simp add: FromTx_def ClearUnspendable_def Cleanup_def)
  have "CCoins_eq (ClearUnspendable d) (FromTx tx h)"
  proof (cases "IsPruned d")
    case True
    then have "live (FromTx tx h) = None" using assms(1) by simp
    moreover have "IsPruned (ClearUnspendable d)" using True by (simp add: ClearUnspendable_def) (auto simp: IsPruned_def list_all_iff)
    ultimately show ?thesis by (simp add: live_None_iff CCoins_eq_def)
  next
    case False
    then have "d = FromTx tx h" using assms(1) by (simp add: live_def split: if_splits)
    moreover have "ClearUnspendable (ClearUnspendable c) = ClearUnspendable c" for c
    proof -
      let ?f = "\<lambda>txout. if IsUnspendable (scriptPubKey txout) then CTxOut_Null else txout"
      have "map ?f (cleanup_vout (map ?f outs)) = cleanup_vout (map ?f outs)" for outs
        using cleanup_subset [of "map ?f outs"] by (intro map_idI) (auto simp: CTxOut_Null_def IsUnspendable_def)
      then show ?thesis by (simp add: ClearUnspendable_def Cleanup_def)
    qed
    ultimately show ?thesis by (simp add: FromTx_def CCoins_eq_def)
  qed
  then show ?thesis using assms(2) by (auto simp: remove_outs_def v Let_def CCoins_Clear_def)
qed

section \<open>Disconnecting undoes connecting\<close>

text \<open>Every record can be stored and belongs to a block after the genesis block.\<close>

definition u_ok :: "utxo_map \<Rightarrow> bool" where
  "u_ok u \<longleftrightarrow> (\<forall>t c. u t = Some c \<longrightarrow> coins_ok c \<and> 0 < c_nHeight c)"

text \<open>What is restored of \<open>u\<close> when \<open>u'\<close> was left of it: all but the coinstake flags of the records
  that were spent entirely.\<close>

definition lose :: "utxo_map \<Rightarrow> utxo_map \<Rightarrow> utxo_map" where
  "lose u u' t = (if u' t = None then map_option unstake (u t) else u t)"

lemma u_spend_cases:
  assumes "u_spend u o1 = Some (undo, u')"
  obtains c c' where "u (op_hash o1) = Some c" "Spend c (unat (op_n o1)) = Some (c', undo)"
    "u' = u(op_hash o1 := live c')"
  using assms by (auto simp: u_spend_def split: option.splits)

lemma u_spend_ok: "u_spend u o1 = Some (undo, u') \<Longrightarrow> u_ok u \<Longrightarrow> u_ok u'"
proof (erule u_spend_cases)
  fix c c' assume a: "u_ok u" "u (op_hash o1) = Some c" "Spend c (unat (op_n o1)) = Some (c', undo)"
    "u' = u(op_hash o1 := live c')"
  have "c_nHeight c' = c_nHeight c" using Spend_cases(4) [OF a(3)] by (simp add: Cleanup_def)
  then show "u_ok u'" using a Spend_ok [OF _ a(3)] by (auto simp: u_ok_def live_def)
qed

lemma u_spends_None: "u_spends u is = Some (us, u') \<Longrightarrow> u t = None \<Longrightarrow> u' t = None"
proof (induction "is" arbitrary: u us)
  case (Cons i "is")
  then obtain undo u1 us1 where *: "u_spend u (prevout i) = Some (undo, u1)" "u_spends u1 is = Some (us1, u')"
    by (auto split: option.splits)
  then have "u1 t = None" using Cons.prems(2) by (auto simp: u_spend_def split: option.splits if_split_asm)
  then show ?case using Cons.IH * by blast
qed simp

lemma u_spends_length: "u_spends u is = Some (us, u') \<Longrightarrow> length us = length is"
  by (induction "is" arbitrary: u us) (auto split: option.splits)

lemma coins_ok_stake: "coins_ok c \<Longrightarrow> coins_ok (c\<lparr>fCoinStake := b\<rparr>)"
  by (auto simp: coins_ok_def clean_last IsPruned_def)

definition forget_spent :: "CTxIn list \<Rightarrow> stake_spent \<Rightarrow> stake_spent" where
  "forget_spent is m o1 = (if o1 \<in> prevout ` set is then None else m o1)"

lemma restore_inputs_append:
  "restore_inputs ops (xs @ ys) f m s =
     (case restore_inputs ops xs f m s of None \<Rightarrow> None | Some (f', m', s') \<Rightarrow> restore_inputs ops ys f' m' s')"
  by (induction xs arbitrary: f m s) (auto split: option.split)

context utxo_view
begin

text \<open>A modification that always succeeds, with the same effect on every representation of the coins.\<close>

lemma modify_total:
  assumes "cinv s" "\<And>c. live c = cache_utxo utxo s t \<Longrightarrow> clean c \<Longrightarrow>
    \<exists>c'. g c = (r, c') \<and> live (Cleanup c') = x \<and> (\<not> IsPruned c' \<longrightarrow> coins_ok (Cleanup c'))"
  shows "\<exists>s'. modify ops t (\<lambda>c. Some (g c)) s = Some (r, s') \<and> steps s ((cache_utxo utxo s)(t := x)) s'"
proof (rule modify_spec [OF assms(1), of t "\<lambda>c. Some (g c)"])
  fix c assume c: "live c = cache_utxo utxo s t" "clean c"
    and step: "\<And>r c'. Some (g c) = Some (r, c') \<Longrightarrow> (\<not> IsPruned c' \<Longrightarrow> coins_ok (Cleanup c')) \<Longrightarrow>
      \<exists>s'. modify ops t (\<lambda>c. Some (g c)) s = Some (r, s') \<and> cinv s' \<and> cache_best best s' = cache_best best s \<and>
        cache_utxo utxo s' = (cache_utxo utxo s)(t := live (Cleanup c'))"
  obtain c' where "g c = (r, c')" "live (Cleanup c') = x" "\<not> IsPruned c' \<longrightarrow> coins_ok (Cleanup c')"
    using assms(2) [OF c] by blast
  then show ?thesis using step [of r c'] by (auto simp: steps_def)
qed

lemma restore_one:
  assumes "cinv s" "coins_ok c" "0 < c_nHeight c" "Spend c n = Some (c', undo)"
    "cache_utxo utxo s t = map_option (\<lambda>c. c\<lparr>fCoinStake := b\<rparr>) (live c')"
  shows "\<exists>s'. modify ops t (\<lambda>c. Some (restore_input undo n c)) s = Some (True, s') \<and>
    steps s ((cache_utxo utxo s)(t \<mapsto> c\<lparr>fCoinStake := (if IsPruned c' then False else b)\<rparr>)) s'"
proof (rule modify_total [OF assms(1)])
  fix d assume d: "live d = cache_utxo utxo s t" "clean d"
  let ?r = "c\<lparr>fCoinStake := (if IsPruned c' then False else b)\<rparr>"
  have r: "restore_input undo n d = (True, ?r)" using restore_after_spend [OF assms(2-4) d(2)] d(1) assms(5) by simp
  have ok: "coins_ok ?r" using assms(2) by (rule coins_ok_stake)
  then have cl: "Cleanup ?r = ?r" "live ?r = Some ?r" by (auto simp: coins_ok_def live_def)
  show "\<exists>c'. restore_input undo n d = (True, c') \<and> live (Cleanup c') = Some ?r \<and>
      (\<not> IsPruned c' \<longrightarrow> coins_ok (Cleanup c'))"
    by (intro exI [of _ ?r] conjI r impI) (simp_all only: cl ok)
qed

lemma restore_inputs_spec:
  assumes "u_spends u is = Some (us, u')" "u_ok u" "cinv s" "cache_utxo utxo s = u'"
  shows "\<exists>s'. restore_inputs ops (rev (zip is us)) f m s = Some (f, forget_spent is m, s') \<and> steps s (lose u u') s'"
  using assms
proof (induction "is" arbitrary: u us)
  case Nil
  have "lose u u = u" by (intro ext) (simp add: lose_def)
  moreover have "forget_spent [] m = m" by (intro ext) (simp add: forget_spent_def)
  ultimately show ?case using Nil by (simp add: steps_def)
next
  case (Cons i "is")
  obtain undo u1 us1 where u1: "u_spend u (prevout i) = Some (undo, u1)" "u_spends u1 is = Some (us1, u')" "us = undo # us1"
    using Cons.prems(1) by (auto split: option.splits)
  obtain s1 where s1: "restore_inputs ops (rev (zip is us1)) f m s = Some (f, forget_spent is m, s1)" "steps s (lose u1 u') s1"
    using Cons.IH [OF u1(2) u_spend_ok [OF u1(1) Cons.prems(2)] Cons.prems(3,4)] by blast
  let ?t = "op_hash (prevout i)"
  obtain c c' where c: "u ?t = Some c" "Spend c (unat (op_n (prevout i))) = Some (c', undo)" "u1 = u(?t := live c')"
    using u1(1) by (rule u_spend_cases)
  define b where "b = (if u' ?t = None then False else fCoinStake c')"
  have fs: "fCoinStake c' = fCoinStake c" using Spend_cases(4) [OF c(2)] by (simp add: Cleanup_def)
  have "map_option (\<lambda>c. c\<lparr>fCoinStake := b\<rparr>) (live c') = lose u1 u' ?t"
    by (auto simp: lose_def c(3) live_def b_def)
  then obtain s2 where s2: "modify ops ?t (\<lambda>c. Some (restore_input undo (unat (op_n (prevout i))) c)) s1 = Some (True, s2)"
    "steps s1 ((lose u1 u')(?t \<mapsto> c\<lparr>fCoinStake := (if IsPruned c' then False else b)\<rparr>)) s2"
    using restore_one [of s1 c "unat (op_n (prevout i))" c' undo ?t b] c(1,2) s1(2) Cons.prems(2)
    by (auto simp: steps_def u_ok_def)
  have "u' ?t = None" if "IsPruned c'" using u_spends_None [OF u1(2), of ?t] that by (simp add: c(3))
  then have "(lose u1 u')(?t \<mapsto> c\<lparr>fCoinStake := (if IsPruned c' then False else b)\<rparr>) = lose u u'"
    using c(1) fs by (auto simp: lose_def c(3) b_def fun_eq_iff)
  moreover have "(forget_spent is m)(prevout i := None) = forget_spent (i # is) m"
    by (auto simp: forget_spent_def fun_eq_iff)
  ultimately show ?case using s1(1) s2 steps_trans [OF s1(2) s2(2)]
    by (simp add: u1(3) restore_inputs_append)
qed

text \<open>One transaction connected and disconnected.\<close>

lemma disconnect_tx_spec:
  assumes "u_update u tx h = Some (us, u1)" "u_ok u" "u (GetHash tx) = None" "0 \<le> nVersion tx"
    "cinv s" "cache_utxo utxo s = u1"
  shows "\<exists>s'. disconnect_tx ops h (tx, us) f m s =
      Inr (f, if spends_inputs tx then forget_spent (vin tx) m else m, s') \<and>
    steps s (lose u (u1(GetHash tx := None))) s'"
proof -
  let ?t = "GetHash tx"
  obtain u2 where u2: "(if spends_inputs tx then u_spends u (vin tx) else Some ([], u)) = Some (us, u2)"
    "u1 = u2(?t := live (FromTx tx h))" using assms(1) by (auto simp: u_update_def)
  have fresh: "u2 ?t = None" using u2(1) assms(3) u_spends_None by (auto split: if_splits)
  have "\<exists>s'. modify ops ?t (\<lambda>c. Some (remove_outs tx h c)) s = Some (True, s') \<and>
      steps s ((cache_utxo utxo s)(?t := None)) s'"
  proof (rule modify_total [OF assms(5)])
    fix d assume "live d = cache_utxo utxo s ?t" "clean d"
    then have "remove_outs tx h d = (True, CCoins_Clear d)" using remove_created assms(4,6) u2(2) by simp
    moreover have "IsPruned (CCoins_Clear d)" by (simp add: IsPruned_def CCoins_Clear_def)
    ultimately show "\<exists>c'. remove_outs tx h d = (True, c') \<and> live (Cleanup c') = None \<and>
        (\<not> IsPruned c' \<longrightarrow> coins_ok (Cleanup c'))" by simp
  qed
  then obtain s1 where s1: "modify ops ?t (\<lambda>c. Some (remove_outs tx h c)) s = Some (True, s1)"
    "steps s (u1(?t := None)) s1" using assms(6) by blast
  have r: "u1(?t := None) = u2" using fresh u2(2) by auto
  show ?thesis
  proof (cases "spends_inputs tx")
    case True
    then have sp: "u_spends u (vin tx) = Some (us, u2)" using u2(1) by simp
    obtain s2 where "restore_inputs ops (rev (zip (vin tx) us)) f m s1 = Some (f, forget_spent (vin tx) m, s2)"
      "steps s1 (lose u u2) s2"
      using restore_inputs_spec [OF sp assms(2), of s1 f m] s1(2) r by (auto simp: steps_def)
    then show ?thesis using True s1 u_spends_length [OF sp] steps_trans [OF s1(2)] r
      by (simp add: disconnect_tx_def opt_sum_def spends_inputs_def)
  next
    case False
    then have "lose u u2 = u2" using u2(1) by (intro ext) (auto simp: lose_def)
    then show ?thesis using False s1 r by (auto simp: disconnect_tx_def opt_sum_def spends_inputs_def)
  qed
qed

end

end
