(* ===== verification/Block.thy ===== *)
theory Block
  imports TransactionLemmas
begin

text \<open>
  Blocks, \<^verbatim>\<open>src/src/primitives/block.h\<close> and \<^verbatim>\<open>block.cpp\<close>: the header with its encoding and hash, the
  block, the Merkle tree over its transaction ids with the test for duplicated ends, branches of
  the tree and their check. The memory-only fields are left out, except that the tree is a value
  the functions that read it take. The hash of headers before version 4, \<^verbatim>\<open>HashQuark\<close>, rests on
  the vendored sphlib and is a parameter.
\<close>

definition MAX_BLOCK_SIZE_CURRENT :: nat where "MAX_BLOCK_SIZE_CURRENT = 2000000"
definition MAX_BLOCK_SIZE_LEGACY :: nat where "MAX_BLOCK_SIZE_LEGACY = 1000000"

record CBlockHeader =
  hd_nVersion :: int
  hashPrevBlock :: uint256
  hashMerkleRoot :: uint256
  nTime :: u32
  nBits :: u32
  nNonce :: u32
  nAccumulatorCheckpoint :: uint256

record CBlock = CBlockHeader +
  vtx :: "CTransaction list"
  vchBlockSig :: bytes

definition CBlockHeader_Null :: CBlockHeader where
  "CBlockHeader_Null = \<lparr>hd_nVersion = 6, hashPrevBlock = 0, hashMerkleRoot = 0, nTime = 0, nBits = 0,
     nNonce = 0, nAccumulatorCheckpoint = 0\<rparr>"

definition CBlockHeader_IsNull :: "'a CBlockHeader_scheme \<Rightarrow> bool" where
  "CBlockHeader_IsNull b \<longleftrightarrow> nBits b = 0"

definition GetBlockHeader :: "CBlock \<Rightarrow> CBlockHeader" where
  "GetBlockHeader b = \<lparr>hd_nVersion = hd_nVersion b, hashPrevBlock = hashPrevBlock b,
     hashMerkleRoot = hashMerkleRoot b, nTime = nTime b, nBits = nBits b, nNonce = nNonce b,
     nAccumulatorCheckpoint = nAccumulatorCheckpoint b\<rparr>"

section \<open>Encoding and hash\<close>

text \<open>The bytes from \<^verbatim>\<open>nVersion\<close> to \<^verbatim>\<open>nNonce\<close>, in memory as on the wire.\<close>

definition header_start :: "'a CBlockHeader_scheme \<Rightarrow> bytes" where
  "header_start b = ser_int 4 (hd_nVersion b) @ ser_hash (hashPrevBlock b) @ ser_hash (hashMerkleRoot b) @
     ser_u32 (nTime b) @ ser_u32 (nBits b) @ ser_u32 (nNonce b)"

definition ser_header :: "'a CBlockHeader_scheme \<Rightarrow> bytes" where
  "ser_header b = header_start b @ (if hd_nVersion b > 3 then ser_hash (nAccumulatorCheckpoint b) else [])"

definition unser_header :: "CBlockHeader reader" where
  "unser_header =
     rbind (unser_int 4) (\<lambda>ver. rbind unser_hash (\<lambda>prev. rbind unser_hash (\<lambda>root.
     rbind unser_u32 (\<lambda>t. rbind unser_u32 (\<lambda>b. rbind unser_u32 (\<lambda>n.
     rbind (if ver > 3 then unser_hash else rret 0) (\<lambda>acc.
     rret \<lparr>hd_nVersion = ver, hashPrevBlock = prev, hashMerkleRoot = root, nTime = t, nBits = b,
           nNonce = n, nAccumulatorCheckpoint = acc\<rparr>)))))))"

definition size_header :: "'a CBlockHeader_scheme \<Rightarrow> nat" where
  "size_header b = 80 + (if hd_nVersion b > 3 then 32 else 0)"

definition header_GetHash :: "(bytes \<Rightarrow> uint256) \<Rightarrow> 'a CBlockHeader_scheme \<Rightarrow> uint256" where
  "header_GetHash HashQuark b =
     (if hd_nVersion b < 4 then HashQuark (header_start b)
      else uint256_of_bytes (Hash_ranges [header_start b @ ser_hash (nAccumulatorCheckpoint b)]))"

definition IsProofOfStake :: "CBlock \<Rightarrow> bool" where
  "IsProofOfStake b \<longleftrightarrow> length (vtx b) > 1 \<and> IsCoinStake (vtx b ! 1)"

definition IsProofOfWork :: "CBlock \<Rightarrow> bool" where
  "IsProofOfWork b \<longleftrightarrow> \<not> IsProofOfStake b"

definition IsZerocoinStake :: "CBlock \<Rightarrow> bool" where
  "IsZerocoinStake b \<longleftrightarrow> IsProofOfStake b \<and> tx_IsZerocoinSpend (vtx b ! 1)"

definition GetProofOfStake :: "CBlock \<Rightarrow> COutPoint \<times> u32" where
  "GetProofOfStake b =
     (if IsProofOfStake b then (prevout (hd (vin (vtx b ! 1))), nTime b) else (COutPoint_Null, 0))"

definition ser_block :: "CBlock \<Rightarrow> bytes" where
  "ser_block b = ser_header b @ ser_vector ser_tx (vtx b) @
     (if length (vtx b) > 1 \<and> IsCoinStake (vtx b ! 1) then ser_bytes (vchBlockSig b) else [])"

definition unser_block :: "CBlock reader" where
  "unser_block =
     rbind unser_header (\<lambda>h. rbind (unser_vector unser_tx) (\<lambda>txs.
     rbind (if length txs > 1 \<and> IsCoinStake (txs ! 1) then unser_bytes else rret []) (\<lambda>sig.
     rret (CBlockHeader.extend h \<lparr>vtx = txs, vchBlockSig = sig\<rparr>))))"

definition size_block :: "CBlock \<Rightarrow> nat" where
  "size_block b = size_header b + size_vector size_tx (vtx b) +
     (if length (vtx b) > 1 \<and> IsCoinStake (vtx b ! 1) then size_bytes (vchBlockSig b) else 0)"

section \<open>The Merkle tree\<close>

text \<open>\<^verbatim>\<open>Hash\<close> of two hashes.\<close>

definition hash_pair :: "uint256 \<Rightarrow> uint256 \<Rightarrow> uint256" where
  "hash_pair a b = uint256_of_bytes (Hash_ranges [ser_hash a, ser_hash b])"

text \<open>
  The inner loop of \<^verbatim>\<open>BuildMerkleTree\<close> from index \<open>i\<close> on: the tree so far, whose level of \<open>nSize\<close>
  nodes starts at \<open>j\<close>, and the flag.
\<close>

function merkle_level :: "nat \<Rightarrow> nat \<Rightarrow> nat \<Rightarrow> uint256 list \<times> bool \<Rightarrow> uint256 list \<times> bool" where
  "merkle_level j nSize i st =
     (if i < nSize
      then (case st of (tree, mutated) \<Rightarrow>
              let i2 = min (i + 1) (nSize - 1);
                  mutated' = (if i2 = i + 1 \<and> i2 + 1 = nSize \<and> tree ! (j + i) = tree ! (j + i2) then True else mutated)
              in merkle_level j nSize (i + 2) (tree @ [hash_pair (tree ! (j + i)) (tree ! (j + i2))], mutated'))
      else st)"
  by pat_completeness auto
termination by (relation "measure (\<lambda>(j, nSize, i, st). nSize - i)") auto

function merkle_levels :: "nat \<Rightarrow> nat \<Rightarrow> uint256 list \<times> bool \<Rightarrow> uint256 list \<times> bool" where
  "merkle_levels j nSize st =
     (if nSize > 1 then merkle_levels (j + nSize) ((nSize + 1) div 2) (merkle_level j nSize 0 st) else st)"
  by pat_completeness auto
termination by (relation "measure (\<lambda>(j, nSize, st). nSize)") auto

declare merkle_level.simps [simp del] merkle_levels.simps [simp del]

text \<open>The tree, and whether two equal hashes were paired at the end of a level.\<close>

definition BuildMerkleTree_nodes :: "CTransaction list \<Rightarrow> uint256 list \<times> bool" where
  "BuildMerkleTree_nodes txs = merkle_levels 0 (length txs) (map GetHash txs, False)"

definition BuildMerkleTree :: "CBlock \<Rightarrow> uint256 \<times> bool" where
  "BuildMerkleTree b =
     (case BuildMerkleTree_nodes (vtx b) of (tree, mutated) \<Rightarrow> (if tree = [] then 0 else last tree, mutated))"

function branch_loop :: "uint256 list \<Rightarrow> nat \<Rightarrow> nat \<Rightarrow> nat \<Rightarrow> uint256 list" where
  "branch_loop tree j nSize nIndex =
     (if nSize > 1
      then tree ! (j + min (nIndex XOR 1) (nSize - 1)) #
             branch_loop tree (j + nSize) ((nSize + 1) div 2) (nIndex div 2)
      else [])"
  by pat_completeness auto
termination by (relation "measure (\<lambda>(tree, j, nSize, nIndex). nSize)") auto

declare branch_loop.simps [simp del]

definition GetMerkleBranch :: "CBlock \<Rightarrow> nat \<Rightarrow> uint256 list" where
  "GetMerkleBranch b nIndex =
     branch_loop (fst (BuildMerkleTree_nodes (vtx b))) 0 (length (vtx b)) nIndex"

text \<open>An index \<^verbatim>\<open>-1\<close> is the missing index \<open>None\<close>.\<close>

definition CheckMerkleBranch :: "uint256 \<Rightarrow> uint256 list \<Rightarrow> nat option \<Rightarrow> uint256" where
  "CheckMerkleBranch h branch nIndex =
     (case nIndex of
        None \<Rightarrow> 0
      | Some n \<Rightarrow>
          fst (foldl (\<lambda>(h, n) x. (if n mod 2 = 1 then hash_pair x h else hash_pair h x, n div 2)) (h, n) branch))"

end
