(* ===== verification/ConnectBlock.thy ===== *)
theory ConnectBlock
  imports ConnectLemmas Block
begin

text \<open>
  \<^verbatim>\<open>ConnectBlock\<close>, \<^verbatim>\<open>src/src/main.cpp\<close>: the checks of the block's place in the chain, the loop over
  its transactions with the running totals, the limit on what it mints, and what it records. The
  chain parameters, the sporks, the zerocoin verifications, the accumulator checkpoint and the
  writes to disk are fields of the environment; scripts are checked in the same thread. On failure
  the caller throws the view away, so a failure carries no state.
\<close>

definition MAX_BLOCK_SIGOPS_CURRENT :: nat where
  "MAX_BLOCK_SIGOPS_CURRENT = MAX_BLOCK_SIZE_CURRENT div 50"

text \<open>\<^verbatim>\<open>GetP2SHSigOpCount\<close> on a view; \<open>None\<close> is the failed assertion of \<^verbatim>\<open>GetOutputFor\<close>.\<close>

fun p2sh_sigops :: "'v view_ops \<Rightarrow> CTxIn list \<Rightarrow> nat \<Rightarrow> 'v cache \<Rightarrow> (nat \<times> 'v cache) option" where
  "p2sh_sigops ops [] nSigOps s = Some (nSigOps, s)"
| "p2sh_sigops ops (txin # txins) nSigOps s =
     (case GetOutputFor ops txin s of
        None \<Rightarrow> None
      | Some (prev, s') \<Rightarrow>
          p2sh_sigops ops txins
            (if IsPayToScriptHash (scriptPubKey prev)
             then nSigOps + GetSigOpCount_P2SH (scriptPubKey prev) (scriptSig txin) else nSigOps) s')"

definition P2SHSigOpCount :: "'v view_ops \<Rightarrow> CTransaction \<Rightarrow> 'v cache \<Rightarrow> (nat \<times> 'v cache) option" where
  "P2SHSigOpCount ops tx s =
     (if IsCoinBase tx \<or> tx_IsZerocoinSpend tx then Some (0, s) else p2sh_sigops ops (vin tx) 0 s)"

text \<open>
  The environment: the input checks, the verdict of \<^verbatim>\<open>CheckBlock\<close> (or of nothing, for a block checked
  before), the chain parameters, the sporks, the zerocoin verifications of a transaction
  (with the value of a spend) and of the block, \<^verbatim>\<open>IsBlockValueValid\<close> and the outcomes of the writes.
\<close>

record connect_env =
  cx_inputs :: inputs_env
  cx_CheckBlock :: "CBlock \<Rightarrow> conn_error + unit"
  cx_HashGenesisBlock :: uint256
  cx_LAST_POW_BLOCK :: int
  cx_TotalBlocksEstimate :: int
  cx_CLTVSuperMajority :: bool
  cx_maintenance :: bool
  cx_testnet :: bool
  cx_ZerocoinSpend :: "CTransaction \<Rightarrow> conn_error + CAmount"
  cx_ZerocoinMint :: "CTransaction \<Rightarrow> conn_error + unit"
  cx_ValidOutPoint :: "COutPoint \<Rightarrow> int \<Rightarrow> bool"
  cx_ZDIVITSupply :: bool
  cx_IsBlockValueValid :: "CAmount \<Rightarrow> CAmount \<Rightarrow> bool"
  cx_AccumulatorCheckpoint :: bool
  cx_WriteUndo :: bool
  cx_WriteZerocoin :: bool
  cx_WriteTxIndex :: bool
  cx_MaxReorganizationDepth :: int

text \<open>The entry of the block index: \<open>bi_hash = None\<close> for a block under construction.\<close>

record block_index =
  bi_hash :: "uint256 option"
  bi_nHeight :: int
  bi_prev_hash :: "uint256 option"
  bi_prev_nMoneySupply :: CAmount

section \<open>One transaction\<close>

record connect_acc =
  a_nSigOps :: nat
  a_nFees :: CAmount
  a_nValueIn :: CAmount
  a_nValueOut :: CAmount
  a_vtxundo :: "CTxInUndo list list"

definition script_flags :: "bool \<Rightarrow> u32" where
  "script_flags fCLTVHasMajority =
     (let flags = SCRIPT_VERIFY_P2SH OR SCRIPT_VERIFY_DERSIG
      in if fCLTVHasMajority then flags OR SCRIPT_VERIFY_CHECKLOCKTIMEVERIFY else flags)"

definition add_fees :: "'v view_ops \<Rightarrow> CTransaction \<Rightarrow> CAmount \<Rightarrow> 'v cache \<Rightarrow> conn_error + CAmount \<times> 'v cache" where
  "add_fees ops tx nFees s =
     (if \<not> IsCoinStake tx
      then sbind (opt_sum Asserted (GetValueIn ops tx s)) (\<lambda>(nValueIn, s').
           sbind (opt_sum Thrown (GetValueOut tx)) (\<lambda>nValueOut.
             let nFees' = nFees + (nValueIn - nValueOut)
             in Inr (if nFees' > PROSPERITYNODE_AMOUNT then nFees' - PROSPERITYNODE_AMOUNT else nFees', s')))
      else Inr (nFees, s))"

text \<open>A transaction that spends outputs of the view.\<close>

definition connect_inputs :: "'v view_ops \<Rightarrow> connect_env \<Rightarrow> bool \<Rightarrow> bool \<Rightarrow> int \<Rightarrow> CTransaction \<Rightarrow>
    connect_acc \<times> 'v cache \<Rightarrow> conn_error + connect_acc \<times> 'v cache" where
  "connect_inputs ops env fScriptChecks fCLTV nHeight tx st =
     (case st of (acc, s) \<Rightarrow>
      case HaveInputs ops tx s of (have_all, s1) \<Rightarrow>
        if \<not> have_all then Inl (DoS 100 ''bad-txns-inputs-missingorspent'')
        else if list_ex (\<lambda>txin. \<not> cx_ValidOutPoint env (prevout txin) nHeight) (vin tx)
        then Inl (DoS 100 ''bad-txns-invalid-inputs'')
        else
        sbind (if tx_IsZerocoinMint tx then cx_ZerocoinMint env tx else Inr ()) (\<lambda>u.
        sbind (opt_sum Asserted (P2SHSigOpCount ops tx s1)) (\<lambda>(nP2SH, s2).
        if a_nSigOps acc + nP2SH > MAX_BLOCK_SIGOPS_CURRENT then Inl (DoS 100 ''bad-blk-sigops'')
        else
        sbind (add_fees ops tx (a_nFees acc) s2) (\<lambda>(nFees, s3).
        sbind (opt_sum Asserted (GetValueIn ops tx s3)) (\<lambda>(nValueIn, s4).
        sbind (CheckInputs ops (cx_inputs env) tx fScriptChecks (script_flags fCLTV) s4) (\<lambda>s5.
        Inr (acc\<lparr>a_nSigOps := a_nSigOps acc + nP2SH, a_nFees := nFees,
                 a_nValueIn := a_nValueIn acc + nValueIn\<rparr>, s5)))))))"

definition connect_tx :: "'v view_ops \<Rightarrow> connect_env \<Rightarrow> bool \<Rightarrow> bool \<Rightarrow> int \<Rightarrow> bool \<Rightarrow> CTransaction \<Rightarrow>
    connect_acc \<times> 'v cache \<Rightarrow> conn_error + connect_acc \<times> 'v cache" where
  "connect_tx ops env fScriptChecks fCLTV nHeight first tx st =
     (case st of (acc0, s) \<Rightarrow>
        let acc = acc0\<lparr>a_nSigOps := a_nSigOps acc0 + GetLegacySigOpCount tx\<rparr>
        in if a_nSigOps acc > MAX_BLOCK_SIGOPS_CURRENT then Inl (DoS 100 ''bad-blk-sigops'')
           else if cx_maintenance env \<and> ContainsZerocoins tx then Inl (DoS 100 '''')
           else
           sbind (if tx_IsZerocoinSpend tx
                  then sbind (cx_ZerocoinSpend env tx) (\<lambda>v.
                       sbind (if tx_IsZerocoinMint tx then cx_ZerocoinMint env tx else Inr ()) (\<lambda>u.
                       Inr (acc\<lparr>a_nValueIn := a_nValueIn acc + v\<rparr>, s)))
                  else if \<not> IsCoinBase tx then connect_inputs ops env fScriptChecks fCLTV nHeight tx (acc, s)
                  else Inr (acc, s)) (\<lambda>(acc2, s2).
           sbind (opt_sum Thrown (GetValueOut tx)) (\<lambda>nValueOut.
           sbind (opt_sum Asserted (UpdateCoins ops tx nHeight s2)) (\<lambda>(txundo, s3).
           Inr (acc2\<lparr>a_nValueOut := a_nValueOut acc2 + nValueOut,
                     a_vtxundo := (if first then a_vtxundo acc2 else a_vtxundo acc2 @ [txundo])\<rparr>, s3)))))"

fun connect_txs :: "'v view_ops \<Rightarrow> connect_env \<Rightarrow> bool \<Rightarrow> bool \<Rightarrow> int \<Rightarrow> bool \<Rightarrow> CTransaction list \<Rightarrow>
    connect_acc \<times> 'v cache \<Rightarrow> conn_error + connect_acc \<times> 'v cache" where
  "connect_txs ops env fScriptChecks fCLTV nHeight first [] st = Inr st"
| "connect_txs ops env fScriptChecks fCLTV nHeight first (tx # txs) st =
     sbind (connect_tx ops env fScriptChecks fCLTV nHeight first tx st)
       (connect_txs ops env fScriptChecks fCLTV nHeight False txs)"

section \<open>The block\<close>

fun check_bip30 :: "'v view_ops \<Rightarrow> CTransaction list \<Rightarrow> 'v cache \<Rightarrow> conn_error + 'v cache" where
  "check_bip30 ops [] s = Inr s"
| "check_bip30 ops (tx # txs) s =
     (case AccessCoins ops (GetHash tx) s of
        (Some c, s') \<Rightarrow> if \<not> IsPruned c then Inl (DoS 100 ''bad-txns-BIP30'') else check_bip30 ops txs s'
      | (None, s') \<Rightarrow> check_bip30 ops txs s')"

definition fEnforceBIP30 :: "block_index \<Rightarrow> bool" where
  "fEnforceBIP30 pindex \<longleftrightarrow>
     bi_hash pindex = None \<or>
     \<not> ((bi_nHeight pindex = 91842 \<and>
         bi_hash pindex = Some 0x00000000000a4d0a398161ffc163c503763b1f4360639393e0e4c8e300e0caec) \<or>
        (bi_nHeight pindex = 91880 \<and>
         bi_hash pindex = Some 0x00000000000743f190a18c5577a3c2d2a1f610ae9601ac046a38084ccb7cd721))"

text \<open>\<^verbatim>\<open>mapStakeSpent\<close>: the inputs are added, old entries dropped.\<close>

definition stake_add :: "int \<Rightarrow> CTransaction list \<Rightarrow> stake_spent \<Rightarrow> stake_spent" where
  "stake_add nHeight txs m =
     foldl (\<lambda>m tx. if IsCoinBase tx \<or> tx_IsZerocoinSpend tx then m
                   else foldl (\<lambda>m txin. if m (prevout txin) = None then m(prevout txin \<mapsto> nHeight) else m) m (vin tx))
       m txs"

definition stake_expire :: "int \<Rightarrow> stake_spent \<Rightarrow> stake_spent" where
  "stake_expire limit m o1 = (case m o1 of None \<Rightarrow> None | Some h \<Rightarrow> if h < limit then None else Some h)"

record 'v connect_result =
  cr_view :: "'v cache"
  cr_stake :: stake_spent
  cr_vtxundo :: "CTxInUndo list list"
  cr_nMoneySupply :: CAmount
  cr_nMint :: CAmount

text \<open>After the transactions: the money supply, the limit on the mint and what is recorded.\<close>

definition finish_block :: "connect_env \<Rightarrow> CBlock \<Rightarrow> block_index \<Rightarrow> bool \<Rightarrow> stake_spent \<Rightarrow>
    connect_acc \<times> 'v cache \<Rightarrow> conn_error + 'v connect_result" where
  "finish_block env block pindex fJustCheck m st =
     (case st of (acc, s) \<Rightarrow>
      if \<not> cx_ZDIVITSupply env then Inl (DoS 100 '''')
      else let nMoneySupply = bi_prev_nMoneySupply pindex + a_nValueOut acc - a_nValueIn acc;
               nMint = nMoneySupply - bi_prev_nMoneySupply pindex + a_nFees acc;
               nExpectedMint0 = GetBlockValue (cx_testnet env) (bi_nHeight pindex - 1);
               nExpectedMint = (if IsProofOfWork block then nExpectedMint0 + a_nFees acc else nExpectedMint0)
      in if \<not> cx_IsBlockValueValid env nExpectedMint nMint then Inl (DoS 100 ''bad-cb-amount'')
      else if \<not> cx_AccumulatorCheckpoint env then Inl (DoS 100 ''bad-acc-checkpoint'')
      else if fJustCheck
      then Inr \<lparr>cr_view = s, cr_stake = m, cr_vtxundo = a_vtxundo acc, cr_nMoneySupply = nMoneySupply, cr_nMint = nMint\<rparr>
      else if \<not> cx_WriteUndo env then Inl (Failed ''Failed to write undo data'')
      else if \<not> cx_WriteZerocoin env then Inl (Failed ''Failed to record coin serials to database'')
      else if \<not> cx_WriteTxIndex env then Inl (Failed ''Failed to write transaction index'')
      else Inr \<lparr>cr_view = SetBestBlock (case bi_hash pindex of None \<Rightarrow> 0 | Some x \<Rightarrow> x) s,
                cr_stake = stake_expire (bi_nHeight pindex - cx_MaxReorganizationDepth env)
                             (stake_add (bi_nHeight pindex) (vtx block) m),
                cr_vtxundo = a_vtxundo acc, cr_nMoneySupply = nMoneySupply, cr_nMint = nMint\<rparr>)"

definition ConnectBlock :: "'v view_ops \<Rightarrow> connect_env \<Rightarrow> CBlock \<Rightarrow> uint256 \<Rightarrow> block_index \<Rightarrow> bool \<Rightarrow>
    stake_spent \<Rightarrow> 'v cache \<Rightarrow> conn_error + 'v connect_result" where
  "ConnectBlock ops env block hash pindex fJustCheck m s =
     sbind (cx_CheckBlock env block) (\<lambda>u.
      case cache_GetBestBlock ops s of (h, s1) \<Rightarrow>
      if (case bi_prev_hash pindex of None \<Rightarrow> 0 | Some p \<Rightarrow> p) \<noteq> h then Inl Asserted
      else if hash = cx_HashGenesisBlock env
      then Inr \<lparr>cr_view = SetBestBlock (case bi_hash pindex of None \<Rightarrow> 0 | Some x \<Rightarrow> x) s1, cr_stake = m, cr_vtxundo = [],
                cr_nMoneySupply = 0, cr_nMint = 0\<rparr>
      else if bi_nHeight pindex \<le> cx_LAST_POW_BLOCK env \<and> IsProofOfStake block then Inl (DoS 100 ''PoS-early'')
      else if bi_nHeight pindex > cx_LAST_POW_BLOCK env \<and> IsProofOfWork block then Inl (DoS 100 ''PoW-ended'')
      else let fScriptChecks = bi_nHeight pindex \<ge> cx_TotalBlocksEstimate env;
               fCLTV = (fScriptChecks \<and> bi_prev_hash pindex \<noteq> None \<and> cx_CLTVSuperMajority env)
      in
      sbind (if fEnforceBIP30 pindex then check_bip30 ops (vtx block) s1 else Inr s1) (\<lambda>s2.
      sbind (connect_txs ops env fScriptChecks fCLTV (bi_nHeight pindex) True (vtx block)
               (\<lparr>a_nSigOps = 0, a_nFees = 0, a_nValueIn = 0, a_nValueOut = 0, a_vtxundo = []\<rparr>, s2))
        (finish_block env block pindex fJustCheck m)))"

end
