(* ===== verification/ConnectSpec.thy ===== *)
theory ConnectSpec
  imports ConnectBlock
begin

text \<open>
  What an accepted block does: every input it spends is there, in range and satisfied by its
  script, the map of unspent outputs changes as the transactions say, and \<^verbatim>\<open>DisconnectBlock\<close> with the
  undo data brings the old map back.
\<close>

section \<open>The checks leave the view as it is\<close>

lemma forall_less_Suc: "(\<forall>i < Suc n. P i) \<longleftrightarrow> P 0 \<and> (\<forall>i < n. P (Suc i))"
  using less_Suc_eq_0_disj by auto

context utxo_view
begin

lemma same_steps: "same s s' \<longleftrightarrow> steps s (cache_utxo utxo s) s'"
  by (auto simp: same_def steps_def)

lemma AccessCoins_available:
  assumes "cinv s" "utxo_out (cache_utxo utxo s) o1 = Some txout"
  obtains c s' where "AccessCoins ops (op_hash o1) s = (Some c, s')" "same s s'"
    "cache_utxo utxo s (op_hash o1) = Some c" "c_vout c ! unat (op_n o1) = txout"
proof -
  obtain r s' where r: "AccessCoins ops (op_hash o1) s = (r, s')" "same s s'"
    "cache_utxo utxo s (op_hash o1) = live_opt r" by (rule AccessCoins_same [OF assms(1)])
  have "\<exists>c. r = Some c \<and> cache_utxo utxo s (op_hash o1) = Some c \<and> c_vout c ! unat (op_n o1) = txout"
    using assms(2) r(3) by (auto simp: utxo_out_def live_opt_def live_def split: option.splits if_split_asm)
  then show thesis using that r by blast
qed

lemma check_bip30_spec:
  assumes "cinv s" "check_bip30 ops txs s = Inr s'"
  shows "same s s' \<and> (\<forall>tx \<in> set txs. cache_utxo utxo s (GetHash tx) = None)"
  using assms
proof (induction txs arbitrary: s)
  case Nil
  then show ?case using same_refl by auto
next
  case (Cons tx txs)
  obtain r s1 where r: "AccessCoins ops (GetHash tx) s = (r, s1)" "same s s1"
    "cache_utxo utxo s (GetHash tx) = live_opt r" by (rule AccessCoins_same [OF Cons.prems(1)])
  have n: "check_bip30 ops txs s1 = Inr s'" "live_opt r = None"
    using Cons.prems(2) r(1) by (auto simp: live_opt_def live_def split: option.splits if_split_asm)
  show ?case using Cons.IH [OF same_cinv [OF r(2)] n(1)] r n(2) same_trans [OF r(2)] same_utxo [OF r(2)] by auto
qed

definition available :: "'v cache \<Rightarrow> CTxIn list \<Rightarrow> bool" where
  "available s is \<longleftrightarrow> list_all (\<lambda>i. utxo_out (cache_utxo utxo s) (prevout i) \<noteq> None) is"

definition in_out :: "'v cache \<Rightarrow> CTxIn \<Rightarrow> CTxOut" where
  "in_out s i = the (utxo_out (cache_utxo utxo s) (prevout i))"

lemma same_available: "same s s' \<Longrightarrow> available s' is = available s is"
  by (simp add: available_def same_utxo)

lemma same_in_out: "same s s' \<Longrightarrow> in_out s' = in_out s"
  by (simp add: in_out_def fun_eq_iff same_utxo)

lemma p2sh_sigops_spec:
  assumes "cinv s" "p2sh_sigops ops is n s = Some (k, s')" shows "same s s'"
  using assms
proof (induction "is" arbitrary: n s)
  case Nil
  then show ?case using same_refl by auto
next
  case (Cons i "is")
  obtain s1 where s1: "same s s1" "GetOutputFor ops i s =
      map_option (\<lambda>txout. (txout, s1)) (utxo_out (cache_utxo utxo s) (prevout i))"
    using GetOutputFor_spec [OF Cons.prems(1)] by blast
  then obtain m where "p2sh_sigops ops is m s1 = Some (k, s')"
    using Cons.prems(2) by (auto split: option.splits)
  then show ?case using Cons.IH [OF same_cinv [OF s1(1)]] same_trans [OF s1(1)] by blast
qed

lemma GetValueIn_same:
  assumes "cinv s" "GetValueIn ops tx s = Some (v, s')" shows "same s s'"
proof -
  have "same s s'" if "value_in_loop ops is n s = Some (v, s')" "cinv s" for "is" n s
    using that
  proof (induction "is" arbitrary: n s)
    case Nil
    then show ?case using same_refl by auto
  next
    case (Cons i "is")
    obtain s1 where s1: "same s s1" "GetOutputFor ops i s =
        map_option (\<lambda>txout. (txout, s1)) (utxo_out (cache_utxo utxo s) (prevout i))"
      using GetOutputFor_spec [OF Cons.prems(2)] by blast
    then obtain m where "value_in_loop ops is m s1 = Some (v, s')"
      using Cons.prems(1) by (auto split: option.splits)
    then show ?case using Cons.IH same_cinv [OF s1(1)] same_trans [OF s1(1)] by blast
  qed
  then show ?thesis using assms same_refl by (auto simp: GetValueIn_def split: if_split_asm)
qed

lemma check_values_spec:
  assumes "cinv s" "available s is" "check_values ops env h is n s = Inr (v, s')"
  shows "same s s' \<and> v = n + sum_list (map (\<lambda>i. nValue (in_out s i)) is) \<and>
    (\<forall>i \<in> set is. money_range env (nValue (in_out s i)))"
  using assms
proof (induction "is" arbitrary: n s)
  case Nil
  then show ?case using same_refl by auto
next
  case (Cons i "is")
  obtain txout where o: "utxo_out (cache_utxo utxo s) (prevout i) = Some txout"
    using Cons.prems(2) by (auto simp: available_def)
  obtain c s1 where c: "AccessCoins ops (op_hash (prevout i)) s = (Some c, s1)" "same s s1"
    "c_vout c ! unat (op_n (prevout i)) = txout" by (rule AccessCoins_available [OF Cons.prems(1) o])
  have v: "in_out s i = txout" using o by (simp add: in_out_def)
  have n: "check_values ops env h is (n + nValue txout) s1 = Inr (v, s')" "money_range env (nValue txout)"
    using Cons.prems(3) c by (auto simp: Let_def split: if_split_asm)
  have "available s1 is" using Cons.prems(2) by (simp add: same_available [OF c(2)]) (simp add: available_def)
  then show ?case
    using Cons.IH [OF same_cinv [OF c(2)] _ n(1)] n(2) v same_in_out [OF c(2)] same_trans [OF c(2)] by auto
qed

lemma check_scripts_spec:
  assumes "cinv s" "available s is" "check_scripts ops env tx flags k is s = Inr s'"
  shows "same s s' \<and> (\<forall>j < length is. script_check env tx (k + j) (is ! j) (scriptPubKey (in_out s (is ! j))) flags)"
  using assms
proof (induction "is" arbitrary: k s)
  case Nil
  then show ?case using same_refl by auto
next
  case (Cons i "is")
  obtain txout where o: "utxo_out (cache_utxo utxo s) (prevout i) = Some txout"
    using Cons.prems(2) by (auto simp: available_def)
  obtain c s1 where c: "AccessCoins ops (op_hash (prevout i)) s = (Some c, s1)" "same s s1"
    "c_vout c ! unat (op_n (prevout i)) = txout" by (rule AccessCoins_available [OF Cons.prems(1) o])
  have v: "in_out s i = txout" using o by (simp add: in_out_def)
  have n: "check_scripts ops env tx flags (k + 1) is s1 = Inr s'"
    "script_check env tx k i (scriptPubKey txout) flags"
    using Cons.prems(3) c by (auto simp: Let_def split: if_split_asm)
  have "available s1 is" using Cons.prems(2) by (simp add: same_available [OF c(2)]) (simp add: available_def)
  then show ?case
    using Cons.IH [OF same_cinv [OF c(2)] _ n(1)] n(2) v same_in_out [OF c(2)] same_trans [OF c(2)]
    by (auto simp: forall_less_Suc)
qed

text \<open>What passing \<^verbatim>\<open>CheckInputs\<close> means.\<close>

definition inputs_checked :: "inputs_env \<Rightarrow> CTransaction \<Rightarrow> bool \<Rightarrow> u32 \<Rightarrow> 'v cache \<Rightarrow> bool" where
  "inputs_checked env tx fScriptChecks flags s \<longleftrightarrow>
     available s (vin tx) \<and> (\<forall>i \<in> set (vin tx). money_range env (nValue (in_out s i))) \<and>
     (\<not> IsCoinStake tx \<longrightarrow>
        (\<exists>v. GetValueOut tx = Some v \<and> v \<le> sum_list (map (\<lambda>i. nValue (in_out s i)) (vin tx)))) \<and>
     (fScriptChecks \<longrightarrow> (\<forall>j < length (vin tx).
        script_check env tx j (vin tx ! j) (scriptPubKey (in_out s (vin tx ! j))) flags))"

lemma CheckInputs_spec:
  assumes "cinv s" "CheckInputs ops env tx fScriptChecks flags s = Inr s'"
  shows "same s s' \<and> (spends_inputs tx \<longrightarrow> inputs_checked env tx fScriptChecks flags s)"
proof (cases "spends_inputs tx")
  case True
  obtain s1 where s1: "same s s1" "HaveInputs ops tx s = (available s (vin tx), s1)"
    using HaveInputs_spec [OF assms(1), of tx] True by (auto simp: spends_inputs_def available_def)
  obtain h s2 where h: "cache_GetBestBlock ops s1 = (h, s2)" by fastforce
  have s2: "same s s2" using cache_GetBestBlock_spec [OF same_cinv [OF s1(1)] h] s1(1) by (auto simp: same_def)
  obtain v s3 where v: "available s (vin tx)" "check_values ops env (ie_height env h + 1) (vin tx) 0 s2 = Inr (v, s3)"
    "check_fee env tx v = Inr ()" "(if fScriptChecks then check_scripts ops env tx flags 0 (vin tx) s3 else Inr s3) = Inr s'"
    using assms(2) True s1(2) h by (auto simp: CheckInputs_def spends_inputs_def sbind_eq_Inr split: if_split_asm)
  have av: "available s2 (vin tx)" using v(1) by (simp add: same_available [OF s2])
  have cv: "same s s3" "v = sum_list (map (\<lambda>i. nValue (in_out s i)) (vin tx))"
    "\<forall>i \<in> set (vin tx). money_range env (nValue (in_out s i))"
    using check_values_spec [OF same_cinv [OF s2] av v(2)] same_trans [OF s2] by (auto simp: same_in_out [OF s2])
  have fee: "\<exists>w. GetValueOut tx = Some w \<and> w \<le> v" if "\<not> IsCoinStake tx"
    using v(3) that by (auto simp: check_fee_def Let_def split: option.splits if_split_asm)
  show ?thesis
  proof (cases fScriptChecks)
    case sc: True
    have av3: "available s3 (vin tx)" using v(1) by (simp add: same_available [OF cv(1)])
    show ?thesis using check_scripts_spec [OF same_cinv [OF cv(1)] av3, of env tx flags 0 s'] v(1,4) cv(2,3) fee sc
        same_trans [OF cv(1)] by (auto simp: inputs_checked_def same_in_out [OF cv(1)])
  next
    case False
    then show ?thesis using v(1,4) cv fee by (auto simp: inputs_checked_def)
  qed
next
  case False
  then show ?thesis using assms same_refl by (auto simp: CheckInputs_def spends_inputs_def)
qed

section \<open>Connecting the transactions\<close>

lemma add_fees_same:
  assumes "cinv s" "add_fees ops tx f s = Inr (f', s')" shows "same s s'"
  using assms same_refl GetValueIn_same [OF assms(1)]
  by (auto simp: add_fees_def opt_sum_def sbind_eq_Inr Let_def split: if_split_asm option.splits prod.splits)

lemma connect_inputs_spec:
  assumes "cinv s" "connect_inputs ops env sc cltv h tx (acc, s) = Inr (acc', s')" "spends_inputs tx"
  shows "same s s' \<and> a_vtxundo acc' = a_vtxundo acc \<and> a_nValueOut acc' = a_nValueOut acc \<and>
    inputs_checked (cx_inputs env) tx sc (script_flags cltv) s"
proof -
  obtain s1 where s1: "same s s1" "HaveInputs ops tx s = (available s (vin tx), s1)"
    using HaveInputs_spec [OF assms(1), of tx] assms(3) by (auto simp: spends_inputs_def available_def)
  obtain n s2 f s3 v s4 where *: "P2SHSigOpCount ops tx s1 = Some (n, s2)"
    "add_fees ops tx (a_nFees acc) s2 = Inr (f, s3)" "GetValueIn ops tx s3 = Some (v, s4)"
    "CheckInputs ops (cx_inputs env) tx sc (script_flags cltv) s4 = Inr s'"
    "acc' = acc\<lparr>a_nSigOps := a_nSigOps acc + n, a_nFees := f, a_nValueIn := a_nValueIn acc + v\<rparr>"
    using assms(2) s1(2)
    by (auto simp: connect_inputs_def opt_sum_def sbind_eq_Inr split: if_split_asm option.splits prod.splits)
  have "same s1 s2" using *(1) p2sh_sigops_spec [OF same_cinv [OF s1(1)]] same_refl [OF same_cinv [OF s1(1)]]
    by (auto simp: P2SHSigOpCount_def split: if_split_asm)
  then have s2: "same s s2" using same_trans [OF s1(1)] by blast
  have s3: "same s s3" using add_fees_same [OF same_cinv [OF s2] *(2)] same_trans [OF s2] by blast
  have s4: "same s s4" using GetValueIn_same [OF same_cinv [OF s3] *(3)] same_trans [OF s3] by blast
  have "same s s'" "inputs_checked (cx_inputs env) tx sc (script_flags cltv) s4"
    using CheckInputs_spec [OF same_cinv [OF s4] *(4)] assms(3) same_trans [OF s4] by auto
  then show ?thesis using *(5)
    by (auto simp: inputs_checked_def same_available [OF s4] same_in_out [OF s4])
qed

text \<open>What a transaction of an accepted block satisfies in the state it is connected in.\<close>

definition tx_checked :: "connect_env \<Rightarrow> bool \<Rightarrow> bool \<Rightarrow> CTransaction \<Rightarrow> 'v cache \<Rightarrow> bool" where
  "tx_checked env sc cltv tx s \<longleftrightarrow>
     (spends_inputs tx \<longrightarrow> inputs_checked (cx_inputs env) tx sc (script_flags cltv) s)"

lemma connect_tx_spec:
  assumes "cinv s" "connect_tx ops env sc cltv h first tx (acc, s) = Inr (acc', s')" "tx_storable tx"
    "0 \<le> h" "h < 2 ^ 31"
  shows "\<exists>us u v. u_update (cache_utxo utxo s) tx h = Some (us, u) \<and> steps s u s' \<and>
    a_vtxundo acc' = (if first then a_vtxundo acc else a_vtxundo acc @ [us]) \<and>
    GetValueOut tx = Some v \<and> a_nValueOut acc' = a_nValueOut acc + v \<and> tx_checked env sc cltv tx s"
proof -
  let ?acc = "acc\<lparr>a_nSigOps := a_nSigOps acc + GetLegacySigOpCount tx\<rparr>"
  obtain acc2 s2 v us s3 where *:
    "(if tx_IsZerocoinSpend tx
      then sbind (cx_ZerocoinSpend env tx) (\<lambda>v. sbind (if tx_IsZerocoinMint tx then cx_ZerocoinMint env tx else Inr ())
             (\<lambda>u. Inr (?acc\<lparr>a_nValueIn := a_nValueIn ?acc + v\<rparr>, s)))
      else if \<not> IsCoinBase tx then connect_inputs ops env sc cltv h tx (?acc, s) else Inr (?acc, s)) = Inr (acc2, s2)"
    "GetValueOut tx = Some v" "UpdateCoins ops tx h s2 = Some (us, s3)" "s' = s3"
    "acc' = acc2\<lparr>a_nValueOut := a_nValueOut acc2 + v,
       a_vtxundo := (if first then a_vtxundo acc2 else a_vtxundo acc2 @ [us])\<rparr>"
    using assms(2) unfolding connect_tx_def
    by (auto simp: opt_sum_def sbind_eq_Inr Let_def simp del: if_split split: option.splits if_split_asm)
  have "same s s2 \<and> a_vtxundo acc2 = a_vtxundo acc \<and> a_nValueOut acc2 = a_nValueOut acc \<and> tx_checked env sc cltv tx s"
  proof (cases "spends_inputs tx")
    case True
    then show ?thesis using connect_inputs_spec [OF assms(1), of env sc cltv h tx ?acc acc2 s2] *(1)
      by (auto simp: spends_inputs_def tx_checked_def)
  next
    case False
    then show ?thesis using *(1) same_refl [OF assms(1)]
      by (auto simp: spends_inputs_def tx_checked_def sbind_eq_Inr split: if_split_asm)
  qed
  then have s2: "same s s2" "a_vtxundo acc2 = a_vtxundo acc" "a_nValueOut acc2 = a_nValueOut acc"
    "tx_checked env sc cltv tx s" by auto
  obtain u where "u_update (cache_utxo utxo s) tx h = Some (us, u)" "steps s2 u s'"
    using UpdateCoins_spec [OF same_cinv [OF s2(1)] assms(3-5)] *(3,4)
    by (auto simp: same_utxo [OF s2(1)] split: option.splits prod.splits)
  then show ?thesis using * s2 steps_trans [of s _ s2] by (auto simp: same_steps)
qed

end

fun u_connect :: "utxo_map \<Rightarrow> CTransaction list \<Rightarrow> int \<Rightarrow> (CTxInUndo list list \<times> utxo_map) option" where
  "u_connect u [] h = Some ([], u)"
| "u_connect u (tx # txs) h =
     (case u_update u tx h of
        None \<Rightarrow> None
      | Some (us, u') \<Rightarrow> map_option (\<lambda>(uss, u''). (us # uss, u'')) (u_connect u' txs h))"

context utxo_view
begin

lemma connect_txs_spec:
  assumes "cinv s" "connect_txs ops env sc cltv h first txs (acc, s) = Inr (acc', s')" "list_all tx_storable txs"
    "0 \<le> h" "h < 2 ^ 31"
  shows "\<exists>uss u. u_connect (cache_utxo utxo s) txs h = Some (uss, u) \<and> steps s u s' \<and>
    a_vtxundo acc' = a_vtxundo acc @ (if first then tl uss else uss)"
  using assms(1-3)
proof (induction txs arbitrary: s acc first)
  case Nil
  then show ?case using steps_refl by auto
next
  case (Cons tx txs)
  obtain acc1 s1 where 1: "connect_tx ops env sc cltv h first tx (acc, s) = Inr (acc1, s1)"
    "connect_txs ops env sc cltv h False txs (acc1, s1) = Inr (acc', s')"
    using Cons.prems(2) by (auto simp: sbind_eq_Inr)
  have st: "tx_storable tx" "list_all tx_storable txs" using Cons.prems(3) by auto
  obtain us u where u: "u_update (cache_utxo utxo s) tx h = Some (us, u)" "steps s u s1"
    "a_vtxundo acc1 = (if first then a_vtxundo acc else a_vtxundo acc @ [us])"
    using connect_tx_spec [OF Cons.prems(1) 1(1) st(1) assms(4,5)] by blast
  have "cinv s1" "cache_utxo utxo s1 = u" using u(2) by (auto simp: steps_def)
  then obtain uss u' where "u_connect u txs h = Some (uss, u')" "steps s1 u' s'"
    "a_vtxundo acc' = a_vtxundo acc1 @ uss"
    using Cons.IH [OF _ 1(2) st(2)] by auto
  then show ?case using u steps_trans [OF u(2)] by auto
qed

lemma ConnectBlock_spec:
  assumes "cinv s" "ConnectBlock ops env block hash pindex fJustCheck m s = Inr r"
    "list_all tx_storable (vtx block)" "0 \<le> bi_nHeight pindex" "bi_nHeight pindex < 2 ^ 31"
    "hash \<noteq> cx_HashGenesisBlock env"
  shows "\<exists>uss u s1. u_connect (cache_utxo utxo s) (vtx block) (bi_nHeight pindex) = Some (uss, u) \<and>
    cr_vtxundo r = tl uss \<and> steps s u s1 \<and>
    cr_view r = (if fJustCheck then s1 else SetBestBlock (case bi_hash pindex of None \<Rightarrow> 0 | Some x \<Rightarrow> x) s1) \<and>
    (case bi_prev_hash pindex of None \<Rightarrow> 0 | Some p \<Rightarrow> p) = cache_best best s \<and>
    (fEnforceBIP30 pindex \<longrightarrow> (\<forall>tx \<in> set (vtx block). cache_utxo utxo s (GetHash tx) = None))"
proof -
  obtain h s1 where h: "cache_GetBestBlock ops s = (h, s1)" by fastforce
  have s1: "same s s1" "h = cache_best best s" using cache_GetBestBlock_spec [OF assms(1) h] by (auto simp: same_def)
  let ?sc = "bi_nHeight pindex \<ge> cx_TotalBlocksEstimate env"
  let ?cltv = "?sc \<and> bi_prev_hash pindex \<noteq> None \<and> cx_CLTVSuperMajority env"
  let ?acc = "\<lparr>a_nSigOps = 0, a_nFees = 0, a_nValueIn = 0, a_nValueOut = 0, a_vtxundo = []\<rparr>"
  obtain s2 acc s3 where *: "(if fEnforceBIP30 pindex then check_bip30 ops (vtx block) s1 else Inr s1) = Inr s2"
    "connect_txs ops env ?sc ?cltv (bi_nHeight pindex) True (vtx block) (?acc, s2) = Inr (acc, s3)"
    "cr_vtxundo r = a_vtxundo acc"
    "cr_view r = (if fJustCheck then s3 else SetBestBlock (case bi_hash pindex of None \<Rightarrow> 0 | Some x \<Rightarrow> x) s3)"
    "(case bi_prev_hash pindex of None \<Rightarrow> 0 | Some p \<Rightarrow> p) = h"
    using assms(2,6) h unfolding ConnectBlock_def finish_block_def
    by (auto simp: sbind_eq_Inr Let_def simp del: if_split split: if_split_asm)
  have s2: "same s s2" "fEnforceBIP30 pindex \<longrightarrow> (\<forall>tx \<in> set (vtx block). cache_utxo utxo s (GetHash tx) = None)"
    using *(1) check_bip30_spec [OF same_cinv [OF s1(1)]] same_trans [OF s1(1)] s1(1)
    by (auto simp: same_utxo [OF s1(1)] split: if_split_asm)
  obtain uss u where "u_connect (cache_utxo utxo s) (vtx block) (bi_nHeight pindex) = Some (uss, u)"
    "steps s2 u s3" "a_vtxundo acc = tl uss"
    using connect_txs_spec [OF same_cinv [OF s2(1)] *(2) assms(3-5)] by (auto simp: same_utxo [OF s2(1)])
  then show ?thesis using *(3-5) s1(2) s2 steps_trans [of s _ s2] by (auto simp: same_steps)
qed

end

section \<open>Disconnecting the block\<close>

definition stake_free :: "utxo_map \<Rightarrow> CTransaction \<Rightarrow> bool" where
  "stake_free u tx \<longleftrightarrow>
     (spends_inputs tx \<longrightarrow> (\<forall>i \<in> set (vin tx). \<forall>c. u (op_hash (prevout i)) = Some c \<longrightarrow> \<not> fCoinStake c))"

text \<open>The ids are new and no output of a coinstake is spent, at each transaction in turn.\<close>

fun undoable :: "utxo_map \<Rightarrow> CTransaction list \<Rightarrow> int \<Rightarrow> bool" where
  "undoable u [] h = True"
| "undoable u (tx # txs) h \<longleftrightarrow> u (GetHash tx) = None \<and> stake_free u tx \<and>
     (case u_update u tx h of None \<Rightarrow> True | Some (us, u') \<Rightarrow> undoable u' txs h)"

lemma u_spends_other:
  "u_spends u is = Some (us, u') \<Longrightarrow> t \<notin> (\<lambda>i. op_hash (prevout i)) ` set is \<Longrightarrow> u' t = u t"
proof (induction "is" arbitrary: u us)
  case (Cons i "is")
  obtain undo u1 us1 where *: "u_spend u (prevout i) = Some (undo, u1)" "u_spends u1 is = Some (us1, u')"
    using Cons.prems(1) by (auto split: option.splits)
  then have "u1 t = u t" using Cons.prems(2) by (auto simp: u_spend_def split: option.splits)
  then show ?case using Cons.IH [OF *(2)] Cons.prems(2) by simp
qed simp

lemma lose_id:
  assumes "u_update u tx h = Some (us, u1)" "u (GetHash tx) = None" "stake_free u tx"
  shows "lose u (u1(GetHash tx := None)) = u"
proof
  fix t
  obtain u2 where u2: "(if spends_inputs tx then u_spends u (vin tx) else Some ([], u)) = Some (us, u2)"
    "u1 = u2(GetHash tx := live (FromTx tx h))" using assms(1) by (auto simp: u_update_def)
  show "lose u (u1(GetHash tx := None)) t = u t"
  proof (cases "t = GetHash tx \<or> u2 t \<noteq> None \<or> u t = None")
    case True
    then show ?thesis using assms(2) by (auto simp: lose_def u2(2))
  next
    case False
    then obtain c where c: "u t = Some c" "u2 t = None" "t \<noteq> GetHash tx" by auto
    have "\<not> fCoinStake c"
    proof (cases "spends_inputs tx")
      case True
      then have "t \<in> (\<lambda>i. op_hash (prevout i)) ` set (vin tx)" using u_spends_other [of u "vin tx" us u2 t] u2(1) c by auto
      then show ?thesis using assms(3) True c(1) by (auto simp: stake_free_def)
    qed (use u2(1) c in auto)
    then show ?thesis using c by (simp add: lose_def u2(2))
  qed
qed

lemma u_update_ok:
  assumes "u_update u tx h = Some (us, u1)" "u_ok u" "tx_storable tx" "0 < h" "h < 2 ^ 31"
  shows "u_ok u1"
proof -
  obtain u2 where u2: "(if spends_inputs tx then u_spends u (vin tx) else Some ([], u)) = Some (us, u2)"
    "u1 = u2(GetHash tx := live (FromTx tx h))" using assms(1) by (auto simp: u_update_def)
  have "u_spends u is = Some (us, u2) \<Longrightarrow> u_ok u \<Longrightarrow> u_ok u2" for "is" us u
    by (induction "is" arbitrary: u us) (auto split: option.splits dest: u_spend_ok)
  then have "u_ok u2" using u2(1) assms(2) by (auto split: if_splits)
  moreover have "c_nHeight (FromTx tx h) = h" by (simp add: FromTx_def ClearUnspendable_def Cleanup_def)
  ultimately show ?thesis using FromTx_ok [OF assms(3)] assms(4,5) by (auto simp: u2(2) u_ok_def live_def)
qed

lemma disconnect_txs_append:
  "disconnect_txs ops h erase (xs @ ys) f m s =
     sbind (disconnect_txs ops h erase xs f m s) (\<lambda>(f', m', s'). disconnect_txs ops h erase ys f' m' s')"
proof (induction xs arbitrary: f m s)
  case (Cons x xs)
  then show ?case by (cases "disconnect_tx ops h x f m s") auto
qed simp

lemma u_connect_length: "u_connect u txs h = Some (uss, u') \<Longrightarrow> length uss = length txs"
  by (induction txs arbitrary: u uss) (auto split: option.splits)

lemma u_connect_first:
  "u_connect u txs h = Some (uss, u') \<Longrightarrow> txs \<noteq> [] \<Longrightarrow> \<not> spends_inputs (hd txs) \<Longrightarrow> uss = [] # tl uss"
  by (cases txs) (auto simp: u_update_def split: option.splits)

lemma SetBestBlock_simps [simp]:
  "cache_inv valid utxo known ok (SetBestBlock h s) = cache_inv valid utxo known ok s"
  "cache_utxo utxo (SetBestBlock h s) = cache_utxo utxo s"
  "h \<noteq> 0 \<Longrightarrow> cache_best best (SetBestBlock h s) = h"
  by (simp_all add: SetBestBlock_def cache_inv_def cache_best_def) (intro ext, simp add: cache_utxo_def cong: option.case_cong)

context utxo_view
begin

lemma disconnect_txs_spec:
  assumes "u_connect u txs h = Some (uss, u')" "u_ok u" "undoable u txs h" "list_all tx_storable txs"
    "0 < h" "h < 2 ^ 31" "cinv s" "cache_utxo utxo s = u'" "\<forall>tx \<in> set txs. erase tx"
  shows "\<exists>m' s'. disconnect_txs ops h erase (rev (zip txs uss)) f m s = Inr (f, m', s') \<and> steps s u s'"
  using assms(1-4,7-)
proof (induction txs arbitrary: u uss)
  case Nil
  then show ?case using steps_refl by auto
next
  case (Cons tx txs)
  obtain us u1 uss1 where 1: "u_update u tx h = Some (us, u1)" "u_connect u1 txs h = Some (uss1, u')" "uss = us # uss1"
    using Cons.prems(1) by (auto split: option.splits)
  have st: "tx_storable tx" "list_all tx_storable txs" "u (GetHash tx) = None" "stake_free u tx" "undoable u1 txs h"
    "erase tx" "\<forall>tx \<in> set txs. erase tx"
    using Cons.prems(3,4,7) 1(1) by auto
  have u1: "u_ok u1" using u_update_ok [OF 1(1) Cons.prems(2) st(1) assms(5,6)] .
  obtain m1 s1 where s1: "disconnect_txs ops h erase (rev (zip txs uss1)) f m s = Inr (f, m1, s1)" "steps s u1 s1"
    using Cons.IH [OF 1(2) u1 st(5,2) Cons.prems(5,6) st(7)] by blast
  have ver: "0 \<le> nVersion tx" using st(1) by (simp add: tx_storable_def)
  have c1: "cinv s1" "cache_utxo utxo s1 = u1" using s1(2) by (auto simp: steps_def)
  obtain m2 s2 where "disconnect_tx ops h (tx, us) f m1 s1 = Inr (f, m2, s2)" "steps s1 u s2"
    using disconnect_tx_spec [OF 1(1) Cons.prems(2) st(3) ver c1, of f m1] lose_id [OF 1(1) st(3,4)] by auto
  then show ?case using s1 st(6) steps_trans [OF s1(2)] by (simp add: 1(3) disconnect_txs_append)
qed

lemma DisconnectBlock_spec:
  assumes "u_connect u (xb_vtx b) (xb_nHeight b) = Some (uss, u')" "u_ok u" "undoable u (xb_vtx b) (xb_nHeight b)"
    "list_all tx_storable (xb_vtx b)" "0 < xb_nHeight b" "xb_nHeight b < 2 ^ 31" "cinv s" "cache_utxo utxo s = u'"
    "\<forall>tx \<in> set (xb_vtx b). xb_erase b tx" "xb_checkpoint b" "xb_undo b = Some (tl uss)" "xb_vtx b \<noteq> []"
    "\<not> spends_inputs (hd (xb_vtx b))" "cache_best best s = xb_hash b" "xb_prev b \<noteq> 0"
  shows "\<exists>m' s'. DisconnectBlock ops b m s = Inr (True, m', s') \<and> cinv s' \<and> cache_utxo utxo s' = u \<and>
    cache_best best s' = xb_prev b"
proof -
  obtain h s1 where h: "cache_GetBestBlock ops s = (h, s1)" by fastforce
  have s1: "same s s1" "h = xb_hash b" using cache_GetBestBlock_spec [OF assms(7) h] assms(14) by (auto simp: same_def)
  have u1: "cinv s1" "cache_utxo utxo s1 = u'" using s1(1) assms(8) by (auto simp: same_def)
  have uss: "uss = [] # tl uss" by (rule u_connect_first [OF assms(1,12,13)])
  have len: "length (tl uss) + 1 = length (xb_vtx b)" using u_connect_length [OF assms(1)] uss by (cases uss) auto
  obtain m' s2 where s2: "disconnect_txs ops (xb_nHeight b) (xb_erase b) (rev (zip (xb_vtx b) uss)) True m s1
      = Inr (True, m', s2)" "steps s1 u s2"
    using disconnect_txs_spec [OF assms(1-6) u1 assms(9)] by blast
  have "DisconnectBlock ops b m s = Inr (True, m', SetBestBlock (xb_prev b) s2)"
    using h s1(2) s2(1) len uss [symmetric] assms(10,11) by (simp add: DisconnectBlock_def)
  moreover have "cinv (SetBestBlock (xb_prev b) s2)" "cache_utxo utxo (SetBestBlock (xb_prev b) s2) = u"
    "cache_best best (SetBestBlock (xb_prev b) s2) = xb_prev b"
    using s2(2) assms(15) by (simp_all add: steps_def)
  ultimately show ?thesis by blast
qed

text \<open>A block connected and then disconnected with the undo data it wrote.\<close>

lemma connect_disconnect:
  assumes "cinv s" "ConnectBlock ops env block hash pindex False m s = Inr r" "u_ok (cache_utxo utxo s)"
    "list_all tx_storable (vtx block)" "undoable (cache_utxo utxo s) (vtx block) (bi_nHeight pindex)"
    "0 < bi_nHeight pindex" "bi_nHeight pindex < 2 ^ 31" "hash \<noteq> cx_HashGenesisBlock env"
    "bi_hash pindex = Some hash" "hash \<noteq> 0" "bi_prev_hash pindex = Some prev" "prev \<noteq> 0"
    "vtx block \<noteq> []" "\<not> spends_inputs (hd (vtx block))" "\<forall>tx \<in> set (vtx block). erase tx"
  shows "\<exists>m' s'. DisconnectBlock ops \<lparr>xb_hash = hash, xb_prev = prev, xb_nHeight = bi_nHeight pindex, xb_vtx = vtx block,
      xb_undo = Some (cr_vtxundo r), xb_erase = erase, xb_checkpoint = True\<rparr> (cr_stake r) (cr_view r) = Inr (True, m', s') \<and>
    cinv s' \<and> cache_utxo utxo s' = cache_utxo utxo s \<and> cache_best best s' = cache_best best s"
proof -
  obtain uss u s1 where *: "u_connect (cache_utxo utxo s) (vtx block) (bi_nHeight pindex) = Some (uss, u)"
    "cr_vtxundo r = tl uss" "steps s u s1" "cr_view r = SetBestBlock hash s1" "prev = cache_best best s"
    using ConnectBlock_spec [OF assms(1,2,4) _ assms(7,8)] assms(6,9,11) by auto
  let ?b = "\<lparr>xb_hash = hash, xb_prev = prev, xb_nHeight = bi_nHeight pindex, xb_vtx = vtx block,
      xb_undo = Some (cr_vtxundo r), xb_erase = erase, xb_checkpoint = True\<rparr>"
  have "cinv (cr_view r)" "cache_utxo utxo (cr_view r) = u" "cache_best best (cr_view r) = hash"
    using *(3,4) assms(10) by (simp_all add: steps_def)
  then show ?thesis
    using DisconnectBlock_spec [of "cache_utxo utxo s" ?b uss u "cr_view r" "cr_stake r"] * assms by auto
qed

end

section \<open>The node's view\<close>

interpretation dbc: utxo_view "db_ops raw_keys" "db_valid raw_keys" "db_utxo raw_keys" db_best "\<lambda>d t. True"
  by unfold_locales

interpretation tipc: utxo_view "cache_ops (db_ops raw_keys)"
  "cache_inv (db_valid raw_keys) (db_utxo raw_keys) (\<lambda>d t. True) coins_ok" "cache_utxo (db_utxo raw_keys)"
  "cache_best db_best" cache_known
  by unfold_locales

end
