(* ===== verification/NoDouble.thy ===== *)
theory NoDouble
  imports ConnectSpec
begin

text \<open>
  Spending on the map of unspent outputs: an output is spent at most once in an accepted block, and
  the assertion of \<^verbatim>\<open>UpdateCoins\<close> that an input can be spent holds after \<^verbatim>\<open>HaveInputs\<close>.
\<close>

definition unspent :: "utxo_map \<Rightarrow> COutPoint \<Rightarrow> bool" where
  "unspent u o1 \<longleftrightarrow> (\<exists>c. u (op_hash o1) = Some c \<and> out_used (c_vout c) (unat (op_n o1)))"

lemma outpoint_neq: "o1 \<noteq> o2 \<Longrightarrow> op_hash o1 = op_hash o2 \<Longrightarrow> unat (op_n o1) \<noteq> unat (op_n o2)"
  for o1 o2 :: COutPoint
  by (cases o1; cases o2) (auto simp: word_unat_eq_iff)

lemma out_used_update: "out_used (outs[n := CTxOut_Null]) m \<longleftrightarrow> m \<noteq> n \<and> out_used outs m"
  by (cases "m = n") (auto simp: out_used_def)

lemma u_spend_unspent:
  assumes "u_spend u o1 = Some (undo, u')"
  shows "unspent u o1" "unspent u' o2 \<longleftrightarrow> o2 \<noteq> o1 \<and> unspent u o2"
proof -
  obtain c c' where c: "u (op_hash o1) = Some c" "Spend c (unat (op_n o1)) = Some (c', undo)"
    "u' = u(op_hash o1 := live c')" using assms by (rule u_spend_cases)
  note sp = Spend_cases [OF c(2)]
  show "unspent u o1" using c(1) sp(1,2) by (auto simp: unspent_def out_used_def)
  have used: "out_used (c_vout c') m \<longleftrightarrow> m \<noteq> unat (op_n o1) \<and> out_used (c_vout c) m" for m
    by (simp add: sp(4) Cleanup_def out_used_update)
  show "unspent u' o2 \<longleftrightarrow> o2 \<noteq> o1 \<and> unspent u o2"
  proof (cases "op_hash o2 = op_hash o1")
    case True
    then have "unspent u' o2 \<longleftrightarrow> out_used (c_vout c') (unat (op_n o2))"
      by (auto simp: unspent_def c(3) live_def IsPruned_used)
    then show ?thesis using True c(1) used outpoint_neq [of o2 o1] by (auto simp: unspent_def)
  next
    case False
    then show ?thesis by (auto simp: unspent_def c(3))
  qed
qed

lemma u_spends_unspent:
  "u_spends u is = Some (us, u') \<Longrightarrow>
   distinct (map prevout is) \<and> (\<forall>i \<in> set is. unspent u (prevout i)) \<and>
   (\<forall>o2. unspent u' o2 \<longleftrightarrow> o2 \<notin> prevout ` set is \<and> unspent u o2)"
proof (induction "is" arbitrary: u us)
  case (Cons i "is")
  obtain undo u1 us1 where *: "u_spend u (prevout i) = Some (undo, u1)" "u_spends u1 is = Some (us1, u')"
    using Cons.prems by (auto split: option.splits)
  have u1: "unspent u1 o2 \<longleftrightarrow> o2 \<noteq> prevout i \<and> unspent u o2" for o2 by (rule u_spend_unspent(2) [OF *(1)])
  have IH: "distinct (map prevout is)" "\<forall>j \<in> set is. unspent u1 (prevout j)"
    "\<forall>o2. unspent u' o2 \<longleftrightarrow> o2 \<notin> prevout ` set is \<and> unspent u1 o2" using Cons.IH [OF *(2)] by blast+
  have "\<forall>j \<in> set is. prevout j \<noteq> prevout i \<and> unspent u (prevout j)" using IH(2) u1 by simp
  then show ?case using IH(1,3) u1 u_spend_unspent(1) [OF *(1)] by auto
qed simp

definition spent_by :: "CTransaction \<Rightarrow> COutPoint list" where
  "spent_by tx = (if spends_inputs tx then map prevout (vin tx) else [])"

lemma u_update_unspent:
  assumes "u_update u tx h = Some (us, u')" "u (GetHash tx) = None"
  shows "distinct (spent_by tx)" "o1 \<in> set (spent_by tx) \<Longrightarrow> unspent u o1"
    "op_hash o1 \<noteq> GetHash tx \<Longrightarrow> unspent u' o1 \<longleftrightarrow> o1 \<notin> set (spent_by tx) \<and> unspent u o1"
    "t \<noteq> GetHash tx \<Longrightarrow> u t = None \<Longrightarrow> u' t = None"
proof -
  obtain u2 where u2: "(if spends_inputs tx then u_spends u (vin tx) else Some ([], u)) = Some (us, u2)"
    "u' = u2(GetHash tx := live (FromTx tx h))" using assms(1) by (auto simp: u_update_def)
  have *: "distinct (spent_by tx) \<and> (\<forall>o1 \<in> set (spent_by tx). unspent u o1) \<and>
      (\<forall>o1. unspent u2 o1 \<longleftrightarrow> o1 \<notin> set (spent_by tx) \<and> unspent u o1) \<and> (\<forall>t. u t = None \<longrightarrow> u2 t = None)"
  proof (cases "spends_inputs tx")
    case True
    then show ?thesis using u_spends_unspent [of u "vin tx" us u2] u_spends_None [of u "vin tx" us u2] u2(1)
      by (auto simp: spent_by_def)
  qed (use u2(1) in \<open>auto simp: spent_by_def\<close>)
  then show "distinct (spent_by tx)" "o1 \<in> set (spent_by tx) \<Longrightarrow> unspent u o1" by auto
  show "op_hash o1 \<noteq> GetHash tx \<Longrightarrow> unspent u' o1 \<longleftrightarrow> o1 \<notin> set (spent_by tx) \<and> unspent u o1"
    using * by (auto simp: unspent_def u2(2))
  show "t \<noteq> GetHash tx \<Longrightarrow> u t = None \<Longrightarrow> u' t = None" using * by (simp add: u2(2))
qed

lemma u_connect_gone:
  "u_connect u txs h = Some (uss, u') \<Longrightarrow> \<not> unspent u o1 \<Longrightarrow> op_hash o1 \<notin> GetHash ` set txs \<Longrightarrow>
   \<forall>tx \<in> set txs. u (GetHash tx) = None \<Longrightarrow> distinct (map GetHash txs) \<Longrightarrow> o1 \<notin> set (concat (map spent_by txs))"
proof (induction txs arbitrary: u uss)
  case (Cons tx txs)
  obtain us u1 uss1 where 1: "u_update u tx h = Some (us, u1)" "u_connect u1 txs h = Some (uss1, u')"
    using Cons.prems(1) by (auto split: option.splits)
  have n: "u (GetHash tx) = None" "op_hash o1 \<noteq> GetHash tx" using Cons.prems(3,4) by auto
  note up = u_update_unspent [OF 1(1) n(1)]
  have "\<forall>tx' \<in> set txs. GetHash tx' \<noteq> GetHash tx" using Cons.prems(5) by (auto simp: image_iff)
  then have "\<forall>tx' \<in> set txs. u1 (GetHash tx') = None" using Cons.prems(4) up(4) by simp
  then show ?case using Cons.IH [OF 1(2)] up(2,3) [of o1] n(2) Cons.prems(2,3,5) by auto
qed simp

lemma u_connect_distinct:
  "u_connect u txs h = Some (uss, u') \<Longrightarrow> \<forall>tx \<in> set txs. u (GetHash tx) = None \<Longrightarrow>
   distinct (map GetHash txs) \<Longrightarrow> distinct (concat (map spent_by txs))"
proof (induction txs arbitrary: u uss)
  case (Cons tx txs)
  obtain us u1 uss1 where 1: "u_update u tx h = Some (us, u1)" "u_connect u1 txs h = Some (uss1, u')"
    using Cons.prems(1) by (auto split: option.splits)
  have n: "u (GetHash tx) = None" using Cons.prems(2) by auto
  note up = u_update_unspent [OF 1(1) n]
  have "\<forall>tx' \<in> set txs. GetHash tx' \<noteq> GetHash tx" using Cons.prems(3) by (auto simp: image_iff)
  then have fresh: "\<forall>tx' \<in> set txs. u1 (GetHash tx') = None" using Cons.prems(2) up(4) by simp
  have "o1 \<notin> set (concat (map spent_by txs))" if o1: "o1 \<in> set (spent_by tx)" for o1
  proof (rule u_connect_gone [OF 1(2)])
    have "unspent u o1" using up(2) o1 .
    then have h: "u (op_hash o1) \<noteq> None" by (auto simp: unspent_def)
    then have "op_hash o1 \<noteq> GetHash tx" using n by auto
    then show "\<not> unspent u1 o1" using up(3) o1 by simp
    show "op_hash o1 \<notin> GetHash ` set txs" using h Cons.prems(2) by auto
  qed (use fresh Cons.prems(3) in auto)
  then show ?case using Cons.IH [OF 1(2) fresh] Cons.prems(3) up(1) by auto
qed simp

text \<open>Available inputs that differ can all be spent.\<close>

lemma utxo_out_unspent: "utxo_out u o1 \<noteq> None \<Longrightarrow> unspent u o1"
  by (auto simp: utxo_out_def unspent_def IsAvailable_def out_used_def split: option.splits if_split_asm)

lemma u_spend_Some: "unspent u o1 \<Longrightarrow> \<exists>undo u'. u_spend u o1 = Some (undo, u')"
  by (auto simp: unspent_def u_spend_def Spend_def out_used_def Let_def)

lemma u_spends_Some:
  "distinct (map prevout is) \<Longrightarrow> \<forall>i \<in> set is. unspent u (prevout i) \<Longrightarrow> \<exists>us u'. u_spends u is = Some (us, u')"
proof (induction "is" arbitrary: u)
  case (Cons i "is")
  obtain undo u1 where u1: "u_spend u (prevout i) = Some (undo, u1)" using u_spend_Some [of u "prevout i"] Cons.prems(2) by auto
  have "\<forall>j \<in> set is. unspent u1 (prevout j)" using u_spend_unspent(2) [OF u1] Cons.prems by (auto simp: image_iff)
  then obtain us u' where "u_spends u1 is = Some (us, u')" using Cons.IH [of u1] Cons.prems(1) by auto
  then show ?case using u1 by simp
qed simp

text \<open>The undo records of a spend are ones the block file can hold.\<close>

lemma Spend_undo_ok:
  assumes "coins_ok c" "0 < c_nHeight c" "c_nHeight c < 2 ^ 30" "Spend c n = Some (c', undo)" shows "undo_ok undo"
proof -
  note sp = Spend_cases [OF assms(4)]
  have "coin_ok (c_vout c ! n)" using assms(1) sp(1,2) by (auto simp: coins_ok_def list_all_length)
  moreover have "nat (c_nHeight c mod 2 ^ 32) < 2 ^ 30" using assms(1,3) by (simp add: coins_ok_def)
  ultimately show ?thesis using assms(1,2) sp(6,7)
    by (cases "c_vout c' = []") (auto simp: undo_ok_def CTxInUndo_def coins_ok_def)
qed

definition low_heights :: "utxo_map \<Rightarrow> bool" where
  "low_heights u \<longleftrightarrow> (\<forall>t c. u t = Some c \<longrightarrow> c_nHeight c < 2 ^ 30)"

lemma u_spends_undo_ok:
  "u_spends u is = Some (us, u') \<Longrightarrow> u_ok u \<Longrightarrow> low_heights u \<Longrightarrow> list_all undo_ok us"
proof (induction "is" arbitrary: u us)
  case (Cons i "is")
  obtain undo u1 us1 where *: "u_spend u (prevout i) = Some (undo, u1)" "u_spends u1 is = Some (us1, u')" "us = undo # us1"
    using Cons.prems(1) by (auto split: option.splits)
  obtain c c' where c: "u (op_hash (prevout i)) = Some c" "Spend c (unat (op_n (prevout i))) = Some (c', undo)"
    "u1 = u(op_hash (prevout i) := live c')" using *(1) by (rule u_spend_cases)
  have h: "c_nHeight c' = c_nHeight c" using Spend_cases(4) [OF c(2)] by (simp add: Cleanup_def)
  have "undo_ok undo" using Spend_undo_ok [OF _ _ _ c(2)] c(1) Cons.prems(2,3) by (auto simp: u_ok_def low_heights_def)
  moreover have "low_heights u1" using Cons.prems(3) c(1,3) h by (auto simp: low_heights_def live_def)
  ultimately show ?case using Cons.IH [OF *(2) u_spend_ok [OF *(1) Cons.prems(2)]] *(3) by simp
qed simp

lemma u_update_undo_ok:
  assumes "u_update u tx h = Some (us, u')" "u_ok u" "low_heights u" shows "list_all undo_ok us"
  using assms u_spends_undo_ok by (auto simp: u_update_def split: if_splits)

context utxo_view
begin

lemma UpdateCoins_succeeds:
  assumes "cinv s" "HaveInputs ops tx s = (True, s')" "distinct (map prevout (vin tx))" "tx_storable tx"
    "0 \<le> h" "h < 2 ^ 31"
  shows "\<exists>us s''. UpdateCoins ops tx h s' = Some (us, s'') \<and> cinv s''"
proof -
  have s': "same s s'" "spends_inputs tx \<longrightarrow> (\<forall>i \<in> set (vin tx). unspent (cache_utxo utxo s') (prevout i))"
    using HaveInputs_spec [OF assms(1), of tx] assms(2) utxo_out_unspent
    by (auto simp: spends_inputs_def list_all_iff same_utxo)
  have "\<exists>us u. u_update (cache_utxo utxo s') tx h = Some (us, u)"
    using u_spends_Some [OF assms(3), of "cache_utxo utxo s'"] s'(2) by (auto simp: u_update_def)
  then show ?thesis using UpdateCoins_spec [OF same_cinv [OF s'(1)] assms(4-6)] by (auto simp: steps_def)
qed

lemma block_no_double_spend:
  assumes "cinv s" "ConnectBlock ops env block hash pindex fJustCheck m s = Inr r"
    "list_all tx_storable (vtx block)" "0 \<le> bi_nHeight pindex" "bi_nHeight pindex < 2 ^ 31"
    "hash \<noteq> cx_HashGenesisBlock env" "fEnforceBIP30 pindex" "distinct (map GetHash (vtx block))"
  shows "distinct (concat (map spent_by (vtx block)))"
  using ConnectBlock_spec [OF assms(1-6)] u_connect_distinct assms(7,8) by blast

end

end
