(* ===== verification/Node.thy ===== *)
theory Node
  imports NoDouble
begin

text \<open>
  The views of the node put together: the database (\<^verbatim>\<open>CCoinsViewDB\<close>), the cache over it
  (\<^verbatim>\<open>pcoinsTip\<close>) and the cache a block is connected in. What the locale \<open>utxo_view\<close> proves of any
  stack holds of this one, for every curve library that keeps the contract of the script encoding.
\<close>

context utxo_view
begin

text \<open>The outputs that passed the input checks.\<close>

lemma checked_outs:
  assumes "cinv s" "spends_inputs tx" "CheckInputs ops env tx True flags s = Inr s'"
  shows "cache_utxo utxo s' = cache_utxo utxo s \<and>
    (\<exists>outs. length outs = length (vin tx) \<and>
       (\<forall>j < length (vin tx). utxo_out (cache_utxo utxo s) (prevout (vin tx ! j)) = Some (outs ! j) \<and>
          0 \<le> nValue (outs ! j) \<and> nValue (outs ! j) \<le> ie_MaxMoneyOut env \<and>
          VerifyScript (scriptSig (vin tx ! j)) (scriptPubKey (outs ! j)) flags (ie_checker env tx j) = Some (Inr ())) \<and>
       (\<not> IsCoinStake tx \<longrightarrow> (\<exists>v. GetValueOut tx = Some v \<and> v \<le> sum_list (map nValue outs))))"
proof -
  have c: "same s s'" "inputs_checked env tx True flags s" using CheckInputs_spec [OF assms(1,3)] assms(2) by auto
  have "utxo_out (cache_utxo utxo s) (prevout i) = Some (in_out s i)" if "i \<in> set (vin tx)" for i
    using c(2) that by (auto simp: inputs_checked_def available_def in_out_def list_all_iff)
  then show ?thesis using c
    by (intro conjI exI [of _ "map (in_out s) (vin tx)"])
      (auto simp: same_utxo inputs_checked_def money_range_def script_check_def comp_def)
qed

end

definition node_ops :: "pubkey_ops \<Rightarrow> store cache view_ops" where
  "node_ops pk = cache_ops (db_ops pk)"

definition tip_inv :: "pubkey_ops \<Rightarrow> store cache \<Rightarrow> bool" where
  "tip_inv pk = cache_inv (db_valid pk) (db_utxo pk) (\<lambda>d t. True) coins_ok"

definition tip_utxo :: "pubkey_ops \<Rightarrow> store cache \<Rightarrow> utxo_map" where
  "tip_utxo pk = cache_utxo (db_utxo pk)"

definition node_inv :: "pubkey_ops \<Rightarrow> store cache cache \<Rightarrow> bool" where
  "node_inv pk = cache_inv (tip_inv pk) (tip_utxo pk) cache_known coins_ok"

definition node_utxo :: "pubkey_ops \<Rightarrow> store cache cache \<Rightarrow> utxo_map" where
  "node_utxo pk = cache_utxo (tip_utxo pk)"

definition node_best :: "store cache cache \<Rightarrow> uint256" where
  "node_best = cache_best (cache_best db_best)"

lemma tip_view: "pubkey_ops_ok pk \<Longrightarrow> coins_view (db_ops pk) (db_valid pk) (db_utxo pk) db_best (\<lambda>d t. True) coins_ok"
  by (rule db_view)

lemma node_view:
  "pubkey_ops_ok pk \<Longrightarrow> utxo_view (node_ops pk) (tip_inv pk) (tip_utxo pk) (cache_best db_best) cache_known"
  unfolding utxo_view_def node_ops_def tip_inv_def tip_utxo_def by (rule coins_view.cache_view [OF db_view])

text \<open>The state of a node whose database is empty.\<close>

definition empty_node :: "uint256 \<Rightarrow> store cache cache" where
  "empty_node h = \<lparr>c_base = \<lparr>c_base = (\<lambda>_. None), hasModifier = False, hashBlock = 0, cacheCoins = []\<rparr>,
     hasModifier = False, hashBlock = h, cacheCoins = []\<rparr>"

lemma empty_node_inv: "node_inv pk (empty_node h)"
  by (simp add: node_inv_def tip_inv_def empty_node_def cache_inv_def batch_ok_def db_valid_def)

lemma empty_node_utxo: "node_utxo pk (empty_node h) t = None"
  by (simp add: node_utxo_def tip_utxo_def empty_node_def cache_utxo_def db_utxo_def db_Read_def)

end
