(* ===== verification/Standard.thy ===== *)
theory Standard
  imports Compressor VerifyLemmas
begin

text \<open>
  Standard script templates, \<^verbatim>\<open>src/src/script/standard.h\<close>, \<^verbatim>\<open>standard.cpp\<close>, with the syntactic part of
  \<^verbatim>\<open>CPubKey\<close> (\<^verbatim>\<open>pubkey.h\<close>): the solver that matches a script against the templates, the
  destinations it extracts and the scripts made for destinations. A public key is its byte string;
  the invalid key is the empty one.
\<close>

section \<open>CPubKey\<close>

definition pubkey_GetLen :: "byte \<Rightarrow> nat" where
  "pubkey_GetLen chHeader =
     (if unat chHeader = 2 \<or> unat chHeader = 3 then 33
      else if unat chHeader = 4 \<or> unat chHeader = 6 \<or> unat chHeader = 7 then 65 else 0)"

definition CPubKey :: "bytes \<Rightarrow> bytes" where
  "CPubKey vch =
     (let len = (if vch = [] then 0 else pubkey_GetLen (hd vch))
      in if len \<noteq> 0 \<and> len = length vch then vch else [])"

definition pubkey_IsValid :: "bytes \<Rightarrow> bool" where "pubkey_IsValid pk \<longleftrightarrow> length pk > 0"
definition pubkey_IsCompressed :: "bytes \<Rightarrow> bool" where "pubkey_IsCompressed pk \<longleftrightarrow> length pk = 33"
definition pubkey_GetID :: "bytes \<Rightarrow> bytes" where "pubkey_GetID pk = Hash160 pk"

section \<open>Templates\<close>

datatype txnouttype =
    TX_NONSTANDARD | TX_PUBKEY | TX_PUBKEYHASH | TX_SCRIPTHASH | TX_MULTISIG | TX_NULL_DATA | TX_ZEROCOINMINT

definition GetTxnOutputType :: "txnouttype \<Rightarrow> string" where
  "GetTxnOutputType t =
     (case t of TX_NONSTANDARD \<Rightarrow> ''nonstandard'' | TX_PUBKEY \<Rightarrow> ''pubkey'' | TX_PUBKEYHASH \<Rightarrow> ''pubkeyhash''
      | TX_SCRIPTHASH \<Rightarrow> ''scripthash'' | TX_MULTISIG \<Rightarrow> ''multisig'' | TX_NULL_DATA \<Rightarrow> ''nulldata''
      | TX_ZEROCOINMINT \<Rightarrow> ''zerocoinmint'')"

definition mTemplates :: "(txnouttype \<times> script) list" where
  "mTemplates =
     [(TX_PUBKEY, [op_byte OP_PUBKEY, op_byte OP_CHECKSIG]),
      (TX_PUBKEYHASH, [op_byte OP_DUP, op_byte OP_HASH160, op_byte OP_PUBKEYHASH, op_byte OP_EQUALVERIFY,
                       op_byte OP_CHECKSIG]),
      (TX_MULTISIG, [op_byte OP_SMALLINTEGER, op_byte OP_PUBKEYS, op_byte OP_SMALLINTEGER,
                     op_byte OP_CHECKMULTISIG])]"

text \<open>The loop that collects the keys of a multisig script.\<close>

function keys_loop :: "valtype list \<Rightarrow> opcodetype \<Rightarrow> valtype \<Rightarrow> bytes \<Rightarrow>
    valtype list \<times> opcodetype \<times> valtype \<times> bytes" where
  "keys_loop vSolutions opcode1 vch1 pc1 =
     (if length vch1 \<ge> 33 \<and> length vch1 \<le> 65
      then (case GetOp2 pc1 of (ok, o', v', p') \<Rightarrow>
              if \<not> ok then (vSolutions @ [vch1], o', v', p')
              else keys_loop (vSolutions @ [vch1]) o' v' p')
      else (vSolutions, opcode1, vch1, pc1))"
  by pat_completeness auto
termination
  by (relation "measure (\<lambda>(_, _, _, pc). length pc)") (auto dest: GetOp2_ok_shrinks [OF sym])

declare keys_loop.simps [simp del]

text \<open>Comparing one operation: the solutions so far, or \<open>None\<close> when they do not match.\<close>

definition match_op :: "valtype list \<Rightarrow> opcodetype \<Rightarrow> valtype \<Rightarrow> opcodetype \<Rightarrow> valtype \<Rightarrow> valtype list option" where
  "match_op vSolutions opcode1 vch1 opcode2 vch2 =
     (if opcode2 = OP_PUBKEY
      then (if length vch1 < 33 \<or> length vch1 > 65 then None else Some (vSolutions @ [vch1]))
      else if opcode2 = OP_PUBKEYHASH
      then (if length vch1 \<noteq> 20 then None else Some (vSolutions @ [vch1]))
      else if opcode2 = OP_SMALLINTEGER
      then (if opcode1 = OP_0 \<or> (opcode1 \<ge> OP_1 \<and> opcode1 \<le> OP_16)
            then Some (vSolutions @ [[word_of_nat (the (DecodeOP_N opcode1))]]) else None)
      else if opcode1 \<noteq> opcode2 \<or> vch1 \<noteq> vch2 then None
      else Some vSolutions)"

text \<open>Matching a script against a template; \<open>None\<close> is the \<^verbatim>\<open>break\<close> out of the loop.\<close>

function match_loop :: "bytes \<Rightarrow> bytes \<Rightarrow> valtype list \<Rightarrow> valtype list option" where
  "match_loop pc1 pc2 vSolutions =
     (if pc1 = [] \<and> pc2 = [] then Some vSolutions
      else case GetOp2 pc1 of (ok1, opcode1, vch1, r1) \<Rightarrow>
        if \<not> ok1 then None
        else case GetOp2 pc2 of (ok2, opcode2, vch2, r2) \<Rightarrow>
          if \<not> ok2 then None
          else if opcode2 = OP_PUBKEYS
          then (case keys_loop vSolutions opcode1 vch1 r1 of (sols, o1, v1, p1) \<Rightarrow>
                case GetOp2 r2 of (ok, o2, v2, p2) \<Rightarrow>
                  if \<not> ok then None
                  else case match_op sols o1 v1 o2 v2 of None \<Rightarrow> None | Some s \<Rightarrow> match_loop p1 p2 s)
          else case match_op vSolutions opcode1 vch1 opcode2 vch2 of
                 None \<Rightarrow> None | Some s \<Rightarrow> match_loop r1 r2 s)"
  by pat_completeness auto
termination
  by (relation "measure (\<lambda>(_, pc2, _). length pc2)")
    (auto dest!: GetOp2_ok_shrinks [OF sym])

declare match_loop.simps [simp del]

text \<open>Scanning the templates: the result, the type and the solutions.\<close>

fun scan_templates :: "script \<Rightarrow> (txnouttype \<times> script) list \<Rightarrow> bool \<times> txnouttype \<times> valtype list" where
  "scan_templates script1 [] = (False, TX_NONSTANDARD, [])"
| "scan_templates script1 ((t, script2) # ts) =
     (case match_loop script1 script2 [] of
        None \<Rightarrow> scan_templates script1 ts
      | Some vSolutions \<Rightarrow>
          if t = TX_MULTISIG
          then let m = unat (hd vSolutions ! 0); n = unat (last vSolutions ! 0)
               in if m < 1 \<or> n < 1 \<or> m > n \<or> length vSolutions - 2 \<noteq> n
                  then (False, t, vSolutions) else (True, t, vSolutions)
          else (True, t, vSolutions))"

definition Solver :: "script \<Rightarrow> bool \<times> txnouttype \<times> valtype list" where
  "Solver script =
     (if IsPayToScriptHash script then (True, TX_SCRIPTHASH, [take 20 (drop 2 script)])
      else if IsZerocoinMint script
      then (if length script > 150 then (False, TX_ZEROCOINMINT, [])
            else (True, TX_ZEROCOINMINT, [drop 2 script]))
      else if length script \<ge> 1 \<and> unat (script ! 0) = OP_RETURN \<and> IsPushOnly (drop 1 script)
      then (True, TX_NULL_DATA, [])
      else scan_templates script mTemplates)"

definition ScriptSigArgsExpected :: "txnouttype \<Rightarrow> valtype list \<Rightarrow> int" where
  "ScriptSigArgsExpected t vSolutions =
     (case t of
        TX_NONSTANDARD \<Rightarrow> - 1 | TX_NULL_DATA \<Rightarrow> - 1 | TX_ZEROCOINMINT \<Rightarrow> - 1
      | TX_PUBKEY \<Rightarrow> 1 | TX_PUBKEYHASH \<Rightarrow> 2
      | TX_MULTISIG \<Rightarrow> (if length vSolutions < 1 \<or> length (vSolutions ! 0) < 1 then - 1
                        else uint (vSolutions ! 0 ! 0) + 1)
      | TX_SCRIPTHASH \<Rightarrow> 1)"

text \<open>\<^verbatim>\<open>-datacarrier\<close> and \<^verbatim>\<open>nMaxDatacarrierBytes\<close> are settings.\<close>

definition IsStandard :: "bool \<Rightarrow> nat \<Rightarrow> script \<Rightarrow> bool \<times> txnouttype" where
  "IsStandard datacarrier nMaxDatacarrierBytes script =
     (case Solver script of (ok, whichType, vSolutions) \<Rightarrow>
        if \<not> ok then (False, whichType)
        else if whichType = TX_MULTISIG
        then let m = unat (hd vSolutions ! 0); n = unat (last vSolutions ! 0)
             in if n < 1 \<or> n > 3 then (False, whichType)
                else if m < 1 \<or> m > n then (False, whichType)
                else (whichType \<noteq> TX_NONSTANDARD, whichType)
        else if whichType = TX_NULL_DATA \<and> (\<not> datacarrier \<or> length script > nMaxDatacarrierBytes)
        then (False, whichType)
        else (whichType \<noteq> TX_NONSTANDARD, whichType))"

section \<open>Destinations\<close>

datatype CTxDestination = CNoDestination | CKeyID bytes | CScriptID bytes

definition ExtractDestination :: "script \<Rightarrow> CTxDestination option" where
  "ExtractDestination script =
     (case Solver script of (ok, whichType, vSolutions) \<Rightarrow>
        if \<not> ok then None
        else if whichType = TX_PUBKEY
        then (let pubKey = CPubKey (vSolutions ! 0)
              in if \<not> pubkey_IsValid pubKey then None else Some (CKeyID (pubkey_GetID pubKey)))
        else if whichType = TX_PUBKEYHASH then Some (CKeyID (vSolutions ! 0))
        else if whichType = TX_SCRIPTHASH then Some (CScriptID (vSolutions ! 0))
        else None)"

definition ExtractDestinations :: "script \<Rightarrow> (txnouttype \<times> CTxDestination list \<times> nat) option" where
  "ExtractDestinations script =
     (case Solver script of (ok, t, vSolutions) \<Rightarrow>
        if \<not> ok then None
        else if t = TX_NULL_DATA then None
        else if t = TX_MULTISIG
        then (let nRequired = unat (hd vSolutions ! 0);
                  addrs = map (\<lambda>v. CKeyID (pubkey_GetID (CPubKey v)))
                    (filter (\<lambda>v. pubkey_IsValid (CPubKey v)) (butlast (tl vSolutions)))
              in if addrs = [] then None else Some (t, addrs, nRequired))
        else map_option (\<lambda>d. (t, [d], 1)) (ExtractDestination script))"

definition GetScriptForDestination :: "CTxDestination \<Rightarrow> script" where
  "GetScriptForDestination dest =
     (case dest of
        CNoDestination \<Rightarrow> []
      | CKeyID keyID \<Rightarrow> [op_byte OP_DUP, op_byte OP_HASH160] @ push_data keyID @
                         [op_byte OP_EQUALVERIFY, op_byte OP_CHECKSIG]
      | CScriptID scriptID \<Rightarrow> [op_byte OP_HASH160] @ push_data scriptID @ [op_byte OP_EQUAL])"

text \<open>\<open>None\<close> is the assertion of \<^verbatim>\<open>EncodeOP_N\<close>.\<close>

definition GetScriptForMultisig :: "int \<Rightarrow> bytes list \<Rightarrow> script option" where
  "GetScriptForMultisig nRequired keys =
     (case (EncodeOP_N nRequired, EncodeOP_N (int (length keys))) of
        (Some m, Some n) \<Rightarrow>
          Some ([op_byte m] @ concat (map push_data keys) @ [op_byte n, op_byte OP_CHECKMULTISIG])
      | _ \<Rightarrow> None)"

section \<open>Matching\<close>

lemma GetOp2_op: "OP_PUSHDATA4 < unat b \<Longrightarrow> GetOp2 (b # pc) = (True, unat b, [], pc)"
  by simp

lemma match_loop_Nil [simp]: "match_loop [] [] sols = Some sols"
  by (simp add: match_loop.simps)

lemma match_loop_end: "pc \<noteq> [] \<Longrightarrow> match_loop pc [] sols = None"
  by (simp add: match_loop.simps split: prod.splits)

lemma match_loop_step:
  assumes "OP_PUSHDATA4 < unat b" "unat b \<noteq> OP_PUBKEYS"
  shows "match_loop pc1 (b # pc2) sols =
    (case GetOp2 pc1 of (ok, o1, v1, r1) \<Rightarrow>
       if \<not> ok then None
       else case match_op sols o1 v1 (unat b) [] of None \<Rightarrow> None | Some s \<Rightarrow> match_loop r1 pc2 s)"
  using assms by (subst match_loop.simps) (auto split: prod.splits)

lemma match_loop_keys:
  assumes "OP_PUSHDATA4 < unat c"
  shows "match_loop pc1 (0xfb # c # pc2) sols =
    (case GetOp2 pc1 of (ok, o1, v1, r1) \<Rightarrow>
       if \<not> ok then None
       else case keys_loop sols o1 v1 r1 of (sols', o1', v1', p1) \<Rightarrow>
         case match_op sols' o1' v1' (unat c) [] of None \<Rightarrow> None | Some s \<Rightarrow> match_loop p1 pc2 s)"
  using assms by (subst match_loop.simps) (auto split: prod.splits)

lemma template_bytes [simp]:
  "op_byte OP_PUBKEY = 0xfe" "op_byte OP_CHECKSIG = 0xac" "op_byte OP_DUP = 0x76" "op_byte OP_HASH160 = 0xa9"
  "op_byte OP_PUBKEYHASH = 0xfd" "op_byte OP_EQUALVERIFY = 0x88" "op_byte OP_SMALLINTEGER = 0xfa"
  "op_byte OP_PUBKEYS = 0xfb" "op_byte OP_CHECKMULTISIG = 0xae" "op_byte OP_EQUAL = 0x87"
  by (simp_all add: op_byte_def)

lemma Solver_p2pkh:
  assumes "length h = 20" shows "Solver (p2pkh h) = (True, TX_PUBKEYHASH, [h])"
proof -
  have push: "GetOp2 (push_data h @ r) = (True, 20, h, r)" for r
    using assms by (simp add: push_data_def push_size_def Let_def)
  have "\<not> IsPayToScriptHash (p2pkh h)" "\<not> IsZerocoinMint (p2pkh h)"
    by (simp_all add: p2pkh_def IsPayToScriptHash_def IsZerocoinMint_def)
  then show ?thesis using assms
    by (simp add: Solver_def p2pkh_def mTemplates_def match_loop_step match_op_def push)
qed

lemma Solver_p2sh:
  assumes "length h = 20" shows "Solver (0xa9 # push_data h @ [0x87]) = (True, TX_SCRIPTHASH, [h])"
proof -
  have "IsPayToScriptHash (0xa9 # push_data h @ [0x87])"
    using assms by (auto simp: IsPayToScriptHash_iff push_data_def)
  then show ?thesis using assms by (simp add: Solver_def push_data_def)
qed

text \<open>The addresses a destination is written as read back as the destination.\<close>

lemma ExtractDestination_GetScript:
  "length h = 20 \<Longrightarrow> ExtractDestination (GetScriptForDestination (CKeyID h)) = Some (CKeyID h)"
  "length h = 20 \<Longrightarrow> ExtractDestination (GetScriptForDestination (CScriptID h)) = Some (CScriptID h)"
  using Solver_p2pkh [of h] Solver_p2sh [of h]
  by (simp_all add: ExtractDestination_def GetScriptForDestination_def p2pkh_def)

lemma keys_loop_keys:
  assumes "list_all (\<lambda>k. 33 \<le> length k \<and> length k \<le> 65) ks" "OP_PUSHDATA4 < unat b"
    "33 \<le> length k" "length k \<le> 65"
  shows "keys_loop sols o1 k (concat (map push_data ks) @ b # r) = (sols @ k # ks, unat b, [], r)"
  using assms
proof (induction ks arbitrary: sols o1 k)
  case Nil
  then show ?case by (simp add: keys_loop.simps [of _ _ k] GetOp2_op keys_loop.simps [of _ _ "[]"])
next
  case (Cons k' ks)
  then have "length k' < 2 ^ 32" by simp
  then obtain o2 where "GetOp2 (push_data k' @ concat (map push_data ks) @ b # r) =
      (True, o2, k', concat (map push_data ks) @ b # r)"
    using GetOp2_push_data by blast
  then show ?case using Cons by (simp add: keys_loop.simps [of _ _ k])
qed

lemma EncodeOP_N_small:
  "1 \<le> n \<Longrightarrow> n \<le> 16 \<Longrightarrow> EncodeOP_N (int n) = Some (80 + n) \<and> unat (op_byte (80 + n)) = 80 + n \<and>
     DecodeOP_N (80 + n) = Some n"
  by (auto simp: EncodeOP_N_def DecodeOP_N_def op_byte_def nat_add_distrib simp del: of_nat_add)

lemma Solver_multisig:
  assumes "1 \<le> m" "m \<le> length keys" "length keys \<le> 16"
    "list_all (\<lambda>k. 33 \<le> length k \<and> length k \<le> 65) keys"
  shows "\<exists>s. GetScriptForMultisig (int m) keys = Some s \<and>
    Solver s = (True, TX_MULTISIG, [word_of_nat m] # keys @ [[word_of_nat (length keys)]])"
proof -
  obtain k ks where ks: "keys = k # ks" using assms(1,2) by (cases keys) auto
  note em = EncodeOP_N_small [OF assms(1)] and en = EncodeOP_N_small [of "length keys"]
  define s where "s = [op_byte (80 + m)] @ concat (map push_data keys) @ [op_byte (80 + length keys), 0xae]"
  have e: "GetScriptForMultisig (int m) keys = Some s"
    using em en assms by (simp add: GetScriptForMultisig_def s_def)
  have b: "unat (op_byte (80 + m)) = 80 + m" "unat (op_byte (80 + length keys)) = 80 + length keys"
    using em en assms by auto
  have "length k < 2 ^ 32" using assms(4) ks by simp
  then obtain o1 where g: "GetOp2 (push_data k @ concat (map push_data ks) @ op_byte (80 + length keys) # [0xae]) =
      (True, o1, k, concat (map push_data ks) @ op_byte (80 + length keys) # [0xae])"
    using GetOp2_push_data by blast
  have kl: "keys_loop [[word_of_nat m]] o1 k (concat (map push_data ks) @ op_byte (80 + length keys) # [0xae])
      = ([[word_of_nat m]] @ k # ks, 80 + length keys, [], [0xae])"
    using keys_loop_keys [of ks "op_byte (80 + length keys)" k "[[word_of_nat m]]" o1 "[0xae]"] assms(4) ks b by simp
  have g1: "GetOp2 s = (True, 80 + m, [], push_data k @ concat (map push_data ks) @ op_byte (80 + length keys) # [0xae])"
    using b(1) assms(1) by (simp add: s_def ks)
  have "s ! 0 = op_byte (80 + m)" "s \<noteq> []" by (simp_all add: s_def)
  then have h: "unat (s ! 0) \<le> 96" using b(1) assms by simp
  have np: "\<not> IsPayToScriptHash s" "\<not> IsZerocoinMint s"
  proof -
    show "\<not> IsPayToScriptHash s" using h by (auto simp: IsPayToScriptHash_iff)
    show "\<not> IsZerocoinMint s" using h by (auto simp: IsZerocoinMint_def hd_conv_nth)
  qed
  have "scan_templates s mTemplates = (True, TX_MULTISIG, [word_of_nat m] # keys @ [[word_of_nat (length keys)]])"
  proof -
    have "keys \<noteq> []" by (simp add: ks)
    then show ?thesis using assms em en
      by (simp add: mTemplates_def match_loop_step match_loop_keys g1 g kl ks [symmetric] match_op_def Let_def)
  qed
  then have "Solver s = (True, TX_MULTISIG, [word_of_nat m] # keys @ [[word_of_nat (length keys)]])"
    using np h by (simp add: Solver_def)
  then show ?thesis using e by blast
qed

end
