(* ===== verification/Policy.thy ===== *)
theory Policy
  imports Standard UtxoLemmas
begin

text \<open>
  Relay policy, \<^verbatim>\<open>src/src/main.cpp\<close>: \<^verbatim>\<open>IsStandardTx\<close> and \<^verbatim>\<open>AreInputsStandard\<close>. The state of the node
  they read (the height and time, the command-line options, the relay fee) is a record of
  parameters. \<^verbatim>\<open>BaseSignatureChecker\<close> refuses every signature and lock time;
  its answer on low S values is never asked for without flags.
\<close>

record policy_env =
  pe_tipHeight :: int
  pe_adjustedTime :: int
  pe_datacarrier :: bool
  pe_nMaxDatacarrierBytes :: nat
  pe_fIsBareMultisigStd :: bool
  pe_minRelayTxFee :: CAmount

definition MAX_P2SH_SIGOPS :: nat where "MAX_P2SH_SIGOPS = 15"

definition BaseSignatureChecker :: sig_checker where
  "BaseSignatureChecker = \<lparr>ck_CheckSig = (\<lambda>s k c. False), ck_CheckLockTime = (\<lambda>n. False), ck_CheckLowS = (\<lambda>s. True)\<rparr>"

section \<open>IsStandardTx\<close>

fun check_standard_in :: "CTxIn list \<Rightarrow> string option" where
  "check_standard_in [] = None"
| "check_standard_in (txin # txins) =
     (if IsZerocoinSpend (scriptSig txin) then check_standard_in txins
      else if length (scriptSig txin) > 1650 then Some ''scriptsig-size''
      else if \<not> IsPushOnly (scriptSig txin) then Some ''scriptsig-not-pushonly''
      else check_standard_in txins)"

fun check_standard_out :: "policy_env \<Rightarrow> CTxOut list \<Rightarrow> nat \<Rightarrow> string + nat" where
  "check_standard_out env [] nDataOut = Inr nDataOut"
| "check_standard_out env (txout # txouts) nDataOut =
     (case IsStandard (pe_datacarrier env) (pe_nMaxDatacarrierBytes env) (scriptPubKey txout) of (ok, whichType) \<Rightarrow>
        if \<not> ok then Inl ''scriptpubkey''
        else if whichType = TX_NULL_DATA then check_standard_out env txouts (nDataOut + 1)
        else if whichType = TX_MULTISIG \<and> \<not> pe_fIsBareMultisigStd env then Inl ''bare-multisig''
        else if CTxOut_IsDust (pe_minRelayTxFee env) txout then Inl ''dust''
        else check_standard_out env txouts nDataOut)"

text \<open>\<open>Inl\<close> is the reason of the result false.\<close>

definition IsStandardTx :: "policy_env \<Rightarrow> CTransaction \<Rightarrow> string + unit" where
  "IsStandardTx env tx =
     (if nVersion tx > 1 \<or> nVersion tx < 1 then Inl ''version''
      else if \<not> IsFinalTx (pe_tipHeight env) (pe_adjustedTime env) tx (pe_tipHeight env + 1) 0 then Inl ''non-final''
      else if size_tx tx \<ge> (if ContainsZerocoins tx then MAX_ZEROCOIN_TX_SIZE else MAX_STANDARD_TX_SIZE)
      then Inl ''tx-size''
      else case check_standard_in (vin tx) of
        Some reason \<Rightarrow> Inl reason
      | None \<Rightarrow>
          sbind (check_standard_out env (vout tx) 0) (\<lambda>nDataOut.
          if nDataOut > 1 then Inl ''multi-op-return'' else Inr ()))"

section \<open>AreInputsStandard\<close>

text \<open>
  One input: \<open>Inl b\<close> when the function returns \<open>b\<close> there, \<open>Inr ()\<close> when it goes on. A redeem script
  that matches no template ends the function, with the inputs after it unread.
\<close>

definition standard_input :: "CTxIn \<Rightarrow> CTxOut \<Rightarrow> bool + unit" where
  "standard_input txin prev =
     (case Solver (scriptPubKey prev) of (solved, whichType, vSolutions) \<Rightarrow>
        if \<not> solved then Inl False
        else let nArgsExpected = ScriptSigArgsExpected whichType vSolutions
        in if nArgsExpected < 0 then Inl False
        else case EvalScript [] (scriptSig txin) 0 BaseSignatureChecker of
          Inl e \<Rightarrow> Inl False
        | Inr stack \<Rightarrow>
            if whichType = TX_SCRIPTHASH
            then (if stack = [] then Inl False
                  else let subscript = last stack
                  in case Solver subscript of (solved2, whichType2, vSolutions2) \<Rightarrow>
                    if solved2
                    then (let tmpExpected = ScriptSigArgsExpected whichType2 vSolutions2
                          in if tmpExpected < 0 then Inl False
                             else if int (length stack) \<noteq> nArgsExpected + tmpExpected then Inl False else Inr ())
                    else Inl (GetSigOpCount subscript True \<le> MAX_P2SH_SIGOPS))
            else if int (length stack) \<noteq> nArgsExpected then Inl False else Inr ())"

text \<open>\<open>None\<close> is the failed assertion that the output is there.\<close>

fun standard_inputs :: "'v view_ops \<Rightarrow> CTxIn list \<Rightarrow> 'v cache \<Rightarrow> (bool \<times> 'v cache) option" where
  "standard_inputs ops [] s = Some (True, s)"
| "standard_inputs ops (txin # txins) s =
     (case GetOutputFor ops txin s of
        None \<Rightarrow> None
      | Some (prev, s') \<Rightarrow>
          (case standard_input txin prev of
             Inl b \<Rightarrow> Some (b, s')
           | Inr u \<Rightarrow> standard_inputs ops txins s'))"

definition AreInputsStandard :: "'v view_ops \<Rightarrow> CTransaction \<Rightarrow> 'v cache \<Rightarrow> (bool \<times> 'v cache) option" where
  "AreInputsStandard ops tx s =
     (if IsCoinBase tx \<or> tx_IsZerocoinSpend tx then Some (True, s) else standard_inputs ops (vin tx) s)"

section \<open>What the policy lets through\<close>

lemma check_standard_in_None:
  "check_standard_in is = None \<longleftrightarrow>
   (\<forall>i \<in> set is. IsZerocoinSpend (scriptSig i) \<or> (length (scriptSig i) \<le> 1650 \<and> IsPushOnly (scriptSig i)))"
  by (induction "is") auto

text \<open>The relation between an accepted transaction and the templates.\<close>

definition standard_out :: "policy_env \<Rightarrow> CTxOut \<Rightarrow> bool" where
  "standard_out env t \<longleftrightarrow>
     (case IsStandard (pe_datacarrier env) (pe_nMaxDatacarrierBytes env) (scriptPubKey t) of (ok, w) \<Rightarrow>
        ok \<and> (w \<noteq> TX_NULL_DATA \<longrightarrow>
          (w = TX_MULTISIG \<longrightarrow> pe_fIsBareMultisigStd env) \<and> \<not> CTxOut_IsDust (pe_minRelayTxFee env) t))"

definition null_data_out :: "policy_env \<Rightarrow> CTxOut \<Rightarrow> bool" where
  "null_data_out env t \<longleftrightarrow> snd (IsStandard (pe_datacarrier env) (pe_nMaxDatacarrierBytes env) (scriptPubKey t)) = TX_NULL_DATA"

lemma check_standard_out_Inr:
  "check_standard_out env outs n = Inr k \<longleftrightarrow>
   list_all (standard_out env) outs \<and> k = n + length (filter (null_data_out env) outs)"
  by (induction outs arbitrary: n) (auto simp: standard_out_def null_data_out_def split: prod.splits)

text \<open>The transaction is accepted exactly when every part of it is standard.\<close>

lemma IsStandardTx_Inr:
  "IsStandardTx env tx = Inr () \<longleftrightarrow>
     nVersion tx = 1 \<and>
     IsFinalTx (pe_tipHeight env) (pe_adjustedTime env) tx (pe_tipHeight env + 1) 0 \<and>
     size_tx tx < (if ContainsZerocoins tx then 150000 else 100000) \<and>
     (\<forall>i \<in> set (vin tx). IsZerocoinSpend (scriptSig i) \<or> (length (scriptSig i) \<le> 1650 \<and> IsPushOnly (scriptSig i))) \<and>
     list_all (standard_out env) (vout tx) \<and> length (filter (null_data_out env) (vout tx)) \<le> 1"
  unfolding check_standard_in_None [symmetric]
  by (auto simp: IsStandardTx_def sbind_eq_Inr check_standard_out_Inr MAX_ZEROCOIN_TX_SIZE_def
      MAX_STANDARD_TX_SIZE_def split: option.split)

context coins_view
begin

lemma standard_inputs_same:
  assumes "cinv s" "standard_inputs ops is s = Some (b, s')" shows "same s s'"
  using assms
proof (induction "is" arbitrary: s)
  case Nil
  then show ?case using same_refl by auto
next
  case (Cons i "is")
  obtain s1 where s1: "same s s1" "GetOutputFor ops i s =
      map_option (\<lambda>txout. (txout, s1)) (utxo_out (cache_utxo utxo s) (prevout i))"
    using GetOutputFor_spec [OF Cons.prems(1)] by blast
  then show ?case using Cons.prems(2) Cons.IH [OF same_cinv [OF s1(1)]] same_trans [OF s1(1)]
    by (auto split: option.splits sum.splits)
qed

text \<open>Whatever follows an input with a non-template redeem script of few signature operations is
  accepted unread.\<close>

lemma standard_inputs_early:
  assumes "cinv s" "utxo_out (cache_utxo utxo s) (prevout i) = Some txout" "standard_input i txout = Inl True"
  shows "\<exists>s'. standard_inputs ops (i # is) s = Some (True, s') \<and> same s s'"
  using GetOutputFor_spec [OF assms(1), of i] assms(2,3) by auto

end

end
