(* ===== verification/Merkle.thy ===== *)
theory Merkle
  imports Block
begin

text \<open>
  The Merkle tree of a block against a reference: the root as repeated pairing of the level below.
  A branch of the tree leads from its leaf to the root, the flag reports a pair of equal hashes at
  the end of a level, and, hash collisions aside, lists of transactions that get the same root
  through trees of the same height are the same or one of them sets the flag.
\<close>

section \<open>The reference\<close>

fun pair_up :: "uint256 list \<Rightarrow> uint256 list" where
  "pair_up [] = []"
| "pair_up [a] = [hash_pair a a]"
| "pair_up (a # b # xs) = hash_pair a b # pair_up xs"

fun twin_end :: "uint256 list \<Rightarrow> bool" where
  "twin_end [a, b] = (a = b)"
| "twin_end (a # b # c # xs) = twin_end (c # xs)"
| "twin_end xs = False"

lemma length_pair_up [simp]: "length (pair_up xs) = (length xs + 1) div 2"
  by (induction xs rule: pair_up.induct) auto

function merkle_root :: "uint256 list \<Rightarrow> uint256" where
  "merkle_root xs = (if length xs \<le> 1 then (if xs = [] then 0 else hd xs) else merkle_root (pair_up xs))"
  by pat_completeness auto
termination by (relation "measure length") auto

function merkle_twin :: "uint256 list \<Rightarrow> bool" where
  "merkle_twin xs = (if length xs \<le> 1 then False else twin_end xs \<or> merkle_twin (pair_up xs))"
  by pat_completeness auto
termination by (relation "measure length") auto

declare merkle_root.simps [simp del] merkle_twin.simps [simp del]

lemma merkle_root_single [simp]: "merkle_root [x] = x" by (simp add: merkle_root.simps)

lemma merkle_twin_single [simp]: "\<not> merkle_twin [x]" by (simp add: merkle_twin.simps)

lemma pair_up_nth:
  "2 * i < length xs \<Longrightarrow> pair_up xs ! i = hash_pair (xs ! (2 * i)) (xs ! min (2 * i + 1) (length xs - 1))"
proof (induction xs arbitrary: i rule: pair_up.induct)
  case (3 a b xs)
  show ?case
  proof (cases i)
    case (Suc j)
    then have "2 * j < length xs" using 3(2) by simp
    then show ?thesis using 3(1) [of j] Suc
      by (cases "2 * j + 1 < length xs") (auto simp: min_def nth_Cons split: nat.split)
  qed simp
qed auto

section \<open>Building the tree\<close>

lemma merkle_level_pairs:
  assumes "length pre = j" "length lvl = n"
  shows "merkle_level j n i (pre @ lvl @ acc, m)
    = (pre @ lvl @ acc @ pair_up (drop i lvl), m \<or> twin_end (drop i lvl))"
proof (induction "n - i" arbitrary: i acc m rule: less_induct)
  case less
  have at: "(pre @ lvl @ acc) ! (j + k) = lvl ! k" if "k < n" for k
    using that assms by (simp add: nth_append)
  consider "n \<le> i" | "n = i + 1" | "i + 1 < n" by linarith
  then show ?case
  proof cases
    case 1
    then show ?thesis using assms by (simp add: merkle_level.simps [of j n i])
  next
    case 2
    then have "drop i lvl = [lvl ! i]" using assms by (simp add: Cons_nth_drop_Suc [symmetric])
    then show ?thesis using 2 at [of i]
      by (simp add: merkle_level.simps [of j "Suc i" i] merkle_level.simps [of j "Suc i" "Suc (Suc i)"] Let_def)
  next
    case 3
    then have d: "drop i lvl = lvl ! i # lvl ! (i + 1) # drop (i + 2) lvl"
      using assms by (simp add: Cons_nth_drop_Suc)
    define m' where "m' \<longleftrightarrow> (if i + 2 = n \<and> lvl ! i = lvl ! (i + 1) then True else m)"
    have "merkle_level j n i (pre @ lvl @ acc, m)
        = merkle_level j n (i + 2) (pre @ lvl @ (acc @ [hash_pair (lvl ! i) (lvl ! (i + 1))]), m')"
      using 3 at [of i] at [of "i + 1"]
      by (subst merkle_level.simps) (auto simp: Let_def m'_def min_def)
    also have "\<dots> = (pre @ lvl @ (acc @ [hash_pair (lvl ! i) (lvl ! (i + 1))]) @ pair_up (drop (i + 2) lvl),
        m' \<or> twin_end (drop (i + 2) lvl))" using 3 by (intro less) simp
    also have "(m' \<or> twin_end (drop (i + 2) lvl)) = (m \<or> twin_end (drop i lvl))"
    proof (cases "i + 2 = n")
      case True
      then show ?thesis using d assms by (auto simp: m'_def)
    next
      case False
      then obtain x xs where "drop (i + 2) lvl = x # xs" using 3 assms by (cases "drop (i + 2) lvl") auto
      then show ?thesis using d False by (simp add: m'_def)
    qed
    finally show ?thesis by (simp add: d)
  qed
qed

text \<open>The levels above a level, itself included.\<close>

function levels :: "uint256 list \<Rightarrow> uint256 list list" where
  "levels xs = (if length xs \<le> 1 then [xs] else xs # levels (pair_up xs))"
  by pat_completeness auto
termination by (relation "measure length") auto

declare levels.simps [simp del]

lemma levels_single [simp]: "levels [x] = [[x]]" by (simp add: levels.simps)

lemma merkle_levels_concat:
  "length pre = j \<Longrightarrow> length lvl = n \<Longrightarrow>
   merkle_levels j n (pre @ lvl, m) = (pre @ concat (levels lvl), m \<or> merkle_twin lvl)"
proof (induction lvl arbitrary: pre j n m rule: levels.induct)
  case (1 lvl)
  show ?case
  proof (cases "length lvl \<le> 1")
    case True
    then show ?thesis using 1
      by (simp add: merkle_levels.simps [of j n] levels.simps [of lvl] merkle_twin.simps [of lvl])
  next
    case False
    have "merkle_level j n 0 (pre @ lvl, m) = ((pre @ lvl) @ pair_up lvl, m \<or> twin_end lvl)"
      using merkle_level_pairs [OF 1(2,3), of 0 "[]" m] by simp
    then show ?thesis using 1(1) [OF False, of "pre @ lvl" "j + n" "(n + 1) div 2"] 1(2,3) False
      by (simp add: merkle_levels.simps [of j n] levels.simps [of lvl] merkle_twin.simps [of lvl])
  qed
qed

lemma concat_levels_last: "xs \<noteq> [] \<Longrightarrow> concat (levels xs) \<noteq> [] \<and> last (concat (levels xs)) = merkle_root xs"
proof (induction xs rule: levels.induct)
  case (1 xs)
  show ?case
  proof (cases "length xs \<le> 1")
    case True
    then obtain x where "xs = [x]" using 1 by (cases xs) auto
    then show ?thesis by (simp add: levels.simps [of xs] merkle_root.simps [of xs])
  next
    case False
    then have "pair_up xs \<noteq> []" by (cases xs rule: pair_up.cases) auto
    then show ?thesis using 1 False by (simp add: levels.simps [of xs] merkle_root.simps [of xs])
  qed
qed

lemma BuildMerkleTree_nodes_eq:
  "BuildMerkleTree_nodes txs = (concat (levels (map GetHash txs)), merkle_twin (map GetHash txs))"
  using merkle_levels_concat [of "[]" 0 "map GetHash txs" "length txs" False]
  by (simp add: BuildMerkleTree_nodes_def)

lemma BuildMerkleTree_root:
  "BuildMerkleTree b = (merkle_root (map GetHash (vtx b)), merkle_twin (map GetHash (vtx b)))"
  using concat_levels_last [of "map GetHash (vtx b)"]
  by (cases "vtx b = []")
    (auto simp: BuildMerkleTree_def BuildMerkleTree_nodes_eq levels.simps [of "[]"] merkle_root.simps [of "[]"])

section \<open>Branches\<close>

definition branch_fold :: "uint256 \<Rightarrow> nat \<Rightarrow> uint256 list \<Rightarrow> uint256" where
  "branch_fold h n branch =
     fst (foldl (\<lambda>(h, n) x. (if n mod 2 = 1 then hash_pair x h else hash_pair h x, n div 2)) (h, n) branch)"

lemma branch_fold_simps [simp]:
  "branch_fold h n [] = h"
  "branch_fold h n (x # xs) = branch_fold (if n mod 2 = 1 then hash_pair x h else hash_pair h x) (n div 2) xs"
  by (simp_all add: branch_fold_def)

lemma xor_1: "n XOR 1 = (if n mod 2 = 1 then n - 1 else n + 1)" for n :: nat
  using xor_Suc_0_eq [of n] by (auto simp: even_iff_mod_2_eq_zero)

lemma branch_loop_root:
  "i < length lvl \<Longrightarrow> length pre = j \<Longrightarrow> length lvl = n \<Longrightarrow>
   branch_fold (lvl ! i) i (branch_loop (pre @ concat (levels lvl)) j n i) = merkle_root lvl"
proof (induction lvl arbitrary: pre j n i rule: levels.induct)
  case (1 lvl)
  show ?case
  proof (cases "length lvl \<le> 1")
    case True
    then obtain x where "lvl = [x]" using 1(2) by (cases lvl) auto
    then show ?thesis using 1 by (simp add: branch_loop.simps [of _ j n] merkle_root.simps [of lvl])
  next
    case False
    let ?tree = "pre @ concat (levels lvl)" and ?k = "min (i XOR 1) (n - 1)"
    have t: "?tree = (pre @ lvl) @ concat (levels (pair_up lvl))" using False by (simp add: levels.simps [of lvl])
    have "?k < n" using 1(4) False by auto
    then have k: "?tree ! (j + ?k) = lvl ! ?k" using 1(3,4) by (simp add: t nth_append)
    have p: "(if i mod 2 = 1 then hash_pair (lvl ! ?k) (lvl ! i) else hash_pair (lvl ! i) (lvl ! ?k))
        = pair_up lvl ! (i div 2)"
    proof -
      have i2: "2 * (i div 2) < length lvl" using 1(2) by linarith
      show ?thesis
      proof (cases "i mod 2 = 1")
        case True
        then have "2 * (i div 2) = i - 1" "i - 1 + 1 = i" by presburger+
        moreover have "?k = i - 1" unfolding xor_1 using True 1(2,4) by simp
        moreover have "min i (n - 1) = i" using 1(2,4) by simp
        ultimately show ?thesis using pair_up_nth [OF i2] 1(4) True by simp
      next
        case False
        then have "2 * (i div 2) = i" by presburger
        moreover have "?k = min (i + 1) (n - 1)" unfolding xor_1 using False by simp
        ultimately show ?thesis using pair_up_nth [OF i2] 1(4) False by simp
      qed
    qed
    have "i div 2 < length (pair_up lvl)" using 1(2) unfolding length_pair_up by linarith
    moreover have b: "branch_loop ?tree j n i = lvl ! ?k # branch_loop ?tree (j + n) ((n + 1) div 2) (i div 2)"
      using 1(4) False k by (simp add: branch_loop.simps [of _ j n])
    have "branch_fold (lvl ! i) i (branch_loop ?tree j n i)
        = branch_fold (pair_up lvl ! (i div 2)) (i div 2) (branch_loop ?tree (j + n) ((n + 1) div 2) (i div 2))"
      unfolding b branch_fold_simps p ..
    ultimately show ?thesis
      using 1(1) [OF False, of "i div 2" "pre @ lvl" "j + n" "(n + 1) div 2"] 1(3,4) False
      by (simp add: t merkle_root.simps [of lvl])
  qed
qed

lemma CheckMerkleBranch_fold: "CheckMerkleBranch h branch (Some n) = branch_fold h n branch"
  by (simp add: CheckMerkleBranch_def branch_fold_def)

lemma CheckMerkleBranch_GetMerkleBranch:
  assumes "i < length (vtx b)"
  shows "CheckMerkleBranch (GetHash (vtx b ! i)) (GetMerkleBranch b i) (Some i) = fst (BuildMerkleTree b)"
  using branch_loop_root [of i "map GetHash (vtx b)" "[]" 0 "length (vtx b)"] assms
  by (simp add: CheckMerkleBranch_fold GetMerkleBranch_def BuildMerkleTree_nodes_eq BuildMerkleTree_root)

section \<open>One root, one list of transactions\<close>

fun level_pairs :: "uint256 list \<Rightarrow> (uint256 \<times> uint256) set" where
  "level_pairs [] = {}"
| "level_pairs [a] = {(a, a)}"
| "level_pairs (a # b # xs) = insert (a, b) (level_pairs xs)"

text \<open>What is hashed to compute the root.\<close>

function merkle_pairs :: "uint256 list \<Rightarrow> (uint256 \<times> uint256) set" where
  "merkle_pairs xs = (if length xs \<le> 1 then {} else level_pairs xs \<union> merkle_pairs (pair_up xs))"
  by pat_completeness auto
termination by (relation "measure length") auto

declare merkle_pairs.simps [simp del]

lemma pair_up_inj:
  assumes "pair_up xs = pair_up ys" "inj_on (case_prod hash_pair) (level_pairs xs \<union> level_pairs ys)"
    "\<not> twin_end xs" "\<not> twin_end ys"
  shows "xs = ys"
  using assms
proof (induction xs arbitrary: ys rule: pair_up.induct)
  case 1
  then show ?case by (cases ys rule: pair_up.cases) auto
next
  case (2 a)
  show ?case
  proof (cases ys rule: pair_up.cases)
    case (2 c)
    then show ?thesis using "2.prems" by (auto dest: inj_onD [of _ _ "(a, a)" "(c, c)"])
  next
    case (3 c d zs)
    then have "zs = []" using "2.prems"(1) by (cases zs rule: pair_up.cases) auto
    then show ?thesis using "2.prems" 3 by (auto dest: inj_onD [of _ _ "(a, a)" "(c, d)"])
  qed (use "2.prems" in auto)
next
  case (3 a b xs)
  show ?case
  proof (cases ys rule: pair_up.cases)
    case (2 c)
    then have "xs = []" using "3.prems"(1) by (cases xs rule: pair_up.cases) auto
    then show ?thesis using "3.prems" 2 by (auto dest: inj_onD [of _ _ "(a, b)" "(c, c)"])
  next
    case (3 c d zs)
    have "(a, b) = (c, d)" using "3.prems"(1,2) 3 by (intro inj_onD [OF "3.prems"(2)]) auto
    moreover have "inj_on (case_prod hash_pair) (level_pairs xs \<union> level_pairs zs)"
      using "3.prems"(2) 3 by (elim inj_on_subset) auto
    moreover have "\<not> twin_end xs" "\<not> twin_end zs" using "3.prems"(3,4) 3 by (cases xs; cases zs; auto)+
    ultimately show ?thesis using "3.IH" [of zs] "3.prems"(1) 3 by simp
  qed (use "3.prems" in auto)
qed

lemma levels_not_Nil [simp]: "levels xs \<noteq> []"
  by (subst levels.simps) simp

lemma merkle_root_inj:
  assumes "merkle_root xs = merkle_root ys" "length (levels xs) = length (levels ys)" "xs \<noteq> []" "ys \<noteq> []"
    "inj_on (case_prod hash_pair) (merkle_pairs xs \<union> merkle_pairs ys)" "\<not> merkle_twin xs" "\<not> merkle_twin ys"
  shows "xs = ys"
  using assms
proof (induction xs arbitrary: ys rule: levels.induct)
  case (1 xs)
  show ?case
  proof (cases "length xs \<le> 1")
    case True
    then obtain x where x: "xs = [x]" using 1(4) by (cases xs) auto
    have "length ys \<le> 1"
    proof (rule ccontr)
      assume "\<not> length ys \<le> 1"
      then have "length (levels ys) > 1" by (simp add: levels.simps [of ys])
      then show False using 1(3) x by simp
    qed
    then obtain y where "ys = [y]" using 1(5) by (cases ys) auto
    then show ?thesis using 1(2) x by simp
  next
    case False
    have y: "\<not> length ys \<le> 1"
    proof
      assume "length ys \<le> 1"
      then have "length (levels ys) = 1" by (simp add: levels.simps [of ys])
      moreover have "length (levels xs) > 1" using False by (simp add: levels.simps [of xs])
      ultimately show False using 1(3) by simp
    qed
    have inj: "inj_on (case_prod hash_pair) (merkle_pairs (pair_up xs) \<union> merkle_pairs (pair_up ys))"
      "inj_on (case_prod hash_pair) (level_pairs xs \<union> level_pairs ys)"
      using 1(6) False y by (auto simp: merkle_pairs.simps [of xs] merkle_pairs.simps [of ys] elim: inj_on_subset)
    have "pair_up xs \<noteq> []" "pair_up ys \<noteq> []"
      using False y by (cases xs rule: pair_up.cases; cases ys rule: pair_up.cases; auto)+
    moreover have "merkle_root (pair_up xs) = merkle_root (pair_up ys)"
      using 1(2) False y by (simp add: merkle_root.simps [of xs] merkle_root.simps [of ys])
    moreover have "length (levels (pair_up xs)) = length (levels (pair_up ys))"
      using 1(3) False y by (simp add: levels.simps [of xs] levels.simps [of ys])
    moreover have tw: "\<not> merkle_twin (pair_up xs)" "\<not> twin_end xs"
      using 1(7) False by (simp_all add: merkle_twin.simps [of xs])
    moreover have tw': "\<not> merkle_twin (pair_up ys)" "\<not> twin_end ys"
      using 1(8) y by (simp_all add: merkle_twin.simps [of ys])
    ultimately have "pair_up xs = pair_up ys" using inj(1) by (intro 1(1) [OF False])
    then show ?thesis using inj(2) tw(2) tw'(2) by (rule pair_up_inj)
  qed
qed

end
