(* ===== verification/PartialMerkle.thy ===== *)
theory PartialMerkle
  imports Merkle
begin

text \<open>
  Partial Merkle trees, \<^verbatim>\<open>src/src/merkleblock.h\<close> and \<^verbatim>\<open>merkleblock.cpp\<close>: built from the transaction
  ids of a block and a selection of them, serialised, and taken apart by a peer that learns the
  selected ids and the root. Widths are computed without the wrap of \<^verbatim>\<open>unsigned int\<close>, which the limit
  on the number of transactions rules out; the traversals are recursive on the height. A 0 hash
  of \<^verbatim>\<open>ExtractMatches\<close> is a failure.
\<close>

record CPartialMerkleTree =
  nTransactions :: nat
  vBits :: "bool list"
  vHash :: "uint256 list"
  fBad :: bool

definition CalcTreeWidth :: "nat \<Rightarrow> nat \<Rightarrow> nat" where
  "CalcTreeWidth n height = (n + 2 ^ height - 1) div 2 ^ height"

fun CalcHash :: "nat \<Rightarrow> nat \<Rightarrow> nat \<Rightarrow> uint256 list \<Rightarrow> uint256" where
  "CalcHash n 0 pos vTxid = vTxid ! pos"
| "CalcHash n (Suc height) pos vTxid =
     (let left = CalcHash n height (pos * 2) vTxid;
          right = (if pos * 2 + 1 < CalcTreeWidth n height then CalcHash n height (pos * 2 + 1) vTxid else left)
      in hash_pair left right)"

definition parent_of_match :: "nat \<Rightarrow> nat \<Rightarrow> nat \<Rightarrow> bool list \<Rightarrow> bool" where
  "parent_of_match n height pos vMatch =
     list_ex (\<lambda>p. vMatch ! p) [pos * 2 ^ height..<min ((pos + 1) * 2 ^ height) n]"

text \<open>The bits and hashes pushed so far are threaded through.\<close>

fun TraverseAndBuild :: "nat \<Rightarrow> nat \<Rightarrow> nat \<Rightarrow> uint256 list \<Rightarrow> bool list \<Rightarrow> bool list \<times> uint256 list \<Rightarrow>
    bool list \<times> uint256 list" where
  "TraverseAndBuild n 0 pos vTxid vMatch (bits, hashes) =
     (bits @ [parent_of_match n 0 pos vMatch], hashes @ [CalcHash n 0 pos vTxid])"
| "TraverseAndBuild n (Suc height) pos vTxid vMatch (bits, hashes) =
     (let fParentOfMatch = parent_of_match n (Suc height) pos vMatch; bits' = bits @ [fParentOfMatch]
      in if \<not> fParentOfMatch then (bits', hashes @ [CalcHash n (Suc height) pos vTxid])
         else let st = TraverseAndBuild n height (pos * 2) vTxid vMatch (bits', hashes)
              in if pos * 2 + 1 < CalcTreeWidth n height
                 then TraverseAndBuild n height (pos * 2 + 1) vTxid vMatch st else st)"

text \<open>The bits and hashes used, the matches and the failure flag.\<close>

record extract_state =
  nBitsUsed :: nat
  nHashUsed :: nat
  xMatch :: "uint256 list"
  xBad :: bool

definition use_hash :: "CPartialMerkleTree \<Rightarrow> bool \<Rightarrow> extract_state \<Rightarrow> uint256 \<times> extract_state" where
  "use_hash t matched st =
     (if nHashUsed st \<ge> length (vHash t) then (0, st\<lparr>xBad := True\<rparr>)
      else let hash = vHash t ! nHashUsed st; st' = st\<lparr>nHashUsed := nHashUsed st + 1\<rparr>
           in (hash, if matched then st'\<lparr>xMatch := xMatch st' @ [hash]\<rparr> else st'))"

fun TraverseAndExtract :: "CPartialMerkleTree \<Rightarrow> nat \<Rightarrow> nat \<Rightarrow> extract_state \<Rightarrow> uint256 \<times> extract_state" where
  "TraverseAndExtract t 0 pos st =
     (if nBitsUsed st \<ge> length (vBits t) then (0, st\<lparr>xBad := True\<rparr>)
      else let fParentOfMatch = vBits t ! nBitsUsed st
           in use_hash t fParentOfMatch (st\<lparr>nBitsUsed := nBitsUsed st + 1\<rparr>))"
| "TraverseAndExtract t (Suc height) pos st =
     (if nBitsUsed st \<ge> length (vBits t) then (0, st\<lparr>xBad := True\<rparr>)
      else let fParentOfMatch = vBits t ! nBitsUsed st; st1 = st\<lparr>nBitsUsed := nBitsUsed st + 1\<rparr>
           in if \<not> fParentOfMatch then use_hash t False st1
              else case TraverseAndExtract t height (pos * 2) st1 of (left, st2) \<Rightarrow>
                (case (if pos * 2 + 1 < CalcTreeWidth (nTransactions t) height
                       then TraverseAndExtract t height (pos * 2 + 1) st2 else (left, st2)) of
                   (right, st3) \<Rightarrow> (hash_pair left right, st3)))"

lemma width_gt_1: "CalcTreeWidth n h > 1 \<longleftrightarrow> 2 ^ h < n"
proof -
  have "CalcTreeWidth n h > 1 \<longleftrightarrow> 2 \<le> (n + 2 ^ h - 1) div 2 ^ h" by (auto simp: CalcTreeWidth_def)
  also have "\<dots> \<longleftrightarrow> 2 * 2 ^ h \<le> n + 2 ^ h - 1" by (simp add: less_eq_div_iff_mult_less_eq)
  also have "\<dots> \<longleftrightarrow> 2 ^ h < n"
  proof -
    have "(1::nat) \<le> 2 ^ h" by simp
    then show ?thesis by linarith
  qed
  finally show ?thesis .
qed

function height_loop :: "nat \<Rightarrow> nat \<Rightarrow> nat" where
  "height_loop n nHeight = (if CalcTreeWidth n nHeight > 1 then height_loop n (nHeight + 1) else nHeight)"
  by pat_completeness auto
termination
proof (relation "measure (\<lambda>(n, h). n - h)")
  fix n h assume "1 < CalcTreeWidth n h"
  then have "2 ^ h < n" by (simp only: width_gt_1)
  then have "h < n" using less_exp [of h] by linarith
  then show "((n, h + 1), n, h) \<in> measure (\<lambda>(n, h). n - h)" by simp
qed simp

declare height_loop.simps [simp del]

definition new_CPartialMerkleTree :: "uint256 list \<Rightarrow> bool list \<Rightarrow> CPartialMerkleTree" where
  "new_CPartialMerkleTree vTxid vMatch =
     (case TraverseAndBuild (length vTxid) (height_loop (length vTxid) 0) 0 vTxid vMatch ([], []) of (bits, hashes) \<Rightarrow>
        \<lparr>nTransactions = length vTxid, vBits = bits, vHash = hashes, fBad = False\<rparr>)"

definition CPartialMerkleTree_empty :: CPartialMerkleTree where
  "CPartialMerkleTree_empty = \<lparr>nTransactions = 0, vBits = [], vHash = [], fBad = True\<rparr>"

text \<open>The root and the matches; \<^verbatim>\<open>vMatch\<close> keeps what was found before a failure.\<close>

definition ExtractMatches :: "CPartialMerkleTree \<Rightarrow> uint256 \<times> uint256 list" where
  "ExtractMatches t =
     (if nTransactions t = 0 then (0, [])
      else if nTransactions t > MAX_BLOCK_SIZE_CURRENT div 60 then (0, [])
      else if length (vHash t) > nTransactions t then (0, [])
      else if length (vBits t) < length (vHash t) then (0, [])
      else case TraverseAndExtract t (height_loop (nTransactions t) 0) 0
                  \<lparr>nBitsUsed = 0, nHashUsed = 0, xMatch = [], xBad = fBad t\<rparr> of
             (r, st) \<Rightarrow>
               if xBad st then (0, xMatch st)
               else if (nBitsUsed st + 7) div 8 \<noteq> (length (vBits t) + 7) div 8 then (0, xMatch st)
               else if nHashUsed st \<noteq> length (vHash t) then (0, xMatch st)
               else (r, xMatch st))"

section \<open>Encoding\<close>

text \<open>Bit \<open>p\<close> of the flags is bit \<open>p mod 8\<close> of byte \<open>p div 8\<close>.\<close>

definition pack_byte :: "bool list \<Rightarrow> nat \<Rightarrow> byte" where
  "pack_byte bits b =
     foldl (\<lambda>w i. if b * 8 + i < length bits \<and> bits ! (b * 8 + i) then w OR push_bit i 1 else w) 0 [0..<8]"

definition pack_bits :: "bool list \<Rightarrow> bytes" where
  "pack_bits bits = map (pack_byte bits) [0..<(length bits + 7) div 8]"

definition unpack_bits :: "bytes \<Rightarrow> bool list" where
  "unpack_bits bs = map (\<lambda>p. bs ! (p div 8) AND push_bit (p mod 8) 1 \<noteq> 0) [0..<length bs * 8]"

definition ser_pmt :: "CPartialMerkleTree \<Rightarrow> bytes" where
  "ser_pmt t = ser_u32 (word_of_nat (nTransactions t)) @ ser_vector ser_hash (vHash t) @
     ser_bytes (pack_bits (vBits t))"

definition unser_pmt :: "CPartialMerkleTree reader" where
  "unser_pmt =
     rbind unser_u32 (\<lambda>n. rbind (unser_vector unser_hash) (\<lambda>hs. rbind unser_bytes (\<lambda>bs.
     rret \<lparr>nTransactions = unat n, vBits = unpack_bits bs, vHash = hs, fBad = False\<rparr>)))"

section \<open>Levels of the tree\<close>

lemma width_0 [simp]: "CalcTreeWidth n 0 = n"
  by (simp add: CalcTreeWidth_def)

lemma width_Suc: "CalcTreeWidth n (Suc h) = (CalcTreeWidth n h + 1) div 2"
proof -
  have p: "(1::nat) \<le> 2 ^ h" by simp
  have "CalcTreeWidth n h + 1 = (n + 2 ^ h - 1 + 2 ^ h) div 2 ^ h"
    by (simp add: CalcTreeWidth_def)
  also have "n + 2 ^ h - 1 + 2 ^ h = n + 2 * 2 ^ h - 1" using p by linarith
  finally show ?thesis by (simp add: CalcTreeWidth_def div_mult2_eq [symmetric] mult.commute)
qed

lemma length_level: "length ((pair_up ^^ h) xs) = CalcTreeWidth (length xs) h"
  by (induction h) (simp_all add: width_Suc)

lemma CalcHash_level:
  "length v = n \<Longrightarrow> pos < CalcTreeWidth n h \<Longrightarrow> CalcHash n h pos v = (pair_up ^^ h) v ! pos"
proof (induction h arbitrary: pos)
  case (Suc h)
  let ?l = "(pair_up ^^ h) v"
  have len: "length ?l = CalcTreeWidth n h" using Suc.prems(1) length_level by blast
  have pos: "2 * pos < CalcTreeWidth n h" using Suc.prems(2) by (simp add: width_Suc)
  show ?case
  proof (cases "pos * 2 + 1 < CalcTreeWidth n h")
    case True
    then show ?thesis using Suc.IH [of "pos * 2"] Suc.IH [of "pos * 2 + 1"] Suc.prems(1) pos pair_up_nth [of pos ?l] len
      by (simp add: Let_def mult.commute min_absorb1)
  next
    case False
    then have "CalcTreeWidth n h - 1 = 2 * pos" using pos by simp
    then show ?thesis using Suc.IH [of "pos * 2"] False Suc.prems(1) pos pair_up_nth [of pos ?l] len
      by (simp add: Let_def mult.commute)
  qed
qed simp

lemma height_loop_width: "CalcTreeWidth n (height_loop n h) \<le> 1"
  by (induction n h rule: height_loop.induct) (subst height_loop.simps, simp)

lemma height_loop_least: "h \<le> k \<Longrightarrow> k < height_loop n h \<Longrightarrow> 1 < CalcTreeWidth n k"
proof (induction n h rule: height_loop.induct)
  case (1 n h)
  have "1 < CalcTreeWidth n h"
  proof (rule ccontr)
    assume "\<not> 1 < CalcTreeWidth n h"
    then have "height_loop n h = h" by (subst height_loop.simps) simp
    then show False using 1 by simp
  qed
  then show ?case using 1 height_loop.simps [of n h] by (cases "h = k") simp_all
qed

lemma width_pos: "0 < n \<Longrightarrow> 0 < CalcTreeWidth n h"
  by (simp add: CalcTreeWidth_def div_greater_zero_iff)

lemma merkle_root_level:
  "(\<And>k. k < h \<Longrightarrow> 1 < length ((pair_up ^^ k) xs)) \<Longrightarrow> length ((pair_up ^^ h) xs) = 1 \<Longrightarrow>
   merkle_root xs = (pair_up ^^ h) xs ! 0"
proof (induction h arbitrary: xs)
  case 0
  then obtain x where "xs = [x]" by (cases xs) auto
  then show ?case by simp
next
  case (Suc h)
  have "1 < length xs" using Suc.prems(1) [of 0] by simp
  moreover have "1 < length ((pair_up ^^ k) (pair_up xs))" if "k < h" for k
    using Suc.prems(1) [of "Suc k"] that by (simp add: funpow_swap1)
  ultimately show ?case using Suc.IH [of "pair_up xs"] Suc.prems(2)
    by (simp add: merkle_root.simps [of xs] funpow_swap1)
qed

lemma CalcHash_root:
  assumes "v \<noteq> []" shows "CalcHash (length v) (height_loop (length v) 0) 0 v = merkle_root v"
proof -
  let ?h = "height_loop (length v) 0"
  have "CalcTreeWidth (length v) ?h = 1"
    using height_loop_width [of "length v" 0] width_pos [of "length v" ?h] assms by simp
  then show ?thesis
    using merkle_root_level [of ?h v] height_loop_least [of 0 _ "length v"] CalcHash_level [of v "length v" 0 ?h]
    by (simp add: length_level)
qed

section \<open>What is built is extracted\<close>

lemma width_iff: "pos < CalcTreeWidth n h \<longleftrightarrow> pos * 2 ^ h < n"
proof -
  have "pos < CalcTreeWidth n h \<longleftrightarrow> Suc pos \<le> (n + 2 ^ h - 1) div 2 ^ h" by (auto simp: CalcTreeWidth_def)
  also have "\<dots> \<longleftrightarrow> Suc pos * 2 ^ h \<le> n + 2 ^ h - 1" by (simp add: less_eq_div_iff_mult_less_eq)
  also have "\<dots> \<longleftrightarrow> pos * 2 ^ h < n"
  proof -
    have "(1::nat) \<le> 2 ^ h" by simp
    then show ?thesis by (simp only: mult_Suc) linarith
  qed
  finally show ?thesis .
qed

definition leaves :: "nat \<Rightarrow> nat \<Rightarrow> nat \<Rightarrow> nat list" where
  "leaves n h pos = [pos * 2 ^ h..<min ((pos + 1) * 2 ^ h) n]"

definition selected :: "uint256 list \<Rightarrow> bool list \<Rightarrow> nat list \<Rightarrow> uint256 list" where
  "selected v m ps = map (nth v) (filter (nth m) ps)"

lemma selected_append [simp]: "selected v m (ps @ qs) = selected v m ps @ selected v m qs"
  by (simp add: selected_def)

lemma parent_iff: "parent_of_match n h pos m \<longleftrightarrow> filter (nth m) (leaves n h pos) \<noteq> []"
  by (auto simp: parent_of_match_def leaves_def list_ex_iff filter_empty_conv)

lemma upt_split: "i \<le> j \<Longrightarrow> j \<le> k \<Longrightarrow> [i..<j] @ [j..<k] = [i..<k]"
  by (metis le_add_diff_inverse upt_add_eq_append)

lemma leaves_0: "pos < n \<Longrightarrow> leaves n 0 pos = [pos]"
  by (simp add: leaves_def min_def)

lemma leaves_Suc:
  assumes "pos * 2 ^ Suc h < n"
  shows "leaves n (Suc h) pos =
    (if pos * 2 + 1 < CalcTreeWidth n h then leaves n h (pos * 2) @ leaves n h (pos * 2 + 1) else leaves n h (pos * 2))"
proof (cases "(pos * 2 + 1) * 2 ^ h < n")
  case True
  have "min ((pos * 2 + 1) * 2 ^ h) n = (pos * 2 + 1) * 2 ^ h" using True by simp
  moreover have "[pos * 2 ^ Suc h..<(pos * 2 + 1) * 2 ^ h] @ [(pos * 2 + 1) * 2 ^ h..<min ((pos + 1) * 2 ^ Suc h) n]
      = [pos * 2 ^ Suc h..<min ((pos + 1) * 2 ^ Suc h) n]"
    using True by (intro upt_split) (auto simp: algebra_simps)
  ultimately show ?thesis using True by (simp add: leaves_def width_iff algebra_simps)
next
  case False
  then have "min ((pos * 2 + 1) * 2 ^ h) n = n" "min ((pos + 1) * 2 ^ Suc h) n = n" by (simp_all add: algebra_simps)
  then show ?thesis using False by (simp add: leaves_def width_iff algebra_simps)
qed

definition built :: "nat \<Rightarrow> nat \<Rightarrow> nat \<Rightarrow> uint256 list \<Rightarrow> bool list \<Rightarrow> bool list \<times> uint256 list" where
  "built n h pos v m = TraverseAndBuild n h pos v m ([], [])"

text \<open>Building only appends.\<close>

lemma build_append:
  "TraverseAndBuild n h pos v m (bits, hashes) = (bits @ fst (built n h pos v m), hashes @ snd (built n h pos v m))"
proof (induction h arbitrary: pos bits hashes)
  case (Suc h)
  show ?case
    using Suc.IH [of "pos * 2" "bits @ [True]" hashes] Suc.IH [of "pos * 2" "[True]" "[]"]
      Suc.IH [of "pos * 2 + 1" "bits @ [True] @ fst (built n h (pos * 2) v m)" "hashes @ snd (built n h (pos * 2) v m)"]
      Suc.IH [of "pos * 2 + 1" "[True] @ fst (built n h (pos * 2) v m)" "snd (built n h (pos * 2) v m)"]
    by (auto simp: built_def Let_def)
qed (simp add: built_def)

lemma built_simps:
  "built n 0 pos v m = ([parent_of_match n 0 pos m], [CalcHash n 0 pos v])"
  "\<not> parent_of_match n (Suc h) pos m \<Longrightarrow> built n (Suc h) pos v m = ([False], [CalcHash n (Suc h) pos v])"
  by (simp_all add: built_def)

lemma built_parent:
  "parent_of_match n (Suc h) pos m \<Longrightarrow> built n (Suc h) pos v m =
    (True # fst (built n h (pos * 2) v m) @ (if pos * 2 + 1 < CalcTreeWidth n h then fst (built n h (pos * 2 + 1) v m) else []),
     snd (built n h (pos * 2) v m) @ (if pos * 2 + 1 < CalcTreeWidth n h then snd (built n h (pos * 2 + 1) v m) else []))"
  unfolding built_def [of n "Suc h"] TraverseAndBuild.simps
  by (simp add: build_append Let_def del: TraverseAndBuild.simps)

lemma built_length:
  "pos < CalcTreeWidth n h \<Longrightarrow>
   length (snd (built n h pos v m)) \<le> length (fst (built n h pos v m)) \<and>
   length (snd (built n h pos v m)) \<le> length (leaves n h pos)"
proof (induction h arbitrary: pos)
  case 0
  then show ?case by (simp add: built_simps leaves_0)
next
  case (Suc h)
  have pos: "pos * 2 ^ Suc h < n" using Suc.prems by (simp only: width_iff)
  then have l: "pos * 2 < CalcTreeWidth n h" by (simp add: width_iff mult.assoc)
  show ?case
  proof (cases "parent_of_match n (Suc h) pos m")
    case True
    then show ?thesis using Suc.IH [OF l] Suc.IH [of "pos * 2 + 1"] leaves_Suc [OF pos] by (auto simp: built_parent)
  next
    case False
    have "pos * 2 ^ Suc h < (pos + 1) * 2 ^ Suc h" by simp
    then have "0 < length (leaves n (Suc h) pos)" using pos by (simp add: leaves_def)
    then show ?thesis using False by (simp add: built_simps Suc_le_eq)
  qed
qed

lemma extract_built:
  assumes "length v = n" "nTransactions t = n"
  shows "pos < CalcTreeWidth n h \<Longrightarrow> vBits t = b0 @ fst (built n h pos v m) @ b1 \<Longrightarrow>
    vHash t = h0 @ snd (built n h pos v m) @ h1 \<Longrightarrow>
    TraverseAndExtract t h pos \<lparr>nBitsUsed = length b0, nHashUsed = length h0, xMatch = ms, xBad = False\<rparr> =
      (CalcHash n h pos v,
       \<lparr>nBitsUsed = length b0 + length (fst (built n h pos v m)), nHashUsed = length h0 + length (snd (built n h pos v m)),
        xMatch = ms @ selected v m (leaves n h pos), xBad = False\<rparr>)"
proof (induction h arbitrary: pos b0 b1 h0 h1 ms)
  case 0
  then have "leaves n 0 pos = [pos]" by (simp add: leaves_0)
  then show ?case using 0 by (auto simp: built_simps use_hash_def Let_def parent_iff selected_def)
next
  case (Suc h)
  have pos: "pos * 2 ^ Suc h < n" using Suc.prems(1) by (simp only: width_iff)
  then have l: "pos * 2 < CalcTreeWidth n h" by (simp add: width_iff mult.assoc)
  show ?case
  proof (cases "parent_of_match n (Suc h) pos m")
    case False
    then have "selected v m (leaves n (Suc h) pos) = []" by (simp add: parent_iff selected_def)
    then show ?thesis using Suc.prems False by (simp add: built_simps use_hash_def Let_def)
  next
    case True
    let ?L = "built n h (pos * 2) v m" and ?R = "built n h (pos * 2 + 1) v m"
    show ?thesis
    proof (cases "pos * 2 + 1 < CalcTreeWidth n h")
      case r: True
      have bits: "vBits t = (b0 @ [True]) @ fst ?L @ (fst ?R @ b1)" "vHash t = h0 @ snd ?L @ (snd ?R @ h1)"
        "vBits t = (b0 @ [True] @ fst ?L) @ fst ?R @ b1" "vHash t = (h0 @ snd ?L) @ snd ?R @ h1"
        using Suc.prems(2,3) True r by (simp_all add: built_parent)
      show ?thesis using Suc.IH [OF l bits(1,2), of ms] Suc.IH [OF r bits(3,4)] True r leaves_Suc [OF pos] bits(1)
        by (simp add: built_parent Let_def assms(2))
    next
      case r: False
      have bits: "vBits t = (b0 @ [True]) @ fst ?L @ b1" "vHash t = h0 @ snd ?L @ h1"
        using Suc.prems(2,3) True r by (simp_all add: built_parent)
      show ?thesis using Suc.IH [OF l bits, of ms] True r leaves_Suc [OF pos] bits(1)
        by (simp add: built_parent Let_def assms(2))
    qed
  qed
qed

lemma ExtractMatches_built:
  assumes "v \<noteq> []" "length v \<le> MAX_BLOCK_SIZE_CURRENT div 60" "(length (vBits t) + 7) div 8 = (length bits + 7) div 8"
    "vBits t = bits @ pad" "t = (new_CPartialMerkleTree v m)\<lparr>vBits := bits @ pad\<rparr>" "bits = vBits (new_CPartialMerkleTree v m)"
  shows "ExtractMatches t = (merkle_root v, selected v m [0..<length v])"
proof -
  let ?n = "length v" and ?h = "height_loop (length v) 0"
  have b: "built ?n ?h 0 v m = (bits, vHash t)" "nTransactions t = ?n" "fBad t = False"
    using assms(5,6) by (simp_all add: new_CPartialMerkleTree_def built_def split: prod.splits)
  have pos: "0 < CalcTreeWidth ?n ?h" using assms(1) width_pos by simp
  have lv: "leaves ?n ?h 0 = [0..<?n]"
    using height_loop_width [of ?n 0] width_iff [of 1 ?n ?h] by (simp add: leaves_def min_def)
  have e: "vBits t = [] @ fst (built ?n ?h 0 v m) @ pad" "vHash t = [] @ snd (built ?n ?h 0 v m) @ []"
    by (simp_all add: b(1) assms(4))
  have "TraverseAndExtract t ?h 0 \<lparr>nBitsUsed = 0, nHashUsed = 0, xMatch = [], xBad = False\<rparr> =
      (merkle_root v, \<lparr>nBitsUsed = length bits, nHashUsed = length (vHash t), xMatch = selected v m [0..<?n], xBad = False\<rparr>)"
    using extract_built [OF refl b(2) pos e, of "[]"] by (simp add: b(1) CalcHash_root [OF assms(1)] lv)
  moreover have "length (vHash t) \<le> ?n" "length (vHash t) \<le> length (vBits t)"
    using built_length [OF pos, of v m] b(1) lv assms(4) by simp_all
  ultimately show ?thesis using assms(1-3) b(2,3) by (simp add: ExtractMatches_def)
qed

lemma ExtractMatches_new:
  assumes "v \<noteq> []" "length v \<le> MAX_BLOCK_SIZE_CURRENT div 60"
  shows "ExtractMatches (new_CPartialMerkleTree v m) = (merkle_root v, selected v m [0..<length v])"
  using assms by (intro ExtractMatches_built [where bits = "vBits (new_CPartialMerkleTree v m)" and pad = "[]"]) simp_all

section \<open>Over the wire\<close>

lemma unpack_pack:
  "unpack_bits (pack_bits bits) = bits @ replicate ((length bits + 7) div 8 * 8 - length bits) False"
proof (rule nth_equalityI)
  have le: "length bits \<le> (length bits + 7) div 8 * 8" by presburger
  then show "length (unpack_bits (pack_bits bits)) =
      length (bits @ replicate ((length bits + 7) div 8 * 8 - length bits) False)"
    by (simp add: unpack_bits_def pack_bits_def)
  fix p assume "p < length (unpack_bits (pack_bits bits))"
  then have p: "p < (length bits + 7) div 8 * 8" by (simp add: unpack_bits_def pack_bits_def)
  then have "p div 8 < (length bits + 7) div 8" by linarith
  then have "unpack_bits (pack_bits bits) ! p = bit (pack_byte bits (p div 8)) (p mod 8)"
    using p by (simp add: unpack_bits_def pack_bits_def push_bit_of_1 and_exp_eq_0_iff_not_bit)
  also have "\<dots> \<longleftrightarrow> p < length bits \<and> bits ! p"
    by (simp add: pack_byte_def bit_set_loop)
  finally show "unpack_bits (pack_bits bits) ! p =
      (bits @ replicate ((length bits + 7) div 8 * 8 - length bits) False) ! p"
    using p by (simp add: nth_append)
qed

text \<open>A receiver of the serialised tree extracts what the sender selected.\<close>

lemma built_bits_lt: "length (fst (built n h pos v m)) < 2 ^ Suc h"
proof (induction h arbitrary: pos)
  case 0
  then show ?case by (simp add: built_simps)
next
  case (Suc h)
  show ?case
  proof (cases "parent_of_match n (Suc h) pos m")
    case True
    have "2 ^ Suc (Suc h) = 2 ^ Suc h + (2 ^ Suc h :: nat)" by simp
    then show ?thesis
      using Suc.IH [of "pos * 2"] Suc.IH [of "pos * 2 + 1"] True by (simp add: built_parent del: power_Suc)
  next
    case False
    have "(1::nat) < 2 ^ Suc (Suc h)" by (rule one_less_power) simp_all
    then show ?thesis using False by (simp add: built_simps del: power_Suc)
  qed
qed

lemma height_bound: "0 < n \<Longrightarrow> 2 ^ Suc (height_loop n 0) \<le> 4 * n"
proof (cases "height_loop n 0")
  case (Suc k)
  then have "2 ^ k < n" using height_loop_least [of 0 k n] width_gt_1 [of n k] by simp
  then show ?thesis using Suc by simp
qed simp

lemma wire_pmt:
  assumes "v \<noteq> []" "length v \<le> MAX_BLOCK_SIZE_CURRENT div 60"
  shows "\<exists>t. unser_pmt (ser_pmt (new_CPartialMerkleTree v m) @ s) = Some (t, s) \<and>
    ExtractMatches t = (merkle_root v, selected v m [0..<length v])"
proof -
  let ?n = "length v" and ?t = "new_CPartialMerkleTree v m" and ?h = "height_loop (length v) 0"
  define pad where "pad = replicate ((length (vBits ?t) + 7) div 8 * 8 - length (vBits ?t)) False"
  have n: "?n \<le> 33333" using assms(2) by (simp add: MAX_BLOCK_SIZE_CURRENT_def)
  have b: "built ?n ?h 0 v m = (vBits ?t, vHash ?t)" "nTransactions ?t = ?n" "fBad ?t = False"
    by (simp_all add: new_CPartialMerkleTree_def built_def split: prod.splits)
  have pos: "0 < CalcTreeWidth ?n ?h" using assms(1) width_pos by simp
  have lv: "leaves ?n ?h 0 = [0..<?n]"
    using height_loop_width [of ?n 0] width_iff [of 1 ?n ?h] by (simp add: leaves_def min_def)
  have "length (vHash ?t) \<le> ?n" using built_length [OF pos, of v m] b(1) lv by simp
  then have hs: "length (vHash ?t) \<le> MAX_SIZE" using n by (simp add: MAX_SIZE_def)
  have "length (vBits ?t) < 4 * ?n"
    using built_bits_lt [of ?n ?h 0 v m] height_bound [of ?n] assms(1) b(1) by simp
  then have bs: "length (pack_bits (vBits ?t)) \<le> MAX_SIZE" using n by (simp add: pack_bits_def MAX_SIZE_def)
  have all: "list_all (\<lambda>_. True) (vHash ?t)" by (simp add: list_all_iff)
  have "unser_pmt (ser_pmt ?t @ s) = Some (?t\<lparr>vBits := vBits ?t @ pad\<rparr>, s)"
    unfolding ser_pmt_def unser_pmt_def append_assoc
    using n b(2,3) by (simp only: rbind_Some u32.unser_ser [OF TrueI] hash_c.vector_unser_ser [OF hs all]
        blob.unser_ser [OF bs] rret_app unpack_pack) (simp add: pad_def unat_of_nat)
  moreover have "ExtractMatches (?t\<lparr>vBits := vBits ?t @ pad\<rparr>) = (merkle_root v, selected v m [0..<length v])"
    using assms by (intro ExtractMatches_built) (auto simp: pad_def)
  ultimately show ?thesis by blast
qed

end
