(* ===== verification/BlockLemmas.thy ===== *)
theory BlockLemmas
  imports Block
begin

text \<open>Headers and blocks are serialisable.\<close>

definition header_ok :: "'a CBlockHeader_scheme \<Rightarrow> bool" where
  "header_ok b \<longleftrightarrow> - (2 ^ 31) \<le> hd_nVersion b \<and> hd_nVersion b < 2 ^ 31 \<and>
     (hd_nVersion b \<le> 3 \<longrightarrow> nAccumulatorCheckpoint b = 0)"

lemma unser_header_ser:
  assumes "header_ok b"
  shows "unser_header (ser_header b @ s) = Some
    (\<lparr>hd_nVersion = hd_nVersion b, hashPrevBlock = hashPrevBlock b, hashMerkleRoot = hashMerkleRoot b,
      nTime = nTime b, nBits = nBits b, nNonce = nNonce b, nAccumulatorCheckpoint = nAccumulatorCheckpoint b\<rparr>, s)"
proof -
  have v: "- (2 ^ 31) \<le> hd_nVersion b \<and> hd_nVersion b < 2 ^ 31" using assms by (simp add: header_ok_def)
  show ?thesis
    unfolding unser_header_def ser_header_def header_start_def append_assoc
    using assms by (simp only: rbind_Some int32.unser_ser [OF v] hash_c.unser_ser [OF TrueI] u32.unser_ser [OF TrueI])
      (cases "hd_nVersion b > 3", simp_all add: hash_c.unser_ser header_ok_def)
qed

lemma size_header: "size_header b = length (ser_header b)"
  by (simp add: size_header_def ser_header_def header_start_def ser_int_def WRITEDATA_def
      flip: hash_c.size_ser u32.size_ser)

interpretation header_c: codec ser_header unser_header size_header header_ok
  by unfold_locales (simp_all add: unser_header_ser size_header)

definition block_ok :: "CBlock \<Rightarrow> bool" where
  "block_ok b \<longleftrightarrow> header_ok b \<and> length (vtx b) \<le> MAX_SIZE \<and> list_all tx_ok (vtx b) \<and>
     length (vchBlockSig b) \<le> MAX_SIZE \<and> (\<not> IsProofOfStake b \<longrightarrow> vchBlockSig b = [])"

interpretation block_c: codec ser_block unser_block size_block block_ok
proof (unfold_locales, goal_cases)
  case (1 b s)
  then have t: "length (vtx b) \<le> MAX_SIZE" "list_all tx_ok (vtx b)" "length (vchBlockSig b) \<le> MAX_SIZE" "header_ok b"
    by (auto simp: block_ok_def)
  show ?case
    unfolding unser_block_def ser_block_def append_assoc
    by (simp only: rbind_Some unser_header_ser [OF t(4)] tx_c.vector_unser_ser [OF t(1,2)])
      (use 1 t(3) in \<open>auto simp: blob.unser_ser block_ok_def IsProofOfStake_def CBlockHeader.defs\<close>)
next
  case (2 b)
  then show ?case
    by (auto simp: block_ok_def size_block_def ser_block_def size_header tx_c.vector_size blob.size_ser)
qed

text \<open>The hash of a header from version 4 on is the double hash of its encoding.\<close>

lemma header_GetHash_ser:
  "3 < hd_nVersion b \<Longrightarrow> header_GetHash quark b = uint256_of_bytes (hash256 (ser_header b))"
  by (simp add: header_GetHash_def Hash_ranges_eq ser_header_def)

end
