(* ===== verification/Samples.thy ===== *)
theory Samples
  imports Node Policy PartialMerkle BlockLemmas
begin

text \<open>
  Concrete values on which the properties of the coins are evaluated: a coinbase and a block that
  holds it, a node with one unspent output, a transaction that spends it, and one that spends an
  output whose redeem script matches no template.
\<close>

definition sample_coinbase :: CTransaction where
  "sample_coinbase = \<lparr>nVersion = 1, vin = [\<lparr>prevout = COutPoint_Null, scriptSig = [1, 1], nSequence = - 1\<rparr>],
     vout = [\<lparr>nValue = 5, scriptPubKey = [0x51]\<rparr>], nLockTime = 0\<rparr>"

definition sample_block :: CBlock where
  "sample_block = \<lparr>hd_nVersion = 4, hashPrevBlock = 8, hashMerkleRoot = 0, nTime = 0, nBits = 1, nNonce = 0,
     nAccumulatorCheckpoint = 0, vtx = [sample_coinbase], vchBlockSig = []\<rparr>"

definition sample_inputs_env :: inputs_env where
  "sample_inputs_env = \<lparr>ie_MaxMoneyOut = 1000, ie_maturity = 100, ie_height = (\<lambda>h. 10),
     ie_checker = (\<lambda>tx n. BaseSignatureChecker)\<rparr>"

definition sample_connect_env :: connect_env where
  "sample_connect_env = \<lparr>cx_inputs = sample_inputs_env, cx_CheckBlock = (\<lambda>b. Inr ()), cx_HashGenesisBlock = 1,
     cx_LAST_POW_BLOCK = 200, cx_TotalBlocksEstimate = 0, cx_CLTVSuperMajority = True, cx_maintenance = False,
     cx_testnet = False, cx_ZerocoinSpend = (\<lambda>tx. Inr 0), cx_ZerocoinMint = (\<lambda>tx. Inr ()),
     cx_ValidOutPoint = (\<lambda>o1 h. True), cx_ZDIVITSupply = True, cx_IsBlockValueValid = (\<lambda>a b. b \<le> a),
     cx_AccumulatorCheckpoint = True, cx_WriteUndo = True, cx_WriteZerocoin = True, cx_WriteTxIndex = True,
     cx_MaxReorganizationDepth = 100\<rparr>"

definition sample_index :: block_index where
  "sample_index = \<lparr>bi_hash = Some 9, bi_nHeight = 11, bi_prev_hash = Some 8, bi_prev_nMoneySupply = 0\<rparr>"

definition sample_result :: "store cache connect_result" where
  "sample_result = \<lparr>cr_view = (empty_node 9)\<lparr>cacheCoins := [(GetHash sample_coinbase,
       \<lparr>e_coins = \<lparr>fCoinBase = True, fCoinStake = False, c_vout = [\<lparr>nValue = 5, scriptPubKey = [0x51]\<rparr>],
          c_nHeight = 11, c_nVersion = 1\<rparr>, e_dirty = True, e_fresh = True\<rparr>)]\<rparr>,
     cr_stake = (\<lambda>_. None), cr_vtxundo = [], cr_nMoneySupply = 5, cr_nMint = 5\<rparr>"

lemma sample_empty_lookup: "vo_GetCoins (node_ops pk) t (c_base (empty_node h)) = (None, c_base (empty_node h))"
  by (simp add: node_ops_def cache_ops_def cache_GetCoins_def FetchCoins_def empty_node_def db_ops_def
      db_GetCoins_def db_Read_def)

lemma sample_coinbase_kind: "IsCoinBase sample_coinbase" "\<not> tx_IsZerocoinSpend sample_coinbase"
  "\<not> IsCoinStake sample_coinbase" "\<not> spends_inputs sample_coinbase"
  by (simp_all add: sample_coinbase_def IsCoinBase_def tx_IsZerocoinSpend_def IsCoinStake_def COutPoint_IsNull_def
      COutPoint_Null_def ContainsZerocoins_def tx_IsZerocoinMint_def IsZerocoinMint_def IsZerocoinSpend_def
      spends_inputs_def Let_def)

lemma sample_FromTx: "FromTx sample_coinbase 11 = \<lparr>fCoinBase = True, fCoinStake = False,
    c_vout = [\<lparr>nValue = 5, scriptPubKey = [0x51]\<rparr>], c_nHeight = 11, c_nVersion = 1\<rparr>"
proof -
  have "cleanup_vout [\<lparr>nValue = 5, scriptPubKey = [0x51]\<rparr>] = [\<lparr>nValue = 5, scriptPubKey = [0x51]\<rparr>]"
    by (simp add: cleanup_strip CTxOut_IsNull_def)
  then show ?thesis using sample_coinbase_kind
    by (simp add: FromTx_def ClearUnspendable_def Cleanup_def IsUnspendable_def) (simp add: sample_coinbase_def IsUnspendable_def)
qed

lemma sample_sigops: "GetLegacySigOpCount sample_coinbase = 0"
  by code_simp

lemma sample_value_out: "GetValueOut sample_coinbase = Some 5"
  by (simp add: GetValueOut_def sample_coinbase_def wrap64_def)

lemma sample_bip30: "check_bip30 (node_ops pk) [sample_coinbase] (empty_node h) = Inr (empty_node h)"
  using sample_empty_lookup [of pk "GetHash sample_coinbase" h]
  by (simp add: AccessCoins_def FetchCoins_def) (simp add: empty_node_def)

lemma sample_update: "UpdateCoins (node_ops pk) sample_coinbase 11 (empty_node h) = Some ([], (empty_node h)\<lparr>cacheCoins :=
    [(GetHash sample_coinbase, \<lparr>e_coins = FromTx sample_coinbase 11, e_dirty = True, e_fresh = True\<rparr>)]\<rparr>)"
  using sample_empty_lookup [of pk "GetHash sample_coinbase" h] sample_coinbase_kind
  by (simp add: UpdateCoins_def modify_def ModifyCoins_def sample_FromTx Let_def)
    (simp add: modifier_end_def empty_node_def Cleanup_def cleanup_strip CTxOut_IsNull_def IsPruned_def Let_def)

lemma sample_fields:
  "cx_CheckBlock sample_connect_env = (\<lambda>b. Inr ())" "cx_HashGenesisBlock sample_connect_env = 1" "cx_LAST_POW_BLOCK sample_connect_env = 200"
  "cx_TotalBlocksEstimate sample_connect_env = 0" "cx_CLTVSuperMajority sample_connect_env"
  "\<not> cx_testnet sample_connect_env" "cx_ZDIVITSupply sample_connect_env"
  "cx_IsBlockValueValid sample_connect_env = (\<lambda>a b. b \<le> a)" "cx_AccumulatorCheckpoint sample_connect_env"
  "cx_WriteUndo sample_connect_env" "cx_WriteZerocoin sample_connect_env" "cx_WriteTxIndex sample_connect_env"
  "cx_MaxReorganizationDepth sample_connect_env = 100" "\<not> cx_maintenance sample_connect_env"
  "vtx sample_block = [sample_coinbase]" "bi_hash sample_index = Some 9" "bi_nHeight sample_index = 11"
  "bi_prev_hash sample_index = Some 8" "bi_prev_nMoneySupply sample_index = 0"
  by (simp_all add: sample_connect_env_def sample_block_def sample_index_def)

lemma sample_connects:
  "ConnectBlock (node_ops raw_keys) sample_connect_env sample_block 9 sample_index False (\<lambda>_. None) (empty_node 8)
    = Inr sample_result"
proof -
  have best: "cache_GetBestBlock (node_ops raw_keys) (empty_node 8) = (8, empty_node 8)"
    by (simp add: cache_GetBestBlock_def empty_node_def)
  have tx: "connect_tx (node_ops raw_keys) sample_connect_env True True 11 True sample_coinbase
      (\<lparr>a_nSigOps = 0, a_nFees = 0, a_nValueIn = 0, a_nValueOut = 0, a_vtxundo = []\<rparr>, empty_node 8)
    = Inr (\<lparr>a_nSigOps = 0, a_nFees = 0, a_nValueIn = 0, a_nValueOut = 5, a_vtxundo = []\<rparr>, (empty_node 8)\<lparr>cacheCoins :=
      [(GetHash sample_coinbase, \<lparr>e_coins = FromTx sample_coinbase 11, e_dirty = True, e_fresh = True\<rparr>)]\<rparr>)"
    using sample_coinbase_kind
    by (simp add: connect_tx_def sample_sigops MAX_BLOCK_SIGOPS_CURRENT_def MAX_BLOCK_SIZE_CURRENT_def
        sample_fields sample_value_out sample_update opt_sum_def Let_def)
  have reward: "5 \<le> GetBlockValue False 10" by code_simp
  have stake: "stake_expire (- 89) (stake_add 11 [sample_coinbase] (\<lambda>_. None)) = (\<lambda>_. None)"
    using sample_coinbase_kind by (intro ext) (simp add: stake_add_def stake_expire_def)
  have pow: "\<not> IsProofOfStake sample_block" by (simp add: IsProofOfStake_def sample_block_def)
  show ?thesis
    using pow reward
    by (simp add: ConnectBlock_def best tx sample_bip30 stake sample_fields IsProofOfWork_def
        finish_block_def Let_def fEnforceBIP30_def sample_result_def sample_FromTx del: check_bip30.simps)
      (simp add: SetBestBlock_def empty_node_def)
qed

text \<open>A view with one unspent output.\<close>

definition sample_coins :: CCoins where
  "sample_coins = \<lparr>fCoinBase = False, fCoinStake = False, c_vout = [\<lparr>nValue = 5, scriptPubKey = [0x51]\<rparr>],
     c_nHeight = 3, c_nVersion = 1\<rparr>"

definition sample_cache :: "'v \<Rightarrow> 'v cache" where
  "sample_cache b = \<lparr>c_base = b, hasModifier = False, hashBlock = 8,
     cacheCoins = [(7, \<lparr>e_coins = sample_coins, e_dirty = True, e_fresh = True\<rparr>)]\<rparr>"

definition sample_spend :: CTransaction where
  "sample_spend = \<lparr>nVersion = 1, vin = [\<lparr>prevout = \<lparr>op_hash = 7, op_n = 0\<rparr>, scriptSig = [], nSequence = - 1\<rparr>],
     vout = [\<lparr>nValue = 4, scriptPubKey = [0x51]\<rparr>], nLockTime = 0\<rparr>"

lemma sample_coins_ok: "coins_ok sample_coins" "live sample_coins = Some sample_coins" "clean sample_coins"
  by (simp_all add: coins_ok_def sample_coins_def clean_last CTxOut_IsNull_def IsPruned_def coin_ok_def live_def)

lemma sample_tip: "tip_inv pk (sample_cache (\<lambda>_. None))" "tip_utxo pk (sample_cache (\<lambda>_. None)) = [7 \<mapsto> sample_coins]"
  using sample_coins_ok
  by (auto simp: tip_inv_def tip_utxo_def sample_cache_def cache_inv_def batch_ok_def entry_ok_def db_valid_def
      db_utxo_def db_Read_def cache_utxo_def)

lemma sample_node: "node_inv pk (sample_cache (c_base (empty_node h)))"
  "node_utxo pk (sample_cache (c_base (empty_node h))) = [7 \<mapsto> sample_coins]"
  using sample_coins_ok empty_node_inv [of pk h]
  by (auto simp: node_inv_def node_utxo_def sample_cache_def cache_inv_def batch_ok_def entry_ok_def empty_node_def
      tip_utxo_def tip_inv_def db_utxo_def db_Read_def cache_utxo_def)

lemma sample_spends: "spends_inputs sample_spend" "\<not> IsCoinStake sample_spend"
  by (simp_all add: sample_spend_def IsCoinBase_def tx_IsZerocoinSpend_def IsCoinStake_def COutPoint_IsNull_def
      spends_inputs_def IsZerocoinSpend_def Let_def)

lemma sample_u_update: "u_update [7 \<mapsto> sample_coins] sample_spend 11 =
    Some ([\<lparr>u_txout = \<lparr>nValue = 5, scriptPubKey = [0x51]\<rparr>, u_fCoinBase = False, u_fCoinStake = False, u_nHeight = 3,
      u_nVersion = 1\<rparr>], ([7 \<mapsto> sample_coins])(7 := None, GetHash sample_spend := live (FromTx sample_spend 11)))"
proof -
  have "Spend sample_coins 0 = Some (sample_coins\<lparr>c_vout := []\<rparr>,
      \<lparr>u_txout = \<lparr>nValue = 5, scriptPubKey = [0x51]\<rparr>, u_fCoinBase = False, u_fCoinStake = False, u_nHeight = 3, u_nVersion = 1\<rparr>)"
    by (simp add: Spend_def sample_coins_def CTxOut_IsNull_def CTxOut_Null_def Cleanup_def cleanup_strip CTxInUndo_def Let_def)
  then have "u_spends [7 \<mapsto> sample_coins] (vin sample_spend) = Some ([\<lparr>u_txout = \<lparr>nValue = 5, scriptPubKey = [0x51]\<rparr>,
      u_fCoinBase = False, u_fCoinStake = False, u_nHeight = 3, u_nVersion = 1\<rparr>], ([7 \<mapsto> sample_coins])(7 := None))"
    by (simp add: sample_spend_def u_spend_def live_def IsPruned_def)
  then show ?thesis using sample_spends by (simp add: u_update_def)
qed

lemma sample_storable: "tx_storable sample_spend" "tx_storable sample_coinbase"
  by (simp_all add: tx_storable_def sample_spend_def sample_coinbase_def coin_ok_def)

lemma sample_have_inputs: "HaveInputs (node_ops pk) sample_spend (sample_cache b) = (True, sample_cache b)"
  using sample_spends
  by (simp add: HaveInputs_def spends_inputs_def)
    (simp add: sample_spend_def AccessCoins_def FetchCoins_def sample_cache_def IsAvailable_def sample_coins_def
      CTxOut_IsNull_def IsZerocoinMint_def)

definition sample_stake :: CCoins where
  "sample_stake = sample_coins\<lparr>fCoinStake := True\<rparr>"

lemma sample_script: "VerifyScript [] [0x51] SCRIPT_VERIFY_P2SH BaseSignatureChecker = Some (Inr ())"
  by code_simp

lemma sample_access: "AccessCoins ops 7 (sample_cache b) = (Some sample_coins, sample_cache b)"
  by (simp add: AccessCoins_def FetchCoins_def sample_cache_def)

lemma sample_checked: "CheckInputs (node_ops pk) sample_inputs_env sample_spend True SCRIPT_VERIFY_P2SH (sample_cache b)
    = Inr (sample_cache b)"
proof -
  have best: "cache_GetBestBlock (node_ops pk) (sample_cache b) = (8, sample_cache b)"
    by (simp add: cache_GetBestBlock_def sample_cache_def)
  have vals: "check_values (node_ops pk) sample_inputs_env 11 (vin sample_spend) 0 (sample_cache b) = Inr (5, sample_cache b)"
    by (simp add: sample_spend_def sample_access)
      (simp add: sample_coins_def money_range_def sample_inputs_env_def)
  have fee: "check_fee sample_inputs_env sample_spend 5 = Inr ()"
    using sample_spends by (simp add: check_fee_def GetValueOut_def wrap64_def sample_spend_def PROSPERITYNODE_AMOUNT_def
      COIN_def money_range_def sample_inputs_env_def)
  have scripts: "check_scripts (node_ops pk) sample_inputs_env sample_spend SCRIPT_VERIFY_P2SH 0 (vin sample_spend)
      (sample_cache b) = Inr (sample_cache b)"
    by (simp add: sample_spend_def sample_access)
      (simp add: sample_coins_def script_check_def sample_inputs_env_def sample_script)
  have "ie_height sample_inputs_env 8 = 10" by (simp add: sample_inputs_env_def)
  then show ?thesis using sample_spends
    by (simp add: CheckInputs_def spends_inputs_def sample_have_inputs best vals fee scripts)
qed

definition sample_p2sh :: CTxOut where
  "sample_p2sh = \<lparr>nValue = 5, scriptPubKey = 0xa9 # 0x14 # replicate 20 0 @ [0x87]\<rparr>"

definition sample_odd_spend :: CTransaction where
  "sample_odd_spend = \<lparr>nVersion = 1, vin = [\<lparr>prevout = \<lparr>op_hash = 7, op_n = 0\<rparr>, scriptSig = [0x01, 0x61], nSequence = - 1\<rparr>,
     \<lparr>prevout = \<lparr>op_hash = 99, op_n = 3\<rparr>, scriptSig = [0x61], nSequence = - 1\<rparr>], vout = [], nLockTime = 0\<rparr>"

definition sample_p2sh_cache :: "'v \<Rightarrow> 'v cache" where
  "sample_p2sh_cache b = (sample_cache b)\<lparr>cacheCoins :=
     [(7, \<lparr>e_coins = sample_coins\<lparr>c_vout := [sample_p2sh]\<rparr>, e_dirty = True, e_fresh = True\<rparr>)]\<rparr>"

lemma sample_p2sh_node: "node_inv pk (sample_p2sh_cache (c_base (empty_node h)))"
  "utxo_out (node_utxo pk (sample_p2sh_cache (c_base (empty_node h)))) \<lparr>op_hash = 7, op_n = 0\<rparr> = Some sample_p2sh"
proof -
  have ok: "coins_ok (sample_coins\<lparr>c_vout := [sample_p2sh]\<rparr>)" "\<not> IsPruned (sample_coins\<lparr>c_vout := [sample_p2sh]\<rparr>)"
    by (simp_all add: coins_ok_def sample_coins_def sample_p2sh_def clean_last CTxOut_IsNull_def IsPruned_def coin_ok_def)
  then show "node_inv pk (sample_p2sh_cache (c_base (empty_node h)))"
    using empty_node_inv [of pk h]
    by (auto simp: node_inv_def sample_p2sh_cache_def sample_cache_def cache_inv_def batch_ok_def entry_ok_def empty_node_def
      tip_utxo_def tip_inv_def db_utxo_def db_Read_def cache_utxo_def coins_ok_def)
  show "utxo_out (node_utxo pk (sample_p2sh_cache (c_base (empty_node h)))) \<lparr>op_hash = 7, op_n = 0\<rparr> = Some sample_p2sh"
    using ok(2) by (simp add: node_utxo_def sample_p2sh_cache_def sample_cache_def cache_utxo_def live_def utxo_out_def
      IsAvailable_def) (simp add: sample_p2sh_def CTxOut_IsNull_def IsZerocoinMint_def)
qed

lemma sample_redeem: "EvalScript [] [0x01, 0x61] 0 BaseSignatureChecker = Inr [[0x61]]" "\<not> fst (Solver [0x61])"
  "GetSigOpCount [0x61] True = 0" "IsPayToScriptHash (scriptPubKey sample_p2sh)"
  by code_simp+

end
