(* ===== verification/SigHash.thy ===== *)
theory SigHash
  imports Standard VerifyLemmas TransactionLemmas
begin

unbundle bit_operations_syntax

text \<open>
  The hash a signature signs and the checker of a transaction's inputs,
  \<^verbatim>\<open>src/src/script/interpreter.cpp\<close>: \<^verbatim>\<open>CTransactionSignatureSerializer\<close>, \<^verbatim>\<open>SignatureHash\<close> and
  \<^verbatim>\<open>TransactionSignatureChecker\<close>. The verification of a signature over the curve is a parameter.

  The lemmas show that the serialiser writes the encoding of a modified copy of the transaction,
  the one the older form of the code built in memory, and what a signature therefore commits to.
\<close>

section \<open>The serialiser\<close>

record sig_serializer =
  ss_txTo :: CTransaction
  ss_scriptCode :: script
  ss_nIn :: nat
  fAnyoneCanPay :: bool
  fHashSingle :: bool
  fHashNone :: bool

definition CTransactionSignatureSerializer :: "CTransaction \<Rightarrow> script \<Rightarrow> nat \<Rightarrow> int \<Rightarrow> sig_serializer" where
  "CTransactionSignatureSerializer txTo scriptCode nIn nHashType =
     \<lparr>ss_txTo = txTo, ss_scriptCode = scriptCode, ss_nIn = nIn,
      fAnyoneCanPay = nHashType AND int SIGHASH_ANYONECANPAY \<noteq> 0,
      fHashSingle = (nHashType AND 0x1f = int SIGHASH_SINGLE),
      fHashNone = (nHashType AND 0x1f = int SIGHASH_NONE)\<rparr>"

text \<open>The two loops of \<^verbatim>\<open>SerializeScriptCode\<close>; both stop where \<^verbatim>\<open>GetOp\<close> fails.\<close>

function count_separators :: "bytes \<Rightarrow> nat" where
  "count_separators it =
     (case GetOp2 it of (ok, opcode, data, rest) \<Rightarrow>
        if \<not> ok then 0
        else (if opcode = OP_CODESEPARATOR then 1 else 0) + count_separators rest)"
  by pat_completeness auto
termination by (relation "measure length") (auto dest: GetOp2_ok_shrinks [OF sym])

declare count_separators.simps [simp del]

function write_code :: "bytes \<Rightarrow> bytes \<Rightarrow> bytes" where
  "write_code itBegin it =
     (case GetOp2 it of (ok, opcode, data, rest) \<Rightarrow>
        if \<not> ok then (if itBegin \<noteq> [] then take (length itBegin - length rest) itBegin else [])
        else if opcode = OP_CODESEPARATOR
        then take (length itBegin - length rest - 1) itBegin @ write_code rest rest
        else write_code itBegin rest)"
  by pat_completeness auto
termination by (relation "measure (\<lambda>(b, it). length it)") (auto dest: GetOp2_ok_shrinks [OF sym])

declare write_code.simps [simp del]

definition SerializeScriptCode :: "script \<Rightarrow> bytes" where
  "SerializeScriptCode scriptCode =
     WriteCompactSize (length scriptCode - count_separators scriptCode) @ write_code scriptCode scriptCode"

definition SerializeInput :: "sig_serializer \<Rightarrow> nat \<Rightarrow> bytes" where
  "SerializeInput ss nInput0 =
     (let nInput = (if fAnyoneCanPay ss then ss_nIn ss else nInput0);
          txin = vin (ss_txTo ss) ! nInput
      in ser_outpoint (prevout txin) @
         (if nInput \<noteq> ss_nIn ss then ser_bytes [] else SerializeScriptCode (ss_scriptCode ss)) @
         (if nInput \<noteq> ss_nIn ss \<and> (fHashSingle ss \<or> fHashNone ss) then ser_int 4 0
          else ser_u32 (nSequence txin)))"

definition SerializeOutput :: "sig_serializer \<Rightarrow> nat \<Rightarrow> bytes" where
  "SerializeOutput ss nOutput =
     (if fHashSingle ss \<and> nOutput \<noteq> ss_nIn ss then ser_txout CTxOut_Null
      else ser_txout (vout (ss_txTo ss) ! nOutput))"

definition Serialize_sig :: "sig_serializer \<Rightarrow> bytes" where
  "Serialize_sig ss =
     (let txTo = ss_txTo ss;
          nInputs = (if fAnyoneCanPay ss then 1 else length (vin txTo));
          nOutputs = (if fHashNone ss then 0 else if fHashSingle ss then ss_nIn ss + 1 else length (vout txTo))
      in ser_int 4 (nVersion txTo) @
         WriteCompactSize nInputs @ concat (map (SerializeInput ss) [0..<nInputs]) @
         WriteCompactSize nOutputs @ concat (map (SerializeOutput ss) [0..<nOutputs]) @
         ser_u32 (nLockTime txTo))"

definition SignatureHash :: "script \<Rightarrow> CTransaction \<Rightarrow> nat \<Rightarrow> int \<Rightarrow> uint256" where
  "SignatureHash scriptCode txTo nIn nHashType =
     (if nIn \<ge> length (vin txTo) then 1
      else if nHashType AND 0x1f = int SIGHASH_SINGLE \<and> nIn \<ge> length (vout txTo) then 1
      else let txTmp = CTransactionSignatureSerializer txTo scriptCode nIn nHashType
           in uint256_of_bytes (SerializeHash [Serialize_sig txTmp, ser_int 4 nHashType]))"

section \<open>The checker of a transaction\<close>

text \<open>\<^verbatim>\<open>verify\<close> is \<^verbatim>\<open>CPubKey::Verify\<close>, \<^verbatim>\<open>lowS\<close> is \<^verbatim>\<open>CPubKey::CheckLowS\<close>: both call secp256k1.\<close>

record curve_ops =
  cv_Verify :: "bytes \<Rightarrow> uint256 \<Rightarrow> bytes \<Rightarrow> bool"
  cv_CheckLowS :: "bytes \<Rightarrow> bool"

definition CheckSig :: "curve_ops \<Rightarrow> CTransaction \<Rightarrow> nat \<Rightarrow> valtype \<Rightarrow> valtype \<Rightarrow> script \<Rightarrow> bool" where
  "CheckSig cv txTo nIn vchSigIn vchPubKey scriptCode =
     (let pubkey = CPubKey vchPubKey
      in if \<not> pubkey_IsValid pubkey then False
         else if vchSigIn = [] then False
         else let nHashType = int (unat (last vchSigIn)); vchSig = butlast vchSigIn;
                  sighash = SignatureHash scriptCode txTo nIn nHashType
              in cv_Verify cv pubkey sighash vchSig)"

definition CheckLockTime :: "CTransaction \<Rightarrow> nat \<Rightarrow> int \<Rightarrow> bool" where
  "CheckLockTime txTo nIn lock =
     (if \<not> ((uint (nLockTime txTo) < LOCKTIME_THRESHOLD \<and> lock < LOCKTIME_THRESHOLD) \<or>
            (uint (nLockTime txTo) \<ge> LOCKTIME_THRESHOLD \<and> lock \<ge> LOCKTIME_THRESHOLD)) then False
      else if lock > uint (nLockTime txTo) then False
      else if CTxIn_IsFinal (vin txTo ! nIn) then False
      else True)"

definition TransactionSignatureChecker :: "curve_ops \<Rightarrow> CTransaction \<Rightarrow> nat \<Rightarrow> sig_checker" where
  "TransactionSignatureChecker cv txTo nIn =
     \<lparr>ck_CheckSig = CheckSig cv txTo nIn, ck_CheckLockTime = CheckLockTime txTo nIn,
      ck_CheckLowS = cv_CheckLowS cv\<rparr>"

section \<open>The script code without its separators\<close>

definition strip_code :: "script \<Rightarrow> script" where
  "strip_code code = concat (filter (\<lambda>c. c \<noteq> [0xab]) (fst (ops_of code)))"

definition parses :: "script \<Rightarrow> bool" where
  "parses code \<longleftrightarrow> snd (ops_of code) = []"

lemma GetOp2_piece:
  assumes "GetOp2 s = (True, opcode, data, rest)"
  obtains c where "c \<noteq> []" "s = c @ rest" "ops_of s = (c # fst (ops_of rest), snd (ops_of rest))"
    "opcode = OP_CODESEPARATOR \<longleftrightarrow> c = [0xab]"
proof -
  obtain c where c: "c \<noteq> []" "s = c @ rest" "GetOp2 c = (True, opcode, data, [])"
    using GetOp2_split [OF assms] by blast
  have "opcode = OP_CODESEPARATOR \<longleftrightarrow> c = [0xab]"
  proof
    assume o: "opcode = OP_CODESEPARATOR"
    obtain b pc where b: "c = b # pc" using c(1) by (cases c) auto
    have "unat b = 171 \<and> pc = []" using c(3) o unfolding b
      by (auto simp: Let_def split: if_splits option.splits prod.splits)
    then show "c = [0xab]" using b by (simp add: word_unat_eq_iff)
  next
    assume "c = [0xab]" then show "opcode = OP_CODESEPARATOR" using c(3) by simp
  qed
  then show ?thesis using that c ops_of_step [OF c(3), of rest] by metis
qed

lemma write_code_spec:
  "parses it \<Longrightarrow> write_code (p @ it) it = p @ strip_code it"
proof (induction it arbitrary: p rule: length_induct)
  case (1 it)
  obtain ok opcode data rest where g: "GetOp2 it = (ok, opcode, data, rest)" by (cases "GetOp2 it") auto
  show ?case
  proof (cases ok)
    case False
    then have o: "ops_of it = ([], it)" using g by (simp add: ops_of_fail)
    then have "it = []" using 1 by (simp add: parses_def)
    then show ?thesis using o by (subst write_code.simps) (simp add: strip_code_def)
  next
    case True
    then obtain c where c: "c \<noteq> []" "it = c @ rest" "ops_of it = (c # fst (ops_of rest), snd (ops_of rest))"
      "opcode = OP_CODESEPARATOR \<longleftrightarrow> c = [0xab]" using g by (auto elim: GetOp2_piece)
    have p: "parses rest" using 1(2) c(3) by (simp add: parses_def)
    have l: "length rest < length it" using c by simp
    have IH: "write_code (q @ rest) rest = q @ strip_code rest" for q using 1(1) l p by blast
    show ?thesis
    proof (cases "c = [0xab]")
      case True
      have "write_code (p @ it) it = p @ write_code rest rest"
        using g \<open>ok\<close> c(2) True c(4) by (subst write_code.simps) simp
      then show ?thesis using IH [of "[]"] c(3) True by (simp add: strip_code_def)
    next
      case False
      have "write_code (p @ it) it = write_code ((p @ c) @ rest) rest"
        using g \<open>ok\<close> c(2,4) False by (subst write_code.simps) simp
      then show ?thesis using IH [of "p @ c"] c(3) False by (simp add: strip_code_def)
    qed
  qed
qed

lemma strip_code_length: "parses it \<Longrightarrow> length (strip_code it) + count_separators it = length it"
proof (induction it rule: length_induct)
  case (1 it)
  obtain ok opcode data rest where g: "GetOp2 it = (ok, opcode, data, rest)" by (cases "GetOp2 it") auto
  show ?case
  proof (cases ok)
    case False
    then have "ops_of it = ([], it)" using g by (simp add: ops_of_fail)
    then show ?thesis using 1 False g by (subst count_separators.simps) (simp add: parses_def strip_code_def)
  next
    case True
    then obtain c where c: "c \<noteq> []" "it = c @ rest" "ops_of it = (c # fst (ops_of rest), snd (ops_of rest))"
      "opcode = OP_CODESEPARATOR \<longleftrightarrow> c = [0xab]" using g by (auto elim: GetOp2_piece)
    have "parses rest" "length rest < length it" using 1(2) c by (simp_all add: parses_def)
    then have "length (strip_code rest) + count_separators rest = length rest" using 1(1) by blast
    then show ?thesis using g c True by (subst count_separators.simps) (auto simp: strip_code_def)
  qed
qed

lemma SerializeScriptCode_parses:
  assumes "parses code"
  shows "SerializeScriptCode code = ser_bytes (strip_code code)"
proof -
  have "length code - count_separators code = length (strip_code code)"
    using strip_code_length [OF assms] by simp
  then show ?thesis using write_code_spec [OF assms, of "[]"]
    by (simp add: SerializeScriptCode_def ser_bytes_def WRITEDATA_def)
qed

section \<open>The transaction that is signed\<close>

text \<open>
  The copy that is hashed: the scripts of the inputs are blanked, except that the one being signed
  carries the script code; with \<^verbatim>\<open>SIGHASH_NONE\<close> and \<^verbatim>\<open>SIGHASH_SINGLE\<close> the other inputs lose their
  sequence numbers and outputs are dropped or blanked; with \<^verbatim>\<open>SIGHASH_ANYONECANPAY\<close> only the input
  being signed is kept.
\<close>

definition signed_input :: "sig_serializer \<Rightarrow> nat \<Rightarrow> CTxIn \<Rightarrow> CTxIn" where
  "signed_input ss i txin =
     (if i = ss_nIn ss then txin\<lparr>scriptSig := strip_code (ss_scriptCode ss)\<rparr>
      else txin\<lparr>scriptSig := [], nSequence := if fHashSingle ss \<or> fHashNone ss then 0 else nSequence txin\<rparr>)"

definition signed_tx :: "sig_serializer \<Rightarrow> CTransaction" where
  "signed_tx ss =
     (let tx = ss_txTo ss; n = ss_nIn ss
      in \<lparr>nVersion = nVersion tx,
          vin = (if fAnyoneCanPay ss then [signed_input ss n (vin tx ! n)]
                 else map (\<lambda>i. signed_input ss i (vin tx ! i)) [0..<length (vin tx)]),
          vout = (if fHashNone ss then []
                  else if fHashSingle ss then replicate n CTxOut_Null @ [vout tx ! n]
                  else vout tx),
          nLockTime = nLockTime tx\<rparr>)"

lemma ser_zero: "ser_int 4 0 = ser_u32 0"
  by (simp add: ser_int_def ser_u32_def)

lemma SerializeInput_eq:
  "parses (ss_scriptCode ss) \<Longrightarrow> \<not> fAnyoneCanPay ss \<Longrightarrow>
   SerializeInput ss i = ser_txin (signed_input ss i (vin (ss_txTo ss) ! i))"
  by (simp add: SerializeInput_def signed_input_def ser_txin_def SerializeScriptCode_parses ser_zero Let_def)

lemma SerializeInput_one:
  "parses (ss_scriptCode ss) \<Longrightarrow> fAnyoneCanPay ss \<Longrightarrow>
   SerializeInput ss i = ser_txin (signed_input ss (ss_nIn ss) (vin (ss_txTo ss) ! ss_nIn ss))"
  by (simp add: SerializeInput_def signed_input_def ser_txin_def SerializeScriptCode_parses Let_def)

lemma SerializeOutput_single:
  "fHashSingle ss \<Longrightarrow> map (SerializeOutput ss) [0..<Suc (ss_nIn ss)] =
     map ser_txout (replicate (ss_nIn ss) CTxOut_Null @ [vout (ss_txTo ss) ! ss_nIn ss])"
  by (rule nth_equalityI) (auto simp: SerializeOutput_def nth_append less_Suc_eq simp del: upt_Suc)

lemma SerializeOutput_all:
  "\<not> fHashSingle ss \<Longrightarrow> map (SerializeOutput ss) [0..<length (vout (ss_txTo ss))] = map ser_txout (vout (ss_txTo ss))"
  by (rule nth_equalityI) (auto simp: SerializeOutput_def)

lemma Serialize_sig_eq:
  assumes "parses (ss_scriptCode ss)"
  shows "Serialize_sig ss = ser_tx (signed_tx ss)"
proof -
  have i: "WriteCompactSize (if fAnyoneCanPay ss then 1 else length (vin (ss_txTo ss))) @
      concat (map (SerializeInput ss) [0..<if fAnyoneCanPay ss then 1 else length (vin (ss_txTo ss))])
    = ser_vector ser_txin (vin (signed_tx ss))"
    using assms by (simp add: ser_vector_def signed_tx_def SerializeInput_eq SerializeInput_one Let_def comp_def cong: map_cong)
  let ?n = "if fHashNone ss then 0 else if fHashSingle ss then ss_nIn ss + 1 else length (vout (ss_txTo ss))"
  have o: "WriteCompactSize ?n @ concat (map (SerializeOutput ss) [0..<?n]) = ser_vector ser_txout (vout (signed_tx ss))"
    using SerializeOutput_single [of ss] SerializeOutput_all [of ss]
    by (simp add: ser_vector_def signed_tx_def Let_def del: upt_Suc)
  have "Serialize_sig ss = ser_int 4 (nVersion (ss_txTo ss)) @ ser_vector ser_txin (vin (signed_tx ss)) @
      ser_vector ser_txout (vout (signed_tx ss)) @ ser_u32 (nLockTime (ss_txTo ss))"
    unfolding Serialize_sig_def Let_def i [symmetric] o [symmetric] by simp
  then show ?thesis by (simp add: ser_tx_def) (simp add: signed_tx_def Let_def)
qed

lemma SignatureHash_eq:
  assumes "parses code" "n < length (vin tx)" "ht AND 0x1f = int SIGHASH_SINGLE \<Longrightarrow> n < length (vout tx)"
  shows "SignatureHash code tx n ht = uint256_of_bytes (hash256
    (ser_tx (signed_tx (CTransactionSignatureSerializer tx code n ht)) @ ser_int 4 ht))"
  using assms by (auto simp: SignatureHash_def SerializeHash_eq Serialize_sig_eq CTransactionSignatureSerializer_def)

section \<open>What a signature over everything commits to\<close>

definition signs_all :: "int \<Rightarrow> bool" where
  "signs_all ht \<longleftrightarrow> ht AND 0x1f \<noteq> int SIGHASH_NONE \<and> ht AND 0x1f \<noteq> int SIGHASH_SINGLE \<and>
     ht AND int SIGHASH_ANYONECANPAY = 0"

lemma strip_code_le: "parses code \<Longrightarrow> length (strip_code code) \<le> length code"
  using strip_code_length [of code] by simp

lemma signed_tx_all:
  assumes "signs_all ht"
  shows "signed_tx (CTransactionSignatureSerializer tx code n ht) =
    tx\<lparr>vin := map (\<lambda>i. (vin tx ! i)\<lparr>scriptSig := if i = n then strip_code code else []\<rparr>) [0..<length (vin tx)]\<rparr>"
  using assms by (auto simp: signs_all_def signed_tx_def signed_input_def CTransactionSignatureSerializer_def Let_def)

lemma signed_tx_ok:
  assumes "signs_all ht" "tx_ok tx" "parses code" "length code \<le> MAX_SIZE"
  shows "tx_ok (signed_tx (CTransactionSignatureSerializer tx code n ht))"
  using assms strip_code_le [of code] by (auto simp: signed_tx_all tx_ok_def list_all_iff txin_ok_def)

lemma vin_prevouts: "map prevout (map (\<lambda>i. (vin tx ! i)\<lparr>scriptSig := f i\<rparr>) [0..<length (vin tx)]) = map prevout (vin tx)"
  "map nSequence (map (\<lambda>i. (vin tx ! i)\<lparr>scriptSig := f i\<rparr>) [0..<length (vin tx)]) = map nSequence (vin tx)"
  "map scriptSig (map (\<lambda>i. (vin tx ! i)\<lparr>scriptSig := f i\<rparr>) [0..<length (vin tx)]) = map f [0..<length (vin tx)]"
  by (auto intro: nth_equalityI)

lemma one_script_at:
  assumes "map (\<lambda>i. if i = n then s else []) [0..<k] = map (\<lambda>i. if i = n' then s' else []) [0..<k]"
    and "n < k" "n' < k" "s \<noteq> []"
  shows "n = n' \<and> s = s'"
proof -
  have "(if i = n then s else []) = (if i = n' then s' else [])" if "i < k" for i
    using arg_cong [OF assms(1), of "\<lambda>xs. xs ! i"] that by simp
  from this [of n] assms show ?thesis by (auto split: if_splits)
qed

lemma signed_message_inj:
  assumes "signs_all ht" "tx_ok tx" "parses code" "length code \<le> MAX_SIZE" "n < length (vin tx)"
    and "signs_all ht'" "tx_ok tx'" "parses code'" "length code' \<le> MAX_SIZE" "n' < length (vin tx')"
    and m: "Serialize_sig (CTransactionSignatureSerializer tx code n ht) @ ser_int 4 ht =
      Serialize_sig (CTransactionSignatureSerializer tx' code' n' ht') @ ser_int 4 ht'"
  shows "nVersion tx = nVersion tx' \<and> vout tx = vout tx' \<and> nLockTime tx = nLockTime tx' \<and>
    map prevout (vin tx) = map prevout (vin tx') \<and> map nSequence (vin tx) = map nSequence (vin tx') \<and>
    (strip_code code \<noteq> [] \<longrightarrow> n = n' \<and> strip_code code = strip_code code')"
proof -
  have "signed_tx (CTransactionSignatureSerializer tx code n ht) = signed_tx (CTransactionSignatureSerializer tx' code' n' ht')"
    using assms(1-10) m tx_c.ser_prefix_free [OF signed_tx_ok signed_tx_ok, of ht tx code ht' tx' code' n "ser_int 4 ht" n' "ser_int 4 ht'"]
    by (simp add: Serialize_sig_eq CTransactionSignatureSerializer_def)
  then have e: "tx\<lparr>vin := map (\<lambda>i. (vin tx ! i)\<lparr>scriptSig := if i = n then strip_code code else []\<rparr>) [0..<length (vin tx)]\<rparr> =
      tx'\<lparr>vin := map (\<lambda>i. (vin tx' ! i)\<lparr>scriptSig := if i = n' then strip_code code' else []\<rparr>) [0..<length (vin tx')]\<rparr>"
    using assms(1,6) by (simp add: signed_tx_all)
  note v = arg_cong [OF e, of vin, simplified]
  have p: "map prevout (vin tx) = map prevout (vin tx')" "map nSequence (vin tx) = map nSequence (vin tx')"
    using arg_cong [OF v, of "map prevout"] arg_cong [OF v, of "map nSequence"] vin_prevouts by metis+
  have l: "length (vin tx) = length (vin tx')" using arg_cong [OF p(1), of length] by simp
  have "map (\<lambda>i. if i = n then strip_code code else []) [0..<length (vin tx)] =
      map (\<lambda>i. if i = n' then strip_code code' else []) [0..<length (vin tx)]"
    using arg_cong [OF v, of "map scriptSig"] unfolding vin_prevouts unfolding l .
  then have "strip_code code \<noteq> [] \<longrightarrow> n = n' \<and> strip_code code = strip_code code'"
    using one_script_at assms(5,10) l by metis
  then show ?thesis
    using p arg_cong [OF e, of nVersion] arg_cong [OF e, of vout] arg_cong [OF e, of nLockTime] by simp
qed

section \<open>Time locks\<close>

lemma CheckLockTime_final:
  assumes "CheckLockTime tx nIn n" "0 \<le> n" "nIn < length (vin tx)"
    and "IsFinalTx tip adj tx h t" "0 < h" "0 < t"
  shows "n < (if n < LOCKTIME_THRESHOLD then h else t)"
proof -
  let ?l = "uint (nLockTime tx)"
  have c: "?l < LOCKTIME_THRESHOLD \<longleftrightarrow> n < LOCKTIME_THRESHOLD" "n \<le> ?l" "\<not> CTxIn_IsFinal (vin tx ! nIn)"
    using assms(1) by (auto simp: CheckLockTime_def split: if_splits)
  then have "\<not> list_all CTxIn_IsFinal (vin tx)" using assms(3) by (auto simp: list_all_length)
  then have "nLockTime tx = 0 \<or> ?l < (if ?l < LOCKTIME_THRESHOLD then h else t)"
    using assms(4-6) by (auto simp: IsFinalTx_def Let_def split: if_splits)
  then show ?thesis using c assms(2,5,6) by (auto split: if_splits)
qed

lemma eval_loop_inv:
  assumes "eval_loop flags ck pc st = Inr st''" "GetOp2 pc = (True, opcode, v, rest)"
  obtains st' where "exec_instr flags ck opcode v rest st = Inr st'" "eval_loop flags ck rest st' = Inr st''"
  using assms by (subst (asm) eval_loop.simps) (auto split: if_splits sum.splits)

lemma timelock_eval:
  assumes "EvalScript stack (push_data v @ [0xb1] @ r) flags ck = Inr stack'" "2 \<le> length v" "length v \<le> 520"
    and "has_flag flags SCRIPT_VERIFY_CHECKLOCKTIMEVERIFY"
  shows "\<exists>n \<ge> 0. script_num flags v 5 = Inr n \<and> ck_CheckLockTime ck n"
proof -
  let ?s = "push_data v @ [0xb1] @ r" and ?i = "eval_init stack (push_data v @ [0xb1] @ r)"
  obtain st where e: "eval_loop flags ck ?s ?i = Inr st" using assms(1)
    by (cases "eval_loop flags ck ?s ?i") (simp_all add: EvalScript_def split: if_splits)
  obtain opcode where o: "opcode \<le> OP_PUSHDATA4" "GetOp2 ?s = (True, opcode, v, [0xb1] @ r)"
    using GetOp2_push_data [of v "[0xb1] @ r"] assms(3) by auto
  obtain st1 where 1: "exec_instr flags ck opcode v ([0xb1] @ r) ?i = Inr st1"
      "eval_loop flags ck ([0xb1] @ r) st1 = Inr st"
    using eval_loop_inv [OF e o(2)] by blast
  have s1: "e_stack st1 = v # stack \<and> e_vfExec st1 = []"
    using 1(1) o(1) by (auto simp: exec_instr_def eval_init_def Let_def sbind_eq_Inr split: if_splits)
  have g: "GetOp2 ([0xb1] @ r) = (True, 177, [], r)" by simp
  obtain st2 where 2: "exec_instr flags ck 177 [] r st1 = Inr st2"
    using eval_loop_inv [OF 1(2) g] by blast
  have "exec_cltv flags ck (st1\<lparr>e_nOpCount := e_nOpCount st1 + 1\<rparr>) = Inr st2"
    using 2 s1 by (auto simp: exec_instr_def disabled_opcode_def exec_switch_def exec_control_def Let_def
      sbind_eq_Inr split: if_splits)
  then show ?thesis using s1 assms(4) by (auto simp: exec_cltv_def sbind_eq_Inr split: if_splits)
qed

lemma timelock_spend:
  assumes "VerifyScript sig (push_data v @ [0xb1] @ r) flags (TransactionSignatureChecker cv tx nIn) = Some (Inr ())"
    and "2 \<le> length v" "length v \<le> 520" "has_flag flags SCRIPT_VERIFY_CHECKLOCKTIMEVERIFY"
    and "nIn < length (vin tx)" "IsFinalTx tip adj tx h t" "0 < h" "0 < t"
  shows "\<exists>n \<ge> 0. script_num flags v 5 = Inr n \<and> n < (if n < LOCKTIME_THRESHOLD then h else t)"
proof -
  obtain stack stack' where "EvalScript stack (push_data v @ [0xb1] @ r) flags (TransactionSignatureChecker cv tx nIn) = Inr stack'"
    using assms(1) by (auto simp: VerifyScript_def split: if_splits sum.splits)
  from timelock_eval [OF this assms(2-4)] obtain n where n: "0 \<le> n" "script_num flags v 5 = Inr n" "CheckLockTime tx nIn n"
    by (auto simp: TransactionSignatureChecker_def)
  then show ?thesis using CheckLockTime_final [OF n(3,1) assms(5-8)] by blast
qed

end
