(* ===== verification/BaseUint.thy ===== *)
theory BaseUint
  imports Prelude
begin

unbundle bit_operations_syntax

text \<open>
  The big unsigned integers of \<^verbatim>\<open>src/src/uint256.h\<close> and \<^verbatim>\<open>uint256.cpp\<close>: the template
  \<^verbatim>\<open>base_uint\<close>, an array \<^verbatim>\<open>pn\<close> of 32-bit words, least significant first. \<^verbatim>\<open>WIDTH\<close> is the length of
  the list. The carries and products of the loops are 64-bit words, as in the code.

  The lemmas show that the loops compute arithmetic modulo \<^verbatim>\<open>2^BITS\<close>; the rest of the development
  uses \<open>256 word\<close> for \<^verbatim>\<open>uint256\<close> on the strength of them.
\<close>

type_synonym base_uint = "u32 list"

section \<open>Operations\<close>

definition base_uint_of :: "nat \<Rightarrow> u64 \<Rightarrow> base_uint" where
  "base_uint_of WIDTH b = [ucast b, ucast (drop_bit 32 b)] @ replicate (WIDTH - 2) 0"

definition bu_IsNull :: "base_uint \<Rightarrow> bool" where
  "bu_IsNull pn = list_all (\<lambda>p. p = 0) pn"

definition bu_not :: "base_uint \<Rightarrow> base_uint" where
  "bu_not pn = map (\<lambda>p. NOT p) pn"

text \<open>Prefix \<^verbatim>\<open>++\<close> and \<^verbatim>\<open>--\<close>: the carry runs to the last word at most.\<close>

fun bu_inc :: "base_uint \<Rightarrow> base_uint" where
  "bu_inc [] = []"
| "bu_inc (p # ps) = (if p + 1 = 0 \<and> ps \<noteq> [] then (p + 1) # bu_inc ps else (p + 1) # ps)"

fun bu_dec :: "base_uint \<Rightarrow> base_uint" where
  "bu_dec [] = []"
| "bu_dec (p # ps) = (if p - 1 = - 1 \<and> ps \<noteq> [] then (p - 1) # bu_dec ps else (p - 1) # ps)"

definition bu_neg :: "base_uint \<Rightarrow> base_uint" where
  "bu_neg pn = bu_inc (bu_not pn)"

fun add_loop :: "u64 \<Rightarrow> base_uint \<Rightarrow> base_uint \<Rightarrow> base_uint" where
  "add_loop carry (p # ps) (b # bs) =
     (let n = carry + ucast p + ucast b
      in ucast (n AND 0xffffffff) # add_loop (drop_bit 32 n) ps bs)"
| "add_loop carry _ _ = []"

definition bu_add :: "base_uint \<Rightarrow> base_uint \<Rightarrow> base_uint" where
  "bu_add a b = add_loop 0 a b"

definition bu_sub :: "base_uint \<Rightarrow> base_uint \<Rightarrow> base_uint" where
  "bu_sub a b = bu_add a (bu_neg b)"

fun mul32_loop :: "u32 \<Rightarrow> u64 \<Rightarrow> base_uint \<Rightarrow> base_uint" where
  "mul32_loop b32 carry [] = []"
| "mul32_loop b32 carry (p # ps) =
     (let n = carry + ucast b32 * ucast p
      in ucast (n AND 0xffffffff) # mul32_loop b32 (drop_bit 32 n) ps)"

definition bu_mul32 :: "base_uint \<Rightarrow> u32 \<Rightarrow> base_uint" where
  "bu_mul32 a b32 = mul32_loop b32 0 a"

text \<open>The inner loop of the product works on the words from \<^verbatim>\<open>pn[j]\<close> upwards.\<close>

fun mul_row :: "u64 \<Rightarrow> u32 \<Rightarrow> base_uint \<Rightarrow> base_uint \<Rightarrow> base_uint" where
  "mul_row carry aj (p # ps) (b # bs) =
     (let n = carry + ucast p + ucast aj * ucast b
      in ucast (n AND 0xffffffff) # mul_row (drop_bit 32 n) aj ps bs)"
| "mul_row carry aj ps _ = ps"

definition bu_mul :: "base_uint \<Rightarrow> base_uint \<Rightarrow> base_uint" where
  "bu_mul a b =
     foldl (\<lambda>pn j. take j pn @ mul_row 0 (a ! j) (drop j pn) b) (replicate (length a) 0) [0..<length a]"

definition or_at :: "nat \<Rightarrow> u32 \<Rightarrow> base_uint \<Rightarrow> base_uint" where
  "or_at i x pn = pn[i := pn ! i OR x]"

definition shl_step :: "base_uint \<Rightarrow> nat \<Rightarrow> nat \<Rightarrow> base_uint \<Rightarrow> nat \<Rightarrow> base_uint" where
  "shl_step a k shift pn i =
     (let pn1 = (if i + k + 1 < length a \<and> shift \<noteq> 0 then or_at (i + k + 1) (drop_bit (32 - shift) (a ! i)) pn else pn)
      in if i + k < length a then or_at (i + k) (push_bit shift (a ! i)) pn1 else pn1)"

definition bu_shl :: "base_uint \<Rightarrow> nat \<Rightarrow> base_uint" where
  "bu_shl a shift = foldl (shl_step a (shift div 32) (shift mod 32)) (replicate (length a) 0) [0..<length a]"

definition shr_step :: "base_uint \<Rightarrow> nat \<Rightarrow> nat \<Rightarrow> base_uint \<Rightarrow> nat \<Rightarrow> base_uint" where
  "shr_step a k shift pn i =
     (let pn1 = (if i \<ge> k + 1 \<and> shift \<noteq> 0 then or_at (i - k - 1) (push_bit (32 - shift) (a ! i)) pn else pn)
      in if i \<ge> k then or_at (i - k) (drop_bit shift (a ! i)) pn1 else pn1)"

definition bu_shr :: "base_uint \<Rightarrow> nat \<Rightarrow> base_uint" where
  "bu_shr a shift = foldl (shr_step a (shift div 32) (shift mod 32)) (replicate (length a) 0) [0..<length a]"

primrec cmp_loop :: "nat \<Rightarrow> base_uint \<Rightarrow> base_uint \<Rightarrow> int" where
  "cmp_loop 0 a b = 0"
| "cmp_loop (Suc i) a b = (if a ! i < b ! i then - 1 else if a ! i > b ! i then 1 else cmp_loop i a b)"

definition CompareTo :: "base_uint \<Rightarrow> base_uint \<Rightarrow> int" where
  "CompareTo a b = cmp_loop (length a) a b"

definition EqualTo :: "base_uint \<Rightarrow> u64 \<Rightarrow> bool" where
  "EqualTo pn b =
     (if list_ex (\<lambda>p. p \<noteq> 0) (drop 2 pn) then False
      else if ucast (pn ! 1) \<noteq> drop_bit 32 b then False
      else if ucast (pn ! 0) \<noteq> (b AND 0xffffffff) then False
      else True)"

primrec word_bits :: "nat \<Rightarrow> u32 \<Rightarrow> nat" where
  "word_bits 0 p = 0"
| "word_bits (Suc b) p = (if p AND push_bit (Suc b) 1 \<noteq> 0 then Suc b else word_bits b p)"

primrec bits_loop :: "nat \<Rightarrow> base_uint \<Rightarrow> nat" where
  "bits_loop 0 pn = 0"
| "bits_loop (Suc pos) pn =
     (if pn ! pos \<noteq> 0 then 32 * pos + word_bits 31 (pn ! pos) + 1 else bits_loop pos pn)"

definition ubits :: "base_uint \<Rightarrow> nat" where
  "ubits pn = bits_loop (length pn) pn"

text \<open>One round of the long division, and the loop: \<open>None\<close> is the \<^verbatim>\<open>uint_error\<close> it throws.\<close>

definition div_step :: "nat \<Rightarrow> base_uint \<times> base_uint \<times> base_uint \<Rightarrow> base_uint \<times> base_uint \<times> base_uint" where
  "div_step shift = (\<lambda>(num, div1, pn).
     let (num, pn) = (if CompareTo num div1 \<ge> 0
                      then (bu_sub num div1, or_at (shift div 32) (push_bit (shift mod 32) 1) pn)
                      else (num, pn))
     in (num, bu_shr div1 1, pn))"

primrec div_loop :: "nat \<Rightarrow> base_uint \<times> base_uint \<times> base_uint \<Rightarrow> base_uint \<times> base_uint \<times> base_uint" where
  "div_loop 0 s = s"
| "div_loop (Suc shift) s = div_loop shift (div_step shift s)"

definition bu_div :: "base_uint \<Rightarrow> base_uint \<Rightarrow> base_uint option" where
  "bu_div a b =
     (let num_bits = ubits a; div_bits = ubits b; pn = replicate (length a) 0
      in if div_bits = 0 then None
         else if div_bits > num_bits then Some pn
         else let shift = num_bits - div_bits
              in Some (snd (snd (div_loop (Suc shift) (a, bu_shl b shift, pn)))))"

definition GetLow64 :: "base_uint \<Rightarrow> u64" where
  "GetLow64 pn = ucast (pn ! 0) OR push_bit 32 (ucast (pn ! 1))"

section \<open>Values\<close>

fun uval :: "base_uint \<Rightarrow> nat" where
  "uval [] = 0"
| "uval (p # ps) = unat p + 2 ^ 32 * uval ps"

lemma unat_u32_lt [simp]: "unat (p :: u32) < 2 ^ 32"
  using unsigned_less [of p, where ?'a = nat] by simp

lemma unat_u32_num: "unat (p :: u32) < 4294967296"
  using unat_u32_lt [of p] by simp

lemma val_lt: "uval a < 2 ^ (32 * length a)"
proof (induction a)
  case (Cons p ps)
  have "uval ps + 1 \<le> 2 ^ (32 * length ps)" using Cons by simp
  then have "2 ^ 32 * (uval ps + 1) \<le> 2 ^ 32 * 2 ^ (32 * length ps)" by (rule mult_le_mono2)
  then show ?case using unat_u32_lt [of p] by (simp add: power_add)
qed simp

lemma val_append: "uval (a @ b) = uval a + 2 ^ (32 * length a) * uval b"
  by (induction a) (auto simp: power_add algebra_simps)

lemma val_replicate [simp]: "uval (replicate n 0) = 0"
  by (induction n) auto

lemma val_inj: "length a = length b \<Longrightarrow> uval a = uval b \<Longrightarrow> a = b"
proof (induction a b rule: list_induct2)
  case (Cons p ps q qs)
  have e: "unat p + 2 ^ 32 * uval ps = unat q + 2 ^ 32 * uval qs" using Cons(3) by simp
  have "unat p = unat q" using arg_cong [OF e, of "\<lambda>x. x mod 2 ^ 32"] unat_u32_num [of p] unat_u32_num [of q] by simp
  moreover from this have "uval ps = uval qs" using e by simp
  ultimately show ?case using Cons(2) by (simp add: word_unat_eq_iff)
qed simp

lemma low_digit: "unat (ucast (n AND 0xffffffff :: u64) :: u32) = unat n mod 2 ^ 32"
proof -
  have "(0xffffffff :: u64) = mask 32" by (simp add: mask_eq_exp_minus_1)
  then have "n AND 0xffffffff = take_bit 32 n" by (simp add: take_bit_eq_mask)
  then show ?thesis by (simp only: unsigned_ucast_eq unsigned_take_bit_eq take_bit_take_bit)
    (simp add: take_bit_eq_mod)
qed

lemma high_digit: "unat (drop_bit 32 n :: u64) = unat n div 2 ^ 32"
  unfolding unsigned_drop_bit_eq using unsigned_less [of n, where ?'a = nat]
  by (simp add: drop_bit_eq_div take_bit_nat_eq_self)

lemma digit_step:
  "n mod 2 ^ 32 + 2 ^ 32 * ((n div 2 ^ 32 + v) mod 2 ^ (32 * k)) = (n + 2 ^ 32 * v) mod (2 ^ (32 * Suc k) :: nat)"
proof -
  have "(n + 2 ^ 32 * v) mod (2 ^ 32 * 2 ^ (32 * k)) =
      2 ^ 32 * ((n + 2 ^ 32 * v) div 2 ^ 32 mod 2 ^ (32 * k)) + (n + 2 ^ 32 * v) mod 2 ^ 32"
    by (rule mod_mult2_eq)
  then show ?thesis by (simp add: power_add add.commute)
qed

section \<open>Sums and differences\<close>

lemma length_add_loop [simp]: "length (add_loop c a b) = min (length a) (length b)"
  by (induction c a b rule: add_loop.induct) (auto simp: Let_def)

lemma unat_up [simp]: "unat (ucast (p :: u32) :: u64) = unat p"
  using unat_u32_num [of p] by (simp add: unsigned_ucast_eq take_bit_nat_eq_self_iff)

lemma unat_sum64: "unat a + unat b < 2 ^ 64 \<Longrightarrow> unat (a + b :: u64) = unat a + unat b"
  by (simp add: unat_add_lem [symmetric])

lemma unat_prod64: "unat a * unat b < 2 ^ 64 \<Longrightarrow> unat (a * b :: u64) = unat a * unat b"
  by (simp add: unat_mult_lem [symmetric])

lemma add_loop_val:
  "unat c \<le> 1 \<Longrightarrow> length a = length b \<Longrightarrow>
   uval (add_loop c a b) = (unat c + uval a + uval b) mod 2 ^ (32 * length a)"
proof (induction c a b rule: add_loop.induct)
  case (1 c p ps b bs)
  let ?n = "c + ucast p + ucast b"
  have n: "unat ?n = unat c + unat p + unat b"
    using 1(2) unat_u32_num [of p] unat_u32_num [of b] by (simp add: unat_sum64)
  have "unat (drop_bit 32 ?n) \<le> 1"
    using 1(2) unat_u32_num [of p] unat_u32_num [of b] by (simp only: high_digit n) simp
  then have "uval (add_loop (drop_bit 32 ?n) ps bs) = (unat ?n div 2 ^ 32 + (uval ps + uval bs)) mod 2 ^ (32 * length ps)"
    using 1 high_digit [of ?n] by (simp add: add.assoc)
  then have "uval (add_loop c (p # ps) (b # bs)) = (unat ?n + 2 ^ 32 * (uval ps + uval bs)) mod 2 ^ (32 * Suc (length ps))"
    using low_digit [of ?n] digit_step [of "unat ?n" "uval ps + uval bs" "length ps"] by (simp add: Let_def)
  then show ?case unfolding n by (simp add: algebra_simps)
qed auto

lemma unat_minus_1: "unat (- 1 :: u32) = 2 ^ 32 - 1"
  by (simp add: unsigned_minus_1_eq_mask mask_eq_exp_minus_1)

lemma val_not: "uval (bu_not a) = 2 ^ (32 * length a) - 1 - uval a"
proof (induction a)
  case (Cons p ps)
  have u: "unat (NOT p) = 2 ^ 32 - 1 - unat p"
  proof -
    have "NOT p = - 1 - p" by (simp add: not_eq_complement)
    then have "unat (NOT p) = unat (- 1 :: u32) - unat p" by (simp only: unat_sub word_order.extremum)
    then show ?thesis by (simp add: unat_minus_1)
  qed
  have "2 ^ 32 * uval (bu_not ps) = 2 ^ 32 * 2 ^ (32 * length ps) - 2 ^ 32 - 2 ^ 32 * uval ps"
    using Cons by (simp add: bu_not_def diff_mult_distrib2)
  moreover have "2 ^ 32 * uval ps + 2 ^ 32 \<le> (2 ^ 32 * 2 ^ (32 * length ps) :: nat)"
    using mult_le_mono2 [OF Suc_leI [OF val_lt [of ps]], of "2 ^ 32"] by simp
  ultimately show ?case using u unat_u32_num [of p] by (simp add: bu_not_def power_add)
qed (simp add: bu_not_def)

lemma length_not [simp]: "length (bu_not a) = length a"
  by (simp add: bu_not_def)

lemma length_inc [simp]: "length (bu_inc a) = length a"
  by (induction a rule: bu_inc.induct) auto

lemma inc_val: "uval (bu_inc a) = (uval a + 1) mod 2 ^ (32 * length a)"
proof (induction a rule: bu_inc.induct)
  case (2 p ps)
  show ?case
  proof (cases "p + 1 = 0")
    case True
    then have "p = - 1" by (simp add: eq_neg_iff_add_eq_0)
    then have p: "unat p = 2 ^ 32 - 1" by (simp only: unat_minus_1)
    show ?thesis
    proof (cases "ps = []")
      case False
      have "uval (bu_inc (p # ps)) = 2 ^ 32 * ((uval ps + 1) mod 2 ^ (32 * length ps))" using 2 True False by simp
      then show ?thesis using digit_step [of "2 ^ 32" "uval ps" "length ps"] p by (simp add: add.commute)
    qed (simp add: True p)
  next
    case False
    then have u: "unat (p + 1) = unat p + 1" using unatSuc [of p] by (simp add: add.commute)
    have "unat p + 1 < 2 ^ 32" using unat_u32_lt [of "p + 1"] u by simp
    moreover have "2 ^ 32 * uval ps + 2 ^ 32 \<le> (2 ^ 32 * 2 ^ (32 * length ps) :: nat)"
      using mult_le_mono2 [OF Suc_leI [OF val_lt [of ps]], of "2 ^ 32"] by simp
    ultimately show ?thesis using False u by (simp add: power_add)
  qed
qed simp

lemma neg_val: "uval (bu_neg a) = (2 ^ (32 * length a) - uval a) mod 2 ^ (32 * length a)"
proof -
  have "2 ^ (32 * length a) - 1 - uval a + 1 = 2 ^ (32 * length a) - uval a" using val_lt [of a] by simp
  then show ?thesis unfolding bu_neg_def inc_val val_not length_not by simp
qed

lemma length_neg [simp]: "length (bu_neg a) = length a"
  by (simp add: bu_neg_def)

lemma length_bu_add [simp]: "length (bu_add a b) = min (length a) (length b)"
  by (simp add: bu_add_def)

lemma bu_add_val:
  "length a = length b \<Longrightarrow> uval (bu_add a b) = (uval a + uval b) mod 2 ^ (32 * length a)"
  by (simp add: bu_add_def add_loop_val)

lemma bu_sub_val:
  assumes "length a = length b" "uval b \<le> uval a" shows "uval (bu_sub a b) = uval a - uval b"
proof -
  let ?m = "2 ^ (32 * length a) :: nat"
  have "uval (bu_sub a b) = (uval a + (?m - uval b)) mod ?m"
    using assms by (simp add: bu_sub_def bu_add_val neg_val mod_add_right_eq)
  also have "uval a + (?m - uval b) = (uval a - uval b) + ?m"
    using assms val_lt [of b] by simp
  finally show ?thesis using val_lt [of a] by simp
qed

section \<open>Products\<close>

lemma length_mul_row [simp]: "length (mul_row c x ps bs) = length ps"
  by (induction c x ps bs rule: mul_row.induct) (auto simp: Let_def)

lemma mul_step_bound:
  "c < 2 ^ 32 \<Longrightarrow> p < 2 ^ 32 \<Longrightarrow> x < 2 ^ 32 \<Longrightarrow> b < 2 ^ 32 \<Longrightarrow> c + p + x * b < (2 ^ 64 :: nat)"
proof -
  assume a: "c < 2 ^ 32" "p < 2 ^ 32" "x < 2 ^ 32" "b < (2 ^ 32 :: nat)"
  then have "x * b \<le> (2 ^ 32 - 1) * (2 ^ 32 - 1)" by (intro mult_le_mono) auto
  then show ?thesis using a by simp
qed

lemma mul_digit:
  assumes "unat (c :: u64) < 2 ^ 32"
  shows "unat (c + ucast (p :: u32) + ucast (x :: u32) * ucast (b :: u32)) = unat c + unat p + unat x * unat b"
proof -
  have "unat c + unat p + unat x * unat b < 2 ^ 64" using assms unat_u32_num by (intro mul_step_bound) simp_all
  then show ?thesis by (simp add: unat_sum64 unat_prod64)
qed

lemma mul_row_val:
  "unat c < 2 ^ 32 \<Longrightarrow> length ps \<le> length bs \<Longrightarrow>
   uval (mul_row c x ps bs) = (unat c + uval ps + unat x * uval bs) mod 2 ^ (32 * length ps)"
proof (induction c x ps bs rule: mul_row.induct)
  case (1 c x p ps b bs)
  let ?n = "c + ucast p + ucast x * ucast b"
  have n: "unat ?n = unat c + unat p + unat x * unat b" using 1(2) by (rule mul_digit)
  have "unat ?n < 2 ^ 64" using unsigned_less [of ?n, where ?'a = nat] by simp
  then have "unat (drop_bit 32 ?n) < 2 ^ 32" by (simp only: high_digit) (simp add: less_mult_imp_div_less)
  then have "uval (mul_row (drop_bit 32 ?n) x ps bs) = (unat ?n div 2 ^ 32 + (uval ps + unat x * uval bs)) mod 2 ^ (32 * length ps)"
    using 1 high_digit [of ?n] by (simp add: add.assoc)
  then have "uval (mul_row c x (p # ps) (b # bs)) = (unat ?n + 2 ^ 32 * (uval ps + unat x * uval bs)) mod 2 ^ (32 * Suc (length ps))"
    using low_digit [of ?n] digit_step [of "unat ?n" "uval ps + unat x * uval bs" "length ps"] by (simp add: Let_def)
  then show ?case unfolding n by (simp add: algebra_simps)
qed (auto simp: Let_def)

lemma split_mod: "x < M \<Longrightarrow> x + M * (y mod N) = (x + M * y) mod (M * N :: nat)"
  by (cases "M = 0") (simp_all add: mod_mult2_eq)

lemma val_take_Suc: "j < length a \<Longrightarrow> uval (take (Suc j) a) = uval (take j a) + 2 ^ (32 * j) * unat (a ! j)"
  by (simp add: take_Suc_conv_app_nth val_append min_def)

lemma val_take_drop: "j \<le> length a \<Longrightarrow> uval a = uval (take j a) + 2 ^ (32 * j) * uval (drop j a)"
  using val_append [of "take j a" "drop j a"] by (simp add: min_def)

lemma val_take_lt: "uval (take j a) < 2 ^ (32 * j)"
proof -
  have "uval (take j a) < 2 ^ (32 * length (take j a))" by (rule val_lt)
  also have "\<dots> \<le> 2 ^ (32 * j)" by (rule power_increasing) auto
  finally show ?thesis .
qed

lemma mul_rows:
  assumes "length b = length a"
  shows "j \<le> length a \<Longrightarrow>
    (let pn = foldl (\<lambda>pn j. take j pn @ mul_row 0 (a ! j) (drop j pn) b) (replicate (length a) 0) [0..<j]
     in length pn = length a \<and> uval pn = (uval (take j a) * uval b) mod 2 ^ (32 * length a))"
proof (induction j)
  case (Suc j)
  define pn where "pn = foldl (\<lambda>pn j. take j pn @ mul_row 0 (a ! j) (drop j pn) b) (replicate (length a) 0) [0..<j]"
  have l: "length pn = length a" and v: "uval pn = (uval (take j a) * uval b) mod 2 ^ (32 * length a)"
    using Suc by (simp_all add: pn_def Let_def)
  let ?pn = "take j pn @ mul_row 0 (a ! j) (drop j pn) b"
  have W: "(2::nat) ^ (32 * j) * 2 ^ (32 * (length a - j)) = 2 ^ (32 * length a)"
    using Suc.prems by (simp flip: power_add add: algebra_simps)
  have "uval ?pn = uval (take j pn) + 2 ^ (32 * j) * ((uval (drop j pn) + unat (a ! j) * uval b) mod 2 ^ (32 * (length a - j)))"
    using l Suc.prems assms by (simp add: val_append mul_row_val min_def)
  also have "\<dots> = (uval (take j pn) + 2 ^ (32 * j) * (uval (drop j pn) + unat (a ! j) * uval b)) mod 2 ^ (32 * length a)"
    using split_mod [OF val_take_lt] W by simp
  also have "\<dots> = (uval pn + 2 ^ (32 * j) * unat (a ! j) * uval b) mod 2 ^ (32 * length a)"
    using val_take_drop [of j pn] l Suc.prems by (simp add: algebra_simps)
  also have "\<dots> = (uval (take j a) * uval b + 2 ^ (32 * j) * unat (a ! j) * uval b) mod 2 ^ (32 * length a)"
    unfolding v by (rule mod_add_left_eq)
  also have "\<dots> = (uval (take (Suc j) a) * uval b) mod 2 ^ (32 * length a)"
    using val_take_Suc [of j a] Suc.prems by (simp add: algebra_simps)
  finally show ?case using l Suc.prems by (simp add: Let_def flip: pn_def)
qed simp

lemma bu_mul_val:
  assumes "length b = length a"
  shows "length (bu_mul a b) = length a" and "uval (bu_mul a b) = (uval a * uval b) mod 2 ^ (32 * length a)"
  using mul_rows [OF assms order_refl] by (simp_all add: bu_mul_def Let_def)

lemma mul32_loop_row: "mul32_loop x c a = mul_row c x (replicate (length a) 0) a"
  by (induction x c a rule: mul32_loop.induct) (auto simp: Let_def)

lemma bu_mul32_val: "uval (bu_mul32 a x) = (uval a * unat x) mod 2 ^ (32 * length a)"
  by (simp add: bu_mul32_def mul32_loop_row mul_row_val mult.commute)

section \<open>Bits of a value\<close>

lemma bit_concat:
  assumes "x < 2 ^ k" shows "bit (x + 2 ^ k * y) n = (if n < k then bit x n else bit (y :: nat) (n - k))"
proof (cases "n < k")
  case True
  then have "2 ^ k = 2 ^ n * (2 * 2 ^ (k - n - 1) :: nat)" by (simp flip: power_add power_Suc)
  then have "(x + 2 ^ k * y) div 2 ^ n = x div 2 ^ n + 2 * (2 ^ (k - n - 1) * y)"
    by (simp add: mult.assoc)
  then show ?thesis using True by (simp add: bit_iff_odd)
next
  case False
  then have "2 ^ n = 2 ^ k * (2 ^ (n - k) :: nat)" by (simp flip: power_add)
  then have "(x + 2 ^ k * y) div 2 ^ n = (x + 2 ^ k * y) div 2 ^ k div 2 ^ (n - k)"
    by (simp only: div_mult2_eq)
  then show ?thesis using assms False by (simp add: bit_iff_odd)
qed

lemma bit_uval: "bit (uval a) n \<longleftrightarrow> n < 32 * length a \<and> bit (a ! (n div 32)) (n mod 32)"
proof (induction a arbitrary: n)
  case (Cons p ps)
  have "bit (uval (p # ps)) n = (if n < 32 then bit (unat p) n else bit (uval ps) (n - 32))"
    by (simp only: uval.simps bit_concat [OF unat_u32_lt])
  also have "\<dots> \<longleftrightarrow> n < 32 * length (p # ps) \<and> bit ((p # ps) ! (n div 32)) (n mod 32)"
  proof (cases "n < 32")
    case False
    then obtain m where "n = m + 32" by (metis add.commute le_Suc_ex not_less)
    moreover have "(m + 32) div 32 = Suc (m div 32)" by simp
    ultimately show ?thesis using Cons by simp
  qed (simp add: bit_unsigned_iff)
  finally show ?case .
qed simp

lemma length_or_at [simp]: "length (or_at i x pn) = length pn"
  by (simp add: or_at_def)

lemma nth_or_at: "or_at i x pn ! m = (if m = i \<and> i < length pn then pn ! i OR x else pn ! m)"
  by (cases "i < length pn") (auto simp: or_at_def list_update_beyond)

section \<open>Shifts\<close>

lemma shl_steps:
  fixes a k s
  defines "low i m \<equiv> if m \<ge> k + 1 \<and> m - k - 1 < i \<and> s \<noteq> 0 then drop_bit (32 - s) (a ! (m - k - 1)) else 0"
    and "high i m \<equiv> if m \<ge> k \<and> m - k < i then push_bit s (a ! (m - k)) else 0"
  shows "length (foldl (shl_step a k s) (replicate (length a) 0) [0..<i]) = length a \<and>
    (\<forall>m < length a. foldl (shl_step a k s) (replicate (length a) 0) [0..<i] ! m = low i m OR high i m)"
proof (induction i)
  case 0 show ?case by (simp add: low_def high_def)
next
  case (Suc i)
  define pn where "pn = foldl (shl_step a k s) (replicate (length a) 0) [0..<i]"
  have l: "length pn = length a" and v: "\<And>m. m < length a \<Longrightarrow> pn ! m = low i m OR high i m"
    using Suc by (simp_all add: pn_def)
  have "shl_step a k s pn i ! m = low (Suc i) m OR high (Suc i) m" if m: "m < length a" for m
  proof -
    have "low (Suc i) m = (if m = i + k + 1 \<and> s \<noteq> 0 then drop_bit (32 - s) (a ! i) else low i m)"
      by (auto simp: low_def)
    moreover have "high (Suc i) m = (if m = i + k then push_bit s (a ! i) else high i m)"
      by (auto simp: high_def)
    moreover have "low i (i + k + 1) = 0" "high i (i + k) = 0" "high i (i + k + 1) = 0"
      by (auto simp: low_def high_def)
    ultimately show ?thesis using m l v by (auto simp: shl_step_def Let_def nth_or_at or.commute)
  qed
  moreover have "length (shl_step a k s pn i) = length a" using l by (simp add: shl_step_def Let_def)
  ultimately show ?case by (simp flip: pn_def)
qed

lemma nth_shl:
  assumes "m < length a"
  shows "bu_shl a S ! m =
    (if m \<ge> S div 32 + 1 \<and> S mod 32 \<noteq> 0 then drop_bit (32 - S mod 32) (a ! (m - S div 32 - 1)) else 0) OR
    (if m \<ge> S div 32 then push_bit (S mod 32) (a ! (m - S div 32)) else 0)"
  using shl_steps [of a "S div 32" "S mod 32" "length a"] assms by (auto simp: bu_shl_def)

lemma length_shl [simp]: "length (bu_shl a S) = length a"
  using shl_steps [of a "S div 32" "S mod 32" "length a"] by (simp add: bu_shl_def)

lemma shr_steps:
  fixes a k s
  defines "high i m \<equiv> if m + k + 1 < i \<and> s \<noteq> 0 then push_bit (32 - s) (a ! (m + k + 1)) else 0"
    and "low i m \<equiv> if m + k < i then drop_bit s (a ! (m + k)) else 0"
  shows "i \<le> length a \<Longrightarrow> length (foldl (shr_step a k s) (replicate (length a) 0) [0..<i]) = length a \<and>
    (\<forall>m < length a. foldl (shr_step a k s) (replicate (length a) 0) [0..<i] ! m = high i m OR low i m)"
proof (induction i)
  case 0 show ?case by (simp add: low_def high_def)
next
  case (Suc i)
  define pn where "pn = foldl (shr_step a k s) (replicate (length a) 0) [0..<i]"
  have l: "length pn = length a" and v: "\<And>m. m < length a \<Longrightarrow> pn ! m = high i m OR low i m"
    using Suc by (simp_all add: pn_def)
  have "shr_step a k s pn i ! m = high (Suc i) m OR low (Suc i) m" if m: "m < length a" for m
  proof -
    have "high (Suc i) m = (if i = m + k + 1 \<and> s \<noteq> 0 then push_bit (32 - s) (a ! i) else high i m)"
      by (auto simp: high_def)
    moreover have "low (Suc i) m = (if i = m + k then drop_bit s (a ! i) else low i m)"
      by (auto simp: low_def)
    moreover have "i = m + k + 1 \<Longrightarrow> high i m = 0" "i = m + k \<Longrightarrow> low i m = 0" "i = m + k \<Longrightarrow> high i m = 0"
      by (auto simp: low_def high_def)
    ultimately show ?thesis using m l v [OF m] Suc.prems by (auto simp: shr_step_def Let_def nth_or_at or.commute)
  qed
  moreover have "length (shr_step a k s pn i) = length a" using l by (simp add: shr_step_def Let_def)
  ultimately show ?case by (simp flip: pn_def)
qed

lemma nth_shr:
  assumes "m < length a"
  shows "bu_shr a S ! m =
    (if m + S div 32 + 1 < length a \<and> S mod 32 \<noteq> 0 then push_bit (32 - S mod 32) (a ! (m + S div 32 + 1)) else 0) OR
    (if m + S div 32 < length a then drop_bit (S mod 32) (a ! (m + S div 32)) else 0)"
  using shr_steps [of "length a" a "S div 32" "S mod 32"] assms by (auto simp: bu_shr_def)

lemma length_shr [simp]: "length (bu_shr a S) = length a"
  using shr_steps [of "length a" a "S div 32" "S mod 32"] by (simp add: bu_shr_def)

lemma u32_bit_lt: "bit (x :: u32) n \<Longrightarrow> n < 32"
  by (auto dest: bit_imp_le_length)

lemma digits_of: "x = 32 * q + t \<Longrightarrow> t < 32 \<Longrightarrow> x div 32 = q \<and> x mod 32 = (t :: nat)"
  by simp

lemma sub_digits:
  assumes "r < 32" "s < (32 :: nat)"
  shows "s \<le> r \<Longrightarrow> (32 * k + s \<le> 32 * m + r \<longleftrightarrow> k \<le> m) \<and> (k \<le> m \<longrightarrow>
      (32 * m + r - (32 * k + s)) div 32 = m - k \<and> (32 * m + r - (32 * k + s)) mod 32 = r - s)"
    and "r < s \<Longrightarrow> (32 * k + s \<le> 32 * m + r \<longleftrightarrow> k + 1 \<le> m) \<and> (k + 1 \<le> m \<longrightarrow>
      (32 * m + r - (32 * k + s)) div 32 = m - k - 1 \<and> (32 * m + r - (32 * k + s)) mod 32 = 32 - s + r)"
proof -
  assume a: "s \<le> r"
  have "32 * m + r - (32 * k + s) = 32 * (m - k) + (r - s)" if "k \<le> m" using a that by arith
  then have "k \<le> m \<longrightarrow> (32 * m + r - (32 * k + s)) div 32 = m - k \<and> (32 * m + r - (32 * k + s)) mod 32 = r - s"
    using assms digits_of [of "32 * m + r - (32 * k + s)" "m - k" "r - s"] by simp
  moreover have "32 * k + s \<le> 32 * m + r \<longleftrightarrow> k \<le> m" using a assms by arith
  ultimately show "(32 * k + s \<le> 32 * m + r \<longleftrightarrow> k \<le> m) \<and> (k \<le> m \<longrightarrow>
      (32 * m + r - (32 * k + s)) div 32 = m - k \<and> (32 * m + r - (32 * k + s)) mod 32 = r - s)" by blast
next
  assume a: "r < s"
  have "32 * m + r - (32 * k + s) = 32 * (m - k - 1) + (32 - s + r)" if "k + 1 \<le> m" using a assms that by arith
  then have "k + 1 \<le> m \<longrightarrow> (32 * m + r - (32 * k + s)) div 32 = m - k - 1 \<and> (32 * m + r - (32 * k + s)) mod 32 = 32 - s + r"
    using a assms digits_of [of "32 * m + r - (32 * k + s)" "m - k - 1" "32 - s + r"] by simp
  moreover have "32 * k + s \<le> 32 * m + r \<longleftrightarrow> k + 1 \<le> m" using a assms by arith
  ultimately show "(32 * k + s \<le> 32 * m + r \<longleftrightarrow> k + 1 \<le> m) \<and> (k + 1 \<le> m \<longrightarrow>
      (32 * m + r - (32 * k + s)) div 32 = m - k - 1 \<and> (32 * m + r - (32 * k + s)) mod 32 = 32 - s + r)" by blast
qed

lemma lt_digits: "x < 32 * n \<longleftrightarrow> x div 32 < (n :: nat)"
  by (simp add: div_less_iff_less_mult mult.commute)

lemma add_digits:
  assumes "r < 32" "s < (32 :: nat)"
  shows "r + s < 32 \<Longrightarrow> (32 * m + r + (32 * k + s)) div 32 = m + k \<and> (32 * m + r + (32 * k + s)) mod 32 = r + s"
    and "\<not> r + s < 32 \<Longrightarrow> (32 * m + r + (32 * k + s)) div 32 = m + k + 1 \<and> (32 * m + r + (32 * k + s)) mod 32 = r - (32 - s)"
  using assms digits_of [of "32 * m + r + (32 * k + s)" "m + k" "r + s"]
    digits_of [of "32 * m + r + (32 * k + s)" "m + k + 1" "r - (32 - s)"]
  by simp_all

lemma bu_shl_val: "uval (bu_shl a S) = (uval a * 2 ^ S) mod 2 ^ (32 * length a)"
proof -
  have "bit (uval (bu_shl a S)) n \<longleftrightarrow> n < 32 * length a \<and> S \<le> n \<and> bit (uval a) (n - S)" for n
  proof (cases "n < 32 * length a")
    case True
    obtain m r k s where d: "n div 32 = m" "n mod 32 = r" "S div 32 = k" "S mod 32 = s" by blast
    then have n: "n = 32 * m + r" and S: "S = 32 * k + s" and r: "r < 32" and s: "s < 32" by auto
    have m: "m < length a" using True d(1) by (simp add: lt_digits)
    have x: "bit (uval (bu_shl a S)) n \<longleftrightarrow> (k + 1 \<le> m \<and> s \<noteq> 0 \<and> bit (a ! (m - k - 1)) (32 - s + r)) \<or>
        (k \<le> m \<and> s \<le> r \<and> bit (a ! (m - k)) (r - s))"
      using True r by (auto simp: bit_uval d nth_shl [OF m] bit_or_iff bit_drop_bit_eq bit_push_bit_iff)
    show ?thesis
    proof (cases "s \<le> r")
      case True
      have "\<not> bit (a ! (m - k - 1)) (32 - s + r)" if "s \<noteq> 0" using True s u32_bit_lt by fastforce
      then show ?thesis using sub_digits(1) [OF r s True, of k m] m x \<open>n < 32 * length a\<close>
        by (auto simp: bit_uval n S)
    next
      case False
      then show ?thesis using sub_digits(2) [OF r s, of k m] m x \<open>n < 32 * length a\<close>
        by (auto simp: bit_uval n S)
    qed
  qed (simp add: bit_uval)
  then have "uval (bu_shl a S) = take_bit (32 * length a) (push_bit S (uval a))"
    by (intro bit_eqI) (auto simp: bit_take_bit_iff bit_push_bit_iff)
  then show ?thesis by (simp add: take_bit_eq_mod push_bit_eq_mult)
qed

lemma bu_shr_val: "uval (bu_shr a S) = uval a div 2 ^ S"
proof -
  have "bit (uval (bu_shr a S)) n \<longleftrightarrow> bit (uval a) (n + S)" for n
  proof (cases "n < 32 * length a")
    case True
    obtain m r k s where d: "n div 32 = m" "n mod 32 = r" "S div 32 = k" "S mod 32 = s" by blast
    then have n: "n = 32 * m + r" and S: "S = 32 * k + s" and r: "r < 32" and s: "s < 32" by auto
    have m: "m < length a" using True d(1) by (simp add: lt_digits)
    have x: "bit (uval (bu_shr a S)) n \<longleftrightarrow>
        (m + k + 1 < length a \<and> s \<noteq> 0 \<and> 32 - s \<le> r \<and> bit (a ! (m + k + 1)) (r - (32 - s))) \<or>
        (m + k < length a \<and> bit (a ! (m + k)) (s + r))"
      using True r by (auto simp: bit_uval d nth_shr [OF m] bit_or_iff bit_drop_bit_eq bit_push_bit_iff)
    show ?thesis
    proof (cases "r + s < 32")
      case True
      then have e: "(n + S) div 32 = m + k" "(n + S) mod 32 = s + r"
        using add_digits(1) [OF r s True, of m k] by (simp_all add: n S)
      show ?thesis unfolding x bit_uval [of a] lt_digits e using True by auto
    next
      case False
      then have e: "(n + S) div 32 = m + k + 1" "(n + S) mod 32 = r - (32 - s)"
        using add_digits(2) [OF r s False, of m k] by (simp_all add: n S)
      have "\<not> bit (a ! (m + k)) (s + r)" using False u32_bit_lt by fastforce
      then show ?thesis unfolding x bit_uval [of a] lt_digits e using False r by auto
    qed
  qed (simp add: bit_uval)
  then have "uval (bu_shr a S) = drop_bit S (uval a)"
    by (intro bit_eqI) (simp add: bit_drop_bit_eq add.commute)
  then show ?thesis by (simp add: drop_bit_eq_div)
qed

section \<open>Order\<close>

lemma cmp_loop_val:
  "i \<le> length a \<Longrightarrow> i \<le> length b \<Longrightarrow>
   cmp_loop i a b = sgn (int (uval (take i a)) - int (uval (take i b)))"
proof (induction i)
  case (Suc i)
  have t: "uval (take i a) < 2 ^ (32 * i)" "uval (take i b) < 2 ^ (32 * i)" by (rule val_take_lt)+
  have v: "uval (take (Suc i) a) = uval (take i a) + 2 ^ (32 * i) * unat (a ! i)"
      "uval (take (Suc i) b) = uval (take i b) + 2 ^ (32 * i) * unat (b ! i)"
    using Suc.prems by (simp_all add: val_take_Suc)
  have step: "x + M * p < y + M * q" if "x < M" "p < q" for x y M p q :: nat
  proof -
    have "x + M * p < M * Suc p" using that by simp
    also have "\<dots> \<le> M * q" using that by (simp only: mult_le_mono2 Suc_leI)
    finally show ?thesis by simp
  qed
  consider "unat (a ! i) < unat (b ! i)" | "unat (b ! i) < unat (a ! i)" | "unat (a ! i) = unat (b ! i)" by linarith
  then show ?case
  proof cases
    case 1
    then have "uval (take (Suc i) a) < uval (take (Suc i) b)" using step [OF t(1) 1, of "uval (take i b)"] v by simp
    then show ?thesis using 1 by (simp add: word_less_nat_alt)
  next
    case 2
    then have "uval (take (Suc i) b) < uval (take (Suc i) a)" using step [OF t(2) 2, of "uval (take i a)"] v by simp
    then show ?thesis using 2 by (simp add: word_less_nat_alt)
  next
    case 3
    then show ?thesis using Suc v by (simp add: word_less_nat_alt)
  qed
qed simp

lemma CompareTo_val: "length a = length b \<Longrightarrow> CompareTo a b = sgn (int (uval a) - int (uval b))"
  by (simp add: CompareTo_def cmp_loop_val)

lemma CompareTo_ge: "length a = length b \<Longrightarrow> CompareTo a b \<ge> 0 \<longleftrightarrow> uval b \<le> uval a"
  by (auto simp: CompareTo_val sgn_if)

section \<open>The number of bits\<close>

lemma top_bit: "x < 2 ^ Suc n \<Longrightarrow> bit (x :: nat) n \<longleftrightarrow> 2 ^ n \<le> x"
proof -
  assume "x < 2 ^ Suc n"
  then have "x div 2 ^ n < 2" by (simp add: less_mult_imp_div_less mult.commute)
  then have "odd (x div 2 ^ n) \<longleftrightarrow> x div 2 ^ n \<noteq> 0" by (cases "x div 2 ^ n") auto
  then show ?thesis by (simp add: bit_iff_odd div_eq_0_iff not_less)
qed

lemma word_bits_val:
  "unat p < 2 ^ Suc b \<Longrightarrow> p \<noteq> 0 \<Longrightarrow> 2 ^ word_bits b p \<le> unat p \<and> unat p < 2 ^ Suc (word_bits b p)"
proof (induction b)
  case 0
  then have "unat p \<noteq> 0" by (simp add: unat_eq_zero)
  then show ?case using 0 by simp
next
  case (Suc b)
  have "p AND push_bit (Suc b) 1 \<noteq> 0 \<longleftrightarrow> bit p (Suc b)"
    by (metis and_exp_eq_0_iff_not_bit push_bit_of_1)
  also have "\<dots> \<longleftrightarrow> bit (unat p) (Suc b)" by (simp add: bit_unsigned_iff)
  also have "\<dots> \<longleftrightarrow> 2 ^ Suc b \<le> unat p" using Suc.prems(1) by (rule top_bit)
  finally show ?case using Suc by (simp add: not_le del: push_bit_of_1)
qed

lemma bits_loop_val:
  "pos \<le> length a \<Longrightarrow> uval (take pos a) < 2 ^ bits_loop pos a \<and>
   (bits_loop pos a = 0 \<or> 2 ^ (bits_loop pos a - 1) \<le> uval (take pos a)) \<and> bits_loop pos a \<le> 32 * pos"
proof (induction pos)
  case (Suc pos)
  let ?p = "a ! pos"
  have v: "uval (take (Suc pos) a) = uval (take pos a) + 2 ^ (32 * pos) * unat ?p" using Suc.prems by (simp add: val_take_Suc)
  show ?case
  proof (cases "?p = 0")
    case False
    let ?w = "word_bits 31 ?p"
    let ?V = "uval (take (Suc pos) a)"
    have w: "2 ^ ?w \<le> unat ?p" "unat ?p < 2 ^ Suc ?w" using word_bits_val [of ?p 31] False unat_u32_num [of ?p] by auto
    have "uval (take pos a) + 2 ^ (32 * pos) * unat ?p < 2 ^ (32 * pos) * Suc (unat ?p)" using val_take_lt [of pos a] by simp
    also have "\<dots> \<le> 2 ^ (32 * pos) * 2 ^ Suc ?w" using w(2) by (intro mult_le_mono2) simp
    finally have "uval (take (Suc pos) a) < 2 ^ (32 * pos + ?w + 1)" using v by (simp add: power_add)
    moreover have "2 ^ (32 * pos) * 2 ^ ?w \<le> 2 ^ (32 * pos) * unat ?p" using w(1) by (rule mult_le_mono2)
    then have "2 ^ (32 * pos + ?w) \<le> ?V" unfolding v power_add by (rule order_trans) simp
    moreover have "?w < 32"
    proof (rule ccontr)
      assume "\<not> ?w < 32"
      then have "(2::nat) ^ 32 \<le> 2 ^ ?w" by (intro power_increasing) auto
      then show False using w(1) unat_u32_lt [of ?p] by linarith
    qed
    ultimately show ?thesis using False by simp
  next
    case True
    then show ?thesis using Suc v by simp
  qed
qed simp

lemma bits_val:
  "uval a < 2 ^ ubits a" "ubits a \<noteq> 0 \<Longrightarrow> 2 ^ (ubits a - 1) \<le> uval a" "ubits a \<le> 32 * length a" "ubits a = 0 \<longleftrightarrow> uval a = 0"
proof -
  have b: "uval a < 2 ^ ubits a \<and> (ubits a = 0 \<or> 2 ^ (ubits a - 1) \<le> uval a) \<and> ubits a \<le> 32 * length a"
    using bits_loop_val [of "length a" a] by (simp add: ubits_def)
  then show "uval a < 2 ^ ubits a" "ubits a \<noteq> 0 \<Longrightarrow> 2 ^ (ubits a - 1) \<le> uval a" "ubits a \<le> 32 * length a" by auto
  have "(0::nat) < 2 ^ (ubits a - 1)" by simp
  then have "ubits a \<noteq> 0 \<Longrightarrow> uval a \<noteq> 0" using b by linarith
  then show "ubits a = 0 \<longleftrightarrow> uval a = 0" using b by auto
qed

section \<open>Division\<close>

text \<open>
  With \<open>n\<close> rounds to go: the divisor is shifted by \<open>n - 1\<close>, what is left of the dividend is below
  its double, the low \<open>n\<close> bits of the quotient are clear, and quotient and rest account for the
  dividend.
\<close>

definition div_inv :: "nat \<Rightarrow> nat \<Rightarrow> nat \<Rightarrow> nat \<Rightarrow> base_uint \<times> base_uint \<times> base_uint \<Rightarrow> bool" where
  "div_inv w A B n = (\<lambda>(num, d, q).
     length num = w \<and> length d = w \<and> length q = w \<and>
     (n \<noteq> 0 \<longrightarrow> uval d = B * 2 ^ (n - 1)) \<and> uval num < B * 2 ^ n \<and> 2 ^ n dvd uval q \<and> A = uval q * B + uval num)"

lemma set_bit_uval:
  assumes "2 ^ Suc s dvd uval q" "s < 32 * length q"
  shows "uval (or_at (s div 32) (push_bit (s mod 32) 1) q) = uval q + 2 ^ s"
proof -
  have c: "\<not> bit (uval q) s"
  proof -
    obtain m where "uval q = 2 ^ Suc s * m" using assms(1) by (auto elim: dvdE)
    then have "uval q div 2 ^ s = 2 * m" by simp
    then show ?thesis by (simp add: bit_iff_odd)
  qed
  have i: "s div 32 < length q" using assms(2) by (simp add: lt_digits)
  have "bit (uval (or_at (s div 32) (push_bit (s mod 32) 1) q)) n \<longleftrightarrow> bit (uval q) n \<or> n = s" for n
  proof -
    have "bit (push_bit (s mod 32) 1 :: u32) (n mod 32) \<longleftrightarrow> n mod 32 = s mod 32"
      by (auto simp: bit_push_bit_iff bit_1_iff simp del: push_bit_of_1)
    moreover have "n = s \<longleftrightarrow> n div 32 = s div 32 \<and> n mod 32 = s mod 32" by (metis mult_div_mod_eq)
    ultimately show ?thesis using i assms(2)
      by (cases "n div 32 = s div 32") (auto simp: bit_uval nth_or_at bit_or_iff lt_digits simp del: push_bit_of_1)
  qed
  then have "uval (or_at (s div 32) (push_bit (s mod 32) 1) q) = uval q OR 2 ^ s"
    by (intro bit_eqI) (auto simp: bit_or_iff bit_exp_iff)
  also have "\<dots> = uval q + 2 ^ s"
  proof -
    have "uval q AND 2 ^ s = 0" using c by (simp add: and_exp_eq_0_iff_not_bit)
    then show ?thesis by (simp add: disjunctive_add_eq_or)
  qed
  finally show ?thesis .
qed

lemma div_step_inv:
  assumes "div_inv w A B (Suc n) s" "0 < B" "n < 32 * w"
  shows "div_inv w A B n (div_step n s)"
proof -
  obtain num d q where s: "s = (num, d, q)" by (cases s) auto
  have l: "length num = w" "length d = w" "length q = w" and d: "uval d = B * 2 ^ n"
    and num: "uval num < B * 2 ^ Suc n" and q: "2 ^ Suc n dvd uval q" and A: "A = uval q * B + uval num"
    using assms(1) by (simp_all add: div_inv_def s)
  have q': "2 ^ n dvd uval q" using q by (metis dvd_mult_left power_Suc2)
  have d': "n \<noteq> 0 \<longrightarrow> uval (bu_shr d 1) = B * 2 ^ (n - 1)" using d by (cases n) (auto simp: bu_shr_val)
  show ?thesis
  proof (cases "CompareTo num d \<ge> 0")
    case True
    then have le: "uval d \<le> uval num" using l by (simp add: CompareTo_ge)
    have "uval (bu_sub num d) = uval num - uval d" using l le by (simp add: bu_sub_val)
    moreover have "uval (or_at (n div 32) (push_bit (n mod 32) 1) q) = uval q + 2 ^ n"
      using set_bit_uval [OF q] assms(3) l by simp
    moreover have "length (bu_sub num d) = w" using l by (simp add: bu_sub_def)
    ultimately show ?thesis using True l d d' num q' A le
      by (simp add: div_inv_def s div_step_def algebra_simps dvd_add del: push_bit_of_1)
  next
    case False
    then have "uval num < uval d" using l by (simp add: CompareTo_ge)
    then show ?thesis using False l d d' q' A by (simp add: div_inv_def s div_step_def)
  qed
qed

lemma div_loop_inv:
  "div_inv w A B n s \<Longrightarrow> 0 < B \<Longrightarrow> n \<le> 32 * w \<Longrightarrow> div_inv w A B 0 (div_loop n s)"
  by (induction n arbitrary: s) (auto simp: div_step_inv)

lemma bu_div_val:
  assumes "length a = length b"
  shows "map_option uval (bu_div a b) = (if uval b = 0 then None else Some (uval a div uval b))"
proof (cases "ubits b = 0 \<or> ubits b > ubits a")
  case True
  have "uval a < uval b" if "ubits b > ubits a"
  proof -
    have "2 ^ ubits a \<le> (2 ^ (ubits b - 1) :: nat)" using that by (intro power_increasing) auto
    then show ?thesis using bits_val(1) [of a] bits_val(2) [of b] that by linarith
  qed
  then show ?thesis using True bits_val(4) [of b] by (auto simp: bu_div_def Let_def)
next
  case False
  let ?n = "ubits a - ubits b" and ?A = "uval a" and ?B = "uval b"
  have B: "0 < ?B" using False bits_val(4) [of b] by simp
  have e: "ubits b + ?n = ubits a" using False by simp
  have "?B * 2 ^ ?n < 2 ^ ubits b * 2 ^ ?n" using bits_val(1) [of b] by simp
  also have "\<dots> = 2 ^ ubits a" using e by (simp flip: power_add)
  also have "\<dots> \<le> 2 ^ (32 * length a)" using bits_val(3) [of a] by (rule power_increasing) simp
  finally have shl: "uval (bu_shl b ?n) = ?B * 2 ^ ?n" using assms by (simp add: bu_shl_val)
  have "2 ^ (ubits b - 1) * 2 ^ Suc ?n \<le> ?B * 2 ^ Suc ?n" using bits_val(2) [of b] False by simp
  moreover have "(2::nat) ^ (ubits b - 1) * 2 ^ Suc ?n = 2 ^ ubits a" using e False by (simp flip: power_add power_Suc)
  ultimately have "?A < ?B * 2 ^ Suc ?n" using bits_val(1) [of a] by linarith
  then have "div_inv (length a) ?A ?B (Suc ?n) (a, bu_shl b ?n, replicate (length a) 0)"
    using shl assms by (simp add: div_inv_def)
  moreover have "Suc ?n \<le> 32 * length a" using bits_val(3) [of a] False by (cases "ubits b") auto
  ultimately have "div_inv (length a) ?A ?B 0 (div_loop (Suc ?n) (a, bu_shl b ?n, replicate (length a) 0))"
    using B by (intro div_loop_inv)
  then obtain num d q where r: "div_loop (Suc ?n) (a, bu_shl b ?n, replicate (length a) 0) = (num, d, q)"
      "uval num < ?B" "?A = uval q * ?B + uval num"
    by (auto simp: div_inv_def split: prod.splits)
  then have "?A div ?B = uval q" by simp
  then show ?thesis using r False B by (simp add: bu_div_def Let_def del: div_loop.simps)
qed

section \<open>256-bit words\<close>

definition limbs :: "256 word \<Rightarrow> base_uint" where
  "limbs x = map (\<lambda>i. ucast (drop_bit (32 * i) x)) [0..<8]"

lemma length_limbs [simp]: "length (limbs x) = 8"
  by (simp add: limbs_def)

lemma uval_limbs [simp]: "uval (limbs x) = unat x"
proof (rule bit_eqI)
  fix n :: nat
  show "bit (uval (limbs x)) n \<longleftrightarrow> bit (unat x) n"
  proof (cases "n < 256")
    case True
    then have "n div 32 < 8" by (simp add: less_mult_imp_div_less)
    then have "limbs x ! (n div 32) = ucast (drop_bit (32 * (n div 32)) x)" by (simp add: limbs_def del: upt_rec_numeral)
    moreover have "bit (ucast (drop_bit (32 * (n div 32)) x) :: u32) (n mod 32) \<longleftrightarrow> bit x (32 * (n div 32) + n mod 32)"
      by (simp add: bit_ucast_iff bit_drop_bit_eq del: mult_div_mod_eq)
    ultimately show ?thesis using True by (simp add: bit_uval bit_unsigned_iff)
  next
    case False
    then show ?thesis by (auto simp: bit_uval bit_unsigned_iff dest: bit_imp_le_length)
  qed
qed

end
