(* ===== verification/Compact.thy ===== *)
theory Compact
  imports BaseUint
begin

unbundle bit_operations_syntax

text \<open>
  The compact form of a target (\<^verbatim>\<open>uint256::SetCompact\<close> and \<^verbatim>\<open>GetCompact\<close> of
  \<^verbatim>\<open>src/src/uint256.cpp\<close>) and the work of a block (\<^verbatim>\<open>CheckProofOfWork\<close> and \<^verbatim>\<open>GetBlockProof\<close> of
  \<^verbatim>\<open>src/src/pow.cpp\<close>). A \<^verbatim>\<open>uint256\<close> is a 256-bit word; its number of bits is counted by the loop on
  its 32-bit words.

  The lemmas show that the two assertions of \<^verbatim>\<open>GetCompact\<close> hold, how much of a target its compact
  form keeps, and that the work of a block is the quotient the comment in the code promises.
\<close>

section \<open>Definitions\<close>

text \<open>\<^verbatim>\<open>SetCompact\<close>: the number, whether it is negative, whether it overflows.\<close>

definition SetCompact :: "u32 \<Rightarrow> 256 word \<times> bool \<times> bool" where
  "SetCompact nCompact =
     (let nSize = unat (drop_bit 24 nCompact); nWord0 = nCompact AND 0x007fffff;
          nWord = (if nSize \<le> 3 then drop_bit (8 * (3 - nSize)) nWord0 else nWord0);
          x = (if nSize \<le> 3 then ucast nWord else push_bit (8 * (nSize - 3)) (ucast nWord))
      in (x, nWord \<noteq> 0 \<and> nCompact AND 0x00800000 \<noteq> 0,
          nWord \<noteq> 0 \<and> (nSize > 34 \<or> (nWord > 0xff \<and> nSize > 33) \<or> (nWord > 0xffff \<and> nSize > 32))))"

text \<open>\<^verbatim>\<open>GetCompact\<close>; \<open>None\<close> is a failed assertion.\<close>

definition GetCompact :: "256 word \<Rightarrow> bool \<Rightarrow> u32 option" where
  "GetCompact bn fNegative =
     (let nSize = (ubits (limbs bn) + 7) div 8;
          nCompact = (if nSize \<le> 3 then ucast (push_bit (8 * (3 - nSize)) (ucast bn :: u64))
                      else ucast (ucast (drop_bit (8 * (nSize - 3)) bn) :: u64)) :: u32;
          (nCompact, nSize) = (if nCompact AND 0x00800000 \<noteq> 0 then (drop_bit 8 nCompact, nSize + 1)
                               else (nCompact, nSize))
      in if nCompact AND NOT 0x007fffff \<noteq> 0 then None
         else if \<not> nSize < 256 then None
         else let nCompact = nCompact OR push_bit 24 (word_of_nat nSize)
              in Some (nCompact OR (if fNegative \<and> nCompact AND 0x007fffff \<noteq> 0 then 0x00800000 else 0)))"

definition CheckProofOfWork :: "bool \<Rightarrow> 256 word \<Rightarrow> 256 word \<Rightarrow> u32 \<Rightarrow> bool" where
  "CheckProofOfWork skip limit hash1 nBits =
     (if skip then True
      else case SetCompact nBits of (bnTarget, fNegative, fOverflow) \<Rightarrow>
        if fNegative \<or> bnTarget = 0 \<or> fOverflow \<or> bnTarget > limit then False
        else if hash1 > bnTarget then False
        else True)"

text \<open>\<^verbatim>\<open>None\<close> is the \<^verbatim>\<open>uint_error\<close> of a division by zero.\<close>

definition GetBlockProof :: "u32 \<Rightarrow> 256 word option" where
  "GetBlockProof nBits =
     (case SetCompact nBits of (bnTarget, fNegative, fOverflow) \<Rightarrow>
        if fNegative \<or> fOverflow \<or> bnTarget = 0 then Some 0
        else if bnTarget + 1 = 0 then None
        else Some ((NOT bnTarget) div (bnTarget + 1) + 1))"

section \<open>The fields of a compact number\<close>

lemma u32_mask23: "unat (c AND 0x007fffff :: u32) = unat c mod 2 ^ 23"
proof -
  have "(0x007fffff :: u32) = mask 23" by (simp add: mask_eq_exp_minus_1)
  then have "c AND 0x007fffff = take_bit 23 c" by (simp add: take_bit_eq_mask)
  then show ?thesis by (simp only: unsigned_take_bit_eq) (simp add: take_bit_eq_mod)
qed

lemma u32_bit23: "c AND 0x00800000 \<noteq> 0 \<longleftrightarrow> bit (c :: u32) 23"
proof -
  have "(0x00800000 :: u32) = 2 ^ 23" by simp
  then show ?thesis by (metis and_exp_eq_0_iff_not_bit)
qed

lemma u32_high: "c AND NOT 0x007fffff = 0 \<longleftrightarrow> unat (c :: u32) < 2 ^ 23"
proof -
  have "(0x007fffff :: u32) = mask 23" by (simp add: mask_eq_exp_minus_1)
  then have "c AND NOT 0x007fffff = 0 \<longleftrightarrow> take_bit 23 c = c"
    by (auto simp: take_bit_eq_mask bit_eq_iff bit_simps)
  also have "\<dots> \<longleftrightarrow> unat c mod 2 ^ 23 = unat c"
    by (simp only: word_unat_eq_iff unsigned_take_bit_eq) (simp add: take_bit_eq_mod)
  also have "\<dots> \<longleftrightarrow> unat c < 2 ^ 23" by (simp add: mod_eq_self_iff_div_eq_0 div_eq_0_iff)
  finally show ?thesis .
qed

text \<open>A compact number from its mantissa and its size.\<close>

definition compact_of :: "nat \<Rightarrow> nat \<Rightarrow> u32" where
  "compact_of m s = word_of_nat (m + 2 ^ 24 * s)"

lemma compact_fields:
  assumes "m < 2 ^ 23" "s < 256"
  shows "unat (compact_of m s) = m + 2 ^ 24 * s" "unat (drop_bit 24 (compact_of m s)) = s"
    "unat (compact_of m s AND 0x007fffff) = m" "compact_of m s AND 0x00800000 = 0"
proof -
  have "m + 2 ^ 24 * s < 2 ^ 32" using assms by simp
  then show u: "unat (compact_of m s) = m + 2 ^ 24 * s"
    unfolding compact_of_def by (simp only: unat_of_nat) simp
  show "unat (drop_bit 24 (compact_of m s)) = s"
    using assms u unsigned_less [of "compact_of m s", where ?'a = nat]
    unfolding unsigned_drop_bit_eq by (simp add: drop_bit_eq_div take_bit_nat_eq_self)
  have e: "m + 2 ^ 24 * s = m + 2 ^ 23 * (2 * s)" by simp
  show "unat (compact_of m s AND 0x007fffff) = m" unfolding u32_mask23 u e by (simp only: mod_mult_self2 mod_less assms)
  have "\<not> bit (m + 2 ^ 23 * (2 * s)) 23" using bit_concat [OF assms(1), of "2 * s" 23] by (simp add: bit_0)
  then have "\<not> bit (compact_of m s) 23" using u e bit_unsigned_iff [of "compact_of m s" 23, where ?'a = nat] by simp
  then show "compact_of m s AND 0x00800000 = 0" using u32_bit23 by blast
qed

lemma compact_or:
  assumes "unat (c :: u32) < 2 ^ 23" "s < 256"
  shows "c OR push_bit 24 (word_of_nat s) = compact_of (unat c) s"
proof (rule bit_word_eqI)
  fix n assume "n < LENGTH(32)"
  then have n: "n < 32" by simp
  have s: "bit (word_of_nat s :: u32) k \<longleftrightarrow> bit s k \<and> k < 32" for k
    by (auto simp: bit_of_nat_iff)
  have "unat c < 2 ^ 24" using assms by simp
  then have "bit (compact_of (unat c) s) n \<longleftrightarrow> (if n < 24 then bit (unat c) n else bit s (n - 24))"
    using compact_fields(1) [OF assms] bit_concat [of "unat c" 24 s n] n
      bit_unsigned_iff [of "compact_of (unat c) s" n, where ?'a = nat] by simp
  moreover have "24 \<le> n \<Longrightarrow> \<not> bit c n"
  proof
    assume "24 \<le> n" "bit c n"
    then have "bit (unat c) n" using bit_unsigned_iff [of c n, where ?'a = nat] by simp
    then have "unat c div 2 ^ n \<noteq> 0" by (metis bit_iff_odd even_zero)
    then have "2 ^ n \<le> unat c" by (simp add: div_eq_0_iff not_less)
    moreover have "(2::nat) ^ 24 \<le> 2 ^ n" using \<open>24 \<le> n\<close> by (intro power_increasing) auto
    ultimately show False using assms(1) by simp
  qed
  moreover have "bit (c OR push_bit 24 (word_of_nat s)) n \<longleftrightarrow> bit c n \<or> (24 \<le> n \<and> bit s (n - 24))"
    using n by (auto simp: bit_or_iff bit_push_bit_iff s)
  moreover have "bit (unat c) n \<longleftrightarrow> bit c n" using n by (simp add: bit_unsigned_iff)
  ultimately show "bit (c OR push_bit 24 (word_of_nat s)) n \<longleftrightarrow> bit (compact_of (unat c) s) n"
    by (cases "n < 24") simp_all
qed

section \<open>What the compact form keeps\<close>

definition byte_size :: "256 word \<Rightarrow> nat" where
  "byte_size x = (ubits (limbs x) + 7) div 8"

lemma byte_size_bounds:
  "unat x < 256 ^ byte_size x" "x \<noteq> 0 \<Longrightarrow> 256 ^ (byte_size x - 1) \<le> unat x \<and> 0 < byte_size x" "byte_size x \<le> 32"
proof -
  let ?b = "ubits (limbs x)" and ?s = "byte_size x"
  have b: "unat x < 2 ^ ?b" "?b \<noteq> 0 \<Longrightarrow> 2 ^ (?b - 1) \<le> unat x" "?b \<le> 256" "?b = 0 \<longleftrightarrow> unat x = 0"
    using bits_val [of "limbs x"] by simp_all
  have s: "?b \<le> 8 * ?s" "?s \<noteq> 0 \<Longrightarrow> 8 * (?s - 1) \<le> ?b - 1" "?b \<noteq> 0 \<Longrightarrow> ?s \<noteq> 0" by (simp_all add: byte_size_def)
  have p: "(256::nat) ^ k = 2 ^ (8 * k)" for k by (simp add: power_mult)
  have "(2::nat) ^ ?b \<le> 2 ^ (8 * ?s)" using s(1) by (rule power_increasing) simp
  then show "unat x < 256 ^ ?s" unfolding p by (rule less_le_trans [OF b(1)])
  show "256 ^ (?s - 1) \<le> unat x \<and> 0 < ?s" if "x \<noteq> 0"
  proof -
    have nz: "?b \<noteq> 0" using that b(4) by (simp add: unat_eq_zero)
    then have "(2::nat) ^ (8 * (?s - 1)) \<le> 2 ^ (?b - 1)" using s by (intro power_increasing) auto
    from order_trans [OF this b(2)] show ?thesis unfolding p using nz s(3) by simp
  qed
  show "?s \<le> 32" using b(3) by (simp add: byte_size_def)
qed

lemma byte_size_0 [simp]: "byte_size 0 = 0"
  using bits_val(4) [of "limbs 0"] by (simp add: byte_size_def)

lemma mantissa_bounds:
  assumes "x < 256 ^ s" "s \<le> 3 \<or> 0 < s"
  shows "s \<le> 3 \<Longrightarrow> x * 256 ^ (3 - s) < (2 ^ 24 :: nat)" "3 < s \<Longrightarrow> x div 256 ^ (s - 3) < (2 ^ 24 :: nat)"
proof -
  assume "s \<le> 3"
  then have "x * 256 ^ (3 - s) < 256 ^ s * 256 ^ (3 - s)" using assms(1) by simp
  also have "\<dots> = 256 ^ 3" using \<open>s \<le> 3\<close> by (simp flip: power_add)
  finally show "x * 256 ^ (3 - s) < 2 ^ 24" by simp
next
  assume "3 < s"
  then have "256 ^ s = 256 ^ 3 * (256 ^ (s - 3) :: nat)"
    by (metis le_add_diff_inverse less_imp_le power_add)
  then show "x div 256 ^ (s - 3) < 2 ^ 24" using assms(1) by (simp add: less_mult_imp_div_less)
qed

text \<open>The mantissa and the size \<^verbatim>\<open>GetCompact\<close> settles on.\<close>

definition compact_parts :: "nat \<Rightarrow> nat \<Rightarrow> nat \<times> nat" where
  "compact_parts x s =
     (let m = (if s \<le> 3 then x * 256 ^ (3 - s) else x div 256 ^ (s - 3))
      in if 2 ^ 23 \<le> m then (m div 256, s + 1) else (m, s))"

lemma compact_parts_bounds:
  "x < 256 ^ s \<Longrightarrow> compact_parts x s = (m, e) \<Longrightarrow> m < 2 ^ 23 \<and> e \<le> s + 1"
  using mantissa_bounds [of x s] by (auto simp: compact_parts_def Let_def split: if_splits)

lemma unat_u64_of: "unat (ucast (x :: 256 word) :: u64) = unat x mod 2 ^ 64"
  by (simp add: unsigned_ucast_eq take_bit_eq_mod)

lemma unat_u32_of: "unat (ucast (x :: u64) :: u32) = unat x mod 2 ^ 32"
  by (simp add: unsigned_ucast_eq take_bit_eq_mod)

lemma unat_push64: "unat x * 2 ^ k < 2 ^ 64 \<Longrightarrow> unat (push_bit k x :: u64) = unat x * 2 ^ k"
  unfolding unsigned_push_bit_eq by (simp add: push_bit_eq_mult take_bit_nat_eq_self)

lemma unat_drop256: "unat (drop_bit k x :: 256 word) = unat x div 2 ^ k"
  unfolding unsigned_drop_bit_eq using unsigned_less [of x, where ?'a = nat]
  by (simp add: drop_bit_eq_div take_bit_nat_eq_self)

lemma first_mantissa:
  assumes "s = byte_size x"
  shows "unat (if s \<le> 3 then ucast (push_bit (8 * (3 - s)) (ucast x :: u64))
    else ucast (ucast (drop_bit (8 * (s - 3)) x) :: u64) :: u32) =
    (if s \<le> 3 then unat x * 256 ^ (3 - s) else unat x div 256 ^ (s - 3))"
proof -
  have x: "unat x < 256 ^ s" using byte_size_bounds(1) assms by simp
  have p: "(2::nat) ^ (8 * k) = 256 ^ k" for k by (simp add: power_mult)
  show ?thesis
  proof (cases "s \<le> 3")
    case True
    then have b: "unat x * 256 ^ (3 - s) < 2 ^ 24" using mantissa_bounds(1) [OF x] by simp
    have "unat x * 1 \<le> unat x * 256 ^ (3 - s)" by (intro mult_le_mono2) simp
    then have "unat x < 2 ^ 24" using b by linarith
    then have "unat (ucast x :: u64) = unat x" by (simp add: unat_u64_of)
    then have "unat (push_bit (8 * (3 - s)) (ucast x :: u64)) = unat x * 256 ^ (3 - s)"
      using b by (subst unat_push64) (simp_all add: p)
    then show ?thesis using True b by (simp add: unat_u32_of)
  next
    case False
    then have "unat x div 256 ^ (s - 3) < 2 ^ 24" using mantissa_bounds(2) [OF x] by simp
    then show ?thesis using False by (simp add: unat_u32_of unat_u64_of unat_drop256 p)
  qed
qed

lemma u32_bit23_le: "unat (c :: u32) < 2 ^ 24 \<Longrightarrow> c AND 0x00800000 \<noteq> 0 \<longleftrightarrow> 2 ^ 23 \<le> unat c"
  using u32_bit23 [of c] bit_unsigned_iff [of c 23, where ?'a = nat] top_bit [of "unat c" 23] by simp

lemma GetCompact_parts:
  "GetCompact x False = Some (compact_of (fst (compact_parts (unat x) (byte_size x))) (snd (compact_parts (unat x) (byte_size x))))"
proof -
  define s where "s = byte_size x"
  define c :: u32 where "c = (if s \<le> 3 then ucast (push_bit (8 * (3 - s)) (ucast x :: u64))
    else ucast (ucast (drop_bit (8 * (s - 3)) x) :: u64))"
  have s: "unat x < 256 ^ s" "s \<le> 32" using byte_size_bounds [of x] by (simp_all add: s_def)
  have c: "unat c = (if s \<le> 3 then unat x * 256 ^ (3 - s) else unat x div 256 ^ (s - 3))"
    unfolding c_def by (rule first_mantissa) (rule s_def)
  then have lt: "unat c < 2 ^ 24" using mantissa_bounds [OF s(1)] by auto
  define c' where "c' = (if c AND 0x00800000 \<noteq> 0 then drop_bit 8 c else c)"
  define s' where "s' = (if c AND 0x00800000 \<noteq> 0 then s + 1 else s)"
  have d: "unat (drop_bit 8 c) = unat c div 256"
    unfolding unsigned_drop_bit_eq using unsigned_less [of c, where ?'a = nat]
    by (simp add: drop_bit_eq_div take_bit_nat_eq_self)
  have parts: "compact_parts (unat x) s = (unat c', s')"
    using u32_bit23_le [OF lt] c d by (simp add: compact_parts_def c'_def s'_def)
  then have b: "unat c' < 2 ^ 23" "s' < 256" using compact_parts_bounds [OF s(1) parts] s(2) by simp_all
  have "GetCompact x False = Some (c' OR push_bit 24 (word_of_nat s'))"
    unfolding GetCompact_def Let_def byte_size_def [symmetric] s_def [symmetric] c_def [symmetric]
    using b u32_high [of c'] by (simp add: c'_def s'_def split: if_splits)
  then show ?thesis using compact_or [OF b] parts by (simp add: s_def)
qed

lemma unat_shl256: "unat x * 2 ^ k < 2 ^ 256 \<Longrightarrow> unat (push_bit k x :: 256 word) = unat x * 2 ^ k"
  unfolding unsigned_push_bit_eq by (simp add: push_bit_eq_mult take_bit_nat_eq_self)

lemma unat_drop32: "unat (drop_bit k x :: u32) = unat x div 2 ^ k"
  unfolding unsigned_drop_bit_eq using unsigned_less [of x, where ?'a = nat]
  by (simp add: drop_bit_eq_div take_bit_nat_eq_self)

lemma unat_up256 [simp]: "unat (ucast (p :: u32) :: 256 word) = unat p"
  using unat_u32_num [of p] by (simp add: unsigned_ucast_eq take_bit_nat_eq_self_iff)

text \<open>Reading a mantissa and a size whose product fits.\<close>

lemma SetCompact_of:
  assumes "m < 2 ^ 23" "e \<le> 33" "e \<le> 3 \<or> m * 256 ^ (e - 3) < 2 ^ 256"
  obtains y where "SetCompact (compact_of m e) = (y, False, False)"
    "unat y = (if e \<le> 3 then m div 256 ^ (3 - e) else m * 256 ^ (e - 3))"
proof -
  let ?c = "compact_of m e"
  have f: "unat (drop_bit 24 ?c) = e" "unat (?c AND 0x007fffff) = m" "?c AND 0x00800000 = 0"
    using compact_fields [OF assms(1), of e] assms(2) by simp_all
  have p: "(2::nat) ^ (8 * k) = 256 ^ k" for k by (simp add: power_mult)
  define w0 where "w0 = ?c AND 0x007fffff"
  define w where "w = (if e \<le> 3 then drop_bit (8 * (3 - e)) w0 else w0)"
  define y where "y = (if e \<le> 3 then ucast w else push_bit (8 * (e - 3)) (ucast w) :: 256 word)"
  have w: "unat w = (if e \<le> 3 then m div 256 ^ (3 - e) else m)" using f(2) by (simp add: w_def w0_def [symmetric] unat_drop32 p)
  have fit: "e > 32 \<Longrightarrow> unat w \<le> 0xffff"
  proof -
    assume "e > 32"
    then have e: "e = 33" using assms(2) by simp
    then have "m * 256 ^ 30 < 2 ^ 256" using assms(3) by simp
    then show ?thesis using w e by simp
  qed
  have "SetCompact ?c = (y, False, False)"
    using f assms(2) fit by (auto simp: SetCompact_def Let_def y_def w_def w0_def [symmetric] word_less_nat_alt)
  moreover have "unat y = (if e \<le> 3 then m div 256 ^ (3 - e) else m * 256 ^ (e - 3))"
    using w assms(3) by (auto simp: y_def unat_shl256 p)
  ultimately show ?thesis by (rule that)
qed

text \<open>
  The compact form of a number keeps its leading bytes: reading it back gives a number that is not
  larger and differs from it by at most one part in \<open>2 ^ 15\<close>.
\<close>

lemma floor_div: "i \<le> j \<Longrightarrow> x div 256 ^ j * 256 ^ j div 256 ^ i = x div 256 ^ j * (256 ^ (j - i) :: nat)"
proof -
  assume "i \<le> j"
  then have "(256::nat) ^ j = 256 ^ (j - i) * 256 ^ i" by (simp flip: power_add)
  then have "x div 256 ^ j * 256 ^ j div 256 ^ i = (x div 256 ^ j * 256 ^ (j - i)) * 256 ^ i div 256 ^ i"
    by (simp only: mult.assoc)
  also have "\<dots> = x div 256 ^ j * 256 ^ (j - i)" by simp
  finally show ?thesis .
qed

lemma compact_floor:
  assumes "s = 0 \<or> 256 ^ (s - 1) \<le> x" "compact_parts x s = (m, e)"
    and "y = (if e \<le> 3 then m div 256 ^ (3 - e) else m * 256 ^ (e - 3))"
  shows "\<exists>j. y = x div 256 ^ j * 256 ^ j \<and> (j = 0 \<or> j < s \<and> 256 ^ j * 2 ^ 15 \<le> x) \<and> compact_parts y s = (m, e)"
proof (cases "s \<le> 3")
  case True
  let ?M = "x * 256 ^ (3 - s)"
  show ?thesis
  proof (cases "2 ^ 23 \<le> ?M")
    case False
    then have "y = x" using assms(2,3) True by (auto simp: compact_parts_def Let_def)
    then show ?thesis using assms(2) by (intro exI [of _ 0]) simp
  next
    case big: True
    then have m: "m = ?M div 256" "e = s + 1" using assms(2) True by (auto simp: compact_parts_def Let_def)
    show ?thesis
    proof (cases "s = 3")
      case True
      then have y: "y = x div 256 * 256" and x: "2 ^ 23 \<le> x" using assms(3) m big by simp_all
      have "2 ^ 15 \<le> x div 256" using x by simp
      then have "compact_parts y s = (m, e)" using y m True by (simp add: compact_parts_def)
      moreover have "256 * 2 ^ 15 \<le> x" using x by simp
      ultimately show ?thesis using y True by (intro exI [of _ 1]) simp
    next
      case False
      then have e: "256 ^ (3 - s) = 256 * (256 ^ (3 - e) :: nat)" using \<open>s \<le> 3\<close> m by (simp flip: power_Suc)
      have "m = x * 256 ^ (3 - e)" unfolding m(1) e by (simp add: mult.assoc [symmetric] mult.commute)
      then have "y = x" using assms(3) m(2) False \<open>s \<le> 3\<close> by simp
      then show ?thesis using assms(2) by (intro exI [of _ 0]) simp
    qed
  qed
next
  case False
  let ?K = "256 ^ (s - 3) :: nat"
  show ?thesis
  proof (cases "2 ^ 23 \<le> x div ?K")
    case True
    then have me: "m = x div ?K div 256" "e = s + 1" using assms(2) False by (auto simp: compact_parts_def Let_def)
    have j: "s - 2 = Suc (s - 3)" "e - 3 = s - 2" using False me(2) by simp_all
    have m: "m = x div 256 ^ (s - 2)" unfolding j me(1) by (simp add: div_mult2_eq mult.commute [of 256])
    have y: "y = x div 256 ^ (s - 2) * 256 ^ (s - 2)" using assms(3) m j(2) me(2) False by simp
    have yK: "y div ?K = x div 256 ^ (s - 2) * 256" using floor_div [of "s - 3" "s - 2" x] j(1) unfolding y by simp
    have K: "?K * 2 ^ 23 \<le> x" using True by (simp add: less_eq_div_iff_mult_less_eq mult.commute)
    then have x: "256 ^ (s - 2) * 2 ^ 15 \<le> x" unfolding j by simp
    then have "2 ^ 15 \<le> x div 256 ^ (s - 2)" by (simp add: less_eq_div_iff_mult_less_eq mult.commute)
    then have "compact_parts y s = (m, e)" using yK m me(2) False by (simp add: compact_parts_def)
    then show ?thesis using x y False by (intro exI [of _ "s - 2"]) simp
  next
    case small: False
    then have me: "m = x div ?K" "e = s" using assms(2) False by (auto simp: compact_parts_def Let_def)
    then have y: "y = x div ?K * ?K" using assms(3) False by simp
    have "s - 1 = 2 + (s - 3)" using False by simp
    then have "2 ^ 16 * ?K \<le> x" using assms(1) False by (simp add: power_add)
    then have x: "?K * 2 ^ 15 \<le> x" by simp
    have "y div ?K = x div ?K" using y by simp
    then have "compact_parts y s = (m, e)" using assms(2) False by (simp add: compact_parts_def)
    then show ?thesis using x y False by (intro exI [of _ "s - 3"]) simp
  qed
qed

lemma floor_close:
  assumes "j = 0 \<or> 256 ^ j * 2 ^ 15 \<le> (x :: nat)"
  shows "(x - x div 256 ^ j * 256 ^ j) * 2 ^ 15 \<le> x"
proof (cases "j = 0")
  case False
  have "x - x div 256 ^ j * 256 ^ j = x mod 256 ^ j" by (simp add: minus_div_mult_eq_mod)
  moreover have "x mod 256 ^ j * 2 ^ 15 \<le> 256 ^ j * 2 ^ 15" by (intro mult_le_mono1) simp
  moreover have "256 ^ j * 2 ^ 15 \<le> x" using assms False by blast
  ultimately show ?thesis by (metis order_trans)
qed simp

lemma floor_ge:
  assumes "j < s" "256 ^ (s - 1) \<le> (x :: nat)" shows "256 ^ (s - 1) \<le> x div 256 ^ j * 256 ^ j"
proof -
  have p: "(256::nat) ^ (s - 1) = 256 ^ (s - 1 - j) * 256 ^ j" using assms(1) by (simp flip: power_add)
  then have "256 ^ (s - 1 - j) \<le> x div 256 ^ j" using assms(2) by (simp add: less_eq_div_iff_mult_less_eq)
  then show ?thesis unfolding p by (rule mult_le_mono1)
qed

lemma byte_size_unique:
  assumes "unat x < 256 ^ s" "256 ^ (s - 1) \<le> unat x" "0 < s"
  shows "byte_size x = s"
proof -
  have nz: "x \<noteq> 0" using assms(2) by (auto simp: power_0_left split: if_splits)
  note b = byte_size_bounds(1) [of x] byte_size_bounds(2) [OF nz]
  have "(256::nat) ^ (s - 1) < 256 ^ byte_size x" "(256::nat) ^ (byte_size x - 1) < 256 ^ s" using b assms by linarith+
  then have "s - 1 < byte_size x" "byte_size x - 1 < s" by simp_all
  then show ?thesis using b(2) assms(3) by linarith
qed

lemma compact_keeps:
  obtains c y where "GetCompact x False = Some c" "SetCompact c = (y, False, False)"
    "unat y \<le> unat x" "(unat x - unat y) * 2 ^ 15 \<le> unat x" "GetCompact y False = Some c"
proof -
  let ?s = "byte_size x"
  obtain m e where me: "compact_parts (unat x) ?s = (m, e)" by (cases "compact_parts (unat x) ?s") auto
  have b: "m < 2 ^ 23" "e \<le> 33" using compact_parts_bounds [OF byte_size_bounds(1) me] byte_size_bounds(3) [of x] by simp_all
  define v where "v = (if e \<le> 3 then m div 256 ^ (3 - e) else m * 256 ^ (e - 3))"
  have lo: "?s = 0 \<or> 256 ^ (?s - 1) \<le> unat x"
    using byte_size_bounds(1) [of x] byte_size_bounds(2) [of x] by (cases "x = 0") auto
  obtain j where j: "v = unat x div 256 ^ j * 256 ^ j" "j = 0 \<or> j < ?s \<and> 256 ^ j * 2 ^ 15 \<le> unat x"
      "compact_parts v ?s = (m, e)"
    using compact_floor [OF lo me v_def] by blast
  have vx: "v \<le> unat x" unfolding j(1) by simp
  then have "v < 2 ^ 256" using unsigned_less [of x, where ?'a = nat] by simp
  then have "e \<le> 3 \<or> m * 256 ^ (e - 3) < 2 ^ 256" by (auto simp: v_def split: if_splits)
  from SetCompact_of [OF b this] obtain y where y: "SetCompact (compact_of m e) = (y, False, False)" "unat y = v"
    by (metis v_def)
  have g: "GetCompact x False = Some (compact_of m e)" using GetCompact_parts [of x] me by simp
  have "GetCompact y False = Some (compact_of m e)"
  proof (cases "v = unat x")
    case True
    then have "y = x" using y(2) by (simp add: word_unat_eq_iff)
    then show ?thesis using g by simp
  next
    case False
    then have "j \<noteq> 0" using j(1) by (cases "j = 0") auto
    then have jj: "j < ?s" "0 < ?s" using j(2) by auto
    then have "256 ^ (?s - 1) \<le> v" unfolding j(1) using floor_ge lo by auto
    then have "byte_size y = ?s" using y(2) vx byte_size_bounds(1) [of x] jj(2) by (intro byte_size_unique) auto
    then show ?thesis using GetCompact_parts [of y] j(3) y(2) by simp
  qed
  then show ?thesis using that g y vx floor_close [of j "unat x"] j(1,2) by auto
qed

section \<open>Work\<close>

lemma SetCompact_not_max: "SetCompact c = (t, n, v) \<Longrightarrow> t + 1 \<noteq> 0"
proof
  assume s: "SetCompact c = (t, n, v)" and "t + 1 = 0"
  then have "t = - 1" by (simp add: eq_neg_iff_add_eq_0)
  then have "bit t 31" "bit t 0" by simp_all
  moreover have "\<not> (bit t 31 \<and> bit t 0)"
  proof -
    define w where "w = c AND 0x007fffff"
    have m: "unat w < 2 ^ 23" by (simp only: w_def u32_mask23) simp
    have "\<not> bit (drop_bit k w) 31" for k
    proof
      assume "bit (drop_bit k w) 31"
      then have "bit (unat w) (k + 31)" by (simp add: bit_drop_bit_eq bit_unsigned_iff)
      then have "unat w div 2 ^ (k + 31) \<noteq> 0" by (metis bit_iff_odd even_zero)
      then have "2 ^ (k + 31) \<le> unat w" by (simp add: div_eq_0_iff not_less)
      moreover have "(2::nat) ^ 23 \<le> 2 ^ (k + 31)" by (intro power_increasing) auto
      ultimately show False using m by linarith
    qed
    then show ?thesis using s by (auto simp: SetCompact_def Let_def bit_ucast_iff bit_push_bit_iff w_def [symmetric] split: if_splits)
  qed
  ultimately show False by blast
qed

lemma GetBlockProof_value:
  assumes "SetCompact c = (t, n, v)"
  shows "\<exists>w. GetBlockProof c = Some w \<and>
    unat w = (if n \<or> v \<or> t = 0 then 0 else 2 ^ 256 div (unat t + 1))"
proof (cases "n \<or> v \<or> t = 0")
  case False
  let ?T = "unat t" and ?w = "(NOT t) div (t + 1) + 1"
  have nz: "t + 1 \<noteq> 0" using SetCompact_not_max [OF assms] .
  have T: "0 < ?T" using False by (simp add: unat_gt_0)
  have t1: "unat (t + 1) = ?T + 1" using nz unatSuc [of t] by (simp add: add.commute)
  then have lt: "?T + 1 < 2 ^ 256" using unsigned_less [of "t + 1", where ?'a = nat] by simp
  have "NOT t = - 1 - t" by (simp add: not_eq_complement)
  then have "unat (NOT t) = unat (- 1 :: 256 word) - ?T" by (simp only: unat_sub word_order.extremum)
  then have nt: "unat (NOT t) = 2 ^ 256 - (?T + 1)" by (simp add: unsigned_minus_1_eq_mask mask_eq_exp_minus_1)
  have q: "(2 ^ 256 - (?T + 1)) div (?T + 1) + 1 = (2 ^ 256 :: nat) div (?T + 1)"
  proof -
    have "(2 ^ 256 :: nat) div (?T + 1) = (2 ^ 256 - (?T + 1) + (?T + 1)) div (?T + 1)" using lt by simp
    also have "\<dots> = (2 ^ 256 - (?T + 1)) div (?T + 1) + 1" by (subst div_add_self2) simp_all
    finally show ?thesis by simp
  qed
  have "(2 ^ 256 :: nat) div (?T + 1) \<le> 2 ^ 256 div 2" using T by (intro div_le_mono2) auto
  then have "unat ((NOT t) div (t + 1)) + 1 < 2 ^ 256" using q by (simp add: unat_div nt t1)
  then have "unat ?w = unat ((NOT t) div (t + 1)) + 1" using unat_add_lem [of "(NOT t) div (t + 1)" 1] by simp
  then have "unat ?w = 2 ^ 256 div (?T + 1)" using q by (simp add: unat_div nt t1)
  then show ?thesis using assms False nz by (auto simp: GetBlockProof_def)
qed (use assms in \<open>auto simp: GetBlockProof_def\<close>)

lemma CheckProofOfWork_iff:
  assumes "SetCompact nBits = (t, n, v)"
  shows "CheckProofOfWork False limit h nBits \<longleftrightarrow> \<not> n \<and> \<not> v \<and> 0 < t \<and> t \<le> limit \<and> h \<le> t"
  using assms by (auto simp: CheckProofOfWork_def word_gt_0 not_less)

end
