(* ===== verification/ChainIndex.thy ===== *)
theory ChainIndex
  imports Transaction
begin

unbundle bit_operations_syntax

text \<open>
  The block index and the active chain, \<^verbatim>\<open>src/src/chain.h\<close>, \<^verbatim>\<open>chain.cpp\<close> and the members of
  \<^verbatim>\<open>CBlockIndex\<close> in \<^verbatim>\<open>main.cpp\<close>. Entries live in a heap, a function from addresses to records, so
  that pointers can be compared and the same entry be reached on several ways; a pointer is an
  \<open>ptr option\<close>, \<open>None\<close> the null pointer. Walks along pointers are partial functions: the outer
  \<open>None\<close> stands for the use of a null pointer or of a vector outside its bounds, and for a loop
  that does not end. Left out of an entry are \<^verbatim>\<open>pnext\<close>, which is written and never followed, and
  the zerocoin supply.
\<close>

type_synonym ptr = nat

record CBlockIndex =
  ix_hash :: uint256
  ix_pprev :: "ptr option"
  ix_pskip :: "ptr option"
  ix_bnChainTrust :: uint256
  ix_nHeight :: int
  ix_nFile :: int
  ix_nDataPos :: u32
  ix_nUndoPos :: u32
  ix_nChainWork :: uint256
  ix_nTx :: u32
  ix_nChainTx :: u32
  ix_nStatus :: u32
  ix_nFlags :: u32
  ix_nStakeModifier :: u64
  ix_nStakeModifierChecksum :: u32
  ix_prevoutStake :: COutPoint
  ix_nStakeTime :: u32
  ix_hashProofOfStake :: uint256
  ix_nMint :: int
  ix_nMoneySupply :: int
  ix_nVersion :: int
  ix_hashMerkleRoot :: uint256
  ix_nTime :: u32
  ix_nBits :: u32
  ix_nNonce :: u32
  ix_nAccumulatorCheckpoint :: uint256
  ix_nSequenceId :: u32

type_synonym index_heap = "ptr \<Rightarrow> CBlockIndex"

text \<open>\<^verbatim>\<open>SetNull\<close>, after the default constructors of the members.\<close>

definition CBlockIndex_Null :: CBlockIndex where
  "CBlockIndex_Null = \<lparr>ix_hash = 0, ix_pprev = None, ix_pskip = None, ix_bnChainTrust = 0, ix_nHeight = 0,
     ix_nFile = 0, ix_nDataPos = 0, ix_nUndoPos = 0, ix_nChainWork = 0, ix_nTx = 0, ix_nChainTx = 0,
     ix_nStatus = 0, ix_nFlags = 0, ix_nStakeModifier = 0, ix_nStakeModifierChecksum = 0,
     ix_prevoutStake = COutPoint_Null, ix_nStakeTime = 0, ix_hashProofOfStake = 0, ix_nMint = 0,
     ix_nMoneySupply = 0, ix_nVersion = 0, ix_hashMerkleRoot = 0, ix_nTime = 0, ix_nBits = 0, ix_nNonce = 0,
     ix_nAccumulatorCheckpoint = 0, ix_nSequenceId = 0\<rparr>"

section \<open>Status and flags\<close>

abbreviation (input) BLOCK_VALID_TREE :: u32 where "BLOCK_VALID_TREE \<equiv> 2"
abbreviation (input) BLOCK_VALID_TRANSACTIONS :: u32 where "BLOCK_VALID_TRANSACTIONS \<equiv> 3"
abbreviation (input) BLOCK_VALID_SCRIPTS :: u32 where "BLOCK_VALID_SCRIPTS \<equiv> 5"
abbreviation (input) BLOCK_VALID_MASK :: u32 where "BLOCK_VALID_MASK \<equiv> 1 OR 2 OR 3 OR 4 OR 5"
abbreviation (input) BLOCK_HAVE_DATA :: u32 where "BLOCK_HAVE_DATA \<equiv> 8"
abbreviation (input) BLOCK_HAVE_UNDO :: u32 where "BLOCK_HAVE_UNDO \<equiv> 16"
abbreviation (input) BLOCK_FAILED_VALID :: u32 where "BLOCK_FAILED_VALID \<equiv> 32"
abbreviation (input) BLOCK_FAILED_CHILD :: u32 where "BLOCK_FAILED_CHILD \<equiv> 64"
abbreviation (input) BLOCK_FAILED_MASK :: u32 where "BLOCK_FAILED_MASK \<equiv> 32 OR 64"

abbreviation (input) BLOCK_PROOF_OF_STAKE :: u32 where "BLOCK_PROOF_OF_STAKE \<equiv> 1"
abbreviation (input) BLOCK_STAKE_ENTROPY :: u32 where "BLOCK_STAKE_ENTROPY \<equiv> 2"
abbreviation (input) BLOCK_STAKE_MODIFIER :: u32 where "BLOCK_STAKE_MODIFIER \<equiv> 4"

definition index_IsProofOfStake :: "CBlockIndex \<Rightarrow> bool" where
  "index_IsProofOfStake b \<longleftrightarrow> ix_nFlags b AND BLOCK_PROOF_OF_STAKE \<noteq> 0"

definition SetProofOfStake :: "CBlockIndex \<Rightarrow> CBlockIndex" where
  "SetProofOfStake b = b\<lparr>ix_nFlags := ix_nFlags b OR BLOCK_PROOF_OF_STAKE\<rparr>"

definition GetStakeEntropyBit :: "CBlockIndex \<Rightarrow> u32" where
  "GetStakeEntropyBit b = ucast ((ucast (ix_hash b) :: u64) AND 1)"

definition SetStakeEntropyBit :: "u32 \<Rightarrow> CBlockIndex \<Rightarrow> bool \<times> CBlockIndex" where
  "SetStakeEntropyBit nEntropyBit b =
     (if nEntropyBit > 1 then (False, b)
      else (True, b\<lparr>ix_nFlags := ix_nFlags b OR (if nEntropyBit \<noteq> 0 then BLOCK_STAKE_ENTROPY else 0)\<rparr>))"

definition GeneratedStakeModifier :: "CBlockIndex \<Rightarrow> bool" where
  "GeneratedStakeModifier b \<longleftrightarrow> ix_nFlags b AND BLOCK_STAKE_MODIFIER \<noteq> 0"

definition SetStakeModifier :: "u64 \<Rightarrow> bool \<Rightarrow> CBlockIndex \<Rightarrow> CBlockIndex" where
  "SetStakeModifier nModifier fGenerated b =
     (let b = b\<lparr>ix_nStakeModifier := nModifier\<rparr>
      in if fGenerated then b\<lparr>ix_nFlags := ix_nFlags b OR BLOCK_STAKE_MODIFIER\<rparr> else b)"

text \<open>\<open>nUpTo\<close> is one of the validity levels, so the assertion of the code holds.\<close>

definition index_IsValid :: "u32 \<Rightarrow> CBlockIndex \<Rightarrow> bool" where
  "index_IsValid nUpTo b =
     (if ix_nStatus b AND BLOCK_FAILED_MASK \<noteq> 0 then False
      else ix_nStatus b AND BLOCK_VALID_MASK \<ge> nUpTo)"

definition RaiseValidity :: "u32 \<Rightarrow> CBlockIndex \<Rightarrow> bool \<times> CBlockIndex" where
  "RaiseValidity nUpTo b =
     (if ix_nStatus b AND BLOCK_FAILED_MASK \<noteq> 0 then (False, b)
      else if ix_nStatus b AND BLOCK_VALID_MASK < nUpTo
      then (True, b\<lparr>ix_nStatus := (ix_nStatus b AND NOT BLOCK_VALID_MASK) OR nUpTo\<rparr>)
      else (False, b))"

section \<open>Ancestors\<close>

definition InvertLowestOne :: "int \<Rightarrow> int" where
  "InvertLowestOne n = n AND (n - 1)"

definition GetSkipHeight :: "int \<Rightarrow> int" where
  "GetSkipHeight height =
     (if height < 2 then 0
      else if height AND 1 \<noteq> 0 then InvertLowestOne (InvertLowestOne (height - 1)) + 1
      else InvertLowestOne height)"

partial_function (option) ancestor_loop :: "index_heap \<Rightarrow> int \<Rightarrow> ptr option \<Rightarrow> int \<Rightarrow> ptr option option" where
  "ancestor_loop h height pindexWalk heightWalk =
     (if heightWalk > height
      then let heightSkip = GetSkipHeight heightWalk; heightSkipPrev = GetSkipHeight (heightWalk - 1)
           in case pindexWalk of
                None \<Rightarrow> None
              | Some p \<Rightarrow>
                  if heightSkip = height \<or>
                     (heightSkip > height \<and> \<not> (heightSkipPrev < heightSkip - 2 \<and> heightSkipPrev \<ge> height))
                  then ancestor_loop h height (ix_pskip (h p)) heightSkip
                  else ancestor_loop h height (ix_pprev (h p)) (heightWalk - 1)
      else Some pindexWalk)"

declare ancestor_loop.simps [code]

definition GetAncestor :: "index_heap \<Rightarrow> ptr \<Rightarrow> int \<Rightarrow> ptr option option" where
  "GetAncestor h p height =
     (if height > ix_nHeight (h p) \<or> height < 0 then Some None
      else ancestor_loop h height (Some p) (ix_nHeight (h p)))"

definition BuildSkip :: "index_heap \<Rightarrow> ptr \<Rightarrow> index_heap option" where
  "BuildSkip h p =
     (case ix_pprev (h p) of
        None \<Rightarrow> Some h
      | Some q \<Rightarrow> (case GetAncestor h q (GetSkipHeight (ix_nHeight (h p))) of
            None \<Rightarrow> None | Some s \<Rightarrow> Some (h(p := (h p)\<lparr>ix_pskip := s\<rparr>))))"

text \<open>The times of up to eleven blocks, the middle one after sorting.\<close>

primrec past_times :: "index_heap \<Rightarrow> nat \<Rightarrow> ptr option \<Rightarrow> int list" where
  "past_times h 0 pindex = []"
| "past_times h (Suc n) pindex =
     (case pindex of None \<Rightarrow> [] | Some p \<Rightarrow> uint (ix_nTime (h p)) # past_times h n (ix_pprev (h p)))"

definition GetMedianTimePast :: "index_heap \<Rightarrow> ptr \<Rightarrow> int" where
  "GetMedianTimePast h p = (let pmedian = sort (past_times h 11 (Some p)) in pmedian ! (length pmedian div 2))"

primrec majority_loop :: "index_heap \<Rightarrow> int \<Rightarrow> nat \<Rightarrow> nat \<Rightarrow> nat \<Rightarrow> ptr option \<Rightarrow> nat" where
  "majority_loop h minVersion nRequired 0 nFound pstart = nFound"
| "majority_loop h minVersion nRequired (Suc n) nFound pstart =
     (case pstart of
        None \<Rightarrow> nFound
      | Some p \<Rightarrow> if nFound < nRequired
          then majority_loop h minVersion nRequired n
                 (if ix_nVersion (h p) \<ge> minVersion then nFound + 1 else nFound) (ix_pprev (h p))
          else nFound)"

definition IsSuperMajority :: "nat \<Rightarrow> index_heap \<Rightarrow> int \<Rightarrow> ptr option \<Rightarrow> nat \<Rightarrow> bool" where
  "IsSuperMajority nToCheck h minVersion pstart nRequired =
     (majority_loop h minVersion nRequired nToCheck 0 pstart \<ge> nRequired)"

section \<open>CChain\<close>

text \<open>A chain is the vector \<^verbatim>\<open>vChain\<close> of pointers; \<^verbatim>\<open>resize\<close> fills with null pointers.\<close>

type_synonym CChain = "ptr option list"

definition chain_at :: "CChain \<Rightarrow> int \<Rightarrow> ptr option" where
  "chain_at c nHeight = (if nHeight < 0 \<or> nHeight \<ge> int (length c) then None else c ! nat nHeight)"

definition Genesis :: "CChain \<Rightarrow> ptr option" where
  "Genesis c = (if length c > 0 then c ! 0 else None)"

partial_function (option) tip_loop :: "index_heap \<Rightarrow> ptr option \<Rightarrow> ptr option option" where
  "tip_loop h pindex =
     (case pindex of
        None \<Rightarrow> Some None
      | Some p \<Rightarrow> if ix_pprev (h p) \<noteq> None \<and> \<not> index_IsProofOfStake (h p)
                  then tip_loop h (ix_pprev (h p)) else Some pindex)"

declare tip_loop.simps [code]

definition Tip :: "CChain \<Rightarrow> ptr option" where
  "Tip c = (if length c < 1 then None else c ! (length c - 1))"

definition Tip_PoS :: "index_heap \<Rightarrow> CChain \<Rightarrow> ptr option option" where
  "Tip_PoS h c = (if length c < 1 then Some None else tip_loop h (Tip c))"

definition chain_Height :: "CChain \<Rightarrow> int" where
  "chain_Height c = int (length c) - 1"

definition Contains :: "index_heap \<Rightarrow> CChain \<Rightarrow> ptr \<Rightarrow> bool" where
  "Contains h c p \<longleftrightarrow> chain_at c (ix_nHeight (h p)) = Some p"

definition Next :: "index_heap \<Rightarrow> CChain \<Rightarrow> ptr \<Rightarrow> ptr option" where
  "Next h c p = (if Contains h c p then chain_at c (ix_nHeight (h p) + 1) else None)"

definition resize_vec :: "nat \<Rightarrow> 'a \<Rightarrow> 'a list \<Rightarrow> 'a list" where
  "resize_vec n x v = take n v @ replicate (n - length v) x"

partial_function (option) settip_loop :: "index_heap \<Rightarrow> ptr option \<Rightarrow> CChain \<Rightarrow> CChain option" where
  "settip_loop h pindex c =
     (case pindex of
        None \<Rightarrow> Some c
      | Some p \<Rightarrow>
          if ix_nHeight (h p) < 0 \<or> ix_nHeight (h p) \<ge> int (length c) then None
          else if c ! nat (ix_nHeight (h p)) \<noteq> Some p
          then settip_loop h (ix_pprev (h p)) (c[nat (ix_nHeight (h p)) := Some p])
          else Some c)"

declare settip_loop.simps [code]

definition SetTip :: "index_heap \<Rightarrow> ptr option \<Rightarrow> CChain \<Rightarrow> CChain option" where
  "SetTip h pindex c =
     (case pindex of
        None \<Rightarrow> Some []
      | Some p \<Rightarrow> settip_loop h pindex (resize_vec (nat (ix_nHeight (h p) + 1)) None c))"

partial_function (option) fork_loop :: "index_heap \<Rightarrow> CChain \<Rightarrow> ptr option \<Rightarrow> ptr option option" where
  "fork_loop h c pindex =
     (case pindex of
        None \<Rightarrow> Some None
      | Some p \<Rightarrow> if \<not> Contains h c p then fork_loop h c (ix_pprev (h p)) else Some pindex)"

declare fork_loop.simps [code]

definition FindFork :: "index_heap \<Rightarrow> CChain \<Rightarrow> ptr \<Rightarrow> ptr option option" where
  "FindFork h c p =
     (case (if ix_nHeight (h p) > chain_Height c then GetAncestor h p (chain_Height c) else Some (Some p)) of
        None \<Rightarrow> None
      | Some pindex \<Rightarrow> fork_loop h c pindex)"

text \<open>\<^verbatim>\<open>GetLocator\<close>: the hashes collected so far are in \<open>vHave\<close>, in reverse order.\<close>

partial_function (option) locator_loop ::
  "index_heap \<Rightarrow> CChain \<Rightarrow> ptr option \<Rightarrow> int \<Rightarrow> uint256 list \<Rightarrow> uint256 list option" where
  "locator_loop h c pindex nStep vHave =
     (case pindex of
        None \<Rightarrow> Some (rev vHave)
      | Some p \<Rightarrow>
          let vHave = ix_hash (h p) # vHave
          in if ix_nHeight (h p) = 0 then Some (rev vHave)
             else let nHeight = max (ix_nHeight (h p) - nStep) 0;
                      nStep' = (if length vHave > 10 then nStep * 2 else nStep)
                  in case (if Contains h c p then Some (chain_at c nHeight) else GetAncestor h p nHeight) of
                       None \<Rightarrow> None
                     | Some q \<Rightarrow> locator_loop h c q nStep' vHave)"

declare locator_loop.simps [code]

definition GetLocator :: "index_heap \<Rightarrow> CChain \<Rightarrow> ptr option \<Rightarrow> uint256 list option" where
  "GetLocator h c pindex = locator_loop h c (if pindex = None then Tip c else pindex) 1 []"

text \<open>\<^verbatim>\<open>FindForkInGlobalIndex\<close>: the first hash of the locator that is in the chain.\<close>

fun FindForkInGlobalIndex :: "index_heap \<Rightarrow> (uint256 \<Rightarrow> ptr option) \<Rightarrow> CChain \<Rightarrow> uint256 list \<Rightarrow> ptr option" where
  "FindForkInGlobalIndex h mapBlockIndex c [] = Genesis c"
| "FindForkInGlobalIndex h mapBlockIndex c (hash1 # vHave) =
     (case mapBlockIndex hash1 of
        Some p \<Rightarrow> if Contains h c p then Some p else FindForkInGlobalIndex h mapBlockIndex c vHave
      | None \<Rightarrow> FindForkInGlobalIndex h mapBlockIndex c vHave)"

partial_function (option) common_loop :: "index_heap \<Rightarrow> ptr option \<Rightarrow> ptr option \<Rightarrow> (ptr option \<times> ptr option) option" where
  "common_loop h pa pb =
     (case (pa, pb) of
        (Some a, Some b) \<Rightarrow> if a \<noteq> b then common_loop h (ix_pprev (h a)) (ix_pprev (h b)) else Some (pa, pb)
      | _ \<Rightarrow> Some (pa, pb))"

declare common_loop.simps [code]

text \<open>\<^verbatim>\<open>LastCommonAncestor\<close>; a failed assertion is the outer \<open>None\<close> too.\<close>

definition LastCommonAncestor :: "index_heap \<Rightarrow> ptr \<Rightarrow> ptr \<Rightarrow> ptr option option" where
  "LastCommonAncestor h pa pb =
     (let ha = ix_nHeight (h pa); hb = ix_nHeight (h pb)
      in case (if ha > hb then GetAncestor h pa hb else Some (Some pa)) of
           None \<Rightarrow> None
         | Some pa' \<Rightarrow>
         (case (if \<not> ha > hb \<and> hb > ha then GetAncestor h pb ha else Some (Some pb)) of
            None \<Rightarrow> None
          | Some pb' \<Rightarrow>
          (case common_loop h pa' pb' of
             None \<Rightarrow> None
           | Some (a, b) \<Rightarrow> if a = b then Some a else None)))"

end
