(* ===== verification/ChainLemmas.thy ===== *)
theory ChainLemmas
  imports ChainIndex
begin

unbundle bit_operations_syntax

text \<open>
  Facts about the block index: walking back along \<^verbatim>\<open>pprev\<close> is the reference for every other way to
  reach an ancestor. The skip list finds the ancestor the walk finds, \<^verbatim>\<open>SetTip\<close> makes the vector the
  path from the genesis block to the tip, and \<^verbatim>\<open>FindFork\<close> and \<^verbatim>\<open>LastCommonAncestor\<close> find the last
  common ancestor. All the loops end on an index that is well formed.
\<close>

section \<open>Walking back\<close>

primrec walk_back :: "index_heap \<Rightarrow> nat \<Rightarrow> ptr \<Rightarrow> ptr option" where
  "walk_back h 0 p = Some p"
| "walk_back h (Suc n) p = (case ix_pprev (h p) of None \<Rightarrow> None | Some q \<Rightarrow> walk_back h n q)"

definition ancestor :: "index_heap \<Rightarrow> ptr \<Rightarrow> ptr \<Rightarrow> bool" where
  "ancestor h q p \<longleftrightarrow> (\<exists>n. walk_back h n p = Some q)"

text \<open>
  A well-formed index on a set of addresses: heights count the steps to a genesis block, parents
  are in the set, and the skip pointer of an entry with a parent leads to the ancestor at the skip
  height.
\<close>

definition entry_linked :: "index_heap \<Rightarrow> ptr set \<Rightarrow> ptr \<Rightarrow> bool" where
  "entry_linked h S p \<longleftrightarrow>
     (case ix_pprev (h p) of
        None \<Rightarrow> ix_nHeight (h p) = 0
      | Some q \<Rightarrow> q \<in> S \<and> 0 \<le> ix_nHeight (h q) \<and> ix_nHeight (h p) = ix_nHeight (h q) + 1 \<and>
          ix_pskip (h p) = walk_back h (nat (ix_nHeight (h q) - GetSkipHeight (ix_nHeight (h p)))) q)"

definition index_ok :: "index_heap \<Rightarrow> ptr set \<Rightarrow> bool" where
  "index_ok h S \<longleftrightarrow> (\<forall>p \<in> S. entry_linked h S p)"

lemma back_add: "walk_back h (m + n) p = (case walk_back h m p of None \<Rightarrow> None | Some q \<Rightarrow> walk_back h n q)"
  by (induction m arbitrary: p) (auto split: option.splits)

lemma index_ok_height: "index_ok h S \<Longrightarrow> p \<in> S \<Longrightarrow> 0 \<le> ix_nHeight (h p)"
  by (fastforce simp: index_ok_def entry_linked_def split: option.splits)

lemma index_ok_prev:
  "index_ok h S \<Longrightarrow> p \<in> S \<Longrightarrow> ix_pprev (h p) = Some q \<Longrightarrow>
   q \<in> S \<and> ix_nHeight (h p) = ix_nHeight (h q) + 1 \<and>
   ix_pskip (h p) = walk_back h (nat (ix_nHeight (h q) - GetSkipHeight (ix_nHeight (h p)))) q"
  by (fastforce simp: index_ok_def entry_linked_def)

lemma index_ok_genesis: "index_ok h S \<Longrightarrow> p \<in> S \<Longrightarrow> ix_pprev (h p) = None \<longleftrightarrow> ix_nHeight (h p) = 0"
proof -
  assume "index_ok h S" "p \<in> S"
  then have "entry_linked h S p" by (simp add: index_ok_def)
  then show ?thesis by (cases "ix_pprev (h p)") (auto simp: entry_linked_def)
qed

lemma back_height:
  assumes "index_ok h S"
  shows "p \<in> S \<Longrightarrow> walk_back h n p = Some q \<Longrightarrow> q \<in> S \<and> ix_nHeight (h q) = ix_nHeight (h p) - int n"
proof (induction n arbitrary: p)
  case (Suc n)
  then obtain r where r: "ix_pprev (h p) = Some r" "walk_back h n r = Some q" by (auto split: option.splits)
  from Suc.IH [OF _ r(2)] index_ok_prev [OF assms Suc.prems(1) r(1)] show ?case by simp
qed simp

lemma back_total:
  assumes "index_ok h S"
  shows "p \<in> S \<Longrightarrow> int n \<le> ix_nHeight (h p) \<Longrightarrow> \<exists>q. walk_back h n p = Some q"
proof (induction n arbitrary: p)
  case (Suc n)
  then obtain r where r: "ix_pprev (h p) = Some r" using index_ok_genesis [OF assms Suc.prems(1)] by (cases "ix_pprev (h p)") auto
  then show ?case using Suc.IH [of r] index_ok_prev [OF assms Suc.prems(1) r] Suc.prems(2) by simp
qed simp

lemma ancestor_refl [simp]: "ancestor h p p"
  unfolding ancestor_def by (rule exI [of _ 0]) simp

lemma ancestor_trans: "ancestor h r q \<Longrightarrow> ancestor h q p \<Longrightarrow> ancestor h r p"
  unfolding ancestor_def by (metis back_add option.simps(5))

lemma ancestor_prev: "ix_pprev (h p) = Some q \<Longrightarrow> ancestor h r p \<longleftrightarrow> r = p \<or> ancestor h r q"
proof
  assume "ix_pprev (h p) = Some q" "ancestor h r p"
  then obtain n where n: "walk_back h n p = Some r" by (auto simp: ancestor_def)
  then show "r = p \<or> ancestor h r q" using \<open>ix_pprev (h p) = Some q\<close> by (cases n) (auto simp: ancestor_def)
next
  assume "ix_pprev (h p) = Some q" "r = p \<or> ancestor h r q"
  moreover have "ancestor h q p" using \<open>ix_pprev (h p) = Some q\<close> unfolding ancestor_def by (intro exI [of _ 1]) simp
  ultimately show "ancestor h r p" using ancestor_trans by auto
qed

lemma ancestor_genesis: "ix_pprev (h p) = None \<Longrightarrow> ancestor h r p \<longleftrightarrow> r = p"
proof
  assume "ix_pprev (h p) = None" "ancestor h r p"
  then obtain n where "walk_back h n p = Some r" by (auto simp: ancestor_def)
  then show "r = p" using \<open>ix_pprev (h p) = None\<close> by (cases n) auto
qed simp

text \<open>An ancestor is where the walk of the right length ends.\<close>

lemma ancestor_back:
  assumes "index_ok h S" "p \<in> S"
  shows "ancestor h q p \<longleftrightarrow> ix_nHeight (h q) \<le> ix_nHeight (h p) \<and> walk_back h (nat (ix_nHeight (h p) - ix_nHeight (h q))) p = Some q"
proof
  assume "ancestor h q p"
  then obtain n where n: "walk_back h n p = Some q" by (auto simp: ancestor_def)
  then show "ix_nHeight (h q) \<le> ix_nHeight (h p) \<and> walk_back h (nat (ix_nHeight (h p) - ix_nHeight (h q))) p = Some q"
    using back_height [OF assms n] by simp
qed (auto simp: ancestor_def)

lemma ancestor_in: "index_ok h S \<Longrightarrow> p \<in> S \<Longrightarrow> ancestor h q p \<Longrightarrow> q \<in> S"
  using back_height by (auto simp: ancestor_def)

lemma ancestors_linear:
  assumes "index_ok h S" "p \<in> S" "ancestor h a p" "ancestor h b p" "ix_nHeight (h a) \<le> ix_nHeight (h b)"
  shows "ancestor h a b"
proof -
  obtain m n where m: "walk_back h m p = Some a" and n: "walk_back h n p = Some b" using assms(3,4) by (auto simp: ancestor_def)
  have "n \<le> m" using back_height [OF assms(1,2) m] back_height [OF assms(1,2) n] assms(5) by simp
  then have "walk_back h (m - n) b = Some a" using back_add [of h n "m - n" p] m n by simp
  then show ?thesis by (auto simp: ancestor_def)
qed

section \<open>The skip list\<close>

lemma InvertLowestOne_bounds: "0 < n \<Longrightarrow> 0 \<le> InvertLowestOne n \<and> InvertLowestOne n < n"
  using AND_upper2 [of "n - 1" n] by (simp add: InvertLowestOne_def)

lemma InvertLowestOne_0: "InvertLowestOne 0 = 0"
  by (simp add: InvertLowestOne_def)

lemma GetSkipHeight_bounds: "0 < n \<Longrightarrow> 0 \<le> GetSkipHeight n \<and> GetSkipHeight n < n"
proof -
  assume n: "0 < n"
  let ?i = "InvertLowestOne (n - 1)"
  have "2 \<le> n \<Longrightarrow> 0 \<le> ?i \<and> ?i < n - 1" using InvertLowestOne_bounds [of "n - 1"] by simp
  then have "2 \<le> n \<Longrightarrow> 0 \<le> InvertLowestOne ?i \<and> InvertLowestOne ?i \<le> ?i"
    using InvertLowestOne_bounds [of ?i] InvertLowestOne_0 by (cases "?i = 0") auto
  then show ?thesis using n \<open>2 \<le> n \<Longrightarrow> 0 \<le> ?i \<and> ?i < n - 1\<close> InvertLowestOne_bounds [of n]
    by (auto simp: GetSkipHeight_def)
qed

lemma ancestor_loop_back:
  assumes "index_ok h S"
  shows "p \<in> S \<Longrightarrow> 0 \<le> height \<Longrightarrow> height \<le> ix_nHeight (h p) \<Longrightarrow>
    ancestor_loop h height (Some p) (ix_nHeight (h p)) = Some (walk_back h (nat (ix_nHeight (h p) - height)) p)"
proof (induction "nat (ix_nHeight (h p) - height)" arbitrary: p rule: less_induct)
  case less
  let ?H = "ix_nHeight (h p)"
  show ?case
  proof (cases "?H > height")
    case False
    then show ?thesis using less.prems by (subst ancestor_loop.simps) simp
  next
    case True
    then obtain q where q: "ix_pprev (h p) = Some q"
      using index_ok_genesis [OF assms less.prems(1)] less.prems(2) by (cases "ix_pprev (h p)") auto
    note pq = index_ok_prev [OF assms less.prems(1) q]
    have bp: "walk_back h (nat (?H - height)) p = walk_back h (nat (ix_nHeight (h q) - height)) q"
    proof -
      have "nat (?H - height) = Suc (nat (ix_nHeight (h q) - height))" using pq True by simp
      then show ?thesis using q by simp
    qed
    let ?k = "GetSkipHeight ?H"
    have k: "0 \<le> ?k" "?k < ?H" using GetSkipHeight_bounds [of ?H] True less.prems(2) by simp_all
    show ?thesis
    proof (cases "?k = height \<or> (?k > height \<and> \<not> (GetSkipHeight (?H - 1) < ?k - 2 \<and> GetSkipHeight (?H - 1) \<ge> height))")
      case c: True
      obtain r where r: "walk_back h (nat (ix_nHeight (h q) - ?k)) q = Some r"
        using back_total [OF assms conjunct1 [OF pq]] k pq by fastforce
      have hr: "r \<in> S" "ix_nHeight (h r) = ?k" using back_height [OF assms conjunct1 [OF pq] r] k pq by auto
      have "ancestor_loop h height (Some r) ?k = Some (walk_back h (nat (?k - height)) r)"
        using less.hyps [of r] hr c k True less.prems(2) by auto
      moreover have "nat (ix_nHeight (h q) - height) = nat (ix_nHeight (h q) - ?k) + nat (?k - height)" using c k pq by auto
      then have "walk_back h (nat (?k - height)) r = walk_back h (nat (ix_nHeight (h q) - height)) q" using r by (simp add: back_add)
      ultimately show ?thesis using True c pq r bp by (subst ancestor_loop.simps) (simp add: Let_def)
    next
      case c: False
      have "ancestor_loop h height (Some q) (ix_nHeight (h q)) = Some (walk_back h (nat (ix_nHeight (h q) - height)) q)"
        using less.hyps [of q] pq True less.prems(2) by auto
      then show ?thesis using True c pq q bp by (subst ancestor_loop.simps) (auto simp: Let_def)
    qed
  qed
qed

lemma GetAncestor_back:
  assumes "index_ok h S" "p \<in> S"
  shows "GetAncestor h p height = Some (if 0 \<le> height \<and> height \<le> ix_nHeight (h p)
    then walk_back h (nat (ix_nHeight (h p) - height)) p else None)"
  using ancestor_loop_back [OF assms(1,2), of height] by (auto simp: GetAncestor_def)

text \<open>A new entry on top of a parent, linked by \<^verbatim>\<open>BuildSkip\<close>, keeps the index well formed.\<close>

lemma back_other:
  assumes "index_ok h S" "q \<notin> S"
  shows "p \<in> S \<Longrightarrow> walk_back (h(q := b)) n p = walk_back h n p"
proof (induction n arbitrary: p)
  case (Suc n)
  have "p \<noteq> q" using Suc.prems assms(2) by auto
  then show ?case using Suc.IH index_ok_prev [OF assms(1) Suc.prems] by (auto split: option.splits)
qed simp

lemma BuildSkip_linked:
  assumes "index_ok h S" "p \<notin> S" "ix_pprev b = Some q" "q \<in> S" "ix_nHeight b = ix_nHeight (h q) + 1"
  shows "\<exists>h'. BuildSkip (h(p := b)) p = Some h' \<and> index_ok h' (insert p S) \<and> (\<forall>x. x \<noteq> p \<longrightarrow> h' x = h x) \<and>
    h' p = b\<lparr>ix_pskip := ix_pskip (h' p)\<rparr>"
proof -
  let ?h = "h(p := b)" and ?k = "GetSkipHeight (ix_nHeight b)"
  have qp: "q \<noteq> p" using assms(2,4) by auto
  have ok: "index_ok ?h S" unfolding index_ok_def
  proof
    fix x assume x: "x \<in> S"
    then have "x \<noteq> p" using assms(2) by auto
    then show "entry_linked ?h S x" using assms(1) x back_other [OF assms(1,2)] assms(2)
      by (fastforce simp: index_ok_def entry_linked_def split: option.splits)
  qed
  have H: "0 \<le> ix_nHeight (h q)" using index_ok_height [OF assms(1,4)] .
  have k: "0 \<le> ?k" "?k \<le> ix_nHeight (h q)" using GetSkipHeight_bounds [of "ix_nHeight b"] assms(5) H by auto
  let ?s = "walk_back ?h (nat (ix_nHeight (h q) - ?k)) q"
  let ?h' = "h(p := b\<lparr>ix_pskip := ?s\<rparr>)"
  have "BuildSkip ?h p = Some ?h'"
    using GetAncestor_back [OF ok assms(4), of ?k] k qp assms(3) by (simp add: BuildSkip_def)
  moreover have "index_ok ?h' (insert p S)" unfolding index_ok_def
  proof
    fix x assume x: "x \<in> insert p S"
    have b: "y \<in> S \<Longrightarrow> walk_back ?h' n y = walk_back h n y" "y \<in> S \<Longrightarrow> walk_back ?h n y = walk_back h n y" for y n
      using back_other [OF assms(1,2)] by auto
    show "entry_linked ?h' (insert p S) x"
    proof (cases "x = p")
      case True
      then show ?thesis using assms(3-5) qp H b by (simp add: entry_linked_def)
    next
      case False
      then have "entry_linked h S x" "x \<in> S" using x assms(1) by (auto simp: index_ok_def)
      then show ?thesis using False b assms(2) by (fastforce simp: entry_linked_def split: option.splits)
    qed
  qed
  ultimately show ?thesis by (intro exI [of _ ?h']) auto
qed

section \<open>The active chain\<close>

text \<open>The path from the genesis block to an entry, as the vector of a chain.\<close>

definition path_to :: "index_heap \<Rightarrow> ptr \<Rightarrow> CChain" where
  "path_to h p = map (\<lambda>i. walk_back h (nat (ix_nHeight (h p)) - i) p) [0..<nat (ix_nHeight (h p)) + 1]"

definition is_chain :: "index_heap \<Rightarrow> ptr set \<Rightarrow> CChain \<Rightarrow> bool" where
  "is_chain h S c \<longleftrightarrow> c = [] \<or> (\<exists>p \<in> S. c = path_to h p)"

lemma length_path: "index_ok h S \<Longrightarrow> p \<in> S \<Longrightarrow> int (length (path_to h p)) = ix_nHeight (h p) + 1"
  using index_ok_height by (simp add: path_to_def)

lemma nth_path: "i \<le> nat (ix_nHeight (h p)) \<Longrightarrow> path_to h p ! i = walk_back h (nat (ix_nHeight (h p)) - i) p"
  by (simp add: path_to_def del: upt_Suc)

lemma path_prefix:
  assumes "index_ok h S" "p \<in> S" "walk_back h n p = Some q" "i \<le> nat (ix_nHeight (h q))"
  shows "path_to h p ! i = path_to h q ! i"
proof -
  have q: "q \<in> S" "ix_nHeight (h q) = ix_nHeight (h p) - int n" using back_height [OF assms(1-3)] by auto
  have "0 \<le> ix_nHeight (h q)" using index_ok_height [OF assms(1) q(1)] .
  then have "nat (ix_nHeight (h p)) - i = n + (nat (ix_nHeight (h q)) - i)" using q(2) assms(4) by linarith
  moreover have "i \<le> nat (ix_nHeight (h p))" using q(2) assms(4) by linarith
  ultimately show ?thesis using assms(3) nth_path [of i h q, OF assms(4)] by (simp add: nth_path back_add)
qed

lemma Tip_path: "index_ok h S \<Longrightarrow> p \<in> S \<Longrightarrow> Tip (path_to h p) = Some p"
  using length_path [of h S p] index_ok_height [of h S p] nth_path [of "nat (ix_nHeight (h p))" h p]
  by (auto simp: Tip_def) (simp add: path_to_def)

lemma Height_path: "index_ok h S \<Longrightarrow> p \<in> S \<Longrightarrow> chain_Height (path_to h p) = ix_nHeight (h p)"
  using length_path [of h S p] by (simp add: chain_Height_def)

lemma Contains_path:
  assumes "index_ok h S" "t \<in> S" "p \<in> S"
  shows "Contains h (path_to h t) p \<longleftrightarrow> ancestor h p t"
proof -
  have l: "int (length (path_to h t)) = ix_nHeight (h t) + 1" using length_path [OF assms(1,2)] .
  have "0 \<le> ix_nHeight (h p)" using index_ok_height [OF assms(1,3)] .
  then show ?thesis unfolding ancestor_back [OF assms(1,2)] Contains_def chain_at_def
    using l nth_path [of "nat (ix_nHeight (h p))" h t] by (auto simp: nat_diff_distrib nat_le_iff)
qed

text \<open>
  The loop of \<^verbatim>\<open>SetTip\<close> stops at the first entry that is already in place; below it the vector must
  be the path to that entry.
\<close>

definition settled :: "index_heap \<Rightarrow> ptr set \<Rightarrow> CChain \<Rightarrow> nat \<Rightarrow> bool" where
  "settled h S c n \<longleftrightarrow> (\<forall>i < n. \<forall>r \<in> S. i < length c \<longrightarrow> c ! i = Some r \<longrightarrow> ix_nHeight (h r) = int i \<longrightarrow>
     (\<forall>j \<le> i. c ! j = path_to h r ! j))"

lemma settledD:
  "settled h S c n \<Longrightarrow> i < n \<Longrightarrow> r \<in> S \<Longrightarrow> i < length c \<Longrightarrow> c ! i = Some r \<Longrightarrow> ix_nHeight (h r) = int i \<Longrightarrow>
   j \<le> i \<Longrightarrow> c ! j = path_to h r ! j"
  unfolding settled_def by blast

lemma settled_path:
  assumes "index_ok h S" "is_chain h S c" shows "settled h S (resize_vec n None c) m"
  unfolding settled_def
proof (intro allI impI ballI)
  fix i r j
  assume r: "r \<in> S" "i < length (resize_vec n None c)" "resize_vec n None c ! i = Some r" "ix_nHeight (h r) = int i" "j \<le> i"
  then have c: "i < length c" "c ! i = Some r" "i < n"
    by (auto simp: resize_vec_def nth_append split: if_splits)
  then obtain p where p: "p \<in> S" "c = path_to h p" using assms(2) by (auto simp: is_chain_def)
  then have i: "i \<le> nat (ix_nHeight (h p))" using c(1) by (simp add: path_to_def)
  then have "walk_back h (nat (ix_nHeight (h p)) - i) p = Some r" using c(2) p nth_path by simp
  then have "c ! j = path_to h r ! j" using path_prefix [OF assms(1) p(1), of _ r j] r(4,5) p(2) by simp
  then show "resize_vec n None c ! j = path_to h r ! j" using r(5) c by (simp add: resize_vec_def nth_append)
qed

lemma settip_loop_None [simp]: "settip_loop h None c = Some c"
  by (subst settip_loop.simps) simp

lemma fork_loop_None [simp]: "fork_loop h c None = Some None"
  by (subst fork_loop.simps) simp

lemma common_loop_None [simp]: "common_loop h None pb = Some (None, pb)" "common_loop h pa None = Some (pa, None)"
  by (subst common_loop.simps, simp split: option.split)+

lemma settip_loop_path:
  assumes "index_ok h S"
  shows "p \<in> S \<Longrightarrow> ix_nHeight (h p) < int (length c) \<Longrightarrow> settled h S c (nat (ix_nHeight (h p)) + 1) \<Longrightarrow>
    \<exists>c'. settip_loop h (Some p) c = Some c' \<and> length c' = length c \<and>
      (\<forall>j < length c. c' ! j = (if j \<le> nat (ix_nHeight (h p)) then path_to h p ! j else c ! j))"
proof (induction "nat (ix_nHeight (h p))" arbitrary: p c rule: less_induct)
  case less
  let ?n = "nat (ix_nHeight (h p))"
  have H: "0 \<le> ix_nHeight (h p)" using index_ok_height [OF assms less.prems(1)] .
  then have n: "?n < length c" "ix_nHeight (h p) = int ?n" using less.prems(2) by simp_all
  show ?case
  proof (cases "c ! ?n = Some p")
    case True
    then have "\<forall>j \<le> ?n. c ! j = path_to h p ! j" using less.prems(1,3) n unfolding settled_def by fastforce
    then show ?thesis using True H less.prems(2) by (subst settip_loop.simps) auto
  next
    case False
    let ?c = "c[?n := Some p]"
    have pn: "path_to h p ! ?n = Some p" by (simp add: nth_path)
    show ?thesis
    proof (cases "ix_pprev (h p)")
      case None
      then have "?n = 0" using index_ok_genesis [OF assms less.prems(1)] by simp
      then have "settip_loop h (Some p) c = Some (c[0 := Some p])"
        using None False H less.prems(2) by (subst settip_loop.simps) auto
      then show ?thesis using \<open>?n = 0\<close> pn n(1) by (auto simp: nth_list_update)
    next
      case (Some q)
      note q = index_ok_prev [OF assms less.prems(1) Some]
      have nq: "nat (ix_nHeight (h q)) < ?n" "0 \<le> ix_nHeight (h q)" using q index_ok_height [OF assms, of q] by auto
      have "settled h S ?c (nat (ix_nHeight (h q)) + 1)"
        unfolding settled_def
      proof (intro allI impI ballI)
        fix i r j
        assume i: "i < nat (ix_nHeight (h q)) + 1" "r \<in> S" "i < length ?c" "?c ! i = Some r" "ix_nHeight (h r) = int i" "j \<le> i"
        have "i \<le> nat (ix_nHeight (h q))" using i(1) by (simp only: Suc_eq_plus1 [symmetric] less_Suc_eq_le)
        then have lt: "i < ?n" using nq(1) by (rule le_less_trans)
        then have "?n \<noteq> i" "?n \<noteq> j" using i(6) by simp_all
        then have "c ! i = Some r" "?c ! j = c ! j" using i(4) by (simp_all add: nth_list_update_neq)
        then show "?c ! j = path_to h r ! j"
          using settledD [OF less.prems(3) _ i(2), of i j] lt i(3,5,6) by simp
      qed
      then obtain c' where c': "settip_loop h (Some q) ?c = Some c'" "length c' = length c"
          "\<forall>j < length c. c' ! j = (if j \<le> nat (ix_nHeight (h q)) then path_to h q ! j else ?c ! j)"
      proof -
        have "ix_nHeight (h q) < int (length ?c)" using q n(1) nq by simp
        from less.hyps [OF nq(1) conjunct1 [OF q] this \<open>settled h S ?c (nat (ix_nHeight (h q)) + 1)\<close>]
        show ?thesis using that by (metis length_list_update)
      qed
      have "path_to h p ! j = path_to h q ! j" if "j \<le> nat (ix_nHeight (h q))" for j
        using path_prefix [OF assms less.prems(1), of 1 q j] Some that by simp
      moreover have "?n = nat (ix_nHeight (h q)) + 1" using q nq by simp
      ultimately have "\<forall>j < length c. c' ! j = (if j \<le> ?n then path_to h p ! j else c ! j)"
        using c'(3) pn by (auto simp: nth_list_update le_Suc_eq)
      moreover have "settip_loop h (Some p) c = settip_loop h (Some q) ?c"
        using False H less.prems(2) Some by (subst settip_loop.simps) simp
      ultimately show ?thesis using c'(1,2) by simp
    qed
  qed
qed

lemma SetTip_path:
  assumes "index_ok h S" "is_chain h S c" "p \<in> S"
  shows "SetTip h (Some p) c = Some (path_to h p)"
proof -
  let ?n = "nat (ix_nHeight (h p) + 1)" and ?c = "resize_vec (nat (ix_nHeight (h p) + 1)) None c"
  have H: "0 \<le> ix_nHeight (h p)" using index_ok_height [OF assms(1,3)] .
  have l: "length ?c = ?n" by (simp add: resize_vec_def)
  have "ix_nHeight (h p) < int (length ?c)" unfolding l using H by simp
  from settip_loop_path [OF assms(1,3) this settled_path [OF assms(1,2)]] obtain c' where c0:
      "settip_loop h (Some p) ?c = Some c'" "length c' = length ?c"
      "\<forall>j < length ?c. c' ! j = (if j \<le> nat (ix_nHeight (h p)) then path_to h p ! j else ?c ! j)" by blast
  have "j \<le> nat (ix_nHeight (h p))" if "j < ?n" for j using that H by linarith
  then have c': "settip_loop h (Some p) ?c = Some c'" "length c' = ?n" "\<forall>j < ?n. c' ! j = path_to h p ! j"
    using c0 unfolding l by auto
  moreover have "c' = path_to h p" using c' H by (intro nth_equalityI) (auto simp: path_to_def nat_add_distrib simp del: upt_Suc)
  ultimately show ?thesis by (simp add: SetTip_def)
qed

section \<open>The last common ancestor\<close>

definition last_common :: "index_heap \<Rightarrow> ptr \<Rightarrow> ptr \<Rightarrow> ptr option \<Rightarrow> bool" where
  "last_common h a b r \<longleftrightarrow>
     (case r of
        None \<Rightarrow> (\<nexists>x. ancestor h x a \<and> ancestor h x b)
      | Some f \<Rightarrow> ancestor h f a \<and> ancestor h f b \<and> (\<forall>x. ancestor h x a \<longrightarrow> ancestor h x b \<longrightarrow> ancestor h x f))"

lemma fork_loop_common:
  assumes "index_ok h S" "t \<in> S"
  shows "p \<in> S \<Longrightarrow> \<exists>r. fork_loop h (path_to h t) (Some p) = Some r \<and> last_common h p t r"
proof (induction "nat (ix_nHeight (h p))" arbitrary: p rule: less_induct)
  case less
  show ?case
  proof (cases "ancestor h p t")
    case True
    then show ?thesis using Contains_path [OF assms less.prems]
      by (subst fork_loop.simps) (simp add: last_common_def)
  next
    case False
    show ?thesis
    proof (cases "ix_pprev (h p)")
      case None
      then show ?thesis using False Contains_path [OF assms less.prems] ancestor_genesis [of h p, OF None]
        by (subst fork_loop.simps) (auto simp: last_common_def)
    next
      case (Some q)
      note q = index_ok_prev [OF assms(1) less.prems Some]
      then have "nat (ix_nHeight (h q)) < nat (ix_nHeight (h p))" using index_ok_height [OF assms(1), of q] by auto
      then obtain r where r: "fork_loop h (path_to h t) (Some q) = Some r" "last_common h q t r"
        using less.hyps q by blast
      have "last_common h p t r" using r(2) False ancestor_prev [of h p, OF Some] by (auto simp: last_common_def split: option.splits)
      then show ?thesis using r(1) False Some Contains_path [OF assms less.prems] by (subst fork_loop.simps) auto
    qed
  qed
qed

lemma common_truncate:
  assumes "index_ok h S" "p \<in> S" "t \<in> S" "ix_nHeight (h t) \<le> ix_nHeight (h p)"
    and "walk_back h (nat (ix_nHeight (h p) - ix_nHeight (h t))) p = Some q" "last_common h q t r"
  shows "last_common h p t r"
proof -
  have q: "ancestor h q p" "q \<in> S" "ix_nHeight (h q) = ix_nHeight (h t)"
    using back_height [OF assms(1,2,5)] assms(4,5) by (auto simp: ancestor_def)
  have "ancestor h x p \<and> ancestor h x t \<longleftrightarrow> ancestor h x q \<and> ancestor h x t" for x
  proof
    assume x: "ancestor h x p \<and> ancestor h x t"
    then have "ix_nHeight (h x) \<le> ix_nHeight (h t)" using ancestor_back [OF assms(1,3)] by simp
    then show "ancestor h x q \<and> ancestor h x t" using ancestors_linear [OF assms(1,2)] x q by auto
  next
    assume "ancestor h x q \<and> ancestor h x t" then show "ancestor h x p \<and> ancestor h x t" using q(1) ancestor_trans by blast
  qed
  then show ?thesis using assms(6) by (auto simp: last_common_def split: option.splits)
qed

lemma FindFork_common:
  assumes "index_ok h S" "t \<in> S" "p \<in> S"
  shows "\<exists>r. FindFork h (path_to h t) p = Some r \<and> last_common h p t r"
proof (cases "ix_nHeight (h p) > ix_nHeight (h t)")
  case False
  then show ?thesis using fork_loop_common [OF assms] by (simp add: FindFork_def Height_path [OF assms(1,2)])
next
  case True
  have H: "0 \<le> ix_nHeight (h t)" using index_ok_height [OF assms(1,2)] .
  obtain q where q: "walk_back h (nat (ix_nHeight (h p) - ix_nHeight (h t))) p = Some q"
    using back_total [OF assms(1,3), of "nat (ix_nHeight (h p) - ix_nHeight (h t))"] True H by auto
  then have "q \<in> S" using back_height [OF assms(1,3)] by blast
  then obtain r where "fork_loop h (path_to h t) (Some q) = Some r" "last_common h q t r"
    using fork_loop_common [OF assms(1,2)] by blast
  then show ?thesis using common_truncate [OF assms(1,3,2) _ q] GetAncestor_back [OF assms(1,3), of "ix_nHeight (h t)"] True H q
    by (simp add: FindFork_def Height_path [OF assms(1,2)])
qed

lemma common_loop_common:
  assumes "index_ok h S"
  shows "a \<in> S \<Longrightarrow> b \<in> S \<Longrightarrow> ix_nHeight (h a) = ix_nHeight (h b) \<Longrightarrow>
    \<exists>r s. common_loop h (Some a) (Some b) = Some (r, s) \<and> r = s \<and> last_common h a b r"
proof (induction "nat (ix_nHeight (h a))" arbitrary: a b rule: less_induct)
  case less
  show ?case
  proof (cases "a = b")
    case True then show ?thesis by (subst common_loop.simps) (simp add: last_common_def)
  next
    case False
    have ab: "ancestor h x a \<and> ancestor h x b \<Longrightarrow> x \<noteq> a \<and> x \<noteq> b" for x
      using False less.prems ancestor_back [OF assms] by auto
    show ?thesis
    proof (cases "ix_pprev (h a)")
      case None
      then have "ix_pprev (h b) = None" using index_ok_genesis [OF assms] less.prems by metis
      then show ?thesis using None False ancestor_genesis [of h a, OF None] ab
        by (subst common_loop.simps) (auto simp: last_common_def)
    next
      case (Some q)
      then obtain r where r: "ix_pprev (h b) = Some r" using index_ok_genesis [OF assms] less.prems
        by (metis option.exhaust option.distinct(1))
      note qr = index_ok_prev [OF assms less.prems(1) Some] index_ok_prev [OF assms less.prems(2) r]
      have "nat (ix_nHeight (h q)) < nat (ix_nHeight (h a))" using qr index_ok_height [OF assms, of q] by auto
      then obtain x where x: "common_loop h (Some q) (Some r) = Some (x, x)" "last_common h q r x"
        using less.hyps [of q r] qr less.prems(3) by auto
      have "ancestor h y a \<and> ancestor h y b \<longleftrightarrow> ancestor h y q \<and> ancestor h y r" for y
        using ancestor_prev [of h a q y, OF Some] ancestor_prev [of h b r y, OF r] ab [of y] by blast
      then have "last_common h a b x" using x(2) by (auto simp: last_common_def split: option.splits)
      then show ?thesis using x(1) False Some r by (subst common_loop.simps) auto
    qed
  qed
qed

lemma last_common_sym: "last_common h a b r \<longleftrightarrow> last_common h b a r"
  by (auto simp: last_common_def split: option.splits)

lemma LastCommonAncestor_common:
  assumes "index_ok h S" "a \<in> S" "b \<in> S"
  shows "\<exists>r. LastCommonAncestor h a b = Some r \<and> last_common h a b r"
proof -
  have H: "0 \<le> ix_nHeight (h a)" "0 \<le> ix_nHeight (h b)" using index_ok_height [OF assms(1)] assms(2,3) by auto
  have down: "\<exists>q. GetAncestor h x (ix_nHeight (h y)) = Some (Some q) \<and> q \<in> S \<and> ix_nHeight (h q) = ix_nHeight (h y) \<and>
      walk_back h (nat (ix_nHeight (h x) - ix_nHeight (h y))) x = Some q"
    if x: "x \<in> S" and y: "y \<in> S" and lt: "ix_nHeight (h y) < ix_nHeight (h x)" for x y
  proof -
    have "0 \<le> ix_nHeight (h y)" using index_ok_height [OF assms(1) y] .
    then obtain q where q: "walk_back h (nat (ix_nHeight (h x) - ix_nHeight (h y))) x = Some q"
      using back_total [OF assms(1) x, of "nat (ix_nHeight (h x) - ix_nHeight (h y))"] lt by auto
    then show ?thesis using GetAncestor_back [OF assms(1) x, of "ix_nHeight (h y)"] back_height [OF assms(1) x q] lt
        \<open>0 \<le> ix_nHeight (h y)\<close> by simp
  qed
  consider "ix_nHeight (h b) < ix_nHeight (h a)" | "ix_nHeight (h a) < ix_nHeight (h b)" | "ix_nHeight (h a) = ix_nHeight (h b)" by linarith
  then show ?thesis
  proof cases
    case 1
    obtain q where q: "GetAncestor h a (ix_nHeight (h b)) = Some (Some q)" "q \<in> S" "ix_nHeight (h q) = ix_nHeight (h b)"
        "walk_back h (nat (ix_nHeight (h a) - ix_nHeight (h b))) a = Some q" using down [OF assms(2,3) 1] by blast
    obtain r where "common_loop h (Some q) (Some b) = Some (r, r)" "last_common h q b r"
      using common_loop_common [OF assms(1) q(2) assms(3) q(3)] by blast
    then show ?thesis using 1 q(1) common_truncate [OF assms(1,2,3) _ q(4)] by (simp add: LastCommonAncestor_def Let_def)
  next
    case 2
    obtain q where q: "GetAncestor h b (ix_nHeight (h a)) = Some (Some q)" "q \<in> S" "ix_nHeight (h q) = ix_nHeight (h a)"
        "walk_back h (nat (ix_nHeight (h b) - ix_nHeight (h a))) b = Some q" using down [OF assms(3,2) 2] by blast
    obtain r where "common_loop h (Some a) (Some q) = Some (r, r)" "last_common h a q r"
      using common_loop_common [OF assms(1,2) q(2) q(3) [symmetric]] by blast
    then show ?thesis using 2 q(1) common_truncate [OF assms(1,3,2) _ q(4)] last_common_sym
      by (auto simp: LastCommonAncestor_def Let_def)
  next
    case 3
    then show ?thesis using common_loop_common [OF assms(1-3)] by (auto simp: LastCommonAncestor_def Let_def)
  qed
qed

section \<open>Locators\<close>

lemma ancestor_at:
  assumes "index_ok h S" "p \<in> S" "0 \<le> n" "n \<le> ix_nHeight (h p)"
  obtains q where "walk_back h (nat (ix_nHeight (h p) - n)) p = Some q" "q \<in> S" "ix_nHeight (h q) = n" "ancestor h q p"
proof -
  obtain q where q: "walk_back h (nat (ix_nHeight (h p) - n)) p = Some q"
    using back_total [OF assms(1,2), of "nat (ix_nHeight (h p) - n)"] assms(3,4) by auto
  then show ?thesis using that back_height [OF assms(1,2) q] assms(4) by (auto simp: ancestor_def)
qed

lemma ancestor_unique:
  assumes "index_ok h S" "p \<in> S" "ancestor h a p" "ancestor h b p" "ix_nHeight (h a) = ix_nHeight (h b)"
  shows "a = b"
  using assms ancestor_back [OF assms(1,2)] by simp

text \<open>The step of \<^verbatim>\<open>GetLocator\<close>: through the vector when the entry is in the chain, else by the skip list.\<close>

lemma locator_step:
  assumes "index_ok h S" "is_chain h S c" "p \<in> S" "0 \<le> n" "n \<le> ix_nHeight (h p)"
  obtains q where "(if Contains h c p then Some (chain_at c n) else GetAncestor h p n) = Some (Some q)"
    "q \<in> S" "ix_nHeight (h q) = n" "ancestor h q p"
proof -
  obtain q where q: "walk_back h (nat (ix_nHeight (h p) - n)) p = Some q" "q \<in> S" "ix_nHeight (h q) = n" "ancestor h q p"
    using ancestor_at [OF assms(1,3,4,5)] by blast
  show ?thesis
  proof (cases "Contains h c p")
    case False
    then show ?thesis using that q GetAncestor_back [OF assms(1,3), of n] assms(4,5) by simp
  next
    case True
    then have "c \<noteq> []" by (auto simp: Contains_def chain_at_def split: if_splits)
    then obtain t where t: "t \<in> S" "c = path_to h t" using assms(2) by (auto simp: is_chain_def)
    then have pt: "ancestor h p t" using True Contains_path [OF assms(1) t(1) assms(3)] by simp
    then have "Contains h c q" using Contains_path [OF assms(1) t(1) q(2)] ancestor_trans [OF q(4) pt] t(2) by simp
    then show ?thesis using that [of q] True q by (simp add: Contains_def)
  qed
qed

lemma locator_loop_spec:
  assumes "index_ok h S" "is_chain h S c"
  shows "p \<in> S \<Longrightarrow> 1 \<le> nStep \<Longrightarrow> \<exists>ls. locator_loop h c (Some p) nStep vHave = Some (rev vHave @ ix_hash (h p) # ls) \<and>
    (\<forall>x \<in> set ls. \<exists>a. ancestor h a p \<and> x = ix_hash (h a)) \<and>
    (\<exists>g. ancestor h g p \<and> ix_nHeight (h g) = 0 \<and> last (ix_hash (h p) # ls) = ix_hash (h g))"
proof (induction "nat (ix_nHeight (h p))" arbitrary: p nStep vHave rule: less_induct)
  case less
  have H: "0 \<le> ix_nHeight (h p)" using index_ok_height [OF assms(1) less.prems(1)] .
  show ?case
  proof (cases "ix_nHeight (h p) = 0")
    case True
    then show ?thesis by (subst locator_loop.simps) (auto simp: Let_def intro!: exI [of _ p])
  next
    case False
    let ?n = "max (ix_nHeight (h p) - nStep) 0"
    let ?v = "ix_hash (h p) # vHave"
    let ?step = "if length ?v > 10 then nStep * 2 else nStep"
    obtain q where q: "(if Contains h c p then Some (chain_at c ?n) else GetAncestor h p ?n) = Some (Some q)"
        "q \<in> S" "ix_nHeight (h q) = ?n" "ancestor h q p"
      using locator_step [OF assms less.prems(1), of ?n] H less.prems(2) by auto
    have "nat (ix_nHeight (h q)) < nat (ix_nHeight (h p))" using q(3) H False less.prems(2) by auto
    moreover have "1 \<le> ?step" using less.prems(2) by simp
    ultimately obtain ls where ls: "locator_loop h c (Some q) ?step ?v = Some (rev ?v @ ix_hash (h q) # ls)"
        "\<forall>x \<in> set ls. \<exists>a. ancestor h a q \<and> x = ix_hash (h a)"
        "\<exists>g. ancestor h g q \<and> ix_nHeight (h g) = 0 \<and> last (ix_hash (h q) # ls) = ix_hash (h g)"
      using less.hyps [of q ?step ?v] q(2) by blast
    have "locator_loop h c (Some p) nStep vHave = locator_loop h c (Some q) ?step ?v"
      using False q(1) by (subst locator_loop.simps) (simp add: Let_def)
    then have "locator_loop h c (Some p) nStep vHave = Some (rev vHave @ ix_hash (h p) # ix_hash (h q) # ls)"
      using ls(1) by simp
    moreover have "\<forall>x \<in> set (ix_hash (h q) # ls). \<exists>a. ancestor h a p \<and> x = ix_hash (h a)"
      using ls(2) q(4) ancestor_trans [OF _ q(4)] by (metis set_ConsD)
    moreover have "\<exists>g. ancestor h g p \<and> ix_nHeight (h g) = 0 \<and> last (ix_hash (h p) # ix_hash (h q) # ls) = ix_hash (h g)"
      using ls(3) ancestor_trans [OF _ q(4)] by (metis last_ConsR list.distinct(1))
    ultimately show ?thesis by blast
  qed
qed

text \<open>
  What a node finds with another node's locator: the first of its hashes that names a block of the
  own active chain. On a common index it is an ancestor of both tips.
\<close>

lemma FindFork_locator:
  assumes "index_ok h S" "t \<in> S" "p \<in> S" "\<And>q. q \<in> S \<Longrightarrow> m (ix_hash (h q)) = Some q"
    and "\<forall>x \<in> set ls. \<exists>a. ancestor h a p \<and> x = ix_hash (h a)"
  shows "\<exists>f. FindForkInGlobalIndex h m (path_to h t) ls = Some f \<and> ancestor h f t \<and>
    (ancestor h f p \<or> ix_nHeight (h f) = 0)"
  using assms(5)
proof (induction ls)
  case Nil
  have l: "int (length (path_to h t)) = ix_nHeight (h t) + 1" using length_path [OF assms(1,2)] .
  have H: "0 \<le> ix_nHeight (h t)" using index_ok_height [OF assms(1,2)] .
  obtain g where g: "walk_back h (nat (ix_nHeight (h t) - 0)) t = Some g" "ix_nHeight (h g) = 0" "ancestor h g t"
    using ancestor_at [OF assms(1,2), of 0] H by auto
  have "length (path_to h t) > 0" using l H by linarith
  then have "Genesis (path_to h t) = Some g" using g(1) by (simp add: Genesis_def nth_path)
  then show ?case using g by simp
next
  case (Cons x ls)
  then obtain a where a: "ancestor h a p" "x = ix_hash (h a)" by auto
  then have "m x = Some a" using assms(4) ancestor_in [OF assms(1,3)] by auto
  then show ?case using Cons a Contains_path [OF assms(1,2) ancestor_in [OF assms(1,3) a(1)]] by auto
qed

lemma locator_finds_common:
  assumes "index_ok h S" "t \<in> S" "p \<in> S" "is_chain h S c" "\<And>q. q \<in> S \<Longrightarrow> m (ix_hash (h q)) = Some q"
    and "\<And>a b. a \<in> S \<Longrightarrow> b \<in> S \<Longrightarrow> ix_nHeight (h a) = 0 \<Longrightarrow> ix_nHeight (h b) = 0 \<Longrightarrow> a = b"
  shows "\<exists>ls f. GetLocator h c (Some p) = Some ls \<and> FindForkInGlobalIndex h m (path_to h t) ls = Some f \<and>
    ancestor h f t \<and> ancestor h f p \<and> (ancestor h p t \<longrightarrow> f = p)"
proof -
  obtain ls where ls: "locator_loop h c (Some p) 1 [] = Some (ix_hash (h p) # ls)"
      "\<forall>x \<in> set ls. \<exists>a. ancestor h a p \<and> x = ix_hash (h a)"
    using locator_loop_spec [OF assms(1,4,3), of 1 "[]"] by auto
  then have all: "\<forall>x \<in> set (ix_hash (h p) # ls). \<exists>a. ancestor h a p \<and> x = ix_hash (h a)" using ancestor_refl [of h p] by (metis set_ConsD)
  obtain f where f: "FindForkInGlobalIndex h m (path_to h t) (ix_hash (h p) # ls) = Some f" "ancestor h f t"
      "ancestor h f p \<or> ix_nHeight (h f) = 0"
    using FindFork_locator [OF assms(1-3,5) all] by auto
  obtain g where g: "ix_nHeight (h g) = 0" "ancestor h g p" "g \<in> S"
    using ancestor_at [OF assms(1,3), of 0] index_ok_height [OF assms(1,3)] by auto
  then have "ancestor h f p" using f(2,3) assms(6) ancestor_in [OF assms(1,2) f(2)] by metis
  moreover have "ancestor h p t \<longrightarrow> f = p"
    using f(1) assms(5) [OF assms(3)] Contains_path [OF assms(1,2,3)] by auto
  ultimately show ?thesis using ls(1) f by (auto simp: GetLocator_def)
qed

end
