(* ===== verification/Pow.thy ===== *)
theory Pow
  imports Compact ChainLemmas
begin

unbundle bit_operations_syntax

text \<open>
  The target of the next block, \<^verbatim>\<open>GetNextWorkRequired\<close> of \<^verbatim>\<open>src/src/pow.cpp\<close>, and the trust of a
  block, \<^verbatim>\<open>CBlockIndex::GetBlockTrust\<close> of \<^verbatim>\<open>src/src/chain.cpp\<close>. Targets are 256-bit words, times and
  counts integers. A product of a target and a signed 64-bit integer takes the overload for
  \<^verbatim>\<open>uint32_t\<close>, so the factor is cut to 32 bits. \<open>None\<close> is a failed assertion, a division by zero or
  the use of a null pointer.
\<close>

section \<open>Definitions\<close>

record pow_params =
  pw_ProofOfWorkLimit :: "256 word"
  pw_LAST_POW_BLOCK :: int
  pw_TargetSpacing :: int

definition GetBlockTime :: "CBlockIndex \<Rightarrow> int" where
  "GetBlockTime b = uint (ix_nTime b)"

definition bnTargetLimit :: "256 word" where
  "bnTargetLimit = drop_bit 24 (NOT 0)"

text \<open>The branch for proof of stake: a step of a moving average.\<close>

definition stake_target :: "256 word \<Rightarrow> int \<Rightarrow> 256 word" where
  "stake_target bn nActualSpacing =
     (let nTargetSpacing = 45; nTargetTimespan = 45 * 40; nInterval = nTargetTimespan div nTargetSpacing;
          bnNew = bn * ucast (word_of_int ((nInterval - 1) * nTargetSpacing + nActualSpacing + nActualSpacing) :: u32);
          bnNew = bnNew div word_of_int ((nInterval + 1) * nTargetSpacing)
      in if bnNew = 0 \<or> bnNew > bnTargetLimit then bnTargetLimit else bnNew)"

text \<open>
  The loop over the last blocks (Dark Gravity Wave): the counter, the average, the time span and the
  time of the block before. \<open>n\<close> is the number of rounds left of \<^verbatim>\<open>PastBlocksMax\<close>; the average of the
  round before is the average itself.
\<close>

primrec gravity_loop :: "index_heap \<Rightarrow> nat \<Rightarrow> ptr \<Rightarrow> int \<Rightarrow> 256 word \<Rightarrow> int \<Rightarrow> int \<Rightarrow> int \<times> 256 word \<times> int" where
  "gravity_loop h 0 p CountBlocks avg nActualTimespan LastBlockTime = (CountBlocks, avg, nActualTimespan)"
| "gravity_loop h (Suc n) p CountBlocks avg nActualTimespan LastBlockTime =
     (if \<not> ix_nHeight (h p) > 0 then (CountBlocks, avg, nActualTimespan)
      else let CountBlocks = CountBlocks + 1;
               t = fst (SetCompact (ix_nBits (h p)));
               avg = (if CountBlocks \<le> 24
                      then if CountBlocks = 1 then t
                           else (avg * ucast (word_of_int CountBlocks :: u32) + t) div word_of_int (CountBlocks + 1)
                      else avg);
               nActualTimespan = (if LastBlockTime > 0 then nActualTimespan + (LastBlockTime - GetBlockTime (h p))
                                  else nActualTimespan);
               LastBlockTime = GetBlockTime (h p)
           in case ix_pprev (h p) of
                None \<Rightarrow> (CountBlocks, avg, nActualTimespan)
              | Some q \<Rightarrow> gravity_loop h n q CountBlocks avg nActualTimespan LastBlockTime)"

definition work_target :: "pow_params \<Rightarrow> int \<times> 256 word \<times> int \<Rightarrow> 256 word option" where
  "work_target P st =
     (case st of (CountBlocks, avg, timespan) \<Rightarrow>
        let target = CountBlocks * pw_TargetSpacing P;
            timespan = (if timespan < target div 3 then target div 3 else timespan);
            timespan = (if timespan > target * 3 then target * 3 else timespan);
            bnNew = avg * ucast (word_of_int timespan :: u32)
        in if (word_of_int target :: 256 word) = 0 then None
           else let bnNew = bnNew div word_of_int target
                in Some (if bnNew > pw_ProofOfWorkLimit P then pw_ProofOfWorkLimit P else bnNew))"

definition GetNextWorkRequired :: "pow_params \<Rightarrow> index_heap \<Rightarrow> ptr option \<Rightarrow> u32 option" where
  "GetNextWorkRequired P h pindexLast =
     (case pindexLast of
        None \<Rightarrow> GetCompact (pw_ProofOfWorkLimit P) False
      | Some p \<Rightarrow>
          if ix_nHeight (h p) = 0 \<or> ix_nHeight (h p) < 24 then GetCompact (pw_ProofOfWorkLimit P) False
          else if ix_nHeight (h p) > pw_LAST_POW_BLOCK P
          then (case ix_pprev (h p) of
                  None \<Rightarrow> None
                | Some q \<Rightarrow>
                    let nActualSpacing = GetBlockTime (h p) - GetBlockTime (h q);
                        nActualSpacing = (if nActualSpacing < 0 then 1 else nActualSpacing)
                    in GetCompact (stake_target (fst (SetCompact (ix_nBits (h p)))) nActualSpacing) False)
          else case work_target P (gravity_loop h 24 p 0 0 0 0) of
                 None \<Rightarrow> None
               | Some bnNew \<Rightarrow> GetCompact bnNew False)"

text \<open>\<^verbatim>\<open>GetBlockTrust\<close>: the shift by 256 loses every bit, as in \<^verbatim>\<open>operator<<=\<close>.\<close>

definition GetBlockTrust :: "CBlockIndex \<Rightarrow> 256 word option" where
  "GetBlockTrust b =
     (let bnTarget = fst (SetCompact (ix_nBits b))
      in if bnTarget = 0 then Some 0
         else if bnTarget + 1 = 0 then None
         else if index_IsProofOfStake b then Some (push_bit 256 1 div (bnTarget + 1))
         else let bnPoWTrust = drop_bit 20 (NOT 0) div (bnTarget + 1)
              in Some (if bnPoWTrust > 1 then bnPoWTrust else 1))"

section \<open>Trust\<close>

lemma push_out: "push_bit 256 (x :: 256 word) = 0"
  by (rule bit_word_eqI) (simp add: bit_push_bit_iff)

lemma GetBlockTrust_stake: "index_IsProofOfStake b \<Longrightarrow> GetBlockTrust b = Some 0"
proof (cases "SetCompact (ix_nBits b)")
  case (fields t n v)
  then have "t + 1 \<noteq> 0" by (rule SetCompact_not_max)
  moreover assume "index_IsProofOfStake b"
  ultimately show ?thesis unfolding GetBlockTrust_def push_out Let_def by (simp add: fields)
qed

lemma GetBlockTrust_work:
  assumes "\<not> index_IsProofOfStake b" "fst (SetCompact (ix_nBits b)) \<noteq> 0"
  shows "\<exists>w. GetBlockTrust b = Some w \<and> w \<noteq> 0"
  using assms SetCompact_not_max [of "ix_nBits b"] by (cases "SetCompact (ix_nBits b)") (auto simp: GetBlockTrust_def Let_def)

section \<open>The target stays within its limit\<close>

lemma compact_below:
  assumes "x \<le> m"
  shows "\<exists>c y. GetCompact x False = Some c \<and> SetCompact c = (y, False, False) \<and> y \<le> m"
proof -
  obtain c y where "GetCompact x False = Some c" "SetCompact c = (y, False, False)" "unat y \<le> unat x"
    using compact_keeps [of x] by metis
  moreover have "unat x \<le> unat m" using assms by (simp add: word_le_nat_alt)
  ultimately show ?thesis by (auto simp: word_le_nat_alt)
qed

lemma stake_target_limit: "stake_target bn s \<le> bnTargetLimit"
  by (auto simp: stake_target_def Let_def not_less)

lemma gravity_round:
  assumes "0 < ix_nHeight (h p)"
  shows "\<exists>a' s' l'. gravity_loop h (Suc n) p k a s l =
    (case ix_pprev (h p) of None \<Rightarrow> (k + 1, a', s') | Some q \<Rightarrow> gravity_loop h n q (k + 1) a' s' l')"
  unfolding gravity_loop.simps Let_def if_not_P [of "\<not> 0 < ix_nHeight (h p)", unfolded not_not, OF assms] by (intro exI) (rule refl)

lemma gravity_grows: "k \<le> fst (gravity_loop h n p k a s l) \<and> fst (gravity_loop h n p k a s l) \<le> k + int n"
proof (induction n arbitrary: p k a s l)
  case (Suc n)
  show ?case
  proof (cases "0 < ix_nHeight (h p)")
    case True
    obtain a' s' l' where "gravity_loop h (Suc n) p k a s l =
        (case ix_pprev (h p) of None \<Rightarrow> (k + 1, a', s') | Some q \<Rightarrow> gravity_loop h n q (k + 1) a' s' l')"
      using gravity_round [of h p, OF True] by blast
    moreover have "k \<le> fst (gravity_loop h n q (k + 1) a' s' l') \<and> fst (gravity_loop h n q (k + 1) a' s' l') \<le> k + int (Suc n)" for q
      using Suc.IH [of "k + 1" q a' s' l'] by simp
    ultimately show ?thesis by (cases "ix_pprev (h p)") (simp_all del: gravity_loop.simps)
  qed simp
qed simp

lemma gravity_count:
  assumes "0 < ix_nHeight (h p)"
  shows "0 < fst (gravity_loop h (Suc n) p 0 a s l) \<and> fst (gravity_loop h (Suc n) p 0 a s l) \<le> int (Suc n)"
proof -
  obtain a' s' l' where "gravity_loop h (Suc n) p 0 a s l =
      (case ix_pprev (h p) of None \<Rightarrow> (0 + 1, a', s') | Some q \<Rightarrow> gravity_loop h n q (0 + 1) a' s' l')"
    using gravity_round [of h p, OF assms] by blast
  moreover have "0 < fst (gravity_loop h n q 1 a' s' l') \<and> fst (gravity_loop h n q 1 a' s' l') \<le> int (Suc n)" for q
    using gravity_grows [of 1 h n q a' s' l'] by simp
  ultimately show ?thesis by (cases "ix_pprev (h p)") (simp_all del: gravity_loop.simps)
qed

lemma work_target_limit:
  assumes "0 < fst st" "fst st \<le> 24" "0 < pw_TargetSpacing P" "pw_TargetSpacing P < 2 ^ 32"
  shows "\<exists>t. work_target P st = Some t \<and> t \<le> pw_ProofOfWorkLimit P"
proof -
  obtain k a s where st: "st = (k, a, s)" by (metis prod_cases3)
  let ?T = "k * pw_TargetSpacing P"
  have "0 < ?T" using assms st by simp
  moreover have "?T \<le> 24 * 2 ^ 32" using assms st by (intro mult_mono) auto
  ultimately have "\<not> (2 ^ 256 dvd ?T)" by (intro zdvd_not_zless) auto
  then have "(word_of_int ?T :: 256 word) \<noteq> 0" unfolding word_of_int_eq_0_iff by simp
  then show ?thesis unfolding work_target_def Let_def st prod.case by (simp only: if_False) (simp add: not_less)
qed

lemma next_work_total:
  assumes "index_ok h S" "p \<in> S" "0 < pw_TargetSpacing P" "pw_TargetSpacing P < 2 ^ 32"
  shows "\<exists>c y. GetNextWorkRequired P h (Some p) = Some c \<and> SetCompact c = (y, False, False) \<and>
    y \<le> (if 24 \<le> ix_nHeight (h p) \<and> pw_LAST_POW_BLOCK P < ix_nHeight (h p) then bnTargetLimit else pw_ProofOfWorkLimit P)"
proof (cases "24 \<le> ix_nHeight (h p)")
  case False
  then show ?thesis using compact_below [of "pw_ProofOfWorkLimit P"] by (simp add: GetNextWorkRequired_def)
next
  case high: True
  show ?thesis
  proof (cases "pw_LAST_POW_BLOCK P < ix_nHeight (h p)")
    case True
    moreover obtain q where "ix_pprev (h p) = Some q" using index_ok_genesis [OF assms(1,2)] high by auto
    ultimately show ?thesis using high compact_below [OF stake_target_limit] by (simp add: GetNextWorkRequired_def Let_def)
  next
    case False
    let ?st = "gravity_loop h 24 p 0 0 0 0"
    have "0 < fst ?st \<and> fst ?st \<le> 24" using gravity_count [of h p 23 0 0 0] high by (simp add: eval_nat_numeral)
    then obtain t where "work_target P ?st = Some t" "t \<le> pw_ProofOfWorkLimit P"
      using work_target_limit [of ?st, OF _ _ assms(3,4)] by blast
    then show ?thesis using high False compact_below [of t] by (simp add: GetNextWorkRequired_def)
  qed
qed

section \<open>The step for proof of stake\<close>

lemma stake_target_value:
  assumes "0 \<le> s" "unat bn * nat (1755 + 2 * s) < 2 ^ 256" "1755 + 2 * s < 2 ^ 32"
  shows "unat (stake_target bn s) =
    (let v = unat bn * nat (1755 + 2 * s) div 1845 in if v = 0 \<or> v > unat bnTargetLimit then unat bnTargetLimit else v)"
proof -
  let ?f = "1755 + 2 * s"
  let ?w = "ucast (word_of_int ?f :: u32) :: 256 word"
  have w: "unat ?w = nat ?f"
  proof -
    have "uint (word_of_int ?f :: u32) = ?f" using assms(1,3) by (simp only: uint_word_of_int) simp
    then show ?thesis by (simp add: unat_eq_nat_uint uint_up_ucast is_up)
  qed
  have "unat bn * unat ?w < 2 ^ LENGTH(256)" unfolding w by (rule less_le_trans [OF assms(2)]) simp
  then have "unat (bn * ?w) = unat bn * nat ?f" using unat_mult_lem [of bn ?w] w by simp
  then have d: "unat (bn * ?w div 1845) = unat bn * nat ?f div 1845" by (simp add: unat_div)
  have "stake_target bn s = (if bn * ?w div 1845 = 0 \<or> bn * ?w div 1845 > bnTargetLimit then bnTargetLimit else bn * ?w div 1845)"
    by (simp add: stake_target_def Let_def algebra_simps)
  then show ?thesis unfolding Let_def d [symmetric] by (simp add: unat_eq_0 word_less_nat_alt)
qed

definition block_spacing :: "index_heap \<Rightarrow> ptr \<Rightarrow> ptr \<Rightarrow> int" where
  "block_spacing h p q = (let d = GetBlockTime (h p) - GetBlockTime (h q) in if d < 0 then 1 else d)"

lemma next_work_stake:
  assumes "24 \<le> ix_nHeight (h p)" "pw_LAST_POW_BLOCK P < ix_nHeight (h p)" "ix_pprev (h p) = Some q"
  shows "GetNextWorkRequired P h (Some p) =
    GetCompact (stake_target (fst (SetCompact (ix_nBits (h p)))) (block_spacing h p q)) False"
  using assms by (simp add: GetNextWorkRequired_def block_spacing_def Let_def)

lemma clamp_range: "a < m \<Longrightarrow> 0 \<le> b \<Longrightarrow> 1 < m \<Longrightarrow>
    0 \<le> (let d = a - b in if d < 0 then 1 else d) \<and> (let d = a - b in if d < 0 then 1 else d) < (m :: int)"
  by (simp add: Let_def)

lemma block_spacing_range: "0 \<le> block_spacing h p q \<and> block_spacing h p q < 2 ^ 32"
  unfolding block_spacing_def GetBlockTime_def
  by (rule clamp_range) (use unsigned_less [of "ix_nTime (h p)", where ?'a = int] in simp_all)

text \<open>
  A block found very late: the product with the time passed wraps around, and the target falls
  instead of rising.
\<close>

definition late_target :: "256 word" where "late_target = push_bit 216 0xffff"

lemma late_block_harder: "late_target \<le> bnTargetLimit \<and> 1800 * stake_target late_target 8387859 < late_target"
  by code_simp

end
