(* ===== verification/ChainState.thy ===== *)
theory ChainState
  imports Pow ConnectBlock
begin

unbundle bit_operations_syntax

text \<open>
  The state that chain selection keeps, \<^verbatim>\<open>src/src/main.cpp\<close>: the block index, the active chain, the
  candidates ordered by \<^verbatim>\<open>CBlockIndexWorkComparator\<close>, the blocks that wait for a parent, and what
  stands for the coins, which is a type parameter. The operations that enter blocks in the index
  are here; those that move the tip are in \<open>ActivateChain\<close>. Logging, notifications, the scores of
  peers and the memory pool are left out. An outer \<open>None\<close> is a failed assertion, the use of a null
  pointer or a loop that does not end.
\<close>

section \<open>The candidates\<close>

text \<open>\<^verbatim>\<open>CBlockIndexWorkComparator\<close>; addresses are compared as numbers.\<close>

definition work_less :: "index_heap \<Rightarrow> ptr \<Rightarrow> ptr \<Rightarrow> bool" where
  "work_less h pa pb =
     (if ix_nChainWork (h pa) > ix_nChainWork (h pb) then False
      else if ix_nChainWork (h pa) < ix_nChainWork (h pb) then True
      else if ix_nSequenceId (h pa) < ix_nSequenceId (h pb) then False
      else if ix_nSequenceId (h pa) > ix_nSequenceId (h pb) then True
      else if pa < pb then False
      else if pa > pb then True
      else False)"

text \<open>A \<^verbatim>\<open>std::set\<close> with that order, as the list of its elements from \<^verbatim>\<open>begin\<close> to \<^verbatim>\<open>end\<close>.\<close>

primrec cand_insert :: "index_heap \<Rightarrow> ptr \<Rightarrow> ptr list \<Rightarrow> ptr list" where
  "cand_insert h p [] = [p]"
| "cand_insert h p (q # qs) =
     (if work_less h q p then q # cand_insert h p qs
      else if work_less h p q then p # q # qs else q # qs)"

definition cand_erase :: "index_heap \<Rightarrow> ptr \<Rightarrow> ptr list \<Rightarrow> ptr list" where
  "cand_erase h p cs = filter (\<lambda>q. work_less h q p \<or> work_less h p q) cs"

section \<open>The state\<close>

record 'c chain_state =
  st_index :: index_heap
  st_map :: "(uint256 \<times> ptr) list"
  st_active :: CChain
  st_candidates :: "ptr list"
  st_best_invalid :: "ptr option"
  st_best_header :: "ptr option"
  st_unlinked :: "(ptr \<times> ptr) list"
  st_seq :: u32
  st_dirty :: "ptr set"
  st_coins :: 'c

definition set_entry :: "ptr \<Rightarrow> CBlockIndex \<Rightarrow> 'c chain_state \<Rightarrow> 'c chain_state" where
  "set_entry p b s = s\<lparr>st_index := (st_index s)(p := b)\<rparr>"

definition add_status :: "u32 \<Rightarrow> ptr \<Rightarrow> 'c chain_state \<Rightarrow> 'c chain_state" where
  "add_status f p s = set_entry p ((st_index s p)\<lparr>ix_nStatus := ix_nStatus (st_index s p) OR f\<rparr>) s"

definition clear_failed :: "ptr \<Rightarrow> 'c chain_state \<Rightarrow> 'c chain_state" where
  "clear_failed p s = set_entry p ((st_index s p)\<lparr>ix_nStatus := ix_nStatus (st_index s p) AND NOT BLOCK_FAILED_MASK\<rparr>) s"

definition mark_dirty :: "ptr \<Rightarrow> 'c chain_state \<Rightarrow> 'c chain_state" where
  "mark_dirty p s = s\<lparr>st_dirty := insert p (st_dirty s)\<rparr>"

definition insert_candidate :: "ptr \<Rightarrow> 'c chain_state \<Rightarrow> 'c chain_state" where
  "insert_candidate p s = s\<lparr>st_candidates := cand_insert (st_index s) p (st_candidates s)\<rparr>"

definition erase_candidate :: "ptr \<Rightarrow> 'c chain_state \<Rightarrow> 'c chain_state" where
  "erase_candidate p s = s\<lparr>st_candidates := cand_erase (st_index s) p (st_candidates s)\<rparr>"

definition failed :: "CBlockIndex \<Rightarrow> bool" where
  "failed b \<longleftrightarrow> ix_nStatus b AND BLOCK_FAILED_MASK \<noteq> 0"

definition have_data :: "CBlockIndex \<Rightarrow> bool" where
  "have_data b \<longleftrightarrow> ix_nStatus b AND BLOCK_HAVE_DATA \<noteq> 0"

section \<open>New headers\<close>

text \<open>The constructor of an entry from a block.\<close>

definition CBlockIndex_of :: "CBlock \<Rightarrow> CBlockIndex" where
  "CBlockIndex_of block =
     (let b = CBlockIndex_Null\<lparr>ix_nVersion := hd_nVersion block, ix_hashMerkleRoot := hashMerkleRoot block,
            ix_nTime := nTime block, ix_nBits := nBits block, ix_nNonce := nNonce block,
            ix_nAccumulatorCheckpoint := (if hd_nVersion block > 3 then nAccumulatorCheckpoint block else 0)\<rparr>
      in if IsProofOfStake block
         then (SetProofOfStake b)\<lparr>ix_prevoutStake := prevout (hd (vin (vtx block ! 1))), ix_nStakeTime := nTime block\<rparr>
         else b\<lparr>ix_prevoutStake := COutPoint_Null, ix_nStakeTime := 0\<rparr>)"

text \<open>
  The proof-of-stake computations of \<^verbatim>\<open>kernel.cpp\<close> that \<^verbatim>\<open>AddToBlockIndex\<close> calls: the proof hash found
  for a block, the stake modifier on top of an entry with whether it is new, and its checksum.
\<close>

record stake_env =
  se_proof :: "uint256 \<Rightarrow> uint256"
  se_modifier :: "index_heap \<Rightarrow> ptr \<Rightarrow> u64 \<times> bool"
  se_checksum :: "index_heap \<Rightarrow> ptr \<Rightarrow> u32"

text \<open>What the entry \<open>p\<close> takes over from its parent \<open>q\<close>.\<close>

definition link_parent :: "stake_env \<Rightarrow> uint256 \<Rightarrow> ptr \<Rightarrow> ptr \<Rightarrow> index_heap \<Rightarrow> index_heap option" where
  "link_parent env hash1 q p h0 =
     (let h1 = h0(p := (h0 p)\<lparr>ix_pprev := Some q, ix_nHeight := ix_nHeight (h0 q) + 1\<rparr>)
      in case BuildSkip h1 p of
           None \<Rightarrow> None
         | Some h2 \<Rightarrow>
             (case GetBlockTrust (h2 p) of
                None \<Rightarrow> None
              | Some trust \<Rightarrow>
                  let b3 = (h2 p)\<lparr>ix_bnChainTrust := ix_bnChainTrust (h2 q) + trust\<rparr>;
                      b4 = snd (SetStakeEntropyBit (GetStakeEntropyBit b3) b3);
                      b5 = (if index_IsProofOfStake b4 then b4\<lparr>ix_hashProofOfStake := se_proof env hash1\<rparr> else b4);
                      (nStakeModifier, fGenerated) = se_modifier env (h2(p := b5)) q;
                      b6 = SetStakeModifier nStakeModifier fGenerated b5;
                      b7 = b6\<lparr>ix_nStakeModifierChecksum := se_checksum env (h2(p := b6)) p\<rparr>
                  in Some (h2(p := b7))))"

text \<open>\<^verbatim>\<open>AddToBlockIndex\<close>; \<open>p\<close> is the address of the entry that \<^verbatim>\<open>new\<close> returns.\<close>

definition AddToBlockIndex :: "stake_env \<Rightarrow> CBlock \<Rightarrow> uint256 \<Rightarrow> ptr \<Rightarrow> 'c chain_state \<Rightarrow> (ptr \<times> 'c chain_state) option" where
  "AddToBlockIndex env block hash1 p s =
     (case map_of (st_map s) hash1 of
        Some q \<Rightarrow> Some (q, s)
      | None \<Rightarrow>
          let h0 = (st_index s)(p := (CBlockIndex_of block)\<lparr>ix_nSequenceId := 0, ix_hash := hash1\<rparr>)
          in case (case map_of (st_map s) (hashPrevBlock block) of
                     None \<Rightarrow> Some h0 | Some q \<Rightarrow> link_parent env hash1 q p h0) of
               None \<Rightarrow> None
             | Some h1 \<Rightarrow>
                 (case GetBlockProof (ix_nBits (h1 p)) of
                    None \<Rightarrow> None
                  | Some proof1 \<Rightarrow>
                      let b1 = (h1 p)\<lparr>ix_nChainWork :=
                                 (case ix_pprev (h1 p) of None \<Rightarrow> 0 | Some q \<Rightarrow> ix_nChainWork (h1 q)) + proof1\<rparr>;
                          b2 = snd (RaiseValidity BLOCK_VALID_TREE b1);
                          h2 = h1(p := b2);
                          best = (case st_best_header s of
                                    None \<Rightarrow> Some p
                                  | Some q \<Rightarrow> if ix_nChainWork (h2 q) < ix_nChainWork b2 then Some p else Some q)
                      in Some (p, mark_dirty p (s\<lparr>st_index := h2, st_map := st_map s @ [(hash1, p)], st_best_header := best\<rparr>))))"

section \<open>New transactions\<close>

text \<open>
  The loop of \<^verbatim>\<open>ReceivedBlockTransactions\<close> over the blocks whose chain is now complete. The entries of
  the multimap with a given key leave it in their order.
\<close>

definition link_block :: "ptr \<Rightarrow> 'c chain_state \<Rightarrow> 'c chain_state" where
  "link_block p s =
     (let b = st_index s p;
          prev = (case ix_pprev b of None \<Rightarrow> 0 | Some q \<Rightarrow> ix_nChainTx (st_index s q));
          s1 = set_entry p (b\<lparr>ix_nChainTx := prev + ix_nTx b, ix_nSequenceId := st_seq s\<rparr>) s;
          s2 = s1\<lparr>st_seq := st_seq s + 1\<rparr>
      in case Tip (st_active s2) of
           None \<Rightarrow> insert_candidate p s2
         | Some t \<Rightarrow> if \<not> work_less (st_index s2) p t then insert_candidate p s2 else s2)"

partial_function (option) link_loop :: "ptr list \<Rightarrow> 'c chain_state \<Rightarrow> 'c chain_state option" where
  "link_loop queue s =
     (case queue of
        [] \<Rightarrow> Some s
      | p # rest \<Rightarrow>
          let s1 = link_block p s;
              found = map snd (filter (\<lambda>x. fst x = p) (st_unlinked s1));
              s2 = s1\<lparr>st_unlinked := filter (\<lambda>x. fst x \<noteq> p) (st_unlinked s1)\<rparr>
          in link_loop (rest @ found) s2)"

declare link_loop.simps [code]

definition ReceivedBlockTransactions :: "CBlock \<Rightarrow> int \<Rightarrow> u32 \<Rightarrow> ptr \<Rightarrow> 'c chain_state \<Rightarrow> 'c chain_state option" where
  "ReceivedBlockTransactions block nFile nPos p s =
     (let b0 = st_index s p;
          b1 = (if IsProofOfStake block then SetProofOfStake b0 else b0);
          b2 = b1\<lparr>ix_nTx := word_of_nat (length (vtx block)), ix_nChainTx := 0, ix_nFile := nFile,
                  ix_nDataPos := nPos, ix_nUndoPos := 0, ix_nStatus := ix_nStatus b1 OR BLOCK_HAVE_DATA\<rparr>;
          b3 = snd (RaiseValidity BLOCK_VALID_TRANSACTIONS b2);
          s1 = mark_dirty p (set_entry p b3 s)
      in case ix_pprev b3 of
           None \<Rightarrow> link_loop [p] s1
         | Some q \<Rightarrow>
             if ix_nChainTx (st_index s1 q) \<noteq> 0 then link_loop [p] s1
             else if index_IsValid BLOCK_VALID_TREE (st_index s1 q)
             then Some (s1\<lparr>st_unlinked := st_unlinked s1 @ [(q, p)]\<rparr>)
             else Some s1)"

end
