(* ===== verification/Mempool.thy ===== *)
theory Mempool
  imports CoinsView Doubles TransactionLemmas
begin

text \<open>
  The memory pool, \<^verbatim>\<open>src/src/txmempool.h\<close> and \<^verbatim>\<open>txmempool.cpp\<close>: the transactions that wait for a block,
  the outputs they spend, and the removal of a transaction with what depends on it. A \<^verbatim>\<open>std::map\<close> is an
  association list in the order of the keys. An in-point holds a pointer to the transaction of an
  entry: it is modelled as the key of that entry, and using it after the entry is gone is the outer
  \<open>None\<close>. The fee estimator and the debugging check are left out.
\<close>

section \<open>Maps\<close>

primrec map_put :: "('k \<Rightarrow> 'k \<Rightarrow> bool) \<Rightarrow> 'k \<Rightarrow> 'v \<Rightarrow> ('k \<times> 'v) list \<Rightarrow> ('k \<times> 'v) list" where
  "map_put lt k v [] = [(k, v)]"
| "map_put lt k v (x # m) =
     (if lt k (fst x) then (k, v) # x # m else if lt (fst x) k then x # map_put lt k v m else (k, v) # m)"

definition map_erase :: "'k \<Rightarrow> ('k \<times> 'v) list \<Rightarrow> ('k \<times> 'v) list" where
  "map_erase k m = filter (\<lambda>x. fst x \<noteq> k) m"

definition outpoint_less :: "COutPoint \<Rightarrow> COutPoint \<Rightarrow> bool" where
  "outpoint_less a b \<longleftrightarrow> op_hash a < op_hash b \<or> (op_hash a = op_hash b \<and> op_n a < op_n b)"

section \<open>Entries\<close>

definition MEMPOOL_HEIGHT :: int where "MEMPOOL_HEIGHT = 0x7FFFFFFF"

record CTxMemPoolEntry =
  me_tx :: CTransaction
  me_fee :: CAmount
  me_size :: nat
  me_modsize :: nat
  me_time :: int
  me_priority :: rat
  me_height :: u32

definition CTxMemPoolEntry_of :: "CTransaction \<Rightarrow> CAmount \<Rightarrow> int \<Rightarrow> rat \<Rightarrow> u32 \<Rightarrow> CTxMemPoolEntry" where
  "CTxMemPoolEntry_of tx nFee nTime0 dPriority nHeight =
     \<lparr>me_tx = tx, me_fee = nFee, me_size = size_tx tx, me_modsize = CalculateModifiedSize tx (size_tx tx), me_time = nTime0,
      me_priority = dPriority, me_height = nHeight\<rparr>"

text \<open>\<open>None\<close>: a division by zero, or a sum of outputs that is out of range.\<close>

definition entry_GetPriority :: "u32 \<Rightarrow> CTxMemPoolEntry \<Rightarrow> rat option" where
  "entry_GetPriority currentHeight e =
     (case GetValueOut (me_tx e) of
        None \<Rightarrow> None
      | Some v \<Rightarrow>
          if me_modsize e = 0 then None
          else Some (dround (me_priority e +
            dround (dround (of_int (uint (currentHeight - me_height e)) * dround (of_int (wrap64 (v + me_fee e)))) /
              of_nat (me_modsize e)))))"

section \<open>The pool\<close>

record CTxMemPool =
  mp_updated :: u32
  mp_total :: u64
  mp_tx :: "(uint256 \<times> CTxMemPoolEntry) list"
  mp_next :: "(COutPoint \<times> (uint256 \<times> nat)) list"
  mp_deltas :: "(uint256 \<times> (rat \<times> CAmount)) list"

definition pool_exists :: "CTxMemPool \<Rightarrow> uint256 \<Rightarrow> bool" where
  "pool_exists pool hash1 \<longleftrightarrow> map_of (mp_tx pool) hash1 \<noteq> None"

definition pool_lookup :: "CTxMemPool \<Rightarrow> uint256 \<Rightarrow> CTransaction option" where
  "pool_lookup pool hash1 = map_option me_tx (map_of (mp_tx pool) hash1)"

definition queryHashes :: "CTxMemPool \<Rightarrow> uint256 list" where
  "queryHashes pool = map fst (mp_tx pool)"

definition pool_clear :: "CTxMemPool \<Rightarrow> CTxMemPool" where
  "pool_clear pool = pool\<lparr>mp_tx := [], mp_next := [], mp_total := 0, mp_updated := mp_updated pool + 1\<rparr>"

definition AddTransactionsUpdated :: "u32 \<Rightarrow> CTxMemPool \<Rightarrow> CTxMemPool" where
  "AddTransactionsUpdated n pool = pool\<lparr>mp_updated := mp_updated pool + n\<rparr>"

definition addUnchecked :: "uint256 \<Rightarrow> CTxMemPoolEntry \<Rightarrow> CTxMemPool \<Rightarrow> CTxMemPool" where
  "addUnchecked hash1 entry pool =
     (let tx = me_tx entry;
          ins = (if tx_IsZerocoinSpend tx then [] else zip [0..<length (vin tx)] (vin tx))
      in pool\<lparr>mp_tx := map_put (<) hash1 entry (mp_tx pool),
           mp_next := foldl (\<lambda>m (i, txin). map_put outpoint_less (prevout txin) (hash1, i) m) (mp_next pool) ins,
           mp_updated := mp_updated pool + 1, mp_total := mp_total pool + word_of_nat (me_size entry)\<rparr>)"

text \<open>The ids of the transactions that spend the outputs of a transaction.\<close>

primrec spenders :: "CTxMemPool \<Rightarrow> uint256 \<Rightarrow> nat list \<Rightarrow> uint256 list option" where
  "spenders pool hash1 [] = Some []"
| "spenders pool hash1 (i # is) =
     (case map_of (mp_next pool) \<lparr>op_hash = hash1, op_n = word_of_nat i\<rparr> of
        None \<Rightarrow> spenders pool hash1 is
      | Some (h, n) \<Rightarrow>
          (case map_of (mp_tx pool) h of
             None \<Rightarrow> None
           | Some e \<Rightarrow> map_option (\<lambda>hs. GetHash (me_tx e) # hs) (spenders pool hash1 is)))"

definition erase_entry :: "uint256 \<Rightarrow> CTxMemPoolEntry \<Rightarrow> CTxMemPool \<Rightarrow> CTxMemPool" where
  "erase_entry hash1 e pool =
     pool\<lparr>mp_next := foldl (\<lambda>m txin. map_erase (prevout txin) m) (mp_next pool) (vin (me_tx e)),
       mp_total := mp_total pool - word_of_nat (me_size e),
       mp_tx := map_erase hash1 (mp_tx pool), mp_updated := mp_updated pool + 1\<rparr>"

lemma map_erase_length: "map_of m k = Some v \<Longrightarrow> length (map_erase k m) < length m"
  by (induction m) (auto simp: map_erase_def le_imp_less_Suc split: if_splits)

text \<open>The loop of \<^verbatim>\<open>remove\<close> on the queue \<^verbatim>\<open>txToRemove\<close>, which yields the transactions removed.\<close>

function remove_loop :: "bool \<Rightarrow> uint256 list \<Rightarrow> CTransaction list \<Rightarrow> CTxMemPool \<Rightarrow> (CTransaction list \<times> CTxMemPool) option" where
  "remove_loop fRecursive [] removed pool = Some (removed, pool)"
| "remove_loop fRecursive (hash1 # queue) removed pool =
     (case map_of (mp_tx pool) hash1 of
        None \<Rightarrow> remove_loop fRecursive queue removed pool
      | Some e \<Rightarrow>
          (case (if fRecursive then spenders pool hash1 [0..<length (vout (me_tx e))] else Some []) of
             None \<Rightarrow> None
           | Some hs \<Rightarrow> remove_loop fRecursive (queue @ hs) (removed @ [me_tx e]) (erase_entry hash1 e pool)))"
  by pat_completeness auto
termination
  by (relation "measures [\<lambda>(r, q, removed, pool). length (mp_tx pool), \<lambda>(r, q, removed, pool). length q]")
    (auto simp: erase_entry_def map_erase_length)

declare remove_loop.simps [simp del]

definition pool_remove :: "CTransaction \<Rightarrow> bool \<Rightarrow> CTransaction list \<Rightarrow> CTxMemPool \<Rightarrow> (CTransaction list \<times> CTxMemPool) option" where
  "pool_remove origTx fRecursive removed pool =
     (case (if fRecursive \<and> \<not> pool_exists pool (GetHash origTx)
            then spenders pool (GetHash origTx) [0..<length (vout origTx)] else Some []) of
        None \<Rightarrow> None
      | Some hs \<Rightarrow> remove_loop fRecursive (GetHash origTx # hs) removed pool)"

primrec remove_all :: "CTransaction list \<Rightarrow> CTxMemPool \<Rightarrow> CTxMemPool option" where
  "remove_all [] pool = Some pool"
| "remove_all (tx # txs) pool =
     (case pool_remove tx True [] pool of None \<Rightarrow> None | Some (removed, pool') \<Rightarrow> remove_all txs pool')"

text \<open>Whether a transaction of the pool spends, of the chain, what is not there or not mature.\<close>

definition immature_input :: "(uint256 \<Rightarrow> CCoins option) \<Rightarrow> u32 \<Rightarrow> nat \<Rightarrow> CTxMemPool \<Rightarrow> CTxIn \<Rightarrow> bool" where
  "immature_input coins nMemPoolHeight maturity pool txin \<longleftrightarrow>
     map_of (mp_tx pool) (op_hash (prevout txin)) = None \<and>
     (case coins (op_hash (prevout txin)) of
        None \<Rightarrow> True
      | Some c \<Rightarrow> (fCoinBase c \<or> fCoinStake c) \<and> nMemPoolHeight - word_of_int (c_nHeight c) < word_of_nat maturity)"

definition removeCoinbaseSpends :: "(uint256 \<Rightarrow> CCoins option) \<Rightarrow> u32 \<Rightarrow> nat \<Rightarrow> CTxMemPool \<Rightarrow> CTxMemPool option" where
  "removeCoinbaseSpends coins nMemPoolHeight maturity pool =
     remove_all (map (\<lambda>x. me_tx (snd x))
       (filter (\<lambda>x. list_ex (immature_input coins nMemPoolHeight maturity pool) (vin (me_tx (snd x)))) (mp_tx pool))) pool"

primrec removeConflicts :: "CTransaction \<Rightarrow> CTxIn list \<Rightarrow> CTransaction list \<Rightarrow> CTxMemPool \<Rightarrow> (CTransaction list \<times> CTxMemPool) option" where
  "removeConflicts tx [] removed pool = Some (removed, pool)"
| "removeConflicts tx (txin # txins) removed pool =
     (case map_of (mp_next pool) (prevout txin) of
        None \<Rightarrow> removeConflicts tx txins removed pool
      | Some (h, n) \<Rightarrow>
          (case map_of (mp_tx pool) h of
             None \<Rightarrow> None
           | Some e \<Rightarrow>
               if GetHash (me_tx e) \<noteq> GetHash tx
               then (case pool_remove (me_tx e) True removed pool of
                       None \<Rightarrow> None
                     | Some (removed', pool') \<Rightarrow> removeConflicts tx txins removed' pool')
               else removeConflicts tx txins removed pool))"

definition PrioritiseTransaction :: "uint256 \<Rightarrow> rat \<Rightarrow> CAmount \<Rightarrow> CTxMemPool \<Rightarrow> CTxMemPool" where
  "PrioritiseTransaction hash1 dPriorityDelta nFeeDelta pool =
     (let (p, f) = (case map_of (mp_deltas pool) hash1 of None \<Rightarrow> (0, 0) | Some d \<Rightarrow> d)
      in pool\<lparr>mp_deltas := map_put (<) hash1 (dround (p + dPriorityDelta), wrap64 (f + nFeeDelta)) (mp_deltas pool)\<rparr>)"

definition ApplyDeltas :: "CTxMemPool \<Rightarrow> uint256 \<Rightarrow> rat \<times> CAmount \<Rightarrow> rat \<times> CAmount" where
  "ApplyDeltas pool hash1 d =
     (case map_of (mp_deltas pool) hash1 of
        None \<Rightarrow> d
      | Some (p, f) \<Rightarrow> (dround (fst d + p), wrap64 (snd d + f)))"

definition ClearPrioritisation :: "uint256 \<Rightarrow> CTxMemPool \<Rightarrow> CTxMemPool" where
  "ClearPrioritisation hash1 pool = pool\<lparr>mp_deltas := map_erase hash1 (mp_deltas pool)\<rparr>"

primrec removeForBlock :: "CTransaction list \<Rightarrow> CTransaction list \<Rightarrow> CTxMemPool \<Rightarrow> (CTransaction list \<times> CTxMemPool) option" where
  "removeForBlock [] conflicts pool = Some (conflicts, pool)"
| "removeForBlock (tx # txs) conflicts pool =
     (case pool_remove tx False [] pool of
        None \<Rightarrow> None
      | Some (dummy, pool1) \<Rightarrow>
          (case removeConflicts tx (vin tx) conflicts pool1 of
             None \<Rightarrow> None
           | Some (conflicts', pool2) \<Rightarrow> removeForBlock txs conflicts' (ClearPrioritisation (GetHash tx) pool2)))"

text \<open>\<^verbatim>\<open>pruneSpent\<close>: the outputs the pool spends are spent in the coins.\<close>

definition pruneSpent :: "CTxMemPool \<Rightarrow> uint256 \<Rightarrow> CCoins \<Rightarrow> CCoins" where
  "pruneSpent pool hashTx coins =
     foldl (\<lambda>c x. case Spend c (unat (op_n (fst x))) of None \<Rightarrow> c | Some (c', undo) \<Rightarrow> c') coins
       (filter (\<lambda>x. op_hash (fst x) = hashTx) (mp_next pool))"

section \<open>The pool over a view\<close>

text \<open>\<^verbatim>\<open>CCoinsViewMemPool\<close>.\<close>

definition mempool_ops :: "CTxMemPool \<Rightarrow> 'v view_ops \<Rightarrow> 'v view_ops" where
  "mempool_ops pool ops =
     ops\<lparr>vo_GetCoins := (\<lambda>txid v. case pool_lookup pool txid of
            Some tx \<Rightarrow> (Some (FromTx tx MEMPOOL_HEIGHT), v)
          | None \<Rightarrow> (case vo_GetCoins ops txid v of
                (None, v') \<Rightarrow> (None, v')
              | (Some c, v') \<Rightarrow> (if IsPruned c then None else Some c, v'))),
        vo_HaveCoins := (\<lambda>txid v. if pool_exists pool txid then (True, v) else vo_HaveCoins ops txid v)\<rparr>"

end
