(* ===== verification/AcceptTx.thy ===== *)
theory AcceptTx
  imports Policy ConnectBlock ChainState Mempool
begin

text \<open>
  \<^verbatim>\<open>AcceptToMemoryPool\<close> of \<^verbatim>\<open>src/src/main.cpp\<close>. The state is the memory pool (the parameter \<^verbatim>\<open>pool\<close> and the
  global \<^verbatim>\<open>mempool\<close> are one in every call), the coins of \<^verbatim>\<open>pcoinsTip\<close>, whose cache grows as it is read,
  the two variables of the rate limiter, and the times of the zerocoin spends. A transaction that
  is refused may still have changed the priorities and the rate limiter.
\<close>

section \<open>What it takes from elsewhere\<close>

text \<open>
  The zerocoin spork, the locks of SwiftTX, the transactions of the chain and of the obfuscation
  pools, the zerocoin verifications, the invalid outpoints, the options of the node, the clock, and
  \<open>at_pow n\<close> for \<^verbatim>\<open>pow(1.0 - 1.0 / 600.0, n)\<close>, whose rounding the C++ library leaves open.
\<close>

record accept_tx_env =
  at_maintenance :: bool
  at_Zerocoin_StartHeight :: int
  at_check :: check_env
  at_RequireStandard :: bool
  at_policy :: policy_env
  at_locked :: "COutPoint \<Rightarrow> uint256 option"
  at_in_chain :: "uint256 \<Rightarrow> bool"
  at_spend :: "CTransaction \<Rightarrow> CTxIn \<Rightarrow> bool"
  at_mint :: "CTransaction \<Rightarrow> CTxOut \<Rightarrow> conn_error option"
  at_ValidOutPoint :: "COutPoint \<Rightarrow> int \<Rightarrow> bool"
  at_inputs :: inputs_env
  at_broadcast :: "uint256 \<Rightarrow> bool"
  at_minRelayTxFee :: CAmount
  at_MintFee :: CAmount
  at_relaypriority :: bool
  at_limitfreerelay :: int
  at_to_check :: nat
  at_enforce :: nat
  at_now :: int
  at_AdjustedTime :: int
  at_pow :: "rat \<Rightarrow> rat"

text \<open>The result false: with a verdict in the state, without one, or with \<^verbatim>\<open>*pfMissingInputs\<close> set.\<close>

datatype accept_error = Verdict conn_error | Refused | MissingInputs

record 'v accept_tx_state =
  as_pool :: CTxMemPool
  as_tip :: 'v
  as_free :: rat
  as_last :: int
  as_spends :: "uint256 \<Rightarrow> int option"

definition verdict :: "conn_error + 'a \<Rightarrow> accept_error + 'a" where
  "verdict r = (case r of Inl e \<Rightarrow> Inl (Verdict e) | Inr x \<Rightarrow> Inr x)"

section \<open>Fees and priorities\<close>

definition DEFAULT_BLOCK_PRIORITY_SIZE :: nat where "DEFAULT_BLOCK_PRIORITY_SIZE = 50000"

definition MAX_TX_SIGOPS_CURRENT :: nat where "MAX_TX_SIGOPS_CURRENT = MAX_BLOCK_SIGOPS_CURRENT div 5"

definition FN_MAGIC_AMOUNT :: CAmount where
  "FN_MAGIC_AMOUNT = dtrunc (dround (dround (1234 / 10000) * of_int COIN))"

definition AllowFreeThreshold :: rat where
  "AllowFreeThreshold = dround (of_int (COIN * 1440 div 250))"

definition AllowFree :: "rat \<Rightarrow> bool" where
  "AllowFree dPriority \<longleftrightarrow> dPriority > AllowFreeThreshold"

definition GetMinRelayFee :: "accept_tx_env \<Rightarrow> CTxMemPool \<Rightarrow> CTransaction \<Rightarrow> nat \<Rightarrow> bool \<Rightarrow> CAmount" where
  "GetMinRelayFee env pool tx nBytes fAllowFree =
     (let (dPriorityDelta, nFeeDelta) = ApplyDeltas pool (GetHash tx) (0, 0)
      in if dPriorityDelta > 0 \<or> nFeeDelta > 0 then 0
         else let nMinFee = (if fAllowFree \<and> nBytes < DEFAULT_BLOCK_PRIORITY_SIZE - 1000 then 0
                             else GetFee (at_minRelayTxFee env) nBytes)
              in if \<not> money_range (at_inputs env) nMinFee then ie_MaxMoneyOut (at_inputs env) else nMinFee)"

definition ComputePriority :: "CTransaction \<Rightarrow> rat \<Rightarrow> nat \<Rightarrow> rat" where
  "ComputePriority tx dPriorityInputs nTxSize =
     (let n = CalculateModifiedSize tx nTxSize in if n = 0 then 0 else dround (dPriorityInputs / of_nat n))"

text \<open>\<^verbatim>\<open>CCoinsViewCache::GetPriority\<close>; \<open>None\<close> is the failed assertion that the coins are there.\<close>

fun priority_loop :: "'v view_ops \<Rightarrow> int \<Rightarrow> CTxIn list \<Rightarrow> rat \<Rightarrow> 'v cache \<Rightarrow> (rat \<times> 'v cache) option" where
  "priority_loop ops nHeight [] dResult s = Some (dResult, s)"
| "priority_loop ops nHeight (txin # txins) dResult s =
     (case AccessCoins ops (op_hash (prevout txin)) s of
        (None, s') \<Rightarrow> None
      | (Some c, s') \<Rightarrow>
          priority_loop ops nHeight txins
            (if \<not> IsAvailable c (unat (op_n (prevout txin))) then dResult
             else if c_nHeight c < nHeight
             then dround (dResult + dround (of_int (wrap64 (nValue (c_vout c ! unat (op_n (prevout txin))) * (nHeight - c_nHeight c)))))
             else dResult) s')"

definition view_GetPriority :: "'v view_ops \<Rightarrow> CTransaction \<Rightarrow> int \<Rightarrow> 'v cache \<Rightarrow> (rat \<times> 'v cache) option" where
  "view_GetPriority ops tx nHeight s =
     (if IsCoinBase tx \<or> IsCoinStake tx then Some (0, s)
      else map_option (\<lambda>(d, s'). (ComputePriority tx d 0, s')) (priority_loop ops nHeight (vin tx) 0 s))"

section \<open>Before the coins are read\<close>

definition accept_early :: "accept_tx_env \<Rightarrow> 'c chain_state \<Rightarrow> CTxMemPool \<Rightarrow> CTransaction \<Rightarrow> accept_error + unit" where
  "accept_early env s pool tx =
     (if at_maintenance env \<and> ContainsZerocoins tx then Inl (Verdict (DoS 10 ''bad-tx''))
      else case CheckTransaction (at_check env) tx (chain_Height (st_active s) \<ge> at_Zerocoin_StartHeight env) of
        Inl r \<Rightarrow> Inl (Verdict (DoS (fst r + 100) ''bad-tx''))
      | Inr u \<Rightarrow>
          if IsCoinBase tx then Inl (Verdict (DoS 100 ''coinbase''))
          else if IsCoinStake tx then Inl (Verdict (DoS 100 ''coinstake''))
          else case (if at_RequireStandard env then IsStandardTx (at_policy env) tx else Inr ()) of
            Inl reason \<Rightarrow> Inl (Verdict (DoS 0 reason))
          | Inr u \<Rightarrow>
              if pool_exists pool (GetHash tx) then Inl Refused
              else if list_ex (\<lambda>txin. case at_locked env (prevout txin) of None \<Rightarrow> False | Some h \<Rightarrow> h \<noteq> GetHash tx) (vin tx)
              then Inl (Verdict (DoS 0 ''tx-lock-conflict''))
              else if \<not> tx_IsZerocoinSpend tx \<and> list_ex (\<lambda>txin. map_of (mp_next pool) (prevout txin) \<noteq> None) (vin tx)
              then Inl Refused
              else Inr ())"

section \<open>The coins\<close>

text \<open>A view without coins, \<^verbatim>\<open>CCoinsView\<close>: what the cache does not hold is not there.\<close>

definition dummy_ops :: "'v view_ops" where
  "dummy_ops = \<lparr>vo_GetCoins = (\<lambda>txid v. (None, v)), vo_HaveCoins = (\<lambda>txid v. (False, v)),
     vo_GetBestBlock = (\<lambda>v. (0, v)), vo_BatchWrite = (\<lambda>m h v. Some (False, v))\<rparr>"

definition accept_spend :: "accept_tx_env \<Rightarrow> CTransaction \<Rightarrow> accept_error + CAmount" where
  "accept_spend env tx =
     (if at_in_chain env (GetHash tx) then Inl (Verdict (Invalid ''bad-txns-inputs-spent''))
      else if list_ex (\<lambda>txin. IsZerocoinSpend (scriptSig txin) \<and> \<not> at_spend env tx txin) (vin tx)
      then Inl (Verdict (Invalid ''bad-txns-invalid-zDivitae''))
      else Inr (GetZerocoinSpent tx))"

fun inputs_exist :: "'v view_ops \<Rightarrow> accept_tx_env \<Rightarrow> int \<Rightarrow> CTxIn list \<Rightarrow> 'v cache \<Rightarrow> (accept_error + unit) \<times> 'v cache" where
  "inputs_exist ops env nHeight [] v = (Inr (), v)"
| "inputs_exist ops env nHeight (txin # txins) v =
     (case cache_HaveCoins ops (op_hash (prevout txin)) v of
        (have1, v') \<Rightarrow>
          if \<not> have1 then (Inl MissingInputs, v')
          else if \<not> at_ValidOutPoint env (prevout txin) nHeight
          then (Inl (Verdict (Invalid ''bad-txns-invalid-inputs'')), v')
          else inputs_exist ops env nHeight txins v')"

fun mints_known :: "accept_tx_env \<Rightarrow> CTransaction \<Rightarrow> CTxOut list \<Rightarrow> accept_error + unit" where
  "mints_known env tx [] = Inr ()"
| "mints_known env tx (out # outs) =
     (if \<not> CTxOut_IsZerocoinMint out then mints_known env tx outs
      else case at_mint env tx out of Some e \<Rightarrow> Inl (Verdict e) | None \<Rightarrow> mints_known env tx outs)"

text \<open>The value of the inputs; the view keeps what it read when its backend is taken away.\<close>

definition accept_coins :: "'v view_ops \<Rightarrow> accept_tx_env \<Rightarrow> int \<Rightarrow> CTransaction \<Rightarrow> 'v cache \<Rightarrow> (accept_error + CAmount) \<times> 'v cache" where
  "accept_coins ops env nHeight tx v =
     (case cache_HaveCoins ops (GetHash tx) v of
        (have1, v1) \<Rightarrow>
          if have1 then (Inl Refused, v1)
          else (case inputs_exist ops env nHeight (vin tx) v1 of
                  (Inl e, v2) \<Rightarrow> (Inl e, v2)
                | (Inr u, v2) \<Rightarrow>
                    (case (if tx_IsZerocoinMint tx then mints_known env tx (vout tx) else Inr ()) of
                       Inl e \<Rightarrow> (Inl e, v2)
                     | Inr u \<Rightarrow>
                         (case HaveInputs ops tx v2 of
                            (all1, v3) \<Rightarrow>
                              if \<not> all1 then (Inl (Verdict (Invalid ''bad-txns-inputs-spent'')), v3)
                              else (case cache_GetBestBlock ops v3 of
                                      (h, v4) \<Rightarrow>
                                        (case GetValueIn ops tx v4 of
                                           None \<Rightarrow> (Inl (Verdict Asserted), v4)
                                         | Some (nValueIn, v5) \<Rightarrow> (Inr nValueIn, v5)))))))"

definition accept_view :: "'v view_ops \<Rightarrow> accept_tx_env \<Rightarrow> int \<Rightarrow> CTxMemPool \<Rightarrow> CTransaction \<Rightarrow> 'v \<Rightarrow> (accept_error + CAmount) \<times> 'v cache" where
  "accept_view ops env nHeight pool tx tip =
     (if tx_IsZerocoinSpend tx then (accept_spend env tx, CCoinsViewCache tip)
      else accept_coins (mempool_ops pool ops) env nHeight tx (CCoinsViewCache tip))"

section \<open>After the coins are read\<close>

text \<open>Nonstandard inputs and signature operations.\<close>

definition accept_sigops :: "accept_tx_env \<Rightarrow> CTransaction \<Rightarrow> 'v cache \<Rightarrow> accept_error + 'v cache" where
  "accept_sigops env tx v =
     (case (if at_RequireStandard env then AreInputsStandard dummy_ops tx v else Some (True, v)) of
        None \<Rightarrow> Inl (Verdict Asserted)
      | Some (standard, v1) \<Rightarrow>
          if \<not> standard then Inl Refused
          else if tx_IsZerocoinSpend tx then Inr v1
          else case P2SHSigOpCount dummy_ops tx v1 of
            None \<Rightarrow> Inl (Verdict Asserted)
          | Some (n, v2) \<Rightarrow>
              if GetLegacySigOpCount tx + n > MAX_TX_SIGOPS_CURRENT then Inl (Verdict (DoS 0 ''bad-txns-too-many-sigops''))
              else Inr v2)"

definition pool_fees :: "CAmount \<Rightarrow> CAmount \<Rightarrow> CAmount" where
  "pool_fees nValueIn nValueOut =
     (let nFees = wrap64 (nValueIn - nValueOut)
      in if dround (of_int nFees) > of_int (PROSPERITYNODE_AMOUNT - FN_MAGIC_AMOUNT - COIN div 10)
         then nFees - PROSPERITYNODE_AMOUNT + FN_MAGIC_AMOUNT else nFees)"

text \<open>The rate limiter: the count of free bytes decays and is compared with the limit.\<close>

definition rate_limit :: "accept_tx_env \<Rightarrow> nat \<Rightarrow> 'v accept_tx_state \<Rightarrow> (accept_error + unit) \<times> 'v accept_tx_state" where
  "rate_limit env nSize st =
     (let dFreeCount = dround (as_free st * at_pow env (of_int (at_now env - as_last st)));
          st' = st\<lparr>as_free := dFreeCount, as_last := at_now env\<rparr>
      in if dFreeCount \<ge> of_int (at_limitfreerelay env * 10 * 1000)
         then (Inl (Verdict (DoS 0 ''rate limited free transaction'')), st')
         else (Inr (), st'\<lparr>as_free := dround (dFreeCount + of_nat nSize)\<rparr>))"

definition accept_fees :: "accept_tx_env \<Rightarrow> int \<Rightarrow> bool \<Rightarrow> bool \<Rightarrow> CTransaction \<Rightarrow> CAmount \<Rightarrow> nat \<Rightarrow> 'w cache \<Rightarrow> 'v accept_tx_state \<Rightarrow>
    (accept_error + 'w cache) \<times> 'v accept_tx_state" where
  "accept_fees env nHeight fLimitFree ignoreFees tx nFees nSize v st =
     (if at_broadcast env (GetHash tx)
      then (Inr v, st\<lparr>as_pool := PrioritiseTransaction (GetHash tx) 1000 (COIN div 10) (as_pool st)\<rparr>)
      else if ignoreFees then (Inr v, st)
      else if fLimitFree \<and> nFees < GetMinRelayFee env (as_pool st) tx nSize True \<and> \<not> tx_IsZerocoinSpend tx
      then (Inl (Verdict (DoS 0 ''insufficient fee'')), st)
      else
        (case (if tx_IsZerocoinMint tx
               then (if nFees < at_MintFee env * int (GetZerocoinMintCount tx)
                     then Inl (Verdict (DoS 0 ''insufficient fee for zerocoinmint'')) else Inr v)
               else if \<not> tx_IsZerocoinSpend tx \<and> at_relaypriority env \<and> nFees < GetFee (at_minRelayTxFee env) nSize
               then (case view_GetPriority dummy_ops tx (nHeight + 1) v of
                       None \<Rightarrow> Inl (Verdict Asserted)
                     | Some (d, v') \<Rightarrow> if \<not> AllowFree d then Inl (Verdict (DoS 0 ''insufficient priority'')) else Inr v')
               else Inr v) of
           Inl e \<Rightarrow> (Inl e, st)
         | Inr v' \<Rightarrow>
             if fLimitFree \<and> nFees < GetFee (at_minRelayTxFee env) nSize \<and> \<not> tx_IsZerocoinSpend tx
             then (case rate_limit env nSize st of (Inl e, st') \<Rightarrow> (Inl e, st') | (Inr u, st') \<Rightarrow> (Inr v', st'))
             else (Inr v', st)))"

text \<open>The scripts are checked twice, both times with the same flags.\<close>

definition accept_flags :: "accept_tx_env \<Rightarrow> 'c chain_state \<Rightarrow> u32" where
  "accept_flags env s =
     (if IsSuperMajority (at_to_check env) (st_index s) 6 (Tip (st_active s)) (at_enforce env)
      then STANDARD_SCRIPT_VERIFY_FLAGS OR SCRIPT_VERIFY_CHECKLOCKTIMEVERIFY else STANDARD_SCRIPT_VERIFY_FLAGS)"

definition accept_scripts :: "accept_tx_env \<Rightarrow> 'c chain_state \<Rightarrow> CTransaction \<Rightarrow> 'v cache \<Rightarrow> accept_error + unit" where
  "accept_scripts env s tx v =
     sbind (verdict (CheckInputs dummy_ops (at_inputs env) tx True (accept_flags env s) v)) (\<lambda>v1.
     sbind (verdict (CheckInputs dummy_ops (at_inputs env) tx True (accept_flags env s) v1)) (\<lambda>v2. Inr ()))"

definition AcceptToMemoryPool :: "'v view_ops \<Rightarrow> accept_tx_env \<Rightarrow> 'c chain_state \<Rightarrow> CTransaction \<Rightarrow> bool \<Rightarrow> bool \<Rightarrow> bool \<Rightarrow>
    'v accept_tx_state \<Rightarrow> (accept_error + unit) \<times> 'v accept_tx_state" where
  "AcceptToMemoryPool ops env s tx fLimitFree fRejectInsaneFee ignoreFees st =
     (let nHeight = chain_Height (st_active s) in
      case accept_early env s (as_pool st) tx of
        Inl e \<Rightarrow> (Inl e, st)
      | Inr u \<Rightarrow>
      case accept_view ops env nHeight (as_pool st) tx (as_tip st) of
        (Inl e, v) \<Rightarrow> (Inl e, st\<lparr>as_tip := c_base v\<rparr>)
      | (Inr nValueIn, v) \<Rightarrow>
      let st1 = st\<lparr>as_tip := c_base v\<rparr> in
      case accept_sigops env tx v of
        Inl e \<Rightarrow> (Inl e, st1)
      | Inr v1 \<Rightarrow>
      case GetValueOut tx of
        None \<Rightarrow> (Inl (Verdict Thrown), st1)
      | Some nValueOut \<Rightarrow>
      let nFees = pool_fees nValueIn nValueOut in
      case (if tx_IsZerocoinSpend tx then Some (0, v1) else view_GetPriority dummy_ops tx nHeight v1) of
        None \<Rightarrow> (Inl (Verdict Asserted), st1)
      | Some (unused, v2) \<Rightarrow>
      let entry = CTxMemPoolEntry_of tx nFees (at_now env) 0 (word_of_int nHeight);
          nSize = me_size entry in
      case accept_fees env nHeight fLimitFree ignoreFees tx nFees nSize v2 st1 of
        (Inl e, st2) \<Rightarrow> (Inl e, st2)
      | (Inr v3, st2) \<Rightarrow>
          if fRejectInsaneFee \<and> nFees > GetFee (at_minRelayTxFee env) nSize * 10000 then (Inl Refused, st2)
          else if nFees > GetFee (at_minRelayTxFee env) nSize * 20000 then (Inl Refused, st2)
          else case accept_scripts env s tx v3 of
            Inl e \<Rightarrow> (Inl e, st2)
          | Inr u \<Rightarrow>
              (Inr (), st2\<lparr>as_pool := addUnchecked (GetHash tx) entry (as_pool st2),
                 as_spends := (if tx_IsZerocoinSpend tx then (as_spends st2)(GetHash tx \<mapsto> at_AdjustedTime env) else as_spends st2)\<rparr>))"

end
