(* ===== verification/MempoolLemmas.thy ===== *)
theory MempoolLemmas
  imports Mempool
begin

text \<open>
  The pool is consistent: every spent output is recorded for exactly the transaction that spends it,
  so no two transactions of the pool spend the same output. Every operation keeps this, never uses
  a dangling pointer, and a removal takes out all that depends on what is removed.
\<close>

section \<open>Maps\<close>

lemma map_of_put:
  assumes "\<And>a b. \<not> lt a b \<Longrightarrow> \<not> lt b a \<Longrightarrow> a = b" "\<And>a. \<not> lt a a"
  shows "map_of (map_put lt k v m) = (map_of m)(k \<mapsto> v)"
proof (induction m)
  case (Cons x m)
  then show ?case using assms(1) [of k "fst x"] assms(2) [of k] by (cases x) (auto simp: fun_eq_iff)
qed simp

lemma map_put_keys:
  assumes "\<And>a b. \<not> lt a b \<Longrightarrow> \<not> lt b a \<Longrightarrow> a = b" "k \<notin> fst ` set m"
  shows "set (map_put lt k v m) = insert (k, v) (set m)" "distinct (map fst m) \<Longrightarrow> distinct (map fst (map_put lt k v m))"
    "sum_list (map f (map_put lt k v m)) = f (k, v) + (sum_list (map f m) :: nat)"
proof -
  show s: "set (map_put lt k v m) = insert (k, v) (set m)" using assms(2) by (induction m) (use assms(1) in auto)
  have t: "set (map_put lt k v m') = insert (k, v) (set m')" if "k \<notin> fst ` set m'" for m'
    using that by (induction m') (use assms(1) in auto)
  show "distinct (map fst m) \<Longrightarrow> distinct (map fst (map_put lt k v m))"
    using assms(2) by (induction m) (use assms(1) in \<open>auto simp: t\<close>)
  show "sum_list (map f (map_put lt k v m)) = f (k, v) + sum_list (map f m)"
    using assms(2) by (induction m) (use assms(1) in auto)
qed

lemma map_of_erase [simp]: "map_of (map_erase k m) = (map_of m)(k := None)"
  by (induction m) (auto simp: map_erase_def)

lemma outpoint_less_total: "\<not> outpoint_less a b \<Longrightarrow> \<not> outpoint_less b a \<Longrightarrow> a = (b :: COutPoint)"
  by (cases a, cases b) (auto simp: outpoint_less_def not_less)

lemma outpoint_less_irrefl: "\<not> outpoint_less a a" by (simp add: outpoint_less_def)

lemma word_less_total: "\<not> a < b \<Longrightarrow> \<not> b < a \<Longrightarrow> a = (b :: uint256)" by simp

lemmas put_outpoint = map_of_put [of outpoint_less, OF outpoint_less_total outpoint_less_irrefl]
lemmas put_hash = map_of_put [of "(<) :: uint256 \<Rightarrow> uint256 \<Rightarrow> bool", OF word_less_total less_irrefl]

lemma map_of_erase_all: "map_of (foldl (\<lambda>m i. map_erase (prevout i) m) m is) q = (if q \<in> prevout ` set is then None else map_of m q)"
  by (induction "is" arbitrary: m) auto

section \<open>The invariant\<close>

definition pool_ok :: "CTxMemPool \<Rightarrow> bool" where
  "pool_ok pool \<longleftrightarrow>
     distinct (map fst (mp_tx pool)) \<and>
     (\<forall>h e. map_of (mp_tx pool) h = Some e \<longrightarrow> GetHash (me_tx e) = h) \<and>
     (\<forall>q h n. map_of (mp_next pool) q = Some (h, n) \<longrightarrow>
        (\<exists>e. map_of (mp_tx pool) h = Some e \<and> \<not> tx_IsZerocoinSpend (me_tx e) \<and> n < length (vin (me_tx e)) \<and>
             prevout (vin (me_tx e) ! n) = q)) \<and>
     (\<forall>h e i. map_of (mp_tx pool) h = Some e \<longrightarrow> i \<in> set (vin (me_tx e)) \<longrightarrow>
        (if tx_IsZerocoinSpend (me_tx e) then map_of (mp_next pool) (prevout i) = None
         else \<exists>n. map_of (mp_next pool) (prevout i) = Some (h, n))) \<and>
     mp_total pool = word_of_nat (sum_list (map (\<lambda>x. me_size (snd x)) (mp_tx pool)))"

lemma pool_hash: "pool_ok pool \<Longrightarrow> map_of (mp_tx pool) h = Some e \<Longrightarrow> GetHash (me_tx e) = h"
  by (simp add: pool_ok_def)

lemma pool_next:
  "pool_ok pool \<Longrightarrow> map_of (mp_next pool) q = Some (h, n) \<Longrightarrow>
   \<exists>e. map_of (mp_tx pool) h = Some e \<and> GetHash (me_tx e) = h \<and> \<not> tx_IsZerocoinSpend (me_tx e) \<and> n < length (vin (me_tx e)) \<and>
     prevout (vin (me_tx e) ! n) = q"
  unfolding pool_ok_def by blast

lemma pool_owns:
  "pool_ok pool \<Longrightarrow> map_of (mp_tx pool) h = Some e \<Longrightarrow> \<not> tx_IsZerocoinSpend (me_tx e) \<Longrightarrow> i \<in> set (vin (me_tx e)) \<Longrightarrow>
   \<exists>n. map_of (mp_next pool) (prevout i) = Some (h, n)"
  unfolding pool_ok_def by metis

text \<open>No two transactions of the pool spend the same output.\<close>

lemma pool_no_conflict:
  assumes "pool_ok pool" "map_of (mp_tx pool) h = Some e" "map_of (mp_tx pool) h' = Some e'" "h \<noteq> h'"
    "\<not> tx_IsZerocoinSpend (me_tx e)" "\<not> tx_IsZerocoinSpend (me_tx e')"
  shows "prevout ` set (vin (me_tx e)) \<inter> prevout ` set (vin (me_tx e')) = {}"
  using pool_owns [OF assms(1,2,5)] pool_owns [OF assms(1,3,6)] assms(4) by fastforce

section \<open>Removing\<close>

definition pool_sub :: "CTxMemPool \<Rightarrow> CTxMemPool \<Rightarrow> bool" where
  "pool_sub p p' \<longleftrightarrow> (\<forall>h e. map_of (mp_tx p') h = Some e \<longrightarrow> map_of (mp_tx p) h = Some e) \<and>
     (\<forall>q x. map_of (mp_next p') q = Some x \<longrightarrow> map_of (mp_next p) q = Some x)"

lemma pool_sub_refl [simp]: "pool_sub p p" by (simp add: pool_sub_def)
lemma pool_sub_trans: "pool_sub p p' \<Longrightarrow> pool_sub p' p'' \<Longrightarrow> pool_sub p p''" by (simp add: pool_sub_def)
lemma pool_sub_None: "pool_sub p p' \<Longrightarrow> map_of (mp_tx p) h = None \<Longrightarrow> map_of (mp_tx p') h = None"
  "pool_sub p p' \<Longrightarrow> map_of (mp_next p) q = None \<Longrightarrow> map_of (mp_next p') q = None"
  by (auto simp: pool_sub_def) (metis option.exhaust surj_pair)+

lemma sum_erase:
  "distinct (map fst m) \<Longrightarrow> map_of m k = Some e \<Longrightarrow>
   sum_list (map (\<lambda>x. f (snd x)) m) = f e + (sum_list (map (\<lambda>x. f (snd x)) (map_erase k m)) :: nat)"
proof (induction m)
  case (Cons x m)
  show ?case
  proof (cases "fst x = k")
    case True
    then have "\<forall>y \<in> set m. fst y \<noteq> k" using Cons.prems(1) by (cases x) (auto simp: image_iff)
    then have "map_erase k m = m" unfolding map_erase_def by (rule filter_True)
    then show ?thesis using Cons.prems(2) True by (cases x) (auto simp: map_erase_def)
  next
    case False
    then show ?thesis using Cons by (cases x) (auto simp: map_erase_def)
  qed
qed simp

lemma erase_entry_simps:
  "map_of (mp_tx (erase_entry h e pool)) = (map_of (mp_tx pool))(h := None)"
  "map_of (mp_next (erase_entry h e pool)) q = (if q \<in> prevout ` set (vin (me_tx e)) then None else map_of (mp_next pool) q)"
  "mp_deltas (erase_entry h e pool) = mp_deltas pool"
  by (simp_all add: erase_entry_def map_of_erase_all)

lemma erase_entry_ok:
  assumes "pool_ok pool" "map_of (mp_tx pool) h = Some e"
  shows "pool_ok (erase_entry h e pool) \<and> pool_sub pool (erase_entry h e pool)"
proof
  let ?p = "erase_entry h e pool" and ?next = "map_of (mp_next pool)"
  show "pool_sub pool ?p" by (auto simp: pool_sub_def erase_entry_simps split: if_splits)
  have d: "distinct (map fst (mp_tx pool))" using assms(1) by (simp add: pool_ok_def)
  have own: "if tx_IsZerocoinSpend (me_tx e') then ?next (prevout i) = None else \<exists>n. ?next (prevout i) = Some (h', n)"
    if "map_of (mp_tx pool) h' = Some e'" "i \<in> set (vin (me_tx e'))" for h' e' i
    using assms(1) that unfolding pool_ok_def by blast
  have "\<exists>e'. map_of (mp_tx ?p) h' = Some e' \<and> \<not> tx_IsZerocoinSpend (me_tx e') \<and> n < length (vin (me_tx e')) \<and> prevout (vin (me_tx e') ! n) = q"
    if "map_of (mp_next ?p) q = Some (h', n)" for q h' n
  proof -
    have q: "q \<notin> prevout ` set (vin (me_tx e))" "?next q = Some (h', n)" using that by (auto simp: erase_entry_simps split: if_splits)
    obtain e' where e': "map_of (mp_tx pool) h' = Some e'" "\<not> tx_IsZerocoinSpend (me_tx e')" "n < length (vin (me_tx e'))"
        "prevout (vin (me_tx e') ! n) = q" using pool_next [OF assms(1) q(2)] by blast
    then have "h' \<noteq> h" using q(1) assms(2) by (auto simp: image_iff)
    then show ?thesis using e' by (simp add: erase_entry_simps)
  qed
  moreover have "if tx_IsZerocoinSpend (me_tx e') then map_of (mp_next ?p) (prevout i) = None
      else \<exists>n. map_of (mp_next ?p) (prevout i) = Some (h', n)"
    if "map_of (mp_tx ?p) h' = Some e'" "i \<in> set (vin (me_tx e'))" for h' e' i
  proof -
    have h: "h' \<noteq> h" "map_of (mp_tx pool) h' = Some e'" using that(1) by (auto simp: erase_entry_simps split: if_splits)
    have "prevout i \<notin> prevout ` set (vin (me_tx e))" if "\<not> tx_IsZerocoinSpend (me_tx e')"
    proof
      assume "prevout i \<in> prevout ` set (vin (me_tx e))"
      then obtain j where j: "j \<in> set (vin (me_tx e))" "prevout i = prevout j" by blast
      show False using own [OF h(2) \<open>i \<in> set (vin (me_tx e'))\<close>] own [OF assms(2) j(1)] that h(1) j(2)
        by (auto split: if_splits)
    qed
    then show ?thesis using own [OF h(2) that(2)] by (auto simp: erase_entry_simps)
  qed
  moreover have "mp_total ?p = word_of_nat (sum_list (map (\<lambda>x. me_size (snd x)) (mp_tx ?p)))"
    using assms(1) sum_erase [OF d assms(2), of me_size] by (simp add: erase_entry_def pool_ok_def)
  moreover have "distinct (map fst (mp_tx ?p))" using d by (simp add: erase_entry_def map_erase_def distinct_map_filter)
  moreover have "GetHash (me_tx e') = h'" if "map_of (mp_tx ?p) h' = Some e'" for h' e'
    using that pool_hash [OF assms(1)] by (auto simp: erase_entry_simps split: if_splits)
  ultimately show "pool_ok ?p" unfolding pool_ok_def by blast
qed

lemma spenders_spec:
  assumes "pool_ok pool"
  shows "\<exists>hs. spenders pool h is = Some hs \<and>
    (\<forall>i \<in> set is. \<forall>h' n. map_of (mp_next pool) \<lparr>op_hash = h, op_n = word_of_nat i\<rparr> = Some (h', n) \<longrightarrow> h' \<in> set hs)"
proof (induction "is")
  case (Cons i "is")
  then obtain hs where hs: "spenders pool h is = Some hs"
      "\<forall>i \<in> set is. \<forall>h' n. map_of (mp_next pool) \<lparr>op_hash = h, op_n = word_of_nat i\<rparr> = Some (h', n) \<longrightarrow> h' \<in> set hs" by blast
  show ?case
  proof (cases "map_of (mp_next pool) \<lparr>op_hash = h, op_n = word_of_nat i\<rparr>")
    case None then show ?thesis using hs by auto
  next
    case (Some x)
    obtain h' n where x: "x = (h', n)" by fastforce
    obtain e where "map_of (mp_tx pool) h' = Some e" "GetHash (me_tx e) = h'" using pool_next [OF assms Some [unfolded x]] by blast
    then show ?thesis using hs Some x by auto
  qed
qed simp

text \<open>Nobody spends an output of the transaction.\<close>

definition childless :: "CTxMemPool \<Rightarrow> CTransaction \<Rightarrow> bool" where
  "childless pool tx \<longleftrightarrow> (\<forall>i < length (vout tx). map_of (mp_next pool) \<lparr>op_hash = GetHash tx, op_n = word_of_nat i\<rparr> = None)"

lemma childless_unspent:
  assumes "childless pool tx" "op_hash q = GetHash tx" "unat (op_n q) < length (vout tx)"
  shows "map_of (mp_next pool) q = None"
proof -
  have "q = \<lparr>op_hash = GetHash tx, op_n = word_of_nat (unat (op_n q))\<rparr>" using assms(2) by (cases q) simp
  then show ?thesis using assms(1,3) unfolding childless_def by metis
qed

lemma childless_sub: "pool_sub p p' \<Longrightarrow> childless p tx \<Longrightarrow> childless p' tx"
  using pool_sub_None(2) by (auto simp: childless_def)

lemma childless_queue:
  assumes "pool_ok pool'" "pool_sub pool pool'" "\<And>h'. h' \<in> set hs \<Longrightarrow> map_of (mp_tx pool') h' = None"
    "\<And>i h' n. i < length (vout tx) \<Longrightarrow> map_of (mp_next pool) \<lparr>op_hash = GetHash tx, op_n = word_of_nat i\<rparr> = Some (h', n) \<Longrightarrow> h' \<in> set hs"
  shows "childless pool' tx"
  unfolding childless_def
proof (intro allI impI)
  fix i assume i: "i < length (vout tx)"
  show "map_of (mp_next pool') \<lparr>op_hash = GetHash tx, op_n = word_of_nat i\<rparr> = None"
  proof (rule ccontr)
    assume "map_of (mp_next pool') \<lparr>op_hash = GetHash tx, op_n = word_of_nat i\<rparr> \<noteq> None"
    then obtain h' n where s: "map_of (mp_next pool') \<lparr>op_hash = GetHash tx, op_n = word_of_nat i\<rparr> = Some (h', n)" by fastforce
    then have "map_of (mp_next pool) \<lparr>op_hash = GetHash tx, op_n = word_of_nat i\<rparr> = Some (h', n)" using assms(2) by (simp add: pool_sub_def)
    from assms(3) [OF assms(4) [OF i this]] pool_next [OF assms(1) s] show False by auto
  qed
qed

lemma remove_loop_spec:
  "pool_ok pool \<Longrightarrow> \<exists>txs pool'. remove_loop r q removed pool = Some (removed @ txs, pool') \<and> pool_ok pool' \<and> pool_sub pool pool' \<and>
     (\<forall>h \<in> set q. map_of (mp_tx pool') h = None) \<and> (r \<longrightarrow> (\<forall>tx \<in> set txs. childless pool' tx)) \<and>
     (\<forall>h e. map_of (mp_tx pool) h = Some e \<longrightarrow> map_of (mp_tx pool') h = Some e \<or> me_tx e \<in> set txs)"
proof (induction r q removed pool rule: remove_loop.induct)
  case (1 r removed pool)
  then show ?case by (simp add: remove_loop.simps)
next
  case (2 r h q removed pool)
  show ?case
  proof (cases "map_of (mp_tx pool) h")
    case None
    obtain txs pool' where *: "remove_loop r q removed pool = Some (removed @ txs, pool')" "pool_ok pool'" "pool_sub pool pool'"
        "\<forall>h \<in> set q. map_of (mp_tx pool') h = None" "r \<longrightarrow> (\<forall>tx \<in> set txs. childless pool' tx)"
        "\<forall>h e. map_of (mp_tx pool) h = Some e \<longrightarrow> map_of (mp_tx pool') h = Some e \<or> me_tx e \<in> set txs"
      using 2(1) [OF None 2(3)] by blast
    then show ?thesis using None pool_sub_None(1) [OF *(3) None] by (subst remove_loop.simps) auto
  next
    case (Some e)
    let ?p1 = "erase_entry h e pool"
    obtain hs where hs: "(if r then spenders pool h [0..<length (vout (me_tx e))] else Some []) = Some hs"
      and kids: "r \<Longrightarrow> i < length (vout (me_tx e)) \<Longrightarrow>
        map_of (mp_next pool) \<lparr>op_hash = h, op_n = word_of_nat i\<rparr> = Some (h', n) \<Longrightarrow> h' \<in> set hs" for i h' n
      using spenders_spec [OF 2(3), of h "[0..<length (vout (me_tx e))]"] by (cases r) auto
    have p1: "pool_ok ?p1" "pool_sub pool ?p1" using erase_entry_ok [OF 2(3) Some] by simp_all
    obtain txs pool' where *: "remove_loop r (q @ hs) (removed @ [me_tx e]) ?p1 = Some ((removed @ [me_tx e]) @ txs, pool')"
        "pool_ok pool'" "pool_sub ?p1 pool'" "\<forall>h \<in> set (q @ hs). map_of (mp_tx pool') h = None"
        "r \<longrightarrow> (\<forall>tx \<in> set txs. childless pool' tx)"
        "\<forall>h e. map_of (mp_tx ?p1) h = Some e \<longrightarrow> map_of (mp_tx pool') h = Some e \<or> me_tx e \<in> set txs"
      using 2(2) [OF Some hs p1(1)] by blast
    have sub: "pool_sub pool pool'" using pool_sub_trans [OF p1(2) *(3)] .
    have "map_of (mp_tx pool') h = None" by (rule pool_sub_None(1) [OF *(3)]) (simp add: erase_entry_simps)
    moreover have "childless pool' (me_tx e)" if r
      by (rule childless_queue [OF *(2) sub, of hs]) (use *(4) kids [OF that] pool_hash [OF 2(3) Some] in auto)
    moreover have "map_of (mp_tx pool') h' = Some e' \<or> me_tx e' \<in> set (me_tx e # txs)" if "map_of (mp_tx pool) h' = Some e'" for h' e'
    proof (cases "h' = h")
      case True then show ?thesis using that Some by simp
    next
      case False
      then have "map_of (mp_tx ?p1) h' = Some e'" using that by (simp add: erase_entry_simps)
      then have "map_of (mp_tx pool') h' = Some e' \<or> me_tx e' \<in> set txs" using *(6) by blast
      then show ?thesis by auto
    qed
    ultimately show ?thesis using * sub Some hs by (subst remove_loop.simps) (auto intro!: exI [of _ "me_tx e # txs"])
  qed
qed

lemma pool_remove_spec:
  assumes "pool_ok pool"
  shows "\<exists>txs pool'. pool_remove tx r removed pool = Some (removed @ txs, pool') \<and> pool_ok pool' \<and> pool_sub pool pool' \<and>
    map_of (mp_tx pool') (GetHash tx) = None \<and> (r \<longrightarrow> (\<forall>tx \<in> set txs. childless pool' tx)) \<and>
    (r \<longrightarrow> map_of (mp_tx pool) (GetHash tx) = None \<longrightarrow> childless pool' tx) \<and>
    (\<forall>h e. map_of (mp_tx pool) h = Some e \<longrightarrow> map_of (mp_tx pool') h = Some e \<or> me_tx e \<in> set txs)"
proof -
  obtain hs where hs: "(if r \<and> \<not> pool_exists pool (GetHash tx) then spenders pool (GetHash tx) [0..<length (vout tx)] else Some []) = Some hs"
    and kids: "r \<Longrightarrow> map_of (mp_tx pool) (GetHash tx) = None \<Longrightarrow> i < length (vout tx) \<Longrightarrow>
      map_of (mp_next pool) \<lparr>op_hash = GetHash tx, op_n = word_of_nat i\<rparr> = Some (h', n) \<Longrightarrow> h' \<in> set hs" for i h' n
    using spenders_spec [OF assms, of "GetHash tx" "[0..<length (vout tx)]"]
    by (cases "r \<and> \<not> pool_exists pool (GetHash tx)") (auto simp: pool_exists_def)
  obtain txs pool' where *: "remove_loop r (GetHash tx # hs) removed pool = Some (removed @ txs, pool')" "pool_ok pool'" "pool_sub pool pool'"
      "\<forall>h \<in> set (GetHash tx # hs). map_of (mp_tx pool') h = None" "r \<longrightarrow> (\<forall>tx \<in> set txs. childless pool' tx)"
      "\<forall>h e. map_of (mp_tx pool) h = Some e \<longrightarrow> map_of (mp_tx pool') h = Some e \<or> me_tx e \<in> set txs"
    using remove_loop_spec [OF assms] by blast
  have "childless pool' tx" if "r" "map_of (mp_tx pool) (GetHash tx) = None"
    by (rule childless_queue [OF *(2,3), of hs]) (use *(4) kids [OF that] in auto)
  then show ?thesis using * hs by (auto simp: pool_remove_def)
qed

section \<open>Blocks\<close>

lemma removeConflicts_spec:
  "pool_ok pool \<Longrightarrow> map_of (mp_tx pool) (GetHash tx) = None \<Longrightarrow>
   \<exists>r pool'. removeConflicts tx ins removed pool = Some (r, pool') \<and> pool_ok pool' \<and> pool_sub pool pool' \<and>
     (\<forall>i \<in> set ins. map_of (mp_next pool') (prevout i) = None)"
proof (induction ins arbitrary: removed pool)
  case (Cons i ins)
  show ?case
  proof (cases "map_of (mp_next pool) (prevout i)")
    case None
    obtain r p2 where "removeConflicts tx ins removed pool = Some (r, p2)" "pool_ok p2" "pool_sub pool p2"
        "\<forall>i \<in> set ins. map_of (mp_next p2) (prevout i) = None"
      using Cons.IH [OF Cons.prems, of removed] by blast
    then show ?thesis using None pool_sub_None(2) [of pool p2] by auto
  next
    case (Some x)
    obtain h n where x: "x = (h, n)" by fastforce
    obtain e where e: "map_of (mp_tx pool) h = Some e" "GetHash (me_tx e) = h"
      using pool_next [OF Cons.prems(1) Some [unfolded x]] by blast
    have ne: "GetHash (me_tx e) \<noteq> GetHash tx" using e Cons.prems(2) by auto
    obtain txs p1 where p1: "pool_remove (me_tx e) True removed pool = Some (removed @ txs, p1)" "pool_ok p1" "pool_sub pool p1"
        "map_of (mp_tx p1) (GetHash (me_tx e)) = None"
      using pool_remove_spec [OF Cons.prems(1), of "me_tx e" True removed] by blast
    have "map_of (mp_next p1) (prevout i) = None"
    proof (rule ccontr)
      assume "map_of (mp_next p1) (prevout i) \<noteq> None"
      then have s: "map_of (mp_next p1) (prevout i) = Some (h, n)" using p1(3) Some x by (fastforce simp: pool_sub_def)
      show False using pool_next [OF p1(2) s] p1(4) e(2) by auto
    qed
    moreover obtain r p2 where "removeConflicts tx ins (removed @ txs) p1 = Some (r, p2)" "pool_ok p2" "pool_sub p1 p2"
        "\<forall>i \<in> set ins. map_of (mp_next p2) (prevout i) = None"
      using Cons.IH [OF p1(2) pool_sub_None(1) [OF p1(3) Cons.prems(2)], of "removed @ txs"] by blast
    ultimately show ?thesis using Some x e ne p1(1) pool_sub_trans [OF p1(3)] pool_sub_None(2) [of p1] by auto
  qed
qed simp

lemma Clear_ok: "pool_ok (ClearPrioritisation h p) = pool_ok p"
proof -
  have "pool_ok (p\<lparr>mp_deltas := d\<rparr>) = pool_ok p" for d by (cases p) (simp only: pool_ok_def CTxMemPool.simps CTxMemPool.update_convs)
  then show ?thesis by (simp only: ClearPrioritisation_def)
qed

lemma Clear_sub: "pool_sub p (ClearPrioritisation h p)"
proof -
  have "pool_sub p (p\<lparr>mp_deltas := d\<rparr>)" for d by (cases p) (simp only: pool_sub_def CTxMemPool.simps CTxMemPool.update_convs simp_thms)
  then show ?thesis by (simp only: ClearPrioritisation_def)
qed

text \<open>After a block the pool holds neither its transactions nor any that spend what they spend.\<close>

lemma removeForBlock_spec:
  "pool_ok pool \<Longrightarrow> \<exists>r pool'. removeForBlock txs conflicts pool = Some (r, pool') \<and> pool_ok pool' \<and> pool_sub pool pool' \<and>
     (\<forall>tx \<in> set txs. map_of (mp_tx pool') (GetHash tx) = None \<and> (\<forall>i \<in> set (vin tx). map_of (mp_next pool') (prevout i) = None))"
proof (induction txs arbitrary: conflicts pool)
  case (Cons tx txs)
  obtain d p1 where p1: "pool_remove tx False [] pool = Some (d, p1)" "pool_ok p1" "pool_sub pool p1" "map_of (mp_tx p1) (GetHash tx) = None"
    using pool_remove_spec [OF Cons.prems, of tx False "[]"] by auto
  obtain c p2 where p2: "removeConflicts tx (vin tx) conflicts p1 = Some (c, p2)" "pool_ok p2" "pool_sub p1 p2"
      "\<forall>i \<in> set (vin tx). map_of (mp_next p2) (prevout i) = None"
    using removeConflicts_spec [OF p1(2,4)] by blast
  let ?p3 = "ClearPrioritisation (GetHash tx) p2"
  have p3: "pool_ok ?p3" "pool_sub p2 ?p3" using p2(2) by (simp_all add: Clear_ok Clear_sub)
  obtain r p4 where p4: "removeForBlock txs c ?p3 = Some (r, p4)" "pool_ok p4" "pool_sub ?p3 p4"
      "\<forall>tx \<in> set txs. map_of (mp_tx p4) (GetHash tx) = None \<and> (\<forall>i \<in> set (vin tx). map_of (mp_next p4) (prevout i) = None)"
    using Cons.IH [OF p3(1)] by blast
  have s: "pool_sub p2 p4" "pool_sub p1 p4" using p2(3) p3(2) p4(3) pool_sub_trans by blast+
  have "map_of (mp_tx p4) (GetHash tx) = None" using s(2) p1(4) by (rule pool_sub_None(1))
  moreover have "map_of (mp_next p4) (prevout i) = None" if "i \<in> set (vin tx)" for i
    using pool_sub_None(2) [OF s(1)] p2(4) that by blast
  ultimately show ?case using p1 p2 p4 pool_sub_trans [OF p1(3) s(2)] by auto
qed simp

section \<open>Reorganisations\<close>

lemma remove_all_spec:
  "pool_ok pool \<Longrightarrow> \<exists>pool'. remove_all txs pool = Some pool' \<and> pool_ok pool' \<and> pool_sub pool pool' \<and>
     (\<forall>tx \<in> set txs. map_of (mp_tx pool') (GetHash tx) = None)"
proof (induction txs arbitrary: pool)
  case (Cons tx txs)
  obtain d p1 where p1: "pool_remove tx True [] pool = Some (d, p1)" "pool_ok p1" "pool_sub pool p1" "map_of (mp_tx p1) (GetHash tx) = None"
    using pool_remove_spec [OF Cons.prems, of tx True "[]"] by auto
  obtain p2 where p2: "remove_all txs p1 = Some p2" "pool_ok p2" "pool_sub p1 p2" "\<forall>tx \<in> set txs. map_of (mp_tx p2) (GetHash tx) = None"
    using Cons.IH [OF p1(2)] by blast
  then show ?case using p1 pool_sub_trans [OF p1(3) p2(3)] pool_sub_None(1) [OF p2(3) p1(4)] by simp
qed simp

lemma removeCoinbaseSpends_spec:
  assumes "pool_ok pool"
  shows "\<exists>pool'. removeCoinbaseSpends coins h m pool = Some pool' \<and> pool_ok pool' \<and> pool_sub pool pool' \<and>
    (\<forall>x e. map_of (mp_tx pool') x = Some e \<longrightarrow> list_all (\<lambda>i. \<not> immature_input coins h m pool i) (vin (me_tx e)))"
proof -
  let ?bad = "\<lambda>x. list_ex (immature_input coins h m pool) (vin (me_tx (snd x)))"
  let ?txs = "map (\<lambda>x. me_tx (snd x)) (filter ?bad (mp_tx pool))"
  obtain p where p: "remove_all ?txs pool = Some p" "pool_ok p" "pool_sub pool p" "\<forall>tx \<in> set ?txs. map_of (mp_tx p) (GetHash tx) = None"
    using remove_all_spec [OF assms] by blast
  have "\<not> ?bad (x, e)" if "map_of (mp_tx p) x = Some e" for x e
  proof
    assume bad: "?bad (x, e)"
    have s: "map_of (mp_tx pool) x = Some e" using p(3) that by (simp add: pool_sub_def)
    then have "me_tx e \<in> set ?txs" using bad map_of_SomeD [OF s] by force
    then show False using p(4) that pool_hash [OF assms s] by fastforce
  qed
  then show ?thesis using p by (auto simp: removeCoinbaseSpends_def list_ex_iff list_all_iff)
qed

section \<open>Adding\<close>

lemma put_ins:
  "map_of (foldl (\<lambda>m (i, txin). map_put outpoint_less (prevout txin) (h, i) m) m ins) q =
     (if q \<in> prevout ` snd ` set ins then Some (h, fst (last (filter (\<lambda>x. prevout (snd x) = q) ins))) else map_of m q)"
proof (induction ins arbitrary: m)
  case (Cons x ins)
  obtain i t where x: "x = (i, t)" by fastforce
  have "filter (\<lambda>x. prevout (snd x) = q) ins = [] \<longleftrightarrow> q \<notin> prevout ` snd ` set ins" by (auto simp: filter_empty_conv)
  then show ?case using Cons by (auto simp: x put_outpoint)
qed simp

lemma addUnchecked_ok:
  assumes "pool_ok pool" "GetHash (me_tx e) = h" "map_of (mp_tx pool) h = None"
    "\<And>i. i \<in> set (vin (me_tx e)) \<Longrightarrow> map_of (mp_next pool) (prevout i) = None"
    "\<And>i h' e' j. \<not> tx_IsZerocoinSpend (me_tx e) \<Longrightarrow> i \<in> set (vin (me_tx e)) \<Longrightarrow> map_of (mp_tx pool) h' = Some e' \<Longrightarrow>
      tx_IsZerocoinSpend (me_tx e') \<Longrightarrow> j \<in> set (vin (me_tx e')) \<Longrightarrow> prevout i \<noteq> prevout j"
  shows "pool_ok (addUnchecked h e pool)"
proof -
  let ?p = "addUnchecked h e pool" and ?tx = "me_tx e"
  let ?ins = "if tx_IsZerocoinSpend ?tx then [] else zip [0..<length (vin ?tx)] (vin ?tx)"
  have ins: "snd ` set ?ins = (if tx_IsZerocoinSpend ?tx then {} else set (vin ?tx))"
    by (auto simp: set_zip in_set_conv_nth image_iff)
  have t: "map_of (mp_tx ?p) = (map_of (mp_tx pool))(h \<mapsto> e)" by (simp add: addUnchecked_def Let_def put_hash)
  have n: "map_of (mp_next ?p) q = (if q \<in> prevout ` snd ` set ?ins then Some (h, fst (last (filter (\<lambda>x. prevout (snd x) = q) ?ins)))
      else map_of (mp_next pool) q)" for q
    unfolding addUnchecked_def Let_def by (simp add: put_ins)
  have last: "fst (last (filter (\<lambda>x. prevout (snd x) = q) ?ins)) < length (vin ?tx) \<and>
      prevout (vin ?tx ! fst (last (filter (\<lambda>x. prevout (snd x) = q) ?ins))) = q" if "q \<in> prevout ` snd ` set ?ins" for q
  proof -
    let ?f = "filter (\<lambda>x. prevout (snd x) = q) ?ins"
    have "?f \<noteq> []" using that by (auto simp: filter_empty_conv)
    then have "last ?f \<in> set ?f" by (rule last_in_set)
    then show ?thesis by (auto simp: set_zip split: if_splits)
  qed
  have keys: "h \<notin> fst ` set (mp_tx pool)" using assms(3) by (simp add: map_of_eq_None_iff)
  note P = assms(1) [unfolded pool_ok_def]
  have "distinct (map fst (mp_tx ?p)) \<and> mp_total ?p = word_of_nat (sum_list (map (\<lambda>x. me_size (snd x)) (mp_tx ?p)))"
    using map_put_keys(2,3) [of "(<)", OF word_less_total keys] P by (simp add: addUnchecked_def Let_def add.commute)
  moreover have "GetHash (me_tx e') = h'" if "map_of (mp_tx ?p) h' = Some e'" for h' e'
    using that assms(2) pool_hash [OF assms(1)] by (auto simp: t split: if_splits)
  moreover have "\<exists>e'. map_of (mp_tx ?p) h' = Some e' \<and> \<not> tx_IsZerocoinSpend (me_tx e') \<and> k < length (vin (me_tx e')) \<and>
      prevout (vin (me_tx e') ! k) = q" if "map_of (mp_next ?p) q = Some (h', k)" for q h' k
  proof (cases "q \<in> prevout ` snd ` set ?ins")
    case True
    let ?k = "fst (last (filter (\<lambda>x. prevout (snd x) = q) ?ins))"
    have "h' = h" "k = ?k" using that True by (simp_all only: n if_True option.inject prod.inject)
    moreover have "\<not> tx_IsZerocoinSpend ?tx" using True ins by (auto split: if_splits)
    ultimately show ?thesis using last [OF True] by (simp only: t fun_upd_same option.inject) blast
  next
    case False
    then have s: "map_of (mp_next pool) q = Some (h', k)" using that by (simp add: n)
    obtain e' where e': "map_of (mp_tx pool) h' = Some e'" "\<not> tx_IsZerocoinSpend (me_tx e')" "k < length (vin (me_tx e'))"
        "prevout (vin (me_tx e') ! k) = q" using pool_next [OF assms(1) s] by blast
    then have "h' \<noteq> h" using assms(3) by auto
    then show ?thesis using e' by (simp add: t)
  qed
  moreover have "if tx_IsZerocoinSpend (me_tx e') then map_of (mp_next ?p) (prevout i) = None
      else \<exists>n. map_of (mp_next ?p) (prevout i) = Some (h', n)"
    if "map_of (mp_tx ?p) h' = Some e'" "i \<in> set (vin (me_tx e'))" for h' e' i
  proof (cases "h' = h")
    case True
    then have e: "e' = e" using that(1) by (simp add: t)
    show ?thesis
    proof (cases "tx_IsZerocoinSpend ?tx")
      case True then show ?thesis using assms(4) that(2) ins unfolding e n by simp
    next
      case False
      then have "prevout i \<in> prevout ` snd ` set ?ins" using that(2) ins unfolding e by simp
      then show ?thesis using False \<open>h' = h\<close> unfolding e n by simp
    qed
  next
    case False
    then have old: "map_of (mp_tx pool) h' = Some e'" using that(1) by (simp add: t)
    have own: "if tx_IsZerocoinSpend (me_tx e') then map_of (mp_next pool) (prevout i) = None
        else \<exists>n. map_of (mp_next pool) (prevout i) = Some (h', n)" using P old that(2) by blast
    have "prevout i \<notin> prevout ` snd ` set ?ins"
      using own assms(4) assms(5) [OF _ _ old _ that(2)] ins by (fastforce split: if_splits)
    then show ?thesis using own by (simp add: n)
  qed
  ultimately show ?thesis unfolding pool_ok_def by blast
qed

end
