(* ===== verification/ActivateChain.thy ===== *)
theory ActivateChain
  imports ChainState
begin

unbundle bit_operations_syntax

text \<open>
  Moving the tip of the active chain, \<^verbatim>\<open>src/src/main.cpp\<close>: \<^verbatim>\<open>FindMostWorkChain\<close>, \<^verbatim>\<open>DisconnectTip\<close>,
  \<^verbatim>\<open>ConnectTip\<close>, \<^verbatim>\<open>ActivateBestChainStep\<close>, \<^verbatim>\<open>ActivateBestChain\<close>, \<^verbatim>\<open>InvalidateBlock\<close> and
  \<^verbatim>\<open>ReconsiderBlock\<close>. Blocks on disk, \<^verbatim>\<open>ConnectBlock\<close> and \<^verbatim>\<open>DisconnectBlock\<close> with the flush of their
  view, and \<^verbatim>\<open>FlushStateToDisk\<close> are a record of functions on the coins. A function that may fail
  returns why, or \<open>None\<close>, with the state; the outer \<open>None\<close> is as in \<open>ChainState\<close>, and stands for an
  exception as well.
\<close>

section \<open>The ledger\<close>

record 'c ledger =
  lg_read :: "CBlockIndex \<Rightarrow> CBlock option"
  lg_connect :: "index_heap \<Rightarrow> ptr \<Rightarrow> CBlock \<Rightarrow> bool \<Rightarrow> 'c \<Rightarrow> conn_error + CBlockIndex \<times> 'c"
  lg_disconnect :: "index_heap \<Rightarrow> ptr \<Rightarrow> CBlock \<Rightarrow> 'c \<Rightarrow> conn_error option \<times> 'c"
  lg_flush :: "bool \<Rightarrow> 'c \<Rightarrow> 'c option"

text \<open>\<^verbatim>\<open>CValidationState\<close>: \<^verbatim>\<open>IsInvalid\<close> and \<^verbatim>\<open>CorruptionPossible\<close>.\<close>

fun IsInvalid :: "conn_error \<Rightarrow> bool" where
  "IsInvalid (DoS n r) = True"
| "IsInvalid (Corrupt n r) = True"
| "IsInvalid (Invalid r) = True"
| "IsInvalid _ = False"

fun CorruptionPossible :: "conn_error \<Rightarrow> bool" where
  "CorruptionPossible (Corrupt n r) = True"
| "CorruptionPossible _ = False"

fun stops :: "conn_error \<Rightarrow> bool" where
  "stops Thrown = True"
| "stops Asserted = True"
| "stops _ = False"

section \<open>The most work\<close>

text \<open>The walk from a candidate to the active chain: the first entry that failed or has no data.\<close>

partial_function (option) test_path :: "index_heap \<Rightarrow> CChain \<Rightarrow> ptr option \<Rightarrow> ptr option option" where
  "test_path h c pindexTest =
     (case pindexTest of
        None \<Rightarrow> Some None
      | Some q \<Rightarrow>
          if Contains h c q then Some None
          else if \<not> (ix_nChainTx (h q) \<noteq> 0 \<or> ix_nHeight (h q) = 0) then None
          else if failed (h q) \<or> \<not> have_data (h q) then Some (Some q)
          else test_path h c (ix_pprev (h q)))"

declare test_path.simps [code]

text \<open>Removing the blocks from a candidate down to the entry that was found.\<close>

partial_function (option) drop_path :: "bool \<Rightarrow> ptr \<Rightarrow> ptr option \<Rightarrow> 'c chain_state \<Rightarrow> 'c chain_state option" where
  "drop_path fFailedChain pindexTest pindexFailed s =
     (case pindexFailed of
        None \<Rightarrow> None
      | Some p \<Rightarrow>
          if p = pindexTest then Some s
          else (case (if fFailedChain then Some (add_status BLOCK_FAILED_CHILD p s)
                      else map_option (\<lambda>q. s\<lparr>st_unlinked := st_unlinked s @ [(q, p)]\<rparr>) (ix_pprev (st_index s p))) of
                  None \<Rightarrow> None
                | Some s1 \<Rightarrow> drop_path fFailedChain pindexTest (ix_pprev (st_index s1 p)) (erase_candidate p s1)))"

declare drop_path.simps [code]

definition more_work :: "'c chain_state \<Rightarrow> ptr \<Rightarrow> bool" where
  "more_work s p \<longleftrightarrow> (case st_best_invalid s of
     None \<Rightarrow> True | Some b \<Rightarrow> ix_nChainWork (st_index s p) > ix_nChainWork (st_index s b))"

partial_function (option) FindMostWorkChain :: "'c chain_state \<Rightarrow> (ptr option \<times> 'c chain_state) option" where
  "FindMostWorkChain s =
     (if st_candidates s = [] then Some (None, s)
      else let p = last (st_candidates s)
           in case test_path (st_index s) (st_active s) (Some p) of
                None \<Rightarrow> None
              | Some None \<Rightarrow> Some (Some p, s)
              | Some (Some q) \<Rightarrow>
                  let fFailedChain = failed (st_index s q);
                      s1 = (if fFailedChain \<and> more_work s p then s\<lparr>st_best_invalid := Some p\<rparr> else s)
                  in (case drop_path fFailedChain q (Some p) s1 of
                        None \<Rightarrow> None
                      | Some s2 \<Rightarrow> FindMostWorkChain (erase_candidate q s2)))"

declare FindMostWorkChain.simps [code]

definition PruneBlockIndexCandidates :: "'c chain_state \<Rightarrow> 'c chain_state option" where
  "PruneBlockIndexCandidates s =
     (if st_candidates s = [] then None
      else case Tip (st_active s) of
        None \<Rightarrow> None
      | Some t \<Rightarrow>
          let cs = dropWhile (\<lambda>q. work_less (st_index s) q t) (st_candidates s)
          in if cs = [] then None else Some (s\<lparr>st_candidates := cs\<rparr>))"

section \<open>One block\<close>

text \<open>The log line of \<^verbatim>\<open>InvalidChainFound\<close> needs a tip.\<close>

definition InvalidChainFound :: "ptr \<Rightarrow> 'c chain_state \<Rightarrow> 'c chain_state option" where
  "InvalidChainFound p s =
     (let s1 = (if more_work s p then s\<lparr>st_best_invalid := Some p\<rparr> else s)
      in case Tip (st_active s1) of None \<Rightarrow> None | Some t \<Rightarrow> Some s1)"

definition InvalidBlockFound :: "ptr \<Rightarrow> conn_error \<Rightarrow> 'c chain_state \<Rightarrow> 'c chain_state option" where
  "InvalidBlockFound p e s =
     (if \<not> CorruptionPossible e
      then InvalidChainFound p (erase_candidate p (mark_dirty p (add_status BLOCK_FAILED_VALID p s)))
      else Some s)"

text \<open>\<^verbatim>\<open>UpdateTip\<close>, whose log line needs the new tip.\<close>

definition UpdateTip :: "ptr option \<Rightarrow> 'c chain_state \<Rightarrow> 'c chain_state option" where
  "UpdateTip pindexNew s =
     (case SetTip (st_index s) pindexNew (st_active s) of
        None \<Rightarrow> None
      | Some c \<Rightarrow> (case Tip c of None \<Rightarrow> None | Some t \<Rightarrow> Some (s\<lparr>st_active := c\<rparr>)))"

definition DisconnectTip :: "'c ledger \<Rightarrow> 'c chain_state \<Rightarrow> (conn_error option \<times> 'c chain_state) option" where
  "DisconnectTip lg s =
     (case Tip (st_active s) of
        None \<Rightarrow> None
      | Some p \<Rightarrow>
          (case lg_read lg (st_index s p) of
             None \<Rightarrow> Some (Some (Failed ''Failed to read block''), s)
           | Some block \<Rightarrow>
               (case lg_disconnect lg (st_index s) p block (st_coins s) of
                  (Some e, c) \<Rightarrow> if stops e then None else Some (Some e, s\<lparr>st_coins := c\<rparr>)
                | (None, c) \<Rightarrow>
                    (case lg_flush lg True c of
                       None \<Rightarrow> Some (Some (Failed ''''), s\<lparr>st_coins := c\<rparr>)
                     | Some c' \<Rightarrow>
                         map_option (\<lambda>s'. (None, s')) (UpdateTip (ix_pprev (st_index s p)) (s\<lparr>st_coins := c'\<rparr>))))))"

definition block_file :: "CBlockIndex \<Rightarrow> int" where
  "block_file b = (if have_data b then ix_nFile b else -1)"

definition ConnectTip :: "'c ledger \<Rightarrow> ptr \<Rightarrow> CBlock option \<Rightarrow> bool \<Rightarrow> 'c chain_state \<Rightarrow>
    (conn_error option \<times> 'c chain_state) option" where
  "ConnectTip lg p pblock fAlreadyChecked s =
     (if ix_pprev (st_index s p) \<noteq> Tip (st_active s) then None
      else let fAlreadyChecked = (if pblock = None then False else fAlreadyChecked)
      in case (case pblock of None \<Rightarrow> lg_read lg (st_index s p) | Some b \<Rightarrow> Some b) of
        None \<Rightarrow> Some (Some (Failed ''Failed to read block''), s)
      | Some block \<Rightarrow>
          (case lg_connect lg (st_index s) p block fAlreadyChecked (st_coins s) of
             Inl e \<Rightarrow>
               if stops e then None
               else map_option (\<lambda>s'. (Some e, s')) (if IsInvalid e then InvalidBlockFound p e s else Some s)
           | Inr (b, c) \<Rightarrow>
               let s1 = (mark_dirty p (set_entry p b s))\<lparr>st_coins := c\<rparr>;
                   always = (case ix_pprev b of None \<Rightarrow> False | Some q \<Rightarrow> block_file b \<noteq> block_file (st_index s1 q))
               in (case lg_flush lg always c of
                     None \<Rightarrow> Some (Some (Failed ''''), s1)
                   | Some c' \<Rightarrow> map_option (\<lambda>s'. (None, s')) (UpdateTip (Some p) (s1\<lparr>st_coins := c'\<rparr>)))))"

section \<open>One step\<close>

partial_function (option) disconnect_loop :: "'c ledger \<Rightarrow> ptr option \<Rightarrow> 'c chain_state \<Rightarrow>
    (conn_error option \<times> 'c chain_state) option" where
  "disconnect_loop lg pindexFork s =
     (if Tip (st_active s) \<noteq> None \<and> Tip (st_active s) \<noteq> pindexFork
      then (case DisconnectTip lg s of
              None \<Rightarrow> None
            | Some (Some e, s') \<Rightarrow> Some (Some e, s')
            | Some (None, s') \<Rightarrow> disconnect_loop lg pindexFork s')
      else Some (None, s))"

declare disconnect_loop.simps [code]

partial_function (option) collect_loop :: "index_heap \<Rightarrow> int \<Rightarrow> ptr option \<Rightarrow> ptr list \<Rightarrow> ptr list option" where
  "collect_loop h nHeight pindexIter vpindexToConnect =
     (case pindexIter of
        None \<Rightarrow> Some vpindexToConnect
      | Some p \<Rightarrow> if ix_nHeight (h p) \<noteq> nHeight
                  then collect_loop h nHeight (ix_pprev (h p)) (vpindexToConnect @ [p])
                  else Some vpindexToConnect)"

declare collect_loop.simps [code]

text \<open>
  The blocks of one batch, the lowest first. \<open>Go\<close>: all of them are connected and the tip is not yet
  better than before; \<open>Halt\<close>: it is, or an invalid block was found; \<open>Bad\<close>: a failure.
\<close>

datatype progress = Go | Halt | Bad conn_error

fun connect_batch :: "'c ledger \<Rightarrow> ptr \<Rightarrow> CBlock option \<Rightarrow> bool \<Rightarrow> ptr option \<Rightarrow> ptr \<Rightarrow> ptr list \<Rightarrow> 'c chain_state \<Rightarrow>
    (progress \<times> 'c chain_state) option" where
  "connect_batch lg pindexMostWork pblock fAlreadyChecked pindexOldTip lowest [] s = Some (Go, s)"
| "connect_batch lg pindexMostWork pblock fAlreadyChecked pindexOldTip lowest (p # ps) s =
     (case ConnectTip lg p (if p = pindexMostWork then pblock else None) fAlreadyChecked s of
        None \<Rightarrow> None
      | Some (Some e, s1) \<Rightarrow>
          if IsInvalid e
          then map_option (\<lambda>s2. (Halt, s2)) (if \<not> CorruptionPossible e then InvalidChainFound lowest s1 else Some s1)
          else Some (Bad e, s1)
      | Some (None, s1) \<Rightarrow>
          (case PruneBlockIndexCandidates s1 of
             None \<Rightarrow> None
           | Some s2 \<Rightarrow>
               (case Tip (st_active s2) of
                  None \<Rightarrow> None
                | Some t \<Rightarrow>
                    if (case pindexOldTip of
                          None \<Rightarrow> True
                        | Some old \<Rightarrow> ix_nChainWork (st_index s2 t) > ix_nChainWork (st_index s2 old))
                    then Some (Halt, s2)
                    else connect_batch lg pindexMostWork pblock fAlreadyChecked pindexOldTip lowest ps s2)))"

partial_function (option) connect_loop :: "'c ledger \<Rightarrow> ptr \<Rightarrow> CBlock option \<Rightarrow> bool \<Rightarrow> ptr option \<Rightarrow> int \<Rightarrow>
    'c chain_state \<Rightarrow> (conn_error option \<times> 'c chain_state) option" where
  "connect_loop lg pindexMostWork pblock fAlreadyChecked pindexOldTip nHeight s =
     (if nHeight = ix_nHeight (st_index s pindexMostWork) then Some (None, s)
      else let nTargetHeight = min (nHeight + 32) (ix_nHeight (st_index s pindexMostWork))
      in case GetAncestor (st_index s) pindexMostWork nTargetHeight of
           None \<Rightarrow> None
         | Some pindexIter \<Rightarrow>
      (case collect_loop (st_index s) nHeight pindexIter [] of
         None \<Rightarrow> None
       | Some vpindexToConnect \<Rightarrow>
      (case connect_batch lg pindexMostWork pblock fAlreadyChecked pindexOldTip (last vpindexToConnect)
              (rev vpindexToConnect) s of
         None \<Rightarrow> None
       | Some (Bad e, s1) \<Rightarrow> Some (Some e, s1)
       | Some (Halt, s1) \<Rightarrow> Some (None, s1)
       | Some (Go, s1) \<Rightarrow> connect_loop lg pindexMostWork pblock fAlreadyChecked pindexOldTip nTargetHeight s1)))"

declare connect_loop.simps [code]

definition ActivateBestChainStep :: "'c ledger \<Rightarrow> ptr \<Rightarrow> CBlock option \<Rightarrow> bool \<Rightarrow> 'c chain_state \<Rightarrow>
    (conn_error option \<times> 'c chain_state) option" where
  "ActivateBestChainStep lg pindexMostWork pblock fAlreadyChecked s =
     (let fAlreadyChecked = (if pblock = None then False else fAlreadyChecked);
          pindexOldTip = Tip (st_active s)
      in case FindFork (st_index s) (st_active s) pindexMostWork of
           None \<Rightarrow> None
         | Some pindexFork \<Rightarrow>
      (case disconnect_loop lg pindexFork s of
         None \<Rightarrow> None
       | Some (Some e, s1) \<Rightarrow> Some (Some e, s1)
       | Some (None, s1) \<Rightarrow>
           connect_loop lg pindexMostWork pblock fAlreadyChecked pindexOldTip
             (case pindexFork of None \<Rightarrow> -1 | Some f \<Rightarrow> ix_nHeight (st_index s1 f)) s1))"

section \<open>The loop\<close>

definition block_for :: "(CBlock \<Rightarrow> uint256) \<Rightarrow> CBlock option \<Rightarrow> CBlockIndex \<Rightarrow> CBlock option" where
  "block_for hashf pblock b =
     (case pblock of None \<Rightarrow> None | Some block \<Rightarrow> if hashf block = ix_hash b then Some block else None)"

text \<open>\<^verbatim>\<open>ActivateBestChain\<close>, with the hash function of blocks.\<close>

partial_function (option) ActivateBestChain :: "'c ledger \<Rightarrow> (CBlock \<Rightarrow> uint256) \<Rightarrow> CBlock option \<Rightarrow> bool \<Rightarrow>
    'c chain_state \<Rightarrow> (conn_error option \<times> 'c chain_state) option" where
  "ActivateBestChain lg hashf pblock fAlreadyChecked s =
     (case FindMostWorkChain s of
        None \<Rightarrow> None
      | Some (None, s1) \<Rightarrow> Some (None, s1)
      | Some (Some m, s1) \<Rightarrow>
          if Some m = Tip (st_active s1) then Some (None, s1)
          else (case ActivateBestChainStep lg m (block_for hashf pblock (st_index s1 m)) fAlreadyChecked s1 of
                  None \<Rightarrow> None
                | Some (Some e, s2) \<Rightarrow> Some (Some e, s2)
                | Some (None, s2) \<Rightarrow>
                    if Tip (st_active s2) = None then None
                    else if Some m \<noteq> Tip (st_active s2) then ActivateBestChain lg hashf pblock fAlreadyChecked s2
                    else (case lg_flush lg False (st_coins s2) of
                            None \<Rightarrow> Some (Some (Failed ''''), s2)
                          | Some c \<Rightarrow> Some (None, s2\<lparr>st_coins := c\<rparr>))))"

declare ActivateBestChain.simps [code]

section \<open>By hand\<close>

partial_function (option) invalidate_loop :: "'c ledger \<Rightarrow> ptr \<Rightarrow> 'c chain_state \<Rightarrow>
    (conn_error option \<times> 'c chain_state) option" where
  "invalidate_loop lg p s =
     (if Contains (st_index s) (st_active s) p
      then (case Tip (st_active s) of
              None \<Rightarrow> None
            | Some t \<Rightarrow>
                (case DisconnectTip lg (erase_candidate t (mark_dirty t (add_status BLOCK_FAILED_CHILD t s))) of
                   None \<Rightarrow> None
                 | Some (Some e, s') \<Rightarrow> Some (Some e, s')
                 | Some (None, s') \<Rightarrow> invalidate_loop lg p s'))
      else Some (None, s))"

declare invalidate_loop.simps [code]

text \<open>The entry \<open>q\<close> of the index is a candidate again when it is no worse than the tip.\<close>

definition readd :: "ptr \<Rightarrow> 'c chain_state \<Rightarrow> ptr \<Rightarrow> 'c chain_state" where
  "readd t s q =
     (if index_IsValid BLOCK_VALID_TRANSACTIONS (st_index s q) \<and> ix_nChainTx (st_index s q) \<noteq> 0 \<and>
         \<not> work_less (st_index s) q t
      then insert_candidate q s else s)"

definition InvalidateBlock :: "'c ledger \<Rightarrow> ptr \<Rightarrow> 'c chain_state \<Rightarrow> (conn_error option \<times> 'c chain_state) option" where
  "InvalidateBlock lg p s =
     (case invalidate_loop lg p (erase_candidate p (mark_dirty p (add_status BLOCK_FAILED_VALID p s))) of
        None \<Rightarrow> None
      | Some (Some e, s1) \<Rightarrow> Some (Some e, s1)
      | Some (None, s1) \<Rightarrow>
          (case Tip (st_active s1) of
             None \<Rightarrow> None
           | Some t \<Rightarrow>
               map_option (\<lambda>s3. (None, s3)) (InvalidChainFound p (foldl (readd t) s1 (map snd (st_map s1))))))"

definition reconsider_one :: "ptr \<Rightarrow> int \<Rightarrow> ptr \<Rightarrow> 'c chain_state \<Rightarrow> 'c chain_state option" where
  "reconsider_one p nHeight q s =
     (if index_IsValid BLOCK_VALID_TRANSACTIONS (st_index s q) then Some s
      else case GetAncestor (st_index s) q nHeight of
        None \<Rightarrow> None
      | Some a \<Rightarrow>
          if a \<noteq> Some p then Some s
          else let s1 = mark_dirty q (clear_failed q s); b = st_index s1 q
               in case (if index_IsValid BLOCK_VALID_TRANSACTIONS b \<and> ix_nChainTx b \<noteq> 0
                        then (case Tip (st_active s1) of
                                None \<Rightarrow> None
                              | Some t \<Rightarrow> Some (if work_less (st_index s1) t q then insert_candidate q s1 else s1))
                        else Some s1) of
                    None \<Rightarrow> None
                  | Some s2 \<Rightarrow> Some (if Some q = st_best_invalid s2 then s2\<lparr>st_best_invalid := None\<rparr> else s2))"

fun reconsider_all :: "ptr \<Rightarrow> int \<Rightarrow> ptr list \<Rightarrow> 'c chain_state \<Rightarrow> 'c chain_state option" where
  "reconsider_all p nHeight [] s = Some s"
| "reconsider_all p nHeight (q # qs) s =
     (case reconsider_one p nHeight q s of None \<Rightarrow> None | Some s1 \<Rightarrow> reconsider_all p nHeight qs s1)"

partial_function (option) clear_ancestors :: "ptr option \<Rightarrow> 'c chain_state \<Rightarrow> 'c chain_state option" where
  "clear_ancestors pindex s =
     (case pindex of
        None \<Rightarrow> Some s
      | Some p \<Rightarrow>
          let s1 = (if failed (st_index s p) then mark_dirty p (clear_failed p s) else s)
          in clear_ancestors (ix_pprev (st_index s1 p)) s1)"

declare clear_ancestors.simps [code]

definition ReconsiderBlock :: "ptr \<Rightarrow> 'c chain_state \<Rightarrow> 'c chain_state option" where
  "ReconsiderBlock p s =
     (case reconsider_all p (ix_nHeight (st_index s p)) (map snd (st_map s)) s of
        None \<Rightarrow> None
      | Some s1 \<Rightarrow> clear_ancestors (Some p) s1)"

text \<open>\<^verbatim>\<open>DisconnectBlocksAndReprocess\<close>: one round more than \<open>blocks\<close>, failures ignored.\<close>

primrec disconnect_rounds :: "'c ledger \<Rightarrow> nat \<Rightarrow> 'c chain_state \<Rightarrow> 'c chain_state option" where
  "disconnect_rounds lg 0 s = Some s"
| "disconnect_rounds lg (Suc n) s =
     (case DisconnectTip lg s of None \<Rightarrow> None | Some (e, s') \<Rightarrow> disconnect_rounds lg n s')"

definition DisconnectBlocksAndReprocess :: "'c ledger \<Rightarrow> int \<Rightarrow> 'c chain_state \<Rightarrow> 'c chain_state option" where
  "DisconnectBlocksAndReprocess lg blocks s = disconnect_rounds lg (nat (blocks + 1)) s"

end
