(* ===== verification/ActivateLemmas.thy ===== *)
theory ActivateLemmas
  imports ActivateChain
begin

unbundle bit_operations_syntax

text \<open>
  Chain selection. Moving the tip changes no link, height, hash or work of an entry; the set of
  candidates is a sorted list; \<^verbatim>\<open>FindMostWorkChain\<close> ends and finds the best candidate whose chain can
  be used; and, for any ledger whose connections can be undone, the coins are at every return those
  of the active chain.
\<close>

section \<open>What stays the same\<close>

definition same_entry :: "CBlockIndex \<Rightarrow> CBlockIndex \<Rightarrow> bool" where
  "same_entry b b' \<longleftrightarrow> ix_pprev b' = ix_pprev b \<and> ix_pskip b' = ix_pskip b \<and> ix_nHeight b' = ix_nHeight b \<and>
     ix_hash b' = ix_hash b \<and> ix_nChainWork b' = ix_nChainWork b \<and> ix_nSequenceId b' = ix_nSequenceId b \<and>
     ix_nChainTx b' = ix_nChainTx b"

definition same_index :: "index_heap \<Rightarrow> index_heap \<Rightarrow> bool" where
  "same_index h h' \<longleftrightarrow> (\<forall>p. same_entry (h p) (h' p))"

lemma same_entry_refl [simp]: "same_entry b b" by (simp add: same_entry_def)

lemma same_index_refl [simp]: "same_index h h" by (simp add: same_index_def)

lemma same_index_trans: "same_index h h' \<Longrightarrow> same_index h' h'' \<Longrightarrow> same_index h h''"
  by (simp add: same_index_def same_entry_def)

lemma same_index_sym: "same_index h h' \<Longrightarrow> same_index h' h" by (simp add: same_index_def same_entry_def)

lemma same_index_upd: "same_index h h' \<Longrightarrow> same_entry (h' p) b \<Longrightarrow> same_index h (h'(p := b))"
  by (simp add: same_index_def same_entry_def)

lemma same_fields:
  assumes "same_index h h'"
  shows "ix_pprev (h' p) = ix_pprev (h p)" "ix_pskip (h' p) = ix_pskip (h p)" "ix_nHeight (h' p) = ix_nHeight (h p)"
    "ix_hash (h' p) = ix_hash (h p)" "ix_nChainWork (h' p) = ix_nChainWork (h p)"
    "ix_nSequenceId (h' p) = ix_nSequenceId (h p)" "ix_nChainTx (h' p) = ix_nChainTx (h p)"
  using assms by (simp_all add: same_index_def same_entry_def)

lemma walk_back_same: "same_index h h' \<Longrightarrow> walk_back h' n p = walk_back h n p"
  by (induction n arbitrary: p) (auto simp: same_fields split: option.split)

lemma ancestor_same: "same_index h h' \<Longrightarrow> ancestor h' q p = ancestor h q p"
  by (simp add: ancestor_def walk_back_same)

lemma index_ok_same: "same_index h h' \<Longrightarrow> index_ok h' S = index_ok h S"
  by (auto simp: index_ok_def entry_linked_def same_fields walk_back_same split: option.split)

lemma path_to_same: "same_index h h' \<Longrightarrow> path_to h' p = path_to h p"
  by (simp add: path_to_def same_fields walk_back_same)

lemma is_chain_same: "same_index h h' \<Longrightarrow> is_chain h' S c = is_chain h S c"
  by (simp add: is_chain_def path_to_same)

lemma Contains_same: "same_index h h' \<Longrightarrow> Contains h' c p = Contains h c p"
  by (simp add: Contains_def same_fields)

lemma work_less_same: "same_index h h' \<Longrightarrow> work_less h' p q = work_less h p q"
  by (simp add: work_less_def same_fields)

lemma last_common_same: "same_index h h' \<Longrightarrow> last_common h' p q r = last_common h p q r"
  by (simp add: last_common_def ancestor_same split: option.split)

lemmas same_rules = walk_back_same ancestor_same index_ok_same path_to_same is_chain_same Contains_same
  work_less_same last_common_same

section \<open>The order of the candidates\<close>

lemma work_less_key:
  "work_less h p q \<longleftrightarrow> ix_nChainWork (h p) < ix_nChainWork (h q) \<or>
     ix_nChainWork (h p) = ix_nChainWork (h q) \<and>
       (ix_nSequenceId (h p) > ix_nSequenceId (h q) \<or> ix_nSequenceId (h p) = ix_nSequenceId (h q) \<and> p > q)"
  by (auto simp: work_less_def)

lemma work_less_irrefl [simp]: "\<not> work_less h p p" by (simp add: work_less_key)

lemma work_less_trans: "work_less h p q \<Longrightarrow> work_less h q r \<Longrightarrow> work_less h p r"
  by (auto simp: work_less_key)

lemma work_less_asym: "work_less h p q \<Longrightarrow> \<not> work_less h q p"
  by (auto simp: work_less_key)

lemma work_less_total: "p \<noteq> q \<Longrightarrow> work_less h p q \<or> work_less h q p"
  by (auto simp: work_less_key)

lemma cand_erase_neq: "cand_erase h p cs = filter (\<lambda>q. q \<noteq> p) cs"
  unfolding cand_erase_def by (rule filter_cong) (use work_less_total in auto)

lemma set_cand_erase [simp]: "set (cand_erase h p cs) = set cs - {p}"
  by (auto simp: cand_erase_neq)

lemma set_cand_insert [simp]: "set (cand_insert h p cs) = insert p (set cs)"
  by (induction cs) (auto dest: work_less_total [of p _ h])

lemma sorted_cand_insert: "sorted_wrt (work_less h) cs \<Longrightarrow> sorted_wrt (work_less h) (cand_insert h p cs)"
proof (induction cs)
  case (Cons q cs)
  then show ?case using work_less_trans [of h p q] by (auto dest: work_less_total [of p q h])
qed simp

lemma sorted_cand_erase: "sorted_wrt (work_less h) cs \<Longrightarrow> sorted_wrt (work_less h) (cand_erase h p cs)"
  by (simp add: cand_erase_neq sorted_wrt_filter)

lemma sorted_last: "sorted_wrt (work_less h) cs \<Longrightarrow> q \<in> set cs \<Longrightarrow> q = last cs \<or> work_less h q (last cs)"
  by (induction cs) auto

section \<open>The state\<close>

definition chain_inv :: "ptr set \<Rightarrow> 'c chain_state \<Rightarrow> bool" where
  "chain_inv S s \<longleftrightarrow> index_ok (st_index s) S \<and> is_chain (st_index s) S (st_active s) \<and>
     set (st_candidates s) \<subseteq> S \<and> sorted_wrt (work_less (st_index s)) (st_candidates s)"

text \<open>A change that keeps the coins and the active chain, and adds no candidate.\<close>

definition keeps :: "'c chain_state \<Rightarrow> 'c chain_state \<Rightarrow> bool" where
  "keeps s s' \<longleftrightarrow> same_index (st_index s) (st_index s') \<and> st_active s' = st_active s \<and> st_coins s' = st_coins s \<and>
     st_map s' = st_map s \<and> subseq (st_candidates s') (st_candidates s)"

lemma keeps_refl [simp]: "keeps s s" by (simp add: keeps_def)

lemma keeps_trans: "keeps s s' \<Longrightarrow> keeps s' s'' \<Longrightarrow> keeps s s''"
  unfolding keeps_def using same_index_trans subseq_order.order_trans by metis

lemma sorted_wrt_subseq: "subseq xs ys \<Longrightarrow> sorted_wrt R ys \<Longrightarrow> sorted_wrt R xs"
  by (induction rule: list_emb.induct) (auto dest: list_emb_set)

lemma subseq_set: "subseq xs ys \<Longrightarrow> set xs \<subseteq> set ys"
  by (auto dest: list_emb_set)

lemma chain_inv_same:
  assumes i: "same_index (st_index s) (st_index s')" and "st_active s' = st_active s"
    and c: "subseq (st_candidates s') (st_candidates s)" and "chain_inv S s"
  shows "chain_inv S s'"
proof -
  have "sorted_wrt (work_less (st_index s)) (st_candidates s')"
    using sorted_wrt_subseq [OF c] assms(4) by (simp add: chain_inv_def)
  moreover have "work_less (st_index s') = work_less (st_index s)" using work_less_same [OF i] by (simp add: fun_eq_iff)
  moreover have "set (st_candidates s') \<subseteq> S" using subseq_set [OF c] assms(4) by (auto simp: chain_inv_def)
  ultimately show ?thesis using assms by (simp add: chain_inv_def same_rules [OF i])
qed

lemma keeps_inv: "keeps s s' \<Longrightarrow> chain_inv S s \<Longrightarrow> chain_inv S s'"
  using chain_inv_same by (auto simp: keeps_def)

lemma keeps_simps [simp]:
  "keeps s (add_status f p s)" "keeps s (mark_dirty p s)" "keeps s (clear_failed p s)"
  "keeps s (s\<lparr>st_best_invalid := b\<rparr>)" "keeps s (s\<lparr>st_unlinked := u\<rparr>)"
  by (simp_all add: keeps_def add_status_def clear_failed_def set_entry_def mark_dirty_def same_index_def same_entry_def)

lemma keeps_erase [simp]: "keeps s (erase_candidate p s)"
  by (simp add: keeps_def erase_candidate_def cand_erase_neq subseq_filter_left)

lemma erase_candidate_index [simp]: "st_index (erase_candidate p s) = st_index s"
  "st_active (erase_candidate p s) = st_active s" "set (st_candidates (erase_candidate p s)) = set (st_candidates s) - {p}"
  by (simp_all add: erase_candidate_def)

lemma add_status_index [simp]: "st_candidates (add_status f p s) = st_candidates s" "st_active (add_status f p s) = st_active s"
  "st_index (add_status f p s) = (st_index s)(p := (st_index s p)\<lparr>ix_nStatus := ix_nStatus (st_index s p) OR f\<rparr>)"
  by (simp_all add: add_status_def set_entry_def)

section \<open>The most work\<close>

text \<open>A block whose ancestors outside the active chain are all there and not known to be invalid.\<close>

definition usable :: "index_heap \<Rightarrow> CChain \<Rightarrow> ptr \<Rightarrow> bool" where
  "usable h c p \<longleftrightarrow> (\<forall>q. ancestor h q p \<longrightarrow> \<not> Contains h c q \<longrightarrow> \<not> failed (h q) \<and> have_data (h q))"

definition connected :: "index_heap \<Rightarrow> CChain \<Rightarrow> ptr \<Rightarrow> bool" where
  "connected h c p \<longleftrightarrow> (\<forall>q. ancestor h q p \<longrightarrow> \<not> Contains h c q \<longrightarrow> ix_nChainTx (h q) \<noteq> 0 \<or> ix_nHeight (h q) = 0)"

lemma Contains_down:
  assumes "index_ok h S" "is_chain h S c" "p \<in> S" "Contains h c p" "ancestor h q p"
  shows "Contains h c q"
proof -
  have "c \<noteq> []" using assms(4) by (auto simp: Contains_def chain_at_def split: if_splits)
  then obtain t where t: "t \<in> S" "c = path_to h t" using assms(2) by (auto simp: is_chain_def)
  then have "ancestor h p t" using Contains_path [OF assms(1) t(1) assms(3)] assms(4) by simp
  then show ?thesis using Contains_path [OF assms(1) t(1) ancestor_in [OF assms(1,3,5)]] ancestor_trans [OF assms(5)] t(2) by simp
qed

lemma test_path_None [simp]: "test_path h c None = Some None"
  by (subst test_path.simps) simp

lemma test_path_spec:
  assumes "index_ok h S" "is_chain h S c"
  shows "p \<in> S \<Longrightarrow> connected h c p \<Longrightarrow> \<exists>r. test_path h c (Some p) = Some r \<and>
    (case r of None \<Rightarrow> usable h c p
     | Some q \<Rightarrow> ancestor h q p \<and> \<not> Contains h c q \<and> (failed (h q) \<or> \<not> have_data (h q)))"
proof (induction "nat (ix_nHeight (h p))" arbitrary: p rule: less_induct)
  case less
  show ?case
  proof (cases "Contains h c p")
    case True
    then have "usable h c p" using Contains_down [OF assms less.prems(1)] by (auto simp: usable_def)
    then show ?thesis using True by (subst test_path.simps) simp
  next
    case nc: False
    then have tx: "ix_nChainTx (h p) \<noteq> 0 \<or> ix_nHeight (h p) = 0" using less.prems(2) by (simp add: connected_def)
    show ?thesis
    proof (cases "failed (h p) \<or> \<not> have_data (h p)")
      case True
      then show ?thesis using nc tx by (subst test_path.simps) auto
    next
      case good: False
      show ?thesis
      proof (cases "ix_pprev (h p)")
        case None
        then have "usable h c p" using good ancestor_genesis [of h p, OF None] by (auto simp: usable_def)
        then show ?thesis using None nc tx good by (subst test_path.simps) simp
      next
        case (Some q)
        note q = index_ok_prev [OF assms(1) less.prems(1) Some]
        have a: "ancestor h x p \<longleftrightarrow> x = p \<or> ancestor h x q" for x using ancestor_prev [of h p q x, OF Some] .
        have "connected h c q" using less.prems(2) a by (simp add: connected_def)
        moreover have "nat (ix_nHeight (h q)) < nat (ix_nHeight (h p))" using q index_ok_height [OF assms(1), of q] by auto
        ultimately obtain r where r: "test_path h c (Some q) = Some r"
            "case r of None \<Rightarrow> usable h c q | Some x \<Rightarrow> ancestor h x q \<and> \<not> Contains h c x \<and> (failed (h x) \<or> \<not> have_data (h x))"
          using less.hyps [of q] q by blast
        have "test_path h c (Some p) = Some r" using nc tx good Some r(1) by (subst test_path.simps) simp
        moreover have "usable h c q \<Longrightarrow> usable h c p" using good a by (auto simp: usable_def)
        ultimately show ?thesis using r(2) a by (auto split: option.splits)
      qed
    qed
  qed
qed

text \<open>What the removal of a path does to the status of the entries.\<close>

definition between :: "index_heap \<Rightarrow> ptr \<Rightarrow> ptr \<Rightarrow> ptr set" where
  "between h q p = {x. ancestor h x p \<and> ancestor h q x \<and> x \<noteq> q}"

definition marked :: "bool \<Rightarrow> ptr set \<Rightarrow> index_heap \<Rightarrow> index_heap \<Rightarrow> bool" where
  "marked f X h h' \<longleftrightarrow> (\<forall>x. (failed (h' x) \<longleftrightarrow> failed (h x) \<or> f \<and> x \<in> X) \<and> have_data (h' x) = have_data (h x))"

lemma failed_child [simp]: "failed (b\<lparr>ix_nStatus := ix_nStatus b OR BLOCK_FAILED_CHILD\<rparr>)"
proof -
  have "bit ((ix_nStatus b OR BLOCK_FAILED_CHILD) AND BLOCK_FAILED_MASK) 6" by (simp add: bit_simps)
  then show ?thesis by (force simp: failed_def)
qed

lemma have_data_child [simp]: "have_data (b\<lparr>ix_nStatus := ix_nStatus b OR BLOCK_FAILED_CHILD\<rparr>) = have_data b"
proof -
  have "(ix_nStatus b OR BLOCK_FAILED_CHILD) AND BLOCK_HAVE_DATA = ix_nStatus b AND BLOCK_HAVE_DATA"
    by (simp add: bit.conj_disj_distrib2)
  then show ?thesis by (simp add: have_data_def)
qed


lemma between_same: "same_index h h' \<Longrightarrow> between h' q p = between h q p"
  by (simp add: between_def ancestor_same)

lemma ancestor_antisym:
  assumes "index_ok h S" "p \<in> S" "ancestor h q p" "ancestor h p q" shows "p = q"
proof -
  have q: "q \<in> S" using ancestor_in [OF assms(1,2,3)] .
  have "ix_nHeight (h q) = ix_nHeight (h p)"
    using ancestor_back [OF assms(1,2), of q] ancestor_back [OF assms(1) q, of p] assms(3,4) by simp
  then show ?thesis using ancestor_unique [OF assms(1,2) assms(3) ancestor_refl] by simp
qed

lemma between_self: "index_ok h S \<Longrightarrow> p \<in> S \<Longrightarrow> between h p p = {}"
  using ancestor_antisym by (fastforce simp: between_def)

lemma between_step:
  assumes "index_ok h S" "p \<in> S" "ix_pprev (h p) = Some r" "ancestor h q r"
  shows "between h q p = insert p (between h q r)"
proof -
  have a: "ancestor h x p \<longleftrightarrow> x = p \<or> ancestor h x r" for x using ancestor_prev [of h p r x, OF assms(3)] .
  have qp: "ancestor h q p" using a assms(4) by simp
  have "q \<noteq> p"
  proof
    assume "q = p"
    have r: "r \<in> S" "ix_nHeight (h p) = ix_nHeight (h r) + 1" using index_ok_prev [OF assms(1-3)] by auto
    then show False using ancestor_back [OF assms(1) r(1), of q] assms(4) \<open>q = p\<close> by simp
  qed
  then show ?thesis using a qp by (auto simp: between_def)
qed

lemma drop_path_spec:
  "index_ok (st_index s) S \<Longrightarrow> p \<in> S \<Longrightarrow> ancestor (st_index s) q p \<Longrightarrow>
   \<exists>s'. drop_path f q (Some p) s = Some s' \<and> keeps s s' \<and>
     set (st_candidates s') = set (st_candidates s) - between (st_index s) q p \<and>
     marked f (between (st_index s) q p) (st_index s) (st_index s') \<and> st_best_invalid s' = st_best_invalid s"
proof (induction "nat (ix_nHeight (st_index s p))" arbitrary: p s rule: less_induct)
  case less
  let ?h = "st_index s"
  show ?case
  proof (cases "p = q")
    case True
    then show ?thesis using between_self [OF less.prems(1,2)] by (subst drop_path.simps) (simp add: marked_def)
  next
    case False
    obtain r where r: "ix_pprev (?h p) = Some r" "ancestor ?h q r"
    proof (cases "ix_pprev (?h p)")
      case None then show ?thesis using False less.prems(3) ancestor_genesis [of ?h p, OF None] by simp
    next
      case (Some r) then show ?thesis using that False less.prems(3) ancestor_prev [of ?h p r, OF Some] by auto
    qed
    note rS = index_ok_prev [OF less.prems(1,2) r(1)]
    define s1 where "s1 = (if f then add_status BLOCK_FAILED_CHILD p s else s\<lparr>st_unlinked := st_unlinked s @ [(r, p)]\<rparr>)"
    let ?s2 = "erase_candidate p s1"
    have k1: "keeps s ?s2" using keeps_trans [of s s1 ?s2] by (simp add: s1_def)
    have i: "same_index ?h (st_index ?s2)" using k1 by (simp add: keeps_def)
    have m1: "marked f {p} ?h (st_index ?s2)" by (simp add: marked_def s1_def)
    have c1: "set (st_candidates ?s2) = set (st_candidates s) - {p}" "st_best_invalid ?s2 = st_best_invalid s"
      by (simp_all add: s1_def) (simp_all add: erase_candidate_def add_status_def set_entry_def)
    have pr: "ix_pprev (st_index s1 p) = Some r" using same_fields(1) [OF i, of p] r(1) by simp
    have "drop_path f q (Some p) s = drop_path f q (Some r) ?s2"
      using False pr by (subst drop_path.simps) (auto simp: s1_def r(1))
    moreover have "nat (ix_nHeight (st_index ?s2 r)) < nat (ix_nHeight (?h p))"
      using rS index_ok_height [OF less.prems(1), of r] same_fields(3) [OF i, of r] by auto
    moreover have "index_ok (st_index ?s2) S" "ancestor (st_index ?s2) q r"
      using less.prems(1) r(2) same_rules [OF i] by simp_all
    ultimately obtain s' where s': "drop_path f q (Some p) s = Some s'" "keeps ?s2 s'"
        "set (st_candidates s') = set (st_candidates ?s2) - between (st_index ?s2) q r"
        "marked f (between (st_index ?s2) q r) (st_index ?s2) (st_index s')" "st_best_invalid s' = st_best_invalid ?s2"
      using less.hyps [of ?s2 r] rS by metis
    have b: "between (st_index ?s2) q r = between ?h q r" using between_same [OF i] .
    have "between ?h q p = insert p (between ?h q r)" using between_step [OF less.prems(1,2) r] .
    then show ?thesis using s' c1 m1 keeps_trans [OF k1 s'(2)] unfolding b by (auto simp: marked_def)
  qed
qed

lemma usable_same:
  assumes "same_index h h'" "marked f X h h'" "\<And>x p. f \<Longrightarrow> x \<in> X \<Longrightarrow> ancestor h x p \<Longrightarrow> \<not> usable h c p"
  shows "usable h' c p = usable h c p"
proof
  assume "usable h' c p" then show "usable h c p"
    using assms(2) by (auto simp: usable_def marked_def same_rules [OF assms(1)])
next
  assume u: "usable h c p"
  show "usable h' c p" unfolding usable_def
  proof (intro allI impI)
    fix q assume q: "ancestor h' q p" "\<not> Contains h' c q"
    then have q': "ancestor h q p" "\<not> Contains h c q" by (simp_all add: same_rules [OF assms(1)])
    have "\<not> (f \<and> q \<in> X)" using assms(3) [OF _ _ q'(1)] u by blast
    then show "\<not> failed (h' q) \<and> have_data (h' q)" using u q' assms(2) by (auto simp: usable_def marked_def)
  qed
qed

lemma connected_same: "same_index h h' \<Longrightarrow> connected h' c p = connected h c p"
  by (simp add: connected_def same_rules same_fields)

lemma FindMostWorkChain_spec:
  "chain_inv S s \<Longrightarrow> \<forall>p \<in> set (st_candidates s). connected (st_index s) (st_active s) p \<Longrightarrow>
   \<exists>r s'. FindMostWorkChain s = Some (r, s') \<and> keeps s s' \<and>
     (\<forall>p. usable (st_index s') (st_active s) p = usable (st_index s) (st_active s) p) \<and>
     {p \<in> set (st_candidates s). usable (st_index s) (st_active s) p} \<subseteq> set (st_candidates s') \<and>
     (case r of None \<Rightarrow> st_candidates s' = []
      | Some p \<Rightarrow> st_candidates s' \<noteq> [] \<and> p = last (st_candidates s') \<and> usable (st_index s) (st_active s) p)"
proof (induction "length (st_candidates s)" arbitrary: s rule: less_induct)
  case less
  let ?h = "st_index s" and ?c = "st_active s"
  show ?case
  proof (cases "st_candidates s = []")
    case True then show ?thesis by (subst FindMostWorkChain.simps) simp
  next
    case False
    let ?p = "last (st_candidates s)"
    have pS: "?p \<in> S" "?p \<in> set (st_candidates s)" using False less.prems(1) by (auto simp: chain_inv_def)
    have ok: "index_ok ?h S" "is_chain ?h S ?c" using less.prems(1) by (simp_all add: chain_inv_def)
    obtain r where r: "test_path ?h ?c (Some ?p) = Some r" "case r of None \<Rightarrow> usable ?h ?c ?p
        | Some q \<Rightarrow> ancestor ?h q ?p \<and> \<not> Contains ?h ?c q \<and> (failed (?h q) \<or> \<not> have_data (?h q))"
      using test_path_spec [OF ok pS(1)] less.prems(2) pS(2) by blast
    show ?thesis
    proof (cases r)
      case None
      then show ?thesis using False r by (subst FindMostWorkChain.simps) (simp add: Let_def)
    next
      case (Some q)
      let ?f = "failed (?h q)"
      define s1 where "s1 = (if ?f \<and> more_work s ?p then s\<lparr>st_best_invalid := Some ?p\<rparr> else s)"
      have s1: "st_index s1 = ?h" "st_active s1 = ?c" "st_candidates s1 = st_candidates s" "keeps s s1" by (simp_all add: s1_def)
      have q: "ancestor ?h q ?p" "\<not> Contains ?h ?c q" "failed (?h q) \<or> \<not> have_data (?h q)" using r(2) Some by simp_all
      obtain s2 where s2: "drop_path ?f q (Some ?p) s1 = Some s2" "keeps s1 s2"
          "set (st_candidates s2) = set (st_candidates s) - between ?h q ?p" "marked ?f (between ?h q ?p) ?h (st_index s2)"
        using drop_path_spec [of s1 S ?p q ?f] ok(1) pS(1) q(1) s1 by auto
      let ?s3 = "erase_candidate q s2"
      have k3: "keeps s ?s3" using keeps_trans [OF keeps_trans [OF s1(4) s2(2)] keeps_erase] .
      have i3: "same_index ?h (st_index ?s3)" "st_active ?s3 = ?c" using k3 by (simp_all add: keeps_def)
      have gone: "\<not> usable ?h ?c x" if "ancestor ?h q x" for x using that q(2,3) by (auto simp: usable_def)
      have us: "usable (st_index ?s3) ?c x = usable ?h ?c x" for x
      proof (rule usable_same [OF i3(1)])
        show "marked ?f (between ?h q ?p) ?h (st_index ?s3)" using s2(4) by simp
        fix y z assume "y \<in> between ?h q ?p" "ancestor ?h y z"
        then show "\<not> usable ?h ?c z" using gone ancestor_trans [of ?h q y z] by (simp add: between_def)
      qed
      have sub: "set (st_candidates ?s3) = set (st_candidates s) - between ?h q ?p - {q}" using s2(3) by simp
      have "?p \<notin> set (st_candidates ?s3)" using sub q(1) by (auto simp: between_def)
      then have "length (st_candidates ?s3) < length (st_candidates s)"
        using k3 pS(2) unfolding keeps_def by (metis list_emb_length le_neq_implies_less subseq_same_length)
      moreover have "chain_inv S ?s3" by (rule keeps_inv [OF k3 less.prems(1)])
      moreover have "\<forall>x \<in> set (st_candidates ?s3). connected (st_index ?s3) (st_active ?s3) x"
        using less.prems(2) sub connected_same [OF i3(1)] i3(2) by simp
      ultimately obtain r' s' where s': "FindMostWorkChain ?s3 = Some (r', s')" "keeps ?s3 s'"
          "\<forall>x. usable (st_index s') ?c x = usable (st_index ?s3) ?c x"
          "{x \<in> set (st_candidates ?s3). usable (st_index ?s3) ?c x} \<subseteq> set (st_candidates s')"
          "case r' of None \<Rightarrow> st_candidates s' = []
           | Some x \<Rightarrow> st_candidates s' \<noteq> [] \<and> x = last (st_candidates s') \<and> usable (st_index ?s3) ?c x"
        using less.hyps [of ?s3] unfolding i3(2) by blast
      have "FindMostWorkChain s = Some (r', s')"
        using False r(1) s2(1) s'(1) Some by (subst FindMostWorkChain.simps) (simp add: Let_def s1_def)
      moreover have "{x \<in> set (st_candidates s). usable ?h ?c x} \<subseteq> set (st_candidates s')"
      proof
        fix x assume x: "x \<in> {x \<in> set (st_candidates s). usable ?h ?c x}"
        then have "x \<notin> between ?h q ?p" "x \<noteq> q" using gone [of x] by (auto simp: between_def)
        then show "x \<in> set (st_candidates s')" using x s'(4) sub us by auto
      qed
      ultimately show ?thesis using s'(3,5) keeps_trans [OF k3 s'(2)] unfolding us by blast
    qed
  qed
qed

text \<open>The choice is the best usable candidate.\<close>

lemma FindMostWorkChain_best:
  assumes "chain_inv S s" "\<forall>p \<in> set (st_candidates s). connected (st_index s) (st_active s) p"
  shows "\<exists>r s'. FindMostWorkChain s = Some (r, s') \<and> keeps s s' \<and>
    (case r of
       None \<Rightarrow> \<forall>q \<in> set (st_candidates s). \<not> usable (st_index s) (st_active s) q
     | Some p \<Rightarrow> p \<in> set (st_candidates s) \<and> usable (st_index s) (st_active s) p \<and>
         (\<forall>q \<in> set (st_candidates s). usable (st_index s) (st_active s) q \<longrightarrow> q = p \<or> work_less (st_index s) q p))"
proof -
  obtain r s' where r: "FindMostWorkChain s = Some (r, s')" "keeps s s'"
      "{p \<in> set (st_candidates s). usable (st_index s) (st_active s) p} \<subseteq> set (st_candidates s')"
      "case r of None \<Rightarrow> st_candidates s' = []
       | Some p \<Rightarrow> st_candidates s' \<noteq> [] \<and> p = last (st_candidates s') \<and> usable (st_index s) (st_active s) p"
    using FindMostWorkChain_spec [OF assms] by blast
  have "chain_inv S s'" using keeps_inv [OF r(2) assms(1)] .
  moreover have "work_less (st_index s') = work_less (st_index s)"
    using r(2) work_less_same [of "st_index s" "st_index s'"] by (simp add: keeps_def fun_eq_iff)
  ultimately have so: "sorted_wrt (work_less (st_index s)) (st_candidates s')" by (simp add: chain_inv_def)
  have sub: "set (st_candidates s') \<subseteq> set (st_candidates s)" using r(2) subseq_set by (auto simp: keeps_def)
  show ?thesis
  proof (cases r)
    case None
    then show ?thesis using r by auto
  next
    case (Some p)
    have "q = p \<or> work_less (st_index s) q p" if "q \<in> set (st_candidates s)" "usable (st_index s) (st_active s) q" for q
      using sorted_last [OF so, of q] r(3,4) Some that by auto
    moreover have "p \<in> set (st_candidates s)" using r(4) Some sub last_in_set by auto
    ultimately show ?thesis using r Some by auto
  qed
qed

end
