(* ===== verification/IndexLemmas.thy ===== *)
theory IndexLemmas
  imports ActivateLemmas
begin

unbundle bit_operations_syntax

text \<open>
  What the links of the index depend on, and how the index grows: a new entry keeps it well formed,
  the data of a block changes no link.
\<close>

section \<open>Links\<close>

definition same_links :: "CBlockIndex \<Rightarrow> CBlockIndex \<Rightarrow> bool" where
  "same_links b b' \<longleftrightarrow> ix_pprev b' = ix_pprev b \<and> ix_pskip b' = ix_pskip b \<and> ix_nHeight b' = ix_nHeight b \<and> ix_hash b' = ix_hash b"

lemma same_entry_links: "same_entry b b' \<Longrightarrow> same_links b b'"
  by (simp add: same_entry_def same_links_def)

lemma same_links_refl [simp]: "same_links b b" by (simp add: same_links_def)

lemma same_links_trans: "same_links b b' \<Longrightarrow> same_links b' b'' \<Longrightarrow> same_links b b''"
  by (simp add: same_links_def)

definition index_links :: "index_heap \<Rightarrow> index_heap \<Rightarrow> bool" where
  "index_links h h' \<longleftrightarrow> (\<forall>p. same_links (h p) (h' p))"

lemma index_links_refl [simp]: "index_links h h" by (simp add: index_links_def)

lemma index_links_trans: "index_links h h' \<Longrightarrow> index_links h' h'' \<Longrightarrow> index_links h h''"
  unfolding index_links_def using same_links_trans by blast

lemma same_index_links: "same_index h h' \<Longrightarrow> index_links h h'"
  by (simp add: same_index_def index_links_def same_entry_links)

lemma index_links_upd: "index_links h h' \<Longrightarrow> same_links (h' p) b \<Longrightarrow> index_links h (h'(p := b))"
  using same_links_trans by (auto simp: index_links_def)

lemma link_fields:
  assumes "index_links h h'"
  shows "ix_pprev (h' p) = ix_pprev (h p)" "ix_pskip (h' p) = ix_pskip (h p)" "ix_nHeight (h' p) = ix_nHeight (h p)"
    "ix_hash (h' p) = ix_hash (h p)"
  using assms by (simp_all add: index_links_def same_links_def)

lemma walk_back_links: "index_links h h' \<Longrightarrow> walk_back h' n p = walk_back h n p"
  by (induction n arbitrary: p) (auto simp: link_fields split: option.split)

lemma index_ok_links: "index_links h h' \<Longrightarrow> index_ok h' S = index_ok h S"
  by (auto simp: index_ok_def entry_linked_def link_fields walk_back_links split: option.split)

lemma is_chain_links: "index_links h h' \<Longrightarrow> is_chain h' S c = is_chain h S c"
  by (simp add: is_chain_def path_to_def link_fields walk_back_links)

lemmas link_rules = walk_back_links index_ok_links is_chain_links

text \<open>The setters of an entry.\<close>

lemma setter_links [simp]:
  "same_links b (snd (RaiseValidity v b))" "same_links b (SetProofOfStake b)" "same_links b (snd (SetStakeEntropyBit e b))"
  "same_links b (SetStakeModifier m g b)"
  by (simp_all add: RaiseValidity_def SetProofOfStake_def SetStakeEntropyBit_def SetStakeModifier_def same_links_def Let_def)

section \<open>A new entry\<close>

lemma CBlockIndex_of_links: "ix_pprev (CBlockIndex_of block) = None" "ix_nHeight (CBlockIndex_of block) = 0"
  by (simp_all add: CBlockIndex_of_def CBlockIndex_Null_def SetProofOfStake_def Let_def)

lemma back_insert:
  assumes "index_ok h S" "p \<notin> S" "\<And>x. x \<noteq> p \<Longrightarrow> h' x = h x"
  shows "q \<in> S \<Longrightarrow> walk_back h' n q = walk_back h n q"
proof -
  have "h' = h(p := h' p)" using assms(3) by auto
  then show "q \<in> S \<Longrightarrow> walk_back h' n q = walk_back h n q" using back_other [OF assms(1,2), of q "h' p" n] by simp
qed

lemma index_ok_root:
  assumes "index_ok h S" "p \<notin> S" "ix_pprev b = None" "ix_nHeight b = 0" shows "index_ok (h(p := b)) (insert p S)"
  unfolding index_ok_def
proof
  fix x assume x: "x \<in> insert p S"
  show "entry_linked (h(p := b)) (insert p S) x"
  proof (cases "x = p")
    case True then show ?thesis using assms(3,4) by (simp add: entry_linked_def)
  next
    case False
    then have "x \<in> S" "entry_linked h S x" using x assms(1) by (auto simp: index_ok_def)
    then show ?thesis using False back_other [OF assms(1,2)] assms(2)
      by (fastforce simp: entry_linked_def split: option.splits)
  qed
qed

lemma link_parent_spec:
  assumes "index_ok h S" "p \<notin> S" "q \<in> S" "link_parent env x q p (h(p := e)) = Some h'" "ix_hash e = x"
  shows "index_ok h' (insert p S) \<and> (\<forall>y. y \<noteq> p \<longrightarrow> h' y = h y) \<and> ix_hash (h' p) = x \<and> ix_pprev (h' p) = Some q \<and>
    ix_nHeight (h' p) = ix_nHeight (h q) + 1"
proof -
  let ?b = "e\<lparr>ix_pprev := Some q, ix_nHeight := ix_nHeight (h q) + 1\<rparr>"
  have qp: "q \<noteq> p" using assms(2,3) by auto
  obtain h2 where h2: "BuildSkip (h(p := ?b)) p = Some h2" "index_ok h2 (insert p S)" "\<forall>y. y \<noteq> p \<longrightarrow> h2 y = h y"
      "h2 p = ?b\<lparr>ix_pskip := ix_pskip (h2 p)\<rparr>"
    using BuildSkip_linked [OF assms(1,2), of ?b q] assms(3) by auto
  obtain b7 where b7: "h' = h2(p := b7)" "same_links (h2 p) b7"
  proof -
    obtain trust where t: "GetBlockTrust (h2 p) = Some trust"
      using assms(4) qp h2(1) by (auto simp: link_parent_def Let_def split: option.splits)
    let ?b3 = "(h2 p)\<lparr>ix_bnChainTrust := ix_bnChainTrust (h2 q) + trust\<rparr>"
    let ?b4 = "snd (SetStakeEntropyBit (GetStakeEntropyBit ?b3) ?b3)"
    let ?b5 = "if index_IsProofOfStake ?b4 then ?b4\<lparr>ix_hashProofOfStake := se_proof env x\<rparr> else ?b4"
    obtain m g where m: "se_modifier env (h2(p := ?b5)) q = (m, g)" by fastforce
    let ?b6 = "SetStakeModifier m g ?b5"
    have "h' = h2(p := ?b6\<lparr>ix_nStakeModifierChecksum := se_checksum env (h2(p := ?b6)) p\<rparr>)"
      using assms(4) qp h2(1) t m unfolding link_parent_def Let_def by simp
    moreover have "same_links (h2 p) ?b3" by (simp add: same_links_def)
    then have "same_links (h2 p) ?b4" using setter_links(3) same_links_trans by blast
    then have "same_links (h2 p) ?b5" by (simp add: same_links_def)
    then have "same_links (h2 p) ?b6" using setter_links(4) same_links_trans by blast
    then have "same_links (h2 p) (?b6\<lparr>ix_nStakeModifierChecksum := se_checksum env (h2(p := ?b6)) p\<rparr>)" by (simp add: same_links_def)
    ultimately show thesis by (rule that)
  qed
  have "index_links h2 h'" unfolding b7(1) using b7(2) by (intro index_links_upd) simp_all
  then have ok: "index_ok h' (insert p S)" using index_ok_links h2(2) by blast
  have "ix_hash (h2 p) = x" "ix_pprev (h2 p) = Some q" "ix_nHeight (h2 p) = ix_nHeight (h q) + 1"
    using assms(5) by (subst h2(4); simp)+
  then show ?thesis using ok h2(3) b7 by (simp add: same_links_def)
qed

lemma AddToBlockIndex_spec:
  assumes "index_ok (st_index s) S" "p \<notin> S" "\<forall>x \<in> set (st_map s). snd x \<in> S"
    "AddToBlockIndex env block x p s = Some (r, s')" "map_of (st_map s) x = None"
  shows "r = p \<and> index_ok (st_index s') (insert p S) \<and> (\<forall>y. y \<noteq> p \<longrightarrow> st_index s' y = st_index s y) \<and>
    ix_hash (st_index s' p) = x \<and> ix_pprev (st_index s' p) = map_of (st_map s) (hashPrevBlock block) \<and>
    ix_nHeight (st_index s' p) = (case map_of (st_map s) (hashPrevBlock block) of None \<Rightarrow> 0 | Some q \<Rightarrow> ix_nHeight (st_index s q) + 1) \<and>
    st_map s' = st_map s @ [(x, p)] \<and> st_active s' = st_active s \<and> st_coins s' = st_coins s \<and>
    st_candidates s' = st_candidates s \<and> st_unlinked s' = st_unlinked s"
proof -
  let ?h = "st_index s" and ?e = "(CBlockIndex_of block)\<lparr>ix_nSequenceId := 0, ix_hash := x\<rparr>"
  let ?m = "map_of (st_map s) (hashPrevBlock block)"
  obtain h1 where h1: "(case ?m of None \<Rightarrow> Some (?h(p := ?e)) | Some q \<Rightarrow> link_parent env x q p (?h(p := ?e))) = Some h1"
    using assms(4,5) by (auto simp: AddToBlockIndex_def Let_def split: option.splits)
  have i1: "index_ok h1 (insert p S) \<and> (\<forall>y. y \<noteq> p \<longrightarrow> h1 y = ?h y) \<and> ix_hash (h1 p) = x \<and> ix_pprev (h1 p) = ?m \<and>
      ix_nHeight (h1 p) = (case ?m of None \<Rightarrow> 0 | Some q \<Rightarrow> ix_nHeight (?h q) + 1)"
  proof (cases ?m)
    case None
    then show ?thesis using h1 index_ok_root [OF assms(1,2), of ?e] by (auto simp: CBlockIndex_of_links)
  next
    case (Some q)
    then have "q \<in> S" using assms(3) map_of_SomeD by fastforce
    then show ?thesis using link_parent_spec [OF assms(1,2), of q env x ?e h1] h1 Some by simp
  qed
  obtain proof1 where pr: "GetBlockProof (ix_nBits (h1 p)) = Some proof1"
    using assms(4,5) h1 unfolding AddToBlockIndex_def Let_def by (auto split: option.splits)
  let ?b1 = "(h1 p)\<lparr>ix_nChainWork := (case ix_pprev (h1 p) of None \<Rightarrow> 0 | Some q \<Rightarrow> ix_nChainWork (h1 q)) + proof1\<rparr>"
  let ?b2 = "snd (RaiseValidity BLOCK_VALID_TREE ?b1)"
  let ?best = "case st_best_header s of None \<Rightarrow> Some p
      | Some q \<Rightarrow> if ix_nChainWork ((h1(p := ?b2)) q) < ix_nChainWork ?b2 then Some p else Some q"
  have "AddToBlockIndex env block x p s =
      Some (p, mark_dirty p (s\<lparr>st_index := h1(p := ?b2), st_map := st_map s @ [(x, p)], st_best_header := ?best\<rparr>))"
    unfolding AddToBlockIndex_def Let_def assms(5) by (simp add: h1 pr)
  then have r: "r = p" "s' = mark_dirty p (s\<lparr>st_index := h1(p := ?b2), st_map := st_map s @ [(x, p)], st_best_header := ?best\<rparr>)"
    using assms(4) by simp_all
  have "same_links (h1 p) ?b1" by (simp add: same_links_def)
  then have l: "same_links (h1 p) ?b2" using setter_links(1) same_links_trans by blast
  then have "index_links h1 (h1(p := ?b2))" by (intro index_links_upd) simp_all
  then have ok: "index_ok (h1(p := ?b2)) (insert p S)" using index_ok_links i1 by blast
  have f: "st_index s' = h1(p := ?b2)" "st_map s' = st_map s @ [(x, p)]" "st_active s' = st_active s" "st_coins s' = st_coins s"
    "st_candidates s' = st_candidates s" "st_unlinked s' = st_unlinked s"
    by (simp_all add: r(2) mark_dirty_def)
  show ?thesis unfolding f using r(1) ok i1 l by (simp add: same_links_def)
qed

end
