(* ===== verification/LedgerLemmas.thy ===== *)
theory LedgerLemmas
  imports IndexLemmas
begin

unbundle bit_operations_syntax

text \<open>
  The interface between chain selection and the coins: a ledger whose connections and disconnections
  follow an abstract relation \<open>reflects h t c\<close>, the coins \<open>c\<close> are those of the chain that ends in \<open>t\<close>.
  From its laws follows that the coins belong to the active chain after every operation that moves
  the tip, whatever the operation returns. The laws are discharged for the coins of the node in
  \<open>NodeLedger\<close>.
\<close>

section \<open>The state\<close>

text \<open>
  Entries of the chain, the candidates, the map and the unlinked blocks belong to a well-formed index;
  the order of the candidates plays no part here.
\<close>

definition linked_in :: "ptr set \<Rightarrow> 'c chain_state \<Rightarrow> bool" where
  "linked_in S s \<longleftrightarrow> (\<forall>x \<in> set (st_unlinked s). snd x \<in> S)"

lemma linked_in_upd [simp]:
  "linked_in S (s\<lparr>st_active := c\<rparr>) = linked_in S s" "linked_in S (s\<lparr>st_coins := x\<rparr>) = linked_in S s"
  "linked_in S (s\<lparr>st_candidates := cs\<rparr>) = linked_in S s" "linked_in S (s\<lparr>st_index := h\<rparr>) = linked_in S s"
  "linked_in S (s\<lparr>st_dirty := d\<rparr>) = linked_in S s" "linked_in S (s\<lparr>st_best_invalid := b\<rparr>) = linked_in S s"
  by (simp_all add: linked_in_def)

definition chain_ok :: "ptr set \<Rightarrow> 'c chain_state \<Rightarrow> bool" where
  "chain_ok S s \<longleftrightarrow> index_ok (st_index s) S \<and> is_chain (st_index s) S (st_active s) \<and>
     set (st_candidates s) \<subseteq> S \<and> (\<forall>x \<in> set (st_map s). snd x \<in> S) \<and> linked_in S s"

text \<open>A change that keeps the coins and the active chain, and adds no candidate.\<close>

definition eases :: "'c chain_state \<Rightarrow> 'c chain_state \<Rightarrow> bool" where
  "eases s s' \<longleftrightarrow> same_index (st_index s) (st_index s') \<and> st_active s' = st_active s \<and> st_coins s' = st_coins s \<and>
     st_map s' = st_map s \<and> set (st_candidates s') \<subseteq> set (st_candidates s) \<and>
     (\<forall>S. index_ok (st_index s) S \<longrightarrow> set (st_candidates s) \<subseteq> S \<longrightarrow> linked_in S s \<longrightarrow> linked_in S s')"

lemma eases_refl [simp]: "eases s s" by (simp add: eases_def)

lemma eases_trans: "eases s s' \<Longrightarrow> eases s' s'' \<Longrightarrow> eases s s''"
  unfolding eases_def using same_index_trans index_ok_same by (metis order_trans)

lemma eases_ok: "eases s s' \<Longrightarrow> chain_ok S s \<Longrightarrow> chain_ok S s'"
  by (auto simp: eases_def chain_ok_def same_rules)

lemma chain_ok_same:
  "same_index (st_index s) (st_index s') \<Longrightarrow> st_active s' = st_active s \<Longrightarrow> st_candidates s' = st_candidates s \<Longrightarrow>
   st_map s' = st_map s \<Longrightarrow> st_unlinked s' = st_unlinked s \<Longrightarrow> chain_ok S s \<Longrightarrow> chain_ok S s'"
  by (simp add: chain_ok_def linked_in_def same_rules)

lemma keeps_eases: "keeps s s' \<Longrightarrow> st_unlinked s' = st_unlinked s \<Longrightarrow> eases s s'"
  by (simp add: keeps_def eases_def linked_in_def subseq_set)

lemma eases_simps [simp]:
  "eases s (add_status f p s)" "eases s (mark_dirty p s)" "eases s (clear_failed p s)" "eases s (s\<lparr>st_best_invalid := b\<rparr>)"
  "eases s (erase_candidate p s)"
  by (rule keeps_eases, simp, simp add: add_status_def mark_dirty_def clear_failed_def set_entry_def erase_candidate_def)+

section \<open>The tip\<close>

lemma chain_tip:
  assumes "chain_ok S s" "Tip (st_active s) = Some p"
  shows "p \<in> S \<and> st_active s = path_to (st_index s) p"
proof -
  have "st_active s \<noteq> []" using assms(2) by (auto simp: Tip_def)
  then obtain t where "t \<in> S" "st_active s = path_to (st_index s) t" using assms(1) by (auto simp: chain_ok_def is_chain_def)
  then show ?thesis using Tip_path [of "st_index s" S t] assms by (simp add: chain_ok_def)
qed

lemma UpdateTip_chain:
  assumes "chain_ok S s" "UpdateTip t s = Some s'" "\<And>p. t = Some p \<Longrightarrow> p \<in> S"
  shows "\<exists>p. t = Some p \<and> s' = s\<lparr>st_active := path_to (st_index s) p\<rparr> \<and> Tip (st_active s') = t \<and> chain_ok S s'"
proof (cases t)
  case None
  then show ?thesis using assms(2) by (simp add: UpdateTip_def SetTip_def Tip_def)
next
  case (Some p)
  have ok: "index_ok (st_index s) S" "is_chain (st_index s) S (st_active s)" "p \<in> S"
    using assms(1,3) Some by (simp_all add: chain_ok_def)
  have "s' = s\<lparr>st_active := path_to (st_index s) p\<rparr>"
    using assms(2) Some SetTip_path [OF ok] Tip_path [OF ok(1,3)] by (simp add: UpdateTip_def)
  then show ?thesis using assms(1) Some ok Tip_path [OF ok(1,3)] by (auto simp: chain_ok_def is_chain_def)
qed

text \<open>A change that may move the tip.\<close>

definition moves :: "'c chain_state \<Rightarrow> 'c chain_state \<Rightarrow> bool" where
  "moves s s' \<longleftrightarrow> same_index (st_index s) (st_index s') \<and> st_map s' = st_map s"

lemma moves_refl [simp]: "moves s s" by (simp add: moves_def)

lemma moves_trans: "moves s s' \<Longrightarrow> moves s' s'' \<Longrightarrow> moves s s''"
  unfolding moves_def using same_index_trans by metis

lemma eases_moves: "eases s s' \<Longrightarrow> moves s s'" by (simp add: eases_def moves_def)

lemma Prune_eases: "PruneBlockIndexCandidates s = Some s' \<Longrightarrow> eases s s'"
  by (auto simp: PruneBlockIndexCandidates_def eases_def Let_def dest: set_dropWhileD split: if_splits option.splits)

lemma InvalidChainFound_eases: "InvalidChainFound p s = Some s' \<Longrightarrow> eases s s'"
  by (auto simp: InvalidChainFound_def Let_def split: option.splits if_splits)

lemma InvalidBlockFound_eases:
  assumes "InvalidBlockFound p e s = Some s'" shows "eases s s'"
proof -
  let ?s1 = "erase_candidate p (mark_dirty p (add_status BLOCK_FAILED_VALID p s))"
  have "eases s ?s1" using eases_trans [OF eases_trans [OF eases_simps(1) eases_simps(2)] eases_simps(5)] .
  then show ?thesis using assms InvalidChainFound_eases [of p ?s1 s'] eases_trans [of s ?s1 s']
    by (auto simp: InvalidBlockFound_def split: if_splits)
qed

section \<open>The interface\<close>

locale ledger_laws =
  fixes lg :: "'c ledger" and blk :: "uint256 \<Rightarrow> CBlock"
    and reflects :: "ptr set \<Rightarrow> index_heap \<Rightarrow> ptr option \<Rightarrow> 'c \<Rightarrow> bool"
    and admits :: "CBlockIndex \<Rightarrow> bool"
  assumes read_law: "index_ok h S \<Longrightarrow> p \<in> S \<Longrightarrow> reflects S h t c \<Longrightarrow>
      lg_read lg (h p) = Some block \<Longrightarrow> block = blk (ix_hash (h p))"
    and connect_law: "index_ok h S \<Longrightarrow> p \<in> S \<Longrightarrow> reflects S h (ix_pprev (h p)) c \<Longrightarrow>
      lg_connect lg h p (blk (ix_hash (h p))) a c = Inr (b, c') \<Longrightarrow> same_entry (h p) b \<and> reflects S h (Some p) c'"
    and disconnect_law: "index_ok h S \<Longrightarrow> p \<in> S \<Longrightarrow> reflects S h (Some p) c \<Longrightarrow>
      lg_disconnect lg h p (blk (ix_hash (h p))) c = (e, c') \<Longrightarrow>
      (e = None \<longrightarrow> ix_pprev (h p) \<noteq> None) \<and> reflects S h (if e = None then ix_pprev (h p) else Some p) c'"
    and flush_law: "index_ok h S \<Longrightarrow> p \<in> S \<Longrightarrow> reflects S h (Some p) c \<Longrightarrow>
      \<exists>c'. lg_flush lg a c = Some c' \<and> reflects S h (Some p) c'"
    and frame_law: "index_ok h S \<Longrightarrow> (\<And>q. t = Some q \<Longrightarrow> q \<in> S) \<Longrightarrow> S \<subseteq> S' \<Longrightarrow>
      (\<And>q. q \<in> S \<Longrightarrow> same_links (h q) (h' q)) \<Longrightarrow> (\<And>q. q \<in> S' \<Longrightarrow> q \<notin> S \<Longrightarrow> admits (h' q)) \<Longrightarrow>
      reflects S h t c \<Longrightarrow> reflects S' h' t c"
begin

definition safe :: "ptr set \<Rightarrow> 'c chain_state \<Rightarrow> bool" where
  "safe S s \<longleftrightarrow> chain_ok S s \<and> reflects S (st_index s) (Tip (st_active s)) (st_coins s)"

lemma frame_links:
  "index_ok h S \<Longrightarrow> (\<And>q. t = Some q \<Longrightarrow> q \<in> S) \<Longrightarrow> index_links h h' \<Longrightarrow> reflects S h t c \<Longrightarrow> reflects S h' t c"
  by (rule frame_law [of h S t S]) (auto simp: index_links_def)

lemma frame_same:
  "index_ok h S \<Longrightarrow> (\<And>q. t = Some q \<Longrightarrow> q \<in> S) \<Longrightarrow> same_index h h' \<Longrightarrow> reflects S h t c \<Longrightarrow> reflects S h' t c"
  by (rule frame_links [of h S t]) (auto simp: same_index_links)

lemma safe_tip: "safe S s \<Longrightarrow> Tip (st_active s) = Some q \<Longrightarrow> q \<in> S"
  using chain_tip by (auto simp: safe_def)

lemma safe_eases:
  assumes "eases s s'" "safe S s" shows "safe S s'"
proof -
  have "reflects S (st_index s') (Tip (st_active s)) (st_coins s)"
    by (rule frame_same [of "st_index s"]) (use assms safe_tip in \<open>auto simp: safe_def chain_ok_def eases_def\<close>)
  then show ?thesis using eases_ok [OF assms(1)] assms by (simp add: safe_def eases_def)
qed

lemma DisconnectTip_safe:
  assumes "safe S s" "DisconnectTip lg s = Some (e, s')"
  shows "safe S s' \<and> moves s s' \<and> st_index s' = st_index s \<and> st_candidates s' = st_candidates s \<and>
    (\<exists>p. Tip (st_active s) = Some p \<and> Tip (st_active s') = (if e = None then ix_pprev (st_index s p) else Some p))"
proof -
  let ?h = "st_index s"
  obtain p where p: "Tip (st_active s) = Some p" using assms(2) by (auto simp: DisconnectTip_def split: option.splits)
  have inv: "chain_ok S s" "index_ok ?h S" "reflects S ?h (Some p) (st_coins s)"
    using assms(1) p by (auto simp: safe_def chain_ok_def)
  have pS: "p \<in> S" using chain_tip [OF inv(1) p] by simp
  show ?thesis
  proof (cases "lg_read lg (?h p)")
    case None
    then show ?thesis using assms p by (auto simp: DisconnectTip_def)
  next
    case (Some block)
    then have b: "block = blk (ix_hash (?h p))" using read_law [OF inv(2) pS inv(3)] by blast
    obtain x c where d: "lg_disconnect lg ?h p block (st_coins s) = (x, c)" by fastforce
    have r: "reflects S ?h (if x = None then ix_pprev (?h p) else Some p) c"
      and par: "x = None \<Longrightarrow> ix_pprev (?h p) \<noteq> None"
      using disconnect_law [OF inv(2) pS inv(3)] d b by blast+
    show ?thesis
    proof (cases x)
      case (Some y)
      then show ?thesis using assms p \<open>lg_read lg (?h p) = Some block\<close> d r inv(1)
        by (auto simp: DisconnectTip_def safe_def chain_ok_def moves_def split: if_splits)
    next
      case None
      obtain c' where c': "lg_flush lg True c = Some c'" "reflects S ?h (ix_pprev (?h p)) c'"
        using flush_law [OF inv(2), of _ c True] index_ok_prev [OF inv(2) pS] r par None by fastforce
      have u: "UpdateTip (ix_pprev (?h p)) (s\<lparr>st_coins := c'\<rparr>) = Some s'" "e = None"
        using assms(2) p \<open>lg_read lg (?h p) = Some block\<close> d None c'(1) by (auto simp: DisconnectTip_def)
      have "chain_ok S (s\<lparr>st_coins := c'\<rparr>)" using inv(1) by (simp add: chain_ok_def)
      moreover have "q \<in> S" if "ix_pprev (?h p) = Some q" for q using index_ok_prev [OF inv(2) pS that] by simp
      ultimately obtain q where "ix_pprev (?h p) = Some q" "s' = s\<lparr>st_coins := c', st_active := path_to ?h q\<rparr>"
          "Tip (st_active s') = ix_pprev (?h p)" "chain_ok S s'"
        using UpdateTip_chain [OF _ u(1), of S] by auto
      then show ?thesis using c'(2) p u(2) by (auto simp: safe_def moves_def)
    qed
  qed
qed

lemma ConnectTip_safe:
  assumes "safe S s" "p \<in> S" "\<And>b. pblock = Some b \<Longrightarrow> b = blk (ix_hash (st_index s p))"
    "ConnectTip lg p pblock a s = Some (e, s')"
  shows "safe S s' \<and> moves s s' \<and> Tip (st_active s') = (if e = None then Some p else Tip (st_active s))"
proof -
  let ?h = "st_index s"
  have inv: "chain_ok S s" "index_ok ?h S" "reflects S ?h (ix_pprev (?h p)) (st_coins s)" "ix_pprev (?h p) = Tip (st_active s)"
    using assms(1,4) by (auto simp: safe_def chain_ok_def ConnectTip_def split: if_splits)
  let ?a = "if pblock = None then False else a"
  show ?thesis
  proof (cases "case pblock of None \<Rightarrow> lg_read lg (?h p) | Some b \<Rightarrow> Some b")
    case None
    then show ?thesis using assms(1,4) inv(4) by (auto simp: ConnectTip_def)
  next
    case (Some block)
    then have b: "block = blk (ix_hash (?h p))"
      using assms(3) read_law [OF inv(2) assms(2) inv(3)] by (auto split: option.splits)
    show ?thesis
    proof (cases "lg_connect lg ?h p block ?a (st_coins s)")
      case (Inl x)
      then have "e = Some x" "(if IsInvalid x then InvalidBlockFound p x s else Some s) = Some s'"
        using assms(4) inv(4) Some by (auto simp: ConnectTip_def Let_def split: if_splits)
      then have "eases s s'" using InvalidBlockFound_eases by (auto split: if_splits)
      then show ?thesis using \<open>e = Some x\<close> safe_eases [OF _ assms(1)] eases_moves by (auto simp: eases_def)
    next
      case (Inr y)
      obtain b1 c where y: "y = (b1, c)" by (cases y)
      have l: "same_entry (?h p) b1" "reflects S ?h (Some p) c"
        using connect_law [OF inv(2) assms(2) inv(3)] Inr y b by blast+
      define s1 where "s1 = (mark_dirty p (set_entry p b1 s))\<lparr>st_coins := c\<rparr>"
      have i1: "same_index ?h (st_index s1)" using l(1) by (simp add: s1_def mark_dirty_def set_entry_def same_index_def)
      have s1: "chain_ok S s1" "st_candidates s1 = st_candidates s" "st_map s1 = st_map s" "st_coins s1 = c"
        using chain_ok_same [OF i1 _ _ _ _ inv(1)] by (simp_all add: s1_def mark_dirty_def set_entry_def)
      let ?al = "case ix_pprev b1 of None \<Rightarrow> False | Some q \<Rightarrow> block_file b1 \<noteq> block_file (st_index s1 q)"
      obtain c' where c': "lg_flush lg ?al c = Some c'" "reflects S ?h (Some p) c'" using flush_law [OF inv(2) assms(2) l(2), of ?al] by blast
      have u: "UpdateTip (Some p) (s1\<lparr>st_coins := c'\<rparr>) = Some s'" "e = None"
      proof -
        have "ConnectTip lg p pblock a s = (case lg_flush lg ?al c of None \<Rightarrow> Some (Some (Failed ''''), s1)
            | Some c' \<Rightarrow> map_option (\<lambda>s'. (None, s')) (UpdateTip (Some p) (s1\<lparr>st_coins := c'\<rparr>)))"
          unfolding ConnectTip_def Let_def s1_def using inv(4) Some Inr y by simp
        then have "map_option (\<lambda>s'. (None, s')) (UpdateTip (Some p) (s1\<lparr>st_coins := c'\<rparr>)) = Some (e, s')"
          using assms(4) c'(1) by simp
        then show "UpdateTip (Some p) (s1\<lparr>st_coins := c'\<rparr>) = Some s'" "e = None" by auto
      qed
      have "chain_ok S (s1\<lparr>st_coins := c'\<rparr>)" using s1(1) by (simp add: chain_ok_def)
      then obtain q where "Some p = Some q" "s' = s1\<lparr>st_coins := c'\<rparr>\<lparr>st_active := path_to (st_index (s1\<lparr>st_coins := c'\<rparr>)) q\<rparr>"
          "Tip (st_active s') = Some p" "chain_ok S s'"
        using UpdateTip_chain [OF _ u(1)] assms(2) by blast
      then show ?thesis using frame_same [OF inv(2) _ i1 c'(2)] assms(2) u(2) i1 s1 by (simp add: safe_def moves_def)
    qed
  qed
qed


lemma disconnect_loop_safe:
  "disconnect_loop lg' f s = Some y \<Longrightarrow> lg' = lg \<Longrightarrow> safe S s \<Longrightarrow> safe S (snd y) \<and> moves s (snd y)"
proof (induction lg' f s y rule: disconnect_loop.raw_induct [rotated -1, consumes 1, case_names step])
  case (step dl lg' f s y)
  show ?case
  proof (cases "Tip (st_active s) \<noteq> None \<and> Tip (st_active s) \<noteq> f")
    case True
    then obtain e s1 where d: "DisconnectTip lg s = Some (e, s1)" using step.hyps step.prems by (auto split: option.splits)
    have s1: "safe S s1" "moves s s1" using DisconnectTip_safe [OF step.prems(2) d] by simp_all
    show ?thesis
    proof (cases e)
      case (Some x) then show ?thesis using step.hyps step.prems(1) True d s1 by auto
    next
      case None
      then have "dl lg f s1 = Some y" using step.hyps step.prems(1) True d by simp
      then show ?thesis using step.IH s1 moves_trans by blast
    qed
  next
    case False then show ?thesis using step.hyps step.prems by (auto split: if_splits)
  qed
qed

lemma collect_in:
  "collect_loop h n it acc = Some v \<Longrightarrow> index_ok h S \<Longrightarrow> set acc \<subseteq> S \<Longrightarrow> (\<And>p. it = Some p \<Longrightarrow> p \<in> S) \<Longrightarrow> set v \<subseteq> S"
proof (induction h n it acc v rule: collect_loop.raw_induct [rotated -1, consumes 1, case_names step])
  case (step cl h n it acc v)
  show ?case
  proof (cases it)
    case None then show ?thesis using step by simp
  next
    case (Some p)
    then have p: "p \<in> S" using step.prems(3) by simp
    show ?thesis
    proof (cases "ix_nHeight (h p) = n")
      case True then show ?thesis using step Some by simp
    next
      case False
      then have "cl h n (ix_pprev (h p)) (acc @ [p]) = Some v" using step.hyps Some by simp
      then show ?thesis using step.IH step.prems(1,2) p index_ok_prev [OF step.prems(1) p] by auto
    qed
  qed
qed

lemma connect_batch_safe:
  "connect_batch lg m pblock a old low ps s = Some (r, s') \<Longrightarrow> safe S s \<Longrightarrow> set ps \<subseteq> S \<Longrightarrow>
   (\<And>b. pblock = Some b \<Longrightarrow> b = blk (ix_hash (st_index s m))) \<Longrightarrow> safe S s' \<and> moves s s'"
proof (induction ps arbitrary: s)
  case Nil then show ?case by auto
next
  case (Cons p ps)
  let ?b = "if p = m then pblock else None"
  obtain e s1 where c: "ConnectTip lg p ?b a s = Some (e, s1)" using Cons.prems(1) by (auto split: option.splits)
  have "safe S s1 \<and> moves s s1 \<and> Tip (st_active s1) = (if e = None then Some p else Tip (st_active s))"
    by (rule ConnectTip_safe [OF Cons.prems(2) _ _ c]) (use Cons.prems(3,4) in \<open>auto split: if_splits\<close>)
  then have s1: "safe S s1" "moves s s1" by simp_all
  show ?case
  proof (cases e)
    case (Some x)
    show ?thesis
    proof (cases "IsInvalid x \<and> \<not> CorruptionPossible x")
      case True
      then have "InvalidChainFound low s1 = Some s'" using Cons.prems(1) c Some by auto
      then have "eases s1 s'" by (rule InvalidChainFound_eases)
      then show ?thesis using safe_eases [OF _ s1(1)] moves_trans [OF s1(2)] eases_moves by blast
    next
      case False
      then have "s' = s1" using Cons.prems(1) c Some by (auto split: if_splits)
      then show ?thesis using s1 by simp
    qed
  next
    case None
    obtain s2 where s2: "PruneBlockIndexCandidates s1 = Some s2" using Cons.prems(1) c None by (auto split: option.splits)
    have k: "eases s1 s2" using Prune_eases [OF s2] .
    have 2: "safe S s2" "moves s s2" using safe_eases [OF k s1(1)] moves_trans [OF s1(2) eases_moves [OF k]] by simp_all
    have h: "ix_hash (st_index s2 m) = ix_hash (st_index s m)" using 2(2) by (simp add: moves_def same_fields)
    show ?thesis
    proof (cases "connect_batch lg m pblock a old low ps s2 = Some (r, s')")
      case True
      then show ?thesis using Cons.IH [OF True 2(1)] Cons.prems(3,4) h moves_trans [OF 2(2)] by auto
    next
      case False
      then have "s' = s2" using Cons.prems(1) c None s2 by (auto split: option.splits if_splits)
      then show ?thesis using 2 by simp
    qed
  qed
qed

lemma GetAncestor_in:
  assumes "index_ok h S" "p \<in> S" "GetAncestor h p n = Some (Some q)" shows "q \<in> S"
  using assms(3) GetAncestor_back [OF assms(1,2), of n] back_height [OF assms(1,2)] by (auto split: if_splits)

lemma connect_loop_safe:
  "connect_loop lg' m pblock a old n s = Some y \<Longrightarrow> lg' = lg \<Longrightarrow> safe S s \<Longrightarrow> m \<in> S \<Longrightarrow>
   (\<And>b. pblock = Some b \<Longrightarrow> b = blk (ix_hash (st_index s m))) \<Longrightarrow> safe S (snd y) \<and> moves s (snd y)"
proof (induction lg' m pblock a old n s y rule: connect_loop.raw_induct [rotated -1, consumes 1, case_names step])
  case (step cl lg' m pblock a old n s y)
  let ?h = "st_index s" and ?n = "min (n + 32) (ix_nHeight (st_index s m))"
  show ?case
  proof (cases "n = ix_nHeight (?h m)")
    case True then show ?thesis using step by auto
  next
    case False
    have ok: "index_ok ?h S" using step.prems(2) by (simp add: safe_def chain_ok_def)
    obtain it where it: "GetAncestor ?h m ?n = Some it" using step.hyps False by (auto simp: Let_def split: option.splits)
    obtain v where v: "collect_loop ?h n it [] = Some v" using step.hyps False it by (auto simp: Let_def split: option.splits)
    have "set v \<subseteq> S" by (rule collect_in [OF v ok]) (use GetAncestor_in [OF ok step.prems(3)] it in auto)
    then have vS: "set (rev v) \<subseteq> S" by simp
    obtain r s1 where b: "connect_batch lg m pblock a old (last v) (rev v) s = Some (r, s1)"
      using step.hyps step.prems(1) False it v by (auto simp: Let_def split: option.splits)
    have s1: "safe S s1" "moves s s1" using connect_batch_safe [OF b step.prems(2) vS step.prems(4)] by simp_all
    show ?thesis
    proof (cases r)
      case Go
      then have "cl lg m pblock a old ?n s1 = Some y" using step.hyps step.prems(1) False it v b by (simp add: Let_def)
      moreover have "ix_hash (st_index s1 m) = ix_hash (?h m)" using s1(2) by (simp add: moves_def same_fields)
      ultimately show ?thesis using step.IH s1 step.prems(3,4) moves_trans by metis
    next
      case Halt then show ?thesis using step.hyps step.prems(1) False it v b s1 by (auto simp: Let_def)
    next
      case (Bad e) then show ?thesis using step.hyps step.prems(1) False it v b s1 by (auto simp: Let_def)
    qed
  qed
qed

lemma ActivateBestChainStep_safe:
  assumes "ActivateBestChainStep lg m pblock a s = Some (e, s')" "safe S s" "m \<in> S"
    and "\<And>b. pblock = Some b \<Longrightarrow> b = blk (ix_hash (st_index s m))"
  shows "safe S s' \<and> moves s s'"
proof -
  obtain f where f: "FindFork (st_index s) (st_active s) m = Some f"
    using assms(1) by (auto simp: ActivateBestChainStep_def Let_def split: option.splits)
  obtain x s1 where d: "disconnect_loop lg f s = Some (x, s1)"
    using assms(1) f by (auto simp: ActivateBestChainStep_def Let_def split: option.splits)
  have s1: "safe S s1" "moves s s1" using disconnect_loop_safe [OF d refl assms(2)] by simp_all
  show ?thesis
  proof (cases x)
    case (Some z) then show ?thesis using assms(1) f d s1 by (simp add: ActivateBestChainStep_def Let_def)
  next
    case None
    have h: "ix_hash (st_index s1 m) = ix_hash (st_index s m)" using s1(2) by (simp add: moves_def same_fields)
    obtain a' n where "connect_loop lg m pblock a' (Tip (st_active s)) n s1 = Some (e, s')"
      using assms(1) f d None by (auto simp: ActivateBestChainStep_def Let_def)
    from connect_loop_safe [OF this refl s1(1) assms(3)] show ?thesis using assms(4) h moves_trans [OF s1(2)] by simp
  qed
qed

end

lemma eases_cands: "eases s s' \<Longrightarrow> set (st_candidates s') \<subseteq> set (st_candidates s)"
  by (simp add: eases_def)

lemma drop_path_keeps:
  "drop_path f q p s = Some s' \<Longrightarrow> keeps s s' \<and>
   (\<forall>S. index_ok (st_index s) S \<longrightarrow> (\<forall>r. p = Some r \<longrightarrow> r \<in> S) \<longrightarrow> linked_in S s \<longrightarrow> linked_in S s')"
proof (induction f q p s s' rule: drop_path.raw_induct [rotated -1, consumes 1, case_names step])
  case (step dp f q p s s')
  show ?case
  proof (cases p)
    case None then show ?thesis using step by simp
  next
    case (Some r)
    show ?thesis
    proof (cases "r = q")
      case True then show ?thesis using step Some by simp
    next
      case False
      obtain s1 where s1: "(if f then Some (add_status BLOCK_FAILED_CHILD r s)
          else map_option (\<lambda>q. s\<lparr>st_unlinked := st_unlinked s @ [(q, r)]\<rparr>) (ix_pprev (st_index s r))) = Some s1"
        using step.hyps Some False by (auto split: option.splits)
      let ?e = "erase_candidate r s1"
      have d: "dp f q (ix_pprev (st_index s1 r)) ?e = Some s'" using step Some False s1 by auto
      have k: "keeps s s1" using s1 by (auto split: if_splits)
      have i: "same_index (st_index s) (st_index s1)" using k by (simp add: keeps_def)
      have u: "linked_in S ?e" if "r \<in> S" "linked_in S s" for S
        using s1 that by (auto simp: linked_in_def erase_candidate_def add_status_def set_entry_def split: if_splits)
      have "linked_in S s'" if S: "index_ok (st_index s) S" "r \<in> S" "linked_in S s" for S
      proof -
        have "index_ok (st_index ?e) S" using index_ok_same [OF i] S(1) by simp
        moreover have "\<forall>x. ix_pprev (st_index s1 r) = Some x \<longrightarrow> x \<in> S" using same_fields(1) [OF i] index_ok_prev [OF S(1,2)] by simp
        ultimately show ?thesis using step.IH [OF d] u [OF S(2,3)] by blast
      qed
      then show ?thesis using step.IH [OF d] keeps_trans [OF keeps_trans [OF k keeps_erase]] Some by blast
    qed
  qed
qed

lemma FindMostWorkChain_eases:
  "FindMostWorkChain s = Some y \<Longrightarrow> eases s (snd y) \<and> (\<forall>p. fst y = Some p \<longrightarrow> p \<in> set (st_candidates s))"
proof (induction s y rule: FindMostWorkChain.raw_induct [rotated -1, consumes 1, case_names step])
  case (step fm s y)
  show ?case
  proof (cases "st_candidates s = []")
    case True then show ?thesis using step.hyps by auto
  next
    case False
    let ?p = "last (st_candidates s)"
    obtain r where r: "test_path (st_index s) (st_active s) (Some ?p) = Some r"
      using step.hyps False by (auto simp: Let_def split: option.splits)
    show ?thesis
    proof (cases r)
      case None then show ?thesis using step.hyps False r by (auto simp: Let_def)
    next
      case (Some q)
      define s1 where "s1 = (if failed (st_index s q) \<and> more_work s ?p then s\<lparr>st_best_invalid := Some ?p\<rparr> else s)"
      have k1: "eases s s1" "st_candidates s1 = st_candidates s" by (simp_all add: s1_def)
      obtain s2 where s2: "drop_path (failed (st_index s q)) q (Some ?p) s1 = Some s2" "fm (erase_candidate q s2) = Some y"
        using step.hyps False r Some unfolding s1_def by (auto simp: Let_def split: option.splits)
      have "eases s1 s2" using drop_path_keeps [OF s2(1)] subseq_set k1(2) last_in_set [OF False]
        unfolding eases_def keeps_def by fastforce
      then have k: "eases s (erase_candidate q s2)" using eases_trans [OF eases_trans [OF k1(1)]] eases_simps(5) by blast
      show ?thesis using step.IH [OF s2(2)] eases_trans [OF k] eases_cands [OF k] by blast
    qed
  qed
qed

context ledger_laws
begin

text \<open>Whatever \<^verbatim>\<open>ActivateBestChain\<close> returns, the coins are those of the active chain.\<close>

lemma ActivateBestChain_safe:
  "ActivateBestChain lg' hashf pblock a s = Some y \<Longrightarrow> lg' = lg \<Longrightarrow> safe S s \<Longrightarrow>
   (\<And>b. pblock = Some b \<Longrightarrow> blk (hashf b) = b) \<Longrightarrow> safe S (snd y) \<and> moves s (snd y)"
proof (induction lg' hashf pblock a s y rule: ActivateBestChain.raw_induct [rotated -1, consumes 1, case_names step])
  case (step ab lg' hashf pblock a s y)
  obtain r s1 where f: "FindMostWorkChain s = Some (r, s1)" using step.hyps by (auto split: option.splits)
  have k: "eases s s1" "\<And>p. r = Some p \<Longrightarrow> p \<in> S"
    using FindMostWorkChain_eases [OF f] step.prems(2) by (auto simp: safe_def chain_ok_def)
  have s1: "safe S s1" "moves s s1" using safe_eases [OF k(1) step.prems(2)] eases_moves [OF k(1)] by simp_all
  show ?case
  proof (cases "\<exists>m. r = Some m \<and> Some m \<noteq> Tip (st_active s1)")
    case False
    then consider "r = None" | m where "r = Some m" "Tip (st_active s1) = Some m" by (metis option.exhaust)
    then have "y = (None, s1)" using step.hyps f by cases auto
    then show ?thesis using s1 by simp
  next
    case True
    then obtain m where m: "r = Some m" "Some m \<noteq> Tip (st_active s1)" by blast
    let ?b = "block_for hashf pblock (st_index s1 m)"
    obtain e s2 where st: "ActivateBestChainStep lg m ?b a s1 = Some (e, s2)"
      using step.hyps step.prems(1) f m by (auto split: option.splits)
    have "safe S s2 \<and> moves s1 s2"
      by (rule ActivateBestChainStep_safe [OF st s1(1)]) (use k(2) m step.prems(3) in \<open>auto simp: block_for_def split: option.splits if_splits\<close>)
    then have s2: "safe S s2" "moves s s2" using moves_trans [OF s1(2)] by simp_all
    show ?thesis
    proof (cases e)
      case (Some x) then show ?thesis using step.hyps step.prems(1) f m st s2 by auto
    next
      case None
      show ?thesis
      proof (cases "Some m = Tip (st_active s2)")
        case False
        then have "ab lg hashf pblock a s2 = Some y"
          using step.hyps step.prems(1) f m st None by (auto split: if_splits)
        then show ?thesis using step.IH s2 step.prems(3) moves_trans by metis
      next
        case True
        obtain c where c: "lg_flush lg False (st_coins s2) = Some c" "reflects S (st_index s2) (Tip (st_active s2)) c"
          using flush_law [of "st_index s2" S m "st_coins s2" False] s2(1) True chain_tip by (metis safe_def chain_ok_def)
        have "y = (None, s2\<lparr>st_coins := c\<rparr>)"
          using step.hyps step.prems(1) f m st None True [symmetric] c(1) by auto
        then show ?thesis using c(2) s2 by (auto simp: safe_def chain_ok_def moves_def)
      qed
    qed
  qed
qed

section \<open>The other operations\<close>

text \<open>A change of status, candidates or flags that leaves tip and coins alone.\<close>

definition settles :: "ptr set \<Rightarrow> 'c chain_state \<Rightarrow> 'c chain_state \<Rightarrow> bool" where
  "settles S s s' \<longleftrightarrow> chain_ok S s' \<and> index_links (st_index s) (st_index s') \<and> st_active s' = st_active s \<and>
     st_coins s' = st_coins s \<and> st_map s' = st_map s"

lemma settles_trans: "settles S s s' \<Longrightarrow> settles S s' s'' \<Longrightarrow> settles S s s''"
  using index_links_trans by (auto simp: settles_def)

lemma settles_inv: "settles S s s' \<Longrightarrow> chain_ok S s'"
  by (simp add: settles_def)

lemma settles_eases: "eases s s' \<Longrightarrow> chain_ok S s \<Longrightarrow> settles S s s'"
  using eases_ok same_index_links by (auto simp: settles_def eases_def)

lemma settles_insert: "chain_ok S s \<Longrightarrow> p \<in> S \<Longrightarrow> settles S s (insert_candidate p s)"
  by (simp add: settles_def insert_candidate_def chain_ok_def)

lemma settles_safe: "safe S s \<Longrightarrow> settles S s s' \<Longrightarrow> safe S s'"
  using frame_links [of "st_index s" S "Tip (st_active s)" "st_index s'" "st_coins s"] safe_tip
  by (auto simp: safe_def settles_def chain_ok_def)

lemma readd_settles:
  "chain_ok S s \<Longrightarrow> set qs \<subseteq> S \<Longrightarrow> settles S s (foldl (readd t) s qs)"
proof (induction qs arbitrary: s)
  case Nil then show ?case by (simp add: settles_def)
next
  case (Cons q qs)
  have "settles S s (readd t s q)" using settles_insert [of S s q] Cons.prems by (auto simp: readd_def settles_def)
  moreover from this have "settles S (readd t s q) (foldl (readd t) (readd t s q) qs)"
    using Cons.IH Cons.prems(2) by (simp add: settles_def)
  ultimately show ?case using settles_trans by simp
qed

lemma invalidate_loop_safe:
  "invalidate_loop lg' p s = Some y \<Longrightarrow> lg' = lg \<Longrightarrow> safe S s \<Longrightarrow> safe S (snd y) \<and> moves s (snd y)"
proof (induction lg' p s y rule: invalidate_loop.raw_induct [rotated -1, consumes 1, case_names step])
  case (step il lg' p s y)
  show ?case
  proof (cases "Contains (st_index s) (st_active s) p")
    case False then show ?thesis using step by auto
  next
    case True
    obtain t where t: "Tip (st_active s) = Some t" using step.hyps True by (auto split: option.splits)
    let ?s = "erase_candidate t (mark_dirty t (add_status BLOCK_FAILED_CHILD t s))"
    have k: "eases s ?s" using eases_trans [OF eases_trans [OF eases_simps(1) eases_simps(2)] eases_simps(5)] .
    obtain e s1 where d: "DisconnectTip lg ?s = Some (e, s1)" using step.hyps step.prems(1) True t by (auto split: option.splits)
    have s1: "safe S s1" "moves s s1"
      using DisconnectTip_safe [OF safe_eases [OF k step.prems(2)] d] moves_trans [OF eases_moves [OF k]] by blast+
    show ?thesis
    proof (cases e)
      case (Some x) then show ?thesis using step.hyps step.prems(1) True t d s1 by auto
    next
      case None
      then have "il lg p s1 = Some y" using step.hyps step.prems(1) True t d by simp
      then show ?thesis using step.IH s1 moves_trans by blast
    qed
  qed
qed

lemma InvalidateBlock_safe:
  assumes "safe S s" "InvalidateBlock lg p s = Some (e, s')"
  shows "safe S s' \<and> st_map s' = st_map s"
proof -
  let ?s = "erase_candidate p (mark_dirty p (add_status BLOCK_FAILED_VALID p s))"
  have k: "eases s ?s" using eases_trans [OF eases_trans [OF eases_simps(1) eases_simps(2)] eases_simps(5)] .
  obtain x s1 where i: "invalidate_loop lg p ?s = Some (x, s1)" using assms(2) by (auto simp: InvalidateBlock_def split: option.splits)
  have s1: "safe S s1" "moves s s1"
    using invalidate_loop_safe [OF i refl safe_eases [OF k assms(1)]] moves_trans [OF eases_moves [OF k]] by simp_all
  show ?thesis
  proof (cases x)
    case (Some z) then show ?thesis using assms(2) i s1 by (simp add: InvalidateBlock_def moves_def)
  next
    case None
    obtain t where t: "InvalidChainFound p (foldl (readd t) s1 (map snd (st_map s1))) = Some s'"
      using assms(2) i None by (auto simp: InvalidateBlock_def split: option.splits)
    have m: "st_map s1 = st_map s" using s1(2) by (simp add: moves_def)
    have r: "settles S s1 (foldl (readd t) s1 (map snd (st_map s1)))"
      by (rule readd_settles) (use s1(1) m in \<open>auto simp: safe_def chain_ok_def\<close>)
    have "settles S s1 s'"
      by (rule settles_trans [OF r settles_eases [OF InvalidChainFound_eases [OF t] settles_inv [OF r]]])
    then show ?thesis using settles_safe [OF s1(1)] m by (simp add: settles_def)
  qed
qed

lemma reconsider_one_settles:
  assumes "reconsider_one p n q s = Some s'" "chain_ok S s" "q \<in> S" shows "settles S s s'"
proof -
  let ?s = "mark_dirty q (clear_failed q s)"
  have k: "settles S s ?s" using settles_eases [OF eases_trans [OF eases_simps(3) eases_simps(2)] assms(2)] .
  have i: "settles S s (insert_candidate q ?s)" using settles_trans [OF k settles_insert [OF settles_inv [OF k] assms(3)]] .
  have b: "settles S s (x\<lparr>st_best_invalid := None\<rparr>)" if "settles S s x" for x
    using that settles_trans [OF that settles_eases [OF eases_simps(4) settles_inv [OF that]]] by blast
  have refl: "settles S s s" using assms(2) by (simp add: settles_def)
  show ?thesis using assms(1) k i b refl
    by (auto simp: reconsider_one_def Let_def split: if_splits option.splits)
qed

lemma reconsider_all_settles:
  "reconsider_all p n qs s = Some s' \<Longrightarrow> chain_ok S s \<Longrightarrow> set qs \<subseteq> S \<Longrightarrow> settles S s s'"
proof (induction qs arbitrary: s)
  case Nil then show ?case by (simp add: settles_def)
next
  case (Cons q qs)
  obtain s1 where s1: "reconsider_one p n q s = Some s1" "reconsider_all p n qs s1 = Some s'"
    using Cons.prems(1) by (auto split: option.splits)
  have 1: "settles S s s1" using reconsider_one_settles [OF s1(1) Cons.prems(2)] Cons.prems(3) by simp
  then have "settles S s1 s'" using Cons.IH [OF s1(2)] Cons.prems(3) by (simp add: settles_def)
  then show ?case using settles_trans [OF 1] by blast
qed

lemma clear_ancestors_eases: "clear_ancestors p s = Some s' \<Longrightarrow> eases s s'"
proof (induction p s s' rule: clear_ancestors.raw_induct [rotated -1, consumes 1, case_names step])
  case (step ca p s s')
  show ?case
  proof (cases p)
    case None then show ?thesis using step.hyps by simp
  next
    case (Some q)
    let ?s = "if failed (st_index s q) then mark_dirty q (clear_failed q s) else s"
    have "eases ?s s'" using step.IH step.hyps Some by (auto simp: Let_def)
    moreover have "eases s (mark_dirty q (clear_failed q s))" by (rule eases_trans [OF eases_simps(3) eases_simps(2)])
    then have "eases s ?s" by simp
    ultimately show ?thesis using eases_trans by blast
  qed
qed

lemma ReconsiderBlock_safe:
  assumes "safe S s" "ReconsiderBlock p s = Some s'" shows "safe S s'"
proof -
  obtain s1 where s1: "reconsider_all p (ix_nHeight (st_index s p)) (map snd (st_map s)) s = Some s1"
      "clear_ancestors (Some p) s1 = Some s'"
    using assms(2) by (auto simp: ReconsiderBlock_def split: option.splits)
  have "settles S s s1" by (rule reconsider_all_settles [OF s1(1)]) (use assms(1) in \<open>auto simp: safe_def chain_ok_def\<close>)
  then show ?thesis using safe_eases [OF clear_ancestors_eases [OF s1(2)]] settles_safe [OF assms(1)] by blast
qed

lemma disconnect_rounds_safe: "disconnect_rounds lg n s = Some s' \<Longrightarrow> safe S s \<Longrightarrow> safe S s'"
proof (induction n arbitrary: s)
  case (Suc n)
  obtain e s1 where d: "DisconnectTip lg s = Some (e, s1)" "disconnect_rounds lg n s1 = Some s'"
    using Suc.prems(1) by (auto split: option.splits)
  show ?case using Suc.IH [OF d(2)] DisconnectTip_safe [OF Suc.prems(2) d(1)] by blast
qed simp

section \<open>New blocks\<close>

lemma settles_like:
  assumes "settles S s s'" "st_index x = st_index s'" "st_active x = st_active s'" "st_coins x = st_coins s'"
    "st_map x = st_map s'" "st_candidates x = st_candidates s'" "linked_in S s' \<Longrightarrow> linked_in S x"
  shows "settles S s x"
  using assms unfolding settles_def chain_ok_def by metis

lemma set_entry_settles:
  assumes "chain_ok S s" "same_links (st_index s p) b" shows "settles S s (set_entry p b s)"
proof -
  have "index_links (st_index s) ((st_index s)(p := b))" using assms(2) by (intro index_links_upd) simp_all
  then show ?thesis using assms(1) link_rules by (simp add: settles_def chain_ok_def set_entry_def)
qed

lemma link_block_settles:
  assumes "chain_ok S s" "p \<in> S" shows "settles S s (link_block p s)"
proof -
  let ?b = "(st_index s p)\<lparr>ix_nChainTx := (case ix_pprev (st_index s p) of None \<Rightarrow> 0 | Some q \<Rightarrow> ix_nChainTx (st_index s q)) +
      ix_nTx (st_index s p), ix_nSequenceId := st_seq s\<rparr>"
  let ?s = "(set_entry p ?b s)\<lparr>st_seq := st_seq s + 1\<rparr>"
  have "settles S s (set_entry p ?b s)" using assms(1) by (rule set_entry_settles) (simp add: same_links_def)
  then have 1: "settles S s ?s" by (rule settles_like) (simp_all add: linked_in_def)
  have "settles S s (insert_candidate p ?s)" by (rule settles_trans [OF 1 settles_insert [OF settles_inv [OF 1] assms(2)]])
  then show ?thesis using 1 by (simp add: link_block_def Let_def split: option.split)
qed

lemma link_loop_settles:
  "link_loop queue s = Some s' \<Longrightarrow> chain_ok S s \<Longrightarrow> set queue \<subseteq> S \<Longrightarrow> settles S s s'"
proof (induction queue s s' rule: link_loop.raw_induct [rotated -1, consumes 1, case_names step])
  case (step ll queue s s')
  show ?case
  proof (cases queue)
    case Nil then show ?thesis using step.hyps step.prems by (simp add: settles_def)
  next
    case (Cons p rest)
    let ?s1 = "link_block p s"
    let ?found = "map snd (filter (\<lambda>x. fst x = p) (st_unlinked ?s1))"
    let ?s2 = "?s1\<lparr>st_unlinked := filter (\<lambda>x. fst x \<noteq> p) (st_unlinked ?s1)\<rparr>"
    have l: "ll (rest @ ?found) ?s2 = Some s'" using step.hyps Cons by (simp add: Let_def)
    have p: "p \<in> S" "set rest \<subseteq> S" using step.prems(2) Cons by auto
    have 1: "settles S s ?s1" by (rule link_block_settles [OF step.prems(1) p(1)])
    then have 2: "settles S s ?s2" by (rule settles_like) (auto simp: linked_in_def)
    have f: "set ?found \<subseteq> S" using settles_inv [OF 1] by (auto simp: chain_ok_def linked_in_def)
    then have "settles S ?s2 s'" using step.IH [OF l settles_inv [OF 2]] p(2) f by simp
    then show ?thesis by (rule settles_trans [OF 2])
  qed
qed

lemma ReceivedBlockTransactions_settles:
  assumes "ReceivedBlockTransactions block nFile nPos p s = Some s'" "chain_ok S s" "p \<in> S" shows "settles S s s'"
proof -
  let ?b0 = "st_index s p"
  let ?b1 = "if IsProofOfStake block then SetProofOfStake ?b0 else ?b0"
  let ?b2 = "?b1\<lparr>ix_nTx := word_of_nat (length (vtx block)), ix_nChainTx := 0, ix_nFile := nFile,
                  ix_nDataPos := nPos, ix_nUndoPos := 0, ix_nStatus := ix_nStatus ?b1 OR BLOCK_HAVE_DATA\<rparr>"
  let ?b3 = "snd (RaiseValidity BLOCK_VALID_TRANSACTIONS ?b2)"
  let ?s1 = "mark_dirty p (set_entry p ?b3 s)"
  have "same_links ?b0 ?b1" by simp
  then have "same_links ?b0 ?b2" by (simp add: same_links_def)
  then have "same_links ?b0 ?b3" using setter_links(1) same_links_trans by blast
  then have "settles S s (set_entry p ?b3 s)" by (rule set_entry_settles [OF assms(2)])
  then have 1: "settles S s ?s1" by (rule settles_like) (simp_all add: mark_dirty_def linked_in_def)
  have u: "settles S s (?s1\<lparr>st_unlinked := st_unlinked ?s1 @ [(q, p)]\<rparr>)" for q
    by (rule settles_like [OF 1]) (use assms(3) in \<open>auto simp: linked_in_def\<close>)
  have l: "settles S s x" if "link_loop [p] ?s1 = Some x" for x
    using settles_trans [OF 1 link_loop_settles [OF that settles_inv [OF 1]]] assms(3) by simp
  show ?thesis using assms(1) 1 u l unfolding ReceivedBlockTransactions_def Let_def by (auto split: option.splits if_splits)
qed

lemma ReceivedBlockTransactions_safe:
  "safe S s \<Longrightarrow> p \<in> S \<Longrightarrow> ReceivedBlockTransactions block nFile nPos p s = Some s' \<Longrightarrow> safe S s'"
  using ReceivedBlockTransactions_settles settles_safe by (metis safe_def)

lemma AddToBlockIndex_safe:
  assumes "safe S s" "p \<notin> S" "AddToBlockIndex env block x p s = Some (r, s')"
    and "map_of (st_map s) x = None \<Longrightarrow> admits (st_index s' p)"
  shows "safe (if map_of (st_map s) x = None then insert p S else S) s'"
proof (cases "map_of (st_map s) x")
  case (Some q)
  then show ?thesis using assms(1,3) by (simp add: AddToBlockIndex_def)
next
  case None
  have i: "index_ok (st_index s) S" "\<forall>x \<in> set (st_map s). snd x \<in> S" using assms(1) by (auto simp: safe_def chain_ok_def)
  have A: "index_ok (st_index s') (insert p S)" "\<And>y. y \<noteq> p \<Longrightarrow> st_index s' y = st_index s y"
      "st_map s' = st_map s @ [(x, p)]" "st_active s' = st_active s" "st_coins s' = st_coins s"
      "st_candidates s' = st_candidates s" "st_unlinked s' = st_unlinked s"
    using AddToBlockIndex_spec [OF i(1) assms(2) i(2) assms(3) None] by auto
  have old: "st_index s' y = st_index s y" if "y \<in> S" for y using that assms(2) A(2) by metis
  have "is_chain (st_index s') (insert p S) (st_active s)"
    using assms(1) old back_insert [OF i(1) assms(2) A(2)] by (auto simp: safe_def chain_ok_def is_chain_def path_to_def)
  then have c: "chain_ok (insert p S) s'" using A assms(1) by (auto simp: safe_def chain_ok_def linked_in_def)
  have "reflects (insert p S) (st_index s') (Tip (st_active s)) (st_coins s)"
  proof (rule frame_law [OF i(1)])
    show "reflects S (st_index s) (Tip (st_active s)) (st_coins s)" using assms(1) by (simp add: safe_def)
    show "admits (st_index s' q)" if "q \<in> insert p S" "q \<notin> S" for q using that assms(4) [OF None] by auto
  qed (use safe_tip [OF assms(1)] old in auto)
  then show ?thesis using c A(4,5) None by (simp add: safe_def)
qed

end

end
