(* ===== verification/StakeFlags.thy ===== *)
theory StakeFlags
  imports Node
begin

text \<open>
  The coins up to their coinstake flags. \<^verbatim>\<open>DisconnectBlock\<close> does not restore the flag of a record
  that was spent entirely, so the coins after a reorganisation are those of the chain only when the
  flags are left aside. What connecting and disconnecting do to the coins does not depend on them:
  the lemmas here say so, and that a disconnection that succeeds brings back the coins of before
  the block from any coins that agree with those of after it.
\<close>

section \<open>Coins without their flags\<close>

definition noflag :: "utxo_map \<Rightarrow> utxo_map" where
  "noflag u t = map_option unstake (u t)"

lemma noflag_None: "noflag u = noflag v \<Longrightarrow> u t = None \<longleftrightarrow> v t = None"
  by (metis noflag_def option.map_disc_iff)

lemma noflag_Some:
  assumes "noflag u = noflag v" "u t = Some c" obtains b where "v t = Some (c\<lparr>fCoinStake := b\<rparr>)"
proof -
  have "map_option unstake (v t) = Some (unstake c)" using assms by (metis noflag_def option.simps(9))
  then obtain d where d: "v t = Some d" "unstake d = unstake c" by auto
  then have "d = c\<lparr>fCoinStake := fCoinStake d\<rparr>" by (cases d; cases c) simp
  then show thesis using d(1) that by metis
qed

lemma noflag_upd: "noflag u = noflag v \<Longrightarrow> map_option unstake x = map_option unstake y \<Longrightarrow>
    noflag (u(t := x)) = noflag (v(t := y))"
  by (auto simp: noflag_def fun_eq_iff)

lemma IsPruned_flag [simp]: "IsPruned (c\<lparr>fCoinStake := b\<rparr>) = IsPruned c"
  by (simp add: IsPruned_def)

lemma live_flag: "live (c\<lparr>fCoinStake := b\<rparr>) = map_option (\<lambda>c. c\<lparr>fCoinStake := b\<rparr>) (live c)"
  by (simp add: live_def)

lemma Spend_flag:
  assumes "Spend c n = Some (c', undo)"
  shows "\<exists>undo'. Spend (c\<lparr>fCoinStake := b\<rparr>) n = Some (c'\<lparr>fCoinStake := b\<rparr>, undo')"
  using assms by (auto simp: Spend_def Let_def Cleanup_def split: if_split_asm)

lemma u_spend_noflag:
  assumes "u_spend u o1 = Some (undo, u')" "noflag u = noflag v"
  shows "\<exists>undo' v'. u_spend v o1 = Some (undo', v') \<and> noflag u' = noflag v'"
proof -
  obtain c c' where c: "u (op_hash o1) = Some c" "Spend c (unat (op_n o1)) = Some (c', undo)"
    "u' = u(op_hash o1 := live c')" using assms(1) by (rule u_spend_cases)
  obtain b where b: "v (op_hash o1) = Some (c\<lparr>fCoinStake := b\<rparr>)" using assms(2) c(1) by (rule noflag_Some)
  obtain undo' where "Spend (c\<lparr>fCoinStake := b\<rparr>) (unat (op_n o1)) = Some (c'\<lparr>fCoinStake := b\<rparr>, undo')"
    using Spend_flag [OF c(2)] by blast
  moreover have "map_option unstake (live (c'\<lparr>fCoinStake := b\<rparr>)) = map_option unstake (live c')"
    by (simp add: live_def)
  ultimately show ?thesis
    using b c(3) noflag_upd [OF assms(2), of "live c'" "live (c'\<lparr>fCoinStake := b\<rparr>)" "op_hash o1"]
    by (simp add: u_spend_def)
qed

lemma u_spends_noflag:
  "u_spends u is = Some (us, u') \<Longrightarrow> noflag u = noflag v \<Longrightarrow>
   \<exists>us' v'. u_spends v is = Some (us', v') \<and> noflag u' = noflag v'"
proof (induction "is" arbitrary: u us v)
  case (Cons i "is")
  obtain undo u1 us1 where u1: "u_spend u (prevout i) = Some (undo, u1)" "u_spends u1 is = Some (us1, u')"
    using Cons.prems(1) by (auto split: option.splits)
  obtain undo' v1 where v1: "u_spend v (prevout i) = Some (undo', v1)" "noflag u1 = noflag v1"
    using u_spend_noflag [OF u1(1) Cons.prems(2)] by blast
  then show ?case using Cons.IH [OF u1(2) v1(2)] by auto
qed auto

lemma u_update_noflag:
  assumes "u_update u tx h = Some (us, u')" "noflag u = noflag v"
  shows "\<exists>us' v'. u_update v tx h = Some (us', v') \<and> noflag u' = noflag v'"
proof -
  obtain u2 where u2: "(if spends_inputs tx then u_spends u (vin tx) else Some ([], u)) = Some (us, u2)"
    "u' = u2(GetHash tx := live (FromTx tx h))" using assms(1) by (auto simp: u_update_def)
  obtain us' v2 where "(if spends_inputs tx then u_spends v (vin tx) else Some ([], v)) = Some (us', v2)" "noflag u2 = noflag v2"
    using u2(1) assms(2) u_spends_noflag [of u "vin tx" us u2 v] by (auto split: if_splits)
  then show ?thesis using u2(2) noflag_upd [of u2 v2] by (auto simp: u_update_def)
qed

lemma u_connect_noflag:
  "u_connect u txs h = Some (uss, u') \<Longrightarrow> noflag u = noflag v \<Longrightarrow>
   \<exists>uss' v'. u_connect v txs h = Some (uss', v') \<and> noflag u' = noflag v'"
proof (induction txs arbitrary: u uss v)
  case (Cons tx txs)
  obtain us u1 uss1 where u1: "u_update u tx h = Some (us, u1)" "u_connect u1 txs h = Some (uss1, u')"
    using Cons.prems(1) by (auto split: option.splits)
  obtain us' v1 where v1: "u_update v tx h = Some (us', v1)" "noflag u1 = noflag v1"
    using u_update_noflag [OF u1(1) Cons.prems(2)] by blast
  then show ?case using Cons.IH [OF u1(2) v1(2)] by auto
qed auto

text \<open>The ids are new at each transaction in turn.\<close>

fun fresh_ids :: "utxo_map \<Rightarrow> CTransaction list \<Rightarrow> int \<Rightarrow> bool" where
  "fresh_ids u [] h = True"
| "fresh_ids u (tx # txs) h \<longleftrightarrow> u (GetHash tx) = None \<and>
     (case u_update u tx h of None \<Rightarrow> True | Some (us, u') \<Rightarrow> fresh_ids u' txs h)"

lemma fresh_ids_distinct:
  "distinct (map GetHash txs) \<Longrightarrow> \<forall>tx \<in> set txs. u (GetHash tx) = None \<Longrightarrow> fresh_ids u txs h"
proof (induction txs arbitrary: u)
  case (Cons tx txs)
  have "fresh_ids u1 txs h" if u: "u_update u tx h = Some (us, u1)" for us u1
  proof (rule Cons.IH)
    have n: "u (GetHash tx) = None" using Cons.prems(2) by simp
    show "\<forall>tx' \<in> set txs. u1 (GetHash tx') = None"
      using u_update_unspent(4) [OF u n] Cons.prems by (auto simp: image_iff)
  qed (use Cons.prems(1) in simp)
  then show ?case using Cons.prems(2) by (auto split: option.split)
qed simp

section \<open>Disconnecting whatever the flags\<close>

context utxo_view
begin

lemma modify_any:
  assumes "cinv s" "\<And>c. live c = cache_utxo utxo s t \<Longrightarrow> clean c \<Longrightarrow> IsPruned (snd (g c))"
  shows "\<exists>r s'. modify ops t (\<lambda>c. Some (g c)) s = Some (r, s') \<and> steps s ((cache_utxo utxo s)(t := None)) s'"
proof (rule modify_spec [OF assms(1), of t "\<lambda>c. Some (g c)"])
  fix c assume c: "live c = cache_utxo utxo s t" "clean c"
    and step: "\<And>r c'. Some (g c) = Some (r, c') \<Longrightarrow> (\<not> IsPruned c' \<Longrightarrow> coins_ok (Cleanup c')) \<Longrightarrow>
      \<exists>s'. modify ops t (\<lambda>c. Some (g c)) s = Some (r, s') \<and> cinv s' \<and> cache_best best s' = cache_best best s \<and>
        cache_utxo utxo s' = (cache_utxo utxo s)(t := live (Cleanup c'))"
  show ?thesis using step [of "fst (g c)" "snd (g c)"] assms(2) [OF c] by (auto simp: steps_def)
qed

lemma restore_inputs_any:
  assumes "u_spends u is = Some (us, u')" "u_ok u" "cinv s" "noflag (cache_utxo utxo s) = noflag u'"
  shows "\<exists>s'. restore_inputs ops (rev (zip is us)) f m s = Some (f, forget_spent is m, s') \<and> cinv s' \<and>
    cache_best best s' = cache_best best s \<and> noflag (cache_utxo utxo s') = noflag u"
  using assms
proof (induction "is" arbitrary: u us)
  case Nil
  moreover have "forget_spent [] m = m" by (intro ext) (simp add: forget_spent_def)
  ultimately show ?case by simp
next
  case (Cons i "is")
  let ?t = "op_hash (prevout i)" and ?n = "unat (op_n (prevout i))"
  obtain undo u1 us1 where u1: "u_spend u (prevout i) = Some (undo, u1)" "u_spends u1 is = Some (us1, u')" "us = undo # us1"
    using Cons.prems(1) by (auto split: option.splits)
  obtain s1 where s1: "restore_inputs ops (rev (zip is us1)) f m s = Some (f, forget_spent is m, s1)" "cinv s1"
    "cache_best best s1 = cache_best best s" "noflag (cache_utxo utxo s1) = noflag u1"
    using Cons.IH [OF u1(2) u_spend_ok [OF u1(1) Cons.prems(2)] Cons.prems(3,4)] by blast
  obtain c c' where c: "u ?t = Some c" "Spend c ?n = Some (c', undo)" "u1 = u(?t := live c')"
    using u1(1) by (rule u_spend_cases)
  have "\<exists>b. cache_utxo utxo s1 ?t = map_option (\<lambda>c. c\<lparr>fCoinStake := b\<rparr>) (live c')"
  proof (cases "IsPruned c'")
    case True
    then have "u1 ?t = None" using c(3) by simp
    then show ?thesis using noflag_None [OF s1(4), of ?t] True by simp
  next
    case False
    then have "u1 ?t = Some c'" using c(3) by (simp add: live_def)
    then obtain b where "cache_utxo utxo s1 ?t = Some (c'\<lparr>fCoinStake := b\<rparr>)" using noflag_Some [OF s1(4) [symmetric]] by metis
    then show ?thesis using False by (auto simp: live_def)
  qed
  then obtain b where "cache_utxo utxo s1 ?t = map_option (\<lambda>c. c\<lparr>fCoinStake := b\<rparr>) (live c')" by blast
  then obtain s2 where s2: "modify ops ?t (\<lambda>c. Some (restore_input undo ?n c)) s1 = Some (True, s2)"
    "steps s1 ((cache_utxo utxo s1)(?t \<mapsto> c\<lparr>fCoinStake := (if IsPruned c' then False else b)\<rparr>)) s2"
    using restore_one [OF s1(2) _ _ c(2)] c(1) Cons.prems(2) unfolding u_ok_def by blast
  have "noflag (cache_utxo utxo s2) = noflag u"
  proof
    fix t show "noflag (cache_utxo utxo s2) t = noflag u t"
      using s2(2) c(1,3) fun_cong [OF s1(4), of t] by (auto simp: steps_def noflag_def)
  qed
  moreover have "(forget_spent is m)(prevout i := None) = forget_spent (i # is) m"
    by (auto simp: forget_spent_def fun_eq_iff)
  ultimately show ?case using s1 s2 by (simp add: u1(3) restore_inputs_append steps_def)
qed

lemma disconnect_tx_any:
  assumes "u_update u tx h = Some (us, u1)" "u_ok u" "u (GetHash tx) = None"
    "cinv s" "noflag (cache_utxo utxo s) = noflag u1"
  shows "\<exists>f' m' s'. disconnect_tx ops h (tx, us) f m s = Inr (f', m', s') \<and> cinv s' \<and>
    cache_best best s' = cache_best best s \<and> noflag (cache_utxo utxo s') = noflag u"
proof -
  let ?t = "GetHash tx"
  obtain u2 where u2: "(if spends_inputs tx then u_spends u (vin tx) else Some ([], u)) = Some (us, u2)"
    "u1 = u2(?t := live (FromTx tx h))" using assms(1) by (auto simp: u_update_def)
  have fresh: "u2 ?t = None" using u2(1) assms(3) u_spends_None by (auto split: if_splits)
  have "IsPruned (snd (remove_outs tx h c))" for c
    by (simp add: remove_outs_def Let_def CCoins_Clear_def IsPruned_def)
  then obtain r s1 where s1: "modify ops ?t (\<lambda>c. Some (remove_outs tx h c)) s = Some (r, s1)"
    "steps s ((cache_utxo utxo s)(?t := None)) s1" using modify_any [OF assms(4), of ?t "remove_outs tx h"] by blast
  have n: "noflag (cache_utxo utxo s1) = noflag u2"
  proof
    fix t show "noflag (cache_utxo utxo s1) t = noflag u2 t"
      using s1(2) u2(2) fresh fun_cong [OF assms(5), of t] by (auto simp: steps_def noflag_def)
  qed
  show ?thesis
  proof (cases "spends_inputs tx")
    case True
    then have sp: "u_spends u (vin tx) = Some (us, u2)" using u2(1) by simp
    obtain s2 where "restore_inputs ops (rev (zip (vin tx) us)) (f \<and> r) m s1 = Some (f \<and> r, forget_spent (vin tx) m, s2)"
      "cinv s2" "cache_best best s2 = cache_best best s1" "noflag (cache_utxo utxo s2) = noflag u"
      using restore_inputs_any [OF sp assms(2) _ n] s1(2) by (auto simp: steps_def)
    then show ?thesis using True s1 u_spends_length [OF sp]
      by (simp add: disconnect_tx_def opt_sum_def spends_inputs_def steps_def)
  next
    case False
    then have "u2 = u" using u2(1) by simp
    then show ?thesis using False s1 n by (auto simp: disconnect_tx_def opt_sum_def spends_inputs_def steps_def)
  qed
qed

lemma disconnect_txs_any:
  assumes "u_connect u txs h = Some (uss, u')" "u_ok u" "fresh_ids u txs h" "list_all tx_storable txs"
    "0 < h" "h < 2 ^ 31" "cinv s" "noflag (cache_utxo utxo s) = noflag u'"
    "disconnect_txs ops h erase (rev (zip txs uss)) f m s = Inr (f', m', s')"
  shows "cinv s' \<and> cache_best best s' = cache_best best s \<and> noflag (cache_utxo utxo s') = noflag u"
  using assms(1-4,9)
proof (induction txs arbitrary: u uss f' m' s')
  case Nil
  then show ?case using assms(7,8) by auto
next
  case (Cons tx txs)
  obtain us u1 uss1 where 1: "u_update u tx h = Some (us, u1)" "u_connect u1 txs h = Some (uss1, u')" "uss = us # uss1"
    using Cons.prems(1) by (auto split: option.splits)
  have st: "tx_storable tx" "list_all tx_storable txs" "u (GetHash tx) = None" "fresh_ids u1 txs h"
    using Cons.prems(3,4) 1(1) by auto
  have u1: "u_ok u1" using u_update_ok [OF 1(1) Cons.prems(2) st(1) assms(5,6)] .
  obtain f1 m1 s1 where s1: "disconnect_txs ops h erase (rev (zip txs uss1)) f m s = Inr (f1, m1, s1)"
      "erase tx" "disconnect_tx ops h (tx, us) f1 m1 s1 = Inr (f', m', s')"
    using Cons.prems(5) by (auto simp: 1(3) disconnect_txs_append sbind_eq_Inr split: if_split_asm)
  have i: "cinv s1" "cache_best best s1 = cache_best best s" "noflag (cache_utxo utxo s1) = noflag u1"
    using Cons.IH [OF 1(2) u1 st(4,2) s1(1)] by simp_all
  show ?case using disconnect_tx_any [OF 1(1) Cons.prems(2) st(3) i(1,3), of f1 m1] s1(3) i(2) by auto
qed

lemma DisconnectBlock_any:
  assumes "u_connect u (xb_vtx b) (xb_nHeight b) = Some (uss, u')" "u_ok u" "fresh_ids u (xb_vtx b) (xb_nHeight b)"
    "list_all tx_storable (xb_vtx b)" "0 < xb_nHeight b" "xb_nHeight b < 2 ^ 31" "cinv s"
    "noflag (cache_utxo utxo s) = noflag u'" "xb_undo b = Some (tl uss)" "xb_vtx b \<noteq> []"
    "\<not> spends_inputs (hd (xb_vtx b))" "xb_prev b \<noteq> 0" "DisconnectBlock ops b m s = Inr (f, m', s')"
  shows "cinv s' \<and> noflag (cache_utxo utxo s') = noflag u \<and> hashBlock s' = xb_prev b"
proof -
  obtain h s1 where h: "cache_GetBestBlock ops s = (h, s1)" by fastforce
  have s1: "cinv s1" "noflag (cache_utxo utxo s1) = noflag u'"
    using cache_GetBestBlock_spec [OF assms(7) h] assms(8) by auto
  have uss: "uss = [] # tl uss" by (rule u_connect_first [OF assms(1,10,11)])
  obtain s2 where s2: "disconnect_txs ops (xb_nHeight b) (xb_erase b) (rev (zip (xb_vtx b) uss)) True m s1 = Inr (f, m', s2)"
      "s' = SetBestBlock (xb_prev b) s2"
    using assms(13) h uss [symmetric] assms(9)
    by (auto simp: DisconnectBlock_def sbind_eq_Inr Let_def split: if_split_asm)
  have "cinv s2 \<and> noflag (cache_utxo utxo s2) = noflag u"
    using disconnect_txs_any [OF assms(1-6) s1 s2(1)] by simp
  then show ?thesis using s2(2) by (simp add: SetBestBlock_def cache_inv_def) (simp add: SetBestBlock_simps [unfolded SetBestBlock_def])
qed

end

section \<open>The flag that is lost\<close>

text \<open>
  The comparison of \<^verbatim>\<open>DisconnectBlock\<close> sees the flag: a record whose flag was lost no longer matches
  the coinstake that created it.
\<close>

lemma remove_outs_lost:
  assumes "live d = Some (c\<lparr>fCoinStake := False\<rparr>)" "live (FromTx tx h) = Some c" "fCoinStake c"
  shows "\<not> fst (remove_outs tx h d)"
proof -
  have d: "d = c\<lparr>fCoinStake := False\<rparr>" "\<not> IsPruned d" "FromTx tx h = c" "\<not> IsPruned c"
    using assms(1,2) by (auto simp: live_def split: if_splits)
  have "\<not> fCoinStake (ClearUnspendable d)" "fCoinStake (FromTx tx h)" "\<not> IsPruned (FromTx tx h)"
    using d assms(3) by (simp_all add: ClearUnspendable_def Cleanup_def)
  then show ?thesis by (auto simp: remove_outs_def CCoins_eq_def Let_def)
qed

end
