(* ===== verification/NodeLedger.thy ===== *)
theory NodeLedger
  imports LedgerLemmas StakeFlags Compact
begin

unbundle bit_operations_syntax

text \<open>
  The ledger of the node: \<^verbatim>\<open>ConnectTip\<close> and \<^verbatim>\<open>DisconnectTip\<close> of \<^verbatim>\<open>src/src/main.cpp\<close> apply
  \<^verbatim>\<open>ConnectBlock\<close> and \<^verbatim>\<open>DisconnectBlock\<close> to a cache over \<^verbatim>\<open>pcoinsTip\<close> and flush it, \<^verbatim>\<open>ConnectBlock\<close>
  writes undo data and updates the index entry, \<^verbatim>\<open>FlushStateToDisk\<close> moves \<^verbatim>\<open>pcoinsTip\<close> to the
  database. The block files are a function from positions to blocks; the undo files a map from
  entries to records. These definitions satisfy the laws of the locale \<open>ledger_laws\<close>, where the
  coins of a chain are those that its blocks leave of an empty map.
\<close>

section \<open>The coins of the node\<close>

record node_coins =
  nc_tip :: "store cache"
  nc_stake :: stake_spent
  nc_undo :: "ptr \<Rightarrow> CTxInUndo list list option"

text \<open>
  What the operations take from elsewhere: the curve library, the block files, the hash of a block,
  the limit of the proof of work, the environment a block is connected in, the zerocoin database when
  it is disconnected, the place of new undo data, the size of the cache and the clock, and
  whether the disk can be written.
\<close>

record node_env =
  nd_pk :: pubkey_ops
  nd_file :: "int \<Rightarrow> u32 \<Rightarrow> CBlock option"
  nd_hash :: "CBlock \<Rightarrow> uint256"
  nd_skip_pow :: bool
  nd_limit :: uint256
  nd_genesis :: uint256
  nd_connect_env :: "index_heap \<Rightarrow> ptr \<Rightarrow> bool \<Rightarrow> node_coins \<Rightarrow> connect_env"
  nd_erase :: "node_coins \<Rightarrow> CTransaction \<Rightarrow> bool"
  nd_checkpoint :: "index_heap \<Rightarrow> ptr \<Rightarrow> node_coins \<Rightarrow> bool"
  nd_undo_pos :: "node_coins \<Rightarrow> u32"
  nd_nCoinCacheSize :: nat
  nd_flush_due :: "node_coins \<Rightarrow> bool"
  nd_writable :: bool

text \<open>\<^verbatim>\<open>ReadBlockFromDisk\<close>.\<close>

definition ReadBlockFromDisk :: "node_env \<Rightarrow> CBlockIndex \<Rightarrow> CBlock option" where
  "ReadBlockFromDisk nd b =
     (case (if have_data b then nd_file nd (ix_nFile b) (ix_nDataPos b) else None) of
        None \<Rightarrow> None
      | Some block \<Rightarrow>
          if IsProofOfWork block \<and> \<not> CheckProofOfWork (nd_skip_pow nd) (nd_limit nd) (nd_hash nd block) (nBits block)
          then None
          else if nd_hash nd block \<noteq> ix_hash b then None
          else Some block)"

text \<open>The entry as \<^verbatim>\<open>ConnectBlock\<close> reads it.\<close>

definition block_index_of :: "index_heap \<Rightarrow> ptr \<Rightarrow> block_index" where
  "block_index_of h p =
     \<lparr>bi_hash = Some (ix_hash (h p)), bi_nHeight = ix_nHeight (h p),
      bi_prev_hash = map_option (\<lambda>q. ix_hash (h q)) (ix_pprev (h p)),
      bi_prev_nMoneySupply = (case ix_pprev (h p) of None \<Rightarrow> 0 | Some q \<Rightarrow> ix_nMoneySupply (h q))\<rparr>"

definition have_undo :: "CBlockIndex \<Rightarrow> bool" where
  "have_undo b \<longleftrightarrow> ix_nStatus b AND BLOCK_HAVE_UNDO \<noteq> 0"

text \<open>\<^verbatim>\<open>GetUndoPos().IsNull()\<close>.\<close>

definition undo_pos_null :: "CBlockIndex \<Rightarrow> bool" where
  "undo_pos_null b \<longleftrightarrow> (if have_undo b then ix_nFile b else -1) = -1"

text \<open>What \<^verbatim>\<open>ConnectBlock\<close> writes to the entry.\<close>

definition connected_entry :: "u32 \<Rightarrow> 'v connect_result \<Rightarrow> CBlockIndex \<Rightarrow> CBlockIndex" where
  "connected_entry pos r b =
     (let b1 = b\<lparr>ix_nMoneySupply := cr_nMoneySupply r, ix_nMint := cr_nMint r\<rparr>
      in if undo_pos_null b1 \<or> \<not> index_IsValid BLOCK_VALID_SCRIPTS b1
         then snd (RaiseValidity BLOCK_VALID_SCRIPTS
                (if undo_pos_null b1
                 then b1\<lparr>ix_nUndoPos := pos, ix_nStatus := ix_nStatus b1 OR BLOCK_HAVE_UNDO\<rparr> else b1))
         else b1)"

definition node_connect :: "node_env \<Rightarrow> index_heap \<Rightarrow> ptr \<Rightarrow> CBlock \<Rightarrow> bool \<Rightarrow> node_coins \<Rightarrow>
    conn_error + CBlockIndex \<times> node_coins" where
  "node_connect nd h p block fAlreadyChecked c =
     (let ops = node_ops (nd_pk nd);
          env = (nd_connect_env nd h p fAlreadyChecked c)\<lparr>cx_HashGenesisBlock := nd_genesis nd\<rparr>;
          hash = nd_hash nd block
      in sbind (ConnectBlock ops env block hash (block_index_of h p) False (nc_stake c) (CCoinsViewCache (nc_tip c))) (\<lambda>r.
         case Flush ops (cr_view r) of
           Some (True, v) \<Rightarrow>
             if hash = nd_genesis nd then Inr (h p, c\<lparr>nc_tip := c_base v\<rparr>)
             else Inr (connected_entry (nd_undo_pos nd c) r (h p),
                    c\<lparr>nc_tip := c_base v, nc_stake := cr_stake r,
                      nc_undo := (if undo_pos_null (h p) then (nc_undo c)(p \<mapsto> cr_vtxundo r) else nc_undo c)\<rparr>)
         | _ \<Rightarrow> Inl Asserted))"

text \<open>
  Disconnecting: an unclean result is a failure, because no place for the flag is passed. An entry
  with undo data and no parent would be a null pointer.
\<close>

definition node_disconnect :: "node_env \<Rightarrow> index_heap \<Rightarrow> ptr \<Rightarrow> CBlock \<Rightarrow> node_coins \<Rightarrow> conn_error option \<times> node_coins" where
  "node_disconnect nd h p block c =
     (let ops = node_ops (nd_pk nd)
      in if \<not> undo_pos_null (h p) \<and> ix_pprev (h p) = None then (Some Asserted, c)
         else case DisconnectBlock ops
             \<lparr>xb_hash = ix_hash (h p), xb_prev = (case ix_pprev (h p) of None \<Rightarrow> 0 | Some q \<Rightarrow> ix_hash (h q)),
              xb_nHeight = ix_nHeight (h p), xb_vtx = vtx block,
              xb_undo = (if undo_pos_null (h p) then None else nc_undo c p),
              xb_erase = nd_erase nd c, xb_checkpoint = nd_checkpoint nd h p c\<rparr>
             (nc_stake c) (CCoinsViewCache (nc_tip c)) of
           Inl e \<Rightarrow> (Some e, c)
         | Inr (fClean, m, s) \<Rightarrow>
             if \<not> fClean then (Some (Failed ''''), c\<lparr>nc_stake := m\<rparr>)
             else (case Flush ops s of
                     Some (True, v) \<Rightarrow> (None, c\<lparr>nc_tip := c_base v, nc_stake := m\<rparr>)
                   | _ \<Rightarrow> (Some Asserted, c)))"

text \<open>\<^verbatim>\<open>FlushStateToDisk\<close>: the coins; the index and the file records are written before them.\<close>

definition node_flush :: "node_env \<Rightarrow> bool \<Rightarrow> node_coins \<Rightarrow> node_coins option" where
  "node_flush nd always c =
     (if always \<or> GetCacheSize (nc_tip c) > nd_nCoinCacheSize nd \<or> nd_flush_due nd c
      then if \<not> nd_writable nd then None
           else case Flush (db_ops (nd_pk nd)) (nc_tip c) of
             Some (True, v) \<Rightarrow> Some (c\<lparr>nc_tip := v\<rparr>)
           | _ \<Rightarrow> None
      else Some c)"

definition node_ledger :: "node_env \<Rightarrow> node_coins ledger" where
  "node_ledger nd = \<lparr>lg_read = ReadBlockFromDisk nd, lg_connect = node_connect nd,
     lg_disconnect = node_disconnect nd, lg_flush = node_flush nd\<rparr>"

section \<open>The coins of a chain\<close>

text \<open>The blocks, by hash and height, applied to a map in order; the genesis block leaves it alone.\<close>

fun replay :: "(uint256 \<Rightarrow> CBlock) \<Rightarrow> uint256 \<Rightarrow> utxo_map \<Rightarrow> (uint256 \<times> int) list \<Rightarrow> utxo_map option" where
  "replay blk genesis u [] = Some u"
| "replay blk genesis u ((x, n) # bs) =
     (if x = genesis then replay blk genesis u bs
      else case u_connect u (vtx (blk x)) n of
        None \<Rightarrow> None
      | Some (uss, u') \<Rightarrow> replay blk genesis u' bs)"

definition chain_blocks :: "index_heap \<Rightarrow> CChain \<Rightarrow> (uint256 \<times> int) list" where
  "chain_blocks h c = map (\<lambda>p. (ix_hash (h (the p)), ix_nHeight (h (the p)))) c"

definition chain_coins :: "(uint256 \<Rightarrow> CBlock) \<Rightarrow> uint256 \<Rightarrow> index_heap \<Rightarrow> CChain \<Rightarrow> utxo_map option" where
  "chain_coins blk genesis h c = replay blk genesis (\<lambda>t. None) (chain_blocks h c)"

lemma replay_append:
  "replay blk g u (xs @ ys) = (case replay blk g u xs of None \<Rightarrow> None | Some u' \<Rightarrow> replay blk g u' ys)"
proof (induction xs arbitrary: u)
  case (Cons x xs)
  obtain a n where x: "x = (a, n)" by fastforce
  then show ?case using Cons.IH by (cases "u_connect u (vtx (blk a)) n") auto
qed simp

lemma walk_back_on:
  assumes "index_ok h S" "\<And>q. q \<in> S \<Longrightarrow> same_links (h q) (h' q)"
  shows "p \<in> S \<Longrightarrow> walk_back h' n p = walk_back h n p"
proof (induction n arbitrary: p)
  case (Suc n)
  have "ix_pprev (h' p) = ix_pprev (h p)" using assms(2) [OF Suc.prems] by (simp add: same_links_def)
  then show ?case using Suc.IH index_ok_prev [OF assms(1) Suc.prems] by (auto split: option.split)
qed simp

lemma path_in:
  assumes "index_ok h S" "p \<in> S" "x \<in> set (path_to h p)" shows "\<exists>q. x = Some q \<and> q \<in> S"
proof -
  obtain i where i: "x = walk_back h (nat (ix_nHeight (h p)) - i) p"
    using assms(3) unfolding path_to_def set_map by (rule imageE)
  let ?n = "nat (ix_nHeight (h p)) - i"
  have "int ?n \<le> ix_nHeight (h p)" using index_ok_height [OF assms(1,2)] by linarith
  then obtain q where "walk_back h ?n p = Some q" using back_total [OF assms(1,2)] by blast
  then show ?thesis using i back_height [OF assms(1,2)] by simp
qed

lemma chain_coins_on:
  assumes "index_ok h S" "\<And>q. q \<in> S \<Longrightarrow> same_links (h q) (h' q)" "p \<in> S"
  shows "chain_coins blk g h' (path_to h' p) = chain_coins blk g h (path_to h p)"
proof -
  have "ix_nHeight (h' p) = ix_nHeight (h p)" using assms(2) [OF assms(3)] by (simp add: same_links_def)
  then have "path_to h' p = path_to h p" using walk_back_on [OF assms] by (simp add: path_to_def)
  moreover have "chain_blocks h' (path_to h p) = chain_blocks h (path_to h p)"
    using path_in [OF assms(1,3)] assms(2) by (fastforce simp: chain_blocks_def same_links_def)
  ultimately show ?thesis by (simp add: chain_coins_def)
qed

lemma path_step:
  assumes "index_ok h S" "p \<in> S" "ix_pprev (h p) = Some q" shows "path_to h p = path_to h q @ [Some p]"
proof (rule nth_equalityI)
  have q: "q \<in> S" "ix_nHeight (h p) = ix_nHeight (h q) + 1" "0 \<le> ix_nHeight (h q)"
    using index_ok_prev [OF assms] index_ok_height [OF assms(1)] by auto
  show l: "length (path_to h p) = length (path_to h q @ [Some p])" using q by (simp add: path_to_def)
  fix i assume "i < length (path_to h p)"
  then consider "i < length (path_to h q)" | "i = length (path_to h q)" using l by fastforce
  then show "path_to h p ! i = (path_to h q @ [Some p]) ! i"
  proof cases
    case 1
    then have "i \<le> nat (ix_nHeight (h q))" by (simp add: path_to_def)
    then show ?thesis using path_prefix [OF assms(1,2), of 1 q i] assms(3) 1 by (simp add: nth_append)
  next
    case 2
    then have "i = nat (ix_nHeight (h p))" using q by (simp add: path_to_def)
    then have "path_to h p ! i = Some p" using nth_path [of i h p] by simp
    then show ?thesis using 2 by (simp only: nth_append_length)
  qed
qed

lemma path_genesis:
  assumes "index_ok h S" "p \<in> S" "ix_pprev (h p) = None" shows "path_to h p = [Some p]"
  using index_ok_genesis [OF assms(1,2)] assms(3) by (simp add: path_to_def)

text \<open>The chain that ends in an entry, or none.\<close>

definition path_of :: "index_heap \<Rightarrow> ptr option \<Rightarrow> CChain" where
  "path_of h t = (case t of None \<Rightarrow> [] | Some p \<Rightarrow> path_to h p)"

lemma path_of_step: "index_ok h S \<Longrightarrow> p \<in> S \<Longrightarrow> path_of h (Some p) = path_of h (ix_pprev (h p)) @ [Some p]"
  using path_step path_genesis by (cases "ix_pprev (h p)") (auto simp: path_of_def)

lemma chain_coins_step:
  assumes "index_ok h S" "p \<in> S"
  shows "chain_coins blk g h (path_of h (Some p)) =
    (case chain_coins blk g h (path_of h (ix_pprev (h p))) of
       None \<Rightarrow> None
     | Some u \<Rightarrow> if ix_hash (h p) = g then Some u else map_option snd (u_connect u (vtx (blk (ix_hash (h p)))) (ix_nHeight (h p))))"
  by (simp add: path_of_step [OF assms] chain_coins_def chain_blocks_def replay_append split: option.split)

section \<open>Blocks on a view and their flush\<close>

lemma u_ok_noflag:
  assumes "noflag u = noflag v" "u_ok u" shows "u_ok v"
proof -
  have "coins_ok c \<and> 0 < c_nHeight c" if c: "v t = Some c" for t c
  proof -
    obtain b where b: "u t = Some (c\<lparr>fCoinStake := b\<rparr>)" using noflag_Some [OF assms(1) [symmetric] c] .
    then have "coins_ok (c\<lparr>fCoinStake := b, fCoinStake := fCoinStake c\<rparr>)" "0 < c_nHeight c"
      using assms(2) coins_ok_stake unfolding u_ok_def by fastforce+
    then show ?thesis by simp
  qed
  then show ?thesis by (simp add: u_ok_def)
qed

lemma u_connect_ok:
  "u_connect u txs h = Some (uss, u') \<Longrightarrow> u_ok u \<Longrightarrow> list_all tx_storable txs \<Longrightarrow> 0 < h \<Longrightarrow> h < 2 ^ 31 \<Longrightarrow> u_ok u'"
proof (induction txs arbitrary: u uss)
  case (Cons tx txs)
  obtain us u1 uss1 where "u_update u tx h = Some (us, u1)" "u_connect u1 txs h = Some (uss1, u')"
    using Cons.prems(1) by (auto split: option.splits)
  then show ?case using Cons.IH [of u1] u_update_ok [of u tx h us u1] Cons.prems(2-) by simp
qed simp

context utxo_view
begin

lemma new_cache [simp]:
  "valid b \<Longrightarrow> cinv (CCoinsViewCache b)" "cache_utxo utxo (CCoinsViewCache b) = utxo b"
  "cache_best best (CCoinsViewCache b) = best b"
  by (simp_all add: CCoinsViewCache_def cache_inv_def batch_ok_def cache_best_def)
    (intro ext, simp add: cache_utxo_def)

lemma flush_base:
  assumes "cinv s" "hashBlock s = x" "x \<noteq> 0"
  shows "\<exists>v. Flush ops s = Some (True, v) \<and> valid (c_base v) \<and> utxo (c_base v) = cache_utxo utxo s \<and> best (c_base v) = x"
  using Flush_spec [OF assms(1)] assms(2,3) by (auto simp: cache_inv_def)

lemma connect_flush:
  assumes "valid b" "ConnectBlock ops env block hash pindex False m (CCoinsViewCache b) = Inr r"
    "list_all tx_storable (vtx block)" "0 \<le> bi_nHeight pindex" "bi_nHeight pindex < 2 ^ 31"
    "hash \<noteq> cx_HashGenesisBlock env" "bi_hash pindex = Some hash" "hash \<noteq> 0"
  shows "\<exists>uss u v. u_connect (utxo b) (vtx block) (bi_nHeight pindex) = Some (uss, u) \<and> cr_vtxundo r = tl uss \<and>
    Flush ops (cr_view r) = Some (True, v) \<and> valid (c_base v) \<and> utxo (c_base v) = u \<and> best (c_base v) = hash \<and>
    (fEnforceBIP30 pindex \<longrightarrow> (\<forall>tx \<in> set (vtx block). utxo b (GetHash tx) = None))"
proof -
  obtain uss u s1 where *: "u_connect (utxo b) (vtx block) (bi_nHeight pindex) = Some (uss, u)"
    "cr_vtxundo r = tl uss" "cinv s1" "cache_utxo utxo s1 = u" "cr_view r = SetBestBlock hash s1"
    "fEnforceBIP30 pindex \<longrightarrow> (\<forall>tx \<in> set (vtx block). utxo b (GetHash tx) = None)"
    using ConnectBlock_spec [OF new_cache(1) [OF assms(1)] assms(2-6)] assms(7) by (auto simp: steps_def)
  then show ?thesis using flush_base [of "cr_view r" hash] assms(8) by (auto simp: SetBestBlock_def [of hash s1, symmetric])
      (simp_all add: SetBestBlock_def)
qed

lemma connect_genesis_flush:
  assumes "valid b" "ConnectBlock ops env block (cx_HashGenesisBlock env) pindex False m (CCoinsViewCache b) = Inr r"
    "bi_hash pindex = Some hash" "hash \<noteq> 0"
  shows "\<exists>v. Flush ops (cr_view r) = Some (True, v) \<and> valid (c_base v) \<and> utxo (c_base v) = utxo b \<and> best (c_base v) = hash"
proof -
  obtain x s1 where g: "cache_GetBestBlock ops (CCoinsViewCache b) = (x, s1)" by fastforce
  have s1: "cinv s1" "cache_utxo utxo s1 = utxo b"
    using cache_GetBestBlock_spec [OF new_cache(1) [OF assms(1)] g] by auto
  have "cr_view r = SetBestBlock hash s1" using assms(2,3) g by (auto simp: ConnectBlock_def sbind_eq_Inr split: if_split_asm)
  then show ?thesis using flush_base [of "cr_view r" hash] s1 assms(4) by (simp add: SetBestBlock_simps) (simp add: SetBestBlock_def)
qed

lemma disconnect_flush:
  assumes "u_connect u (xb_vtx b) (xb_nHeight b) = Some (uss, u')" "u_ok u" "fresh_ids u (xb_vtx b) (xb_nHeight b)"
    "list_all tx_storable (xb_vtx b)" "0 < xb_nHeight b" "xb_nHeight b < 2 ^ 31" "valid w"
    "noflag (utxo w) = noflag u'" "xb_undo b = Some (tl uss)" "xb_vtx b \<noteq> []"
    "\<not> spends_inputs (hd (xb_vtx b))" "xb_prev b \<noteq> 0" "DisconnectBlock ops b m (CCoinsViewCache w) = Inr (f, m', s')"
  shows "\<exists>v. Flush ops s' = Some (True, v) \<and> valid (c_base v) \<and> noflag (utxo (c_base v)) = noflag u \<and> best (c_base v) = xb_prev b"
  using DisconnectBlock_any [OF assms(1-6) new_cache(1) [OF assms(7)], of m f m' s'] assms(8-13) flush_base [of s' "xb_prev b"]
  by auto

end

end
