(* ===== verification/AcceptLemmas.thy ===== *)
theory AcceptLemmas
  imports AcceptTx MempoolLemmas NodeLedger
begin

text \<open>
  The pool as the node changes it. \<open>pool_reached\<close> are the pools that the operations lead to from the
  empty one, each transaction offered having the form of a zerocoin spend or of a spend of coins;
  all of them are consistent. What \<^verbatim>\<open>AcceptToMemoryPool\<close> takes has passed its checks, and what it
  refuses leaves the transactions of the pool as they were.
\<close>

section \<open>The transactions of a pool\<close>

definition same_pool :: "CTxMemPool \<Rightarrow> CTxMemPool \<Rightarrow> bool" where
  "same_pool p p' \<longleftrightarrow> mp_tx p' = mp_tx p \<and> mp_next p' = mp_next p \<and> mp_total p' = mp_total p"

lemma same_pool_refl [simp]: "same_pool p p" by (simp add: same_pool_def)

lemma same_pool_ok: "same_pool p p' \<Longrightarrow> pool_ok p' = pool_ok p"
  by (simp only: same_pool_def pool_ok_def)

text \<open>A zerocoin spend has no input of the chain, and any other transaction has no other.\<close>

definition pure_inputs :: "CTransaction \<Rightarrow> bool" where
  "pure_inputs tx \<longleftrightarrow> (\<forall>i \<in> set (vin tx). op_hash (prevout i) = 0 \<longleftrightarrow> tx_IsZerocoinSpend tx)"

definition pool_inv :: "CTxMemPool \<Rightarrow> bool" where
  "pool_inv pool \<longleftrightarrow> pool_ok pool \<and> (\<forall>h e. map_of (mp_tx pool) h = Some e \<longrightarrow> pure_inputs (me_tx e))"

lemma pool_inv_ok: "pool_inv p \<Longrightarrow> pool_ok p" by (simp add: pool_inv_def)

lemma pool_inv_sub: "pool_inv p \<Longrightarrow> pool_ok p' \<Longrightarrow> pool_sub p p' \<Longrightarrow> pool_inv p'"
  by (auto simp: pool_inv_def pool_sub_def)

lemma same_pool_inv: "same_pool p p' \<Longrightarrow> pool_inv p' = pool_inv p"
  by (simp add: pool_inv_def same_pool_ok) (simp add: same_pool_def)

lemma pool_inv_empty: "mp_tx p = [] \<Longrightarrow> mp_next p = [] \<Longrightarrow> mp_total p = 0 \<Longrightarrow> pool_inv p"
  by (simp add: pool_inv_def pool_ok_def)

text \<open>No output of transaction 0 is recorded as spent.\<close>

lemma pool_inv_next:
  assumes "pool_inv p" "op_hash q = 0" shows "map_of (mp_next p) q = None"
proof (rule ccontr)
  assume "map_of (mp_next p) q \<noteq> None"
  then obtain h n where "map_of (mp_next p) q = Some (h, n)" by auto
  then obtain e where e: "map_of (mp_tx p) h = Some e" "\<not> tx_IsZerocoinSpend (me_tx e)" "n < length (vin (me_tx e))"
      "prevout (vin (me_tx e) ! n) = q" using pool_next [OF pool_inv_ok [OF assms(1)]] by blast
  then have "pure_inputs (me_tx e)" using assms(1) by (simp add: pool_inv_def)
  moreover have "vin (me_tx e) ! n \<in> set (vin (me_tx e))" using e(3) by (rule nth_mem)
  ultimately show False using e assms(2) by (auto simp: pure_inputs_def)
qed

lemma addUnchecked_inv:
  assumes "pool_inv p" "GetHash (me_tx e) = h" "map_of (mp_tx p) h = None" "pure_inputs (me_tx e)"
    "\<not> tx_IsZerocoinSpend (me_tx e) \<Longrightarrow> \<forall>i \<in> set (vin (me_tx e)). map_of (mp_next p) (prevout i) = None"
  shows "pool_inv (addUnchecked h e p)"
proof -
  have n: "map_of (mp_next p) (prevout i) = None" if "i \<in> set (vin (me_tx e))" for i
    using assms(4,5) that pool_inv_next [OF assms(1)] by (cases "tx_IsZerocoinSpend (me_tx e)") (auto simp: pure_inputs_def)
  have d: "prevout i \<noteq> prevout j"
    if "\<not> tx_IsZerocoinSpend (me_tx e)" "i \<in> set (vin (me_tx e))" "map_of (mp_tx p) h' = Some e'"
      "tx_IsZerocoinSpend (me_tx e')" "j \<in> set (vin (me_tx e'))" for i h' e' j
  proof -
    have "pure_inputs (me_tx e')" using assms(1) that(3) by (simp add: pool_inv_def)
    then show ?thesis using assms(4) that by (auto simp: pure_inputs_def)
  qed
  have "pool_ok (addUnchecked h e p)"
    by (rule addUnchecked_ok [OF pool_inv_ok [OF assms(1)] assms(2,3)]) (use n d in blast)+
  moreover have "map_of (mp_tx (addUnchecked h e p)) = (map_of (mp_tx p))(h \<mapsto> e)"
    by (simp add: addUnchecked_def Let_def put_hash)
  ultimately show ?thesis using assms(1,4) by (auto simp: pool_inv_def split: if_splits)
qed

section \<open>AcceptToMemoryPool\<close>

lemma rate_limit_frame:
  "rate_limit env nSize st = (r, st') \<Longrightarrow> as_pool st' = as_pool st \<and> as_tip st' = as_tip st \<and> as_spends st' = as_spends st"
  by (auto simp: rate_limit_def Let_def split: if_splits)

lemma accept_fees_frame:
  assumes "accept_fees env nHeight fLimitFree ignoreFees tx nFees nSize v st = (r, st')"
  shows "same_pool (as_pool st) (as_pool st') \<and> as_tip st' = as_tip st \<and> as_spends st' = as_spends st"
  using assms unfolding accept_fees_def
  by (auto simp: same_pool_def PrioritiseTransaction_def Let_def dest!: rate_limit_frame
      split: if_split_asm sum.split_asm option.split_asm prod.split_asm)

lemma not_pair: "(\<forall>a b. x \<noteq> Some (a, b)) \<longleftrightarrow> x = None" by (cases x) auto

text \<open>The checks before the coins are read.\<close>

lemma accept_early_Inr:
  assumes "accept_early env s pool tx = Inr ()"
  shows "(\<exists>b. CheckTransaction (at_check env) tx b = Inr ()) \<and> \<not> IsCoinBase tx \<and> \<not> IsCoinStake tx \<and>
    (at_RequireStandard env \<longrightarrow> IsStandardTx (at_policy env) tx = Inr ()) \<and>
    map_of (mp_tx pool) (GetHash tx) = None \<and>
    (\<forall>i \<in> set (vin tx). case at_locked env (prevout i) of None \<Rightarrow> True | Some h \<Rightarrow> h = GetHash tx) \<and>
    (\<not> tx_IsZerocoinSpend tx \<longrightarrow> (\<forall>i \<in> set (vin tx). map_of (mp_next pool) (prevout i) = None))"
  using assms unfolding accept_early_def
  by (auto simp: pool_exists_def list_ex_iff not_pair option.case_eq_if prod.case_eq_if split: if_split_asm sum.split_asm)

text \<open>The limits on the fee of a transaction that is taken.\<close>

definition fees_ok :: "accept_tx_env \<Rightarrow> bool \<Rightarrow> bool \<Rightarrow> CTxMemPool \<Rightarrow> CTransaction \<Rightarrow> CAmount \<Rightarrow> bool" where
  "fees_ok env fLimitFree ignoreFees pool tx nFees \<longleftrightarrow>
     nFees \<le> GetFee (at_minRelayTxFee env) (size_tx tx) * 20000 \<and>
     (\<not> at_broadcast env (GetHash tx) \<and> \<not> ignoreFees \<and> \<not> tx_IsZerocoinSpend tx \<longrightarrow>
        (fLimitFree \<longrightarrow> GetMinRelayFee env pool tx (size_tx tx) True \<le> nFees) \<and>
        (tx_IsZerocoinMint tx \<longrightarrow> at_MintFee env * int (GetZerocoinMintCount tx) \<le> nFees))"

lemma accept_fees_Inr:
  assumes "accept_fees env nHeight fLimitFree ignoreFees tx nFees nSize v st = (Inr v', st')"
    "\<not> at_broadcast env (GetHash tx)" "\<not> ignoreFees" "\<not> tx_IsZerocoinSpend tx"
  shows "(fLimitFree \<longrightarrow> GetMinRelayFee env (as_pool st) tx nSize True \<le> nFees) \<and>
    (tx_IsZerocoinMint tx \<longrightarrow> at_MintFee env * int (GetZerocoinMintCount tx) \<le> nFees)"
  using assms unfolding accept_fees_def by (auto simp: not_less split: if_split_asm)

text \<open>A transaction that is taken: what it passed and what the state becomes.\<close>

lemma AcceptToMemoryPool_Inr:
  assumes "AcceptToMemoryPool (ops :: 'v view_ops) env s tx fLimitFree fRejectInsaneFee ignoreFees st = (Inr (), st')"
  obtains nValueIn v v1 u v2 nValueOut p and v3 :: "'v cache" where "accept_early env s (as_pool st) tx = Inr ()"
    "accept_view ops env (chain_Height (st_active s)) (as_pool st) tx (as_tip st) = (Inr nValueIn, v)"
    "accept_sigops env tx v = Inr v1" "GetValueOut tx = Some nValueOut"
    "(if tx_IsZerocoinSpend tx then Some (0, v1) else view_GetPriority dummy_ops tx (chain_Height (st_active s)) v1) = Some (u, v2)"
    "accept_scripts env s tx v3 = Inr ()"
    "fees_ok env fLimitFree ignoreFees (as_pool st) tx (pool_fees nValueIn nValueOut)" "same_pool (as_pool st) p"
    "as_pool st' = addUnchecked (GetHash tx)
       (CTxMemPoolEntry_of tx (pool_fees nValueIn nValueOut) (at_now env) 0 (word_of_int (chain_Height (st_active s)))) p"
proof -
  let ?n = "chain_Height (st_active s)"
  let ?e = "\<lambda>i o1. CTxMemPoolEntry_of tx (pool_fees i o1) (at_now env) 0 (word_of_int ?n)"
  have "\<exists>nValueIn v v1 nValueOut u v2 v3 st2.
    accept_early env s (as_pool st) tx = Inr () \<and>
    accept_view ops env ?n (as_pool st) tx (as_tip st) = (Inr nValueIn, v) \<and>
    accept_sigops env tx v = Inr v1 \<and> GetValueOut tx = Some nValueOut \<and>
    (if tx_IsZerocoinSpend tx then Some (0, v1) else view_GetPriority dummy_ops tx ?n v1) = Some (u, v2) \<and>
    accept_fees env ?n fLimitFree ignoreFees tx (pool_fees nValueIn nValueOut) (me_size (?e nValueIn nValueOut)) v2
      (st\<lparr>as_tip := c_base v\<rparr>) = (Inr v3, st2) \<and>
    accept_scripts env s tx v3 = Inr () \<and>
    \<not> pool_fees nValueIn nValueOut > GetFee (at_minRelayTxFee env) (me_size (?e nValueIn nValueOut)) * 20000 \<and>
    as_pool st' = addUnchecked (GetHash tx) (?e nValueIn nValueOut) (as_pool st2)"
    using assms unfolding AcceptToMemoryPool_def Let_def
    by (auto split: sum.split_asm prod.split_asm option.split_asm if_split_asm)
  then obtain nValueIn v v1 nValueOut u v2 v3 st2 where *:
    "accept_early env s (as_pool st) tx = Inr ()"
    "accept_view ops env ?n (as_pool st) tx (as_tip st) = (Inr nValueIn, v)"
    "accept_sigops env tx v = Inr v1" "GetValueOut tx = Some nValueOut"
    "(if tx_IsZerocoinSpend tx then Some (0, v1) else view_GetPriority dummy_ops tx ?n v1) = Some (u, v2)"
    "accept_fees env ?n fLimitFree ignoreFees tx (pool_fees nValueIn nValueOut) (me_size (?e nValueIn nValueOut)) v2
      (st\<lparr>as_tip := c_base v\<rparr>) = (Inr v3, st2)"
    "accept_scripts env s tx v3 = Inr ()"
    "\<not> pool_fees nValueIn nValueOut > GetFee (at_minRelayTxFee env) (me_size (?e nValueIn nValueOut)) * 20000"
    "as_pool st' = addUnchecked (GetHash tx) (?e nValueIn nValueOut) (as_pool st2)"
    by blast
  have size: "me_size (CTxMemPoolEntry_of tx f t d n) = size_tx tx" for f t d n by (simp add: CTxMemPoolEntry_of_def)
  have "same_pool (as_pool st) (as_pool st2)" using accept_fees_frame [OF *(6)] by simp
  moreover have "fees_ok env fLimitFree ignoreFees (as_pool st) tx (pool_fees nValueIn nValueOut)"
    using accept_fees_Inr [OF *(6)] *(8) by (auto simp: fees_ok_def size)
  ultimately show ?thesis using that [OF *(1-5,7)] *(9) by blast
qed

lemma AcceptToMemoryPool_Inl:
  assumes "AcceptToMemoryPool ops env s tx fLimitFree fRejectInsaneFee ignoreFees st = (Inl e, st')"
  shows "same_pool (as_pool st) (as_pool st') \<and> as_spends st' = as_spends st"
  using assms unfolding AcceptToMemoryPool_def Let_def
  by (auto dest!: accept_fees_frame split: sum.split_asm prod.split_asm option.split_asm if_split_asm)

lemma AcceptToMemoryPool_inv:
  assumes "AcceptToMemoryPool ops env s tx fLimitFree fRejectInsaneFee ignoreFees st = (r, st')"
    "pool_inv (as_pool st)" "pure_inputs tx"
  shows "pool_inv (as_pool st')"
proof (cases r)
  case (Inl e)
  then show ?thesis using AcceptToMemoryPool_Inl [OF assms(1) [unfolded Inl]] assms(2) same_pool_inv by blast
next
  case (Inr u)
  then have r: "r = Inr ()" by simp
  note taken = AcceptToMemoryPool_Inr [OF assms(1) [unfolded r]]
  obtain f p where e: "accept_early env s (as_pool st) tx = Inr ()" and p: "same_pool (as_pool st) p" "as_pool st' =
      addUnchecked (GetHash tx) (CTxMemPoolEntry_of tx f (at_now env) 0 (word_of_int (chain_Height (st_active s)))) p"
    by (rule taken) (rule that)
  have i: "pool_inv p" using same_pool_inv [OF p(1)] assms(2) by simp
  have "me_tx (CTxMemPoolEntry_of tx f t d n) = tx" for t d n by (simp add: CTxMemPoolEntry_of_def)
  then show ?thesis unfolding p(2) using accept_early_Inr [OF e] p(1) assms(3)
    by (intro addUnchecked_inv [OF i]) (auto simp: same_pool_def)
qed

section \<open>The pools the node can get to\<close>

definition pool_empty :: CTxMemPool where
  "pool_empty = \<lparr>mp_updated = 0, mp_total = 0, mp_tx = [], mp_next = [], mp_deltas = []\<rparr>"

inductive pool_reached :: "CTxMemPool \<Rightarrow> bool" where
  start: "pool_reached pool_empty"
| accept: "pool_reached (as_pool st) \<Longrightarrow> pure_inputs tx \<Longrightarrow>
    AcceptToMemoryPool (ops :: store cache view_ops) env (s :: node_coins chain_state) tx fLimitFree fRejectInsaneFee
      ignoreFees st = (r, st') \<Longrightarrow> pool_reached (as_pool st')"
| remove: "pool_reached p \<Longrightarrow> pool_remove tx fRecursive removed p = Some (removed', p') \<Longrightarrow> pool_reached p'"
| block: "pool_reached p \<Longrightarrow> removeForBlock txs conflicts p = Some (conflicts', p') \<Longrightarrow> pool_reached p'"
| reorganise: "pool_reached p \<Longrightarrow> removeCoinbaseSpends coins h m p = Some p' \<Longrightarrow> pool_reached p'"
| prioritise: "pool_reached p \<Longrightarrow> pool_reached (PrioritiseTransaction x d f p)"
| updated: "pool_reached p \<Longrightarrow> pool_reached (AddTransactionsUpdated n p)"
| clear: "pool_reached p \<Longrightarrow> pool_reached (pool_clear p)"

lemma pool_reached_inv: "pool_reached p \<Longrightarrow> pool_inv p"
proof (induction rule: pool_reached.induct)
  case start
  show ?case by (rule pool_inv_empty) (simp_all add: pool_empty_def)
next
  case (accept st tx ops env s fLimitFree fRejectInsaneFee ignoreFees r st')
  then show ?case using AcceptToMemoryPool_inv by blast
next
  case (remove p tx fRecursive removed removed' p')
  then show ?case using pool_remove_spec [OF pool_inv_ok [OF remove.IH], of tx fRecursive removed] pool_inv_sub by auto
next
  case (block p txs conflicts conflicts' p')
  then show ?case using removeForBlock_spec [OF pool_inv_ok [OF block.IH], of txs conflicts] pool_inv_sub by auto
next
  case (reorganise p coins h m p')
  then show ?case using removeCoinbaseSpends_spec [OF pool_inv_ok [OF reorganise.IH], of coins h m] pool_inv_sub by auto
next
  case (prioritise p x d f)
  have "same_pool p (PrioritiseTransaction x d f p)" by (simp add: same_pool_def PrioritiseTransaction_def Let_def split: prod.split)
  then show ?case using prioritise.IH same_pool_inv by blast
next
  case (updated p n)
  have "same_pool p (AddTransactionsUpdated n p)" by (simp add: same_pool_def AddTransactionsUpdated_def)
  then show ?case using updated.IH same_pool_inv by blast
next
  case (clear p)
  show ?case by (rule pool_inv_empty) (simp_all add: pool_clear_def)
qed

end
