(* ===== verification/BlockFiles.thy ===== *)
theory BlockFiles
  imports BlockLemmas Connect
begin

unbundle bit_operations_syntax

text \<open>
  The block files, \<^verbatim>\<open>src/src/main.cpp\<close> and \<^verbatim>\<open>main.h\<close>: the record \<^verbatim>\<open>CBlockFileInfo\<close> of each file,
  \<^verbatim>\<open>FindBlockPos\<close> and \<^verbatim>\<open>FindUndoPos\<close>, which allocate room, \<^verbatim>\<open>WriteBlockToDisk\<close> and the reading of
  a block at a position. A file is its bytes, empty when it does not exist; the contents of the
  undo files are not kept. Allocation is that of Linux, \<^verbatim>\<open>posix_fallocate\<close>; opening a file may fail,
  writing to an open file does not.
\<close>

definition MAX_BLOCKFILE_SIZE :: u32 where "MAX_BLOCKFILE_SIZE = 0x8000000"
definition BLOCKFILE_CHUNK_SIZE :: u32 where "BLOCKFILE_CHUNK_SIZE = 0x1000000"
definition UNDOFILE_CHUNK_SIZE :: u32 where "UNDOFILE_CHUNK_SIZE = 0x100000"
definition nMinDiskSpace :: u64 where "nMinDiskSpace = 52428800"

section \<open>The record of a file\<close>

record CBlockFileInfo =
  fi_nBlocks :: u32
  fi_nSize :: u32
  fi_nUndoSize :: u32
  fi_nHeightFirst :: u32
  fi_nHeightLast :: u32
  fi_nTimeFirst :: u64
  fi_nTimeLast :: u64

definition CBlockFileInfo_Null :: CBlockFileInfo where
  "CBlockFileInfo_Null = \<lparr>fi_nBlocks = 0, fi_nSize = 0, fi_nUndoSize = 0, fi_nHeightFirst = 0, fi_nHeightLast = 0,
     fi_nTimeFirst = 0, fi_nTimeLast = 0\<rparr>"

definition AddBlock :: "u32 \<Rightarrow> u64 \<Rightarrow> CBlockFileInfo \<Rightarrow> CBlockFileInfo" where
  "AddBlock nHeightIn nTimeIn i0 =
     (let i1 = (if fi_nBlocks i0 = 0 \<or> fi_nHeightFirst i0 > nHeightIn then i0\<lparr>fi_nHeightFirst := nHeightIn\<rparr> else i0);
          i2 = (if fi_nBlocks i1 = 0 \<or> fi_nTimeFirst i1 > nTimeIn then i1\<lparr>fi_nTimeFirst := nTimeIn\<rparr> else i1);
          i3 = i2\<lparr>fi_nBlocks := fi_nBlocks i2 + 1\<rparr>;
          i4 = (if nHeightIn > fi_nHeightLast i3 then i3\<lparr>fi_nHeightLast := nHeightIn\<rparr> else i3)
      in if nTimeIn > fi_nTimeLast i4 then i4\<lparr>fi_nTimeLast := nTimeIn\<rparr> else i4)"

definition ser_fileinfo :: "CBlockFileInfo \<Rightarrow> bytes" where
  "ser_fileinfo i =
     WriteVarInt (unat (fi_nBlocks i)) @ WriteVarInt (unat (fi_nSize i)) @ WriteVarInt (unat (fi_nUndoSize i)) @
     WriteVarInt (unat (fi_nHeightFirst i)) @ WriteVarInt (unat (fi_nHeightLast i)) @
     WriteVarInt (unat (fi_nTimeFirst i)) @ WriteVarInt (unat (fi_nTimeLast i))"

definition unser_fileinfo :: "CBlockFileInfo reader" where
  "unser_fileinfo =
     rbind (ReadVarInt 32) (\<lambda>n. rbind (ReadVarInt 32) (\<lambda>s. rbind (ReadVarInt 32) (\<lambda>u.
     rbind (ReadVarInt 32) (\<lambda>hf. rbind (ReadVarInt 32) (\<lambda>hl.
     rbind (ReadVarInt 64) (\<lambda>tf. rbind (ReadVarInt 64) (\<lambda>tl.
     rret \<lparr>fi_nBlocks = word_of_nat n, fi_nSize = word_of_nat s, fi_nUndoSize = word_of_nat u,
       fi_nHeightFirst = word_of_nat hf, fi_nHeightLast = word_of_nat hl,
       fi_nTimeFirst = word_of_nat tf, fi_nTimeLast = word_of_nat tl\<rparr>)))))))"

definition size_fileinfo :: "CBlockFileInfo \<Rightarrow> nat" where
  "size_fileinfo i =
     GetSizeOfVarInt (unat (fi_nBlocks i)) + GetSizeOfVarInt (unat (fi_nSize i)) + GetSizeOfVarInt (unat (fi_nUndoSize i)) +
     GetSizeOfVarInt (unat (fi_nHeightFirst i)) + GetSizeOfVarInt (unat (fi_nHeightLast i)) +
     GetSizeOfVarInt (unat (fi_nTimeFirst i)) + GetSizeOfVarInt (unat (fi_nTimeLast i))"

lemma varint_word:
  "ReadVarInt 32 (WriteVarInt (unat (a :: u32)) @ s) = Some (unat a, s)"
  "ReadVarInt 64 (WriteVarInt (unat (b :: u64)) @ s) = Some (unat b, s)"
  "length (WriteVarInt (unat a)) = GetSizeOfVarInt (unat a)" "length (WriteVarInt (unat b)) = GetSizeOfVarInt (unat b)"
  using varint32.unser_ser varint64.unser_ser varint32.size_ser [of "unat a"] varint64.size_ser [of "unat b"]
    unsigned_less [of a, where ?'a = nat] unsigned_less [of b, where ?'a = nat] by simp_all

interpretation fileinfo_c: codec ser_fileinfo unser_fileinfo size_fileinfo "\<lambda>_. True"
proof (unfold_locales, goal_cases)
  case (1 i s)
  show ?case unfolding unser_fileinfo_def ser_fileinfo_def append_assoc
    by (simp only: rbind_Some varint_word rret_app) simp
next
  case (2 i)
  show ?case by (simp add: size_fileinfo_def ser_fileinfo_def varint_word)
qed

section \<open>The files\<close>

record block_files =
  bf_info :: "CBlockFileInfo list"
  bf_last :: nat
  bf_dirty :: "nat set"
  bf_blk :: "nat \<Rightarrow> bytes"

record file_env =
  fe_magic :: bytes
  fe_open :: "nat \<Rightarrow> bool"
  fe_available :: "block_files \<Rightarrow> u64"

definition CheckDiskSpace :: "file_env \<Rightarrow> u64 \<Rightarrow> block_files \<Rightarrow> bool" where
  "CheckDiskSpace env nAdditionalBytes F \<longleftrightarrow> \<not> fe_available env F < nMinDiskSpace + nAdditionalBytes"

definition TruncateFile :: "nat \<Rightarrow> bytes \<Rightarrow> bytes" where
  "TruncateFile n bs = take n bs @ replicate (n - length bs) 0"

definition AllocateFileRange :: "u32 \<Rightarrow> u32 \<Rightarrow> bytes \<Rightarrow> bytes" where
  "AllocateFileRange offset n bs = bs @ replicate (unat offset + unat n - length bs) 0"

definition write_at :: "nat \<Rightarrow> bytes \<Rightarrow> bytes \<Rightarrow> bytes" where
  "write_at p new bs = take p (bs @ replicate (p - length bs) 0) @ new @ drop (p + length new) bs"

definition set_blk :: "nat \<Rightarrow> bytes \<Rightarrow> block_files \<Rightarrow> block_files" where
  "set_blk n bs F = F\<lparr>bf_blk := (bf_blk F)(n := bs)\<rparr>"

definition set_info :: "nat \<Rightarrow> CBlockFileInfo \<Rightarrow> block_files \<Rightarrow> block_files" where
  "set_info n i F = F\<lparr>bf_info := (bf_info F)[n := i]\<rparr>"

definition FlushBlockFile :: "file_env \<Rightarrow> bool \<Rightarrow> block_files \<Rightarrow> block_files" where
  "FlushBlockFile env fFinalize F =
     (if fe_open env (bf_last F) \<and> fFinalize
      then set_blk (bf_last F) (TruncateFile (unat (fi_nSize (bf_info F ! bf_last F))) (bf_blk F (bf_last F))) F
      else F)"

section \<open>Allocation\<close>

definition grow_info :: "nat \<Rightarrow> block_files \<Rightarrow> block_files" where
  "grow_info nFile F =
     (if length (bf_info F) \<le> nFile
      then F\<lparr>bf_info := bf_info F @ replicate (nFile + 1 - length (bf_info F)) CBlockFileInfo_Null\<rparr> else F)"

text \<open>The loop that leaves full files; it need not end when the size is above the limit.\<close>

partial_function (option) leave_files :: "file_env \<Rightarrow> u32 \<Rightarrow> nat \<Rightarrow> block_files \<Rightarrow> (nat \<times> block_files) option" where
  "leave_files env nAddSize nFile F =
     (if fi_nSize (bf_info F ! nFile) + nAddSize \<ge> MAX_BLOCKFILE_SIZE
      then leave_files env nAddSize (nFile + 1) (grow_info (nFile + 1) (FlushBlockFile env True F))
      else Some (nFile, F))"

declare leave_files.simps [code]

definition chunks :: "u32 \<Rightarrow> u32 \<Rightarrow> u32" where
  "chunks chunk n = (n + chunk - 1) div chunk"

text \<open>\<^verbatim>\<open>FindBlockPos\<close>; \<open>known\<close> is the position of a block that is already in a file.\<close>

definition FindBlockPos :: "file_env \<Rightarrow> (nat \<times> u32) option \<Rightarrow> u32 \<Rightarrow> u32 \<Rightarrow> u64 \<Rightarrow> block_files \<Rightarrow>
    ((conn_error + nat \<times> u32) \<times> block_files) option" where
  "FindBlockPos env known nAddSize nHeight nTime0 F0 =
     (let nFile0 = (case known of Some (f, p) \<Rightarrow> f | None \<Rightarrow> bf_last F0);
          F1 = grow_info nFile0 F0
      in case (case known of
                 Some (f, p) \<Rightarrow> Some (f, p, F1)
               | None \<Rightarrow> map_option (\<lambda>(f, F). (f, fi_nSize (bf_info F ! f), F)) (leave_files env nAddSize nFile0 F1)) of
           None \<Rightarrow> None
         | Some (nFile, nPos, F2) \<Rightarrow>
             let i1 = AddBlock nHeight nTime0 (bf_info F2 ! nFile);
                 i2 = i1\<lparr>fi_nSize := (if known \<noteq> None then max (nPos + nAddSize) (fi_nSize i1) else fi_nSize i1 + nAddSize)\<rparr>;
                 F3 = set_info nFile i2 (F2\<lparr>bf_last := nFile\<rparr>);
                 nNewChunks = chunks BLOCKFILE_CHUNK_SIZE (fi_nSize i2);
                 room = nNewChunks * BLOCKFILE_CHUNK_SIZE - nPos;
                 done = (Inr (nFile, nPos), F3\<lparr>bf_dirty := insert nFile (bf_dirty F3)\<rparr>)
             in if known = None \<and> nNewChunks > chunks BLOCKFILE_CHUNK_SIZE nPos
                then if CheckDiskSpace env (ucast room) F3
                     then if fe_open env nFile
                          then let F4 = set_blk nFile (AllocateFileRange nPos room (bf_blk F3 nFile)) F3
                               in Some (Inr (nFile, nPos), F4\<lparr>bf_dirty := insert nFile (bf_dirty F4)\<rparr>)
                          else Some done
                     else Some (Inl (Failed ''out of disk space''), F3)
                else Some done)"

text \<open>\<^verbatim>\<open>FindUndoPos\<close> for a file that has a record.\<close>

definition FindUndoPos :: "file_env \<Rightarrow> nat \<Rightarrow> u32 \<Rightarrow> block_files \<Rightarrow> (conn_error + nat \<times> u32) \<times> block_files" where
  "FindUndoPos env nFile nAddSize F =
     (let i = bf_info F ! nFile;
          nPos = fi_nUndoSize i;
          nNewSize = fi_nUndoSize i + nAddSize;
          F1 = set_info nFile (i\<lparr>fi_nUndoSize := nNewSize\<rparr>) F;
          F2 = F1\<lparr>bf_dirty := insert nFile (bf_dirty F1)\<rparr>;
          nNewChunks = chunks UNDOFILE_CHUNK_SIZE nNewSize
      in if nNewChunks > chunks UNDOFILE_CHUNK_SIZE nPos \<and>
            \<not> CheckDiskSpace env (ucast (nNewChunks * UNDOFILE_CHUNK_SIZE - nPos)) F2
         then (Inl (Failed ''out of disk space''), F2)
         else (Inr (nFile, nPos), F2))"

section \<open>Blocks in files\<close>

text \<open>\<open>None\<close> is the failure to open the file.\<close>

definition WriteBlockToDisk :: "file_env \<Rightarrow> CBlock \<Rightarrow> nat \<times> u32 \<Rightarrow> block_files \<Rightarrow> ((nat \<times> u32) \<times> block_files) option" where
  "WriteBlockToDisk env block pos F =
     (case pos of (nFile, nPos) \<Rightarrow>
        if \<not> fe_open env nFile then None
        else let header = fe_magic env @ ser_u32 (word_of_nat (size_block block))
             in Some ((nFile, word_of_nat (unat nPos + length header)),
                  set_blk nFile (write_at (unat nPos) (header @ ser_block block) (bf_blk F nFile)) F))"

text \<open>The opening and reading of \<^verbatim>\<open>ReadBlockFromDisk\<close>.\<close>

definition read_block_file :: "block_files \<Rightarrow> int \<Rightarrow> u32 \<Rightarrow> CBlock option" where
  "read_block_file F nFile nPos =
     (if nFile < 0 then None else map_option fst (unser_block (drop (unat nPos) (bf_blk F (nat nFile)))))"

text \<open>
  How \<^verbatim>\<open>AcceptBlock\<close> puts a block into a file. A failure to write is a failure of the node, and so is
  a failure to allocate.
\<close>

definition store_block :: "file_env \<Rightarrow> (nat \<times> u32) option \<Rightarrow> CBlock \<Rightarrow> int \<Rightarrow> block_files \<Rightarrow>
    ((conn_error + nat \<times> u32) \<times> block_files) option" where
  "store_block env dbp block nHeight F =
     (let nBlockSize = word_of_nat (size_block block)
      in case FindBlockPos env dbp (nBlockSize + 8) (word_of_int nHeight) (ucast (nTime block)) F of
           None \<Rightarrow> None
         | Some (Inl e, F1) \<Rightarrow> Some (Inl e, F1)
         | Some (Inr pos, F1) \<Rightarrow>
             if dbp \<noteq> None then Some (Inr pos, F1)
             else (case WriteBlockToDisk env block pos F1 of
                     None \<Rightarrow> Some (Inl (Failed ''Failed to write block''), F1)
                   | Some (pos', F2) \<Rightarrow> Some (Inr pos', F2)))"

end
