(* ===== verification/BlockChecks.thy ===== *)
theory BlockChecks
  imports ChainState ConnectBlock Rewards Pow
begin

unbundle bit_operations_syntax

text \<open>
  What a block must satisfy before it is stored, \<^verbatim>\<open>src/src/main.cpp\<close>: \<^verbatim>\<open>CheckBlockHeader\<close>,
  \<^verbatim>\<open>CheckBlock\<close>, \<^verbatim>\<open>CheckWork\<close>, \<^verbatim>\<open>ContextualCheckBlockHeader\<close> and \<^verbatim>\<open>ContextualCheckBlock\<close>, with the
  checkpoints of \<^verbatim>\<open>src/src/checkpoints.cpp\<close>. The scores of nested rejections add up, as in
  \<^verbatim>\<open>CValidationState::DoS\<close>, and the last reason stays. The record of rejected blocks, which only a
  request of the wallet reads, is left out.
\<close>

section \<open>Checkpoints\<close>

text \<open>The map of checkpoints, in ascending order of height, and whether it is used.\<close>

record checkpoints =
  cp_enabled :: bool
  cp_map :: "(int \<times> uint256) list"

definition checkpoint_ok :: "checkpoints \<Rightarrow> int \<Rightarrow> uint256 \<Rightarrow> bool \<Rightarrow> bool" where
  "checkpoint_ok cp nHeight hash1 fMatchesCheckpoint =
     (if \<not> cp_enabled cp then True
      else case map_of (cp_map cp) nHeight of
        None \<Rightarrow> \<not> fMatchesCheckpoint
      | Some x \<Rightarrow> hash1 = x)"

text \<open>\<open>None\<close>: the last element of an empty map.\<close>

definition GetTotalBlocksEstimate :: "checkpoints \<Rightarrow> int option" where
  "GetTotalBlocksEstimate cp =
     (if \<not> cp_enabled cp then Some 0 else if cp_map cp = [] then None else Some (fst (last (cp_map cp))))"

fun last_known :: "(uint256 \<times> ptr) list \<Rightarrow> (int \<times> uint256) list \<Rightarrow> ptr option" where
  "last_known m [] = None"
| "last_known m ((n, x) # cs) = (case map_of m x of Some p \<Rightarrow> Some p | None \<Rightarrow> last_known m cs)"

definition GetLastCheckpoint :: "checkpoints \<Rightarrow> (uint256 \<times> ptr) list \<Rightarrow> ptr option" where
  "GetLastCheckpoint cp m = (if \<not> cp_enabled cp then None else last_known m (rev (cp_map cp)))"

section \<open>What the checks take from elsewhere\<close>

text \<open>
  The hash of a block, the parameters of the chain, the adjusted time, the parameters of
  \<^verbatim>\<open>CheckTransaction\<close>, the locks of SwiftTX with their spork, the payee check with the state of the
  initial download, the serial number of a zerocoin spend, the parameters of the proof of work, the
  greatest depth of a reorganisation, and the numbers of blocks for a majority.
\<close>

record block_env =
  be_hash :: "CBlock \<Rightarrow> uint256"
  be_skip_pow :: bool
  be_limit :: uint256
  be_genesis :: uint256
  be_Zerocoin_StartTime :: int
  be_Zerocoin_HeaderVersion :: int
  be_AdjustedTime :: int
  be_check :: check_env
  be_filter :: bool
  be_locked :: "COutPoint \<Rightarrow> uint256 option"
  be_initial_download :: bool
  be_payee :: "CBlock \<Rightarrow> int \<Rightarrow> bool"
  be_serial :: "CTxIn \<Rightarrow> int"
  be_pow :: pow_params
  be_maxreorg :: int
  be_checkpoints :: checkpoints
  be_to_check :: nat
  be_enforce :: nat
  be_reject :: nat

definition block_time :: "CBlock \<Rightarrow> int" where
  "block_time b = uint (nTime b)"

section \<open>The header\<close>

definition CheckBlockHeader :: "block_env \<Rightarrow> CBlock \<Rightarrow> bool \<Rightarrow> reject option" where
  "CheckBlockHeader env block fCheckPOW =
     (if fCheckPOW \<and> \<not> CheckProofOfWork (be_skip_pow env) (be_limit env) (be_hash env block) (nBits block)
      then Some (50, ''high-hash'')
      else if block_time block > be_Zerocoin_StartTime env
      then (if hd_nVersion block < be_Zerocoin_HeaderVersion env then Some (50, ''block-version'') else None)
      else (if hd_nVersion block \<ge> be_Zerocoin_HeaderVersion env then Some (50, ''block-version'') else None))"

section \<open>The block on its own\<close>

definition MAX_BLOCK_SIGOPS_LEGACY :: nat where
  "MAX_BLOCK_SIGOPS_LEGACY = MAX_BLOCK_SIZE_LEGACY div 50"

text \<open>The rules on coinbase and coinstake.\<close>

definition check_order :: "CBlock \<Rightarrow> conn_error + unit" where
  "check_order block =
     (if vtx block = [] \<or> \<not> IsCoinBase (hd (vtx block)) then Inl (DoS 100 ''bad-cb-missing'')
      else if list_ex IsCoinBase (tl (vtx block)) then Inl (DoS 100 ''bad-cb-multiple'')
      else if IsProofOfStake block
      then (if length (vout (hd (vtx block))) \<noteq> 1 \<or> \<not> CTxOut_IsEmpty (hd (vout (hd (vtx block)))) then Inl (DoS 100 '''')
            else if vtx block = [] \<or> \<not> IsCoinStake (vtx block ! 1) then Inl (DoS 100 '''')
            else if list_ex IsCoinStake (drop 2 (vtx block)) then Inl (DoS 100 '''')
            else Inr ())
      else Inr ())"

definition check_locks :: "block_env \<Rightarrow> CTransaction list \<Rightarrow> conn_error + unit" where
  "check_locks env txs =
     (if be_filter env \<and>
         list_ex (\<lambda>tx. \<not> IsCoinBase tx \<and>
           list_ex (\<lambda>txin. be_locked env (prevout txin) \<noteq> None \<and> be_locked env (prevout txin) \<noteq> Some (GetHash tx)) (vin tx)) txs
      then Inl (DoS 0 ''conflicting-tx-ix'') else Inr ())"

text \<open>The height the payees are checked at: 0 when the parent is not known.\<close>

definition payee_height :: "'c chain_state \<Rightarrow> CBlock \<Rightarrow> int" where
  "payee_height s block =
     (case Tip (st_active s) of
        None \<Rightarrow> 0
      | Some t \<Rightarrow>
          if ix_hash (st_index s t) = hashPrevBlock block then ix_nHeight (st_index s t) + 1
          else (case map_of (st_map s) (hashPrevBlock block) of
                  None \<Rightarrow> 0 | Some p \<Rightarrow> ix_nHeight (st_index s p) + 1))"

definition check_payees :: "block_env \<Rightarrow> 'c chain_state \<Rightarrow> CBlock \<Rightarrow> conn_error + unit" where
  "check_payees env s block =
     (if Tip (st_active s) \<noteq> None \<and> payee_height s block \<noteq> 0 \<and> \<not> be_initial_download env \<and>
         \<not> be_payee env block (payee_height s block)
      then Inl (DoS 0 ''bad-cb-payee'') else Inr ())"

text \<open>The serials of one transaction after those before.\<close>

fun add_serials :: "block_env \<Rightarrow> CTxIn list \<Rightarrow> int list \<Rightarrow> conn_error + int list" where
  "add_serials env [] vBlockSerials = Inr vBlockSerials"
| "add_serials env (txin # txins) vBlockSerials =
     (if IsZerocoinSpend (scriptSig txin)
      then (if be_serial env txin \<in> set vBlockSerials then Inl (DoS 100 '''')
            else add_serials env txins (vBlockSerials @ [be_serial env txin]))
      else add_serials env txins vBlockSerials)"

fun check_txs :: "block_env \<Rightarrow> bool \<Rightarrow> CTransaction list \<Rightarrow> int list \<Rightarrow> conn_error + unit" where
  "check_txs env fZerocoinActive [] vBlockSerials = Inr ()"
| "check_txs env fZerocoinActive (tx # txs) vBlockSerials =
     (case CheckTransaction (be_check env) tx fZerocoinActive of
        Inl (n, r) \<Rightarrow> Inl (DoS n r)
      | Inr u \<Rightarrow>
          sbind (if tx_IsZerocoinSpend tx then add_serials env (vin tx) vBlockSerials else Inr vBlockSerials)
            (check_txs env fZerocoinActive txs))"

definition CheckBlock :: "block_env \<Rightarrow> 'c chain_state \<Rightarrow> CBlock \<Rightarrow> bool \<Rightarrow> bool \<Rightarrow> conn_error + unit" where
  "CheckBlock env s block fCheckPOW fCheckMerkleRoot =
     (case CheckBlockHeader env block (if IsProofOfWork block then fCheckPOW else IsProofOfWork block) of
        Some (n, r) \<Rightarrow> Inl (Corrupt (n + 100) ''bad-header'')
      | None \<Rightarrow>
          if block_time block > be_AdjustedTime env + (if IsProofOfStake block then 180 else 7200)
          then Inl (Invalid ''time-too-new'')
          else if fCheckMerkleRoot \<and> hashMerkleRoot block \<noteq> fst (BuildMerkleTree block)
          then Inl (Corrupt 100 ''bad-txnmrklroot'')
          else if fCheckMerkleRoot \<and> snd (BuildMerkleTree block) then Inl (Corrupt 100 ''bad-txns-duplicate'')
          else if vtx block = [] \<or> length (vtx block) > MAX_BLOCK_SIZE_CURRENT \<or> size_block block > MAX_BLOCK_SIZE_CURRENT
          then Inl (DoS 100 ''bad-blk-length'')
          else
          sbind (check_order block) (\<lambda>u.
          sbind (check_locks env (vtx block)) (\<lambda>u.
          sbind (check_payees env s block) (\<lambda>u.
          let fZerocoinActive = block_time block > be_Zerocoin_StartTime env
          in sbind (check_txs env fZerocoinActive (vtx block) []) (\<lambda>u.
             let nSigOps = foldl (\<lambda>n tx. n + GetLegacySigOpCount tx) 0 (vtx block);
                 nMaxBlockSigOps = (if fZerocoinActive then MAX_BLOCK_SIGOPS_CURRENT else MAX_BLOCK_SIGOPS_LEGACY)
             in if nSigOps > nMaxBlockSigOps then Inl (Corrupt 100 ''bad-blk-sigops'') else Inr ())))))"

section \<open>The work\<close>

text \<open>
  \<^verbatim>\<open>ConvertBitsToDouble\<close>; \<open>None\<close> is the infinity of a division by a zero mantissa. The factors 256
  are exact.
\<close>

definition ConvertBitsToDouble :: "u32 \<Rightarrow> rat option" where
  "ConvertBitsToDouble bits =
     (let nShift = uint (drop_bit 24 bits AND 0xff); m = uint (bits AND 0x00ffffff)
      in if m = 0 then None else Some (dround (0x0000ffff / of_int m) * 256 powi (29 - nShift)))"

text \<open>
  The test \<^verbatim>\<open>abs(n1 - n2) > n1 * 0.5\<close> on doubles: false when \<open>n1\<close> is infinite, the difference then being
  infinite or not a number; true when only \<open>n2\<close> is.
\<close>

definition too_far :: "rat option \<Rightarrow> rat option \<Rightarrow> bool" where
  "too_far n1 n2 =
     (case n1 of
        None \<Rightarrow> False
      | Some a \<Rightarrow> (case n2 of None \<Rightarrow> True | Some b \<Rightarrow> \<bar>dround (a - b)\<bar> > a / 2))"

text \<open>\<open>None\<close> is a failed assertion of \<^verbatim>\<open>GetNextWorkRequired\<close>.\<close>

definition CheckWork :: "block_env \<Rightarrow> index_heap \<Rightarrow> CBlock \<Rightarrow> ptr option \<Rightarrow> bool option" where
  "CheckWork env h block pindexPrev =
     (case pindexPrev of
        None \<Rightarrow> Some False
      | Some p \<Rightarrow>
          (case GetNextWorkRequired (be_pow env) h (Some p) of
             None \<Rightarrow> None
           | Some nBitsRequired \<Rightarrow>
               Some (if IsProofOfWork block \<and> ix_nHeight (h p) + 1 \<le> 68589
                     then \<not> too_far (ConvertBitsToDouble (nBits block)) (ConvertBitsToDouble nBitsRequired)
                     else nBits block = nBitsRequired)))"

section \<open>The block in its chain\<close>

text \<open>The result \<open>Inl Asserted\<close> is the failed assertion on the parent.\<close>

definition ContextualCheckBlockHeader :: "block_env \<Rightarrow> 'c chain_state \<Rightarrow> CBlock \<Rightarrow> ptr option \<Rightarrow> conn_error + unit" where
  "ContextualCheckBlockHeader env s block pindexPrev =
     (let hash1 = be_hash env block; h = st_index s
      in if hash1 = be_genesis env then Inr ()
         else case pindexPrev of
           None \<Rightarrow> Inl Asserted
         | Some p \<Rightarrow>
             let nHeight = ix_nHeight (h p) + 1
             in if chain_Height (st_active s) - nHeight \<ge> be_maxreorg env then Inl (DoS 1 '''')
                else if block_time block \<le> GetMedianTimePast h p then Inl (Invalid ''time-too-old'')
                else if \<not> checkpoint_ok (be_checkpoints env) nHeight hash1 False then Inl (DoS 100 ''checkpoint mismatch'')
                else if (case GetLastCheckpoint (be_checkpoints env) (st_map s) of
                           None \<Rightarrow> False | Some c \<Rightarrow> nHeight < ix_nHeight (h c)) then Inl (DoS 0 '''')
                else if (hd_nVersion block < 2 \<and> IsSuperMajority (be_to_check env) h 2 (Some p) (be_reject env)) \<or>
                        (hd_nVersion block < 3 \<and> IsSuperMajority (be_to_check env) h 3 (Some p) (be_reject env)) \<or>
                        (hd_nVersion block < 6 \<and> IsSuperMajority (be_to_check env) h 6 (Some p) (be_reject env))
                then Inl (Invalid ''bad-version'')
                else Inr ())"

definition ContextualCheckBlock :: "block_env \<Rightarrow> 'c chain_state \<Rightarrow> CBlock \<Rightarrow> ptr option \<Rightarrow> conn_error + unit" where
  "ContextualCheckBlock env s block pindexPrev =
     (let nHeight = (case pindexPrev of None \<Rightarrow> 0 | Some p \<Rightarrow> ix_nHeight (st_index s p) + 1)
      in if list_ex (\<lambda>tx. \<not> IsFinalTx (chain_Height (st_active s)) (be_AdjustedTime env) tx nHeight (block_time block)) (vtx block)
         then Inl (DoS 10 ''bad-txns-nonfinal'')
         else if hd_nVersion block \<ge> 2 \<and> IsSuperMajority (be_to_check env) (st_index s) 2 pindexPrev (be_enforce env) \<and>
                 take (length (push_int64 nHeight)) (scriptSig (hd (vin (hd (vtx block))))) \<noteq> push_int64 nHeight
         then Inl (DoS 100 ''bad-cb-height'')
         else Inr ())"

end
