(* ===== verification/AcceptBlock.thy ===== *)
theory AcceptBlock
  imports BlockFiles BlockChecks NodeLedger
begin

unbundle bit_operations_syntax

text \<open>
  Taking in a block, \<^verbatim>\<open>src/src/main.cpp\<close>: \<^verbatim>\<open>AcceptBlockHeader\<close>, \<^verbatim>\<open>ContextualCheckZerocoinStake\<close>,
  \<^verbatim>\<open>AcceptBlock\<close>, \<^verbatim>\<open>ProcessNewBlock\<close> and \<^verbatim>\<open>InitBlockIndex\<close>, and
  \<^verbatim>\<open>ActivateBestChain\<close>, \<^verbatim>\<open>InvalidateBlock\<close> and \<^verbatim>\<open>ReconsiderBlock\<close> on the state of the node. The state of the node is the block index with the active chain
  and the coins, the block files, and \<^verbatim>\<open>mapProofOfStake\<close>. A result is \<open>Inl\<close> why the call returned false,
  or \<open>Inr\<close>, with the state; the outer \<open>None\<close> is a failed assertion, the use of a null pointer or a loop
  that does not end. What peers are told and the work of the other layers after a new block are
  left out; of a file record the room of the undo data is kept by \<open>nd_undo_pos\<close>.
\<close>

section \<open>The node\<close>

record node_state =
  ns_chain :: "node_coins chain_state"
  ns_files :: block_files
  ns_stake :: "uint256 \<Rightarrow> uint256 option"

text \<open>The stake of a block: whether it is of zerocoins, and what is known of it then.\<close>

record zvit_stake =
  zs_from :: "ptr option"
  zs_checksum :: u32
  zs_parse :: "uint256 \<Rightarrow> u32"

record stake_input =
  si_zpiv :: bool
  si_zvit :: "zvit_stake option"

text \<open>
  The environments of the parts; the proof of stake of a block, \<open>None\<close> when it fails, else its hash and
  the input that staked, unless null; the check of the signature of a block; the first height of
  zerocoin stakes and the depth they need; the address that \<^verbatim>\<open>new\<close> returns; the genesis block.
\<close>

record accept_env =
  ae_node :: node_env
  ae_block :: "node_state \<Rightarrow> block_env"
  ae_file :: file_env
  ae_kernel :: "node_state \<Rightarrow> stake_env"
  ae_proof :: "node_state \<Rightarrow> CBlock \<Rightarrow> (uint256 \<times> stake_input option) option"
  ae_signed :: "CBlock \<Rightarrow> bool"
  ae_V2_Start :: int
  ae_StakeDepth :: int
  ae_new :: "node_state \<Rightarrow> ptr"
  ae_genesis :: CBlock

definition accept_hash :: "accept_env \<Rightarrow> CBlock \<Rightarrow> uint256" where
  "accept_hash env block = nd_hash (ae_node env) block"

text \<open>The parts read the same hash, parameters and disk.\<close>

definition block_env_at :: "accept_env \<Rightarrow> node_state \<Rightarrow> block_env" where
  "block_env_at env s = (ae_block env s)\<lparr>be_hash := nd_hash (ae_node env), be_genesis := nd_genesis (ae_node env),
     be_skip_pow := nd_skip_pow (ae_node env), be_limit := nd_limit (ae_node env)\<rparr>"

definition node_at :: "accept_env \<Rightarrow> node_state \<Rightarrow> node_env" where
  "node_at env s = (ae_node env)\<lparr>nd_file := read_block_file (ns_files s)\<rparr>"

definition stake_hash :: "node_state \<Rightarrow> uint256 \<Rightarrow> uint256" where
  "stake_hash s h = (case ns_stake s h of None \<Rightarrow> 0 | Some x \<Rightarrow> x)"

section \<open>Chain selection on the node\<close>

definition on_chain :: "(conn_error option \<times> node_coins chain_state) option \<Rightarrow> node_state \<Rightarrow>
    ((conn_error + unit) \<times> node_state) option" where
  "on_chain r s =
     (case r of
        None \<Rightarrow> None
      | Some (e, c) \<Rightarrow> Some (case e of None \<Rightarrow> Inr () | Some x \<Rightarrow> Inl x, s\<lparr>ns_chain := c\<rparr>))"

definition node_Activate :: "accept_env \<Rightarrow> CBlock option \<Rightarrow> bool \<Rightarrow> node_state \<Rightarrow> ((conn_error + unit) \<times> node_state) option" where
  "node_Activate env pblock fAlreadyChecked s =
     on_chain (ActivateBestChain (node_ledger (node_at env s)) (accept_hash env) pblock fAlreadyChecked (ns_chain s)) s"

definition node_Reconsider :: "ptr \<Rightarrow> node_state \<Rightarrow> node_state option" where
  "node_Reconsider p s = map_option (\<lambda>c. s\<lparr>ns_chain := c\<rparr>) (ReconsiderBlock p (ns_chain s))"

definition node_Invalidate :: "accept_env \<Rightarrow> ptr \<Rightarrow> node_state \<Rightarrow> ((conn_error + unit) \<times> node_state) option" where
  "node_Invalidate env p s = on_chain (InvalidateBlock (node_ledger (node_at env s)) p (ns_chain s)) s"

section \<open>The header\<close>

definition AcceptBlockHeader :: "accept_env \<Rightarrow> CBlock \<Rightarrow> node_state \<Rightarrow> ((conn_error + ptr) \<times> node_state) option" where
  "AcceptBlockHeader env block s =
     (let hash1 = accept_hash env block; c = ns_chain s; benv = block_env_at env s
      in case map_of (st_map c) hash1 of
        Some p \<Rightarrow> if failed (st_index c p) then Some (Inl (Invalid ''duplicate''), s) else Some (Inr p, s)
      | None \<Rightarrow>
          (case CheckBlockHeader benv block False of
             Some (n, r) \<Rightarrow> Some (Inl (DoS n r), s)
           | None \<Rightarrow>
               (case (if hash1 = nd_genesis (ae_node env) then Inr None
                      else case map_of (st_map c) (hashPrevBlock block) of
                             None \<Rightarrow> Inl (DoS 0 ''bad-prevblk'')
                           | Some q \<Rightarrow> if failed (st_index c q) then Inl (DoS 100 ''bad-prevblk'') else Inr (Some q)) of
                  Inl e \<Rightarrow> Some (Inl e, s)
                | Inr pindexPrev \<Rightarrow>
                    (case ContextualCheckBlockHeader benv c block pindexPrev of
                       Inl Asserted \<Rightarrow> None
                     | Inl e \<Rightarrow> Some (Inl e, s)
                     | Inr u \<Rightarrow>
                         (case AddToBlockIndex ((ae_kernel env s)\<lparr>se_proof := stake_hash s\<rparr>) block hash1 (ae_new env s) c of
                            None \<Rightarrow> None
                          | Some (p, c') \<Rightarrow>
                              Some (Inr p, s\<lparr>ns_chain := c',
                                ns_stake := (if IsProofOfStake block then (ns_stake s)(hash1 \<mapsto> stake_hash s hash1) else ns_stake s)\<rparr>))))))"

section \<open>The stake\<close>

definition ContextualCheckZerocoinStake :: "accept_env \<Rightarrow> node_state \<Rightarrow> int \<Rightarrow> stake_input \<Rightarrow> bool option" where
  "ContextualCheckZerocoinStake env s nHeight stake =
     (let c = ns_chain s; h = st_index c
      in if nHeight < ae_V2_Start env then Some False
         else case si_zvit stake of
           None \<Rightarrow> Some False
         | Some z \<Rightarrow>
             (case zs_from z of
                None \<Rightarrow> Some False
              | Some p \<Rightarrow>
                  if chain_Height (st_active c) - ix_nHeight (h p) < ae_StakeDepth env then Some False
                  else (case chain_at (st_active c) (nHeight - ae_StakeDepth env) of
                          None \<Rightarrow> None
                        | Some q \<Rightarrow> Some (zs_parse z (ix_nAccumulatorCheckpoint (h q)) = zs_checksum z))))"

text \<open>The proof of stake of a new block, entered in \<^verbatim>\<open>mapProofOfStake\<close>.\<close>

definition accept_stake :: "accept_env \<Rightarrow> CBlock \<Rightarrow> ptr option \<Rightarrow> node_state \<Rightarrow> ((conn_error + unit) \<times> node_state) option" where
  "accept_stake env block pindexPrev s =
     (if \<not> IsProofOfStake block then Some (Inr (), s)
      else case ae_proof env s block of
        None \<Rightarrow> Some (Inl (DoS 100 ''''), s)
      | Some (hashProofOfStake, None) \<Rightarrow> Some (Inl (Failed ''''), s)
      | Some (hashProofOfStake, Some stake) \<Rightarrow>
          (case (if \<not> si_zpiv stake then Some True
                 else case pindexPrev of
                   None \<Rightarrow> None
                 | Some q \<Rightarrow> ContextualCheckZerocoinStake env s (ix_nHeight (st_index (ns_chain s) q)) stake) of
             None \<Rightarrow> None
           | Some False \<Rightarrow> Some (Inl (DoS 100 ''''), s)
           | Some True \<Rightarrow>
               Some (Inr (), if ns_stake s (accept_hash env block) = None
                             then s\<lparr>ns_stake := (ns_stake s)(accept_hash env block \<mapsto> hashProofOfStake)\<rparr> else s)))"

text \<open>The walk down a fork: no block on it spends an input of the coinstake.\<close>

partial_function (option) fork_scan :: "node_env \<Rightarrow> index_heap \<Rightarrow> CChain \<Rightarrow> COutPoint list \<Rightarrow> ptr option \<Rightarrow> bool option" where
  "fork_scan nd h c stakeIns last1 =
     (case last1 of
        None \<Rightarrow> None
      | Some p \<Rightarrow>
          if Contains h c p then Some True
          else (case ReadBlockFromDisk nd (h p) of
                  None \<Rightarrow> Some False
                | Some bl \<Rightarrow>
                    if list_ex (\<lambda>t. list_ex (\<lambda>i. prevout i \<in> set stakeIns) (vin t)) (vtx bl) then Some False
                    else fork_scan nd h c stakeIns (ix_pprev (h p))))"

declare fork_scan.simps [code]

text \<open>The inputs of the coinstake: unspent, or spent not below the parent; then the fork, if any.\<close>

definition stake_inputs :: "accept_env \<Rightarrow> CBlock \<Rightarrow> ptr option \<Rightarrow> node_state \<Rightarrow> ((conn_error + unit) \<times> node_state) option" where
  "stake_inputs env block pindexPrev s =
     (if \<not> IsProofOfStake block then Some (Inr (), s)
      else let c = ns_chain s; h = st_index c; nc = st_coins c;
               (have1, v) = HaveInputs (node_ops (nd_pk (ae_node env))) (vtx block ! 1) (CCoinsViewCache (nc_tip nc));
               s1 = s\<lparr>ns_chain := c\<lparr>st_coins := nc\<lparr>nc_tip := c_base v\<rparr>\<rparr>\<rparr>
           in case pindexPrev of
             None \<Rightarrow>
               if \<not> have1 \<and> nc_stake nc (prevout (hd (vin (vtx block ! 1)))) = None
               then Some (Inl (Failed ''''), s1) else None
           | Some q \<Rightarrow>
               if \<not> have1 \<and> list_ex (\<lambda>i. case nc_stake nc (prevout i) of None \<Rightarrow> True | Some n \<Rightarrow> n < ix_nHeight (h q)) (vin (vtx block ! 1))
               then Some (Inl (Failed ''''), s1)
               else if Contains h (st_active c) q then Some (Inr (), s1)
               else (case fork_scan (node_at env s) h (st_active c) (map prevout (vin (vtx block ! 1))) (Some q) of
                       None \<Rightarrow> None
                     | Some False \<Rightarrow> Some (Inl (Failed ''''), s1)
                     | Some True \<Rightarrow> Some (Inr (), s1)))"

section \<open>The block\<close>

definition abind :: "((conn_error + 'a) \<times> node_state) option \<Rightarrow> ('a \<Rightarrow> node_state \<Rightarrow> ((conn_error + 'b) \<times> node_state) option) \<Rightarrow>
    ((conn_error + 'b) \<times> node_state) option" where
  "abind m f = (case m of None \<Rightarrow> None | Some (Inl e, s) \<Rightarrow> Some (Inl e, s) | Some (Inr x, s) \<Rightarrow> f x s)"

text \<open>
  The parent. \<open>None\<close> in the result: the parent had failed, is a checkpoint and was reconsidered, and the
  call returns true there.
\<close>

definition accept_parent :: "accept_env \<Rightarrow> CBlock \<Rightarrow> node_state \<Rightarrow> ((conn_error + ptr option option) \<times> node_state) option" where
  "accept_parent env block s =
     (let c = ns_chain s; h = st_index c
      in if accept_hash env block = nd_genesis (ae_node env) then Some (Inr (Some None), s)
         else case map_of (st_map c) (hashPrevBlock block) of
           None \<Rightarrow> Some (Inl (DoS 0 ''bad-prevblk''), s)
         | Some q \<Rightarrow>
             if \<not> failed (h q) then Some (Inr (Some (Some q)), s)
             else if checkpoint_ok (be_checkpoints (block_env_at env s)) (ix_nHeight (h q)) (hashPrevBlock block) True
             then (case node_Reconsider q s of
                     None \<Rightarrow> None
                   | Some s1 \<Rightarrow> map_option (\<lambda>(r, s2). (Inr None, s2)) (node_Activate env None False s1))
             else Some (Inl (DoS 100 ''bad-prevblk''), s))"

text \<open>The checks of a block that has an entry; an invalid block leaves its mark there.\<close>

definition accept_checks :: "accept_env \<Rightarrow> bool \<Rightarrow> CBlock \<Rightarrow> ptr \<Rightarrow> node_state \<Rightarrow> ((conn_error + unit) \<times> node_state) option" where
  "accept_checks env fAlreadyCheckedBlock block p s =
     (let c = ns_chain s; benv = block_env_at env s
      in case sbind (if \<not> fAlreadyCheckedBlock then CheckBlock benv c block True True else Inr ())
                (\<lambda>u. ContextualCheckBlock benv c block (ix_pprev (st_index c p))) of
           Inr u \<Rightarrow> Some (Inr (), s)
         | Inl e \<Rightarrow>
             Some (Inl e, if IsInvalid e \<and> \<not> CorruptionPossible e
                          then s\<lparr>ns_chain := mark_dirty p (add_status BLOCK_FAILED_VALID p c)\<rparr> else s))"

text \<open>Storing the block and entering its transactions.\<close>

definition accept_store :: "accept_env \<Rightarrow> CBlock \<Rightarrow> (nat \<times> u32) option \<Rightarrow> int \<Rightarrow> ptr \<Rightarrow> node_state \<Rightarrow> ((conn_error + unit) \<times> node_state) option" where
  "accept_store env block dbp nHeight p s =
     (case store_block (ae_file env) dbp block nHeight (ns_files s) of
        None \<Rightarrow> None
      | Some (Inl e, F) \<Rightarrow> Some (Inl e, s\<lparr>ns_files := F\<rparr>)
      | Some (Inr (nFile, nPos), F) \<Rightarrow>
          map_option (\<lambda>c. (Inr (), s\<lparr>ns_files := F, ns_chain := c\<rparr>))
            (ReceivedBlockTransactions block (int nFile) nPos p (ns_chain s)))"

definition CheckWork_at :: "accept_env \<Rightarrow> CBlock \<Rightarrow> ptr option \<Rightarrow> node_state \<Rightarrow> ((conn_error + unit) \<times> node_state) option" where
  "CheckWork_at env block pindexPrev s =
     (if accept_hash env block = nd_genesis (ae_node env) then Some (Inr (), s)
      else case CheckWork (block_env_at env s) (st_index (ns_chain s)) block pindexPrev of
        None \<Rightarrow> None
      | Some ok \<Rightarrow> Some (if ok then Inr () else Inl (Failed ''''), s))"

definition AcceptBlock :: "accept_env \<Rightarrow> CBlock \<Rightarrow> (nat \<times> u32) option \<Rightarrow> bool \<Rightarrow> node_state \<Rightarrow> ((conn_error + unit) \<times> node_state) option" where
  "AcceptBlock env block dbp fAlreadyCheckedBlock s =
     abind (accept_parent env block s) (\<lambda>parent s.
       case parent of
         None \<Rightarrow> Some (Inr (), s)
       | Some pindexPrev \<Rightarrow>
           abind (CheckWork_at env block pindexPrev s) (\<lambda>u s.
           abind (accept_stake env block pindexPrev s) (\<lambda>u s.
           abind (AcceptBlockHeader env block s) (\<lambda>p s.
             if have_data (st_index (ns_chain s) p) then Some (Inr (), s)
             else abind (accept_checks env fAlreadyCheckedBlock block p s) (\<lambda>u s.
                  abind (stake_inputs env block pindexPrev s) (\<lambda>u s.
                    accept_store env block dbp (ix_nHeight (st_index (ns_chain s) p)) p s))))))"

section \<open>New blocks\<close>

text \<open>\<open>from_peer\<close> is \<^verbatim>\<open>pfrom != NULL\<close>.\<close>

definition ProcessNewBlock :: "accept_env \<Rightarrow> bool \<Rightarrow> CBlock \<Rightarrow> (nat \<times> u32) option \<Rightarrow> node_state \<Rightarrow> ((conn_error + unit) \<times> node_state) option" where
  "ProcessNewBlock env from_peer block dbp s =
     (case CheckBlock (block_env_at env s) (ns_chain s) block True True of
        Inl e \<Rightarrow> Some (Inl e, s)
      | Inr u \<Rightarrow>
          if \<not> ae_signed env block then Some (Inl (Failed ''''), s)
          else if accept_hash env block \<noteq> nd_genesis (ae_node env) \<and> from_peer \<and>
                  map_of (st_map (ns_chain s)) (hashPrevBlock block) = None
          then Some (Inl (Failed ''''), s)
          else abind (AcceptBlock env block dbp True s) (\<lambda>u s. node_Activate env (Some block) True s))"

text \<open>\<^verbatim>\<open>InitBlockIndex\<close> of a node that does not reindex.\<close>

definition InitBlockIndex :: "accept_env \<Rightarrow> node_state \<Rightarrow> ((conn_error + unit) \<times> node_state) option" where
  "InitBlockIndex env s =
     (let block = ae_genesis env
      in if Genesis (st_active (ns_chain s)) \<noteq> None then Some (Inr (), s)
         else case store_block (ae_file env) None block 0 (ns_files s) of
           None \<Rightarrow> None
         | Some (Inl e, F) \<Rightarrow> Some (Inl e, s\<lparr>ns_files := F\<rparr>)
         | Some (Inr (nFile, nPos), F) \<Rightarrow>
             let hash1 = accept_hash env block
             in case AddToBlockIndex ((ae_kernel env s)\<lparr>se_proof := stake_hash s\<rparr>) block hash1 (ae_new env s) (ns_chain s) of
                  None \<Rightarrow> None
                | Some (p, c1) \<Rightarrow>
                    (case ReceivedBlockTransactions block (int nFile) nPos p c1 of
                       None \<Rightarrow> None
                     | Some c2 \<Rightarrow>
                         abind (node_Activate env (Some block) False (s\<lparr>ns_files := F, ns_chain := c2\<rparr>)) (\<lambda>u s.
                           case node_flush (node_at env s) True (st_coins (ns_chain s)) of
                             None \<Rightarrow> Some (Inl (Failed ''''), s)
                           | Some nc \<Rightarrow> Some (Inr (), s\<lparr>ns_chain := (ns_chain s)\<lparr>st_coins := nc\<rparr>\<rparr>))))"

end
