(* ===== verification/NodeChain.thy ===== *)
theory NodeChain
  imports NodeLedger
begin

unbundle bit_operations_syntax

text \<open>
  The node's ledger keeps the laws of \<open>ledger_laws\<close>: the coins represented by \<^verbatim>\<open>pcoinsTip\<close> over the
  database are, up to coinstake flags, those the blocks of the chain leave of the empty map, and the
  undo data of an entry takes the coins of its chain back to those of its parent.
\<close>

section \<open>What is assumed of the blocks\<close>

text \<open>
  Blocks in the files are told apart by their hash. The block of an entry: the genesis block has
  height 0 and no other does, the transactions can be stored, have distinct ids, and the first
  spends nothing.
\<close>

definition node_ok :: "node_env \<Rightarrow> (uint256 \<Rightarrow> CBlock) \<Rightarrow> bool" where
  "node_ok nd blk \<longleftrightarrow> pubkey_ops_ok (nd_pk nd) \<and> nd_writable nd \<and>
     (\<forall>n pos block. nd_file nd n pos = Some block \<longrightarrow> blk (nd_hash nd block) = block)"

definition node_entry :: "node_env \<Rightarrow> (uint256 \<Rightarrow> CBlock) \<Rightarrow> CBlockIndex \<Rightarrow> bool" where
  "node_entry nd blk b \<longleftrightarrow>
     ix_hash b \<noteq> 0 \<and> ix_nHeight b < 2 ^ 31 \<and> nd_hash nd (blk (ix_hash b)) = ix_hash b \<and>
     (ix_nHeight b = 0 \<longleftrightarrow> ix_hash b = nd_genesis nd) \<and>
     (ix_hash b \<noteq> nd_genesis nd \<longrightarrow>
        list_all tx_storable (vtx (blk (ix_hash b))) \<and> distinct (map GetHash (vtx (blk (ix_hash b)))) \<and>
        vtx (blk (ix_hash b)) \<noteq> [] \<and> \<not> spends_inputs (hd (vtx (blk (ix_hash b)))) \<and>
        ix_hash b \<noteq> 0x00000000000a4d0a398161ffc163c503763b1f4360639393e0e4c8e300e0caec \<and>
        ix_hash b \<noteq> 0x00000000000743f190a18c5577a3c2d2a1f610ae9601ac046a38084ccb7cd721)"

lemma node_entry_same: "same_links b b' \<Longrightarrow> node_entry nd blk b' = node_entry nd blk b"
  by (simp add: same_links_def node_entry_def)

section \<open>The coins of the active chain\<close>

definition undo_fits :: "node_env \<Rightarrow> (uint256 \<Rightarrow> CBlock) \<Rightarrow> index_heap \<Rightarrow> ptr \<Rightarrow> CTxInUndo list list \<Rightarrow> bool" where
  "undo_fits nd blk h p un \<longleftrightarrow>
     (\<exists>v u uss u'. chain_coins blk (nd_genesis nd) h (path_of h (ix_pprev (h p))) = Some v \<and> noflag u = noflag v \<and>
        u_ok u \<and> fresh_ids u (vtx (blk (ix_hash (h p)))) (ix_nHeight (h p)) \<and>
        u_connect u (vtx (blk (ix_hash (h p)))) (ix_nHeight (h p)) = Some (uss, u') \<and> un = tl uss)"

definition coins_of_chain :: "node_env \<Rightarrow> (uint256 \<Rightarrow> CBlock) \<Rightarrow> index_heap \<Rightarrow> CChain \<Rightarrow> node_coins \<Rightarrow> bool" where
  "coins_of_chain nd blk h ch c \<longleftrightarrow>
     (\<exists>u. chain_coins blk (nd_genesis nd) h ch = Some u \<and> noflag (tip_utxo (nd_pk nd) (nc_tip c)) = noflag u)"

text \<open>\<^verbatim>\<open>pcoinsTip\<close> as a view of its own: well formed, with records that belong to blocks, at the tip.\<close>

definition tip_at :: "node_env \<Rightarrow> index_heap \<Rightarrow> ptr option \<Rightarrow> node_coins \<Rightarrow> bool" where
  "tip_at nd h t c \<longleftrightarrow> tip_inv (nd_pk nd) (nc_tip c) \<and> u_ok (tip_utxo (nd_pk nd) (nc_tip c)) \<and>
     (\<forall>p. t = Some p \<longrightarrow> hashBlock (nc_tip c) = ix_hash (h p))"

definition node_reflects :: "node_env \<Rightarrow> (uint256 \<Rightarrow> CBlock) \<Rightarrow> ptr set \<Rightarrow> index_heap \<Rightarrow> ptr option \<Rightarrow> node_coins \<Rightarrow> bool" where
  "node_reflects nd blk S h t c \<longleftrightarrow> node_ok nd blk \<and> (\<forall>p \<in> S. node_entry nd blk (h p)) \<and> tip_at nd h t c \<and>
     coins_of_chain nd blk h (path_of h t) c \<and>
     (\<forall>p un. nc_undo c p = Some un \<longrightarrow> p \<in> S \<and> undo_fits nd blk h p un)"

lemma tip_views:
  assumes "pubkey_ops_ok pk"
  shows "utxo_view (node_ops pk) (tip_inv pk) (tip_utxo pk) (cache_best db_best) cache_known"
    "coins_view (db_ops pk) (db_valid pk) (db_utxo pk) db_best (\<lambda>d t. True) coins_ok"
  using node_view [OF assms] tip_view [OF assms] by simp_all

text \<open>After a flush of the view the best block of \<^verbatim>\<open>pcoinsTip\<close> is the view's.\<close>

lemma flush_hashBlock: "Flush (node_ops pk) s = Some (r, v) \<Longrightarrow> hashBlock (c_base v) = hashBlock s"
  by (cases s) (auto simp: Flush_def node_ops_def cache_ops_def cache_BatchWrite_def split: if_splits option.splits)

lemma cache_best_tip: "hashBlock s \<noteq> 0 \<Longrightarrow> cache_best best s = hashBlock s"
  by (simp add: cache_best_def)

section \<open>The laws\<close>

lemma node_read_law:
  assumes "node_reflects nd blk S h t c" "ReadBlockFromDisk nd b = Some block"
  shows "block = blk (ix_hash b)"
proof -
  have "nd_hash nd block = ix_hash b" "nd_file nd (ix_nFile b) (ix_nDataPos b) = Some block"
    using assms(2) by (auto simp: ReadBlockFromDisk_def split: option.splits if_splits)
  then show ?thesis using assms(1) unfolding node_reflects_def node_ok_def by metis
qed

lemma node_flush_law:
  assumes "p \<in> S" "node_reflects nd blk S h (Some p) c"
  shows "\<exists>c'. node_flush nd a c = Some c' \<and> node_reflects nd blk S h (Some p) c'"
proof (cases "a \<or> GetCacheSize (nc_tip c) > nd_nCoinCacheSize nd \<or> nd_flush_due nd c")
  case True
  have r: "pubkey_ops_ok (nd_pk nd)" "nd_writable nd" "tip_inv (nd_pk nd) (nc_tip c)" "hashBlock (nc_tip c) = ix_hash (h p)"
      "ix_hash (h p) \<noteq> 0"
    using assms by (auto simp: node_reflects_def node_ok_def tip_at_def node_entry_def)
  have nz: "hashBlock (nc_tip c) \<noteq> 0" using r(4,5) by simp
  obtain v where v: "Flush (db_ops (nd_pk nd)) (nc_tip c) = Some (True, v)" "tip_inv (nd_pk nd) v"
      "tip_utxo (nd_pk nd) v = tip_utxo (nd_pk nd) (nc_tip c)"
    using coins_view.Flush_spec [OF tip_views(2) [OF r(1)] r(3) [unfolded tip_inv_def] nz]
    by (auto simp: tip_inv_def tip_utxo_def)
  have "hashBlock v = hashBlock (nc_tip c)" using v(1) by (auto simp: Flush_def split: option.splits prod.splits)
  then show ?thesis using True r v assms(2)
    by (auto simp: node_flush_def node_reflects_def tip_at_def coins_of_chain_def)
next
  case False
  then show ?thesis using assms(2) by (simp add: node_flush_def)
qed

lemma connected_entry_same: "same_entry b (connected_entry pos r b)"
  by (simp add: connected_entry_def Let_def same_entry_def RaiseValidity_def)

lemma undo_fits_on:
  assumes "index_ok h S" "\<And>q. q \<in> S \<Longrightarrow> same_links (h q) (h' q)" "p \<in> S"
  shows "undo_fits nd blk h' p un = undo_fits nd blk h p un"
proof -
  have "chain_coins blk g h' (path_of h' (ix_pprev (h' p))) = chain_coins blk g h (path_of h (ix_pprev (h p)))" for g
    using chain_coins_on [OF assms(1,2)] index_ok_prev [OF assms(1,3)] assms(2) [OF assms(3)]
    by (cases "ix_pprev (h p)") (auto simp: path_of_def same_links_def chain_coins_def chain_blocks_def)
  then show ?thesis using assms(2) [OF assms(3)] by (simp add: undo_fits_def same_links_def)
qed

lemma node_frame_law:
  assumes "index_ok h S" "\<And>q. t = Some q \<Longrightarrow> q \<in> S" "S \<subseteq> S'" "\<And>q. q \<in> S \<Longrightarrow> same_links (h q) (h' q)"
    "\<And>q. q \<in> S' \<Longrightarrow> q \<notin> S \<Longrightarrow> node_entry nd blk (h' q)" "node_reflects nd blk S h t c"
  shows "node_reflects nd blk S' h' t c"
proof -
  have "coins_of_chain nd blk h' (path_of h' t) c = coins_of_chain nd blk h (path_of h t) c"
    using chain_coins_on [OF assms(1,4)] assms(2)
    by (cases t) (auto simp: coins_of_chain_def path_of_def chain_coins_def chain_blocks_def)
  moreover have "tip_at nd h' t c = tip_at nd h t c" using assms(2,4) by (auto simp: tip_at_def same_links_def)
  moreover have "\<forall>q \<in> S'. node_entry nd blk (h' q)"
    using assms(4-6) node_entry_same unfolding node_reflects_def by blast
  moreover have "q \<in> S' \<and> undo_fits nd blk h' q un" if "nc_undo c q = Some un" for q un
    using assms(3,6) undo_fits_on [OF assms(1,4)] that unfolding node_reflects_def by blast
  ultimately show ?thesis using assms(6) by (simp add: node_reflects_def)
qed

lemma node_BIP30: "node_entry nd blk (h p) \<Longrightarrow> ix_hash (h p) \<noteq> nd_genesis nd \<Longrightarrow> fEnforceBIP30 (block_index_of h p)"
  by (simp add: node_entry_def fEnforceBIP30_def block_index_of_def)

lemma node_connect_Inr:
  assumes "node_connect nd h p block a c = Inr y"
  obtains res f where
    "ConnectBlock (node_ops (nd_pk nd)) ((nd_connect_env nd h p a c)\<lparr>cx_HashGenesisBlock := nd_genesis nd\<rparr>) block
       (nd_hash nd block) (block_index_of h p) False (nc_stake c) (CCoinsViewCache (nc_tip c)) = Inr res"
    "Flush (node_ops (nd_pk nd)) (cr_view res) = Some (True, f)"
    "y = (if nd_hash nd block = nd_genesis nd then (h p, c\<lparr>nc_tip := c_base f\<rparr>)
       else (connected_entry (nd_undo_pos nd c) res (h p), c\<lparr>nc_tip := c_base f, nc_stake := cr_stake res,
              nc_undo := (if undo_pos_null (h p) then (nc_undo c)(p \<mapsto> cr_vtxundo res) else nc_undo c)\<rparr>))"
proof -
  obtain res where 1: "ConnectBlock (node_ops (nd_pk nd)) ((nd_connect_env nd h p a c)\<lparr>cx_HashGenesisBlock := nd_genesis nd\<rparr>) block
       (nd_hash nd block) (block_index_of h p) False (nc_stake c) (CCoinsViewCache (nc_tip c)) = Inr res"
    using assms by (auto simp: node_connect_def Let_def sbind_eq_Inr)
  obtain f where 2: "Flush (node_ops (nd_pk nd)) (cr_view res) = Some (True, f)"
    using assms 1 by (cases "Flush (node_ops (nd_pk nd)) (cr_view res)") (auto simp: node_connect_def Let_def split: prod.splits bool.splits)
  show thesis by (rule that [OF 1 2]) (use assms 1 2 in \<open>simp add: node_connect_def Let_def split: if_split_asm\<close>)
qed

lemma node_connect_law:
  assumes "index_ok h S" "p \<in> S" "node_reflects nd blk S h (ix_pprev (h p)) c"
    "node_connect nd h p (blk (ix_hash (h p))) a c = Inr (b, c')"
  shows "same_entry (h p) b \<and> node_reflects nd blk S h (Some p) c'"
proof -
  let ?pk = "nd_pk nd" and ?x = "ix_hash (h p)" and ?w = "nc_tip c" and ?g = "nd_genesis nd"
  let ?txs = "vtx (blk (ix_hash (h p)))" and ?n = "ix_nHeight (h p)"
  let ?env = "(nd_connect_env nd h p a c)\<lparr>cx_HashGenesisBlock := ?g\<rparr>"
  have r: "node_ok nd blk" "pubkey_ops_ok ?pk" "node_entry nd blk (h p)" "tip_inv ?pk ?w" "u_ok (tip_utxo ?pk ?w)"
    using assms(2,3) by (auto simp: node_reflects_def node_ok_def tip_at_def)
  note V = tip_views(1) [OF r(2)]
  have x: "nd_hash nd (blk ?x) = ?x" "?x \<noteq> 0" "?n < 2 ^ 31" "?n = 0 \<longleftrightarrow> ?x = ?g" using r(3) by (auto simp: node_entry_def)
  obtain v where v: "chain_coins blk ?g h (path_of h (ix_pprev (h p))) = Some v" "noflag (tip_utxo ?pk ?w) = noflag v"
    using assms(3) by (auto simp: node_reflects_def coins_of_chain_def)
  obtain res f where res: "ConnectBlock (node_ops ?pk) ?env (blk ?x) ?x (block_index_of h p) False (nc_stake c) (CCoinsViewCache ?w) = Inr res"
      "Flush (node_ops ?pk) (cr_view res) = Some (True, f)"
      "(b, c') = (if ?x = ?g then (h p, c\<lparr>nc_tip := c_base f\<rparr>)
         else (connected_entry (nd_undo_pos nd c) res (h p), c\<lparr>nc_tip := c_base f, nc_stake := cr_stake res,
                nc_undo := (if undo_pos_null (h p) then (nc_undo c)(p \<mapsto> cr_vtxundo res) else nc_undo c)\<rparr>))"
    using node_connect_Inr [OF assms(4)] unfolding x(1) by metis
  have hb: "hashBlock (c_base f) = hashBlock (cr_view res)" by (rule flush_hashBlock [OF res(2)])
  have keep: "node_reflects nd blk S h (Some p) c'"
    if "tip_at nd h (Some p) c'" "coins_of_chain nd blk h (path_of h (Some p)) c'"
      "\<And>un. nc_undo c' p = Some un \<Longrightarrow> nc_undo c p \<noteq> Some un \<Longrightarrow> undo_fits nd blk h p un"
      "\<And>q. q \<noteq> p \<Longrightarrow> nc_undo c' q = nc_undo c q"
    using that assms(2,3) unfolding node_reflects_def by metis
  show ?thesis
  proof (cases "?x = ?g")
    case True
    have res': "ConnectBlock (node_ops ?pk) ?env (blk ?x) (cx_HashGenesisBlock ?env) (block_index_of h p) False (nc_stake c)
        (CCoinsViewCache ?w) = Inr res" using res(1) True by simp
    obtain f' where f: "Flush (node_ops ?pk) (cr_view res) = Some (True, f')" "tip_inv ?pk (c_base f')"
        "tip_utxo ?pk (c_base f') = tip_utxo ?pk ?w" "cache_best db_best (c_base f') = ?x"
      using utxo_view.connect_genesis_flush [OF V r(4) res', of ?x] x(2) by (auto simp: block_index_of_def)
    have "hashBlock (cr_view res) = ?x"
      using res' by (auto simp: ConnectBlock_def sbind_eq_Inr SetBestBlock_def block_index_of_def split: if_split_asm prod.splits)
    then have "tip_at nd h (Some p) c'" using res(3) True f res(2) r(5) hb by (auto simp: tip_at_def)
    moreover have "coins_of_chain nd blk h (path_of h (Some p)) c'"
      using v res(3) True f(1,3) res(2) by (auto simp: coins_of_chain_def chain_coins_step [OF assms(1,2)])
    ultimately show ?thesis using keep res(3) True by auto
  next
    case False
    then have n: "0 < ?n" using index_ok_height [OF assms(1,2)] x(4) by linarith
    have e: "list_all tx_storable ?txs" "distinct (map GetHash ?txs)" using r(3) False by (auto simp: node_entry_def)
    have bi: "bi_nHeight (block_index_of h p) = ?n" "bi_hash (block_index_of h p) = Some ?x" by (simp_all add: block_index_of_def)
    obtain uss u f' where f: "u_connect (tip_utxo ?pk ?w) ?txs ?n = Some (uss, u)" "cr_vtxundo res = tl uss"
        "Flush (node_ops ?pk) (cr_view res) = Some (True, f')" "tip_inv ?pk (c_base f')" "tip_utxo ?pk (c_base f') = u"
        "\<forall>tx \<in> set ?txs. tip_utxo ?pk ?w (GetHash tx) = None"
      using utxo_view.connect_flush [OF V r(4) res(1) e(1)] n x(2,3) False node_BIP30 [of nd blk h p, OF r(3) False] unfolding bi by auto
    have "hashBlock (cr_view res) = ?x"
      using res(1) False by (auto simp: ConnectBlock_def finish_block_def sbind_eq_Inr SetBestBlock_def Let_def block_index_of_def
          simp del: connect_txs.simps split: if_split_asm prod.splits)
    then have "tip_at nd h (Some p) c'" using res(3) False f(3-5) res(2) hb u_connect_ok [OF f(1) r(5) e(1) n x(3)]
      by (auto simp: tip_at_def)
    moreover obtain vss v' where v': "u_connect v ?txs ?n = Some (vss, v')" "noflag u = noflag v'"
      using u_connect_noflag [OF f(1) v(2)] by blast
    then have "coins_of_chain nd blk h (path_of h (Some p)) c'"
      using v(1) res(2,3) False f(3,5) by (auto simp: coins_of_chain_def chain_coins_step [OF assms(1,2)])
    moreover have "undo_fits nd blk h p (tl uss)"
      unfolding undo_fits_def using v f(1,6) r(5) fresh_ids_distinct [OF e(2)] by blast
    ultimately show ?thesis using keep res(3) False f(2) connected_entry_same by (auto split: if_splits)
  qed
qed

lemma node_reflects_stake: "node_reflects nd blk S h t c \<Longrightarrow> node_reflects nd blk S h t (c\<lparr>nc_stake := m\<rparr>)"
  by (simp add: node_reflects_def tip_at_def coins_of_chain_def)

lemma DisconnectBlock_Inr:
  assumes "DisconnectBlock ops b m s = Inr (f, m', s')"
  shows "\<exists>un. xb_undo b = Some un" "hashBlock s' = xb_prev b"
  using assms by (auto simp: DisconnectBlock_def sbind_eq_Inr SetBestBlock_def Let_def split: prod.splits if_splits option.splits)

text \<open>The block as \<^verbatim>\<open>DisconnectTip\<close> hands it over.\<close>

abbreviation node_block :: "node_env \<Rightarrow> index_heap \<Rightarrow> ptr \<Rightarrow> CBlock \<Rightarrow> node_coins \<Rightarrow> block_data" where
  "node_block nd h p block c \<equiv>
     \<lparr>xb_hash = ix_hash (h p), xb_prev = (case ix_pprev (h p) of None \<Rightarrow> 0 | Some q \<Rightarrow> ix_hash (h q)),
      xb_nHeight = ix_nHeight (h p), xb_vtx = vtx block,
      xb_undo = (if undo_pos_null (h p) then None else nc_undo c p),
      xb_erase = nd_erase nd c, xb_checkpoint = nd_checkpoint nd h p c\<rparr>"

lemma node_disconnect_None:
  assumes "node_disconnect nd h p block c = (None, c')"
  obtains q un m s v where "ix_pprev (h p) = Some q" "nc_undo c p = Some un" "xb_undo (node_block nd h p block c) = Some un"
    "DisconnectBlock (node_ops (nd_pk nd)) (node_block nd h p block c) (nc_stake c) (CCoinsViewCache (nc_tip c)) = Inr (True, m, s)"
    "Flush (node_ops (nd_pk nd)) s = Some (True, v)" "c' = c\<lparr>nc_tip := c_base v, nc_stake := m\<rparr>"
proof -
  let ?b = "node_block nd h p block c"
  obtain f m s where d: "DisconnectBlock (node_ops (nd_pk nd)) ?b (nc_stake c) (CCoinsViewCache (nc_tip c)) = Inr (f, m, s)"
    using assms by (cases "DisconnectBlock (node_ops (nd_pk nd)) ?b (nc_stake c) (CCoinsViewCache (nc_tip c))")
      (auto simp: node_disconnect_def Let_def split: if_splits)
  have f: "f" using assms d by (auto simp: node_disconnect_def Let_def split: if_splits)
  obtain v where v: "Flush (node_ops (nd_pk nd)) s = Some (True, v)"
    using assms d f by (cases "Flush (node_ops (nd_pk nd)) s") (auto simp: node_disconnect_def Let_def split: if_splits bool.splits)
  have c': "c' = c\<lparr>nc_tip := c_base v, nc_stake := m\<rparr>" "\<not> (\<not> undo_pos_null (h p) \<and> ix_pprev (h p) = None)"
    using assms d f v by (auto simp: node_disconnect_def Let_def split: if_splits)
  obtain un where un: "xb_undo ?b = Some un" using DisconnectBlock_Inr(1) [OF d] by blast
  then have "\<not> undo_pos_null (h p)" "nc_undo c p = Some un" by (simp_all split: if_splits)
  then show thesis using that c' un d f v by auto
qed

lemma node_disconnect_law:
  assumes "index_ok h S" "p \<in> S" "node_reflects nd blk S h (Some p) c"
    "node_disconnect nd h p (blk (ix_hash (h p))) c = (e, c')"
  shows "(e = None \<longrightarrow> ix_pprev (h p) \<noteq> None) \<and> node_reflects nd blk S h (if e = None then ix_pprev (h p) else Some p) c'"
proof (cases e)
  case (Some x)
  then have "c' = c \<or> (\<exists>m. c' = c\<lparr>nc_stake := m\<rparr>)"
    using assms(4) by (auto simp: node_disconnect_def Let_def split: if_splits sum.splits prod.splits option.splits bool.splits)
  then show ?thesis using assms(3) Some node_reflects_stake by auto
next
  case None
  let ?pk = "nd_pk nd" and ?w = "nc_tip c" and ?g = "nd_genesis nd" and ?B = "node_block nd h p (blk (ix_hash (h p))) c"
  let ?txs = "vtx (blk (ix_hash (h p)))" and ?n = "ix_nHeight (h p)"
  have "node_disconnect nd h p (blk (ix_hash (h p))) c = (None, c')" using assms(4) None by simp
  then obtain q un m s v where d: "ix_pprev (h p) = Some q" "nc_undo c p = Some un" "xb_undo ?B = Some un"
      "DisconnectBlock (node_ops ?pk) ?B (nc_stake c) (CCoinsViewCache ?w) = Inr (True, m, s)"
      "Flush (node_ops ?pk) s = Some (True, v)" "c' = c\<lparr>nc_tip := c_base v, nc_stake := m\<rparr>"
    by (rule node_disconnect_None)
  have q: "q \<in> S" "?n = ix_nHeight (h q) + 1" using index_ok_prev [OF assms(1,2) d(1)] by auto
  have r: "pubkey_ops_ok ?pk" "node_entry nd blk (h p)" "node_entry nd blk (h q)" "tip_inv ?pk ?w"
      "undo_fits nd blk h p un" "coins_of_chain nd blk h (path_of h (Some p)) c"
    using assms(2,3) d(2) q(1) by (auto simp: node_reflects_def node_ok_def tip_at_def)
  note V = tip_views(1) [OF r(1)]
  have n: "0 < ?n" "?n < 2 ^ 31" "ix_hash (h p) \<noteq> ?g" "ix_hash (h q) \<noteq> 0"
    using q(2) index_ok_height [OF assms(1) q(1)] r(2,3) by (auto simp: node_entry_def)
  have e: "list_all tx_storable ?txs" "?txs \<noteq> []" "\<not> spends_inputs (hd ?txs)" using r(2) n(3) by (auto simp: node_entry_def)
  obtain v0 u uss u' where u: "chain_coins blk ?g h (path_of h (ix_pprev (h p))) = Some v0" "noflag u = noflag v0" "u_ok u"
      "fresh_ids u ?txs ?n" "u_connect u ?txs ?n = Some (uss, u')" "un = tl uss"
    using r(5) by (auto simp: undo_fits_def)
  obtain vss v1 where v1: "u_connect v0 ?txs ?n = Some (vss, v1)" "noflag u' = noflag v1"
    using u_connect_noflag [OF u(5,2)] by blast
  have "chain_coins blk ?g h (path_of h (Some p)) = Some v1"
    using u(1) v1(1) n(3) by (simp add: chain_coins_step [OF assms(1,2)])
  then have w: "noflag (tip_utxo ?pk ?w) = noflag u'" using r(6) v1(2) by (simp add: coins_of_chain_def)
  have "\<exists>v'. Flush (node_ops ?pk) s = Some (True, v') \<and> tip_inv ?pk (c_base v') \<and> noflag (tip_utxo ?pk (c_base v')) = noflag u \<and>
      cache_best db_best (c_base v') = xb_prev ?B"
    by (rule utxo_view.disconnect_flush [OF V, where b = ?B, OF _ u(3) _ _ _ _ r(4) w _ _ _ _ d(4)])
      (use u(4-6) e n d(1,3) in simp_all)
  then have v: "tip_inv ?pk (c_base v)" "noflag (tip_utxo ?pk (c_base v)) = noflag u" using d(5) by auto
  have "hashBlock s = xb_prev ?B" by (rule DisconnectBlock_Inr(2) [OF d(4)])
  then have "hashBlock (c_base v) = ix_hash (h q)" using flush_hashBlock [OF d(5)] d(1) by simp
  then have "tip_at nd h (ix_pprev (h p)) c'" using v u_ok_noflag [OF v(2) [symmetric] u(3)] d(1,6) by (simp add: tip_at_def)
  moreover have "coins_of_chain nd blk h (path_of h (ix_pprev (h p))) c'" using u(1,2) v(2) d(6) by (simp add: coins_of_chain_def)
  ultimately show ?thesis using assms(3) None d(1,6) by (simp add: node_reflects_def)
qed

interpretation nl: ledger_laws "node_ledger nd" blk "node_reflects nd blk" "node_entry nd blk"
  for nd :: node_env and blk :: "uint256 \<Rightarrow> CBlock"
proof (unfold_locales, goal_cases)
  case 1 then show ?case by (simp add: node_ledger_def) (metis node_read_law)
next
  case 2 then show ?case using node_connect_law by (simp add: node_ledger_def)
next
  case 3 then show ?case using node_disconnect_law by (simp add: node_ledger_def)
next
  case 4 then show ?case using node_flush_law by (simp add: node_ledger_def)
next
  case 5 then show ?case using node_frame_law by blast
qed

text \<open>What the locale proves, on the node: the coins belong to the active chain.\<close>

definition node_safe :: "node_env \<Rightarrow> (uint256 \<Rightarrow> CBlock) \<Rightarrow> ptr set \<Rightarrow> node_coins chain_state \<Rightarrow> bool" where
  "node_safe nd blk S s \<longleftrightarrow> chain_ok S s \<and> node_reflects nd blk S (st_index s) (Tip (st_active s)) (st_coins s)"

lemma node_safe_locale: "node_safe nd blk = nl.safe nd blk"
  by (simp add: fun_eq_iff node_safe_def nl.safe_def)

lemma node_safe_coins:
  assumes "node_safe nd blk S s"
  shows "coins_of_chain nd blk (st_index s) (st_active s) (st_coins s)"
proof -
  have "st_active s = path_of (st_index s) (Tip (st_active s))"
  proof (cases "Tip (st_active s)")
    case None
    have "index_ok (st_index s) S" "is_chain (st_index s) S (st_active s)" using assms by (auto simp: node_safe_def chain_ok_def)
    then have "st_active s = []" using Tip_path None by (auto simp: is_chain_def)
    then show ?thesis using None by (simp add: path_of_def)
  next
    case (Some p)
    then show ?thesis using chain_tip [of S s p] assms by (simp add: node_safe_def path_of_def)
  qed
  then show ?thesis using assms by (metis node_safe_def node_reflects_def)
qed

end
