(* ===== verification/BlockRules.thy ===== *)
theory BlockRules
  imports BlockChecks
begin

unbundle bit_operations_syntax

text \<open>
  What the checks of a block establish: the order of coinbase and coinstake, the limits, the sanity
  of every transaction, no zerocoin serial twice, the Merkle root; and that under the rule on the
  height in the coinbase blocks of different heights have different coinbases.
\<close>

section \<open>An accepted block\<close>

definition tx_serials :: "block_env \<Rightarrow> CTransaction \<Rightarrow> int list" where
  "tx_serials env tx =
     (if tx_IsZerocoinSpend tx then map (be_serial env) (filter (\<lambda>i. IsZerocoinSpend (scriptSig i)) (vin tx)) else [])"

lemma add_serials_spec:
  "add_serials env is acc = Inr r \<Longrightarrow> distinct acc \<Longrightarrow>
   r = acc @ map (be_serial env) (filter (\<lambda>i. IsZerocoinSpend (scriptSig i)) is) \<and> distinct r"
proof (induction "is" arbitrary: acc)
  case (Cons i js)
  show ?case
  proof (cases "IsZerocoinSpend (scriptSig i)")
    case True
    then have "be_serial env i \<notin> set acc" "add_serials env js (acc @ [be_serial env i]) = Inr r"
      using Cons.prems(1) by (simp_all split: if_split_asm)
    then have "r = (acc @ [be_serial env i]) @ map (be_serial env) (filter (\<lambda>i. IsZerocoinSpend (scriptSig i)) js)" "distinct r"
      using Cons.IH [of "acc @ [be_serial env i]"] Cons.prems(2) by (simp_all only: distinct_append, simp_all)
    then show ?thesis using True by simp
  qed (use Cons in simp)
qed simp

lemma check_txs_spec:
  "check_txs env z txs acc = Inr u \<Longrightarrow> distinct acc \<Longrightarrow>
   (\<forall>tx \<in> set txs. CheckTransaction (be_check env) tx z = Inr ()) \<and> distinct (acc @ concat (map (tx_serials env) txs))"
proof (induction txs arbitrary: acc)
  case (Cons tx txs)
  have t: "CheckTransaction (be_check env) tx z = Inr ()" using Cons.prems(1) by (auto split: sum.splits)
  obtain acc' where a: "(if tx_IsZerocoinSpend tx then add_serials env (vin tx) acc else Inr acc) = Inr acc'"
    "check_txs env z txs acc' = Inr u"
    using Cons.prems(1) t by (auto simp: sbind_eq_Inr)
  have "acc' = acc @ tx_serials env tx \<and> distinct acc'"
  proof (cases "tx_IsZerocoinSpend tx")
    case True
    then show ?thesis using a(1) add_serials_spec [OF _ Cons.prems(2), of env "vin tx" acc'] by (simp only: tx_serials_def if_True) 
  qed (use a(1) Cons.prems(2) in \<open>simp add: tx_serials_def\<close>)
  then have acc': "acc' = acc @ tx_serials env tx" "distinct acc'" by blast+
  show ?case using Cons.IH [OF a(2) acc'(2)] t Cons.prems(2) by (simp add: acc'(1))
qed simp

text \<open>What every accepted block satisfies.\<close>

definition block_sane :: "block_env \<Rightarrow> CBlock \<Rightarrow> bool" where
  "block_sane env block \<longleftrightarrow>
     (let txs = vtx block; z = (block_time block > be_Zerocoin_StartTime env)
      in txs \<noteq> [] \<and> IsCoinBase (hd txs) \<and> (\<forall>tx \<in> set (tl txs). \<not> IsCoinBase tx) \<and>
         (IsProofOfStake block \<longrightarrow> IsCoinStake (txs ! 1) \<and> (\<forall>tx \<in> set (drop 2 txs). \<not> IsCoinStake tx) \<and>
            (\<exists>txout. vout (hd txs) = [txout] \<and> CTxOut_IsEmpty txout)) \<and>
         size_block block \<le> MAX_BLOCK_SIZE_CURRENT \<and>
         sum_list (map GetLegacySigOpCount txs) \<le> (if z then MAX_BLOCK_SIGOPS_CURRENT else MAX_BLOCK_SIGOPS_LEGACY) \<and>
         (\<forall>tx \<in> set txs. CheckTransaction (be_check env) tx z = Inr ()) \<and>
         distinct (concat (map (tx_serials env) txs)) \<and>
         block_time block \<le> be_AdjustedTime env + (if IsProofOfStake block then 180 else 7200))"

lemma foldl_sum: "foldl (\<lambda>n x. n + f x) k xs = k + sum_list (map f xs)" for k :: nat
  by (induction xs arbitrary: k) auto

lemma CheckBlock_sane:
  assumes "CheckBlock env s block fCheckPOW fCheckMerkleRoot = Inr ()"
  shows "block_sane env block"
proof -
  let ?z = "block_time block > be_Zerocoin_StartTime env"
  have h: "CheckBlockHeader env block (if IsProofOfWork block then fCheckPOW else IsProofOfWork block) = None"
    using assms unfolding CheckBlock_def by (auto split: option.splits)
  have c: "block_time block \<le> be_AdjustedTime env + (if IsProofOfStake block then 180 else 7200)"
    "vtx block \<noteq> []" "size_block block \<le> MAX_BLOCK_SIZE_CURRENT"
    "check_order block = Inr ()" "check_txs env ?z (vtx block) [] = Inr ()"
    "foldl (\<lambda>n tx. n + GetLegacySigOpCount tx) 0 (vtx block) \<le> (if ?z then MAX_BLOCK_SIGOPS_CURRENT else MAX_BLOCK_SIGOPS_LEGACY)"
    using assms unfolding CheckBlock_def h
    by (auto simp: sbind_eq_Inr Let_def simp del: if_split split: if_split_asm)
  have o: "IsCoinBase (hd (vtx block))" "\<forall>tx \<in> set (tl (vtx block)). \<not> IsCoinBase tx"
    "IsProofOfStake block \<longrightarrow> IsCoinStake (vtx block ! 1) \<and> (\<forall>tx \<in> set (drop 2 (vtx block)). \<not> IsCoinStake tx) \<and>
       length (vout (hd (vtx block))) = 1 \<and> CTxOut_IsEmpty (hd (vout (hd (vtx block))))"
    using c(4) by (auto simp: check_order_def list_ex_iff split: if_split_asm)
  moreover have "\<exists>txout. vout (hd (vtx block)) = [txout] \<and> CTxOut_IsEmpty txout" if "IsProofOfStake block"
    using o(3) that by (cases "vout (hd (vtx block))") auto
  ultimately show ?thesis using c check_txs_spec [OF c(5)]
    by (simp add: block_sane_def Let_def foldl_sum)
qed

lemma CheckBlock_root:
  assumes "CheckBlock env s block fCheckPOW True = Inr ()"
  shows "BuildMerkleTree block = (hashMerkleRoot block, False)"
proof -
  have "CheckBlockHeader env block (if IsProofOfWork block then fCheckPOW else IsProofOfWork block) = None"
    using assms unfolding CheckBlock_def by (auto split: option.splits)
  then have "hashMerkleRoot block = fst (BuildMerkleTree block)" "\<not> snd (BuildMerkleTree block)"
    using assms unfolding CheckBlock_def by (auto split: if_split_asm)
  then show ?thesis by (cases "BuildMerkleTree block") simp
qed

text \<open>Not more than one coinbase, and it spends nothing.\<close>

lemma block_sane_first: "block_sane env block \<Longrightarrow> vtx block \<noteq> [] \<and> \<not> spends_inputs (hd (vtx block))"
  by (simp add: block_sane_def spends_inputs_def Let_def)

section \<open>The height in the coinbase\<close>

lemma push_int64_prefix_free:
  assumes "0 \<le> n" "n < 2 ^ 31" "0 \<le> m" "m < 2 ^ 31" "take (length (push_int64 n)) sig = push_int64 n"
    "take (length (push_int64 m)) sig = push_int64 m"
  shows "n = m"
proof -
  have short: "length (serialize k) \<le> 5" if "0 \<le> k" "k < 2 ^ 31" for k
    using length_serialize [of k 4] that by simp
  have nonempty: "serialize k \<noteq> []" if "k \<noteq> 0" for k
    using set_vch_serialize [of k] that by (auto simp: set_vch_def)
  define form where "form k = (if k = 0 then [0 :: 8 word] else if k \<le> 16 then [word_of_int (k + 80)]
      else word_of_nat (length (serialize k)) # serialize k)" for k :: int
  have form: "push_int64 k = form k" if "0 \<le> k" "k < 2 ^ 31" for k
  proof -
    have "length (serialize k) < OP_PUSHDATA1" using short [OF that] by simp
    then show ?thesis using that by (simp add: push_int64_def push_data_def form_def)
  qed
  have byte: "unat (word_of_nat j :: 8 word) = j" if "j \<le> 200" for j using that by (simp add: unat_of_nat)
  have first: "unat (hd (form k)) = (if k = 0 then 0 else if k \<le> 16 then nat (k + 80) else length (serialize k))"
    if "0 \<le> k" "k < 2 ^ 31" for k
  proof -
    have "(word_of_int (k + 80) :: 8 word) = word_of_nat (nat (k + 80))" using that by simp
    then show ?thesis using short [OF that] byte [of "nat (k + 80)"] byte [of "length (serialize k)"] that
      by (auto simp: form_def)
  qed
  have hd: "sig \<noteq> []" "hd sig = hd (form n)" "hd sig = hd (form m)"
    using assms(5,6) unfolding form [OF assms(1,2)] form [OF assms(3,4)] by (cases sig; auto simp: form_def split: if_splits)+
  have eq: "unat (hd (form n)) = unat (hd (form m))" using hd by simp
  have l: "0 < k \<Longrightarrow> 1 \<le> length (serialize k)" for k using nonempty [of k] by (cases "serialize k") auto
  consider "n \<le> 16" | "16 < n" by linarith
  then show ?thesis
  proof cases
    case 1
    then show ?thesis using eq assms(1-4) short [OF assms(3,4)] l [of m]
      unfolding first [OF assms(1,2)] first [OF assms(3,4)] by (auto split: if_splits)
  next
    case 2
    have m: "16 < m" "length (serialize n) = length (serialize m)"
      using eq assms(1-4) 2 short [OF assms(1,2)] l [of n]
      unfolding first [OF assms(1,2)] first [OF assms(3,4)] by (auto split: if_splits)
    have "length (form n) = length (form m)" using 2 m by (simp add: form_def)
    then have "form n = form m" using assms(5,6) unfolding form [OF assms(1,2)] form [OF assms(3,4)] by metis
    then have "serialize n = serialize m" using 2 m(1) by (simp add: form_def)
    then show ?thesis using set_vch_serialize by metis
  qed
qed

lemma ContextualCheckBlock_height:
  assumes "ContextualCheckBlock env s block p = Inr ()" "hd_nVersion block \<ge> 2"
    "IsSuperMajority (be_to_check env) (st_index s) 2 p (be_enforce env)"
    "n = (case p of None \<Rightarrow> 0 | Some p \<Rightarrow> ix_nHeight (st_index s p) + 1)"
  shows "take (length (push_int64 n)) (scriptSig (hd (vin (hd (vtx block))))) = push_int64 n"
  using assms by (auto simp: ContextualCheckBlock_def Let_def split: if_split_asm)

end
