(* ===== verification/NodeSteps.thy ===== *)
theory NodeSteps
  imports AcceptBlock NodeChain BlockRules
begin

unbundle bit_operations_syntax

text \<open>
  The coins of the node belong to its active chain in every state it can reach: by starting up, by
  taking in blocks, by activating the best chain, and by invalidating and reconsidering blocks,
  whatever these calls return.
\<close>

section \<open>The invariant\<close>

abbreviation entries :: "node_state \<Rightarrow> ptr set" where
  "entries s \<equiv> snd ` set (st_map (ns_chain s))"

definition chain_safe :: "accept_env \<Rightarrow> (uint256 \<Rightarrow> CBlock) \<Rightarrow> node_state \<Rightarrow> bool" where
  "chain_safe env blk s \<longleftrightarrow> node_safe (node_at env s) blk (entries s) (ns_chain s) \<and> map_of (st_map (ns_chain s)) 0 = None"

text \<open>What reading any place of the block files can give.\<close>

definition disk_ok :: "accept_env \<Rightarrow> (uint256 \<Rightarrow> CBlock) \<Rightarrow> node_state \<Rightarrow> bool" where
  "disk_ok env blk s \<longleftrightarrow> (\<forall>n p b. read_block_file (ns_files s) n p = Some b \<longrightarrow> blk (accept_hash env b) = b)"

definition env_ok :: "accept_env \<Rightarrow> (uint256 \<Rightarrow> CBlock) \<Rightarrow> bool" where
  "env_ok env blk \<longleftrightarrow> pubkey_ops_ok (nd_pk (ae_node env)) \<and> nd_writable (ae_node env) \<and>
     hashPrevBlock (blk (nd_genesis (ae_node env))) = 0 \<and> (\<forall>s. ae_new env s \<notin> entries s) \<and>
     accept_hash env (ae_genesis env) = nd_genesis (ae_node env)"

text \<open>A block that may come in: its hash identifies it and its transactions can be stored.\<close>

definition block_fits :: "accept_env \<Rightarrow> (uint256 \<Rightarrow> CBlock) \<Rightarrow> node_state \<Rightarrow> CBlock \<Rightarrow> bool" where
  "block_fits env blk s b \<longleftrightarrow>
     (let x = accept_hash env b in blk x = b \<and> x \<noteq> 0 \<and>
        (x \<noteq> nd_genesis (ae_node env) \<longrightarrow> list_all tx_storable (vtx b) \<and> distinct (map GetHash (vtx b)) \<and>
           x \<noteq> 0x00000000000a4d0a398161ffc163c503763b1f4360639393e0e4c8e300e0caec \<and>
           x \<noteq> 0x00000000000743f190a18c5577a3c2d2a1f610ae9601ac046a38084ccb7cd721) \<and>
        (\<forall>q. map_of (st_map (ns_chain s)) (hashPrevBlock b) = Some q \<longrightarrow> ix_nHeight (st_index (ns_chain s) q) + 1 < 2 ^ 31))"

section \<open>Parts of the state\<close>

lemma node_at_simps [simp]:
  "nd_pk (node_at env s) = nd_pk (ae_node env)" "nd_hash (node_at env s) = accept_hash env"
  "nd_genesis (node_at env s) = nd_genesis (ae_node env)" "nd_writable (node_at env s) = nd_writable (ae_node env)"
  "nd_file (node_at env s) = read_block_file (ns_files s)"
  by (simp_all add: node_at_def accept_hash_def fun_eq_iff)

lemma node_ok_at: "node_ok (node_at env s) blk \<longleftrightarrow> pubkey_ops_ok (nd_pk (ae_node env)) \<and> nd_writable (ae_node env) \<and> disk_ok env blk s"
  by (simp add: node_ok_def disk_ok_def)

lemma node_entry_at: "node_entry (node_at env s) = node_entry (node_at env s')"
  by (simp add: fun_eq_iff node_entry_def)

text \<open>The invariant depends on the block files only through \<open>disk_ok\<close>.\<close>

lemma node_safe_at:
  "node_safe (node_at env s) blk S c \<Longrightarrow> disk_ok env blk s' \<Longrightarrow> node_safe (node_at env s') blk S c"
  unfolding node_safe_def node_reflects_def node_ok_at node_entry_at [of env s s']
  by (simp add: tip_at_def coins_of_chain_def undo_fits_def)

lemma chain_safe_disk: "chain_safe env blk s \<Longrightarrow> disk_ok env blk s"
  by (simp add: chain_safe_def node_safe_def node_reflects_def node_ok_at)

lemma disk_ok_files: "ns_files s' = ns_files s \<Longrightarrow> disk_ok env blk s' = disk_ok env blk s"
  by (simp add: disk_ok_def)

lemma chain_safe_same:
  assumes "chain_safe env blk s" "ns_chain s' = ns_chain s" "disk_ok env blk s'" shows "chain_safe env blk s'"
  using assms node_safe_at unfolding chain_safe_def by metis

text \<open>An operation on the chain, through the facts of the ledger.\<close>

lemma chain_safe_step:
  assumes "chain_safe env blk s" "nl.safe (node_at env s) blk (entries s) c" "st_map c = st_map (ns_chain s)"
  shows "chain_safe env blk (s\<lparr>ns_chain := c\<rparr>)"
proof -
  have "node_safe (node_at env s) blk (entries s) c" using assms(2) by (simp add: node_safe_locale)
  then have "node_safe (node_at env (s\<lparr>ns_chain := c\<rparr>)) blk (entries s) c"
    by (rule node_safe_at) (use chain_safe_disk [OF assms(1)] in \<open>simp add: disk_ok_def\<close>)
  then show ?thesis using assms(1,3) by (simp add: chain_safe_def)
qed

lemma chain_safe_locale: "chain_safe env blk s \<Longrightarrow> nl.safe (node_at env s) blk (entries s) (ns_chain s)"
  by (simp add: chain_safe_def node_safe_locale)

definition holds_chain :: "accept_env \<Rightarrow> (uint256 \<Rightarrow> CBlock) \<Rightarrow> node_state \<Rightarrow> node_state \<Rightarrow> bool" where
  "holds_chain env blk s s' \<longleftrightarrow> chain_safe env blk s' \<and> ns_files s' = ns_files s \<and> st_map (ns_chain s') = st_map (ns_chain s)"

lemma holds_chain_step:
  assumes "chain_safe env blk s" "nl.safe (node_at env s) blk (entries s) c" "st_map c = st_map (ns_chain s)"
  shows "holds_chain env blk s (s\<lparr>ns_chain := c\<rparr>)"
  using chain_safe_step [OF assms] assms(3) by (simp add: holds_chain_def)

lemma node_Activate_safe:
  assumes "chain_safe env blk s" "node_Activate env pblock a s = Some (r, s')"
    "\<And>b. pblock = Some b \<Longrightarrow> blk (accept_hash env b) = b"
  shows "holds_chain env blk s s'"
proof -
  obtain e c where c: "ActivateBestChain (node_ledger (node_at env s)) (accept_hash env) pblock a (ns_chain s) = Some (e, c)"
      "s' = s\<lparr>ns_chain := c\<rparr>"
    using assms(2) by (auto simp: node_Activate_def on_chain_def split: option.splits)
  have "nl.safe (node_at env s) blk (entries s) c \<and> moves (ns_chain s) c"
    using nl.ActivateBestChain_safe [OF c(1) refl chain_safe_locale [OF assms(1)] assms(3)] unfolding snd_conv .
  then show ?thesis unfolding c(2) moves_def by (intro holds_chain_step [OF assms(1)]) simp_all
qed

lemma node_Invalidate_safe:
  assumes "chain_safe env blk s" "node_Invalidate env p s = Some (r, s')" shows "holds_chain env blk s s'"
proof -
  obtain e c where c: "InvalidateBlock (node_ledger (node_at env s)) p (ns_chain s) = Some (e, c)" "s' = s\<lparr>ns_chain := c\<rparr>"
    using assms(2) by (auto simp: node_Invalidate_def on_chain_def split: option.splits)
  then show ?thesis
    using nl.InvalidateBlock_safe [OF chain_safe_locale [OF assms(1)] c(1)] holds_chain_step [OF assms(1)] by blast
qed

lemma ReconsiderBlock_map:
  assumes "chain_safe env blk s" "ReconsiderBlock p (ns_chain s) = Some c" shows "st_map c = st_map (ns_chain s)"
proof -
  let ?c = "ns_chain s"
  obtain c1 where c1: "reconsider_all p (ix_nHeight (st_index ?c p)) (map snd (st_map ?c)) ?c = Some c1"
      "clear_ancestors (Some p) c1 = Some c"
    using assms(2) by (auto simp: ReconsiderBlock_def split: option.splits)
  have "chain_ok (entries s) ?c" using assms(1) by (simp add: chain_safe_def node_safe_def)
  from nl.reconsider_all_settles [OF c1(1) this] have "st_map c1 = st_map ?c" by (simp add: nl.settles_def)
  then show ?thesis using nl.clear_ancestors_eases [OF c1(2)] by (simp add: eases_def)
qed

lemma node_Reconsider_safe:
  assumes "chain_safe env blk s" "node_Reconsider p s = Some s'" shows "holds_chain env blk s s'"
proof -
  obtain c where c: "ReconsiderBlock p (ns_chain s) = Some c" "s' = s\<lparr>ns_chain := c\<rparr>"
    using assms(2) by (auto simp: node_Reconsider_def)
  show ?thesis unfolding c(2)
    by (rule holds_chain_step [OF assms(1) nl.ReconsiderBlock_safe [OF chain_safe_locale [OF assms(1)] c(1)]
          ReconsiderBlock_map [OF assms(1) c(1)]])
qed

section \<open>Headers\<close>

text \<open>What a block is besides, when it gets an entry.\<close>

definition block_first :: "accept_env \<Rightarrow> CBlock \<Rightarrow> bool" where
  "block_first env b \<longleftrightarrow> (accept_hash env b = nd_genesis (ae_node env) \<or> vtx b \<noteq> [] \<and> \<not> spends_inputs (hd (vtx b)))"

lemma AddToBlockIndex_node:
  assumes "chain_safe env blk s" "env_ok env blk" "block_fits env blk s b" "block_first env b"
    "accept_hash env b = nd_genesis (ae_node env) \<or> map_of (st_map (ns_chain s)) (hashPrevBlock b) \<noteq> None"
    "AddToBlockIndex k b (accept_hash env b) (ae_new env s) (ns_chain s) = Some (p, c)"
    "ns_files s' = ns_files s" "ns_chain s' = c"
  shows "chain_safe env blk s' \<and> p \<in> entries s'"
proof -
  let ?x = "accept_hash env b" and ?n = "ae_new env s" and ?c = "ns_chain s" and ?S = "entries s"
  have n: "?n \<notin> ?S" using assms(2) by (simp add: env_ok_def)
  have i: "index_ok (st_index ?c) ?S" using assms(1) by (simp add: chain_safe_def node_safe_def chain_ok_def)
  have new: "node_entry (node_at env s) blk (st_index c ?n) \<and> ?x \<noteq> 0 \<and> p = ?n \<and> st_map c = st_map ?c @ [(?x, ?n)]"
    if None: "map_of (st_map ?c) ?x = None"
  proof -
    note A = AddToBlockIndex_spec [OF i n _ assms(6) None]
    then have A: "p = ?n" "ix_hash (st_index c ?n) = ?x" "st_map c = st_map ?c @ [(?x, ?n)]"
      "ix_nHeight (st_index c ?n) = (case map_of (st_map ?c) (hashPrevBlock b) of None \<Rightarrow> 0 | Some q \<Rightarrow> ix_nHeight (st_index ?c q) + 1)"
      by auto
    have q: "0 \<le> ix_nHeight (st_index ?c q) \<and> ix_nHeight (st_index ?c q) + 1 < 2 ^ 31"
      if "map_of (st_map ?c) (hashPrevBlock b) = Some q" for q
    proof -
      have "q \<in> ?S" using map_of_SomeD [OF that] by force
      then show ?thesis using index_ok_height [OF i] assms(3) that by (simp add: block_fits_def Let_def)
    qed
    have h: "ix_nHeight (st_index c ?n) < 2 ^ 31" "ix_nHeight (st_index c ?n) = 0 \<longleftrightarrow> ?x = nd_genesis (ae_node env)"
    proof -
      show "ix_nHeight (st_index c ?n) < 2 ^ 31" using q unfolding A(4) by (auto split: option.split)
      show "ix_nHeight (st_index c ?n) = 0 \<longleftrightarrow> ?x = nd_genesis (ae_node env)"
      proof (cases "?x = nd_genesis (ae_node env)")
        case True
        have "blk ?x = b" using assms(3) by (simp add: block_fits_def Let_def)
        then have "hashPrevBlock b = 0" using True assms(2) by (simp add: env_ok_def)
        then show ?thesis using True assms(1) unfolding A(4) by (simp add: chain_safe_def)
      next
        case False
        then obtain q' where "map_of (st_map ?c) (hashPrevBlock b) = Some q'" using assms(5) by blast
        then show ?thesis using False q [of q'] unfolding A(4) by simp
      qed
    qed
    have b: "blk ?x = b" "?x \<noteq> 0" using assms(3) by (simp_all add: block_fits_def Let_def)
    show ?thesis unfolding node_entry_def A(2) using h b A(1,3) assms(3,4)
      by (auto simp: block_fits_def block_first_def Let_def)
  qed
  have "nl.safe (node_at env s) blk (if map_of (st_map ?c) ?x = None then insert ?n ?S else ?S) c"
    by (rule nl.AddToBlockIndex_safe [OF chain_safe_locale [OF assms(1)] n assms(6)]) (use new in blast)
  then have safe: "node_safe (node_at env s) blk (if map_of (st_map ?c) ?x = None then insert ?n ?S else ?S) c"
    by (simp add: node_safe_locale)
  have old: "c = ?c \<and> (?x, p) \<in> set (st_map ?c)" if "map_of (st_map ?c) ?x = Some q" for q
    using assms(6) that map_of_SomeD [OF that] by (simp add: AddToBlockIndex_def)
  have e: "entries s' = (if map_of (st_map ?c) ?x = None then insert ?n ?S else ?S)" "p \<in> entries s'"
    "map_of (st_map c) 0 = None"
    using new old assms(1,8) by (cases "map_of (st_map ?c) ?x"; force simp: chain_safe_def map_add_def)+
  have "disk_ok env blk s'" using chain_safe_disk [OF assms(1)] assms(7) disk_ok_files by blast
  then show ?thesis using node_safe_at [OF safe, of s'] e assms(8) by (simp add: chain_safe_def)
qed

lemma AcceptBlockHeader_safe:
  assumes "chain_safe env blk s" "env_ok env blk" "block_fits env blk s b" "block_first env b"
    "AcceptBlockHeader env b s = Some (r, s')"
  shows "chain_safe env blk s' \<and> ns_files s' = ns_files s \<and> (\<forall>p. r = Inr p \<longrightarrow> p \<in> entries s')"
proof (cases "s' = s \<and> (\<forall>p. r = Inr p \<longrightarrow> p \<in> entries s)")
  case True then show ?thesis using assms(1) by simp
next
  case False
  let ?c = "ns_chain s" and ?x = "accept_hash env b"
  have "map_of (st_map ?c) ?x = None"
  proof (rule ccontr)
    assume "map_of (st_map ?c) ?x \<noteq> None"
    then obtain q where q: "map_of (st_map ?c) ?x = Some q" by blast
    then have "q \<in> entries s" using map_of_SomeD by force
    then show False using False assms(5) q by (auto simp: AcceptBlockHeader_def split: if_splits)
  qed
  then obtain p c where c: "AddToBlockIndex ((ae_kernel env s)\<lparr>se_proof := stake_hash s\<rparr>) b ?x (ae_new env s) ?c = Some (p, c)"
      "ns_chain s' = c" "ns_files s' = ns_files s" "r = Inr p"
      "?x = nd_genesis (ae_node env) \<or> map_of (st_map ?c) (hashPrevBlock b) \<noteq> None"
    using assms(5) False unfolding AcceptBlockHeader_def Let_def
    by (auto split: option.splits if_splits sum.splits conn_error.splits prod.splits)
  show ?thesis using AddToBlockIndex_node [OF assms(1-4) c(5,1,3,2)] c(3,4) by simp
qed

section \<open>Stake\<close>

lemma have_inputs_base:
  assumes "\<And>t v r v'. vo_GetCoins ops t v = (r, v') \<Longrightarrow> P v \<Longrightarrow> P v'"
  shows "HaveInputs ops tx s = (b, s') \<Longrightarrow> P (c_base s) \<Longrightarrow> P (c_base s')"
proof -
  have fetch: "AccessCoins ops t s = (r, s') \<Longrightarrow> P (c_base s) \<Longrightarrow> P (c_base s')" for t r and s s'
    using assms by (auto simp: AccessCoins_def FetchCoins_def Let_def split: option.splits prod.splits)
  have "have_inputs_loop ops ins s = (b, s') \<Longrightarrow> P (c_base s) \<Longrightarrow> P (c_base s')" for "ins" and s
    by (induction "ins" arbitrary: s) (auto split: prod.splits option.splits if_splits dest: fetch)
  then show "HaveInputs ops tx s = (b, s') \<Longrightarrow> P (c_base s) \<Longrightarrow> P (c_base s')"
    by (auto simp: HaveInputs_def split: if_splits)
qed

text \<open>Reading through \<^verbatim>\<open>pcoinsTip\<close> fills its cache and changes nothing else.\<close>

lemma tip_read:
  assumes "pubkey_ops_ok pk" "HaveInputs (node_ops pk) tx (CCoinsViewCache v) = (b, w)" "tip_inv pk v"
  shows "tip_inv pk (c_base w) \<and> tip_utxo pk (c_base w) = tip_utxo pk v \<and> hashBlock (c_base w) = hashBlock v"
proof -
  let ?P = "\<lambda>x. tip_inv pk x \<and> tip_utxo pk x = tip_utxo pk v \<and> hashBlock x = hashBlock v"
  have "?P x'" if "vo_GetCoins (node_ops pk) t x = (r, x')" "?P x" for t x r x'
  proof -
    have "cache_GetCoins (db_ops pk) t x = (r, x')" using that(1) by (simp add: node_ops_def cache_ops_def)
    then have "hashBlock x' = hashBlock x"
      by (auto simp: cache_GetCoins_def FetchCoins_def Let_def split: option.splits prod.splits)
    then show ?thesis using coins_view.get_frame [OF utxo_view.axioms(1) [OF tip_views(1) [OF assms(1)]] _ that(1)] that(2) by simp
  qed
  from have_inputs_base [of "node_ops pk" ?P, OF this assms(2)] show ?thesis using assms(3) by (simp add: CCoinsViewCache_def)
qed

lemma stake_inputs_safe:
  assumes "chain_safe env blk s" "stake_inputs env b pp s = Some (r, s')" shows "holds_chain env blk s s'"
proof (cases "IsProofOfStake b")
  case False
  then show ?thesis using assms by (auto simp: stake_inputs_def holds_chain_def)
next
  case True
  let ?c = "ns_chain s" and ?pk = "nd_pk (ae_node env)"
  obtain x w where w: "HaveInputs (node_ops ?pk) (vtx b ! 1) (CCoinsViewCache (nc_tip (st_coins ?c))) = (x, w)" by fastforce
  let ?c' = "?c\<lparr>st_coins := (st_coins ?c)\<lparr>nc_tip := c_base w\<rparr>\<rparr>"
  have s': "s' = s\<lparr>ns_chain := ?c'\<rparr>"
    using assms(2) True w by (auto simp: stake_inputs_def Let_def split: option.splits if_splits bool.splits)
  have n: "chain_ok (entries s) ?c" "node_reflects (node_at env s) blk (entries s) (st_index ?c) (Tip (st_active ?c)) (st_coins ?c)"
    using assms(1) by (simp_all add: chain_safe_def node_safe_def)
  have "tip_inv ?pk (c_base w) \<and> tip_utxo ?pk (c_base w) = tip_utxo ?pk (nc_tip (st_coins ?c)) \<and>
      hashBlock (c_base w) = hashBlock (nc_tip (st_coins ?c))"
    by (rule tip_read [OF _ w]) (use n(2) in \<open>simp_all add: node_reflects_def node_ok_at tip_at_def\<close>)
  then have "node_reflects (node_at env s) blk (entries s) (st_index ?c) (Tip (st_active ?c)) (st_coins ?c')"
    using n(2) by (simp add: node_reflects_def tip_at_def coins_of_chain_def)
  moreover have "chain_ok (entries s) ?c'" using n(1) by (simp add: chain_ok_def linked_in_def)
  ultimately have "nl.safe (node_at env s) blk (entries s) ?c'" by (simp add: nl.safe_def)
  then show ?thesis unfolding s' by (rule holds_chain_step [OF assms(1)]) simp
qed

lemma accept_stake_safe:
  "chain_safe env blk s \<Longrightarrow> accept_stake env b pp s = Some (r, s') \<Longrightarrow> chain_safe env blk s' \<and> ns_files s' = ns_files s \<and> ns_chain s' = ns_chain s"
  using chain_safe_same [of env blk s s'] chain_safe_disk [of env blk s] disk_ok_files [of s' s env blk]
  by (auto simp: accept_stake_def split: option.splits if_splits bool.splits)

section \<open>Blocks\<close>

lemma accept_checks_safe:
  assumes "chain_safe env blk s" "accept_checks env a b p s = Some (r, s')" shows "holds_chain env blk s s'"
proof -
  let ?c = "ns_chain s" and ?c' = "mark_dirty p (add_status BLOCK_FAILED_VALID p (ns_chain s))"
  have k: "eases ?c ?c'" using eases_trans [OF eases_simps(1) eases_simps(2)] .
  have "nl.safe (node_at env s) blk (entries s) ?c'" by (rule nl.safe_eases [OF k chain_safe_locale [OF assms(1)]])
  then have "holds_chain env blk s (s\<lparr>ns_chain := ?c'\<rparr>)" by (rule holds_chain_step [OF assms(1)]) (use k in \<open>simp add: eases_def\<close>)
  moreover have "s' = s \<or> s' = s\<lparr>ns_chain := ?c'\<rparr>"
    using assms(2) unfolding accept_checks_def Let_def by (auto split: sum.splits if_splits)
  ultimately show ?thesis using assms(1) by (auto simp: holds_chain_def)
qed

lemma accept_store_safe:
  assumes "chain_safe env blk s" "p \<in> entries s" "accept_store env b dbp n p s = Some (r, s')" "disk_ok env blk s'"
  shows "chain_safe env blk s'"
proof (cases "ns_chain s' = ns_chain s")
  case True then show ?thesis using chain_safe_same assms(1,4) by blast
next
  case False
  then obtain f q F c where c: "ReceivedBlockTransactions b f q p (ns_chain s) = Some c" "s' = s\<lparr>ns_files := F, ns_chain := c\<rparr>"
    using assms(3) by (auto simp: accept_store_def split: option.splits sum.splits)
  note safe = chain_safe_locale [OF assms(1)]
  have "nl.safe (node_at env s) blk (entries s) c" by (rule nl.ReceivedBlockTransactions_safe [OF safe assms(2) c(1)])
  moreover have "chain_ok (entries s) (ns_chain s)" using assms(1) by (simp add: chain_safe_def node_safe_def)
  then have "st_map c = st_map (ns_chain s)"
    using nl.ReceivedBlockTransactions_settles [OF c(1) _ assms(2)] by (simp add: nl.settles_def)
  ultimately show ?thesis using assms(1) node_safe_at [of env s blk "entries s" c s'] assms(4) c(2)
    by (simp add: chain_safe_def node_safe_locale)
qed

lemma abindE:
  assumes "abind m f = Some (r, s')"
  obtains e where "m = Some (Inl e, s')" "r = Inl e" | x s where "m = Some (Inr x, s)" "f x s = Some (r, s')"
  using assms by (auto simp: abind_def split: option.splits sum.splits)

lemma accept_parent_safe:
  assumes "chain_safe env blk s" "accept_parent env b s = Some (r, s')"
  shows "holds_chain env blk s s' \<and> (\<forall>pp. r = Inr (Some pp) \<longrightarrow> s' = s \<and>
    (accept_hash env b = nd_genesis (ae_node env) \<or> map_of (st_map (ns_chain s)) (hashPrevBlock b) \<noteq> None))"
proof (cases "s' = s \<and> r \<noteq> Inr None")
  case True
  then show ?thesis using assms by (auto simp: holds_chain_def accept_parent_def Let_def split: option.splits if_splits)
next
  case False
  then obtain q s1 x where q: "node_Reconsider q s = Some s1" "node_Activate env None False s1 = Some (x, s')" "r = Inr None"
    using assms(2) by (auto simp: accept_parent_def Let_def split: option.splits if_splits)
  have "holds_chain env blk s s1" by (rule node_Reconsider_safe [OF assms(1) q(1)])
  moreover from this have "holds_chain env blk s1 s'" using node_Activate_safe [OF _ q(2), of blk] by (simp add: holds_chain_def)
  ultimately show ?thesis using q(3) by (simp add: holds_chain_def)
qed

text \<open>The part of \<^verbatim>\<open>AcceptBlock\<close> after the header.\<close>

lemma accept_rest_safe:
  assumes "chain_safe env blk s" "p \<in> entries s" "disk_ok env blk s'"
    "abind (accept_checks env a b p s) (\<lambda>u s. abind (stake_inputs env b pp s) (\<lambda>u s.
       accept_store env b dbp (ix_nHeight (st_index (ns_chain s) p)) p s)) = Some (r, s')"
  shows "chain_safe env blk s'"
  using assms(4)
proof (cases rule: abindE)
  case (1 e)
  show ?thesis using accept_checks_safe [OF assms(1) 1(1)] by (simp add: holds_chain_def)
next
  case (2 x s1)
  have 1: "holds_chain env blk s s1" by (rule accept_checks_safe [OF assms(1) 2(1)])
  then have c1: "chain_safe env blk s1" by (simp add: holds_chain_def)
  from 2(2) show ?thesis
  proof (cases rule: abindE)
    case (1 e)
    show ?thesis using stake_inputs_safe [OF c1 1(1)] by (simp add: holds_chain_def)
  next
    case (2 x s2)
    have 2: "holds_chain env blk s1 s2" "accept_store env b dbp (ix_nHeight (st_index (ns_chain s2) p)) p s2 = Some (r, s')"
      using stake_inputs_safe [OF c1 2(1)] 2(2) by simp_all
    then have "p \<in> entries s2" using 1 assms(2) by (simp add: holds_chain_def)
    then show ?thesis using accept_store_safe [OF _ _ 2(2) assms(3)] 2(1) by (simp add: holds_chain_def)
  qed
qed

lemma AcceptBlock_safe:
  assumes "chain_safe env blk s" "env_ok env blk" "block_fits env blk s b" "block_first env b" "disk_ok env blk s'"
    "AcceptBlock env b dbp a s = Some (r, s')"
  shows "chain_safe env blk s'"
  using assms(6) unfolding AcceptBlock_def
proof (cases rule: abindE)
  case (1 e)
  show ?thesis using accept_parent_safe [OF assms(1) 1(1)] by (simp add: holds_chain_def)
next
  case (2 parent s0)
  note parent = accept_parent_safe [OF assms(1) 2(1)]
  show ?thesis
  proof (cases parent)
    case None
    then show ?thesis using 2(2) parent by (simp add: holds_chain_def)
  next
    case (Some pp)
    then have "abind (CheckWork_at env b pp s) (\<lambda>u s. abind (accept_stake env b pp s) (\<lambda>u s.
           abind (AcceptBlockHeader env b s) (\<lambda>p s.
             if have_data (st_index (ns_chain s) p) then Some (Inr (), s)
             else abind (accept_checks env a b p s) (\<lambda>u s. abind (stake_inputs env b pp s) (\<lambda>u s.
                    accept_store env b dbp (ix_nHeight (st_index (ns_chain s) p)) p s))))) = Some (r, s')"
      using 2(2) parent by simp
    then show ?thesis
    proof (cases rule: abindE)
      case (1 e)
      then show ?thesis using assms(1) by (auto simp: CheckWork_at_def split: if_splits option.splits)
    next
      case work: (2 u s1)
      then have [simp]: "s1 = s" by (auto simp: CheckWork_at_def split: if_splits option.splits)
      from work(2) show ?thesis
      proof (cases rule: abindE)
        case (1 e)
        then show ?thesis using accept_stake_safe [OF assms(1)] by simp
      next
        case stake: (2 u s2)
        then have k2: "chain_safe env blk s2" "ns_chain s2 = ns_chain s" using accept_stake_safe [OF assms(1)] by auto
        then have f2: "block_fits env blk s2 b" using assms(3) by (simp add: block_fits_def)
        from stake(2) show ?thesis
        proof (cases rule: abindE)
          case (1 e)
          then show ?thesis using AcceptBlockHeader_safe [OF k2(1) assms(2) f2 assms(4)] by simp
        next
          case hd: (2 p s3)
          then have k3: "chain_safe env blk s3" "p \<in> entries s3"
            using AcceptBlockHeader_safe [OF k2(1) assms(2) f2 assms(4)] by auto
          from hd(2) show ?thesis using accept_rest_safe [OF k3 assms(5)] k3(1) by (auto split: if_split_asm)
        qed
      qed
    qed
  qed
qed

section \<open>Starting up\<close>

text \<open>A flush of \<^verbatim>\<open>pcoinsTip\<close> keeps its coins, also before there is a best block.\<close>

lemma tip_flush:
  assumes "pubkey_ops_ok pk" "tip_inv pk s" "Flush (db_ops pk) s = Some (True, v)"
  shows "tip_inv pk v \<and> tip_utxo pk v = tip_utxo pk s \<and> hashBlock v = hashBlock s"
proof -
  have i: "db_valid pk (c_base s)" "\<not> hasModifier s" "batch_ok coins_ok (db_utxo pk (c_base s)) (\<lambda>t. True) (cacheCoins s)"
    using assms(2) by (auto simp: tip_inv_def cache_inv_def)
  have d: "distinct (map fst (cacheCoins s))" "\<And>t e. (t, e) \<in> set (cacheCoins s) \<Longrightarrow> \<not> IsPruned (e_coins e) \<longrightarrow> coins_ok (e_coins e)"
    using i(3) by (auto simp: batch_ok_def list_all_iff entry_ok_def)
  obtain bs where bs: "coins_batch pk (cacheCoins s) = Some bs" "db_valid pk (db_WriteBatch bs (c_base s))"
      "db_utxo pk (db_WriteBatch bs (c_base s)) = apply_batch (cacheCoins s) (db_utxo pk (c_base s))"
    using coins_batch_spec [OF assms(1) d(1) _ i(1)] d(2) by blast
  have u: "apply_batch (cacheCoins s) (db_utxo pk (c_base s)) = tip_utxo pk s"
    using coins_view.cinv_entry [OF db_view [OF assms(1)] assms(2) [unfolded tip_inv_def]]
    by (auto simp: fun_eq_iff apply_batch_def tip_utxo_def cache_utxo_def entry_ok_def split: option.split)
  show ?thesis
  proof (cases "hashBlock s = 0")
    case True
    then have v: "v = s\<lparr>c_base := db_WriteBatch bs (c_base s), cacheCoins := []\<rparr>"
      using assms(3) bs(1) by (simp add: Flush_def db_ops_def db_BatchWrite_def)
    have "tip_utxo pk v = db_utxo pk (c_base v)" by (intro ext) (simp add: tip_utxo_def cache_utxo_def v)
    then show ?thesis using bs u i(2) by (simp add: v tip_inv_def cache_inv_def batch_ok_def)
  next
    case False
    have "hashBlock v = hashBlock s" using assms(3) by (auto simp: Flush_def split: option.splits prod.splits)
    then show ?thesis using coins_view.Flush_spec [OF tip_views(2) [OF assms(1)] assms(2) [unfolded tip_inv_def] False] assms(3)
      by (auto simp: tip_inv_def tip_utxo_def)
  qed
qed

lemma node_flush_reflects:
  assumes "node_reflects nd blk S h t c" "node_flush nd a c = Some c'" shows "node_reflects nd blk S h t c'"
proof (cases "c' = c")
  case True then show ?thesis using assms(1) by simp
next
  case False
  then obtain v where v: "Flush (db_ops (nd_pk nd)) (nc_tip c) = Some (True, v)" "c' = c\<lparr>nc_tip := v\<rparr>"
    using assms(2) by (auto simp: node_flush_def split: if_splits option.splits bool.splits)
  have "tip_inv (nd_pk nd) v \<and> tip_utxo (nd_pk nd) v = tip_utxo (nd_pk nd) (nc_tip c) \<and> hashBlock v = hashBlock (nc_tip c)"
    by (rule tip_flush [OF _ _ v(1)]) (use assms(1) in \<open>simp_all add: node_reflects_def node_ok_def tip_at_def\<close>)
  then show ?thesis using assms(1) v(2) by (simp add: node_reflects_def tip_at_def coins_of_chain_def)
qed

lemma node_Activate_files: "node_Activate env pb a s = Some (r, s') \<Longrightarrow> ns_files s' = ns_files s"
  by (auto simp: node_Activate_def on_chain_def split: option.splits)

text \<open>The end of \<^verbatim>\<open>InitBlockIndex\<close>.\<close>

definition init_end :: "accept_env \<Rightarrow> node_state \<Rightarrow> ((conn_error + unit) \<times> node_state) option" where
  "init_end env s =
     (case node_flush (node_at env s) True (st_coins (ns_chain s)) of
        None \<Rightarrow> Some (Inl (Failed ''''), s)
      | Some nc \<Rightarrow> Some (Inr (), s\<lparr>ns_chain := (ns_chain s)\<lparr>st_coins := nc\<rparr>\<rparr>))"

lemma init_end_safe:
  assumes "chain_safe env blk s" "init_end env s = Some (r, s')" shows "chain_safe env blk s' \<and> ns_files s' = ns_files s"
proof (cases "node_flush (node_at env s) True (st_coins (ns_chain s))")
  case None then show ?thesis using assms by (simp add: init_end_def)
next
  case (Some nc)
  have n: "chain_ok (entries s) (ns_chain s)"
    "node_reflects (node_at env s) blk (entries s) (st_index (ns_chain s)) (Tip (st_active (ns_chain s))) nc"
    using assms(1) node_flush_reflects [OF _ Some] by (simp_all add: chain_safe_def node_safe_def)
  have "nl.safe (node_at env s) blk (entries s) ((ns_chain s)\<lparr>st_coins := nc\<rparr>)"
    using n by (simp add: nl.safe_def chain_ok_def linked_in_def)
  then show ?thesis using chain_safe_step [OF assms(1)] assms(2) Some by (auto simp: init_end_def)
qed

lemma InitBlockIndex_safe:
  assumes "chain_safe env blk s" "env_ok env blk" "block_fits env blk s (ae_genesis env)" "disk_ok env blk s'"
    "InitBlockIndex env s = Some (r, s')"
  shows "chain_safe env blk s'"
proof (cases "ns_chain s' = ns_chain s")
  case True then show ?thesis using chain_safe_same [OF assms(1) _ assms(4)] by blast
next
  case False
  let ?b = "ae_genesis env"
  have g: "accept_hash env ?b = nd_genesis (ae_node env)" using assms(2) by (simp add: env_ok_def)
  obtain f q F k p c1 c2 where c1: "AddToBlockIndex k ?b (accept_hash env ?b) (ae_new env s) (ns_chain s) = Some (p, c1)"
      and c2: "ReceivedBlockTransactions ?b f q p c1 = Some c2"
      and r: "abind (node_Activate env (Some ?b) False (s\<lparr>ns_files := F, ns_chain := c2\<rparr>)) (\<lambda>u. init_end env) = Some (r, s')"
    using assms(5) False unfolding InitBlockIndex_def init_end_def Let_def by (auto split: option.splits if_splits sum.splits)
  let ?s1 = "s\<lparr>ns_chain := c1\<rparr>" and ?s2 = "s\<lparr>ns_files := F, ns_chain := c2\<rparr>"
  have 1: "chain_safe env blk ?s1" "p \<in> entries ?s1"
    using AddToBlockIndex_node [OF assms(1-3) _ _ c1, of ?s1] g by (simp_all add: block_first_def)
  have safe2: "nl.safe (node_at env ?s1) blk (entries ?s1) c2"
    using nl.ReceivedBlockTransactions_safe [OF chain_safe_locale [OF 1(1)] 1(2)] c2 by simp
  have "chain_ok (entries ?s1) c1" using 1(1) by (simp add: chain_safe_def node_safe_def)
  from nl.ReceivedBlockTransactions_settles [OF c2 this 1(2)] have m: "st_map c2 = st_map c1" by (simp add: nl.settles_def)
  have 2: "chain_safe env blk ?s2" if "disk_ok env blk ?s2"
    using 1(1) safe2 m node_safe_at [OF _ that, of ?s1 "entries ?s1" c2] by (simp add: chain_safe_def node_safe_locale)
  have bb: "blk (accept_hash env ?b) = ?b" using assms(3) by (simp add: block_fits_def Let_def)
  have act: "holds_chain env blk ?s2 s3" if "node_Activate env (Some ?b) False ?s2 = Some (x, s3)" "disk_ok env blk ?s2" for x s3
    using node_Activate_safe [OF 2 [OF that(2)] that(1)] bb by simp
  from r show ?thesis
  proof (cases rule: abindE)
    case (1 e)
    have "ns_files s' = ns_files ?s2" by (rule node_Activate_files [OF 1(1)])
    then have "disk_ok env blk ?s2" using assms(4) by (simp add: disk_ok_def)
    then show ?thesis using act [OF 1(1)] by (simp add: holds_chain_def)
  next
    case (2 x s3)
    have "ns_files s' = ns_files s3" using 2(2) by (auto simp: init_end_def split: option.splits)
    moreover have "ns_files s3 = ns_files ?s2" by (rule node_Activate_files [OF 2(1)])
    ultimately have "disk_ok env blk ?s2" using assms(4) by (simp add: disk_ok_def)
    then show ?thesis using act [OF 2(1)] init_end_safe [OF _ 2(2)] by (simp add: holds_chain_def)
  qed
qed

lemma ProcessNewBlock_safe:
  assumes "chain_safe env blk s" "env_ok env blk" "block_fits env blk s b" "disk_ok env blk s'"
    "ProcessNewBlock env peer b dbp s = Some (r, s')"
  shows "chain_safe env blk s'"
proof (cases "s' = s")
  case True then show ?thesis using assms(1) by simp
next
  case False
  then have c: "CheckBlock (block_env_at env s) (ns_chain s) b True True = Inr ()" and
    r: "abind (AcceptBlock env b dbp True s) (\<lambda>u s. node_Activate env (Some b) True s) = Some (r, s')"
    using assms(5) by (auto simp: ProcessNewBlock_def split: sum.splits if_splits)
  have first: "block_first env b" using block_sane_first [OF CheckBlock_sane [OF c]] by (simp add: block_first_def)
  have bb: "blk (accept_hash env b) = b" using assms(3) by (simp add: block_fits_def Let_def)
  from r show ?thesis
  proof (cases rule: abindE)
    case (1 e)
    show ?thesis by (rule AcceptBlock_safe [OF assms(1-3) first assms(4) 1(1)])
  next
    case (2 x s1)
    have "disk_ok env blk s1" using assms(4) node_Activate_files [OF 2(2)] by (simp add: disk_ok_def)
    then have "chain_safe env blk s1" by (rule AcceptBlock_safe [OF assms(1-3) first _ 2(1)])
    then show ?thesis using node_Activate_safe [OF _ 2(2)] bb by (simp add: holds_chain_def)
  qed
qed

section \<open>What the node can reach\<close>

definition node_started :: "node_state \<Rightarrow> bool" where
  "node_started s \<longleftrightarrow> st_map (ns_chain s) = [] \<and> st_active (ns_chain s) = [] \<and> st_candidates (ns_chain s) = [] \<and>
     st_unlinked (ns_chain s) = [] \<and>
     st_coins (ns_chain s) = \<lparr>nc_tip = CCoinsViewCache (\<lambda>k. None), nc_stake = (\<lambda>o1. None), nc_undo = (\<lambda>p. None)\<rparr>"

inductive reached :: "accept_env \<Rightarrow> (uint256 \<Rightarrow> CBlock) \<Rightarrow> node_state \<Rightarrow> bool" for env blk where
  start: "node_started s \<Longrightarrow> disk_ok env blk s \<Longrightarrow> reached env blk s"
| init: "reached env blk s \<Longrightarrow> block_fits env blk s (ae_genesis env) \<Longrightarrow> InitBlockIndex env s = Some (r, s') \<Longrightarrow>
    disk_ok env blk s' \<Longrightarrow> reached env blk s'"
| block: "reached env blk s \<Longrightarrow> block_fits env blk s b \<Longrightarrow> ProcessNewBlock env peer b dbp s = Some (r, s') \<Longrightarrow>
    disk_ok env blk s' \<Longrightarrow> reached env blk s'"
| best: "reached env blk s \<Longrightarrow> node_Activate env None a s = Some (r, s') \<Longrightarrow> reached env blk s'"
| invalidate: "reached env blk s \<Longrightarrow> node_Invalidate env p s = Some (r, s') \<Longrightarrow> reached env blk s'"
| reconsider: "reached env blk s \<Longrightarrow> node_Reconsider p s = Some s' \<Longrightarrow> reached env blk s'"

lemma started_safe:
  assumes "node_started s" "disk_ok env blk s" "env_ok env blk" shows "chain_safe env blk s"
proof -
  have tip: "tip_utxo pk (CCoinsViewCache (\<lambda>k. None)) = (\<lambda>t. None)" "tip_inv pk (CCoinsViewCache (\<lambda>k. None))" for pk
    by (auto simp: tip_utxo_def tip_inv_def CCoinsViewCache_def cache_utxo_def cache_inv_def db_utxo_def db_Read_def
        batch_ok_def db_valid_def)
  have "index_ok h {}" for h by (simp add: index_ok_def)
  then show ?thesis using assms tip
    by (simp add: chain_safe_def node_safe_def node_reflects_def node_ok_at env_ok_def node_started_def chain_ok_def
        is_chain_def linked_in_def Tip_def tip_at_def u_ok_def coins_of_chain_def path_of_def chain_coins_def chain_blocks_def)
qed

lemma reached_safe:
  assumes "reached env blk s" "env_ok env blk" shows "chain_safe env blk s"
  using assms(1)
proof induction
  case (start s) then show ?case using started_safe assms(2) by blast
next
  case (init s r s') then show ?case using InitBlockIndex_safe assms(2) by blast
next
  case (block s b peer dbp r s') then show ?case using ProcessNewBlock_safe assms(2) by blast
next
  case (best s a r s')
  show ?case using node_Activate_safe [OF best.IH best.hyps(2)] by (simp add: holds_chain_def)
next
  case (invalidate s p r s')
  show ?case using node_Invalidate_safe [OF invalidate.IH invalidate.hyps(2)] by (simp add: holds_chain_def)
next
  case (reconsider s p s')
  show ?case using node_Reconsider_safe [OF reconsider.IH reconsider.hyps(2)] by (simp add: holds_chain_def)
qed

section \<open>Only checked blocks are stored\<close>

lemma accept_rest_stored:
  assumes "abind (accept_checks env a b p s) (\<lambda>u s. abind (stake_inputs env b pp s) (\<lambda>u s.
       accept_store env b dbp (ix_nHeight (st_index (ns_chain s) p)) p s)) = Some (r, s')" "ns_files s' \<noteq> ns_files s"
  shows "(a \<or> CheckBlock (block_env_at env s) (ns_chain s) b True True = Inr ()) \<and>
    ContextualCheckBlock (block_env_at env s) (ns_chain s) b (ix_pprev (st_index (ns_chain s) p)) = Inr () \<and>
    (\<exists>s2. stake_inputs env b pp s = Some (Inr (), s2))"
  using assms(1)
proof (cases rule: abindE)
  case (1 e)
  then show ?thesis using assms(2) by (auto simp: accept_checks_def Let_def split: sum.splits if_splits)
next
  case (2 u s1)
  then have ok: "s1 = s" "a \<or> CheckBlock (block_env_at env s) (ns_chain s) b True True = Inr ()"
    "ContextualCheckBlock (block_env_at env s) (ns_chain s) b (ix_pprev (st_index (ns_chain s) p)) = Inr ()"
    by (auto simp: accept_checks_def sbind_def Let_def split: sum.splits if_splits)
  from 2(2) show ?thesis
  proof (cases rule: abindE)
    case (1 e)
    then show ?thesis using assms(2) ok(1)
      by (auto simp: stake_inputs_def Let_def split: option.splits if_splits prod.splits bool.splits)
  qed (use ok in auto)
qed

lemma AcceptBlock_stored:
  assumes "AcceptBlock env b dbp a s = Some (r, s')" "ns_files s' \<noteq> ns_files s"
  shows "\<exists>pp s1 p. (if accept_hash env b = nd_genesis (ae_node env) then pp = None
      else \<exists>q. pp = Some q \<and> map_of (st_map (ns_chain s)) (hashPrevBlock b) = Some q \<and> \<not> failed (st_index (ns_chain s) q) \<and>
        CheckWork (block_env_at env s) (st_index (ns_chain s)) b (Some q) = Some True) \<and>
    (IsProofOfStake b \<longrightarrow> ae_proof env s b \<noteq> None) \<and> \<not> have_data (st_index (ns_chain s1) p) \<and>
    (a \<or> CheckBlock (block_env_at env s1) (ns_chain s1) b True True = Inr ()) \<and>
    ContextualCheckBlock (block_env_at env s1) (ns_chain s1) b (ix_pprev (st_index (ns_chain s1) p)) = Inr () \<and>
    (\<exists>s2. stake_inputs env b pp s1 = Some (Inr (), s2))"
  using assms(1) unfolding AcceptBlock_def
proof (cases rule: abindE)
  case (1 e)
  then show ?thesis using assms(2) by (auto simp: accept_parent_def Let_def split: option.splits if_splits)
next
  case (2 parent s0)
  have "ns_files s0 = ns_files s"
    using 2(1) node_Activate_files by (auto simp: accept_parent_def node_Reconsider_def Let_def split: option.splits if_splits)
  then obtain pp where pp: "parent = Some pp" using 2(2) assms(2) by (auto split: option.splits)
  have s0: "s0 = s" and par: "if accept_hash env b = nd_genesis (ae_node env) then pp = None
      else \<exists>q. pp = Some q \<and> map_of (st_map (ns_chain s)) (hashPrevBlock b) = Some q \<and> \<not> failed (st_index (ns_chain s) q)"
    using 2(1) pp by (auto simp: accept_parent_def Let_def split: option.splits if_splits)
  from 2(2) [unfolded pp option.case s0] show ?thesis
  proof (cases rule: abindE)
    case (1 e)
    then show ?thesis using assms(2) by (auto simp: CheckWork_at_def split: option.splits if_splits)
  next
    case work: (2 u w)
    then have w: "w = s" "accept_hash env b = nd_genesis (ae_node env) \<or> CheckWork (block_env_at env s) (st_index (ns_chain s)) b pp = Some True"
      by (auto simp: CheckWork_at_def split: option.splits if_splits)
    from work(2) [unfolded w(1)] show ?thesis
    proof (cases rule: abindE)
      case (1 e)
      then show ?thesis using assms(2) by (auto simp: accept_stake_def split: option.splits if_splits bool.splits)
    next
      case stake: (2 u s2)
      then have st: "IsProofOfStake b \<longrightarrow> ae_proof env s b \<noteq> None" "ns_files s2 = ns_files s"
        by (auto simp: accept_stake_def split: option.splits if_splits bool.splits)
      from stake(2) show ?thesis
      proof (cases rule: abindE)
        case (1 e)
        then show ?thesis using assms(2) st(2) unfolding AcceptBlockHeader_def Let_def
          by (auto split: option.splits if_splits sum.splits conn_error.splits prod.splits)
      next
        case hd: (2 p s3)
        then have f3: "ns_files s3 = ns_files s" using st(2) unfolding AcceptBlockHeader_def Let_def
          by (auto split: option.splits if_splits sum.splits conn_error.splits prod.splits)
        then have d: "\<not> have_data (st_index (ns_chain s3) p)" using hd(2) assms(2) by (auto split: if_split_asm)
        from hd(2) have "abind (accept_checks env a b p s3) (\<lambda>u s. abind (stake_inputs env b pp s) (\<lambda>u s.
            accept_store env b dbp (ix_nHeight (st_index (ns_chain s) p)) p s)) = Some (r, s')" using d by simp
        from accept_rest_stored [OF this] show ?thesis using assms(2) f3 par w(2) st(1) d by (auto split: if_splits)
      qed
    qed
  qed
qed

text \<open>
  A block on top of a failed checkpoint: the parent is reconsidered, the call succeeds, and neither
  the block nor its header is taken in.
\<close>

lemma AcceptBlock_reconsidered:
  assumes "chain_safe env blk s" "AcceptBlock env b dbp a s = Some (r, s')" "accept_hash env b \<noteq> nd_genesis (ae_node env)"
    "map_of (st_map (ns_chain s)) (hashPrevBlock b) = Some q" "failed (st_index (ns_chain s) q)"
    "checkpoint_ok (be_checkpoints (block_env_at env s)) (ix_nHeight (st_index (ns_chain s) q)) (hashPrevBlock b) True"
  shows "r = Inr () \<and> st_map (ns_chain s') = st_map (ns_chain s) \<and> ns_files s' = ns_files s"
  using assms(2) unfolding AcceptBlock_def
proof (cases rule: abindE)
  case (1 e)
  then show ?thesis using assms(3-6) by (auto simp: accept_parent_def Let_def split: option.splits)
next
  case (2 parent s0)
  have "parent = None" using 2(1) assms(3-6) by (auto simp: accept_parent_def Let_def split: option.splits)
  then show ?thesis using 2 accept_parent_safe [OF assms(1) 2(1)] by (simp add: holds_chain_def)
qed

end
