(* ===== verification/FileLemmas.thy ===== *)
theory FileLemmas
  imports BlockFiles
begin

unbundle bit_operations_syntax

text \<open>
  Blocks stay where they were written: below the limit the search for room ends, no block overlaps
  another, and truncating, allocating and writing leave what is stored in place.
\<close>

section \<open>Bytes at a place\<close>

definition holds :: "nat \<Rightarrow> bytes \<Rightarrow> bytes \<Rightarrow> bool" where
  "holds p x bs \<longleftrightarrow> take (length x) (drop p bs) = x"

lemma holds_prefix: "holds p x bs \<Longrightarrow> take (length x) (drop p bs') = take (length x) (drop p bs) \<Longrightarrow> holds p x bs'"
  by (simp add: holds_def)

lemma holds_length: "holds p x bs \<Longrightarrow> x = [] \<or> p + length x \<le> length bs"
proof -
  assume "holds p x bs"
  then have "length (take (length x) (drop p bs)) = length x" by (simp add: holds_def)
  then show ?thesis by (cases x) auto
qed

lemma holds_append: "holds p x bs \<Longrightarrow> holds p x (bs @ z)"
  using holds_length [of p x bs] by (auto simp: holds_def)

lemma holds_take: "holds p x bs \<Longrightarrow> p + length x \<le> n \<Longrightarrow> holds p x (take n bs @ z)"
  by (rule holds_append) (auto simp: holds_def drop_take min_def)

lemma holds_truncate: "holds p x bs \<Longrightarrow> p + length x \<le> n \<Longrightarrow> holds p x (TruncateFile n bs)"
  by (simp add: TruncateFile_def holds_take)

lemma holds_allocate: "holds p x bs \<Longrightarrow> holds p x (AllocateFileRange a n bs)"
  by (simp add: AllocateFileRange_def holds_append)

lemma holds_write: "holds p x bs \<Longrightarrow> p + length x \<le> q \<Longrightarrow> holds p x (write_at q new bs)"
  unfolding write_at_def by (rule holds_take [OF holds_append])

lemma holds_written: "holds (q + length h) x (write_at q (h @ x) bs)"
proof -
  have "length (take q (bs @ replicate (q - length bs) 0)) = q" by simp
  then have "drop (q + length h) (write_at q (h @ x) bs) = x @ drop (q + length (h @ x)) bs"
    by (simp add: write_at_def)
  then show ?thesis by (simp add: holds_def)
qed

lemma holds_read: "holds p (ser_block b) bs \<Longrightarrow> block_ok b \<Longrightarrow> map_option fst (unser_block (drop p bs)) = Some b"
proof -
  assume h: "holds p (ser_block b) bs" and ok: "block_ok b"
  have "drop p bs = ser_block b @ drop (length (ser_block b)) (drop p bs)"
    using h unfolding holds_def by (metis append_take_drop_id)
  then have "unser_block (drop p bs) = Some (b, drop (length (ser_block b)) (drop p bs))"
    using block_c.unser_ser [OF ok, of "drop (length (ser_block b)) (drop p bs)"] by metis
  then show ?thesis by simp
qed

section \<open>What stays in the files\<close>

definition stored :: "block_files \<Rightarrow> nat \<times> u32 \<Rightarrow> CBlock \<Rightarrow> bool" where
  "stored F pos b \<longleftrightarrow> (case pos of (n, p) \<Rightarrow> n < length (bf_info F) \<and>
     unat p + length (ser_block b) \<le> unat (fi_nSize (bf_info F ! n)) \<and> holds (unat p) (ser_block b) (bf_blk F n))"

definition files_ok :: "block_files \<Rightarrow> bool" where
  "files_ok F \<longleftrightarrow> (bf_info F = [] \<and> bf_last F = 0 \<or> bf_last F < length (bf_info F)) \<and>
     (\<forall>i \<in> set (bf_info F). fi_nSize i < MAX_BLOCKFILE_SIZE)"

definition kept :: "block_files \<Rightarrow> block_files \<Rightarrow> bool" where
  "kept F F' \<longleftrightarrow> (files_ok F \<longrightarrow> files_ok F') \<and> (\<forall>pos b. stored F pos b \<longrightarrow> stored F' pos b)"

lemma kept_refl [simp]: "kept F F" by (simp add: kept_def)
lemma kept_trans: "kept F F' \<Longrightarrow> kept F' F'' \<Longrightarrow> kept F F''" by (simp add: kept_def)

lemma kept_dirty [simp]: "kept F (F\<lparr>bf_dirty := d\<rparr>)"
  by (simp add: kept_def files_ok_def stored_def)

lemma kept_blk:
  assumes "\<And>p x. holds p x (bf_blk F n) \<Longrightarrow> n < length (bf_info F) \<Longrightarrow> p + length x \<le> unat (fi_nSize (bf_info F ! n)) \<Longrightarrow> holds p x bs"
  shows "kept F (set_blk n bs F)"
  using assms by (auto simp: kept_def files_ok_def stored_def set_blk_def)

lemma kept_flush: "kept F (FlushBlockFile env a F)"
  by (auto simp: FlushBlockFile_def intro: kept_blk holds_truncate)

lemma kept_grow: "kept F (grow_info n F)"
  by (auto simp: kept_def grow_info_def files_ok_def stored_def nth_append CBlockFileInfo_Null_def MAX_BLOCKFILE_SIZE_def)

lemma kept_size:
  assumes "n < length (bf_info F)" "unat (fi_nSize (bf_info F ! n)) \<le> unat (fi_nSize i)" "fi_nSize i < MAX_BLOCKFILE_SIZE"
  shows "kept F (set_info n i (F\<lparr>bf_last := n\<rparr>))"
  using assms set_update_subset_insert [of "bf_info F" n i]
  by (auto simp: kept_def files_ok_def stored_def set_info_def nth_list_update)

lemma AddBlock_nSize [simp]: "fi_nSize (AddBlock h t i) = fi_nSize i"
  by (simp add: AddBlock_def Let_def)

lemma grow_info_length [simp]:
  "n < length (bf_info (grow_info n F))" "bf_last (grow_info n F) = bf_last F"
  by (auto simp: grow_info_def)

lemma flush_info [simp]: "bf_info (FlushBlockFile env a F) = bf_info F" "bf_last (FlushBlockFile env a F) = bf_last F"
  by (simp_all add: FlushBlockFile_def set_blk_def)

text \<open>The search for room ends, in a file that has it.\<close>

lemma leave_files_spec:
  assumes "nAdd < MAX_BLOCKFILE_SIZE" "nFile < length (bf_info F)"
  shows "\<exists>n F'. leave_files env nAdd nFile F = Some (n, F') \<and> n < length (bf_info F') \<and> kept F F' \<and>
    fi_nSize (bf_info F' ! n) + nAdd < MAX_BLOCKFILE_SIZE"
  using assms(2)
proof (induction "length (bf_info F) - nFile" arbitrary: nFile F rule: less_induct)
  case less
  show ?case
  proof (cases "fi_nSize (bf_info F ! nFile) + nAdd \<ge> MAX_BLOCKFILE_SIZE")
    case False
    then show ?thesis using less.prems by (subst leave_files.simps) auto
  next
    case True
    let ?G = "grow_info (nFile + 1) (FlushBlockFile env True F)"
    have k: "kept F ?G" by (rule kept_trans [OF kept_flush kept_grow])
    have e: "leave_files env nAdd nFile F = leave_files env nAdd (nFile + 1) ?G"
      using True by (subst leave_files.simps) simp
    show ?thesis
    proof (cases "nFile + 1 < length (bf_info F)")
      case True
      then have "length (bf_info ?G) - (nFile + 1) < length (bf_info F) - nFile" by (simp add: grow_info_def)
      from less.hyps [OF this] show ?thesis unfolding e using kept_trans [OF k] grow_info_length(1) by blast
    next
      case False
      then have "fi_nSize (bf_info ?G ! (nFile + 1)) = 0"
        using less.prems by (simp add: grow_info_def nth_append CBlockFileInfo_Null_def)
      then have "leave_files env nAdd (nFile + 1) ?G = Some (nFile + 1, ?G)"
        using assms(1) [folded not_le] by (subst leave_files.simps) simp
      then show ?thesis unfolding e using k assms(1) grow_info_length(1) \<open>fi_nSize (bf_info ?G ! (nFile + 1)) = 0\<close> by auto
    qed
  qed
qed

lemma u32_sum:
  assumes "a < MAX_BLOCKFILE_SIZE" "b < MAX_BLOCKFILE_SIZE"
  shows "unat (a + b) = unat a + unat b" "unat a < 2 ^ 27"
proof -
  have "unat a < 2 ^ 27" "unat b < 2 ^ 27" using assms by (simp_all add: MAX_BLOCKFILE_SIZE_def word_less_nat_alt)
  then show "unat (a + b) = unat a + unat b" "unat a < 2 ^ 27" by (simp_all add: unat_word_ariths)
qed

text \<open>\<^verbatim>\<open>FindBlockPos\<close> gives out the room behind everything that is stored in the file.\<close>

lemma FindBlockPos_spec:
  assumes "files_ok F" "nAdd < MAX_BLOCKFILE_SIZE"
  shows "\<exists>r F'. FindBlockPos env None nAdd nHeight nTime0 F = Some (r, F') \<and> files_ok F' \<and> kept F F' \<and>
    (\<forall>n p. r = Inr (n, p) \<longrightarrow> n < length (bf_info F') \<and> unat p + unat nAdd = unat (fi_nSize (bf_info F' ! n)) \<and>
       (\<forall>q b. stored F (n, q) b \<longrightarrow> unat q + length (ser_block b) \<le> unat p))"
proof -
  let ?F1 = "grow_info (bf_last F) F"
  obtain n F2 where l: "leave_files env nAdd (bf_last F) ?F1 = Some (n, F2)" "n < length (bf_info F2)" "kept ?F1 F2"
      "fi_nSize (bf_info F2 ! n) + nAdd < MAX_BLOCKFILE_SIZE"
    using leave_files_spec [OF assms(2) grow_info_length(1)] by blast
  have k2: "kept F F2" using kept_trans [OF kept_grow l(3)] .
  let ?p = "fi_nSize (bf_info F2 ! n)"
  have p: "?p < MAX_BLOCKFILE_SIZE" using k2 assms(1) l(2) by (auto simp: kept_def files_ok_def)
  have s: "unat (?p + nAdd) = unat ?p + unat nAdd" by (rule u32_sum [OF p assms(2)])
  define i where "i = (AddBlock nHeight nTime0 (bf_info F2 ! n))\<lparr>fi_nSize := ?p + nAdd\<rparr>"
  define F3 where "F3 = set_info n i (F2\<lparr>bf_last := n\<rparr>)"
  have "kept F2 F3" unfolding F3_def by (rule kept_size [OF l(2)]) (simp_all add: i_def s l(4))
  then have k3: "kept F F3" by (rule kept_trans [OF k2])
  have i3: "n < length (bf_info F3)" "fi_nSize (bf_info F3 ! n) = ?p + nAdd" using l(2) by (simp_all add: F3_def set_info_def i_def)
  have below: "unat q + length (ser_block b) \<le> unat ?p" if "stored F (n, q) b" for q b
    using that k2 by (auto simp: kept_def stored_def)
  let ?room = "chunks BLOCKFILE_CHUNK_SIZE (?p + nAdd) * BLOCKFILE_CHUNK_SIZE - ?p"
  let ?F4 = "set_blk n (AllocateFileRange ?p ?room (bf_blk F3 n)) F3"
  have k4: "kept F ?F4" by (rule kept_trans [OF k3 kept_blk]) (rule holds_allocate)
  have ok: "files_ok F3" "files_ok ?F4" using k3 k4 assms(1) by (simp_all add: kept_def)
  have i4: "bf_info ?F4 = bf_info F3" by (simp add: set_blk_def)
  have d: "kept F (G\<lparr>bf_dirty := d\<rparr>)" "files_ok (G\<lparr>bf_dirty := d\<rparr>)" if "kept F G" for G d
    using kept_trans [OF that kept_dirty] assms(1) by (auto simp: kept_def)
  have e: "FindBlockPos env None nAdd nHeight nTime0 F =
     (if chunks BLOCKFILE_CHUNK_SIZE (?p + nAdd) > chunks BLOCKFILE_CHUNK_SIZE ?p
      then if CheckDiskSpace env (ucast ?room) F3
           then if fe_open env n then Some (Inr (n, ?p), ?F4\<lparr>bf_dirty := insert n (bf_dirty ?F4)\<rparr>)
                else Some (Inr (n, ?p), F3\<lparr>bf_dirty := insert n (bf_dirty F3)\<rparr>)
           else Some (Inl (Failed ''out of disk space''), F3)
      else Some (Inr (n, ?p), F3\<lparr>bf_dirty := insert n (bf_dirty F3)\<rparr>))"
    unfolding FindBlockPos_def by (simp add: l(1) F3_def i_def Let_def)
  show ?thesis unfolding e using d [OF k3] d [OF k4] k3 ok s i3 i4 below
    by (auto split: if_splits)
qed

text \<open>A new block is stored, and those before it still are.\<close>

lemma store_block_spec:
  assumes "files_ok F" "block_ok b" "size_block b + 8 < unat MAX_BLOCKFILE_SIZE" "length (fe_magic env) = 4"
  shows "\<exists>r F'. store_block env None b nHeight F = Some (r, F') \<and> files_ok F' \<and> kept F F' \<and>
    (\<forall>pos. r = Inr pos \<longrightarrow> stored F' pos b)"
proof -
  have len: "length (ser_block b) = size_block b" using block_c.size_ser [OF assms(2)] by simp
  let ?n = "word_of_nat (size_block b) :: u32"
  have "size_block b < 2 ^ 27" using assms(3) by (simp add: MAX_BLOCKFILE_SIZE_def)
  then have n: "unat (?n + 8) = size_block b + 8" by (simp add: unat_word_ariths unat_of_nat)
  then have a: "?n + 8 < MAX_BLOCKFILE_SIZE" using assms(3) by (simp add: word_less_nat_alt)
  obtain r F1 where f: "FindBlockPos env None (?n + 8) (word_of_int nHeight) (ucast (nTime b)) F = Some (r, F1)"
      "files_ok F1" "kept F F1"
      "\<And>m p. r = Inr (m, p) \<Longrightarrow> m < length (bf_info F1) \<and> unat p + unat (?n + 8) = unat (fi_nSize (bf_info F1 ! m)) \<and>
         (\<forall>q b. stored F (m, q) b \<longrightarrow> unat q + length (ser_block b) \<le> unat p)"
    using FindBlockPos_spec [OF assms(1) a] by blast
  show ?thesis
  proof (cases r)
    case (Inl e) then show ?thesis using f by (auto simp: store_block_def Let_def)
  next
    case (Inr pos)
    obtain m p where pos: "pos = (m, p)" by fastforce
    have r: "r = Inr (m, p)" using Inr pos by simp
    note m = f(4) [OF r]
    show ?thesis
    proof (cases "fe_open env m")
      case False
      then show ?thesis using f r by (auto simp: store_block_def WriteBlockToDisk_def Let_def)
    next
      case True
      define header where "header = fe_magic env @ ser_u32 ?n"
      have h: "length header = 8" using assms(4) u32.size_ser [of ?n] by (simp add: header_def)
      define F2 where "F2 = set_blk m (write_at (unat p) (header @ ser_block b) (bf_blk F1 m)) F1"
      have s: "store_block env None b nHeight F = Some (Inr (m, word_of_nat (unat p + 8)), F2)"
        using f(1) True h by (simp add: store_block_def WriteBlockToDisk_def r F2_def header_def [symmetric] Let_def)
      have i2: "bf_info F2 = bf_info F1" "bf_last F2 = bf_last F1" by (simp_all add: F2_def set_blk_def)
      have "unat (fi_nSize (bf_info F1 ! m)) < 2 ^ 32" using unsigned_less [of "fi_nSize (bf_info F1 ! m)", where ?'a = nat] by simp
      then have p: "unat (p + 8) = unat p + 8" using m n by (simp add: unat_word_ariths)
      have "stored F2 (q, x) c" if "stored F (q, x) c" for q x c
      proof (cases "q = m")
        case True
        then show ?thesis using that f(3) m holds_write [of "unat x" "ser_block c" "bf_blk F1 m" "unat p"]
          by (auto simp: kept_def stored_def i2) (auto simp: F2_def set_blk_def)
      next
        case False
        then show ?thesis using that f(3) by (auto simp: kept_def stored_def i2) (auto simp: F2_def set_blk_def)
      qed
      moreover have "files_ok F2" using f(2) by (simp add: files_ok_def i2)
      moreover have "stored F2 (m, word_of_nat (unat p + 8)) b"
        using holds_written [of "unat p" header "ser_block b" "bf_blk F1 m"] m n len h
        by (simp add: stored_def p i2) (simp add: F2_def set_blk_def)
      ultimately show ?thesis using s by (auto simp: kept_def)
    qed
  qed
qed

lemma stored_read:
  assumes "stored F (n, p) b" "block_ok b" shows "read_block_file F (int n) p = Some b"
  using assms holds_read by (auto simp: stored_def read_block_file_def)

text \<open>A sequence of blocks and their heights.\<close>

fun store_blocks :: "file_env \<Rightarrow> (CBlock \<times> int) list \<Rightarrow> block_files \<Rightarrow> ((conn_error + nat \<times> u32) list \<times> block_files) option" where
  "store_blocks env [] F = Some ([], F)"
| "store_blocks env ((b, h) # bs) F =
     (case store_block env None b h F of
        None \<Rightarrow> None
      | Some (r, F1) \<Rightarrow> map_option (\<lambda>(rs, F2). (r # rs, F2)) (store_blocks env bs F1))"

definition storable :: "CBlock \<Rightarrow> bool" where
  "storable b \<longleftrightarrow> block_ok b \<and> size_block b + 8 < unat MAX_BLOCKFILE_SIZE"

lemma store_blocks_spec:
  assumes "length (fe_magic env) = 4" "list_all (\<lambda>x. storable (fst x)) bs" "files_ok F"
  shows "\<exists>rs F'. store_blocks env bs F = Some (rs, F') \<and> length rs = length bs \<and> files_ok F' \<and> kept F F' \<and>
    (\<forall>i < length bs. \<forall>pos. rs ! i = Inr pos \<longrightarrow> stored F' pos (fst (bs ! i)))"
  using assms(2,3)
proof (induction bs arbitrary: F)
  case (Cons x bs)
  obtain b h where x: "x = (b, h)" by fastforce
  have b: "block_ok b" "size_block b + 8 < unat MAX_BLOCKFILE_SIZE" using Cons.prems(1) by (simp_all add: x storable_def)
  obtain r F1 where 1: "store_block env None b h F = Some (r, F1)" "files_ok F1" "kept F F1" "\<And>pos. r = Inr pos \<Longrightarrow> stored F1 pos b"
    using store_block_spec [OF Cons.prems(2) b assms(1)] by blast
  have "list_all (\<lambda>x. storable (fst x)) bs" using Cons.prems(1) by simp
  from Cons.IH [OF this 1(2)] obtain rs F' where 2: "store_blocks env bs F1 = Some (rs, F')" "length rs = length bs" "files_ok F'"
      "kept F1 F'" "\<And>i pos. i < length bs \<Longrightarrow> rs ! i = Inr pos \<Longrightarrow> stored F' pos (fst (bs ! i))"
    by blast
  have "store_blocks env (x # bs) F = Some (r # rs, F')" using 1(1) 2(1) by (simp add: x)
  moreover have "stored F' pos (fst ((x # bs) ! i))" if "i < length (x # bs)" "(r # rs) ! i = Inr pos" for i pos
  proof (cases i)
    case 0
    then show ?thesis using that(2) 1(4) 2(4) unfolding x kept_def by (metis nth_Cons_0 fst_conv)
  qed (use that 2(5) in simp)
  ultimately show ?case using 2(2,3) kept_trans [OF 1(3) 2(4)] by auto
qed simp

end
