(* ===== verification/NodeSamples.thy ===== *)
theory NodeSamples
  imports Samples NodeSteps FileLemmas BlockRules
begin

text \<open>
  Concrete nodes, blocks and environments on which the properties of the chain, of the block checks
  and of the block files are evaluated: a node that knows the genesis block and has not connected
  it, a node that knows nothing, a mined block, and the files it is written to.
\<close>

text \<open>A node that knows the genesis block and has not connected it.\<close>

definition sample_genesis :: CBlock where
  "sample_genesis = \<lparr>hd_nVersion = 1, hashPrevBlock = 0, hashMerkleRoot = 0, nTime = 0, nBits = 0x207fffff, nNonce = 0,
     nAccumulatorCheckpoint = 0, vtx = [sample_coinbase], vchBlockSig = []\<rparr>"

definition sample_node_env :: node_env where
  "sample_node_env = \<lparr>nd_pk = raw_keys, nd_file = (\<lambda>n pos. Some sample_genesis), nd_hash = (\<lambda>b. 1), nd_skip_pow = True,
     nd_limit = 5, nd_genesis = 1, nd_connect_env = (\<lambda>h p a c. sample_connect_env), nd_erase = (\<lambda>c tx. True),
     nd_checkpoint = (\<lambda>h p c. True), nd_undo_pos = (\<lambda>c. 0), nd_nCoinCacheSize = 100, nd_flush_due = (\<lambda>c. True),
     nd_writable = True\<rparr>"

definition sample_start :: "node_coins chain_state" where
  "sample_start = \<lparr>st_index = (\<lambda>p. CBlockIndex_Null\<lparr>ix_hash := 1, ix_nStatus := 8, ix_nChainTx := 1, ix_nChainWork := 1\<rparr>),
     st_map = [(1, 0)], st_active = [], st_candidates = [0], st_best_invalid = None, st_best_header = None,
     st_unlinked = [], st_seq = 1, st_dirty = {},
     st_coins = \<lparr>nc_tip = CCoinsViewCache (\<lambda>k. None), nc_stake = (\<lambda>o1. None), nc_undo = (\<lambda>p. None)\<rparr>\<rparr>"

lemma sample_start_chain: "chain_ok {0} sample_start"
  by code_simp

lemma sample_start_safe: "node_safe sample_node_env (\<lambda>x. sample_genesis) {0} sample_start"
proof -
  have ok: "node_ok sample_node_env (\<lambda>x. sample_genesis)"
    by (simp add: node_ok_def sample_node_env_def raw_keys_ok)
  have en: "node_entry sample_node_env (\<lambda>x. sample_genesis) (st_index sample_start 0)"
    by (simp add: node_entry_def sample_node_env_def sample_start_def CBlockIndex_Null_def)
  have tip: "tip_utxo raw_keys (CCoinsViewCache (\<lambda>k. None)) = (\<lambda>t. None)" "tip_inv raw_keys (CCoinsViewCache (\<lambda>k. None))"
    by (auto simp: tip_utxo_def tip_inv_def CCoinsViewCache_def cache_utxo_def cache_inv_def db_utxo_def db_Read_def
        batch_ok_def db_valid_def)
  have pk: "nd_pk sample_node_env = raw_keys" by (simp add: sample_node_env_def)
  have c: "st_coins sample_start = \<lparr>nc_tip = CCoinsViewCache (\<lambda>k. None), nc_stake = (\<lambda>o1. None), nc_undo = (\<lambda>p. None)\<rparr>"
    "Tip (st_active sample_start) = None" by (simp_all add: sample_start_def Tip_def)
  show ?thesis unfolding node_safe_def node_reflects_def
    using sample_start_chain ok en tip
    by (simp add: c pk tip_at_def u_ok_def coins_of_chain_def path_of_def chain_coins_def chain_blocks_def)
qed

lemma sample_activated: "map_option (\<lambda>(e, s'). (e, st_active s', hashBlock (nc_tip (st_coins s'))))
    (ActivateBestChain (node_ledger sample_node_env) (nd_hash sample_node_env) None False sample_start) = Some (None, [Some 0], 1)"
  by code_simp

definition sample_check :: check_env where
  "sample_check = \<lparr>ce_MaxMoneyOut = 100, ce_MaxSpends = 7, ce_CheckZerocoinMint = (\<lambda>h t. True),
     ce_CheckZerocoinSpend = (\<lambda>t b. True), ce_fVerifySignature = True\<rparr>"

definition sample_block_env :: block_env where
  "sample_block_env = \<lparr>be_hash = (\<lambda>b. 2), be_skip_pow = False, be_limit = 5, be_genesis = 1, be_Zerocoin_StartTime = 2000,
     be_Zerocoin_HeaderVersion = 4, be_AdjustedTime = 1000, be_check = sample_check, be_filter = True,
     be_locked = (\<lambda>o1. None), be_initial_download = False, be_payee = (\<lambda>b n. True), be_serial = (\<lambda>i. 0),
     be_pow = \<lparr>pw_ProofOfWorkLimit = 5, pw_LAST_POW_BLOCK = 200, pw_TargetSpacing = 60\<rparr>, be_maxreorg = 100,
     be_checkpoints = \<lparr>cp_enabled = False, cp_map = []\<rparr>, be_to_check = 1, be_enforce = 1, be_reject = 2\<rparr>"

definition sample_mined :: "script \<Rightarrow> CBlock" where
  "sample_mined sig = sample_genesis\<lparr>hd_nVersion := 3, nBits := 0x04ffff00, vtx := [sample_coinbase\<lparr>vin := [\<lparr>prevout = COutPoint_Null,
     scriptSig = sig, nSequence = - 1\<rparr>]\<rparr>]\<rparr>"

definition sample_rooted :: CBlock where
  "sample_rooted = sample_genesis\<lparr>nBits := 0x207fffff, hashMerkleRoot := GetHash sample_coinbase\<rparr>"

lemma sample_rooted_tree: "BuildMerkleTree sample_rooted = (GetHash sample_coinbase, False)"
  by (simp add: BuildMerkleTree_def BuildMerkleTree_nodes_def sample_rooted_def sample_genesis_def merkle_levels.simps)

lemma sample_coinbase_checked: "CheckTransaction sample_check sample_coinbase False = Inr ()"
  by (simp add: CheckTransaction_def sample_coinbase_def sample_check_def size_tx_def size_vector_def
      size_txin_def size_txout_def size_bytes_def GetSizeOfCompactSize_def MAX_ZEROCOIN_TX_SIZE_def
      CTxOut_IsEmpty_def MoneyRange_def IsZerocoinSpend_def IsCoinBase_def COutPoint_IsNull_def COutPoint_Null_def Let_def)

lemma sample_rooted_checked: "CheckBlock sample_block_env sample_start sample_rooted False True = Inr ()"
proof -
  have "vtx sample_rooted = [sample_coinbase]" "block_time sample_rooted = 0" "hd_nVersion sample_rooted = 1"
    "hashMerkleRoot sample_rooted = GetHash sample_coinbase"
    by (simp_all add: sample_rooted_def sample_genesis_def block_time_def)
  moreover have "size_block sample_rooted \<le> MAX_BLOCK_SIZE_CURRENT"
    by (simp add: sample_rooted_def sample_genesis_def sample_coinbase_def size_block_def size_header_def size_vector_def
        size_tx_def size_txin_def size_txout_def size_bytes_def GetSizeOfCompactSize_def MAX_BLOCK_SIZE_CURRENT_def)
  moreover have "Tip (st_active sample_start) = None" by (simp add: sample_start_def Tip_def)
  ultimately show ?thesis using sample_coinbase_kind sample_coinbase_checked sample_rooted_tree sample_sigops
    by (simp add: CheckBlock_def CheckBlockHeader_def IsProofOfWork_def IsProofOfStake_def check_order_def check_locks_def
        check_payees_def sbind_def sample_block_env_def MAX_BLOCK_SIZE_CURRENT_def Let_def)
qed

definition sample_at :: "int \<Rightarrow> node_coins chain_state" where
  "sample_at k = sample_start\<lparr>st_index := (\<lambda>p. CBlockIndex_Null\<lparr>ix_nVersion := 3, ix_nHeight := k\<rparr>)\<rparr>"

lemma sample_pushed: "push_int64 1 = [0x51]" "push_int64 2 = [0x52]"
  by code_simp+

lemma sample_final: "list_ex (\<lambda>tx. \<not> IsFinalTx k a tx n t) (vtx (sample_mined sig)) = False"
  by (simp add: sample_mined_def sample_genesis_def sample_coinbase_def IsFinalTx_def)

lemma sample_mined_at:
  "ContextualCheckBlock sample_block_env (sample_at 0) (sample_mined [0x51, 0]) (Some 0) = Inr ()"
  "ContextualCheckBlock sample_block_env (sample_at 1) (sample_mined [0x52, 0]) (Some 0) = Inr ()"
proof -
  have h: "ix_nHeight (st_index (sample_at k) 0) = k" for k by (simp add: sample_at_def)
  have s: "scriptSig (hd (vin (hd (vtx (sample_mined sig))))) = sig" for sig by (simp add: sample_mined_def)
  show "ContextualCheckBlock sample_block_env (sample_at 0) (sample_mined [0x51, 0]) (Some 0) = Inr ()"
    by (simp add: ContextualCheckBlock_def sample_final s h sample_pushed Let_def)
  show "ContextualCheckBlock sample_block_env (sample_at 1) (sample_mined [0x52, 0]) (Some 0) = Inr ()"
    by (simp add: ContextualCheckBlock_def sample_final s h sample_pushed Let_def)
qed

lemma sample_majority:
  "IsSuperMajority (be_to_check sample_block_env) (st_index (sample_at k)) 2 (Some 0) (be_enforce sample_block_env)"
  by (simp add: IsSuperMajority_def sample_block_env_def sample_at_def)

definition sample_kernel :: stake_env where
  "sample_kernel = \<lparr>se_proof = (\<lambda>h. 0), se_modifier = (\<lambda>h p. (0, True)), se_checksum = (\<lambda>h p. 0)\<rparr>"

definition sample_files :: file_env where
  "sample_files = \<lparr>fe_magic = [0x91, 0xc4, 0xfd, 0xe9], fe_open = (\<lambda>n. True), fe_available = (\<lambda>F. 0x1000000000000)\<rparr>"

definition sample_accept :: accept_env where
  "sample_accept = \<lparr>ae_node = sample_node_env, ae_block = (\<lambda>s. sample_block_env), ae_file = sample_files,
     ae_kernel = (\<lambda>s. sample_kernel), ae_proof = (\<lambda>s b. None), ae_signed = (\<lambda>b. True), ae_V2_Start = 0, ae_StakeDepth = 200,
     ae_new = (\<lambda>s. Suc (foldr max (map snd (st_map (ns_chain s))) 0)), ae_genesis = sample_rooted\<rparr>"

definition sample_node :: node_state where
  "sample_node = \<lparr>ns_chain = sample_start\<lparr>st_index := (\<lambda>p. CBlockIndex_Null), st_map := [], st_candidates := []\<rparr>,
     ns_files = \<lparr>bf_info = [], bf_last = 0, bf_dirty = {}, bf_blk = (\<lambda>n. [])\<rparr>, ns_stake = (\<lambda>h. None)\<rparr>"

definition sample_root_block :: "uint256 \<Rightarrow> CBlock" where
  "sample_root_block r = sample_genesis\<lparr>nBits := 0x207fffff, hashMerkleRoot := r\<rparr>"

definition sample_known :: "uint256 \<Rightarrow> node_coins chain_state option" where
  "sample_known r =
     (case AddToBlockIndex (sample_kernel\<lparr>se_proof := stake_hash sample_node\<rparr>) (sample_root_block r) 1 1 (ns_chain sample_node) of
        None \<Rightarrow> None
      | Some (p, c) \<Rightarrow> if have_data (st_index c p) \<or> p \<noteq> 1 \<or> ix_nHeight (st_index c p) \<noteq> 0 \<or> ix_pprev (st_index c p) \<noteq> None then None
          else Some c)"

lemma sample_taken_in: "map_option (\<lambda>(e, c). (e, st_active c))
   (case sample_known r of None \<Rightarrow> None
    | Some c \<Rightarrow> (case ReceivedBlockTransactions (sample_root_block r) 0 8 1 c of None \<Rightarrow> None
        | Some c2 \<Rightarrow> ActivateBestChain (node_ledger (sample_node_env\<lparr>nd_file := f\<rparr>)) (\<lambda>b. 1) (Some (sample_root_block r)) True c2))
   = Some (None, [Some 1])"
  by code_simp

lemma sample_not_stake: "IsProofOfStake sample_rooted = False" "accept_hash sample_accept b = 1"
  "nd_genesis (ae_node sample_accept) = 1" "vtx sample_rooted = [sample_coinbase]"
  by (simp_all add: IsProofOfStake_def sample_rooted_def sample_genesis_def accept_hash_def sample_accept_def sample_node_env_def)

lemma sample_rooted_checks: "CheckBlock (block_env_at sample_accept sample_node) (ns_chain sample_node) sample_rooted True True = Inr ()"
proof -
  have "vtx sample_rooted = [sample_coinbase]" "block_time sample_rooted = 0" "hd_nVersion sample_rooted = 1"
    "hashMerkleRoot sample_rooted = GetHash sample_coinbase"
    by (simp_all add: sample_rooted_def sample_genesis_def block_time_def)
  moreover have "size_block sample_rooted \<le> MAX_BLOCK_SIZE_CURRENT"
    by (simp add: sample_rooted_def sample_genesis_def sample_coinbase_def size_block_def size_header_def size_vector_def
        size_tx_def size_txin_def size_txout_def size_bytes_def GetSizeOfCompactSize_def MAX_BLOCK_SIZE_CURRENT_def)
  moreover have "Tip (st_active (ns_chain sample_node)) = None" by (simp add: sample_node_def sample_start_def Tip_def)
  ultimately show ?thesis using sample_coinbase_kind sample_coinbase_checked sample_rooted_tree sample_sigops
    by (simp add: CheckBlock_def CheckBlockHeader_def IsProofOfWork_def IsProofOfStake_def check_order_def check_locks_def
        check_payees_def sbind_def block_env_at_def sample_accept_def sample_node_env_def sample_block_env_def
        CheckProofOfWork_def MAX_BLOCK_SIZE_CURRENT_def Let_def)
qed

lemma sample_stored: "\<exists>F. store_block sample_files (Some (0, 8)) sample_rooted h (ns_files sample_node) = Some (Inr (0, 8), F) \<and>
    bf_blk F = (\<lambda>n. []) \<and> F \<noteq> ns_files sample_node"
  by (simp add: store_block_def FindBlockPos_def grow_info_def sample_node_def set_info_def Let_def)

lemma sample_contextual: "ContextualCheckBlock (block_env_at sample_accept s) c sample_rooted None = Inr ()"
  by (simp add: ContextualCheckBlock_def sample_not_stake IsFinalTx_def sample_coinbase_def)
    (simp add: sample_rooted_def sample_genesis_def)

lemma sample_header_checks:
  "CheckBlockHeader (block_env_at sample_accept s) sample_rooted False = None"
  "ContextualCheckBlockHeader (block_env_at sample_accept s) c sample_rooted None = Inr ()"
  "map_of (st_map (ns_chain sample_node)) h = None" "ae_new sample_accept sample_node = 1"
  "ae_kernel sample_accept s = sample_kernel" "ns_stake sample_node = (\<lambda>h. None)" "ae_file sample_accept = sample_files"
  "ae_signed sample_accept b"
  by (simp_all add: CheckBlockHeader_def ContextualCheckBlockHeader_def block_env_at_def sample_accept_def sample_node_def
      sample_node_env_def sample_block_env_def block_time_def sample_rooted_def sample_genesis_def sample_start_def Let_def)

lemma sample_accepted:
  "\<exists>c F c3. AcceptBlock sample_accept sample_rooted (Some (0, 8)) True sample_node = Some (Inr (), sample_node\<lparr>ns_files := F, ns_chain := c\<rparr>) \<and>
    bf_blk F = (\<lambda>n. []) \<and> F \<noteq> ns_files sample_node \<and>
    ActivateBestChain (node_ledger (sample_node_env\<lparr>nd_file := read_block_file F\<rparr>)) (\<lambda>b. 1) (Some sample_rooted) True c =
      Some (None, c3) \<and> st_active c3 = [Some 1]"
proof -
  have root: "sample_rooted = sample_root_block (GetHash sample_coinbase)" by (simp add: sample_rooted_def sample_root_block_def)
  obtain F where F: "store_block sample_files (Some (0, 8)) sample_rooted 0 (ns_files sample_node) = Some (Inr (0, 8), F)"
      "bf_blk F = (\<lambda>n. [])" "F \<noteq> ns_files sample_node"
    using sample_stored by blast
  obtain c c2 c3 where c: "sample_known (GetHash sample_coinbase) = Some c"
      "ReceivedBlockTransactions sample_rooted 0 8 1 c = Some c2"
      "ActivateBestChain (node_ledger (sample_node_env\<lparr>nd_file := read_block_file F\<rparr>)) (\<lambda>b. 1) (Some sample_rooted) True c2 =
         Some (None, c3)" "st_active c3 = [Some 1]"
    using sample_taken_in [where r = "GetHash sample_coinbase" and f = "read_block_file F"] unfolding root [symmetric]
    by (auto simp: map_option_case split: option.splits prod.splits)
  have a: "AddToBlockIndex (sample_kernel\<lparr>se_proof := stake_hash sample_node\<rparr>) sample_rooted 1 1 (ns_chain sample_node) = Some (1, c)"
    "\<not> have_data (st_index c 1)" "ix_nHeight (st_index c 1) = 0" "ix_pprev (st_index c 1) = None"
    using c(1) unfolding sample_known_def root [symmetric] by (auto split: option.splits prod.splits if_splits)
  have hdr: "AcceptBlockHeader sample_accept sample_rooted sample_node = Some (Inr 1, sample_node\<lparr>ns_chain := c\<rparr>)"
    unfolding AcceptBlockHeader_def sample_not_stake sample_header_checks using a(1)
    by (simp add: Let_def sample_header_checks sample_not_stake)
  have "AcceptBlock sample_accept sample_rooted (Some (0, 8)) True sample_node =
      Some (Inr (), sample_node\<lparr>ns_files := F, ns_chain := c2\<rparr>)"
    unfolding AcceptBlock_def abind_def accept_parent_def CheckWork_at_def accept_stake_def sample_not_stake
    using hdr a(2-4) F(1) c(2)
    by (simp add: Let_def accept_checks_def sbind_def sample_contextual stake_inputs_def sample_not_stake accept_store_def
        sample_header_checks)
  then show ?thesis using F c(3,4) by blast
qed

lemma sample_processed:
  "\<exists>s'. ProcessNewBlock sample_accept False sample_rooted (Some (0, 8)) sample_node = Some (Inr (), s') \<and>
    st_active (ns_chain s') = [Some 1] \<and> bf_blk (ns_files s') = (\<lambda>n. [])"
proof -
  obtain c F c3 where acc: "AcceptBlock sample_accept sample_rooted (Some (0, 8)) True sample_node =
      Some (Inr (), sample_node\<lparr>ns_files := F, ns_chain := c\<rparr>)" "bf_blk F = (\<lambda>n. [])"
    and c3: "ActivateBestChain (node_ledger (sample_node_env\<lparr>nd_file := read_block_file F\<rparr>)) (\<lambda>b. 1) (Some sample_rooted) True c =
      Some (None, c3)" "st_active c3 = [Some 1]"
    using sample_accepted by blast
  have lg: "node_at sample_accept s = sample_node_env\<lparr>nd_file := read_block_file (ns_files s)\<rparr>" for s
    by (simp add: node_at_def sample_accept_def)
  have h: "accept_hash sample_accept = (\<lambda>b. 1)" by (simp add: fun_eq_iff sample_not_stake)
  have "ProcessNewBlock sample_accept False sample_rooted (Some (0, 8)) sample_node =
      Some (Inr (), sample_node\<lparr>ns_files := F, ns_chain := c3\<rparr>)"
    using c3(1) by (simp add: ProcessNewBlock_def sample_rooted_checks sample_header_checks acc(1) abind_def node_Activate_def
        on_chain_def lg h)
  then show ?thesis using c3(2) acc(2) by auto
qed

lemma sample_env_ok: "env_ok sample_accept (\<lambda>x. sample_rooted)"
proof -
  have "p \<le> foldr max ps 0" if "p \<in> set ps" for p and ps :: "ptr list" using that by (induction ps) auto
  then have new: "Suc (foldr max ps 0) \<notin> set ps" for ps :: "ptr list" by fastforce
  have "ae_new sample_accept s \<notin> entries s" for s
    using new [of "map snd (st_map (ns_chain s))"] unfolding sample_accept_def list.set_map by simp
  then show ?thesis
    by (simp add: env_ok_def sample_not_stake)
      (simp add: sample_accept_def sample_node_env_def raw_keys_ok sample_rooted_def sample_genesis_def)
qed

lemma sample_reached:
  assumes "ProcessNewBlock sample_accept False sample_rooted (Some (0, 8)) sample_node = Some (r, s')" "bf_blk (ns_files s') = (\<lambda>n. [])"
  shows "reached sample_accept (\<lambda>x. sample_rooted) s'"
proof (rule reached.block [OF reached.start _ assms(1)])
  have e: "unser_block [] = None" by (simp add: unser_block_def unser_header_def rbind_def unser_int_def READDATA_def)
  show "disk_ok sample_accept (\<lambda>x. sample_rooted) s'" using assms(2) e by (simp add: disk_ok_def read_block_file_def)
  show "disk_ok sample_accept (\<lambda>x. sample_rooted) sample_node" using e by (simp add: disk_ok_def read_block_file_def sample_node_def)
  show "node_started sample_node" by (simp add: node_started_def sample_node_def sample_start_def)
  show "block_fits sample_accept (\<lambda>x. sample_rooted) sample_node sample_rooted"
    by (simp add: block_fits_def sample_not_stake sample_header_checks)
qed

lemma genesis_storable: "storable sample_genesis"
proof -
  have "tx_ok sample_coinbase"
    by (simp add: tx_ok_def sample_coinbase_def COutPoint_Null_def MAX_SIZE_def txin_ok_def txout_ok_def)
  then have "block_ok sample_genesis" by (simp add: block_ok_def header_ok_def sample_genesis_def MAX_SIZE_def)
  moreover have "size_block sample_genesis \<le> 1000"
    by (simp add: sample_genesis_def sample_coinbase_def size_block_def size_header_def size_vector_def
        size_tx_def size_txin_def size_txout_def size_bytes_def GetSizeOfCompactSize_def)
  ultimately show ?thesis by (simp add: storable_def MAX_BLOCKFILE_SIZE_def)
qed

lemma sample_placed: "\<exists>F. store_block sample_files None sample_genesis 0 (ns_files sample_node) = Some (Inr (0, 8), F)"
proof -
  have n: "size_block sample_genesis = 144"
    by (simp add: sample_genesis_def sample_coinbase_def size_block_def size_header_def size_vector_def
        size_tx_def size_txin_def size_txout_def size_bytes_def GetSizeOfCompactSize_def)
  have "leave_files sample_files 152 0 (grow_info 0 (ns_files sample_node)) = Some (0, grow_info 0 (ns_files sample_node))"
    by (subst leave_files.simps) (simp add: sample_node_def grow_info_def CBlockFileInfo_Null_def MAX_BLOCKFILE_SIZE_def)
  moreover have "length (ser_u32 w) = 4" for w using u32.size_ser [of w] by simp
  ultimately show ?thesis
    by (simp add: store_block_def n FindBlockPos_def sample_node_def grow_info_def CBlockFileInfo_Null_def sample_files_def
        CheckDiskSpace_def nMinDiskSpace_def BLOCKFILE_CHUNK_SIZE_def chunks_def set_info_def set_blk_def AddBlock_def
        WriteBlockToDisk_def Let_def)
qed

end
