(* ===== verification/PoolSamples.thy ===== *)
theory PoolSamples
  imports AcceptLemmas NodeSamples
begin

text \<open>
  A zerocoin spend offered to an empty memory pool, and the pool that holds it: the values on which
  the properties of the pool are evaluated.
\<close>

definition sample_zc_spend :: CTransaction where
  "sample_zc_spend = \<lparr>nVersion = 1, vin = [\<lparr>prevout = COutPoint_Null, scriptSig = [0xc2], nSequence = 1\<rparr>],
     vout = [\<lparr>nValue = 99999000, scriptPubKey = [0x51]\<rparr>], nLockTime = 0\<rparr>"

definition sample_policy :: policy_env where
  "sample_policy = \<lparr>pe_tipHeight = 0, pe_adjustedTime = 50, pe_datacarrier = True, pe_nMaxDatacarrierBytes = 80,
     pe_fIsBareMultisigStd = True, pe_minRelayTxFee = 1000\<rparr>"

definition sample_pool_env :: accept_tx_env where
  "sample_pool_env = \<lparr>at_maintenance = False, at_Zerocoin_StartHeight = 0, at_check = sample_check\<lparr>ce_MaxMoneyOut := 1000000000\<rparr>,
     at_RequireStandard = False, at_policy = sample_policy, at_locked = (\<lambda>o1. None), at_in_chain = (\<lambda>h. False),
     at_spend = (\<lambda>tx i. True), at_mint = (\<lambda>tx o1. None), at_ValidOutPoint = (\<lambda>o1 h. True), at_inputs = sample_inputs_env,
     at_broadcast = (\<lambda>h. False), at_minRelayTxFee = 1000, at_MintFee = 1, at_relaypriority = True, at_limitfreerelay = 30,
     at_to_check = 10, at_enforce = 5, at_now = 50, at_AdjustedTime = 50, at_pow = (\<lambda>x. 1)\<rparr>"

definition sample_pool_state :: "store cache accept_tx_state" where
  "sample_pool_state = \<lparr>as_pool = pool_empty, as_tip = CCoinsViewCache (\<lambda>k. None), as_free = 0, as_last = 0,
     as_spends = (\<lambda>h. None)\<rparr>"

definition sample_pool_chain :: "node_coins chain_state" where
  "sample_pool_chain = sample_start\<lparr>st_active := [Some 0]\<rparr>"

lemma sample_zc_kind: "tx_IsZerocoinSpend sample_zc_spend" "\<not> IsCoinBase sample_zc_spend" "\<not> IsCoinStake sample_zc_spend"
  "GetZerocoinSpent sample_zc_spend = 100000000" "GetValueOut sample_zc_spend = Some 99999000" "size_tx sample_zc_spend = 62"
  "pool_fees 100000000 99999000 = 1000" "GetFee 1000 62 = 62" "chain_Height (st_active sample_pool_chain) = 0"
  "\<not> tx_IsZerocoinMint sample_zc_spend"
  by code_simp+

lemma sample_zc_checked: "CheckTransaction (at_check sample_pool_env) sample_zc_spend True = Inr ()"
proof -
  have v: "vin sample_zc_spend = [\<lparr>prevout = COutPoint_Null, scriptSig = [0xc2], nSequence = 1\<rparr>]"
    "vout sample_zc_spend = [\<lparr>nValue = 99999000, scriptPubKey = [0x51]\<rparr>]" by (simp_all add: sample_zc_spend_def)
  have k: "\<not> CTxOut_IsZerocoinMint \<lparr>nValue = 99999000, scriptPubKey = [0x51]\<rparr>" "\<not> IsZerocoinSpend [0x51]" "IsZerocoinSpend [0xc2]"
    "\<not> CTxOut_IsEmpty \<lparr>nValue = 99999000, scriptPubKey = [0x51]\<rparr>" by code_simp+
  show ?thesis using k sample_zc_kind
    by (simp add: CheckTransaction_def check_zerocoin_def MAX_ZEROCOIN_TX_SIZE_def v MoneyRange_def sample_pool_env_def
        sample_check_def sbind_def)
qed

lemma sample_zc_accepted: "\<exists>st'. AcceptToMemoryPool (node_ops raw_keys) sample_pool_env sample_pool_chain sample_zc_spend True True False
    sample_pool_state = (Inr (), st') \<and> as_pool st' = addUnchecked (GetHash sample_zc_spend)
      (CTxMemPoolEntry_of sample_zc_spend 1000 50 0 0) pool_empty"
proof -
  have early: "accept_early sample_pool_env sample_pool_chain pool_empty sample_zc_spend = Inr ()"
    using sample_zc_kind sample_zc_checked
    by (simp add: accept_early_def) (simp add: sample_pool_env_def pool_exists_def pool_empty_def list_ex_iff)
  have spend: "accept_spend sample_pool_env sample_zc_spend = Inr 100000000"
    using sample_zc_kind by (simp add: accept_spend_def) (simp add: sample_pool_env_def list_ex_iff)
  have sig: "accept_sigops sample_pool_env sample_zc_spend v = Inr v" for v :: "store cache cache"
    using sample_zc_kind by (simp add: accept_sigops_def sample_pool_env_def)
  have scripts: "accept_scripts sample_pool_env sample_pool_chain sample_zc_spend v = Inr ()" for v :: "store cache cache"
    using sample_zc_kind by (simp add: accept_scripts_def CheckInputs_def verdict_def)
  have fees: "accept_fees sample_pool_env 0 True False sample_zc_spend 1000 62 v st = (Inr v, st)" for v :: "store cache cache" and st
    using sample_zc_kind by (simp add: accept_fees_def) (simp add: sample_pool_env_def)
  have env: "at_now sample_pool_env = 50" "at_minRelayTxFee sample_pool_env = 1000" by (simp_all add: sample_pool_env_def)
  have pool: "as_pool sample_pool_state = pool_empty" by (simp add: sample_pool_state_def)
  have size: "me_size (CTxMemPoolEntry_of sample_zc_spend f t d n) = 62" for f t d n by (simp add: CTxMemPoolEntry_of_def sample_zc_kind)
  show ?thesis
    using sample_zc_kind
    by (simp add: AcceptToMemoryPool_def pool early accept_view_def spend sig fees scripts size env Let_def)
qed

lemma sample_zc_pool: "pool_reached (addUnchecked (GetHash sample_zc_spend) (CTxMemPoolEntry_of sample_zc_spend 1000 50 0 0) pool_empty)"
proof -
  have "pure_inputs sample_zc_spend" using sample_zc_kind(1)
    by (simp add: pure_inputs_def) (simp add: sample_zc_spend_def COutPoint_Null_def)
  moreover have "pool_reached (as_pool sample_pool_state)" by (simp add: sample_pool_state_def pool_reached.start)
  ultimately show ?thesis using sample_zc_accepted pool_reached.accept by metis
qed

lemma sample_zc_lookup:
  "map_of (mp_tx (addUnchecked (GetHash sample_zc_spend) (CTxMemPoolEntry_of sample_zc_spend 1000 50 0 0) pool_empty)) (GetHash sample_zc_spend)
    = Some (CTxMemPoolEntry_of sample_zc_spend 1000 50 0 0)"
  by (simp add: addUnchecked_def put_hash Let_def)

end
