(* ===== verification/Spec2Isabelle.thy ===== *)
theory Spec2Isabelle
  imports ScriptText VerifyLemmas TransactionLemmas Samples SigHash PoolSamples
begin

text \<open>
  Verification of Divitae, a proof-of-stake currency node in C++ derived from Bitcoin. The
  consensus code is layered: hash functions and a byte-string serialisation at the bottom; scripts,
  which are byte strings run by a stack machine; transactions, which carry scripts and amounts and
  are accepted by context-free checks; and the reward rules that fix what a block may create and
  who is paid. All paths below are under \<^verbatim>\<open>src/src/\<close>.

  Theories, with the code each one models:

    \<^item> \<open>Prelude\<close>: types shared by all (bytes, words, amounts), bytes of integers, the error monad.
    \<^item> \<open>HashStream\<close>, \<open>Sha256\<close>, \<open>Sha1\<close>, \<open>Ripemd160\<close>: \<^verbatim>\<open>crypto/\<close>. The three hash classes share the
      buffering of \<^verbatim>\<open>Write\<close> and the padding of \<^verbatim>\<open>Finalize\<close>; a state is the chaining value, the
      64-byte buffer and the byte count. The locale \<open>hasher\<close> states the contract of a streaming
      hash; every class is an interpretation.
    \<^item> \<open>Hash\<close>: \<^verbatim>\<open>hash.h\<close>, \<^verbatim>\<open>hash.cpp\<close> and \<^verbatim>\<open>crypto/hmac_sha256.cpp\<close>.
    \<^item> \<open>Script\<close>, \<open>ScriptText\<close>, \<open>ScriptNum\<close>, \<open>ScriptOps\<close>: \<^verbatim>\<open>script/script.h\<close> and \<^verbatim>\<open>script.cpp\<close>; a
      script is a list of bytes, an iterator is the suffix still to be read.
    \<^item> \<open>Interpreter\<close>, \<open>EvalScript\<close>: \<^verbatim>\<open>script/interpreter.cpp\<close> and \<^verbatim>\<open>script_error.cpp\<close>. The machine
      state is the record \<open>eval_state\<close>, with the locals of \<^verbatim>\<open>EvalScript\<close>; each group of cases of
      the switch is a definition; errors are \<open>Inl\<close> of the code's \<^verbatim>\<open>ScriptError\<close>. The signature
      checker is the record of functions \<open>sig_checker\<close>, as the class is abstract in the code. The
      recursion of \<open>eval_loop\<close> is on the script still to be read, so no fuel is needed.
    \<^item> \<open>EvalLemmas\<close>, \<open>VerifyLemmas\<close>: invariants of the loop (locale \<open>eval_invariant\<close>), the
      meaning of the signature opcodes, pay-to-public-key-hash, the DER layout of signatures.
    \<^item> \<open>Doubles\<close>, \<open>Rewards\<close>: \<^verbatim>\<open>GetBlockValue\<close>, \<^verbatim>\<open>GetSeeSaw\<close> and the payments of \<^verbatim>\<open>main.cpp\<close>, with
      the double arithmetic they use, and \<^verbatim>\<open>CFeeRate\<close> of \<^verbatim>\<open>amount.cpp\<close>. Doubles are rationals
      rounded to 53 bits, ties to even, without overflow or subnormals, which the magnitudes here
      do not reach.
    \<^item> \<open>Serialize\<close>: \<^verbatim>\<open>serialize.h\<close>; a reader consumes a prefix of a byte string or fails. The locale
      \<open>codec\<close> states that reading undoes writing and that the size function is exact.
    \<^item> \<open>Transaction\<close>, \<open>TransactionLemmas\<close>: \<^verbatim>\<open>primitives/transaction.h\<close>, \<^verbatim>\<open>transaction.cpp\<close> and
      the transaction checks of \<^verbatim>\<open>main.cpp\<close>.
    \<^item> \<open>Compressor\<close>, \<open>Coins\<close>: \<^verbatim>\<open>compressor.cpp\<close>, \<^verbatim>\<open>undo.h\<close> and \<^verbatim>\<open>CCoins\<close> of \<^verbatim>\<open>coins.h\<close>, the unspent
      outputs of one transaction, with their encodings.
    \<^item> \<open>CoinsView\<close>, \<open>CacheLemmas\<close>, \<open>CoinsDB\<close>: \<^verbatim>\<open>CCoinsViewCache\<close> of \<^verbatim>\<open>coins.cpp\<close> and
      \<^verbatim>\<open>CCoinsViewDB\<close> of \<^verbatim>\<open>txdb.cpp\<close>. The virtual class \<^verbatim>\<open>CCoinsView\<close> is the record \<open>view_ops\<close> of
      operations on a state; the locale \<open>coins_view\<close> states what a view promises in terms of an
      abstract map from transaction ids to coins. The database and the cache over any view are
      interpretations, so caches stack as they do in the code.
    \<^item> \<open>UtxoLemmas\<close>, \<open>Connect\<close>, \<open>ConnectLemmas\<close>, \<open>ConnectBlock\<close>, \<open>ConnectSpec\<close>, \<open>NoDouble\<close>:
      \<^verbatim>\<open>UpdateCoins\<close>, \<^verbatim>\<open>CheckInputs\<close>, \<^verbatim>\<open>ConnectBlock\<close> and \<^verbatim>\<open>DisconnectBlock\<close> of \<^verbatim>\<open>main.cpp\<close>, as functions on
      a cache, and their refinement of an abstract transition on the map of coins (\<open>u_update\<close>,
      \<open>u_spends\<close>); the locale \<open>utxo_view\<close> carries the simulation for any view.
    \<^item> \<open>Block\<close>, \<open>BlockLemmas\<close>, \<open>Merkle\<close>, \<open>PartialMerkle\<close>: \<^verbatim>\<open>primitives/block.h\<close>, \<^verbatim>\<open>block.cpp\<close> and
      \<^verbatim>\<open>merkleblock.cpp\<close>.
    \<^item> \<open>Standard\<close>, \<open>Policy\<close>: \<^verbatim>\<open>script/standard.cpp\<close>, \<^verbatim>\<open>pubkey.h\<close>, and \<^verbatim>\<open>IsStandardTx\<close> and
      \<^verbatim>\<open>AreInputsStandard\<close> of \<^verbatim>\<open>main.cpp\<close>.
    \<^item> \<open>SigHash\<close>: the message a signature signs and \<^verbatim>\<open>TransactionSignatureChecker\<close> of
      \<^verbatim>\<open>script/interpreter.cpp\<close>, an instance of \<open>sig_checker\<close>; the curve operations are parameters.
    \<^item> \<open>BaseUint\<close>: \<^verbatim>\<open>base_uint\<close> of \<^verbatim>\<open>uint256.h\<close> and \<^verbatim>\<open>uint256.cpp\<close> as a list of 32-bit words, with the
      long division and the carries as the code has them. Elsewhere a \<^verbatim>\<open>uint256\<close> is a \<open>256 word\<close>.
    \<^item> \<open>Compact\<close>: the compact form of a target (\<^verbatim>\<open>SetCompact\<close>, \<^verbatim>\<open>GetCompact\<close> of \<^verbatim>\<open>uint256.cpp\<close>),
      \<^verbatim>\<open>CheckProofOfWork\<close> and \<^verbatim>\<open>GetBlockProof\<close> of \<^verbatim>\<open>pow.cpp\<close>.
    \<^item> \<open>Pow\<close>: the target of the next block (\<^verbatim>\<open>GetNextWorkRequired\<close>) and \<^verbatim>\<open>GetBlockTrust\<close>.
    \<^item> \<open>ChainIndex\<close>, \<open>ChainLemmas\<close>: the block index of \<^verbatim>\<open>chain.h\<close> as a heap of entries, its skip list,
      \<^verbatim>\<open>CChain\<close> with forks and locators, and \<^verbatim>\<open>LastCommonAncestor\<close> of \<^verbatim>\<open>main.cpp\<close>. Loops along pointers
      are partial functions, so that the lemmas show that they end.
    \<^item> \<open>ChainState\<close>, \<open>ActivateChain\<close>, \<open>ActivateLemmas\<close>: chain selection of \<^verbatim>\<open>main.cpp\<close>: the candidates and
      how blocks enter the index, then \<^verbatim>\<open>FindMostWorkChain\<close>, \<^verbatim>\<open>ConnectTip\<close>, \<^verbatim>\<open>DisconnectTip\<close>,
      \<^verbatim>\<open>ActivateBestChain\<close>, \<^verbatim>\<open>InvalidateBlock\<close> and \<^verbatim>\<open>ReconsiderBlock\<close> over a ledger of coins.
    \<^item> \<open>StakeFlags\<close>, \<open>LedgerLemmas\<close>, \<open>NodeLedger\<close>, \<open>NodeChain\<close>: chain selection and the coins together.
      The locale \<open>ledger_laws\<close> is the interface: what connecting and disconnecting a block promise
      of the coins; from it every operation that moves the tip keeps coins and active chain in
      step. Its interpretation is the node's ledger: \<^verbatim>\<open>ConnectBlock\<close>, \<^verbatim>\<open>DisconnectBlock\<close> and the flushes of
      \<^verbatim>\<open>pcoinsTip\<close> over the database, with the undo data and \<^verbatim>\<open>ReadBlockFromDisk\<close> of \<^verbatim>\<open>main.cpp\<close>.
    \<^item> \<open>IndexLemmas\<close>: what new entries and marks keep of the index.
    \<^item> \<open>BlockChecks\<close>, \<open>BlockRules\<close>: \<^verbatim>\<open>CheckBlock\<close>, \<^verbatim>\<open>CheckWork\<close> and the contextual checks of \<^verbatim>\<open>main.cpp\<close>, the
      checkpoints of \<^verbatim>\<open>checkpoints.cpp\<close>, and what an accepted block satisfies.
    \<^item> \<open>BlockFiles\<close>, \<open>FileLemmas\<close>: the block files as bytes, their records, \<^verbatim>\<open>FindBlockPos\<close> and
      \<^verbatim>\<open>WriteBlockToDisk\<close>. The loop over full files is a partial function; it ends for every size below
      the limit of a file.
    \<^item> \<open>AcceptBlock\<close>, \<open>NodeSteps\<close>: \<^verbatim>\<open>AcceptBlock\<close>, \<^verbatim>\<open>ProcessNewBlock\<close> and \<^verbatim>\<open>InitBlockIndex\<close> on the record
      \<open>node_state\<close> of chain, coins, files and proofs of stake; the relation \<open>reached\<close> of the states a node can
      get to, and the invariant that coins and active chain agree in all of them.
    \<^item> \<open>Mempool\<close>, \<open>MempoolLemmas\<close>: the memory pool of \<^verbatim>\<open>txmempool.cpp\<close>; what each removal takes out, and
      that the maps of the pool stay consistent.
    \<^item> \<open>AcceptTx\<close>, \<open>AcceptLemmas\<close>: \<^verbatim>\<open>AcceptToMemoryPool\<close> with the relay fee and the rate limiter; the relation
      \<open>pool_reached\<close> of the pools a node can get to.
    \<^item> \<open>Node\<close>, \<open>Samples\<close>, \<open>NodeSamples\<close>, \<open>PoolSamples\<close>: the stack of a tip cache over the database, its invariant, and the concrete
      values the witnesses use.

  What the properties show: accepted transactions are sane and their encoding is a bijection onto
  its image; amounts are exact; payments stay within the block value; the emission is a fixed sum;
  scripts stay within their limits, disabled opcodes never succeed, the signature opcodes do what
  they promise and no assertion of the interpreter fails; hashes do not depend on how a message is
  cut into pieces. A connected block spends no output twice and disconnecting it restores the
  coins; whatever moves the tip, and however it ends, the coins are those of the active chain;
  checked inputs exist, are mature and cover the outputs; flushing a cache changes nothing a
  reader of the stack can see; a Merkle branch leads to the root. A signature over everything fixes
  everything but the input scripts; time-locked coins stay locked; the big-integer loops compute
  arithmetic modulo a power of two. The memory pool never holds two spends of one output, and a
  block or a reorganisation leaves in it only what can still be mined.

  Not modelled: the block index database, the messages between peers, the estimation of fees, the
  proof-of-stake kernel, the wallet, zerocoin proofs, the masternode and prosperity-node layers and
  the user interfaces; what the modelled code needs of them is a field of an environment record.
\<close>



text \<open>
  C2. A pool that any sequence of \<^verbatim>\<open>AcceptToMemoryPool\<close>, \<^verbatim>\<open>remove\<close>, \<^verbatim>\<open>removeForBlock\<close>, \<^verbatim>\<open>removeCoinbaseSpends\<close>, \<^verbatim>\<open>PrioritiseTransaction\<close>, \<^verbatim>\<open>AddTransactionsUpdated\<close> and \<^verbatim>\<open>clear\<close> leads to from the empty pool is consistent: each entry is under the hash of its transaction, \<^verbatim>\<open>mapNextTx\<close> holds exactly the outputs that the entries spend, each for the entry that spends it, the total size is the sum of the sizes, and two transactions of the pool, zerocoin spends apart, have no input in common. The transactions offered are of the two kinds the code knows: every input of a zerocoin spend has a null hash, no input of another transaction has.
\<close>

theorem pool_consistent:
  assumes "pool_reached pool"
  shows "pool_ok pool \<and>
    (\<forall>h e h' e'. map_of (mp_tx pool) h = Some e \<longrightarrow> map_of (mp_tx pool) h' = Some e' \<longrightarrow> h \<noteq> h' \<longrightarrow>
       \<not> tx_IsZerocoinSpend (me_tx e) \<longrightarrow> \<not> tx_IsZerocoinSpend (me_tx e') \<longrightarrow>
       prevout ` set (vin (me_tx e)) \<inter> prevout ` set (vin (me_tx e')) = {})"
proof -
  have "pool_ok pool" using pool_inv_ok [OF pool_reached_inv [OF assms]] .
  then show ?thesis using pool_no_conflict by blast
qed

theorem pool_consistent_witness:
  "\<exists>pool. pool_reached pool \<and> pool_ok pool \<and> pool_exists pool (GetHash sample_zc_spend)"
  using pool_consistent [OF sample_zc_pool] sample_zc_pool sample_zc_lookup by (auto simp: pool_exists_def)

text \<open>
  C3. For blocks that fit a file, \<^verbatim>\<open>FindBlockPos\<close> with its loop over full files and \<^verbatim>\<open>WriteBlockToDisk\<close> end for every block of a sequence, and in the end \<^verbatim>\<open>ReadBlockFromDisk\<close> at each position returned gives that block: later allocations, truncations and writes leave it in place, also when some blocks fail for want of space or of an open file.
\<close>

theorem stored_blocks_read_back:
  assumes "length (fe_magic env) = 4" "files_ok F" "list_all (\<lambda>x. storable (fst x)) bs"
  shows "\<exists>rs F'. store_blocks env bs F = Some (rs, F') \<and> length rs = length bs \<and>
    (\<forall>i < length bs. \<forall>n p. rs ! i = Inr (n, p) \<longrightarrow> read_block_file F' (int n) p = Some (fst (bs ! i)))"
proof -
  obtain rs F' where r: "store_blocks env bs F = Some (rs, F')" "length rs = length bs"
      "\<And>i n p. i < length bs \<Longrightarrow> rs ! i = Inr (n, p) \<Longrightarrow> stored F' (n, p) (fst (bs ! i))"
    using store_blocks_spec [OF assms(1,3,2)] by blast
  have "block_ok (fst (bs ! i))" if "i < length bs" for i
    using assms(3) that by (simp add: list_all_length storable_def)
  then show ?thesis using r(1,2) stored_read r(3) by blast
qed

theorem stored_blocks_read_back_witness:
  "\<exists>F'. store_blocks sample_files [(sample_genesis, 0)] (ns_files sample_node) = Some ([Inr (0, 8)], F') \<and>
    read_block_file F' 0 8 = Some sample_genesis"
proof -
  obtain F where F: "store_blocks sample_files [(sample_genesis, 0)] (ns_files sample_node) = Some ([Inr (0, 8)], F)"
    using sample_placed by auto
  have "length (fe_magic sample_files) = 4" "files_ok (ns_files sample_node)"
    by (simp_all add: sample_files_def files_ok_def sample_node_def)
  from stored_blocks_read_back [OF this, of "[(sample_genesis, 0)]"] F genesis_storable show ?thesis by auto
qed










text \<open>
  C6. A block connected by \<^verbatim>\<open>ConnectBlock\<close> and taken off again by \<^verbatim>\<open>DisconnectBlock\<close> with the undo data it wrote leaves the unspent outputs and the best block as they were and is reported clean, provided the ids of its transactions are new and it spends from no coinstake (whose flag is not restored, see the property on that flag). No assertion fails on the way.
\<close>

theorem connect_disconnect_id:
  assumes "pubkey_ops_ok pk" and "node_inv pk s"
    and "ConnectBlock (node_ops pk) env block hash pindex False m s = Inr r"
    and "u_ok (node_utxo pk s)" and "list_all tx_storable (vtx block)"
    and "undoable (node_utxo pk s) (vtx block) (bi_nHeight pindex)"
    and "0 < bi_nHeight pindex" and "bi_nHeight pindex < 2 ^ 31" and "hash \<noteq> cx_HashGenesisBlock env"
    and "bi_hash pindex = Some hash" and "hash \<noteq> 0" and "bi_prev_hash pindex = Some prev" and "prev \<noteq> 0"
    and "vtx block \<noteq> []" and "\<not> spends_inputs (hd (vtx block))" and "\<forall>tx \<in> set (vtx block). erase tx"
  shows "\<exists>m' s'. DisconnectBlock (node_ops pk) \<lparr>xb_hash = hash, xb_prev = prev, xb_nHeight = bi_nHeight pindex,
      xb_vtx = vtx block, xb_undo = Some (cr_vtxundo r), xb_erase = erase, xb_checkpoint = True\<rparr>
      (cr_stake r) (cr_view r) = Inr (True, m', s') \<and>
    node_inv pk s' \<and> node_utxo pk s' = node_utxo pk s \<and> node_best s' = node_best s"
  unfolding node_inv_def node_utxo_def node_best_def
  by (rule utxo_view.connect_disconnect [OF node_view [OF assms(1)] assms(2-) [unfolded node_inv_def node_utxo_def]])

theorem connect_disconnect_id_witness:
  "\<exists>m' s'. DisconnectBlock (node_ops raw_keys) \<lparr>xb_hash = 9, xb_prev = 8, xb_nHeight = 11, xb_vtx = [sample_coinbase],
      xb_undo = Some [], xb_erase = (\<lambda>tx. True), xb_checkpoint = True\<rparr> (\<lambda>_. None) (cr_view sample_result) = Inr (True, m', s') \<and>
    node_utxo raw_keys s' = node_utxo raw_keys (empty_node 8)"
  using connect_disconnect_id [OF raw_keys_ok empty_node_inv sample_connects, of 8 "\<lambda>tx. True"] sample_coinbase_kind
  by (auto simp: sample_fields sample_storable empty_node_utxo u_ok_def stake_free_def u_update_def sample_result_def)

text \<open>
  C7. In a block that \<^verbatim>\<open>ConnectBlock\<close> accepts on the node's views no output is spent twice, neither by two inputs of a transaction nor by two transactions, as long as the transaction ids differ and the overwrite check (BIP30) is made.
\<close>

theorem no_double_spend:
  assumes "pubkey_ops_ok pk" and "node_inv pk s"
    and "ConnectBlock (node_ops pk) env block hash pindex fJustCheck m s = Inr r"
    and "list_all tx_storable (vtx block)" and "0 \<le> bi_nHeight pindex" and "bi_nHeight pindex < 2 ^ 31"
    and "hash \<noteq> cx_HashGenesisBlock env" and "fEnforceBIP30 pindex" and "distinct (map GetHash (vtx block))"
  shows "distinct (concat (map spent_by (vtx block)))"
  by (rule utxo_view.block_no_double_spend [OF node_view [OF assms(1)] assms(2-) [unfolded node_inv_def]])

theorem no_double_spend_witness: "distinct (concat (map spent_by (vtx sample_block)))"
  using no_double_spend [OF raw_keys_ok empty_node_inv sample_connects]
  by (simp add: sample_fields sample_storable fEnforceBIP30_def)

text \<open>
  C8. When \<^verbatim>\<open>CheckInputs\<close> accepts a spending transaction with script checks on, each input names an output that is in the view, within the money range and satisfied by the input's script under the given flags; unless the transaction is a coinstake, its outputs sum to no more than these inputs. The check changes nothing the view represents.
\<close>

theorem checked_inputs:
  assumes "pubkey_ops_ok pk" and "node_inv pk s" and "spends_inputs tx"
    and "CheckInputs (node_ops pk) env tx True flags s = Inr s'"
  shows "node_utxo pk s' = node_utxo pk s \<and>
    (\<exists>outs. length outs = length (vin tx) \<and>
       (\<forall>j < length (vin tx). utxo_out (node_utxo pk s) (prevout (vin tx ! j)) = Some (outs ! j) \<and>
          0 \<le> nValue (outs ! j) \<and> nValue (outs ! j) \<le> ie_MaxMoneyOut env \<and>
          VerifyScript (scriptSig (vin tx ! j)) (scriptPubKey (outs ! j)) flags (ie_checker env tx j) = Some (Inr ())) \<and>
       (\<not> IsCoinStake tx \<longrightarrow> (\<exists>v. GetValueOut tx = Some v \<and> v \<le> sum_list (map nValue outs))))"
  using utxo_view.checked_outs [OF node_view [OF assms(1)], of s tx env flags s'] assms(2-)
  by (simp add: node_inv_def node_utxo_def)

theorem checked_inputs_witness:
  "\<exists>v. GetValueOut sample_spend = Some v \<and> v \<le> 1000"
  using checked_inputs [OF raw_keys_ok sample_node(1) sample_spends(1) sample_checked, of 8] sample_spends(2)
  by (auto simp: sample_inputs_env_def length_Suc_conv sample_spend_def)





text \<open>
  C11. \<^verbatim>\<open>removeForBlock\<close> always returns on a pool the node can reach: no pointer of \<^verbatim>\<open>mapNextTx\<close> dangles. Afterwards no transaction of the block is in the pool, and no transaction of the pool, zerocoin spends apart, spends an output that one of the block spends; every entry was there before.
\<close>

theorem block_clears_pool:
  assumes "pool_reached pool"
  shows "\<exists>conflicts' pool'. removeForBlock txs conflicts pool = Some (conflicts', pool') \<and>
    (\<forall>tx \<in> set txs. \<not> pool_exists pool' (GetHash tx)) \<and>
    (\<forall>h e. map_of (mp_tx pool') h = Some e \<longrightarrow> map_of (mp_tx pool) h = Some e \<and>
       (\<not> tx_IsZerocoinSpend (me_tx e) \<longrightarrow>
          (\<forall>tx \<in> set txs. prevout ` set (vin (me_tx e)) \<inter> prevout ` set (vin tx) = {})))"
proof -
  obtain c p where p: "removeForBlock txs conflicts pool = Some (c, p)" "pool_ok p" "pool_sub pool p"
    "\<forall>tx \<in> set txs. map_of (mp_tx p) (GetHash tx) = None \<and> (\<forall>i \<in> set (vin tx). map_of (mp_next p) (prevout i) = None)"
    using removeForBlock_spec [OF pool_inv_ok [OF pool_reached_inv [OF assms]]] by blast
  have "prevout ` set (vin (me_tx e)) \<inter> prevout ` set (vin tx) = {}"
    if "map_of (mp_tx p) h = Some e" "\<not> tx_IsZerocoinSpend (me_tx e)" "tx \<in> set txs" for h e tx
    using pool_owns [OF p(2) that(1,2)] p(4) that(3) by force
  then show ?thesis using p by (auto simp: pool_exists_def pool_sub_def)
qed

theorem block_clears_pool_witness:
  "\<exists>pool c pool'. pool_exists pool (GetHash sample_zc_spend) \<and> removeForBlock [sample_zc_spend] [] pool = Some (c, pool') \<and>
     \<not> pool_exists pool' (GetHash sample_zc_spend)"
proof -
  let ?p = "addUnchecked (GetHash sample_zc_spend) (CTxMemPoolEntry_of sample_zc_spend 1000 50 0 0) pool_empty"
  have "pool_exists ?p (GetHash sample_zc_spend)" using sample_zc_lookup by (simp add: pool_exists_def)
  then show ?thesis using block_clears_pool [OF sample_zc_pool, of "[sample_zc_spend]" "[]"] by auto
qed

text \<open>
  C12. The loop of \<^verbatim>\<open>remove\<close> over its growing queue ends. With \<^verbatim>\<open>fRecursive\<close> the transaction is gone, every entry is still there or in the list of removed transactions, and no transaction left, zerocoin spends apart, spends an output of a removed one, or of the given transaction if that was not in the pool.
\<close>

theorem removal_takes_descendants:
  assumes "pool_reached pool"
  shows "\<exists>taken pool'. pool_remove tx True removed pool = Some (removed @ taken, pool') \<and>
    \<not> pool_exists pool' (GetHash tx) \<and>
    (\<forall>h e. map_of (mp_tx pool) h = Some e \<longrightarrow> map_of (mp_tx pool') h = Some e \<or> me_tx e \<in> set taken) \<and>
    (\<forall>t h e i. t \<in> set taken \<or> t = tx \<and> \<not> pool_exists pool (GetHash tx) \<longrightarrow> map_of (mp_tx pool') h = Some e \<longrightarrow>
       \<not> tx_IsZerocoinSpend (me_tx e) \<longrightarrow> i \<in> set (vin (me_tx e)) \<longrightarrow> op_hash (prevout i) = GetHash t \<longrightarrow>
       length (vout t) \<le> unat (op_n (prevout i)))"
proof -
  obtain txs p where p: "pool_remove tx True removed pool = Some (removed @ txs, p)" "pool_ok p"
    "map_of (mp_tx p) (GetHash tx) = None" "\<forall>t \<in> set txs. childless p t"
    "map_of (mp_tx pool) (GetHash tx) = None \<longrightarrow> childless p tx"
    "\<forall>h e. map_of (mp_tx pool) h = Some e \<longrightarrow> map_of (mp_tx p) h = Some e \<or> me_tx e \<in> set txs"
    using pool_remove_spec [OF pool_inv_ok [OF pool_reached_inv [OF assms]], of tx True removed] by auto
  have "length (vout t) \<le> unat (op_n (prevout i))"
    if "childless p t" "map_of (mp_tx p) h = Some e" "\<not> tx_IsZerocoinSpend (me_tx e)" "i \<in> set (vin (me_tx e))"
      "op_hash (prevout i) = GetHash t" for t h e i
    using childless_unspent [OF that(1), of "prevout i"] pool_owns [OF p(2) that(2-4)] that(5) by (auto simp: not_less [symmetric])
  then show ?thesis using p by (auto simp: pool_exists_def)
qed

theorem removal_takes_descendants_witness:
  "\<exists>pool taken pool'. pool_exists pool (GetHash sample_zc_spend) \<and> pool_remove sample_zc_spend True [] pool = Some (taken, pool') \<and>
     \<not> pool_exists pool' (GetHash sample_zc_spend)"
proof -
  let ?p = "addUnchecked (GetHash sample_zc_spend) (CTxMemPoolEntry_of sample_zc_spend 1000 50 0 0) pool_empty"
  have "pool_exists ?p (GetHash sample_zc_spend)" using sample_zc_lookup by (simp add: pool_exists_def)
  then show ?thesis using removal_takes_descendants [OF sample_zc_pool, of sample_zc_spend "[]"] by auto
qed



definition sample_tree :: index_heap where
  "sample_tree = (\<lambda>p. let e = CBlockIndex_Null\<lparr>ix_hash := word_of_nat (p + 100)\<rparr>
     in if p = 0 then e else if p = 1 then e\<lparr>ix_nHeight := 1, ix_pprev := Some 0, ix_pskip := Some 0\<rparr>
        else e\<lparr>ix_nHeight := 2, ix_pprev := Some 1, ix_pskip := Some 0\<rparr>)"

lemma sample_tree_ok: "index_ok sample_tree {0, 1, 2, 3}" by code_simp

lemma sample_active: "is_chain sample_tree {0, 1, 2, 3} [Some 0, Some 1, Some 2]" by code_simp

text \<open>
  C14. \<^verbatim>\<open>GetAncestor\<close>, which jumps along the skip list, ends and returns the entry reached by following \<^verbatim>\<open>pprev\<close> down to the height, null for a height above the block or negative; a new entry on top of a parent to which \<^verbatim>\<open>BuildSkip\<close> gives its skip pointer keeps the index well formed.
\<close>

theorem ancestor_by_skips:
  assumes "index_ok h S" "p \<in> S"
  shows "GetAncestor h p height =
      Some (if 0 \<le> height \<and> height \<le> ix_nHeight (h p) then walk_back h (nat (ix_nHeight (h p) - height)) p else None) \<and>
    (\<forall>q b. q \<notin> S \<and> ix_pprev b = Some p \<and> ix_nHeight b = ix_nHeight (h p) + 1 \<longrightarrow>
       (\<exists>h'. BuildSkip (h(q := b)) q = Some h' \<and> index_ok h' (insert q S) \<and> (\<forall>x. x \<noteq> q \<longrightarrow> h' x = h x)))"
  using GetAncestor_back [OF assms] BuildSkip_linked [OF assms(1) _ _ assms(2)] by blast

theorem ancestor_by_skips_witness: "GetAncestor sample_tree 3 0 = Some (Some 0)"
proof -
  have "walk_back sample_tree (nat (ix_nHeight (sample_tree 3) - 0)) 3 = Some 0 \<and> 0 \<le> ix_nHeight (sample_tree 3)" by code_simp
  then show ?thesis using ancestor_by_skips [OF sample_tree_ok, of 3 0] by simp
qed

definition sample_resigned :: "script \<Rightarrow> CTransaction" where
  "sample_resigned s = \<lparr>nVersion = 1, vin = [\<lparr>prevout = \<lparr>op_hash = 9, op_n = 0\<rparr>, scriptSig = s, nSequence = 7\<rparr>],
     vout = [\<lparr>nValue = 5, scriptPubKey = [0x51]\<rparr>], nLockTime = 0\<rparr>"

lemma sample_resigned_parts: "signs_all 1" "parses [0x51, 0xab, 0xac]" "parses [0x51, 0xac]"
  "strip_code [0x51, 0xab, 0xac] = [0x51, 0xac]" "strip_code [0x51, 0xac] = [0x51, 0xac]"
  by code_simp+

lemma sample_resigned_ok: "length s \<le> 2 \<Longrightarrow> tx_ok (sample_resigned s)"
  by (simp add: tx_ok_def sample_resigned_def txin_ok_def txout_ok_def MAX_SIZE_def)

lemma sample_resigned_message:
  "Serialize_sig (CTransactionSignatureSerializer (sample_resigned [1, 1]) [0x51, 0xab, 0xac] 0 1) =
   Serialize_sig (CTransactionSignatureSerializer (sample_resigned []) [0x51, 0xac] 0 1)"
  using sample_resigned_parts
  by (simp add: Serialize_sig_eq CTransactionSignatureSerializer_def)
    (simp add: signed_tx_def signed_input_def sample_resigned_def Let_def)

text \<open>
  C15. A signature over everything commits to everything: when the messages that two checks hash are equal and both hash types are plain \<^verbatim>\<open>SIGHASH_ALL\<close>, the transactions agree on version, outputs, lock time, previous outputs and sequence numbers (only the input scripts may differ), and the input signed and the script code without its separators are the same. Inputs and script codes are within the serialisation limits and the codes parse.
\<close>

theorem signature_commits_all:
  assumes "signs_all ht" "tx_ok tx" "parses code" "length code \<le> MAX_SIZE" "n < length (vin tx)"
    and "signs_all ht'" "tx_ok tx'" "parses code'" "length code' \<le> MAX_SIZE" "n' < length (vin tx')"
    and "Serialize_sig (CTransactionSignatureSerializer tx code n ht) @ ser_int 4 ht =
      Serialize_sig (CTransactionSignatureSerializer tx' code' n' ht') @ ser_int 4 ht'"
  shows "nVersion tx = nVersion tx' \<and> vout tx = vout tx' \<and> nLockTime tx = nLockTime tx' \<and>
    map prevout (vin tx) = map prevout (vin tx') \<and> map nSequence (vin tx) = map nSequence (vin tx') \<and>
    (strip_code code \<noteq> [] \<longrightarrow> n = n' \<and> strip_code code = strip_code code')"
  using assms by (rule signed_message_inj)

theorem signature_commits_all_witness:
  "strip_code [0x51, 0xab, 0xac] = strip_code [0x51, 0xac] \<and>
   map prevout (vin (sample_resigned [1, 1])) = map prevout (vin (sample_resigned []))"
  using signature_commits_all [of 1 "sample_resigned [1, 1]" "[0x51, 0xab, 0xac]" 0 1 "sample_resigned []" "[0x51, 0xac]" 0]
    sample_resigned_parts sample_resigned_ok [of "[1, 1]"] sample_resigned_ok [of "[]"] sample_resigned_message
  by (simp add: MAX_SIZE_def) (simp add: sample_resigned_def)





text \<open>
  C17. A \<^verbatim>\<open>Flush\<close> of the cache over the coins database succeeds and empties the cache; afterwards the database alone, read back from the bytes that were written, holds exactly the unspent outputs the cache stood for, with its best block.
\<close>

theorem flush_refines:
  assumes "pubkey_ops_ok pk" and "tip_inv pk s" and "hashBlock s \<noteq> 0"
  shows "\<exists>s'. Flush (db_ops pk) s = Some (True, s') \<and> tip_inv pk s' \<and> cacheCoins s' = [] \<and>
    db_utxo pk (c_base s') = tip_utxo pk s \<and> tip_utxo pk s' = tip_utxo pk s \<and> db_best (c_base s') = hashBlock s"
  using coins_view.Flush_spec [OF db_view [OF assms(1)], of s] assms(2,3) by (auto simp: tip_inv_def tip_utxo_def)

theorem flush_refines_witness:
  "\<exists>s'. Flush (db_ops raw_keys) (sample_cache (\<lambda>_. None)) = Some (True, s') \<and>
    db_utxo raw_keys (c_base s') 7 = Some sample_coins \<and> db_best (c_base s') = 8"
  using flush_refines [OF raw_keys_ok sample_tip(1)] by (auto simp: sample_tip) (auto simp: sample_cache_def)

definition sample_tx :: CTransaction where
  "sample_tx = \<lparr>nVersion = 1, vin = [\<lparr>prevout = \<lparr>op_hash = 7, op_n = 0\<rparr>, scriptSig = [], nSequence = - 1\<rparr>],
     vout = [\<lparr>nValue = 5, scriptPubKey = [0x51]\<rparr>], nLockTime = 0\<rparr>"

definition sample_env :: check_env where
  "sample_env = \<lparr>ce_MaxMoneyOut = 100, ce_MaxSpends = 7, ce_CheckZerocoinMint = (\<lambda>h t. True),
     ce_CheckZerocoinSpend = (\<lambda>t b. True), ce_fVerifySignature = True\<rparr>"

lemma sample_tx_accepted: "CheckTransaction sample_env sample_tx False = Inr ()"
  by (simp add: CheckTransaction_def sample_tx_def sample_env_def size_tx_def size_vector_def
      size_txin_def size_txout_def size_bytes_def GetSizeOfCompactSize_def MAX_ZEROCOIN_TX_SIZE_def
      CTxOut_IsEmpty_def MoneyRange_def IsZerocoinSpend_def IsCoinBase_def COutPoint_IsNull_def Let_def)

text \<open>
  C18. A transaction that \<^verbatim>\<open>CheckTransaction\<close> accepts has inputs and outputs, does not exceed the size limit, has no negative output, its outputs sum to at most \<^verbatim>\<open>MaxMoneyOut\<close>, its non-zerocoin inputs spend distinct outpoints, and if it is a coinbase its script has 2 to 150 bytes.
\<close>

theorem accepted_transaction_sane:
  assumes "CheckTransaction env tx fZerocoinActive = Inr ()" and "0 \<le> ce_MaxMoneyOut env"
  shows "vin tx \<noteq> [] \<and> vout tx \<noteq> [] \<and> size_tx tx \<le> MAX_ZEROCOIN_TX_SIZE \<and>
     list_all (\<lambda>t. 0 \<le> nValue t) (vout tx) \<and> sum_list (map nValue (vout tx)) \<le> ce_MaxMoneyOut env \<and>
     distinct (map prevout (filter (\<lambda>i. \<not> IsZerocoinSpend (scriptSig i)) (vin tx))) \<and>
     (IsCoinBase tx \<longrightarrow> length (scriptSig (hd (vin tx))) \<in> {2..150})"
  using CheckTransaction_sane [OF assms] by (simp add: tx_sane_def)

theorem accepted_transaction_sane_witness:
  "CheckTransaction sample_env sample_tx False = Inr () \<and> sum_list (map nValue (vout sample_tx)) \<le> 100"
  using accepted_transaction_sane [of sample_env sample_tx False] sample_tx_accepted
  by (simp add: sample_env_def)

definition sample_reward_env :: "int \<Rightarrow> reward_env" where
  "sample_reward_env n = \<lparr>re_testnet = False, re_spork14 = True, re_spork22 = 500000,
     re_mnCount = (\<lambda>p. n), re_moneySupply = 30000000 * COIN\<rparr>"

text \<open>
  C19. For every block value below \<open>2^53\<close> the payment to the masternode (seesaw included) and the payment to the prosperity node are non-negative and together at most the block value, whatever the height, network, sporks, masternode count and money supply.
\<close>

theorem payments_within_reward:
  assumes "0 \<le> blockValue" and "blockValue < 2 ^ 53"
  shows "0 \<le> GetMasternodePayment env nHeight blockValue \<and>
    0 \<le> GetProsperitynodePayment env nHeight blockValue \<and>
    GetMasternodePayment env nHeight blockValue + GetProsperitynodePayment env nHeight blockValue \<le> blockValue"
  using payments_le_reward [OF assms] GetMasternodePayment_le(1) [OF assms]
    GetProsperitynodePayment_nonneg [OF assms(1)] by simp

theorem payments_within_reward_witness:
  "GetMasternodePayment (sample_reward_env 100) 400000 (20 * COIN) +
   GetProsperitynodePayment (sample_reward_env 100) 400000 (20 * COIN) \<le> 20 * COIN"
  using payments_within_reward [of "20 * COIN" "sample_reward_env 100" 400000] by (simp add: COIN_def)




definition sample_ck :: sig_checker where
  "sample_ck = \<lparr>ck_CheckSig = (\<lambda>s k c. s = k), ck_CheckLockTime = (\<lambda>n. True), ck_CheckLowS = (\<lambda>s. True)\<rparr>"

lemma sample_eval: "EvalScript [] [0x51, 0x76] 0 sample_ck = Inr [[1], [1]]"
  by code_simp

text \<open>
  C22. When an evaluation succeeds on a stack of at most a thousand elements of at most 520 bytes, so is the stack it leaves; no instruction, numeric results and hashes included, produces a longer element.
\<close>

theorem eval_limits:
  assumes "EvalScript stack script flags ck = Inr stack'" and "length stack \<le> 1000"
    and "\<forall>v \<in> set stack. length v \<le> MAX_SCRIPT_ELEMENT_SIZE"
  shows "length stack' \<le> 1000 \<and> (\<forall>v \<in> set stack'. length v \<le> MAX_SCRIPT_ELEMENT_SIZE)"
  using EvalScript_limits [OF assms] .

theorem eval_limits_witness:
  "EvalScript [] [0x51, 0x76] 0 sample_ck = Inr [[1], [1]] \<and> length [[1], [1 :: byte]] \<le> 1000"
  using eval_limits [of "[]" "[0x51, 0x76]" 0 sample_ck "[[1], [1]]"] sample_eval by simp

text \<open>
  C23. Spending a pay-to-public-key-hash output with a push of a signature and a push of a key succeeds exactly when the key hashes to the hash in the output, the encodings required by the flags hold, and the signature checker accepts the signature under the key for the output script.
\<close>

theorem p2pkh_spend:
  assumes "length h = 20" "20 < length sig" "length sig \<le> 520" "2 \<le> length pk" "length pk \<le> 520"
  shows "VerifyScript (push_data sig @ push_data pk) ([0x76, 0xa9] @ push_data h @ [0x88, 0xac]) flags ck
      = Some (Inr ()) \<longleftrightarrow>
    Hash160 pk = h \<and> check_encodings flags ck sig pk = Inr () \<and>
    ck_CheckSig ck sig pk ([0x76, 0xa9] @ push_data h @ [0x88, 0xac])"
  using VerifyScript_p2pkh [OF assms] by (simp add: p2pkh_def)

theorem p2pkh_spend_witness:
  "VerifyScript (push_data (replicate 30 1) @ push_data (replicate 33 2))
      ([0x76, 0xa9] @ push_data (Hash160 (replicate 33 2)) @ [0x88, 0xac]) 0
      (sample_ck\<lparr>ck_CheckSig := (\<lambda>s k c. True)\<rparr>) = Some (Inr ())"
  using p2pkh_spend [of "Hash160 (replicate 33 2)" "replicate 30 1" "replicate 33 2" 0
      "sample_ck\<lparr>ck_CheckSig := (\<lambda>s k c. True)\<rparr>"]
  by (simp add: Hash160_eq check_encodings_def CheckSignatureEncoding_def CheckPubKeyEncoding_def has_flag_def)

text \<open>
  C24. With well-encoded signatures and keys on the stack, \<^verbatim>\<open>OP_CHECKMULTISIG\<close> consumes the two counts, the keys, the signatures and the extra element, counts the keys as operations, and pushes true exactly when the signatures check, in order, against a subsequence of the keys for the script with the signatures removed.
\<close>

theorem multisig_accepts:
  assumes "e_stack st = serialize (int (length keys)) # keys @ serialize (int (length sigs)) # sigs @ dummy # s"
    and "length sigs \<le> length keys" "length keys \<le> 20" "e_nOpCount st + length keys \<le> 201"
    and "\<And>v k. v \<in> set sigs \<Longrightarrow> k \<in> set keys \<Longrightarrow> check_encodings flags ck v k = Inr ()"
    and "has_flag flags SCRIPT_VERIFY_NULLDUMMY \<Longrightarrow> dummy = []"
  shows "exec_multisig flags ck OP_CHECKMULTISIG st = Inr (st\<lparr>
    e_stack := bool_vch (\<exists>ys. subseq ys keys \<and>
      list_all2 (\<lambda>v k. ck_CheckSig ck v k (drop_sigs (e_pbegincodehash st) sigs)) sigs ys) # s,
    e_nOpCount := e_nOpCount st + length keys\<rparr>)"
  using exec_multisig_spec [OF assms] by simp

theorem multisig_accepts_witness:
  "exec_multisig 0 sample_ck OP_CHECKMULTISIG
     (eval_init (serialize 2 # [[1], [2]] @ serialize 1 # [[2]] @ [] # []) [0xae])
   = Inr ((eval_init (serialize 2 # [[1], [2]] @ serialize 1 # [[2]] @ [] # []) [0xae])
       \<lparr>e_stack := [bool_vch (\<exists>ys. subseq ys [[1], [2]] \<and>
          list_all2 (\<lambda>v k. ck_CheckSig sample_ck v k (drop_sigs [0xae] [[2]])) [[2]] ys)], e_nOpCount := 2\<rparr>)"
  using multisig_accepts [of "eval_init (serialize 2 # [[1], [2]] @ serialize 1 # [[2]] @ [] # []) [0xae]"
      "[[1], [2]]" "[[2]]" "[]" "[]" 0 sample_ck]
  by (simp add: eval_init_def check_encodings_def CheckSignatureEncoding_def CheckPubKeyEncoding_def
      has_flag_def)

lemma sample_scriptnum: "CScriptNum [0x80, 0x80] True 4 = Some (- 128)"
  by code_simp

text \<open>
  C25. Reading back the serialisation of any number, with minimality required, gives the number; and any byte string the constructor accepts with minimality required is the serialisation of the number it gives.
\<close>

theorem scriptnum_bijection:
  "CScriptNum (serialize n) True (length (serialize n)) = Some n \<and>
   (CScriptNum vch True k = Some m \<longrightarrow> serialize m = vch)"
  using serialize_minimal [of n] set_vch_serialize [of n] serialize_set_vch [of vch]
  by (auto simp: CScriptNum_True)

theorem scriptnum_bijection_witness:
  "CScriptNum [0x80, 0x80] True 4 = Some (- 128) \<and> serialize (- 128) = [0x80, 0x80]"
  using scriptnum_bijection [of 0 "[0x80, 0x80]" 4 "- 128"] sample_scriptnum by simp

text \<open>
  C26. Reading the serialisation of a transaction, whatever follows it in the stream, gives the transaction back and leaves what follows; \<^verbatim>\<open>GetSerializeSize\<close> is the number of bytes written.
\<close>

theorem transaction_roundtrip:
  assumes "tx_ok tx"
  shows "unser_tx (ser_tx tx @ rest) = Some (tx, rest) \<and> size_tx tx = length (ser_tx tx)"
  using tx_c.unser_ser [OF assms] tx_c.size_ser [OF assms] by simp

theorem transaction_roundtrip_witness:
  "unser_tx (ser_tx sample_tx @ [1, 2]) = Some (sample_tx, [1, 2]) \<and> size_tx sample_tx = length (ser_tx sample_tx)"
  using transaction_roundtrip [of sample_tx "[1, 2]"]
  by (simp add: tx_ok_def sample_tx_def txin_ok_def txout_ok_def MAX_SIZE_def)

text \<open>
  C27. However a message is cut into calls of \<^verbatim>\<open>CHash256::Write\<close>, the hash is the double SHA-256 of the whole: the 64-byte buffering is exact. The same holds of \<^verbatim>\<open>CHash160\<close>.
\<close>

theorem hash_independent_of_chunks:
  "CHash256_Finalize (foldl CHash256_Write CSHA256_new cs) = hash256 (concat cs) \<and>
   CHash160_Finalize (foldl CHash160_Write CSHA256_new cs) = hash160 (concat cs)"
  by (simp add: h256.final_chunks h160.final_chunks)

text \<open>
  C28. The streaming \<^verbatim>\<open>CHMAC_SHA256\<close> computes HMAC as defined over whole strings, for keys shorter and longer than a block and however the message is cut.
\<close>

theorem hmac_is_rfc2104:
  "CHMAC_SHA256_Finalize (foldl CHMAC_SHA256_Write (CHMAC_SHA256_new key) cs) = hmac_sha256 key (concat cs)"
  by (rule hmac.final_chunks)

text \<open>
  C29. \<^verbatim>\<open>UpdateCoins\<close> on the stack of caches over the database refines the update of the map of unspent outputs: it fails its assertion exactly when an input has no unspent output, and otherwise yields the same undo records, the updated map and the old best block.
\<close>

theorem update_refines:
  assumes "pubkey_ops_ok pk" and "node_inv pk s" and "tx_storable tx" and "0 \<le> h" and "h < 2 ^ 31"
  shows "case u_update (node_utxo pk s) tx h of
      None \<Rightarrow> UpdateCoins (node_ops pk) tx h s = None
    | Some (us, u) \<Rightarrow> \<exists>s'. UpdateCoins (node_ops pk) tx h s = Some (us, s') \<and> node_inv pk s' \<and> node_utxo pk s' = u \<and>
        node_best s' = node_best s"
  using utxo_view.UpdateCoins_spec [OF node_view [OF assms(1)], of s tx h] assms(2-5)
  unfolding node_inv_def [symmetric] node_utxo_def [symmetric] node_best_def [symmetric]
    utxo_view.steps_def [OF node_view [OF assms(1)]] by (simp add: node_inv_def node_utxo_def node_best_def)

theorem update_refines_witness:
  "\<exists>us s'. UpdateCoins (node_ops raw_keys) sample_spend 11 (sample_cache (c_base (empty_node 8))) = Some (us, s') \<and>
    map u_nHeight us = [3] \<and> node_utxo raw_keys s' (GetHash sample_spend) = live (FromTx sample_spend 11)"
  using update_refines [OF raw_keys_ok sample_node(1) sample_storable(1), of 11 8]
  by (auto simp: sample_node(2) sample_u_update)

text \<open>
  C30. After \<^verbatim>\<open>HaveInputs\<close> said yes for a transaction with distinct inputs, \<^verbatim>\<open>UpdateCoins\<close> completes and keeps the invariant of the caches; its assertion \<^verbatim>\<open>assert(ret)\<close> cannot fail.
\<close>

theorem update_never_asserts:
  assumes "pubkey_ops_ok pk" and "node_inv pk s" and "HaveInputs (node_ops pk) tx s = (True, s')"
    and "distinct (map prevout (vin tx))" and "tx_storable tx" and "0 \<le> h" and "h < 2 ^ 31"
  shows "\<exists>us s''. UpdateCoins (node_ops pk) tx h s' = Some (us, s'') \<and> node_inv pk s''"
  using utxo_view.UpdateCoins_succeeds [OF node_view [OF assms(1)] assms(2-) [unfolded node_inv_def]]
  by (simp add: node_inv_def)

theorem update_never_asserts_witness:
  "\<exists>us s''. UpdateCoins (node_ops raw_keys) sample_spend 11 (sample_cache (c_base (empty_node 8))) = Some (us, s'')"
proof -
  have "distinct (map prevout (vin sample_spend))" by (simp add: sample_spend_def)
  then show ?thesis
    using update_never_asserts [OF raw_keys_ok sample_node(1) sample_have_inputs _ sample_storable(1), of 11 8] by auto
qed

text \<open>
  C31. Connecting a transaction with storable outputs keeps every record of the map storable (clean, values below \<open>2^60\<close>, heights and versions in range), and the undo records it produces are ones the undo encoding reads back.
\<close>

theorem records_stay_storable:
  assumes "u_ok u" and "low_heights u" and "tx_storable tx" and "0 < h" and "h < 2 ^ 31"
    and "u_update u tx h = Some (us, u')"
  shows "u_ok u' \<and> list_all undo_ok us"
  using u_update_ok [OF assms(6,1,3-5)] u_update_undo_ok [OF assms(6,1,2)] by simp

theorem records_stay_storable_witness:
  "\<exists>us u'. u_update [7 \<mapsto> sample_coins] sample_spend 11 = Some (us, u') \<and> u_ok u' \<and> list_all undo_ok us"
proof -
  have "u_ok [7 \<mapsto> sample_coins]" "low_heights [7 \<mapsto> sample_coins]"
    using sample_coins_ok(1) by (auto simp: u_ok_def low_heights_def) (simp_all add: sample_coins_def)
  from records_stay_storable [OF this sample_storable(1) _ _ sample_u_update] show ?thesis
    using sample_u_update by simp
qed

text \<open>
  C32. The undo record of a spend that empties a coinstake's record carries the coinstake flag, but restoring from it gives the record with the flag cleared: after a reorganisation the maturity rule no longer applies to the coinstake's outputs.
\<close>

theorem coinstake_flag_lost:
  assumes "coins_ok c" and "0 < c_nHeight c" and "fCoinStake c" and "Spend c n = Some (c', undo)" and "IsPruned c'"
  shows "u_fCoinStake undo \<and> restore_input undo n c' = (True, c\<lparr>fCoinStake := False\<rparr>) \<and> c\<lparr>fCoinStake := False\<rparr> \<noteq> c"
proof -
  note sp = Spend_cases [OF assms(4)]
  have e: "c_vout c' = []" using sp(5) assms(5) clean_pruned by blast
  have "restore_input undo n c' = (True, c\<lparr>fCoinStake := False\<rparr>)"
    using restore_after_spend [OF assms(1,2,4) sp(5), of False] assms(5) by simp
  moreover have "c\<lparr>fCoinStake := False\<rparr> \<noteq> c" using assms(3) by (metis CCoins.select_convs(2) CCoins.surjective CCoins.update_convs(2))
  ultimately show ?thesis using sp(7) [OF e] assms(3) by simp
qed

theorem coinstake_flag_lost_witness:
  "\<exists>c' undo. Spend sample_stake 0 = Some (c', undo) \<and> u_fCoinStake undo \<and> restore_input undo 0 c' = (True, sample_coins)"
proof -
  have s: "Spend sample_stake 0 = Some (sample_stake\<lparr>c_vout := []\<rparr>, \<lparr>u_txout = \<lparr>nValue = 5, scriptPubKey = [0x51]\<rparr>,
      u_fCoinBase = False, u_fCoinStake = True, u_nHeight = 3, u_nVersion = 1\<rparr>)"
    by (simp add: Spend_def sample_stake_def sample_coins_def CTxOut_IsNull_def CTxOut_Null_def Cleanup_def
        cleanup_strip CTxInUndo_def Let_def)
  have "coins_ok sample_stake" "0 < c_nHeight sample_stake" "fCoinStake sample_stake" "IsPruned (sample_stake\<lparr>c_vout := []\<rparr>)"
    using coins_ok_stake [OF sample_coins_ok(1), of True]
    by (simp_all add: sample_stake_def) (simp_all add: sample_coins_def IsPruned_def)
  from coinstake_flag_lost [OF this(1-3) s this(4)] s show ?thesis by (simp add: sample_stake_def) (simp add: sample_coins_def)
qed

text \<open>
  C33. For every transaction of a block the branch that \<^verbatim>\<open>GetMerkleBranch\<close> extracts leads \<^verbatim>\<open>CheckMerkleBranch\<close> from its id to the root that \<^verbatim>\<open>BuildMerkleTree\<close> computes, for blocks of any size.
\<close>

theorem merkle_branch_leads_to_root:
  assumes "i < length (vtx b)"
  shows "CheckMerkleBranch (GetHash (vtx b ! i)) (GetMerkleBranch b i) (Some i) = fst (BuildMerkleTree b)"
  by (rule CheckMerkleBranch_GetMerkleBranch [OF assms])

theorem merkle_branch_leads_to_root_witness:
  "CheckMerkleBranch (GetHash sample_spend) (GetMerkleBranch (sample_block\<lparr>vtx := [sample_coinbase, sample_spend]\<rparr>) 1) (Some 1)
    = fst (BuildMerkleTree (sample_block\<lparr>vtx := [sample_coinbase, sample_spend]\<rparr>))"
  using merkle_branch_leads_to_root [of 1 "sample_block\<lparr>vtx := [sample_coinbase, sample_spend]\<rparr>"] by simp

text \<open>
  C34. Two blocks with Merkle trees of the same height and the same root, neither of them flagged as mutated, have the same list of transaction ids, if no two of the pairs hashed for the two roots collide. Without the flag the last transactions could be repeated (CVE-2012-2459).
\<close>

theorem merkle_root_unique:
  assumes "BuildMerkleTree b = (r, False)" and "BuildMerkleTree b' = (r, False)"
    and "vtx b \<noteq> []" and "vtx b' \<noteq> []"
    and "length (levels (map GetHash (vtx b))) = length (levels (map GetHash (vtx b')))"
    and "inj_on (case_prod hash_pair) (merkle_pairs (map GetHash (vtx b)) \<union> merkle_pairs (map GetHash (vtx b')))"
  shows "map GetHash (vtx b) = map GetHash (vtx b')"
  using assms by (intro merkle_root_inj) (auto simp: BuildMerkleTree_root)

theorem merkle_root_unique_witness:
  "map GetHash (vtx sample_block) = map GetHash (vtx (sample_block\<lparr>nNonce := 5\<rparr>))"
  by (rule merkle_root_unique [of _ "GetHash sample_coinbase"])
    (simp_all add: BuildMerkleTree_root sample_fields merkle_pairs.simps)

text \<open>
  C35. A partial Merkle tree built from the ids of a block and a selection, written to the wire and read back, makes \<^verbatim>\<open>ExtractMatches\<close> return the Merkle root and exactly the selected ids, in their order; the padding bits of the encoding do no harm.
\<close>

theorem partial_tree_over_wire:
  assumes "v \<noteq> []" and "length v \<le> 33333" and "length m = length v"
  shows "\<exists>t. unser_pmt (ser_pmt (new_CPartialMerkleTree v m) @ s) = Some (t, s) \<and>
    ExtractMatches t = (merkle_root v, map fst (filter snd (zip v m)))"
proof -
  have "zip v m = map (\<lambda>i. (v ! i, m ! i)) [0..<length v]"
    using assms(3) by (intro nth_equalityI) auto
  then have "selected v m [0..<length v] = map fst (filter snd (zip v m))"
    by (simp add: selected_def filter_map comp_def)
  then show ?thesis using wire_pmt [of v m s] assms by (simp add: MAX_BLOCK_SIZE_CURRENT_def)
qed

theorem partial_tree_over_wire_witness:
  "\<exists>t. unser_pmt (ser_pmt (new_CPartialMerkleTree [11, 12, 13] [False, True, True])) = Some (t, []) \<and>
    ExtractMatches t = (merkle_root [11, 12, 13], [12, 13])"
  using partial_tree_over_wire [of "[11, 12, 13]" "[False, True, True]" "[]"] by simp



text \<open>
  C37. After \<^verbatim>\<open>SetTip\<close> to any entry of the index, whatever branch the chain held before, the chain ends in that entry, contains exactly its ancestors, and \<^verbatim>\<open>FindFork\<close> of any entry returns the last common ancestor of that entry and the tip. Both loops end.
\<close>

theorem chain_tip_and_fork:
  assumes "index_ok h S" "is_chain h S c" "t \<in> S" "p \<in> S"
  shows "\<exists>c' r. SetTip h (Some t) c = Some c' \<and> Tip c' = Some t \<and> chain_Height c' = ix_nHeight (h t) \<and>
    (\<forall>q \<in> S. Contains h c' q \<longleftrightarrow> ancestor h q t) \<and>
    FindFork h c' p = Some r \<and> last_common h p t r"
  using SetTip_path [OF assms(1-3)] Tip_path [OF assms(1,3)] Height_path [OF assms(1,3)]
    Contains_path [OF assms(1,3)] FindFork_common [OF assms(1,3,4)] by auto

theorem chain_tip_and_fork_witness:
  "\<exists>c'. SetTip sample_tree (Some 3) [Some 0, Some 1, Some 2] = Some c' \<and> Tip c' = Some 3 \<and>
     (\<exists>r. FindFork sample_tree c' 2 = Some r)"
  using chain_tip_and_fork [OF sample_tree_ok sample_active, of 3 2] by auto

text \<open>
  C38. Every 256-bit target has a compact form (the assertions of \<^verbatim>\<open>GetCompact\<close> hold); decoded by \<^verbatim>\<open>SetCompact\<close> it is not negative, does not overflow, is no greater than the target and smaller by at most one part in \<^verbatim>\<open>2^15\<close>, and encodes to the same compact form.
\<close>

theorem compact_precision:
  "\<exists>c y. GetCompact x False = Some c \<and> SetCompact c = (y, False, False) \<and> unat y \<le> unat x \<and>
     (unat x - unat y) * 2 ^ 15 \<le> unat x \<and> GetCompact y False = Some c"
  using compact_keeps [of x] by metis

definition sample_line :: index_heap where
  "sample_line p = (let e = CBlockIndex_Null\<lparr>ix_nHeight := int p, ix_nBits := 0x1d0fffff, ix_nTime := word_of_nat (1000 + 50 * p)\<rparr>
     in if p = 0 then e else e\<lparr>ix_pprev := Some (p - 1), ix_pskip := Some (nat (GetSkipHeight (int p)))\<rparr>)"

lemma sample_line_fields: "ix_nHeight (sample_line p) = int p" "ix_pprev (sample_line p) = (if p = 0 then None else Some (p - 1))"
  "ix_nBits (sample_line p) = 0x1d0fffff"
  "ix_nTime (sample_line p) = word_of_nat (1000 + 50 * p)" "0 < p \<Longrightarrow> ix_pskip (sample_line p) = Some (nat (GetSkipHeight (int p)))"
  by (simp_all add: sample_line_def CBlockIndex_Null_def Let_def)

lemma sample_line_back: "n \<le> p \<Longrightarrow> walk_back sample_line n p = Some (p - n)"
  by (induction n arbitrary: p) (simp_all add: sample_line_fields)

lemma sample_line_ok: "index_ok sample_line UNIV"
proof -
  have "entry_linked sample_line UNIV p" for p
  proof (cases "p = 0")
    case False
    then have "0 \<le> GetSkipHeight (int p)" "GetSkipHeight (int p) < int p" using GetSkipHeight_bounds [of "int p"] by auto
    then show ?thesis using False sample_line_back [of "nat (int (p - 1) - GetSkipHeight (int p))" "p - 1"]
      by (simp add: entry_linked_def sample_line_fields of_nat_diff nat_diff_distrib)
  qed (simp add: entry_linked_def sample_line_fields)
  then show ?thesis by (simp add: index_ok_def)
qed

text \<open>
  C39. On a well-formed index \<^verbatim>\<open>GetNextWorkRequired\<close> returns for every tip: no assertion fails, nothing is divided by zero, and the compact result decodes to a target within the limit of the branch taken. For proof of stake it is the compact form of the last target times \<^verbatim>\<open>1755 + 2 * spacing\<close> divided by 1845, or of the limit when that is zero or above it, as long as the factor fits 32 bits and the product 256.
\<close>

theorem next_target:
  assumes "index_ok h S" "p \<in> S" "0 < pw_TargetSpacing P" "pw_TargetSpacing P < 2 ^ 32"
  shows "(\<exists>c y. GetNextWorkRequired P h (Some p) = Some c \<and> SetCompact c = (y, False, False) \<and>
      y \<le> (if 24 \<le> ix_nHeight (h p) \<and> pw_LAST_POW_BLOCK P < ix_nHeight (h p) then bnTargetLimit else pw_ProofOfWorkLimit P)) \<and>
    (\<forall>q bn f. 24 \<le> ix_nHeight (h p) \<and> pw_LAST_POW_BLOCK P < ix_nHeight (h p) \<and> ix_pprev (h p) = Some q \<and>
       bn = fst (SetCompact (ix_nBits (h p))) \<and> f = nat (1755 + 2 * block_spacing h p q) \<and>
       f < 2 ^ 32 \<and> unat bn * f < 2 ^ 256 \<longrightarrow>
       (\<exists>t. GetNextWorkRequired P h (Some p) = GetCompact t False \<and>
         unat t = (if unat bn * f div 1845 = 0 \<or> unat bn * f div 1845 > unat bnTargetLimit
                   then unat bnTargetLimit else unat bn * f div 1845)))"
proof (intro conjI allI impI)
  show "\<exists>c y. GetNextWorkRequired P h (Some p) = Some c \<and> SetCompact c = (y, False, False) \<and>
      y \<le> (if 24 \<le> ix_nHeight (h p) \<and> pw_LAST_POW_BLOCK P < ix_nHeight (h p) then bnTargetLimit else pw_ProofOfWorkLimit P)"
    by (rule next_work_total [OF assms])
next
  fix q bn f
  assume *: "24 \<le> ix_nHeight (h p) \<and> pw_LAST_POW_BLOCK P < ix_nHeight (h p) \<and> ix_pprev (h p) = Some q \<and>
       bn = fst (SetCompact (ix_nBits (h p))) \<and> f = nat (1755 + 2 * block_spacing h p q) \<and>
       f < 2 ^ 32 \<and> unat bn * f < 2 ^ 256"
  let ?t = "stake_target bn (block_spacing h p q)"
  have "GetNextWorkRequired P h (Some p) = GetCompact ?t False" using next_work_stake [of h p P q] * by blast
  moreover have "unat ?t = (if unat bn * f div 1845 = 0 \<or> unat bn * f div 1845 > unat bnTargetLimit
      then unat bnTargetLimit else unat bn * f div 1845)"
  proof -
    have f: "nat (1755 + 2 * block_spacing h p q) = f" using * by simp
    have "nat (1755 + 2 * block_spacing h p q) < 2 ^ 32" unfolding f using * by simp
    then have r: "1755 + 2 * block_spacing h p q < 2 ^ 32" using block_spacing_range [of h p q] by (simp add: nat_less_iff)
    have "unat bn * nat (1755 + 2 * block_spacing h p q) < 2 ^ 256" unfolding f using * by blast
    from stake_target_value [OF block_spacing_range [THEN conjunct1] this r] show ?thesis unfolding Let_def f .
  qed
  ultimately show "\<exists>t. GetNextWorkRequired P h (Some p) = GetCompact t False \<and>
         unat t = (if unat bn * f div 1845 = 0 \<or> unat bn * f div 1845 > unat bnTargetLimit
                   then unat bnTargetLimit else unat bn * f div 1845)" by blast
qed

theorem next_target_witness:
  "\<exists>t. GetNextWorkRequired \<lparr>pw_ProofOfWorkLimit = 1, pw_LAST_POW_BLOCK = 20, pw_TargetSpacing = 45\<rparr> sample_line (Some 30) = GetCompact t False \<and>
     unat t = 0x0fffff * 256 ^ 26 * 1855 div 1845"
proof -
  let ?P = "\<lparr>pw_ProofOfWorkLimit = 1, pw_LAST_POW_BLOCK = 20, pw_TargetSpacing = 45\<rparr>"
  let ?bn = "fst (SetCompact (ix_nBits (sample_line 30)))"
  have f: "24 \<le> ix_nHeight (sample_line 30) \<and> 20 < ix_nHeight (sample_line 30) \<and> ix_pprev (sample_line 30) = Some 29 \<and>
      1755 + 2 * block_spacing sample_line 30 29 = 1855"
    by (simp add: sample_line_fields block_spacing_def GetBlockTime_def)
  have "?bn = push_bit 208 0x0fffff" unfolding sample_line_fields by code_simp
  then have b: "unat ?bn = 0x0fffff * 256 ^ 26" using unat_shl256 [of "0x0fffff" 208] by simp
  have "unat (NOT 0 :: 256 word) = 2 ^ 256 - 1" by (simp add: unsigned_minus_1_eq_mask mask_eq_exp_minus_1)
  then have l: "unat bnTargetLimit = 2 ^ 232 - 1" unfolding bnTargetLimit_def unat_drop256 by simp
  from next_target [OF sample_line_ok UNIV_I, of ?P 30, THEN conjunct2, rule_format, of 29 ?bn 1855]
  show ?thesis using f by (simp add: b l)
qed

text \<open>
  C40. Two blocks that \<^verbatim>\<open>ContextualCheckBlock\<close> accepts on top of parents at different heights, both of version 2 or later and under a majority of such blocks, have different coinbase scripts: the pushed heights are no prefixes of each other below 2^31.
\<close>

theorem coinbase_height_unique:
  assumes "ContextualCheckBlock env s b p = Inr ()" "ContextualCheckBlock env' s' b' p' = Inr ()"
    "hd_nVersion b \<ge> 2" "IsSuperMajority (be_to_check env) (st_index s) 2 p (be_enforce env)"
    "hd_nVersion b' \<ge> 2" "IsSuperMajority (be_to_check env') (st_index s') 2 p' (be_enforce env')"
    "n = (case p of None \<Rightarrow> 0 | Some q \<Rightarrow> ix_nHeight (st_index s q) + 1)"
    "n' = (case p' of None \<Rightarrow> 0 | Some q \<Rightarrow> ix_nHeight (st_index s' q) + 1)"
    "0 \<le> n" "n < 2 ^ 31" "0 \<le> n'" "n' < 2 ^ 31" "n \<noteq> n'"
  shows "scriptSig (hd (vin (hd (vtx b)))) \<noteq> scriptSig (hd (vin (hd (vtx b'))))"
  using push_int64_prefix_free [OF assms(9-12) ContextualCheckBlock_height [OF assms(1,3,4,7)]]
    ContextualCheckBlock_height [OF assms(2,5,6,8)] assms(13) by metis

theorem coinbase_height_unique_witness:
  "ContextualCheckBlock sample_block_env (sample_at 0) (sample_mined [0x51, 0]) (Some 0) = Inr () \<and>
   ContextualCheckBlock sample_block_env (sample_at 1) (sample_mined [0x52, 0]) (Some 0) = Inr () \<and>
   scriptSig (hd (vin (hd (vtx (sample_mined [0x51, 0]))))) \<noteq> scriptSig (hd (vin (hd (vtx (sample_mined [0x52, 0])))))"
proof -
  have v: "2 \<le> hd_nVersion (sample_mined sig)" for sig by (simp add: sample_mined_def)
  have h: "k + 1 = (case Some 0 of None \<Rightarrow> 0 | Some q \<Rightarrow> ix_nHeight (st_index (sample_at k) q) + 1)" for k
    by (simp add: sample_at_def)
  have n: "(0 :: int) \<le> 0 + 1" "(0 + 1 :: int) < 2 ^ 31" "(0 :: int) \<le> 1 + 1" "(1 + 1 :: int) < 2 ^ 31" "(0 + 1 :: int) \<noteq> 1 + 1"
    by simp_all
  show ?thesis
    using coinbase_height_unique [OF sample_mined_at v sample_majority v sample_majority h h n] sample_mined_at by blast
qed

section \<open>Further facts\<close>

text \<open>
  Let the coins of \<^verbatim>\<open>pcoinsTip\<close> over the database be those that the blocks of the active chain, applied in order, leave of the empty map (up to the coinstake flags that \<^verbatim>\<open>DisconnectBlock\<close> loses), and the undo data fit. Then the same holds whenever \<^verbatim>\<open>ActivateBestChain\<close>, \<^verbatim>\<open>InvalidateBlock\<close>, \<^verbatim>\<open>ReconsiderBlock\<close> or \<^verbatim>\<open>DisconnectBlocksAndReprocess\<close> return, whatever they return: after a failure in the middle of a reorganisation as after success.
\<close>

theorem coins_follow_chain:
  assumes "node_safe nd blk S s" and "\<And>b. pblock = Some b \<Longrightarrow> blk (nd_hash nd b) = b"
    and "ActivateBestChain (node_ledger nd) (nd_hash nd) pblock fAlreadyChecked s = Some (e, s') \<or>
      InvalidateBlock (node_ledger nd) p s = Some (e, s') \<or> ReconsiderBlock p s = Some s' \<or>
      DisconnectBlocksAndReprocess (node_ledger nd) blocks s = Some s'"
  shows "node_safe nd blk S s' \<and> coins_of_chain nd blk (st_index s') (st_active s') (st_coins s')"
proof -
  have i: "nl.safe nd blk S s" using assms(1) by (simp add: node_safe_locale)
  from assms(3) have "nl.safe nd blk S s'"
  proof (elim disjE)
    assume "ActivateBestChain (node_ledger nd) (nd_hash nd) pblock fAlreadyChecked s = Some (e, s')"
    from nl.ActivateBestChain_safe [OF this refl i] assms(2) show ?thesis by simp
  next
    assume "DisconnectBlocksAndReprocess (node_ledger nd) blocks s = Some s'"
    then show ?thesis using nl.disconnect_rounds_safe [OF _ i] by (simp add: DisconnectBlocksAndReprocess_def)
  qed (use nl.InvalidateBlock_safe [OF i] nl.ReconsiderBlock_safe [OF i] in blast)+
  then have "node_safe nd blk S s'" by (simp add: node_safe_locale)
  then show ?thesis using node_safe_coins by blast
qed

theorem coins_follow_chain_witness:
  "\<exists>s'. ActivateBestChain (node_ledger sample_node_env) (nd_hash sample_node_env) None False sample_start = Some (None, s') \<and>
    st_active s' = [Some 0] \<and> coins_of_chain sample_node_env (\<lambda>x. sample_genesis) (st_index s') [Some 0] (st_coins s')"
proof -
  obtain s' where s': "ActivateBestChain (node_ledger sample_node_env) (nd_hash sample_node_env) None False sample_start = Some (None, s')"
      "st_active s' = [Some 0]"
    using sample_activated by (auto simp: map_option_case split: option.splits prod.splits)
  have "coins_of_chain sample_node_env (\<lambda>x. sample_genesis) (st_index s') (st_active s') (st_coins s')"
    by (rule conjunct2 [OF coins_follow_chain [OF sample_start_safe _ disjI1 [OF s'(1)]]]) (simp_all add: sample_start_def)
  then show ?thesis using s' by auto
qed

text \<open>
  With the money supply and the height fixed, and outside block 325000, a larger positive masternode count never gives a larger seesaw payment: the more coins are locked in masternodes, the more of the reward goes to staking.
\<close>

theorem seesaw_antitone:
  assumes "0 \<le> blockValue" and "0 < adjusted_count env1" and "adjusted_count env1 \<le> adjusted_count env2"
    and "re_moneySupply env1 = re_moneySupply env2" and "nHeight \<noteq> 325000"
  shows "GetSeeSaw env2 nHeight blockValue \<le> GetSeeSaw env1 nHeight blockValue"
  using GetSeeSaw_antitone [OF assms] .

theorem seesaw_antitone_witness:
  "GetSeeSaw (sample_reward_env 3000) 400000 (12 * COIN) \<le> GetSeeSaw (sample_reward_env 100) 400000 (12 * COIN)"
  using seesaw_antitone [of "12 * COIN" "sample_reward_env 100" "sample_reward_env 3000" 400000]
  by (simp add: COIN_def sample_reward_env_def adjusted_count_def)

lemma sample_ops: "[0x7e] \<in> set (fst (ops_of [0x00, 0x63, 0x7e, 0x68, 0x51]))"
  by code_simp

text \<open>
  A script one of whose operations is a disabled opcode never evaluates successfully, whether or not that operation would be executed.
\<close>

theorem disabled_opcodes_fail:
  assumes "c \<in> set (fst (ops_of script))" and "disabled_opcode (unat (hd c))"
  shows "EvalScript stack script flags ck \<noteq> Inr stack'"
  using eval_loop_disabled [OF assms] by (auto simp: EvalScript_def sbind_eq_Inr split: if_split_asm)

theorem disabled_opcodes_fail_witness:
  "EvalScript [] [0x00, 0x63, 0x7e, 0x68, 0x51] 0 sample_ck \<noteq> Inr [[1]]"
  using disabled_opcodes_fail [OF sample_ops, of "[]" 0 sample_ck "[[1]]"]
  by (simp add: disabled_opcode_def)

text \<open>
  The assertion that the saved stack is not empty, made in \<^verbatim>\<open>VerifyScript\<close> before a pay-to-script-hash redemption, holds on every input: the function always returns.
\<close>

theorem verify_script_no_abort:
  "VerifyScript ssig spubkey flags ck \<noteq> None"
  by (rule VerifyScript_no_assert)

text \<open>
  \<^verbatim>\<open>IsValidSignatureEncoding\<close> accepts a byte string exactly when it is the DER sequence of two minimally encoded positive integers followed by one hash-type byte, with the two integers taking at most 66 bytes.
\<close>

theorem der_signature_layout:
  "IsValidSignatureEncoding sig \<longleftrightarrow>
    (\<exists>R S h. sig = [0x30, word_of_nat (length R + length S + 4), 0x02, word_of_nat (length R)] @ R @
        [0x02, word_of_nat (length S)] @ S @ [h] \<and>
      der_int R \<and> der_int S \<and> length R + length S \<le> 66)"
  using IsValidSignatureEncoding_iff [of sig] by (simp add: der_sig_def)

text \<open>
  Deleting the push of some data from a script removes exactly the operations that are that push, byte for byte, leaves every other operation and the unparsable tail in place, and returns how many were removed.
\<close>

theorem find_and_delete:
  assumes "length v < 2 ^ 32"
  shows "FindAndDelete s (push_data v) = (count_list (fst (ops_of s)) (push_data v),
    concat (filter (\<lambda>c. c \<noteq> push_data v) (fst (ops_of s))) @ snd (ops_of s))"
  using FindAndDelete_ops [OF assms] .

theorem find_and_delete_witness:
  "FindAndDelete [0x01, 0x07, 0x51] (push_data [0x07]) =
    (count_list (fst (ops_of [0x01, 0x07, 0x51])) (push_data [0x07]),
     concat (filter (\<lambda>c. c \<noteq> push_data [0x07]) (fst (ops_of [0x01, 0x07, 0x51]))) @ snd (ops_of [0x01, 0x07, 0x51]))"
  using find_and_delete [of "[0x07]" "[0x01, 0x07, 0x51]"] by simp

text \<open>
  For outputs that are 64-bit values, \<^verbatim>\<open>GetValueOut\<close> returns the exact sum when no output is negative and the sum fits in 63 bits, and throws otherwise: the wrap-around test catches every overflow.
\<close>

theorem value_out_exact:
  assumes "list_all int64_value (vout tx)"
  shows "GetValueOut tx =
    (if list_all (\<lambda>t. 0 \<le> nValue t) (vout tx) \<and> sum_list (map nValue (vout tx)) < 2 ^ 63
     then Some (sum_list (map nValue (vout tx))) else None)"
  using GetValueOut_spec [OF assms] .

theorem value_out_exact_witness: "GetValueOut sample_tx = Some 5"
  using value_out_exact [of sample_tx] by (simp add: sample_tx_def int64_value_def)

text \<open>
  Every storable record of unspent outputs has an encoding, and reading it back gives the record and leaves what follows: the header code with its flags, the mask of the remaining outputs, the compressed outputs and the height.
\<close>

theorem coins_record_roundtrip:
  assumes "pubkey_ops_ok pk" and "coins_ok c"
  shows "\<exists>bs. CCoins_Serialize pk c = Some bs \<and> CCoins_Unserialize pk (bs @ s) = Some (c, s)"
  by (rule CCoins_roundtrip [OF assms])

theorem coins_record_roundtrip_witness:
  "\<exists>bs. CCoins_Serialize raw_keys sample_coins = Some bs \<and> CCoins_Unserialize raw_keys (bs @ [1, 2]) = Some (sample_coins, [1, 2])"
  by (rule coins_record_roundtrip [OF raw_keys_ok sample_coins_ok(1)])

text \<open>
  An amount below \<open>2^60\<close> (no supply reaches it) is compressed to a 64-bit number from which it is recovered.
\<close>

theorem amount_compression:
  assumes "n < 2 ^ 60"
  shows "DecompressAmount (CompressAmount n) = n \<and> CompressAmount n < 2 ^ 64"
  using assms DecompressAmount_CompressAmount CompressAmount_bound by auto

theorem amount_compression_witness: "DecompressAmount (CompressAmount 123000) = 123000"
  using amount_compression [of 123000] by simp

text \<open>
  The loop \<^verbatim>\<open>while (CalcTreeWidth(nHeight) > 1) nHeight++\<close> ends, at the least height whose level has at most one node; a full binary tree of that height has fewer than \<open>4 n\<close> nodes, which bounds the traversal.
\<close>

theorem tree_height_found:
  "CalcTreeWidth n (height_loop n 0) \<le> 1 \<and> (\<forall>k < height_loop n 0. CalcTreeWidth n k > 1) \<and>
   (n > 0 \<longrightarrow> 2 ^ Suc (height_loop n 0) \<le> 4 * n)"
  using height_loop_width [of n 0] height_loop_least [of 0 _ n] height_bound [of n] by auto

theorem tree_height_found_witness:
  "CalcTreeWidth 5 (height_loop 5 0) \<le> 1 \<and> 2 ^ Suc (height_loop 5 0) \<le> (20 :: nat)"
  using tree_height_found [of 5] by simp

text \<open>
  The solver finds in the script \<^verbatim>\<open>GetScriptForDestination\<close> makes for a key id or a script id the destination it was made for.
\<close>

theorem destination_roundtrip:
  assumes "length h = 20"
  shows "ExtractDestination (GetScriptForDestination (CKeyID h)) = Some (CKeyID h) \<and>
    ExtractDestination (GetScriptForDestination (CScriptID h)) = Some (CScriptID h)"
  using ExtractDestination_GetScript [OF assms] by simp

theorem destination_roundtrip_witness:
  "ExtractDestination (GetScriptForDestination (CKeyID (replicate 20 7))) = Some (CKeyID (replicate 20 7))"
  using destination_roundtrip [of "replicate 20 7"] by simp

definition sample_std_tx :: CTransaction where
  "sample_std_tx = \<lparr>nVersion = 1, vin = [\<lparr>prevout = \<lparr>op_hash = 7, op_n = 0\<rparr>, scriptSig = [0x01, 0x61], nSequence = - 1\<rparr>],
     vout = [\<lparr>nValue = 100000000, scriptPubKey = 0xa9 # 0x14 # replicate 20 0 @ [0x87]\<rparr>], nLockTime = 0\<rparr>"

definition sample_policy :: policy_env where
  "sample_policy = \<lparr>pe_tipHeight = 100, pe_adjustedTime = 1000, pe_datacarrier = True, pe_nMaxDatacarrierBytes = 83,
     pe_fIsBareMultisigStd = True, pe_minRelayTxFee = 10000\<rparr>"

lemma sample_std_out: "IsStandard True 83 (0xa9 # 0x14 # replicate 20 0 @ [0x87]) = (True, TX_SCRIPTHASH)"
  "IsPushOnly [0x01, 0x61]" "CTxOut_IsDust 10000 (hd (vout sample_std_tx)) = False"
  by code_simp+

lemma sample_std_size: "size_tx sample_std_tx < 100000"
  by (simp add: sample_std_tx_def size_tx_def size_txin_def size_txout_def size_vector_def size_bytes_def
    GetSizeOfCompactSize_def)

lemma sample_std_parts: "\<not> ContainsZerocoins sample_std_tx" "IsFinalTx 100 1000 sample_std_tx 101 0"
  by code_simp+

text \<open>
  \<^verbatim>\<open>IsStandardTx\<close> accepts exactly the transactions of version 1 that are final in the next block, are below the size limit, whose non-zerocoin inputs have short push-only scripts, whose outputs are all standard and above dust, and of which at most one carries data.
\<close>

theorem standard_transaction:
  "IsStandardTx env tx = Inr () \<longleftrightarrow>
     nVersion tx = 1 \<and>
     IsFinalTx (pe_tipHeight env) (pe_adjustedTime env) tx (pe_tipHeight env + 1) 0 \<and>
     size_tx tx < (if ContainsZerocoins tx then 150000 else 100000) \<and>
     (\<forall>i \<in> set (vin tx). IsZerocoinSpend (scriptSig i) \<or> (length (scriptSig i) \<le> 1650 \<and> IsPushOnly (scriptSig i))) \<and>
     list_all (standard_out env) (vout tx) \<and> length (filter (null_data_out env) (vout tx)) \<le> 1"
  by (rule IsStandardTx_Inr)

theorem standard_transaction_witness: "IsStandardTx sample_policy sample_std_tx = Inr ()"
  using sample_std_size sample_std_parts sample_std_out
  by (simp add: standard_transaction sample_policy_def standard_out_def null_data_out_def)
    (simp add: sample_std_tx_def standard_out_def null_data_out_def)

text \<open>
  When the first input of a transaction spends a script hash with a redeem script that matches no template and has at most 15 signature operations, \<^verbatim>\<open>AreInputsStandard\<close> accepts the transaction without looking at the inputs that follow, standard or not, present or not.
\<close>

theorem nonstandard_redeem_ends_check:
  assumes "pubkey_ops_ok pk" and "node_inv pk s" and "spends_inputs tx" and "vin tx = i # is"
    and "utxo_out (node_utxo pk s) (prevout i) = Some prev" and "IsPayToScriptHash (scriptPubKey prev)"
    and "EvalScript [] (scriptSig i) 0 BaseSignatureChecker = Inr stack" and "stack \<noteq> []"
    and "\<not> fst (Solver (last stack))" and "GetSigOpCount (last stack) True \<le> 15"
  shows "\<exists>s'. AreInputsStandard (node_ops pk) tx s = Some (True, s')"
proof -
  have "standard_input i prev = Inl True"
    using assms(6-) by (auto simp: standard_input_def Solver_def [of "scriptPubKey prev"] ScriptSigArgsExpected_def
      MAX_P2SH_SIGOPS_def Let_def split: prod.splits)
  moreover have "coins_view (node_ops pk) (tip_inv pk) (tip_utxo pk) (cache_best db_best) cache_known coins_ok"
    using node_view [OF assms(1)] by (simp add: utxo_view_def)
  ultimately show ?thesis
    using coins_view.standard_inputs_early [of "node_ops pk" "tip_inv pk" "tip_utxo pk" _ _ coins_ok s i prev "is"] assms(2-5)
    by (auto simp: AreInputsStandard_def spends_inputs_def node_inv_def node_utxo_def)
qed

theorem nonstandard_redeem_ends_check_witness:
  "\<exists>s'. AreInputsStandard (node_ops raw_keys) sample_odd_spend (sample_p2sh_cache (c_base (empty_node 8))) = Some (True, s')"
proof (rule nonstandard_redeem_ends_check [OF raw_keys_ok sample_p2sh_node(1)])
  show "spends_inputs sample_odd_spend"
    by (simp add: sample_odd_spend_def spends_inputs_def IsCoinBase_def tx_IsZerocoinSpend_def)
  show "vin sample_odd_spend = \<lparr>prevout = \<lparr>op_hash = 7, op_n = 0\<rparr>, scriptSig = [0x01, 0x61], nSequence = - 1\<rparr> #
      [\<lparr>prevout = \<lparr>op_hash = 99, op_n = 3\<rparr>, scriptSig = [0x61], nSequence = - 1\<rparr>]"
    by (simp add: sample_odd_spend_def)
qed (use sample_p2sh_node(2) [of raw_keys 8] sample_redeem in auto)

definition sample_by_hash :: "uint256 \<Rightarrow> ptr option" where
  "sample_by_hash = map_of [(100, 0), (101, 1), (102, 2), (103, 3)]"

lemma sample_tree_facts:
  "\<forall>q \<in> {0, 1, 2, 3}. sample_by_hash (ix_hash (sample_tree q)) = Some q"
  "\<forall>a \<in> {0, 1, 2, 3}. \<forall>b \<in> {0, 1, 2, 3}. ix_nHeight (sample_tree a) = 0 \<longrightarrow> ix_nHeight (sample_tree b) = 0 \<longrightarrow> a = b"
  "path_to sample_tree 2 = [Some 0, Some 1, Some 2]"
  by code_simp+

text \<open>
  A locator built by \<^verbatim>\<open>GetLocator\<close> for a block, read by \<^verbatim>\<open>FindForkInGlobalIndex\<close> against any other chain of the index, yields a block that is an ancestor of both the block and that chain's tip; when the block itself is in the chain, it is the block found. \<^verbatim>\<open>GetLocator\<close> ends.
\<close>

theorem locator_common:
  assumes "index_ok h S" "t \<in> S" "p \<in> S" "is_chain h S c" "\<And>q. q \<in> S \<Longrightarrow> m (ix_hash (h q)) = Some q"
    and "\<And>a b. a \<in> S \<Longrightarrow> b \<in> S \<Longrightarrow> ix_nHeight (h a) = 0 \<Longrightarrow> ix_nHeight (h b) = 0 \<Longrightarrow> a = b"
  shows "\<exists>ls f. GetLocator h c (Some p) = Some ls \<and> FindForkInGlobalIndex h m (path_to h t) ls = Some f \<and>
    ancestor h f t \<and> ancestor h f p \<and> (ancestor h p t \<longrightarrow> f = p)"
  using assms by (rule locator_finds_common)

theorem locator_common_witness:
  "\<exists>ls f. GetLocator sample_tree [Some 0, Some 1, Some 2] (Some 3) = Some ls \<and>
     FindForkInGlobalIndex sample_tree sample_by_hash [Some 0, Some 1, Some 2] ls = Some f \<and> ancestor sample_tree f 3"
proof -
  have "\<exists>ls f. GetLocator sample_tree [Some 0, Some 1, Some 2] (Some 3) = Some ls \<and>
     FindForkInGlobalIndex sample_tree sample_by_hash (path_to sample_tree 2) ls = Some f \<and>
     ancestor sample_tree f 2 \<and> ancestor sample_tree f 3 \<and> (ancestor sample_tree 3 2 \<longrightarrow> f = 3)"
    by (rule locator_common [OF sample_tree_ok _ _ sample_active])
      (use sample_tree_facts in \<open>blast | metis\<close>)+
  then show ?thesis unfolding sample_tree_facts by blast
qed

end
